(* ===== verification/Prelude.thy ===== *)
theory Prelude
  imports Main "HOL-Library.Word" "HOL-Library.Monad_Syntax"
begin

text \<open>
  Shared vocabulary of the development: the machine integers of the Go code, the lemma
  collections, list slicing as Go does it, and a locale for machines that are run with fuel.

  Go's \<open>int32\<close> and \<open>uint32\<close> are both \<open>32 word\<close>: a conversion between them does not change the
  bits, a comparison after \<open>uint32(...)\<close> is the unsigned order of the word type, and a
  comparison of two \<open>int32\<close> values is the signed order, written with \<open>sint\<close>.
  A Go run-time panic (an index or slice bound out of range) is the value \<open>None\<close>.
\<close>

unbundle bit_operations_syntax

type_synonym u8 = "8 word"
type_synonym u16 = "16 word"
type_synonym u32 = "32 word"
type_synonym u64 = "64 word"

named_theorems bounds_simps \<open>turning word side conditions into linear arithmetic on nat\<close>
named_theorems step_simps \<open>one step of a transpiled routine, evaluated\<close>

section \<open>Option, list and word lemmas\<close>

text \<open>Addresses are kept as \<open>a + 2\<close>, not \<open>Suc (Suc a)\<close>.\<close>

declare add_2_eq_Suc [simp del] add_2_eq_Suc' [simp del]

lemmas option_bind_splits = Option.bind_split Option.bind_split_asm

lemma bind_if_None [simp]:
  "Option.bind (if b then Some x else None) f = (if b then f x else None)"
  by simp

lemma take_drop_nth_eqI:
  assumes "length xs = length ys" "a + n \<le> length xs"
    and "\<And>i. a \<le> i \<Longrightarrow> i < a + n \<Longrightarrow> xs ! i = ys ! i"
  shows "take n (drop a xs) = take n (drop a ys)"
  using assms by (intro nth_equalityI) auto

lemma unat_add_no_wrap:
  fixes x y :: "'a::len word"
  assumes "unat x + unat y < 2 ^ LENGTH('a)"
  shows "unat (x + y) = unat x + unat y"
  using assms by (rule unat_add_lem [THEN iffD1])

lemma unat_u32_less: "unat (x :: u32) < 4294967296"
  using unsigned_less [of x] by simp

lemma unat_u16_less: "unat (x :: u16) < 65536"
  using unsigned_less [of x] by simp

lemma unat_u8_less: "unat (x :: u8) < 256"
  using unsigned_less [of x] by simp

lemma unat_ucast_u8_u32 [simp]: "unat (ucast (x :: u8) :: u32) = unat x"
  by (simp add: unsigned_ucast_eq take_bit_nat_eq_self_iff less_le_trans [OF unat_u8_less])

lemma unat_ucast_u16_u32 [simp]: "unat (ucast (x :: u16) :: u32) = unat x"
  by (simp add: unsigned_ucast_eq take_bit_nat_eq_self_iff less_le_trans [OF unat_u16_less])

lemma ucast_u16_eq_iff [simp]:
  "(ucast (x :: u16) :: u32) = ucast y \<longleftrightarrow> x = y"
  by (metis unat_ucast_u16_u32 word_unat_eq_iff)

text \<open>A signed 32-bit index in the lower half of the address space is its unsigned value.\<close>

lemma sint_small: "unat (x :: u32) < 2 ^ 31 \<Longrightarrow> sint x = int (unat x)"
proof -
  assume b: "unat x < 2 ^ 31"
  have signed: "sint (word_of_int (int n) :: u32) = int n" if "n < 2 ^ 31" for n
    using that by (simp only: sint_sbintrunc') (simp add: signed_take_bit_int_eq_self)
  obtain n where n: "n = unat x" by simp
  with b signed have "sint (word_of_int (int n) :: u32) = int n" by blast
  moreover have "word_of_int (int n) = x" unfolding n by simp
  ultimately show ?thesis unfolding n by (simp only:)
qed

section \<open>Slices\<close>

text \<open>
  \<open>mem[x:y:len(mem)]\<close>: Go panics unless \<open>x <= y <= len(mem)\<close>.
\<close>

definition slice :: "'a list \<Rightarrow> nat \<Rightarrow> nat \<Rightarrow> 'a list option" where
  "slice xs x y = (if x \<le> y \<and> y \<le> length xs then Some (take (y - x) (drop x xs)) else None)"

text \<open>\<open>xs[i]\<close>.\<close>

definition index :: "'a list \<Rightarrow> nat \<Rightarrow> 'a option" where
  "index xs i = (if i < length xs then Some (xs ! i) else None)"

text \<open>\<open>xs[i] = v\<close>.\<close>

definition set_index :: "'a list \<Rightarrow> nat \<Rightarrow> 'a \<Rightarrow> 'a list option" where
  "set_index xs i v = (if i < length xs then Some (xs[i := v]) else None)"

text \<open>
  \<open>copy(dst[a:], src)\<close>: the overlap is copied, the result is the new backing list. The caller
  has checked \<open>a <= len(dst)\<close>.
\<close>

definition copy_at :: "'a list \<Rightarrow> nat \<Rightarrow> 'a list \<Rightarrow> 'a list" where
  "copy_at dst a src =
     (let n = min (length dst - a) (length src)
      in take a dst @ take n src @ drop (a + n) dst)"

lemma slice_Some_iff [simp]:
  "slice xs x y = Some s \<longleftrightarrow> x \<le> y \<and> y \<le> length xs \<and> s = take (y - x) (drop x xs)"
  by (auto simp: slice_def)

lemma index_Some_iff [simp]: "index xs i = Some v \<longleftrightarrow> i < length xs \<and> v = xs ! i"
  by (auto simp: index_def)

lemma set_index_Some_iff [simp]:
  "set_index xs i v = Some ys \<longleftrightarrow> i < length xs \<and> ys = xs[i := v]"
  by (auto simp: set_index_def)

lemma length_copy_at [simp]: "a \<le> length dst \<Longrightarrow> length (copy_at dst a src) = length dst"
  by (auto simp: copy_at_def Let_def)

lemma nth_copy_at:
  assumes "a \<le> length dst" "i < length dst"
  shows "copy_at dst a src ! i =
    (if a \<le> i \<and> i < a + length src then src ! (i - a) else dst ! i)"
  using assms by (auto simp: copy_at_def Let_def nth_append min_def)

section \<open>Machines run with fuel\<close>

text \<open>
  A deterministic machine takes steps that either go on in a new state or stop with a result;
  a step that panics is \<open>None\<close>. \<open>run\<close> is the loop, with fuel: \<open>None\<close> is a panic or not enough
  fuel.
\<close>

datatype ('s, 'r) progress = Next 's | Stop 'r

fun run :: "('s \<Rightarrow> ('s, 'r) progress option) \<Rightarrow> nat \<Rightarrow> 's \<Rightarrow> 'r option" where
  "run step 0 s = None"
| "run step (Suc n) s =
     (case step s of
        None \<Rightarrow> None
      | Some (Stop r) \<Rightarrow> Some r
      | Some (Next s') \<Rightarrow> run step n s')"

lemma run_mono:
  assumes "run step n s = Some r" "n \<le> m"
  shows "run step m s = Some r"
  using assms
proof (induction n arbitrary: s m)
  case 0
  then show ?case by simp
next
  case (Suc n)
  then obtain k where m: "m = Suc k" "n \<le> k" by (cases m) auto
  with Suc show ?case by (auto split: option.splits progress.splits)
qed

text \<open>
  The interface of a terminating machine: an invariant that every step keeps, under which no
  step panics, and a measure that every step decreases. Enough fuel is the measure plus one.
\<close>

locale terminating_machine =
  fixes step :: "'s \<Rightarrow> ('s, 'r) progress option"
    and inv :: "'s \<Rightarrow> bool"
    and msr :: "'s \<Rightarrow> nat"
  assumes no_panic: "inv s \<Longrightarrow> step s \<noteq> None"
    and inv_step: "inv s \<Longrightarrow> step s = Some (Next s') \<Longrightarrow> inv s'"
    and decreases: "inv s \<Longrightarrow> step s = Some (Next s') \<Longrightarrow> msr s' < msr s"
begin

lemma run_returns: "inv s \<Longrightarrow> msr s < n \<Longrightarrow> \<exists>r. run step n s = Some r"
proof (induction n arbitrary: s)
  case 0
  then show ?case by simp
next
  case (Suc n)
  from no_panic [OF Suc.prems(1)] obtain p where p: "step s = Some p" by auto
  show ?case
  proof (cases p)
    case (Stop r)
    with p show ?thesis by simp
  next
    case (Next s')
    with p have s': "step s = Some (Next s')" by simp
    with decreases [OF Suc.prems(1) s'] Suc.prems(2) have "msr s' < n" by simp
    with Suc.IH [OF inv_step [OF Suc.prems(1) s']] s' show ?thesis by simp
  qed
qed

lemma run_fuel_irrelevant:
  assumes "inv s" "msr s < n" "msr s < m"
  shows "run step n s = run step m s"
  using run_returns [OF assms(1,2)] run_returns [OF assms(1,3)]
  by (metis nat_le_linear run_mono)

end

text \<open>
  Forward simulation between two machines: related states make related steps and stop with
  related results. A run of the one is then matched by a run of the other with the same fuel.
\<close>

fun step_related ::
  "('c \<Rightarrow> 'a \<Rightarrow> bool) \<Rightarrow> ('r \<Rightarrow> 'q \<Rightarrow> bool) \<Rightarrow>
    ('c, 'r) progress option \<Rightarrow> ('a, 'q) progress \<Rightarrow> bool" where
  "step_related rel res (Some (Next c)) (Next a) = rel c a"
| "step_related rel res (Some (Stop r)) (Stop q) = res r q"
| "step_related rel res _ _ = False"

lemma step_related_Next:
  "step_related rel res p (Next a) \<longleftrightarrow> (\<exists>c. p = Some (Next c) \<and> rel c a)"
  by (cases p rule: option.exhaust; (cases "the p")?) auto

lemma step_related_Stop:
  "step_related rel res p (Stop q) \<longleftrightarrow> (\<exists>r. p = Some (Stop r) \<and> res r q)"
  by (cases p rule: option.exhaust; (cases "the p")?) auto

locale forward_simulation =
  fixes cstep :: "'c \<Rightarrow> ('c, 'r) progress option"
    and astep :: "'a \<Rightarrow> ('a, 'q) progress option"
    and rel :: "'c \<Rightarrow> 'a \<Rightarrow> bool"
    and res :: "'r \<Rightarrow> 'q \<Rightarrow> bool"
  assumes simulates: "rel c a \<Longrightarrow> astep a = Some p \<Longrightarrow> step_related rel res (cstep c) p"
begin

lemma run_simulates:
  "rel c a \<Longrightarrow> run astep n a = Some q \<Longrightarrow> \<exists>r. run cstep n c = Some r \<and> res r q"
proof (induction n arbitrary: c a)
  case 0
  then show ?case by simp
next
  case (Suc n)
  from Suc.prems(2) obtain p where p: "astep a = Some p" by (auto split: option.splits)
  from simulates [OF Suc.prems(1) p] have sim: "step_related rel res (cstep c) p" .
  show ?case
  proof (cases p)
    case (Next a')
    with sim obtain c' where "cstep c = Some (Next c')" "rel c' a'"
      by (auto simp: step_related_Next)
    with Suc.IH Suc.prems(2) p Next show ?thesis by auto
  next
    case (Stop q')
    with sim obtain r where "cstep c = Some (Stop r)" "res r q'"
      by (auto simp: step_related_Stop)
    with Suc.prems(2) p Stop show ?thesis by auto
  qed
qed

end

end
