(* ===== verification/Wasm_Memory.thy ===== *)
theory Wasm_Memory
  imports Prelude
begin

text \<open>
  The linear memory of the transpiled module (\<open>wasmMemory\<close> in \<open>internal/bpf.go\<close>): a Go byte
  slice. Loads and stores are little endian and panic past the end of the slice (\<open>None\<close>).
  Addresses are already widened to 64 bits by the callers (\<open>uint64(uint32(v))+12\<close>), so they are
  natural numbers here. The last part holds the \<open>i32_\<close> helper functions.
\<close>

type_synonym memory = "u8 list"

section \<open>Little-endian encodings\<close>

text \<open>\<open>binary.LittleEndian.Uint16\<close> and its kin panic on a slice that is too short.\<close>

definition le_uint16 :: "u8 list \<Rightarrow> u16 option" where
  "le_uint16 b = (if length b < 2 then None
     else Some (ucast (b ! 0) OR push_bit 8 (ucast (b ! 1))))"

definition le_uint32 :: "u8 list \<Rightarrow> u32 option" where
  "le_uint32 b = (if length b < 4 then None
     else Some (ucast (b ! 0) OR push_bit 8 (ucast (b ! 1))
       OR push_bit 16 (ucast (b ! 2)) OR push_bit 24 (ucast (b ! 3))))"

definition le_uint64 :: "u8 list \<Rightarrow> u64 option" where
  "le_uint64 b = (if length b < 8 then None
     else Some (ucast (b ! 0) OR push_bit 8 (ucast (b ! 1))
       OR push_bit 16 (ucast (b ! 2)) OR push_bit 24 (ucast (b ! 3))
       OR push_bit 32 (ucast (b ! 4)) OR push_bit 40 (ucast (b ! 5))
       OR push_bit 48 (ucast (b ! 6)) OR push_bit 56 (ucast (b ! 7))))"

definition le_bytes16 :: "u16 \<Rightarrow> u8 list" where
  "le_bytes16 v = [ucast v, ucast (drop_bit 8 v)]"

definition le_bytes32 :: "u32 \<Rightarrow> u8 list" where
  "le_bytes32 v = [ucast v, ucast (drop_bit 8 v), ucast (drop_bit 16 v), ucast (drop_bit 24 v)]"

definition le_bytes64 :: "u64 \<Rightarrow> u8 list" where
  "le_bytes64 v = [ucast v, ucast (drop_bit 8 v), ucast (drop_bit 16 v), ucast (drop_bit 24 v),
     ucast (drop_bit 32 v), ucast (drop_bit 40 v), ucast (drop_bit 48 v), ucast (drop_bit 56 v)]"

text \<open>\<open>binary.BigEndian.Uint32\<close>.\<close>

definition be_uint32 :: "u8 list \<Rightarrow> u32 option" where
  "be_uint32 b = (if length b < 4 then None
     else Some (ucast (b ! 3) OR push_bit 8 (ucast (b ! 2))
       OR push_bit 16 (ucast (b ! 1)) OR push_bit 24 (ucast (b ! 0))))"

lemma length_le_bytes [simp]:
  "length (le_bytes16 v) = 2" "length (le_bytes32 w) = 4" "length (le_bytes64 x) = 8"
  by (simp_all add: le_bytes16_def le_bytes32_def le_bytes64_def)

lemma bit_byte_at:
  fixes v :: "'a::len word"
  assumes "k + 8 \<le> LENGTH('a)"
  shows "bit (push_bit k (ucast (ucast (drop_bit k v) :: u8) :: 'a word)) n \<longleftrightarrow>
    k \<le> n \<and> n < k + 8 \<and> bit v n"
  using assms by (auto simp: bit_simps)

lemma bit_byte_low:
  fixes v :: "'a::len word"
  shows "8 \<le> LENGTH('a) \<Longrightarrow> bit (ucast (ucast v :: u8) :: 'a word) n \<longleftrightarrow> n < 8 \<and> bit v n"
  by (auto simp: bit_simps)

lemma le_uint16_bytes: "le_uint16 (le_bytes16 v) = Some v"
  unfolding le_uint16_def le_bytes16_def
  by (simp, rule bit_word_eqI) (auto simp: bit_simps)

lemma le_uint32_bytes: "le_uint32 (le_bytes32 v) = Some v"
proof -
  have "the (le_uint32 (le_bytes32 v)) = v"
  proof (rule bit_word_eqI)
    fix n assume "n < LENGTH(32)"
    then consider "0 \<le> n \<and> n < 8" | "8 \<le> n \<and> n < 16" | "16 \<le> n \<and> n < 24" | "24 \<le> n \<and> n < 32"
      by fastforce
    then show "bit (the (le_uint32 (le_bytes32 v))) n = bit v n"
      by cases (simp_all add: le_uint32_def le_bytes32_def bit_or_iff bit_byte_at bit_byte_low)
  qed
  then show ?thesis by (simp add: le_uint32_def le_bytes32_def)
qed

lemma le_uint64_bytes: "le_uint64 (le_bytes64 v) = Some v"
proof -
  have "the (le_uint64 (le_bytes64 v)) = v"
  proof (rule bit_word_eqI)
    fix n assume "n < LENGTH(64)"
    then consider "0 \<le> n \<and> n < 8" | "8 \<le> n \<and> n < 16" | "16 \<le> n \<and> n < 24" | "24 \<le> n \<and> n < 32" | "32 \<le> n \<and> n < 40" | "40 \<le> n \<and> n < 48" | "48 \<le> n \<and> n < 56" | "56 \<le> n \<and> n < 64"
      by fastforce
    then show "bit (the (le_uint64 (le_bytes64 v))) n = bit v n"
      by cases (simp_all add: le_uint64_def le_bytes64_def bit_or_iff bit_byte_at bit_byte_low)
  qed
  then show ?thesis by (simp add: le_uint64_def le_bytes64_def)
qed

section \<open>Byte ranges\<close>

definition get_bytes :: "memory \<Rightarrow> nat \<Rightarrow> nat \<Rightarrow> u8 list option" where
  "get_bytes m a n = slice m a (a + n)"

definition put_bytes :: "memory \<Rightarrow> nat \<Rightarrow> u8 list \<Rightarrow> memory option" where
  "put_bytes m a bs =
     (if a + length bs \<le> length m then Some (take a m @ bs @ drop (a + length bs) m) else None)"

lemma get_bytes_Some_iff [simp]:
  "get_bytes m a n = Some bs \<longleftrightarrow> a + n \<le> length m \<and> bs = take n (drop a m)"
  by (auto simp: get_bytes_def)

lemma get_bytes_in: "a + n \<le> length m \<Longrightarrow> get_bytes m a n = Some (take n (drop a m))"
  by simp

lemma put_bytes_in:
  "a + length bs \<le> length m \<Longrightarrow>
    put_bytes m a bs = Some (take a m @ bs @ drop (a + length bs) m)"
  by (simp add: put_bytes_def)

lemma length_put_bytes: "put_bytes m a bs = Some m' \<Longrightarrow> length m' = length m"
  by (auto simp: put_bytes_def split: if_splits)

lemma nth_put_bytes:
  "put_bytes m a bs = Some m' \<Longrightarrow> i < length m \<Longrightarrow>
    m' ! i = (if a \<le> i \<and> i < a + length bs then bs ! (i - a) else m ! i)"
  by (auto simp: put_bytes_def nth_append min_def split: if_splits)

lemma get_put_same:
  "put_bytes m a bs = Some m' \<Longrightarrow> get_bytes m' a (length bs) = Some bs"
  by (auto simp: put_bytes_def split: if_splits)

lemma get_put_disjoint:
  assumes "put_bytes m a bs = Some m'" "a + length bs \<le> b \<or> b + n \<le> a"
  shows "get_bytes m' b n = get_bytes m b n"
  using assms length_put_bytes [OF assms(1)]
  by (auto simp: get_bytes_def slice_def nth_put_bytes [OF assms(1)] intro!: take_drop_nth_eqI)

text \<open>
  \<open>same_outside m m' a n\<close>: the memories differ at most in the \<open>n\<close> bytes from \<open>a\<close>.
\<close>

definition same_outside :: "memory \<Rightarrow> memory \<Rightarrow> nat \<Rightarrow> nat \<Rightarrow> bool" where
  "same_outside m m' a n \<longleftrightarrow> length m' = length m \<and>
     (\<forall>i < length m. i < a \<or> a + n \<le> i \<longrightarrow> m' ! i = m ! i)"

lemma same_outside_refl [simp, intro]: "same_outside m m a n"
  by (simp add: same_outside_def)

lemma same_outside_length: "same_outside m m' a n \<Longrightarrow> length m' = length m"
  by (simp add: same_outside_def)

lemma same_outside_trans:
  "same_outside m m' a n \<Longrightarrow> same_outside m' m'' a n \<Longrightarrow> same_outside m m'' a n"
  by (auto simp: same_outside_def)

lemma same_outside_put:
  "put_bytes m b bs = Some m' \<Longrightarrow> a \<le> b \<Longrightarrow> b + length bs \<le> a + n \<Longrightarrow> same_outside m m' a n"
  by (auto simp: same_outside_def length_put_bytes nth_put_bytes)

lemma same_outside_take_drop:
  "same_outside m m' a n \<Longrightarrow> b + k \<le> a \<or> a + n \<le> b \<Longrightarrow> b + k \<le> length m \<Longrightarrow>
    take k (drop b m') = take k (drop b m)"
  by (rule take_drop_nth_eqI) (auto simp: same_outside_def)

lemma same_outside_get:
  "same_outside m m' a n \<Longrightarrow> b + k \<le> a \<or> a + n \<le> b \<Longrightarrow> get_bytes m' b k = get_bytes m b k"
  using same_outside_take_drop [of m m' a n b k]
  by (auto simp: get_bytes_def slice_def same_outside_length)

section \<open>Typed cells\<close>

text \<open>
  A cell type is a width with an encoder and a decoder that undo each other. What a store does
  to later loads follows from that alone; the widths the code uses are interpretations.
\<close>

locale byte_cell =
  fixes dec :: "u8 list \<Rightarrow> 'v option"
    and enc :: "'v \<Rightarrow> u8 list"
    and w :: nat
  assumes enc_length: "length (enc v) = w"
    and dec_enc: "dec (enc v) = Some v"
    and dec_total: "length bs = w \<Longrightarrow> dec bs \<noteq> None"
begin

lemma load_after_store:
  "put_bytes m a (enc v) = Some m' \<Longrightarrow> Option.bind (get_bytes m' a w) dec = Some v"
  using get_put_same [of m a "enc v" m'] by (simp only: enc_length bind.bind_lunit dec_enc)

lemma load_after_store_elsewhere:
  "put_bytes m a (enc v) = Some m' \<Longrightarrow> a + w \<le> b \<or> b + n \<le> a \<Longrightarrow>
    get_bytes m' b n = get_bytes m b n"
  by (erule get_put_disjoint) (simp add: enc_length)

lemma store_in: "a + w \<le> length m \<Longrightarrow> \<exists>m'. put_bytes m a (enc v) = Some m'"
  by (simp add: put_bytes_def enc_length)

lemma load_in: "a + w \<le> length m \<Longrightarrow> \<exists>v. Option.bind (get_bytes m a w) dec = Some v"
  using dec_total [of "take w (drop a m)"] by (simp add: get_bytes_in)

lemma load_out: "length m < a + w \<Longrightarrow> Option.bind (get_bytes m a w) dec = None"
  by (simp add: get_bytes_def slice_def)

lemma store_out: "length m < a + w \<Longrightarrow> put_bytes m a (enc v) = None"
  by (simp add: put_bytes_def enc_length)

lemma store_same_outside:
  "put_bytes m a (enc v) = Some m' \<Longrightarrow> b \<le> a \<Longrightarrow> a + w \<le> b + n \<Longrightarrow> same_outside m m' b n"
  by (erule same_outside_put) (simp_all add: enc_length)

end

interpretation cell16: byte_cell le_uint16 le_bytes16 2
  by unfold_locales (simp_all add: le_uint16_bytes, simp add: le_uint16_def)

interpretation cell32: byte_cell le_uint32 le_bytes32 4
  by unfold_locales (simp_all add: le_uint32_bytes, simp add: le_uint32_def)

interpretation cell64: byte_cell le_uint64 le_bytes64 8
  by unfold_locales (simp_all add: le_uint64_bytes, simp add: le_uint64_def)

definition load16 :: "memory \<Rightarrow> nat \<Rightarrow> u16 option" where
  "load16 m a = do { b \<leftarrow> get_bytes m a 2; le_uint16 b }"

definition store16 :: "memory \<Rightarrow> nat \<Rightarrow> u16 \<Rightarrow> memory option" where
  "store16 m a v = put_bytes m a (le_bytes16 v)"

definition load32 :: "memory \<Rightarrow> nat \<Rightarrow> u32 option" where
  "load32 m a = do { b \<leftarrow> get_bytes m a 4; le_uint32 b }"

definition store32 :: "memory \<Rightarrow> nat \<Rightarrow> u32 \<Rightarrow> memory option" where
  "store32 m a v = put_bytes m a (le_bytes32 v)"

definition load64 :: "memory \<Rightarrow> nat \<Rightarrow> u64 option" where
  "load64 m a = do { b \<leftarrow> get_bytes m a 8; le_uint64 b }"

definition store64 :: "memory \<Rightarrow> nat \<Rightarrow> u64 \<Rightarrow> memory option" where
  "store64 m a v = put_bytes m a (le_bytes64 v)"

text \<open>\<open>int32(m.memory[a])\<close> and \<open>m.memory[a] = byte(v)\<close>.\<close>

definition load8 :: "memory \<Rightarrow> nat \<Rightarrow> u32 option" where
  "load8 m a = map_option ucast (index m a)"

definition store8 :: "memory \<Rightarrow> nat \<Rightarrow> u32 \<Rightarrow> memory option" where
  "store8 m a v = set_index m a (ucast v)"

lemma load32_store32: "store32 m a v = Some m' \<Longrightarrow> load32 m' a = Some v"
  unfolding load32_def store32_def by (rule cell32.load_after_store)

lemma load32_store32_other:
  "store32 m a v = Some m' \<Longrightarrow> a + 4 \<le> b \<or> b + 4 \<le> a \<Longrightarrow> load32 m' b = load32 m b"
  unfolding load32_def store32_def by (simp add: cell32.load_after_store_elsewhere)

lemma length_store32: "store32 m a v = Some m' \<Longrightarrow> length m' = length m"
  unfolding store32_def by (rule length_put_bytes)

lemma length_store64: "store64 m a v = Some m' \<Longrightarrow> length m' = length m"
  unfolding store64_def by (rule length_put_bytes)

lemma load32_in: "a + 4 \<le> length m \<Longrightarrow> \<exists>v. load32 m a = Some v"
  unfolding load32_def by (rule cell32.load_in)

lemma store32_in: "a + 4 \<le> length m \<Longrightarrow> \<exists>m'. store32 m a v = Some m'"
  unfolding store32_def by (rule cell32.store_in)

lemma load32_cong: "get_bytes m a 4 = get_bytes m' a 4 \<Longrightarrow> load32 m a = load32 m' a"
  by (simp add: load32_def)

lemma load16_cong: "get_bytes m a 2 = get_bytes m' a 2 \<Longrightarrow> load16 m a = load16 m' a"
  by (simp add: load16_def)

lemma store32_same_outside:
  "store32 m a v = Some m' \<Longrightarrow> b \<le> a \<Longrightarrow> a + 4 \<le> b + n \<Longrightarrow> same_outside m m' b n"
  unfolding store32_def by (rule cell32.store_same_outside)

lemma store64_same_outside:
  "store64 m a v = Some m' \<Longrightarrow> b \<le> a \<Longrightarrow> a + 8 \<le> b + n \<Longrightarrow> same_outside m m' b n"
  unfolding store64_def by (rule cell64.store_same_outside)

section \<open>Bulk operations\<close>

text \<open>
  \<open>memory_grow\<close>: the result is the old size in pages, or \<open>-1\<close> with the memory unchanged. The
  parameters are Go's 64-bit integers; \<open>bits.Add64\<close> gives the sum and its carry.
\<close>

definition memory_grow :: "memory \<Rightarrow> u64 \<Rightarrow> u64 \<Rightarrow> memory \<times> u64" where
  "memory_grow buf delta mx =
     (let len = length buf;
          old = len div 2 ^ 16
      in if delta = 0 then (buf, of_nat old)
         else
           (let max' = min mx (drop_bit 16 (2 ^ 63 - 1));
                new = of_nat old + delta;
                c = (2 ^ 64 \<le> old + unat delta)
            in if c \<or> new > max' then (buf, - 1)
               else (buf @ replicate (unat (push_bit 16 new) - len) 0, of_nat old)))"

text \<open>\<open>memory_copy\<close>; Go's \<open>copy\<close> has the semantics of \<open>memmove\<close>.\<close>

definition memory_copy :: "memory \<Rightarrow> nat \<Rightarrow> nat \<Rightarrow> nat \<Rightarrow> memory option" where
  "memory_copy mem dest src n =
     (let x = dest; z = src; y = x + n; w = z + n
      in do { _ \<leftarrow> slice mem x y; s \<leftarrow> slice mem z w; Some (copy_at mem x s) })"

text \<open>\<open>memory_init\<close>: a range of the data segment is copied into the memory.\<close>

definition memory_init :: "memory \<Rightarrow> u8 list \<Rightarrow> nat \<Rightarrow> nat \<Rightarrow> nat \<Rightarrow> memory option" where
  "memory_init mem data dest src n =
     (let x = dest; z = src; y = x + n; w = z + n
      in do { _ \<leftarrow> slice mem x y; s \<leftarrow> slice data z w; Some (copy_at mem x s) })"

definition memory_zero :: "memory \<Rightarrow> nat \<Rightarrow> nat \<Rightarrow> memory option" where
  "memory_zero mem dest n =
     (let x = dest; y = x + n
      in do { s \<leftarrow> slice mem x y; Some (copy_at mem x (replicate (length s) 0)) })"

text \<open>
  The doubling loop of \<open>memory_fill\<close>. It is entered at \<open>i = 1\<close>; the guard \<open>0 < i\<close> is there for
  the termination proof only.
\<close>

function fill_loop :: "u8 list \<Rightarrow> nat \<Rightarrow> u8 list" where
  "fill_loop buf i =
     (if 0 < i \<and> i < length buf then
        (let chunk = min i 8192
         in fill_loop (copy_at buf i (take chunk buf)) (i + min (length buf - i) chunk))
      else buf)"
  by pat_completeness auto
termination
  by (relation "measure (\<lambda>(buf, i). length buf - i)") (auto simp: Let_def)

declare fill_loop.simps [simp del]

definition memory_fill :: "memory \<Rightarrow> nat \<Rightarrow> u32 \<Rightarrow> nat \<Rightarrow> memory option" where
  "memory_fill mem dest val n =
     (let x = dest; y = x + n
      in do {
        buf \<leftarrow> slice mem x y;
        Some (if 0 < length buf
              then copy_at mem x (fill_loop (buf[0 := ucast val]) 1)
              else mem)
      })"

lemma fill_loop_replicate:
  "0 < i \<Longrightarrow> i \<le> length buf \<Longrightarrow> (\<And>j. j < i \<Longrightarrow> buf ! j = c) \<Longrightarrow>
    fill_loop buf i = replicate (length buf) c"
proof (induction buf i rule: fill_loop.induct)
  case (1 buf i)
  show ?case
  proof (cases "i < length buf")
    case False
    with "1.prems" show ?thesis
      by (subst fill_loop.simps) (auto intro: nth_equalityI)
  next
    case True
    define chunk where "chunk = min i 8192"
    have chunk: "0 < chunk" "chunk \<le> i" using "1.prems"(1) by (auto simp: chunk_def)
    have pre: "copy_at buf i (take chunk buf) ! j = c"
      if "j < i + min (length buf - i) chunk" for j
      using that "1.prems" True chunk by (auto simp: nth_copy_at)
    have "fill_loop (copy_at buf i (take chunk buf)) (i + min (length buf - i) chunk) =
        replicate (length (copy_at buf i (take chunk buf))) c"
      using "1.IH" [OF _ chunk_def] "1.prems"(1) True pre by simp
    with "1.prems"(1) True show ?thesis
      by (subst fill_loop.simps) (simp add: Let_def chunk_def)
  qed
qed

lemma memory_fill_eq:
  "memory_fill mem dest val n =
     (if dest + n \<le> length mem
      then Some (take dest mem @ replicate n (ucast val) @ drop (dest + n) mem) else None)"
proof (cases "dest + n \<le> length mem \<and> 0 < n")
  case True
  then have "fill_loop ((take n (drop dest mem))[0 := ucast val]) 1 = replicate n (ucast val)"
    by (subst fill_loop_replicate [where c = "ucast val"]) auto
  moreover from True have "min (length mem - dest) n = n" by arith
  ultimately show ?thesis using True
    by (simp add: memory_fill_def slice_def Let_def copy_at_def)
next
  case False
  then show ?thesis by (auto simp: memory_fill_def slice_def Let_def)
qed

lemma memory_copy_in:
  "dest + n \<le> length mem \<Longrightarrow> src + n \<le> length mem \<Longrightarrow>
    memory_copy mem dest src n = put_bytes mem dest (take n (drop src mem))"
  by (simp add: memory_copy_def slice_def Let_def put_bytes_def copy_at_def)

section \<open>Helpers on 32-bit integers\<close>

definition i32_shl :: "u32 \<Rightarrow> u32 \<Rightarrow> u32" where
  "i32_shl x y = push_bit (unat (y AND 31)) x"

definition i32_shr_u :: "u32 \<Rightarrow> u32 \<Rightarrow> u32" where
  "i32_shr_u x y = drop_bit (unat (y AND 31)) x"

text \<open>\<open>bits.RotateLeft32\<close>: \<open>s := uint(k) & 31; x << s | x >> (32 - s)\<close>.\<close>

definition rotate_left32 :: "u32 \<Rightarrow> int \<Rightarrow> u32" where
  "rotate_left32 x k = (let s = nat (k mod 32) in push_bit s x OR drop_bit (32 - s) x)"

definition i32_rotl :: "u32 \<Rightarrow> u32 \<Rightarrow> u32" where
  "i32_rotl x y = rotate_left32 x (sint y)"

definition i32_rotr :: "u32 \<Rightarrow> u32 \<Rightarrow> u32" where
  "i32_rotr x y = rotate_left32 x (- sint y)"

text \<open>
  The byte swap that the C compiler makes of \<open>ntohl\<close>; the interpreter and \<open>_ntohl\<close>, \<open>_htonl\<close>
  hold the same expression.
\<close>

definition byteswap32 :: "u32 \<Rightarrow> u32" where
  "byteswap32 v = drop_bit 8 ((v XOR i32_rotr v 16) AND - 0xff0100) XOR i32_rotr v 8"

definition ntohl :: "u32 \<Rightarrow> u32" where
  "ntohl v0 = byteswap32 v0"

definition htonl :: "u32 \<Rightarrow> u32" where
  "htonl v0 = byteswap32 v0"

definition ntohs :: "u32 \<Rightarrow> u32" where
  "ntohs v0 = (push_bit 8 v0 OR drop_bit 8 v0) AND 0xffff"

lemma rotr_consts:
  "i32_rotr v 16 = push_bit 16 v OR drop_bit 16 v"
  "i32_rotr v 8 = push_bit 24 v OR drop_bit 8 v"
  by (simp_all add: i32_rotr_def rotate_left32_def Let_def)

lemma bit_u8_high: "8 \<le> n \<Longrightarrow> \<not> bit (b :: u8) n"
  by (auto dest: bit_imp_le_length)

lemma byte_position:
  "n < LENGTH(32) \<Longrightarrow> n < 8 \<or> (\<exists>k. n = 8 + k \<and> k < 8) \<or> (\<exists>k. n = 16 + k \<and> k < 8) \<or>
    (\<exists>k. n = 24 + k \<and> k < 8)"
  by simp presburger

lemma byteswap_mask: "(- 0xff0100 :: u32) = push_bit 24 (mask 8) OR push_bit 8 (mask 8)"
  by (simp add: mask_eq_exp_minus_1 push_bit_eq_mult)

text \<open>Swapping the bytes of a little-endian load gives the big-endian value.\<close>

lemma byteswap32_be:
  assumes "le_uint32 bs = Some v"
  shows "be_uint32 bs = Some (byteswap32 v)"
proof -
  have v: "v = ucast (bs ! 0) OR push_bit 8 (ucast (bs ! 1))
      OR push_bit 16 (ucast (bs ! 2)) OR push_bit 24 (ucast (bs ! 3))"
    and len: "\<not> length bs < 4"
    using assms by (auto simp: le_uint32_def split: if_splits)
  have "the (be_uint32 bs) = byteswap32 v"
  proof (rule bit_word_eqI)
    fix n assume "n < LENGTH(32)"
    then consider "n < 8" | k where "n = k + 8" "k < 8" | k where "n = k + 16" "k < 8"
      | k where "n = k + 24" "k < 8"
      by (metis add.commute byte_position)
    then show "bit (the (be_uint32 bs)) n = bit (byteswap32 v) n"
      by cases (auto simp: be_uint32_def len v byteswap32_def byteswap_mask rotr_consts
        bit_or_iff bit_xor_iff bit_and_iff bit_push_bit_iff bit_drop_bit_eq
        bit_ucast_iff bit_mask_iff bit_u8_high)
  qed
  with len show ?thesis by (simp add: be_uint32_def)
qed

end
