(* ===== verification/Bpf_Machine.thy ===== *)
theory Bpf_Machine
  imports Wasm_Memory
begin

text \<open>
  The abstract BPF machine: what a filter program means, with no memory layout. A program is a
  list of \<open>RawInstruction\<close>s (\<open>filter.go\<close>), a packet is a list of bytes, the sixteen scratch
  words are a list. Opcodes are read by their fields (class, size, mode, operation, source), as
  the BPF documentation does; \<open>Bpf_Filter\<close> shows that the transpiled interpreter, which
  switches on the whole opcode and works on raw memory, computes the same verdicts.
\<close>

section \<open>Instructions\<close>

record raw_instruction =
  Op :: u16
  Jt :: u8
  Jf :: u8
  K :: u32

datatype bpf_size = SizeW | SizeH | SizeB
datatype bpf_src = SrcK | SrcX
datatype bpf_alu = Add | Sub | Mul | Div | Or | And | Lsh | Rsh | Mod | Xor
datatype bpf_cond = Jeq | Jgt | Jge | Jset

datatype bpf_insn =
    LdImm | LdAbs bpf_size | LdInd bpf_size | LdMem | LdLen
  | LdxImm | LdxMem | LdxLen | LdxMsh
  | St | Stx
  | Alu bpf_alu bpf_src | Neg
  | Ja | Jcc bpf_cond bpf_src
  | RetK | RetA
  | Tax | Txa

definition size_of_field :: "u16 \<Rightarrow> bpf_size option" where
  "size_of_field f =
     (if f = 0x00 then Some SizeW else if f = 0x08 then Some SizeH
      else if f = 0x10 then Some SizeB else None)"

definition alu_of_field :: "u16 \<Rightarrow> bpf_alu option" where
  "alu_of_field f =
     (if f = 0x00 then Some Add else if f = 0x10 then Some Sub
      else if f = 0x20 then Some Mul else if f = 0x30 then Some Div
      else if f = 0x40 then Some Or else if f = 0x50 then Some And
      else if f = 0x60 then Some Lsh else if f = 0x70 then Some Rsh
      else if f = 0x90 then Some Mod else if f = 0xa0 then Some Xor else None)"

definition cond_of_field :: "u16 \<Rightarrow> bpf_cond option" where
  "cond_of_field f =
     (if f = 0x10 then Some Jeq else if f = 0x20 then Some Jgt
      else if f = 0x30 then Some Jge else if f = 0x40 then Some Jset else None)"

definition src_of_field :: "u16 \<Rightarrow> bpf_src" where
  "src_of_field f = (if f = 0 then SrcK else SrcX)"

text \<open>The class is the low three bits; the rest of the byte is read by class.\<close>

definition decode_ld :: "u16 \<Rightarrow> bpf_insn option" where
  "decode_ld op =
     (let mode = op AND 0xe0; size = op AND 0x18 in
      if mode = 0x20 then map_option LdAbs (size_of_field size)
      else if mode = 0x40 then map_option LdInd (size_of_field size)
      else if size \<noteq> 0 then None
      else if mode = 0x00 then Some LdImm
      else if mode = 0x60 then Some LdMem
      else if mode = 0x80 then Some LdLen
      else None)"

definition decode_ldx :: "u16 \<Rightarrow> bpf_insn option" where
  "decode_ldx op =
     (let mode = op AND 0xe0; size = op AND 0x18 in
      if mode = 0xa0 \<and> size = 0x10 then Some LdxMsh
      else if size \<noteq> 0 then None
      else if mode = 0x00 then Some LdxImm
      else if mode = 0x60 then Some LdxMem
      else if mode = 0x80 then Some LdxLen
      else None)"

definition decode_alu :: "u16 \<Rightarrow> bpf_insn option" where
  "decode_alu op =
     (if op AND 0xf8 = 0x80 then Some Neg
      else map_option (\<lambda>f. Alu f (src_of_field (op AND 8))) (alu_of_field (op AND 0xf0)))"

definition decode_jmp :: "u16 \<Rightarrow> bpf_insn option" where
  "decode_jmp op =
     (if op AND 0xf8 = 0 then Some Ja
      else map_option (\<lambda>c. Jcc c (src_of_field (op AND 8))) (cond_of_field (op AND 0xf0)))"

definition decode_op :: "u16 \<Rightarrow> bpf_insn option" where
  "decode_op op =
     (let cls = op AND 7; rest = op AND 0xf8 in
      if 256 \<le> op then None
      else if cls = 0 then decode_ld op
      else if cls = 1 then decode_ldx op
      else if cls = 2 then (if rest = 0 then Some St else None)
      else if cls = 3 then (if rest = 0 then Some Stx else None)
      else if cls = 4 then decode_alu op
      else if cls = 5 then decode_jmp op
      else if cls = 6 then
        (if rest = 0 then Some RetK else if rest = 0x10 then Some RetA else None)
      else (if rest = 0 then Some Tax else if rest = 0x80 then Some Txa else None))"

section \<open>State and steps\<close>

record bpf_state =
  acc :: u32
  idx :: u32
  scratch :: "u32 list"
  pc :: nat
  jumps_back :: nat

definition bpf_init :: bpf_state where
  "bpf_init = \<lparr>acc = 0, idx = 0, scratch = replicate 16 0, pc = 0, jumps_back = 0\<rparr>"

fun size_bytes :: "bpf_size \<Rightarrow> nat" where
  "size_bytes SizeW = 4"
| "size_bytes SizeH = 2"
| "size_bytes SizeB = 1"

text \<open>A big-endian field of the packet, if it lies within the captured bytes.\<close>

definition be_value :: "u8 list \<Rightarrow> u32" where
  "be_value bs = foldl (\<lambda>v b. push_bit 8 v OR ucast b) 0 bs"

definition pkt_load :: "bpf_size \<Rightarrow> u8 list \<Rightarrow> nat \<Rightarrow> u32 option" where
  "pkt_load sz pkt off =
     (if off + size_bytes sz \<le> length pkt
      then Some (be_value (take (size_bytes sz) (drop off pkt))) else None)"

fun alu :: "bpf_alu \<Rightarrow> u32 \<Rightarrow> u32 \<Rightarrow> u32 option" where
  "alu Add a b = Some (a + b)"
| "alu Sub a b = Some (a - b)"
| "alu Mul a b = Some (a * b)"
| "alu Div a b = (if b = 0 then None else Some (a div b))"
| "alu Or a b = Some (a OR b)"
| "alu And a b = Some (a AND b)"
| "alu Lsh a b = Some (if b < 32 then push_bit (unat b) a else 0)"
| "alu Rsh a b = Some (if b < 32 then drop_bit (unat b) a else 0)"
| "alu Mod a b = (if b = 0 then None else Some (a mod b))"
| "alu Xor a b = Some (a XOR b)"

fun cond :: "bpf_cond \<Rightarrow> u32 \<Rightarrow> u32 \<Rightarrow> bool" where
  "cond Jeq a b = (a = b)"
| "cond Jgt a b = (a > b)"
| "cond Jge a b = (a \<ge> b)"
| "cond Jset a b = (a AND b \<noteq> 0)"

fun operand :: "bpf_src \<Rightarrow> u32 \<Rightarrow> bpf_state \<Rightarrow> u32" where
  "operand SrcK k s = k"
| "operand SrcX k s = idx s"

text \<open>Running past the last instruction rejects the packet.\<close>

definition goto_pc :: "nat \<Rightarrow> bpf_state \<Rightarrow> nat \<Rightarrow> (bpf_state, u32) progress" where
  "goto_pc n s p = (if p < n then Next (s\<lparr>pc := p\<rparr>) else Stop 0)"

definition set_acc :: "nat \<Rightarrow> bpf_state \<Rightarrow> u32 option \<Rightarrow> (bpf_state, u32) progress" where
  "set_acc n s v =
     (case v of None \<Rightarrow> Stop 0 | Some x \<Rightarrow> goto_pc n (s\<lparr>acc := x\<rparr>) (Suc (pc s)))"

definition set_idx :: "nat \<Rightarrow> bpf_state \<Rightarrow> u32 option \<Rightarrow> (bpf_state, u32) progress" where
  "set_idx n s v =
     (case v of None \<Rightarrow> Stop 0 | Some x \<Rightarrow> goto_pc n (s\<lparr>idx := x\<rparr>) (Suc (pc s)))"

definition set_scratch :: "nat \<Rightarrow> bpf_state \<Rightarrow> u32 \<Rightarrow> u32 \<Rightarrow> (bpf_state, u32) progress" where
  "set_scratch n s k v =
     (if k < 16 then goto_pc n (s\<lparr>scratch := (scratch s)[unat k := v]\<rparr>) (Suc (pc s)) else Stop 0)"

text \<open>
  \<open>ja\<close> may jump backwards, at most 64 times in a run; a jump to itself or out of the program
  rejects the packet.
\<close>

definition jump_always :: "nat \<Rightarrow> bpf_state \<Rightarrow> u32 \<Rightarrow> (bpf_state, u32) progress" where
  "jump_always n s k =
     (let t = int (pc s) + 1 + sint k in
      if t < 0 \<or> int n \<le> t then Stop 0
      else if 0 \<le> sint k then goto_pc n s (nat t)
      else if sint k = - 1 \<or> 64 \<le> jumps_back s then Stop 0
      else goto_pc n (s\<lparr>jumps_back := Suc (jumps_back s)\<rparr>) (nat t))"

text \<open>
  \<open>bpf_exec n pkt wirelen i s\<close>: one instruction of a program of \<open>n\<close> instructions on the
  captured bytes \<open>pkt\<close> of a packet of \<open>wirelen\<close> bytes.
\<close>

fun bpf_exec :: "nat \<Rightarrow> u8 list \<Rightarrow> u32 \<Rightarrow> raw_instruction \<Rightarrow> bpf_insn \<Rightarrow> bpf_state \<Rightarrow>
    (bpf_state, u32) progress" where
  "bpf_exec n pkt wirelen i LdImm s = set_acc n s (Some (K i))"
| "bpf_exec n pkt wirelen i (LdAbs sz) s = set_acc n s (pkt_load sz pkt (unat (K i)))"
| "bpf_exec n pkt wirelen i (LdInd sz) s =
     set_acc n s (pkt_load sz pkt (unat (idx s) + unat (K i)))"
| "bpf_exec n pkt wirelen i LdMem s =
     set_acc n s (if K i < 16 then Some (scratch s ! unat (K i)) else None)"
| "bpf_exec n pkt wirelen i LdLen s = set_acc n s (Some wirelen)"
| "bpf_exec n pkt wirelen i LdxImm s = set_idx n s (Some (K i))"
| "bpf_exec n pkt wirelen i LdxMem s =
     set_idx n s (if K i < 16 then Some (scratch s ! unat (K i)) else None)"
| "bpf_exec n pkt wirelen i LdxLen s = set_idx n s (Some wirelen)"
| "bpf_exec n pkt wirelen i LdxMsh s =
     set_idx n s (map_option (\<lambda>b. push_bit 2 (b AND 15)) (pkt_load SizeB pkt (unat (K i))))"
| "bpf_exec n pkt wirelen i St s = set_scratch n s (K i) (acc s)"
| "bpf_exec n pkt wirelen i Stx s = set_scratch n s (K i) (idx s)"
| "bpf_exec n pkt wirelen i (Alu f src) s = set_acc n s (alu f (acc s) (operand src (K i) s))"
| "bpf_exec n pkt wirelen i Neg s = set_acc n s (Some (- acc s))"
| "bpf_exec n pkt wirelen i Ja s = jump_always n s (K i)"
| "bpf_exec n pkt wirelen i (Jcc c src) s =
     goto_pc n s (Suc (pc s) +
       (if cond c (acc s) (operand src (K i) s) then unat (Jt i) else unat (Jf i)))"
| "bpf_exec n pkt wirelen i RetK s = Stop (K i)"
| "bpf_exec n pkt wirelen i RetA s = Stop (acc s)"
| "bpf_exec n pkt wirelen i Tax s = set_idx n s (Some (acc s))"
| "bpf_exec n pkt wirelen i Txa s = set_acc n s (Some (idx s))"

text \<open>An unknown opcode rejects the packet.\<close>

definition bpf_step ::
  "raw_instruction list \<Rightarrow> u8 list \<Rightarrow> u32 \<Rightarrow> bpf_state \<Rightarrow> (bpf_state, u32) progress option" where
  "bpf_step prog pkt wirelen s =
     (let i = prog ! pc s in
      Some (case decode_op (Op i) of
              None \<Rightarrow> Stop 0
            | Some ins \<Rightarrow> bpf_exec (length prog) pkt wirelen i ins s))"

text \<open>The verdict of a program on a packet; programs have 1 to 3060000 instructions.\<close>

definition bpf_fuel :: "nat \<Rightarrow> nat" where
  "bpf_fuel n = 65 * n + 1"

definition bpf_verdict :: "raw_instruction list \<Rightarrow> u8 list \<Rightarrow> u32 \<Rightarrow> u32 option" where
  "bpf_verdict prog pkt wirelen =
     (if length prog < 1 \<or> 3060000 < length prog then Some 0
      else run (bpf_step prog pkt wirelen) (bpf_fuel (length prog)) bpf_init)"

section \<open>Every run stops\<close>

text \<open>
  A step forward shortens the rest of the program, a step backward uses up one of the 64
  backward jumps.
\<close>

definition bpf_inv :: "raw_instruction list \<Rightarrow> bpf_state \<Rightarrow> bool" where
  "bpf_inv prog s \<longleftrightarrow> pc s < length prog \<and> jumps_back s \<le> 64 \<and> length (scratch s) = 16"

definition bpf_measure :: "raw_instruction list \<Rightarrow> bpf_state \<Rightarrow> nat" where
  "bpf_measure prog s = (64 - jumps_back s) * length prog + (length prog - pc s)"

lemma goto_pc_Next: "goto_pc n s p = Next s' \<longleftrightarrow> p < n \<and> s' = s\<lparr>pc := p\<rparr>"
  by (auto simp: goto_pc_def)

lemmas bpf_goto_defs = set_acc_def set_idx_def set_scratch_def goto_pc_Next

lemma bpf_exec_forward:
  assumes "bpf_exec n pkt wl i ins s = Next s'" "ins \<noteq> Ja"
  shows "pc s < pc s' \<and> pc s' < n \<and> jumps_back s' = jumps_back s \<and> length (scratch s') = length (scratch s)"
  using assms by (cases ins) (auto simp: bpf_goto_defs split: option.splits if_splits)

lemma bpf_exec_ja:
  assumes "bpf_exec n pkt wl i Ja s = Next s'" "pc s < n"
  shows "pc s' < n \<and> scratch s' = scratch s \<and>
    (jumps_back s' = jumps_back s \<and> pc s < pc s' \<or> jumps_back s < 64 \<and> jumps_back s' = Suc (jumps_back s))"
  using assms by (auto simp: jump_always_def goto_pc_Next Let_def split: if_splits)

lemma bpf_step_inv:
  assumes "bpf_step prog pkt wl s = Some (Next s')" "bpf_inv prog s"
  shows "bpf_inv prog s'"
proof -
  obtain ins where ins: "bpf_exec (length prog) pkt wl (prog ! pc s) ins s = Next s'"
    using assms(1) by (auto simp: bpf_step_def Let_def split: option.splits)
  show ?thesis
  proof (cases "ins = Ja")
    case True
    with ins assms(2) bpf_exec_ja [of "length prog" pkt wl "prog ! pc s" s s']
    show ?thesis by (auto simp: bpf_inv_def)
  next
    case False
    with bpf_exec_forward [OF ins] assms(2) show ?thesis by (simp add: bpf_inv_def)
  qed
qed

lemma bpf_step_decreases:
  assumes "bpf_step prog pkt wl s = Some (Next s')" "bpf_inv prog s"
  shows "bpf_measure prog s' < bpf_measure prog s"
proof -
  obtain ins where ins: "bpf_exec (length prog) pkt wl (prog ! pc s) ins s = Next s'"
    using assms(1) by (auto simp: bpf_step_def Let_def split: option.splits)
  have pc: "pc s < length prog" using assms(2) by (simp add: bpf_inv_def)
  show ?thesis
  proof (cases "jumps_back s' = jumps_back s \<and> pc s < pc s'")
    case True
    with pc show ?thesis by (auto simp: bpf_measure_def)
  next
    case False
    with ins bpf_exec_forward [OF ins] have "ins = Ja" by blast
    with False ins pc bpf_exec_ja [of "length prog" pkt wl "prog ! pc s" s s']
    have "jumps_back s < 64" "jumps_back s' = Suc (jumps_back s)" by auto
    then have "64 - jumps_back s = Suc (64 - jumps_back s')" by simp
    with pc show ?thesis by (simp add: bpf_measure_def)
  qed
qed

interpretation bpf: terminating_machine "bpf_step prog pkt wl" "bpf_inv prog" "bpf_measure prog"
  for prog pkt wl
  by unfold_locales
    (simp add: bpf_step_def Let_def, blast intro: bpf_step_inv, blast intro: bpf_step_decreases)

lemma bpf_init_inv: "0 < length prog \<Longrightarrow> bpf_inv prog bpf_init"
  by (simp add: bpf_inv_def bpf_init_def)

lemma bpf_init_fuel: "bpf_measure prog bpf_init < bpf_fuel (length prog)"
  by (simp add: bpf_measure_def bpf_init_def bpf_fuel_def)

lemma bpf_verdict_total: "\<exists>v. bpf_verdict prog pkt wl = Some v"
  using bpf.run_returns [OF bpf_init_inv bpf_init_fuel, of prog pkt wl]
  by (cases prog) (auto simp: bpf_verdict_def)

end
