(* ===== verification/Bpf_Filter.thy ===== *)
theory Bpf_Filter
  imports Bpf_Machine
begin

text \<open>
  The transpiled interpreter, \<open>_pcapint_filter_with_aux_data\<close> and \<open>Xpcapint_filter\<close> of
  \<open>internal/bpf.go\<close>, on the raw memory of the module. One definition per label of the Go
  function; the record field \<open>fvN\<close> is its variable \<open>vN\<close>. The second part shows that it computes
  the verdict of the abstract machine on the program and the packet that lie in the memory.
\<close>

section \<open>The interpreter\<close>

text \<open>
  What one call does not change: the parameters \<open>fv0\<close> (program), \<open>fv1\<close> (number of instructions),
  \<open>fv2\<close> (packet), \<open>fv3\<close> (length on the wire), \<open>fv4\<close> (captured length), the frame of the sixteen
  scratch words \<open>fv11\<close> and the end of the program \<open>fv14\<close>.
\<close>

record filter_args =
  fv0 :: u32
  fv1 :: u32
  fv2 :: u32
  fv3 :: u32
  fv4 :: u32
  fv11 :: u32
  fv14 :: u32

text \<open>
  What the loop changes: accumulator \<open>fv7\<close>, the address before the instruction \<open>fv8\<close>, index \<open>fv9\<close>,
  the address of the instruction \<open>fv10\<close>, backward jumps \<open>fv12\<close> and the verdict \<open>fv13\<close>. The variable
  \<open>v6\<close> is the new accumulator that every label passes to \<open>l41\<close>.
\<close>

record filter_regs =
  fv7 :: u32
  fv8 :: u32
  fv9 :: u32
  fv10 :: u32
  fv12 :: u32
  fv13 :: u32

type_synonym filter_result = "(memory \<times> filter_regs, u32 \<times> memory) progress"
type_synonym filter_block = "filter_args \<Rightarrow> memory \<Rightarrow> filter_regs \<Rightarrow> filter_result option"

definition goto_l8 :: "memory \<Rightarrow> filter_regs \<Rightarrow> filter_result" where
  "goto_l8 m r = Stop (fv13 r, m)"

definition goto_l41 :: "filter_args \<Rightarrow> memory \<Rightarrow> filter_regs \<Rightarrow> u32 \<Rightarrow> filter_result" where
  "goto_l41 a m r v6 =
     (let r' = r\<lparr>fv7 := v6, fv8 := fv10 r, fv10 := fv10 r + 8\<rparr>
      in if fv10 r' < fv14 a then Next (m, r') else goto_l8 m r')"

text \<open>The operand \<open>k\<close> of the instruction, \<open>load32(m.memory, uint64(uint32(v8))+12)\<close>.\<close>

definition load_k :: "memory \<Rightarrow> filter_regs \<Rightarrow> u32 option" where
  "load_k m r = load32 m (unat (fv8 r) + 12)"

text \<open>The common end of the conditional jumps: \<open>p\<close> selects the offset byte \<open>jt\<close> or \<open>jf\<close>.\<close>

definition take_jump :: "filter_args \<Rightarrow> memory \<Rightarrow> filter_regs \<Rightarrow> u32 \<Rightarrow> filter_result option" where
  "take_jump a m r p =
     do {
       t \<leftarrow> load8 m (unat (fv8 r + p));
       Some (goto_l41 a m (r\<lparr>fv10 := fv10 r + push_bit 3 t\<rparr>) (fv7 r))
     }"

definition filter_l6 :: filter_block where
  "filter_l6 a m r = do { t2 \<leftarrow> load_k m r; Some (Stop (t2, m)) }"

definition filter_l15 :: filter_block where
  "filter_l15 a m r =
   do {
     v6 \<leftarrow> load_k m r;
     if fv4 a < v6 then Some (goto_l8 m r)
     else if fv4 a - v6 < 4 then Some (goto_l8 m r)
     else do {
       t5 \<leftarrow> load32 m (unat (fv2 a + v6));
       Some (goto_l41 a m r (byteswap32 t5))
     }
   }"

definition filter_l18 :: filter_block where
  "filter_l18 a m r =
   do {
     v6 \<leftarrow> load_k m r;
     if fv4 a < v6 then Some (goto_l8 m r)
     else if fv4 a - v6 < 2 then Some (goto_l8 m r)
     else do {
       t8 \<leftarrow> load8 m (unat (fv2 a + v6));
       t9 \<leftarrow> load8 m (unat (fv2 a + v6) + 1);
       Some (goto_l41 a m r (push_bit 8 t8 OR t9))
     }
   }"

definition filter_l21 :: filter_block where
  "filter_l21 a m r =
   do {
     v6 \<leftarrow> load_k m r;
     if v6 \<ge> fv4 a then Some (goto_l8 m r)
     else do { t11 \<leftarrow> load8 m (unat (fv2 a + v6)); Some (goto_l41 a m r t11) }
   }"

definition filter_l42 :: filter_block where
  "filter_l42 a m r = Some (goto_l41 a m (r\<lparr>fv9 := fv3 a\<rparr>) (fv7 r))"

definition filter_l26 :: filter_block where
  "filter_l26 a m r =
   do {
     v6 \<leftarrow> load_k m r;
     if fv4 a < v6 then Some (goto_l8 m r)
     else if fv9 r > fv4 a - v6 then Some (goto_l8 m r)
     else if fv4 a - (v6 + fv9 r) < 4 then Some (goto_l8 m r)
     else do {
       t15 \<leftarrow> load32 m (unat (fv2 a + (v6 + fv9 r)));
       Some (goto_l41 a m r (byteswap32 t15))
     }
   }"

definition filter_l29 :: filter_block where
  "filter_l29 a m r =
   (if fv4 a < fv9 r then Some (goto_l8 m r)
    else do {
      v6 \<leftarrow> load_k m r;
      if v6 > fv4 a - fv9 r then Some (goto_l8 m r)
      else if fv4 a - (v6 + fv9 r) < 2 then Some (goto_l8 m r)
      else do {
        t18 \<leftarrow> load8 m (unat (fv2 a + (v6 + fv9 r)));
        t19 \<leftarrow> load8 m (unat (fv2 a + (v6 + fv9 r)) + 1);
        Some (goto_l41 a m r (push_bit 8 t18 OR t19))
      }
    })"

definition filter_l32 :: filter_block where
  "filter_l32 a m r =
   do {
     v6 \<leftarrow> load_k m r;
     if fv4 a \<le> v6 then Some (goto_l8 m r)
     else if fv9 r \<ge> fv4 a - v6 then Some (goto_l8 m r)
     else do { t22 \<leftarrow> load8 m (unat (fv2 a + fv9 r + v6)); Some (goto_l41 a m r t22) }
   }"

definition filter_l49 :: filter_block where
  "filter_l49 a m r =
   do {
     v6 \<leftarrow> load_k m r;
     if v6 \<ge> fv4 a then Some (goto_l8 m r)
     else do {
       t24 \<leftarrow> load8 m (unat (fv2 a + v6));
       Some (goto_l41 a m (r\<lparr>fv9 := push_bit 2 t24 AND 60\<rparr>) (fv7 r))
     }
   }"

definition filter_l0 :: filter_block where
  "filter_l0 a m r = do { t25 \<leftarrow> load_k m r; Some (goto_l41 a m r t25) }"

definition filter_l1 :: filter_block where
  "filter_l1 a m r =
   do { t26 \<leftarrow> load_k m r; Some (goto_l41 a m (r\<lparr>fv9 := t26\<rparr>) (fv7 r)) }"

definition filter_l35 :: filter_block where
  "filter_l35 a m r =
   do {
     v6 \<leftarrow> load_k m r;
     if v6 > 15 then Some (goto_l8 m r)
     else do { t28 \<leftarrow> load32 m (unat (fv11 a + push_bit 2 v6)); Some (goto_l41 a m r t28) }
   }"

definition filter_l36 :: filter_block where
  "filter_l36 a m r =
   do {
     v6 \<leftarrow> load_k m r;
     if v6 > 15 then Some (goto_l8 m r)
     else do {
       t30 \<leftarrow> load32 m (unat (fv11 a + push_bit 2 v6));
       Some (goto_l41 a m (r\<lparr>fv9 := t30\<rparr>) (fv7 r))
     }
   }"

definition filter_l2 :: filter_block where
  "filter_l2 a m r =
   do {
     v6 \<leftarrow> load_k m r;
     if v6 > 15 then Some (goto_l8 m r)
     else do {
       m' \<leftarrow> store32 m (unat (fv11 a + push_bit 2 v6)) (fv7 r);
       Some (goto_l41 a m' r (fv7 r))
     }
   }"

definition filter_l3 :: filter_block where
  "filter_l3 a m r =
   do {
     v6 \<leftarrow> load_k m r;
     if v6 > 15 then Some (goto_l8 m r)
     else do {
       m' \<leftarrow> store32 m (unat (fv11 a + push_bit 2 v6)) (fv9 r);
       Some (goto_l41 a m' r (fv7 r))
     }
   }"

definition filter_l5 :: filter_block where
  "filter_l5 a m r =
   do {
     v6 \<leftarrow> load_k m r;
     if v6 + signed_drop_bit 3 (fv10 r - fv0 a) + 1 \<ge> fv1 a then Some (goto_l8 m r)
     else if sint v6 < 0 then
       if v6 = - 1 then Some (goto_l8 m r)
       else if fv12 r > 63 then Some (goto_l8 m r)
       else Some (goto_l41 a m
         (r\<lparr>fv12 := fv12 r + 1, fv10 := fv10 r + push_bit 3 v6\<rparr>) (fv7 r))
     else Some (goto_l41 a m (r\<lparr>fv10 := fv10 r + push_bit 3 v6\<rparr>) (fv7 r))
   }"

definition filter_l17 :: filter_block where
  "filter_l17 a m r =
   do { t34 \<leftarrow> load_k m r; take_jump a m r (if fv7 r > t34 then 10 else 11) }"

definition filter_l23 :: filter_block where
  "filter_l23 a m r =
   do { t39 \<leftarrow> load_k m r; take_jump a m r (if fv7 r < t39 then 11 else 10) }"

definition filter_l11 :: filter_block where
  "filter_l11 a m r =
   do { t44 \<leftarrow> load_k m r; take_jump a m r (if fv7 r = t44 then 10 else 11) }"

definition filter_l28 :: filter_block where
  "filter_l28 a m r =
   do { t49 \<leftarrow> load_k m r; take_jump a m r (if t49 AND fv7 r \<noteq> 0 then 10 else 11) }"

definition filter_l20 :: filter_block where
  "filter_l20 a m r = take_jump a m r (if fv7 r > fv9 r then 10 else 11)"

definition filter_l25 :: filter_block where
  "filter_l25 a m r = take_jump a m r (if fv7 r < fv9 r then 11 else 10)"

definition filter_l14 :: filter_block where
  "filter_l14 a m r = take_jump a m r (if fv7 r = fv9 r then 10 else 11)"

definition filter_l31 :: filter_block where
  "filter_l31 a m r = take_jump a m r (if fv7 r AND fv9 r \<noteq> 0 then 10 else 11)"

definition filter_l9 :: filter_block where
  "filter_l9 a m r = Some (goto_l41 a m r (fv7 r + fv9 r))"

definition filter_l13 :: filter_block where
  "filter_l13 a m r = Some (goto_l41 a m r (fv7 r - fv9 r))"

definition filter_l19 :: filter_block where
  "filter_l19 a m r = Some (goto_l41 a m r (fv7 r * fv9 r))"

definition filter_l24 :: filter_block where
  "filter_l24 a m r =
   (if fv9 r = 0 then Some (goto_l8 m r) else Some (goto_l41 a m r (fv7 r div fv9 r)))"

definition filter_l46 :: filter_block where
  "filter_l46 a m r =
   (if fv9 r = 0 then Some (goto_l8 m r) else Some (goto_l41 a m r (fv7 r mod fv9 r)))"

definition filter_l34 :: filter_block where
  "filter_l34 a m r = Some (goto_l41 a m r (fv7 r AND fv9 r))"

definition filter_l30 :: filter_block where
  "filter_l30 a m r = Some (goto_l41 a m r (fv7 r OR fv9 r))"

definition filter_l48 :: filter_block where
  "filter_l48 a m r = Some (goto_l41 a m r (fv7 r XOR fv9 r))"

definition filter_l38 :: filter_block where
  "filter_l38 a m r = Some (goto_l41 a m r (if fv9 r < 32 then i32_shl (fv7 r) (fv9 r) else 0))"

definition filter_l40 :: filter_block where
  "filter_l40 a m r =
   Some (goto_l41 a m r (if fv9 r < 32 then i32_shr_u (fv7 r) (fv9 r) else 0))"

definition filter_l4 :: filter_block where
  "filter_l4 a m r = do { t74 \<leftarrow> load_k m r; Some (goto_l41 a m r (t74 + fv7 r)) }"

definition filter_l10 :: filter_block where
  "filter_l10 a m r = do { t75 \<leftarrow> load_k m r; Some (goto_l41 a m r (fv7 r - t75)) }"

definition filter_l16 :: filter_block where
  "filter_l16 a m r = do { t76 \<leftarrow> load_k m r; Some (goto_l41 a m r (t76 * fv7 r)) }"

definition filter_l22 :: filter_block where
  "filter_l22 a m r =
   do {
     v6 \<leftarrow> load_k m r;
     if v6 = 0 then Some (goto_l8 m r) else Some (goto_l41 a m r (fv7 r div v6))
   }"

definition filter_l45 :: filter_block where
  "filter_l45 a m r =
   do {
     v6 \<leftarrow> load_k m r;
     if v6 = 0 then Some (goto_l8 m r) else Some (goto_l41 a m r (fv7 r mod v6))
   }"

definition filter_l33 :: filter_block where
  "filter_l33 a m r =
   do { t81 \<leftarrow> load_k m r; Some (goto_l41 a m r (t81 AND fv7 r)) }"

definition filter_l27 :: filter_block where
  "filter_l27 a m r =
   do { t82 \<leftarrow> load_k m r; Some (goto_l41 a m r (t82 OR fv7 r)) }"

definition filter_l47 :: filter_block where
  "filter_l47 a m r =
   do { t83 \<leftarrow> load_k m r; Some (goto_l41 a m r (t83 XOR fv7 r)) }"

definition filter_l37 :: filter_block where
  "filter_l37 a m r =
   do { v6 \<leftarrow> load_k m r; Some (goto_l41 a m r (if v6 < 32 then i32_shl (fv7 r) v6 else 0)) }"

definition filter_l39 :: filter_block where
  "filter_l39 a m r =
   do { v6 \<leftarrow> load_k m r; Some (goto_l41 a m r (if v6 < 32 then i32_shr_u (fv7 r) v6 else 0)) }"

definition filter_l43 :: filter_block where
  "filter_l43 a m r = Some (goto_l41 a m r (0 - fv7 r))"

definition filter_l7 :: filter_block where
  "filter_l7 a m r = Some (goto_l41 a m (r\<lparr>fv9 := fv7 r\<rparr>) (fv7 r))"

definition filter_l44 :: filter_block where
  "filter_l44 a m r = Some (goto_l41 a m r (fv9 r))"

definition filter_l12 :: filter_block where
  "filter_l12 a m r = Some (goto_l8 m (r\<lparr>fv13 := fv7 r\<rparr>))"

definition filter_switch :: "u32 \<Rightarrow> filter_block" where
  "filter_switch t1 a m r =
    (if t1 = 0 then filter_l0 a m r
     else if t1 = 1 then filter_l1 a m r
     else if t1 = 2 then filter_l2 a m r
     else if t1 = 3 then filter_l3 a m r
     else if t1 = 4 then filter_l4 a m r
     else if t1 = 5 then filter_l5 a m r
     else if t1 = 6 then filter_l6 a m r
     else if t1 = 7 then filter_l7 a m r
     else if t1 = 12 then filter_l9 a m r
     else if t1 = 20 then filter_l10 a m r
     else if t1 = 21 then filter_l11 a m r
     else if t1 = 22 then filter_l12 a m r
     else if t1 = 28 then filter_l13 a m r
     else if t1 = 29 then filter_l14 a m r
     else if t1 = 32 then filter_l15 a m r
     else if t1 = 36 then filter_l16 a m r
     else if t1 = 37 then filter_l17 a m r
     else if t1 = 40 then filter_l18 a m r
     else if t1 = 44 then filter_l19 a m r
     else if t1 = 45 then filter_l20 a m r
     else if t1 = 48 then filter_l21 a m r
     else if t1 = 52 then filter_l22 a m r
     else if t1 = 53 then filter_l23 a m r
     else if t1 = 60 then filter_l24 a m r
     else if t1 = 61 then filter_l25 a m r
     else if t1 = 64 then filter_l26 a m r
     else if t1 = 68 then filter_l27 a m r
     else if t1 = 69 then filter_l28 a m r
     else if t1 = 72 then filter_l29 a m r
     else if t1 = 76 then filter_l30 a m r
     else if t1 = 77 then filter_l31 a m r
     else if t1 = 80 then filter_l32 a m r
     else if t1 = 84 then filter_l33 a m r
     else if t1 = 92 then filter_l34 a m r
     else if t1 = 96 then filter_l35 a m r
     else if t1 = 97 then filter_l36 a m r
     else if t1 = 100 then filter_l37 a m r
     else if t1 = 108 then filter_l38 a m r
     else if t1 = 116 then filter_l39 a m r
     else if t1 = 124 then filter_l40 a m r
     else if t1 = 128 then Some (goto_l41 a m r (fv3 a))
     else if t1 = 129 then filter_l42 a m r
     else if t1 = 132 then filter_l43 a m r
     else if t1 = 135 then filter_l44 a m r
     else if t1 = 148 then filter_l45 a m r
     else if t1 = 156 then filter_l46 a m r
     else if t1 = 164 then filter_l47 a m r
     else if t1 = 172 then filter_l48 a m r
     else if t1 = 177 then filter_l49 a m r
     else Some (goto_l8 m r))"
text \<open>One turn of the loop at \<open>l50\<close>.\<close>

definition filter_step ::
  "filter_args \<Rightarrow> memory \<times> filter_regs \<Rightarrow> filter_result option" where
  "filter_step a c =
     (case c of (m, r) \<Rightarrow>
        do { t1 \<leftarrow> load16 m (unat (fv10 r)); filter_switch (ucast t1) a m r })"

text \<open>The scratch words are cleared in the order of the code.\<close>

definition clear_frame :: "memory \<Rightarrow> u32 \<Rightarrow> memory option" where
  "clear_frame m fr =
     do {
       m \<leftarrow> store64 m (unat fr + 56) 0;
       m \<leftarrow> store64 m (unat fr + 48) 0;
       m \<leftarrow> store64 m (unat fr + 40) 0;
       m \<leftarrow> store64 m (unat fr + 32) 0;
       m \<leftarrow> store64 m (unat fr + 24) 0;
       m \<leftarrow> store64 m (unat fr + 16) 0;
       m \<leftarrow> store64 m (unat fr + 8) 0;
       store64 m (unat fr) 0
     }"

text \<open>
  The whole function; \<open>sp\<close> is \<open>m.___stack_pointer\<close>, which it does not move. The fuel bounds the
  turns of the loop: \<open>None\<close> is a Go panic or not enough fuel, and \<open>interpreter_refines_machine\<close> below shows
  that the fuel given by \<open>xpcapint_filter\<close> always is enough.
\<close>

definition filter_with_aux_data ::
  "nat \<Rightarrow> memory \<Rightarrow> u32 \<Rightarrow> u32 \<Rightarrow> u32 \<Rightarrow> u32 \<Rightarrow> u32 \<Rightarrow> u32 \<Rightarrow> u32 \<Rightarrow> (u32 \<times> memory) option" where
  "filter_with_aux_data fuel m sp p0 p1 p2 p3 p4 p5 =
     (if p0 = 0 then Some (- 1, m)
      else if p1 - 3060001 < - 3060000 then Some (0, m)
      else
        (let fr = sp + - 64;
             a = \<lparr>fv0 = p0, fv1 = p1, fv2 = p2, fv3 = p3, fv4 = p4, fv11 = fr,
                  fv14 = p0 + push_bit 3 p1\<rparr>;
             r = \<lparr>fv7 = 0, fv8 = p0 - 8, fv9 = 0, fv10 = p0, fv12 = 0, fv13 = 0\<rparr>
         in do { m \<leftarrow> clear_frame m fr; run (filter_step a) fuel (m, r) }))"

definition xpcapint_filter ::
  "memory \<Rightarrow> u32 \<Rightarrow> u32 \<Rightarrow> u32 \<Rightarrow> u32 \<Rightarrow> u32 \<Rightarrow> u32 \<Rightarrow> (u32 \<times> memory) option" where
  "xpcapint_filter m sp p0 p1 p2 p3 p4 =
     filter_with_aux_data (bpf_fuel (unat p1)) m sp p0 p1 p2 p3 p4 p4"

section \<open>What lies in the memory\<close>

text \<open>The eight bytes of an instruction, as \<open>Program.Instructions\<close> reads them too.\<close>

definition insn_at :: "memory \<Rightarrow> nat \<Rightarrow> raw_instruction option" where
  "insn_at m p =
     do {
       op \<leftarrow> load16 m p;
       jt \<leftarrow> index m (p + 2);
       jf \<leftarrow> index m (p + 3);
       k \<leftarrow> load32 m (p + 4);
       Some \<lparr>Op = op, Jt = jt, Jf = jf, K = k\<rparr>
     }"

definition prog_at :: "memory \<Rightarrow> nat \<Rightarrow> raw_instruction list \<Rightarrow> bool" where
  "prog_at m p prog \<longleftrightarrow>
     p + 8 * length prog \<le> length m \<and>
     (\<forall>i < length prog. insn_at m (p + 8 * i) = Some (prog ! i))"

definition bytes_at :: "memory \<Rightarrow> nat \<Rightarrow> u8 list \<Rightarrow> bool" where
  "bytes_at m p bs \<longleftrightarrow> p + length bs \<le> length m \<and> take (length bs) (drop p m) = bs"

definition apart :: "nat \<Rightarrow> nat \<Rightarrow> nat \<Rightarrow> nat \<Rightarrow> bool" where
  "apart p n q k \<longleftrightarrow> p + n \<le> q \<or> q + k \<le> p"

text \<open>
  The layout a call relies on: at most 4 GiB of memory, program, packet and scratch frame
  inside it, the frame apart from the other two, and 2048 bytes of address space after the
  program, as a jump is taken before the end of the program is checked.
\<close>

definition filter_layout ::
  "memory \<Rightarrow> u32 \<Rightarrow> u32 \<Rightarrow> raw_instruction list \<Rightarrow> u32 \<Rightarrow> u8 list \<Rightarrow> bool" where
  "filter_layout m sp p0 prog p2 pkt \<longleftrightarrow>
     length m \<le> 2 ^ 32 \<and>
     1 \<le> length prog \<and> length prog \<le> 3060000 \<and>
     8 \<le> unat p0 \<and> unat p0 + 8 * length prog + 2048 \<le> 2 ^ 32 \<and> prog_at m (unat p0) prog \<and>
     bytes_at m (unat p2) pkt \<and>
     64 \<le> unat sp \<and> unat sp \<le> length m \<and>
     apart (unat sp - 64) 64 (unat p0) (8 * length prog) \<and>
     apart (unat sp - 64) 64 (unat p2) (length pkt)"

lemma prog_at_simps:
  "prog_at m p [] \<longleftrightarrow> p \<le> length m"
  "prog_at m p (i # is) \<longleftrightarrow> insn_at m p = Some i \<and> prog_at m (p + 8) is"
  by (auto simp: prog_at_def All_less_Suc2 algebra_simps)

lemma insn_at_cong: "get_bytes m p 8 = get_bytes m' p 8 \<Longrightarrow> p + 8 \<le> length m \<Longrightarrow>
    length m = length m' \<Longrightarrow> insn_at m p = insn_at m' p"
proof -
  assume eq: "get_bytes m p 8 = get_bytes m' p 8" and b: "p + 8 \<le> length m"
    and len: "length m = length m'"
  from eq b len have td: "take 8 (drop p m) = take 8 (drop p m')"
    by (simp add: get_bytes_def slice_def)
  have nth: "m ! (p + i) = m' ! (p + i)" if "i < 8" for i
    using arg_cong [OF td, of "\<lambda>xs. xs ! i"] that b len by simp
  have sub: "get_bytes m (p + i) k = get_bytes m' (p + i) k" if "i + k \<le> 8" for i k
  proof -
    have "m ! j = m' ! j" if "p + i \<le> j" "j < p + i + k" for j
      using nth [of "j - p"] that \<open>i + k \<le> 8\<close> by simp
    moreover have "p + i + k \<le> length m" using that b by simp
    ultimately have "take k (drop (p + i) m) = take k (drop (p + i) m')"
      using len by (intro take_drop_nth_eqI) auto
    with len show ?thesis by (simp add: get_bytes_def slice_def)
  qed
  have idx: "index m (p + i) = index m' (p + i)" if "i < 8" for i
    using nth [OF that] len by (simp add: index_def)
  show ?thesis
    using sub [of 0 2] sub [of 4 4] idx [of 2] idx [of 3]
    by (simp add: insn_at_def load16_def load32_def)
qed

lemma prog_at_same_outside:
  assumes "same_outside m m' q n" "apart q n p (8 * length prog)" "prog_at m p prog"
  shows "prog_at m' p prog"
proof -
  have "insn_at m' (p + 8 * i) = Some (prog ! i)" if i: "i < length prog" for i
  proof -
    have r: "p + 8 * i + 8 \<le> p + 8 * length prog" using i by simp
    with assms(2) have "p + 8 * i + 8 \<le> q \<or> q + n \<le> p + 8 * i" by (auto simp: apart_def)
    from same_outside_get [OF assms(1) this]
    have "get_bytes m' (p + 8 * i) 8 = get_bytes m (p + 8 * i) 8" .
    moreover from r assms(3) have "p + 8 * i + 8 \<le> length m" by (simp add: prog_at_def)
    ultimately have "insn_at m' (p + 8 * i) = insn_at m (p + 8 * i)"
      using same_outside_length [OF assms(1)] by (metis insn_at_cong)
    with assms(3) i show ?thesis by (simp add: prog_at_def)
  qed
  with assms(3) same_outside_length [OF assms(1)] show ?thesis by (simp add: prog_at_def)
qed

lemma bytes_at_same_outside:
  "same_outside m m' q n \<Longrightarrow> apart q n p (length bs) \<Longrightarrow> bytes_at m p bs \<Longrightarrow> bytes_at m' p bs"
  using same_outside_take_drop [of m m' q n p "length bs"]
  by (auto simp: bytes_at_def apart_def same_outside_length)

lemma bytes_at_nth: "bytes_at m p bs \<Longrightarrow> i < length bs \<Longrightarrow> index m (p + i) = Some (bs ! i)"
  unfolding bytes_at_def index_def by (auto dest!: arg_cong [where f = "\<lambda>xs. xs ! i"])

lemma bytes_at_load8: "bytes_at m p bs \<Longrightarrow> i < length bs \<Longrightarrow> load8 m (p + i) = Some (ucast (bs ! i))"
  by (simp add: load8_def bytes_at_nth)

lemma bytes_at_get:
  assumes "bytes_at m p bs" "i + k \<le> length bs"
  shows "get_bytes m (p + i) k = Some (take k (drop i bs))"
proof -
  from assms(1) have bs: "bs = take (length bs) (drop p m)" "p + length bs \<le> length m"
    by (auto simp: bytes_at_def)
  have "take k (drop i bs) = take k (drop (p + i) m)"
    by (subst bs(1)) (use assms(2) in \<open>simp add: drop_take min_def add.commute\<close>)
  with assms(2) bs(2) show ?thesis by simp
qed

text \<open>A big-endian load of the interpreter is a field of the packet.\<close>

lemma be_value_4: "length bs = 4 \<Longrightarrow> be_uint32 bs = Some (be_value bs)"
proof -
  assume "length bs = 4"
  then obtain b0 b1 b2 b3 where "bs = [b0, b1, b2, b3]"
    by (auto simp: length_Suc_conv eval_nat_numeral)
  then show ?thesis
    by (simp add: be_uint32_def be_value_def push_bit_or ac_simps)
qed

lemma be_value_2: "be_value [b0, b1] = push_bit 8 (ucast b0) OR ucast b1"
  by (simp add: be_value_def)

lemma be_value_1: "be_value [b0] = ucast b0"
  by (simp add: be_value_def)
section \<open>The simulation\<close>

text \<open>
  The arguments of a call on a given layout, and the relation of the two machines: \<open>m0\<close> is the
  memory at the start of the loop; the interpreter has changed at most its scratch frame.
\<close>

definition filter_args_of ::
  "u32 \<Rightarrow> u32 \<Rightarrow> raw_instruction list \<Rightarrow> u32 \<Rightarrow> u8 list \<Rightarrow> u32 \<Rightarrow> filter_args" where
  "filter_args_of sp p0 prog p2 pkt wl =
     \<lparr>fv0 = p0, fv1 = of_nat (length prog), fv2 = p2, fv3 = wl, fv4 = of_nat (length pkt),
      fv11 = sp + - 64, fv14 = p0 + push_bit 3 (of_nat (length prog))\<rparr>"

definition filter_rel ::
  "memory \<Rightarrow> u32 \<Rightarrow> u32 \<Rightarrow> raw_instruction list \<Rightarrow> u32 \<Rightarrow> u8 list \<Rightarrow>
    memory \<times> filter_regs \<Rightarrow> bpf_state \<Rightarrow> bool" where
  "filter_rel m0 sp p0 prog p2 pkt c s \<longleftrightarrow>
     (case c of (m, r) \<Rightarrow>
        filter_layout m0 sp p0 prog p2 pkt \<and>
        same_outside m0 m (unat sp - 64) 64 \<and>
        bpf_inv prog s \<and>
        fv7 r = acc s \<and> fv9 r = idx s \<and> fv13 r = 0 \<and> unat (fv12 r) = jumps_back s \<and>
        fv10 r = p0 + 8 * of_nat (pc s) \<and> fv8 r = fv10 r - 8 \<and>
        (\<forall>i < 16. load32 m (unat sp - 64 + 4 * i) = Some (scratch s ! i)))"

definition verdict_rel :: "memory \<Rightarrow> u32 \<Rightarrow> u32 \<times> memory \<Rightarrow> u32 \<Rightarrow> bool" where
  "verdict_rel m0 sp rm q \<longleftrightarrow> fst rm = q \<and> same_outside m0 (snd rm) (unat sp - 64) 64"

abbreviation filter_sim ::
  "memory \<Rightarrow> u32 \<Rightarrow> u32 \<Rightarrow> raw_instruction list \<Rightarrow> u32 \<Rightarrow> u8 list \<Rightarrow>
    filter_result option \<Rightarrow> (bpf_state, u32) progress \<Rightarrow> bool" where
  "filter_sim m0 sp p0 prog p2 pkt \<equiv>
     step_related (filter_rel m0 sp p0 prog p2 pkt) (verdict_rel m0 sp)"

lemma args_simps [simp]:
  "fv0 (filter_args_of sp p0 prog p2 pkt wl) = p0"
  "fv1 (filter_args_of sp p0 prog p2 pkt wl) = of_nat (length prog)"
  "fv2 (filter_args_of sp p0 prog p2 pkt wl) = p2"
  "fv3 (filter_args_of sp p0 prog p2 pkt wl) = wl"
  "fv4 (filter_args_of sp p0 prog p2 pkt wl) = of_nat (length pkt)"
  "fv11 (filter_args_of sp p0 prog p2 pkt wl) = sp + - 64"
  "fv14 (filter_args_of sp p0 prog p2 pkt wl) = p0 + push_bit 3 (of_nat (length prog))"
  by (simp_all add: filter_args_of_def)

text \<open>Addresses of the layout do not wrap.\<close>

lemma push_bit_3: "push_bit 3 (x :: u32) = 8 * x"
  by (simp add: push_bit_eq_mult)

lemma push_bit_2: "push_bit 2 (x :: u32) = 4 * x"
  by (simp add: push_bit_eq_mult)

lemma insn_addr:
  assumes "filter_layout m0 sp p0 prog p2 pkt" "q \<le> length prog + 255"
  shows "unat (p0 + 8 * of_nat q) = unat p0 + 8 * q"
proof -
  have b: "unat p0 + 8 * q < 2 ^ 32" "8 * q < 2 ^ 32"
    using assms by (auto simp: filter_layout_def)
  then have "unat (of_nat (8 * q) :: u32) = 8 * q"
    by (simp add: unat_of_nat del: of_nat_mult)
  then have "unat (8 * of_nat q :: u32) = 8 * q" by simp
  with b show ?thesis by (subst unat_add_no_wrap) auto
qed

lemma frame_addr:
  assumes "filter_layout m0 sp p0 prog p2 pkt"
  shows "unat (sp + - 64) = unat sp - 64"
  using assms by (simp add: filter_layout_def unat_sub_if_size word_le_nat_alt)

lemma slot_addr:
  assumes "filter_layout m0 sp p0 prog p2 pkt" "k < 16"
  shows "unat (sp + - 64 + push_bit 2 k) = unat sp - 64 + 4 * unat k"
proof -
  have k: "unat k < 16" using assms(2) by (simp add: word_less_nat_alt)
  then have "unat (4 * k) = 4 * unat k"
    by (simp add: unat_word_ariths)
  moreover have "unat sp - 64 + 64 < 2 ^ 32"
    using assms(1) unat_u32_less [of sp] by (simp add: filter_layout_def)
  ultimately show ?thesis
    using k by (simp add: push_bit_2 frame_addr [OF assms(1), simplified] unat_add_no_wrap)
qed

lemma pkt_addr:
  assumes "filter_layout m0 sp p0 prog p2 pkt" "unat x < length pkt"
  shows "unat (p2 + x) = unat p2 + unat x"
  using assms by (intro unat_add_no_wrap) (auto simp: filter_layout_def bytes_at_def)

lemma pkt_length:
  assumes "filter_layout m0 sp p0 prog p2 pkt"
  shows "unat (of_nat (length pkt) :: u32) = length pkt"
proof -
  have "length pkt < 2 ^ 32"
    using assms by (auto simp: filter_layout_def bytes_at_def apart_def)
  then show ?thesis by (simp add: unat_of_nat)
qed

text \<open>What the labels fetch from memory in related states.\<close>

lemma rel_facts:
  assumes "filter_rel m0 sp p0 prog p2 pkt (m, r) s"
  shows rel_layout: "filter_layout m0 sp p0 prog p2 pkt"
    and rel_outside: "same_outside m0 m (unat sp - 64) 64"
    and rel_pc: "pc s < length prog"
    and rel_acc: "fv7 r = acc s" and rel_idx: "fv9 r = idx s" and rel_v13: "fv13 r = 0"
    and rel_v12: "unat (fv12 r) = jumps_back s"
    and rel_v10: "fv10 r = p0 + 8 * of_nat (pc s)" and rel_v8: "fv8 r = fv10 r - 8"
    and rel_slot: "(k :: u32) < 16 \<Longrightarrow>
      load32 m (unat sp - 64 + 4 * unat k) = Some (scratch s ! unat k)"
  using assms unfolding filter_rel_def bpf_inv_def
  by (simp_all add: word_less_nat_alt)

lemma rel_insn:
  assumes "filter_rel m0 sp p0 prog p2 pkt (m, r) s"
  shows "unat (fv10 r) = unat p0 + 8 * pc s"
    and "insn_at m (unat (fv10 r)) = Some (prog ! pc s)"
proof -
  note lay = rel_layout [OF assms] and pc = rel_pc [OF assms]
  show addr: "unat (fv10 r) = unat p0 + 8 * pc s"
    using insn_addr [OF lay, of "pc s"] pc rel_v10 [OF assms] by simp
  have "prog_at m (unat p0) prog"
    using lay by (intro prog_at_same_outside [OF rel_outside [OF assms]])
      (auto simp: filter_layout_def)
  with pc addr show "insn_at m (unat (fv10 r)) = Some (prog ! pc s)"
    by (simp add: prog_at_def)
qed

lemma insn_at_fields:
  assumes "insn_at m p = Some i"
  shows "load16 m p = Some (Op i)" "index m (p + 2) = Some (Jt i)" "index m (p + 3) = Some (Jf i)"
    "load32 m (p + 4) = Some (K i)"
  using assms by (auto simp: insn_at_def split: option_bind_splits)

lemma rel_fetch:
  assumes "filter_rel m0 sp p0 prog p2 pkt (m, r) s"
  shows rel_op: "load16 m (unat (fv10 r)) = Some (Op (prog ! pc s))"
    and rel_k: "load_k m r = Some (K (prog ! pc s))"
    and rel_jt: "load8 m (unat (fv8 r + 10)) = Some (ucast (Jt (prog ! pc s)))"
    and rel_jf: "load8 m (unat (fv8 r + 11)) = Some (ucast (Jf (prog ! pc s)))"
proof -
  note ins = rel_insn [OF assms]
  have b: "8 \<le> unat (fv10 r)" "unat (fv10 r) + 8 < 2 ^ 32"
    using ins(1) rel_layout [OF assms] rel_pc [OF assms] by (auto simp: filter_layout_def)
  then have fv8: "unat (fv8 r) + 8 = unat (fv10 r)"
    by (simp add: rel_v8 [OF assms] unat_sub_if_size word_le_nat_alt)
  moreover have "unat (fv8 r + 10) = unat (fv8 r) + 10" "unat (fv8 r + 11) = unat (fv8 r) + 11"
    using fv8 b by (simp_all add: unat_add_no_wrap)
  ultimately have addr: "unat (fv8 r) + 12 = unat (fv10 r) + 4"
    "unat (fv8 r + 10) = unat (fv10 r) + 2" "unat (fv8 r + 11) = unat (fv10 r) + 3"
    by simp_all
  show "load16 m (unat (fv10 r)) = Some (Op (prog ! pc s))"
    and "load_k m r = Some (K (prog ! pc s))"
    and "load8 m (unat (fv8 r + 10)) = Some (ucast (Jt (prog ! pc s)))"
    and "load8 m (unat (fv8 r + 11)) = Some (ucast (Jf (prog ! pc s)))"
    unfolding load_k_def load8_def addr
    by (simp_all only: insn_at_fields [OF ins(2)] option.map)
qed

lemma rel_bytes:
  assumes "filter_rel m0 sp p0 prog p2 pkt (m, r) s"
  shows "bytes_at m (unat p2) pkt"
  using rel_layout [OF assms] bytes_at_same_outside [OF rel_outside [OF assms]]
  by (simp add: filter_layout_def)

lemma rel_load8:
  assumes "filter_rel m0 sp p0 prog p2 pkt (m, r) s" "unat x < length pkt"
  shows "load8 m (unat (p2 + x)) = Some (ucast (pkt ! unat x))"
  using bytes_at_load8 [OF rel_bytes [OF assms(1)] assms(2)]
    pkt_addr [OF rel_layout [OF assms(1)] assms(2)] by simp

lemma rel_load32:
  assumes "filter_rel m0 sp p0 prog p2 pkt (m, r) s" "unat x + 4 \<le> length pkt"
  shows "\<exists>v. load32 m (unat (p2 + x)) = Some v \<and>
    be_value (take 4 (drop (unat x) pkt)) = byteswap32 v"
proof -
  have "get_bytes m (unat (p2 + x)) 4 = Some (take 4 (drop (unat x) pkt))"
    using bytes_at_get [OF rel_bytes [OF assms(1)] assms(2)]
      pkt_addr [OF rel_layout [OF assms(1)], of x] assms(2) by simp
  moreover have "length (take 4 (drop (unat x) pkt)) = 4" using assms(2) by simp
  ultimately show ?thesis
    using be_value_4 byteswap32_be cell32.dec_total by (metis (no_types) bind.bind_lunit load32_def
      not_None_eq option.inject)
qed
text \<open>The common ends of the labels.\<close>

lemma sim_fail:
  assumes "filter_rel m0 sp p0 prog p2 pkt (m, r) s"
  shows "filter_sim m0 sp p0 prog p2 pkt (Some (goto_l8 m r)) (Stop 0)"
  using rel_v13 [OF assms] rel_outside [OF assms] by (simp add: goto_l8_def verdict_rel_def)

lemma goto_l41_sim:
  assumes R: "filter_rel m0 sp p0 prog p2 pkt (m, r) s"
    and q: "fv10 r' + 8 = p0 + 8 * of_nat q" "q \<le> length prog + 255"
    and m': "same_outside m0 m' (unat sp - 64) 64"
    and s': "x = acc s'" "fv9 r' = idx s'" "fv13 r' = 0" "unat (fv12 r') = jumps_back s'"
      "jumps_back s' \<le> 64" "length (scratch s') = 16"
      "\<forall>i < 16. load32 m' (unat sp - 64 + 4 * i) = Some (scratch s' ! i)"
  shows "filter_sim m0 sp p0 prog p2 pkt
    (Some (goto_l41 (filter_args_of sp p0 prog p2 pkt wl) m' r' x)) (goto_pc (length prog) s' q)"
proof -
  note lay = rel_layout [OF R]
  have "unat (fv10 r' + 8) < unat (p0 + 8 * of_nat (length prog)) \<longleftrightarrow> q < length prog"
    using insn_addr [OF lay q(2)] insn_addr [OF lay, of "length prog"] q(1) by simp
  then have "fv10 r' + 8 < p0 + push_bit 3 (of_nat (length prog)) \<longleftrightarrow> q < length prog"
    by (simp add: word_less_nat_alt push_bit_3)
  moreover have "fv10 r' = p0 + 8 * of_nat q - 8"
    using q(1) by (metis add_diff_cancel_right')
  ultimately show ?thesis using lay q(1) m' s'
    by (auto simp: goto_l41_def goto_l8_def Let_def goto_pc_def filter_rel_def verdict_rel_def
      bpf_inv_def)
qed

lemma rel_next:
  assumes "filter_rel m0 sp p0 prog p2 pkt (m, r) s"
  shows "fv10 r + 8 = p0 + 8 * of_nat (Suc (pc s))" "Suc (pc s) \<le> length prog + 255"
    "jumps_back s \<le> 64" "length (scratch s) = 16"
    "\<forall>i < 16. load32 m (unat sp - 64 + 4 * i) = Some (scratch s ! i)"
  using assms by (simp_all add: filter_rel_def bpf_inv_def algebra_simps)

lemma eight_Suc: "8 * of_nat (Suc n) = 8 * of_nat n + (8 :: u32)"
  by (simp add: algebra_simps)

lemma sim_acc:
  assumes "filter_rel m0 sp p0 prog p2 pkt (m, r) s"
  shows "filter_sim m0 sp p0 prog p2 pkt
    (Some (goto_l41 (filter_args_of sp p0 prog p2 pkt wl) m r x)) (set_acc (length prog) s (Some x))"
  unfolding set_acc_def option.case
  by (rule goto_l41_sim [OF assms])
    (simp_all add: rel_next [OF assms] rel_facts [OF assms] del: of_nat_Suc add: eight_Suc)

lemma sim_idx:
  assumes "filter_rel m0 sp p0 prog p2 pkt (m, r) s"
  shows "filter_sim m0 sp p0 prog p2 pkt
    (Some (goto_l41 (filter_args_of sp p0 prog p2 pkt wl) m (r\<lparr>fv9 := x\<rparr>) (fv7 r)))
    (set_idx (length prog) s (Some x))"
  unfolding set_idx_def option.case
  by (rule goto_l41_sim [OF assms])
    (simp_all add: rel_next [OF assms] rel_facts [OF assms] del: of_nat_Suc add: eight_Suc)

lemma sim_acc_option:
  assumes "filter_rel m0 sp p0 prog p2 pkt (m, r) s"
    and "v = None \<Longrightarrow> p = Some (goto_l8 m r)"
    and "\<And>x. v = Some x \<Longrightarrow> p = Some (goto_l41 (filter_args_of sp p0 prog p2 pkt wl) m r x)"
  shows "filter_sim m0 sp p0 prog p2 pkt p (set_acc (length prog) s v)"
  using sim_fail [OF assms(1)] sim_acc [OF assms(1)] assms(2,3)
  by (cases v) (auto simp: set_acc_def)

lemma sim_idx_option:
  assumes "filter_rel m0 sp p0 prog p2 pkt (m, r) s"
    and "v = None \<Longrightarrow> p = Some (goto_l8 m r)"
    and "\<And>x. v = Some x \<Longrightarrow>
      p = Some (goto_l41 (filter_args_of sp p0 prog p2 pkt wl) m (r\<lparr>fv9 := x\<rparr>) (fv7 r))"
  shows "filter_sim m0 sp p0 prog p2 pkt p (set_idx (length prog) s v)"
  using sim_fail [OF assms(1)] sim_idx [OF assms(1)] assms(2,3)
  by (cases v) (auto simp: set_idx_def)

lemma sim_scratch:
  assumes R: "filter_rel m0 sp p0 prog p2 pkt (m, r) s"
    and p: "p = (if k > 15 then Some (goto_l8 m r)
      else do {
        m' \<leftarrow> store32 m (unat (sp + - 64 + push_bit 2 k)) x;
        Some (goto_l41 (filter_args_of sp p0 prog p2 pkt wl) m' r (fv7 r))
      })"
  shows "filter_sim m0 sp p0 prog p2 pkt p (set_scratch (length prog) s k x)"
proof (cases "k < 16")
  case False
  then have "k > 15" by (simp add: word_less_nat_alt)
  with False p sim_fail [OF R] show ?thesis by (simp add: set_scratch_def)
next
  case True
  then have k: "\<not> k > 15" "unat k < 16" by (simp_all add: word_less_nat_alt)
  note lay = rel_layout [OF R]
  define f where "f = unat sp - 64"
  have fr: "f + 64 \<le> length m"
    using lay same_outside_length [OF rel_outside [OF R]] by (auto simp: filter_layout_def f_def)
  with k obtain m' where m': "store32 m (f + 4 * unat k) x = Some m'"
    using store32_in [of "f + 4 * unat k" m x] by auto
  have "load32 m' (f + 4 * i) = Some ((scratch s)[unat k := x] ! i)" if "i < 16" for i
  proof (cases "i = unat k")
    case True
    with m' that k rel_next(4) [OF R] show ?thesis by (simp add: load32_store32)
  next
    case False
    then have "load32 m' (f + 4 * i) = load32 m (f + 4 * i)"
      by (intro load32_store32_other [OF m']) auto
    with False that rel_next(5) [OF R] show ?thesis by (simp add: f_def)
  qed
  moreover have "same_outside m0 m' f 64"
    using same_outside_trans [OF rel_outside [OF R]] store32_same_outside [OF m', of f 64] k
    by (simp add: f_def)
  ultimately have "filter_sim m0 sp p0 prog p2 pkt
      (Some (goto_l41 (filter_args_of sp p0 prog p2 pkt wl) m' r (fv7 r)))
      (goto_pc (length prog) (s\<lparr>scratch := (scratch s)[unat k := x]\<rparr>) (Suc (pc s)))"
    by (intro goto_l41_sim [OF R])
      (simp_all add: rel_next [OF R] rel_facts [OF R] f_def del: of_nat_Suc add: eight_Suc)
  with True k p m' slot_addr [OF lay True] show ?thesis
    by (simp add: set_scratch_def f_def)
qed

lemma sim_jump:
  assumes R: "filter_rel m0 sp p0 prog p2 pkt (m, r) s"
    and p: "p = (if c then 10 else 11)"
  shows "filter_sim m0 sp p0 prog p2 pkt
    (take_jump (filter_args_of sp p0 prog p2 pkt wl) m r p)
    (goto_pc (length prog) s (Suc (pc s) +
       (if c then unat (Jt (prog ! pc s)) else unat (Jf (prog ! pc s)))))"
proof -
  define d where "d = (if c then Jt (prog ! pc s) else Jf (prog ! pc s))"
  have d: "load8 m (unat (fv8 r + p)) = Some (ucast d)"
    using rel_jt [OF R] rel_jf [OF R] p by (simp add: d_def)
  have "(ucast d :: u32) = of_nat (unat d)" by (simp add: unsigned_ucast_eq)
  then have "fv10 r + push_bit 3 (ucast d) + 8 = p0 + 8 * of_nat (Suc (pc s) + unat d)"
    using rel_next(1) [OF R] by (simp add: push_bit_3 algebra_simps)
  moreover have "Suc (pc s) + unat d \<le> length prog + 255"
    using rel_pc [OF R] unat_u8_less [of d] by linarith
  ultimately have "filter_sim m0 sp p0 prog p2 pkt
      (Some (goto_l41 (filter_args_of sp p0 prog p2 pkt wl) m
        (r\<lparr>fv10 := fv10 r + push_bit 3 (ucast d)\<rparr>) (fv7 r)))
      (goto_pc (length prog) s (Suc (pc s) + unat d))"
    by (intro goto_l41_sim [OF R])
      (simp_all add: rel_next [OF R] rel_facts [OF R] del: of_nat_Suc of_nat_add add: eight_Suc)
  with d show ?thesis by (cases c) (simp_all add: take_jump_def d_def)
qed
subsection \<open>Packet windows\<close>

text \<open>
  The interpreter checks each window of the packet by differences that cannot wrap; the
  conditions say that the field lies within the captured bytes.
\<close>

lemma window_abs:
  fixes l k c :: u32
  shows "(if l < k then x else if l - k < c then x else y) =
    (if unat k + unat c \<le> unat l then y else x)"
  by (auto simp: word_less_nat_alt unat_sub_if_size)

lemma window_ind:
  fixes l k c z :: u32
  shows "(if l < k then x else if z > l - k then x else if l - (k + z) < c then x else y) =
    (if unat z + unat k + unat c \<le> unat l then y else x)"
proof (cases "l < k \<or> z > l - k")
  case True
  then show ?thesis by (auto simp: word_less_nat_alt unat_sub_if_size split: if_splits)
next
  case False
  then have le: "unat k + unat z \<le> unat l"
    by (auto simp: word_less_nat_alt unat_sub_if_size not_less)
  then have "unat (k + z) = unat k + unat z"
    using le_less_trans [OF le unat_u32_less] unat_add_no_wrap [of k z] by simp
  with False le show ?thesis by (auto simp: word_less_nat_alt unat_sub_if_size)
qed

lemma window_ind_swapped:
  fixes l k c z :: u32
  shows "(if l < z then x else if k > l - z then x else if l - (k + z) < c then x else y) =
    (if unat z + unat k + unat c \<le> unat l then y else x)"
  using window_ind [of l z x k c y]
  by (simp only: add.commute [of k z] add.commute [of "unat k" "unat z"])

lemma window_byte:
  fixes l k :: u32
  shows "(if k \<ge> l then x else y) = (if unat k + 1 \<le> unat l then y else x)"
  by (auto simp: word_le_nat_alt)

lemma window_byte_ind:
  fixes l k z :: u32
  shows "(if l \<le> k then x else if z \<ge> l - k then x else y) =
    (if unat z + unat k + 1 \<le> unat l then y else x)"
  by (auto simp: word_le_nat_alt unat_sub_if_size)

lemma index_sum:
  fixes k z l :: u32
  assumes "unat z + unat k < unat l"
  shows "unat (k + z) = unat z + unat k"
proof -
  have "unat k + unat z < 2 ^ LENGTH(32)"
    using less_trans [OF assms unat_u32_less] by simp
  from unat_add_no_wrap [OF this] show ?thesis by linarith
qed

lemma pkt_load_W: "pkt_load SizeW pkt off =
    (if off + 4 \<le> length pkt then Some (be_value (take 4 (drop off pkt))) else None)"
  by (simp add: pkt_load_def)

lemma pkt_load_H: "pkt_load SizeH pkt off =
    (if off + 2 \<le> length pkt
     then Some (push_bit 8 (ucast (pkt ! off)) OR ucast (pkt ! (off + 1))) else None)"
proof -
  have "take 2 (drop off pkt) = [pkt ! off, pkt ! (off + 1)]" if "off + 2 \<le> length pkt"
    using that by (intro nth_equalityI) (auto simp: nth_Cons split: nat.split)
  then show ?thesis by (simp add: pkt_load_def be_value_2)
qed

lemma pkt_load_B: "pkt_load SizeB pkt off =
    (if off + 1 \<le> length pkt then Some (ucast (pkt ! off)) else None)"
  by (auto simp: pkt_load_def be_value_1 take_Suc_conv_app_nth)

lemmas pkt_load_simps = pkt_load_W pkt_load_H pkt_load_B

lemma rel_load8_next:
  assumes "filter_rel m0 sp p0 prog p2 pkt (m, r) s" "unat x + 2 \<le> length pkt"
  shows "load8 m (unat (p2 + x) + 1) = Some (ucast (pkt ! (unat x + 1)))"
  using bytes_at_load8 [OF rel_bytes [OF assms(1)], of "unat x + 1"]
    pkt_addr [OF rel_layout [OF assms(1)], of x] assms(2) by (simp add: add.assoc)

subsection \<open>The labels\<close>

text \<open>
  Each label makes the step of the abstract machine for its opcode. The hypothesis \<open>R\<close> of all of
  them is that the two machines are in related states.
\<close>

lemma label_load_abs:
  fixes wl :: u32
  assumes R: "filter_rel m0 sp p0 prog p2 pkt (m, r) s"
  defines "a \<equiv> filter_args_of sp p0 prog p2 pkt wl" and "k \<equiv> K (prog ! pc s)"
  shows "filter_sim m0 sp p0 prog p2 pkt (filter_l15 a m r)
      (set_acc (length prog) s (pkt_load SizeW pkt (unat k)))"
    and "filter_sim m0 sp p0 prog p2 pkt (filter_l18 a m r)
      (set_acc (length prog) s (pkt_load SizeH pkt (unat k)))"
    and "filter_sim m0 sp p0 prog p2 pkt (filter_l21 a m r)
      (set_acc (length prog) s (pkt_load SizeB pkt (unat k)))"
proof -
  note simps = rel_k [OF R] bind.bind_lunit a_def k_def args_simps pkt_length [OF rel_layout [OF R]]
  have l15: "filter_l15 a m r =
      (if unat k + 4 \<le> length pkt then do {
         t \<leftarrow> load32 m (unat (p2 + k)); Some (goto_l41 a m r (byteswap32 t)) }
       else Some (goto_l8 m r))"
    by (simp only: filter_l15_def window_abs simps) simp
  have l18: "filter_l18 a m r =
      (if unat k + 2 \<le> length pkt then do {
         t8 \<leftarrow> load8 m (unat (p2 + k)); t9 \<leftarrow> load8 m (unat (p2 + k) + 1);
         Some (goto_l41 a m r (push_bit 8 t8 OR t9)) }
       else Some (goto_l8 m r))"
    by (simp only: filter_l18_def window_abs simps) simp
  have l21: "filter_l21 a m r =
      (if unat k + 1 \<le> length pkt then do {
         t \<leftarrow> load8 m (unat (p2 + k)); Some (goto_l41 a m r t) }
       else Some (goto_l8 m r))"
    by (simp only: filter_l21_def window_byte simps)
  note loads = rel_load32 [OF R, of k] rel_load8 [OF R, of k] rel_load8_next [OF R, of k]
  show "filter_sim m0 sp p0 prog p2 pkt (filter_l15 a m r)
      (set_acc (length prog) s (pkt_load SizeW pkt (unat k)))"
    using loads unfolding l15 unfolding a_def
    by (intro sim_acc_option [OF R]; auto simp: pkt_load_simps split: if_splits)
  show "filter_sim m0 sp p0 prog p2 pkt (filter_l18 a m r)
      (set_acc (length prog) s (pkt_load SizeH pkt (unat k)))"
    using loads unfolding l18 unfolding a_def
    by (intro sim_acc_option [OF R]; auto simp: pkt_load_simps split: if_splits)
  show "filter_sim m0 sp p0 prog p2 pkt (filter_l21 a m r)
      (set_acc (length prog) s (pkt_load SizeB pkt (unat k)))"
    using loads unfolding l21 unfolding a_def
    by (intro sim_acc_option [OF R]; auto simp: pkt_load_simps split: if_splits)
qed

lemma label_load_ind:
  fixes wl :: u32
  assumes R: "filter_rel m0 sp p0 prog p2 pkt (m, r) s"
  defines "a \<equiv> filter_args_of sp p0 prog p2 pkt wl" and "k \<equiv> K (prog ! pc s)"
  shows "filter_sim m0 sp p0 prog p2 pkt (filter_l26 a m r)
      (set_acc (length prog) s (pkt_load SizeW pkt (unat (idx s) + unat k)))"
    and "filter_sim m0 sp p0 prog p2 pkt (filter_l29 a m r)
      (set_acc (length prog) s (pkt_load SizeH pkt (unat (idx s) + unat k)))"
    and "filter_sim m0 sp p0 prog p2 pkt (filter_l32 a m r)
      (set_acc (length prog) s (pkt_load SizeB pkt (unat (idx s) + unat k)))"
proof -
  let ?l = "of_nat (length pkt) :: u32"
  have l: "unat ?l = length pkt" by (rule pkt_length [OF rel_layout [OF R]])
  have sum: "unat (k + idx s) = unat (idx s) + unat k" if "unat (idx s) + unat k < length pkt"
    using index_sum [of "idx s" k ?l] that l by simp
  have addr: "p2 + idx s + k = p2 + (k + idx s)" by (simp add: ac_simps)
  note simps = rel_k [OF R] rel_idx [OF R] bind.bind_lunit a_def k_def args_simps l
  have l26: "filter_l26 a m r =
      (if unat (idx s) + unat k + 4 \<le> length pkt then do {
         t \<leftarrow> load32 m (unat (p2 + (k + idx s)));
         Some (goto_l41 a m r (byteswap32 t)) } else Some (goto_l8 m r))"
    by (simp only: filter_l26_def window_ind simps) simp
  have l29: "filter_l29 a m r =
      (if unat (idx s) + unat k + 2 \<le> length pkt then do {
         t8 \<leftarrow> load8 m (unat (p2 + (k + idx s)));
         t9 \<leftarrow> load8 m (unat (p2 + (k + idx s)) + 1);
         Some (goto_l41 a m r (push_bit 8 t8 OR t9)) } else Some (goto_l8 m r))"
    by (simp only: filter_l29_def window_ind_swapped simps) simp
  have l32: "filter_l32 a m r =
      (if unat (idx s) + unat k + 1 \<le> length pkt then do {
         t \<leftarrow> load8 m (unat (p2 + (k + idx s)));
         Some (goto_l41 a m r t) } else Some (goto_l8 m r))"
    unfolding addr [symmetric] by (simp only: filter_l32_def window_byte_ind simps)
  note loads = rel_load32 [OF R, of "k + idx s"] rel_load8 [OF R, of "k + idx s"]
    rel_load8_next [OF R, of "k + idx s"]
  show "filter_sim m0 sp p0 prog p2 pkt (filter_l26 a m r)
      (set_acc (length prog) s (pkt_load SizeW pkt (unat (idx s) + unat k)))"
    using loads sum unfolding l26 unfolding a_def
    by (intro sim_acc_option [OF R]; auto simp: pkt_load_simps split: if_splits)
  show "filter_sim m0 sp p0 prog p2 pkt (filter_l29 a m r)
      (set_acc (length prog) s (pkt_load SizeH pkt (unat (idx s) + unat k)))"
    using loads sum unfolding l29 unfolding a_def
    by (intro sim_acc_option [OF R]; auto simp: pkt_load_simps split: if_splits)
  show "filter_sim m0 sp p0 prog p2 pkt (filter_l32 a m r)
      (set_acc (length prog) s (pkt_load SizeB pkt (unat (idx s) + unat k)))"
    using loads sum unfolding l32 unfolding a_def
    by (intro sim_acc_option [OF R]; auto simp: pkt_load_simps split: if_splits)
qed
lemma rel_scratch_load:
  assumes R: "filter_rel m0 sp p0 prog p2 pkt (m, r) s" and k: "\<not> k > (15 :: u32)"
  shows "load32 m (unat (sp + - 64 + push_bit 2 k)) = Some (scratch s ! unat k)"
proof -
  from k have "k < 16" by (simp add: word_less_nat_alt)
  with rel_slot [OF R] slot_addr [OF rel_layout [OF R]] show ?thesis by simp
qed

lemma label_load_mem:
  fixes wl :: u32
  assumes R: "filter_rel m0 sp p0 prog p2 pkt (m, r) s"
  defines "a \<equiv> filter_args_of sp p0 prog p2 pkt wl" and "k \<equiv> K (prog ! pc s)"
  shows "filter_sim m0 sp p0 prog p2 pkt (filter_l35 a m r)
      (set_acc (length prog) s (if k < 16 then Some (scratch s ! unat k) else None))"
    and "filter_sim m0 sp p0 prog p2 pkt (filter_l36 a m r)
      (set_idx (length prog) s (if k < 16 then Some (scratch s ! unat k) else None))"
    and "filter_sim m0 sp p0 prog p2 pkt (filter_l2 a m r) (set_scratch (length prog) s k (acc s))"
    and "filter_sim m0 sp p0 prog p2 pkt (filter_l3 a m r) (set_scratch (length prog) s k (idx s))"
proof -
  have k: "k < 16 \<longleftrightarrow> \<not> k > 15" unfolding word_less_nat_alt by auto
  note load = rel_scratch_load [OF R, of k]
  show "filter_sim m0 sp p0 prog p2 pkt (filter_l35 a m r)
      (set_acc (length prog) s (if k < 16 then Some (scratch s ! unat k) else None))"
    using load unfolding a_def k
    by (intro sim_acc_option [OF R]; simp add: filter_l35_def rel_k [OF R] k_def split: if_splits)
  show "filter_sim m0 sp p0 prog p2 pkt (filter_l36 a m r)
      (set_idx (length prog) s (if k < 16 then Some (scratch s ! unat k) else None))"
    using load unfolding a_def k
    by (intro sim_idx_option [OF R]; simp add: filter_l36_def rel_k [OF R] k_def split: if_splits)
  show "filter_sim m0 sp p0 prog p2 pkt (filter_l2 a m r)
      (set_scratch (length prog) s k (acc s))"
    unfolding a_def
    by (rule sim_scratch [OF R, where wl = wl])
      (simp add: filter_l2_def rel_k [OF R] k_def rel_acc [OF R, symmetric])
  show "filter_sim m0 sp p0 prog p2 pkt (filter_l3 a m r)
      (set_scratch (length prog) s k (idx s))"
    unfolding a_def
    by (rule sim_scratch [OF R, where wl = wl])
      (simp add: filter_l3_def rel_k [OF R] k_def rel_idx [OF R, symmetric])
qed

lemma msh_mask: "push_bit 2 x AND 60 = push_bit 2 ((x :: u32) AND 15)"
proof -
  have "(60 :: u32) = push_bit 2 15" by (simp add: push_bit_eq_mult)
  then show ?thesis by (simp only: push_bit_and)
qed

lemma label_load_idx:
  fixes wl :: u32
  assumes R: "filter_rel m0 sp p0 prog p2 pkt (m, r) s"
  defines "a \<equiv> filter_args_of sp p0 prog p2 pkt wl" and "k \<equiv> K (prog ! pc s)"
  shows "filter_sim m0 sp p0 prog p2 pkt (filter_l49 a m r) (set_idx (length prog) s
      (map_option (\<lambda>b. push_bit 2 (b AND 15)) (pkt_load SizeB pkt (unat k))))"
    and "filter_sim m0 sp p0 prog p2 pkt (filter_l1 a m r) (set_idx (length prog) s (Some k))"
    and "filter_sim m0 sp p0 prog p2 pkt (filter_l42 a m r) (set_idx (length prog) s (Some wl))"
    and "filter_sim m0 sp p0 prog p2 pkt (filter_l7 a m r) (set_idx (length prog) s (Some (acc s)))"
proof -
  note simps = rel_k [OF R] bind.bind_lunit a_def k_def args_simps pkt_length [OF rel_layout [OF R]]
  have l49: "filter_l49 a m r =
      (if unat k + 1 \<le> length pkt then do {
         t \<leftarrow> load8 m (unat (p2 + k));
         Some (goto_l41 a m (r\<lparr>fv9 := push_bit 2 (t AND 15)\<rparr>) (fv7 r)) }
       else Some (goto_l8 m r))"
    by (simp only: filter_l49_def window_byte simps msh_mask)
  show "filter_sim m0 sp p0 prog p2 pkt (filter_l49 a m r) (set_idx (length prog) s
      (map_option (\<lambda>b. push_bit 2 (b AND 15)) (pkt_load SizeB pkt (unat k))))"
    using rel_load8 [OF R, of k] unfolding l49 unfolding a_def
    by (intro sim_idx_option [OF R]; auto simp: pkt_load_simps split: if_splits)
  show "filter_sim m0 sp p0 prog p2 pkt (filter_l1 a m r) (set_idx (length prog) s (Some k))"
    and "filter_sim m0 sp p0 prog p2 pkt (filter_l42 a m r) (set_idx (length prog) s (Some wl))"
    and "filter_sim m0 sp p0 prog p2 pkt (filter_l7 a m r) (set_idx (length prog) s (Some (acc s)))"
    using sim_idx [OF R, of wl]
    by (simp_all add: filter_l1_def filter_l42_def filter_l7_def rel_k [OF R] rel_acc [OF R]
      a_def k_def)
qed

text \<open>Arithmetic: the shift counts below 32 are not changed by the mask of \<open>i32_shl\<close>.\<close>

lemma and_31:
  assumes "(y :: u32) < 32"
  shows "y AND 31 = y"
proof -
  have "y AND mask 5 = y"
    using assms by (intro less_mask_eq) simp
  then show ?thesis by (simp add: mask_eq_exp_minus_1)
qed

lemma i32_shift_small:
  "y < 32 \<Longrightarrow> i32_shl x y = push_bit (unat y) x"
  "y < 32 \<Longrightarrow> i32_shr_u x y = drop_bit (unat y) x"
  by (simp_all add: i32_shl_def i32_shr_u_def and_31)

lemma label_alu_x:
  fixes wl :: u32
  assumes R: "filter_rel m0 sp p0 prog p2 pkt (m, r) s"
  defines "a \<equiv> filter_args_of sp p0 prog p2 pkt wl"
  shows "filter_sim m0 sp p0 prog p2 pkt (filter_l9 a m r)
      (set_acc (length prog) s (alu Add (acc s) (idx s)))"
    and "filter_sim m0 sp p0 prog p2 pkt (filter_l13 a m r)
      (set_acc (length prog) s (alu Sub (acc s) (idx s)))"
    and "filter_sim m0 sp p0 prog p2 pkt (filter_l19 a m r)
      (set_acc (length prog) s (alu Mul (acc s) (idx s)))"
    and "filter_sim m0 sp p0 prog p2 pkt (filter_l24 a m r)
      (set_acc (length prog) s (alu Div (acc s) (idx s)))"
    and "filter_sim m0 sp p0 prog p2 pkt (filter_l46 a m r)
      (set_acc (length prog) s (alu Mod (acc s) (idx s)))"
    and "filter_sim m0 sp p0 prog p2 pkt (filter_l34 a m r)
      (set_acc (length prog) s (alu And (acc s) (idx s)))"
    and "filter_sim m0 sp p0 prog p2 pkt (filter_l30 a m r)
      (set_acc (length prog) s (alu Or (acc s) (idx s)))"
    and "filter_sim m0 sp p0 prog p2 pkt (filter_l48 a m r)
      (set_acc (length prog) s (alu Xor (acc s) (idx s)))"
    and "filter_sim m0 sp p0 prog p2 pkt (filter_l38 a m r)
      (set_acc (length prog) s (alu Lsh (acc s) (idx s)))"
    and "filter_sim m0 sp p0 prog p2 pkt (filter_l40 a m r)
      (set_acc (length prog) s (alu Rsh (acc s) (idx s)))"
    and "filter_sim m0 sp p0 prog p2 pkt (filter_l43 a m r)
      (set_acc (length prog) s (Some (- acc s)))"
    and "filter_sim m0 sp p0 prog p2 pkt (filter_l44 a m r)
      (set_acc (length prog) s (Some (idx s)))"
  unfolding a_def
  by (rule sim_acc_option [OF R, where wl = wl];
      simp add: filter_l9_def filter_l13_def filter_l19_def filter_l24_def filter_l46_def
        filter_l34_def filter_l30_def filter_l48_def filter_l38_def filter_l40_def
        filter_l43_def filter_l44_def rel_acc [OF R] rel_idx [OF R] i32_shift_small
        split: if_splits)+

lemma label_alu_k:
  fixes wl :: u32
  assumes R: "filter_rel m0 sp p0 prog p2 pkt (m, r) s"
  defines "a \<equiv> filter_args_of sp p0 prog p2 pkt wl" and "k \<equiv> K (prog ! pc s)"
  shows "filter_sim m0 sp p0 prog p2 pkt (filter_l4 a m r)
      (set_acc (length prog) s (alu Add (acc s) k))"
    and "filter_sim m0 sp p0 prog p2 pkt (filter_l10 a m r)
      (set_acc (length prog) s (alu Sub (acc s) k))"
    and "filter_sim m0 sp p0 prog p2 pkt (filter_l16 a m r)
      (set_acc (length prog) s (alu Mul (acc s) k))"
    and "filter_sim m0 sp p0 prog p2 pkt (filter_l22 a m r)
      (set_acc (length prog) s (alu Div (acc s) k))"
    and "filter_sim m0 sp p0 prog p2 pkt (filter_l45 a m r)
      (set_acc (length prog) s (alu Mod (acc s) k))"
    and "filter_sim m0 sp p0 prog p2 pkt (filter_l33 a m r)
      (set_acc (length prog) s (alu And (acc s) k))"
    and "filter_sim m0 sp p0 prog p2 pkt (filter_l27 a m r)
      (set_acc (length prog) s (alu Or (acc s) k))"
    and "filter_sim m0 sp p0 prog p2 pkt (filter_l47 a m r)
      (set_acc (length prog) s (alu Xor (acc s) k))"
    and "filter_sim m0 sp p0 prog p2 pkt (filter_l37 a m r)
      (set_acc (length prog) s (alu Lsh (acc s) k))"
    and "filter_sim m0 sp p0 prog p2 pkt (filter_l39 a m r)
      (set_acc (length prog) s (alu Rsh (acc s) k))"
    and "filter_sim m0 sp p0 prog p2 pkt (filter_l0 a m r)
      (set_acc (length prog) s (Some k))"
  unfolding a_def
  by (rule sim_acc_option [OF R, where wl = wl];
      simp add: filter_l4_def filter_l10_def filter_l16_def filter_l22_def filter_l45_def
        filter_l33_def filter_l27_def filter_l47_def filter_l37_def filter_l39_def filter_l0_def
        rel_k [OF R] k_def [symmetric] rel_acc [OF R] i32_shift_small ac_simps
        split: if_splits)+
lemma label_jump:
  fixes wl :: u32
  assumes R: "filter_rel m0 sp p0 prog p2 pkt (m, r) s"
  defines "a \<equiv> filter_args_of sp p0 prog p2 pkt wl" and "i \<equiv> prog ! pc s"
  shows "filter_sim m0 sp p0 prog p2 pkt (filter_l17 a m r)
      (goto_pc (length prog) s (Suc (pc s) +
        (if cond Jgt (acc s) (K i) then unat (Jt i) else unat (Jf i))))"
    and "filter_sim m0 sp p0 prog p2 pkt (filter_l23 a m r)
      (goto_pc (length prog) s (Suc (pc s) +
        (if cond Jge (acc s) (K i) then unat (Jt i) else unat (Jf i))))"
    and "filter_sim m0 sp p0 prog p2 pkt (filter_l11 a m r)
      (goto_pc (length prog) s (Suc (pc s) +
        (if cond Jeq (acc s) (K i) then unat (Jt i) else unat (Jf i))))"
    and "filter_sim m0 sp p0 prog p2 pkt (filter_l28 a m r)
      (goto_pc (length prog) s (Suc (pc s) +
        (if cond Jset (acc s) (K i) then unat (Jt i) else unat (Jf i))))"
    and "filter_sim m0 sp p0 prog p2 pkt (filter_l20 a m r)
      (goto_pc (length prog) s (Suc (pc s) +
        (if cond Jgt (acc s) (idx s) then unat (Jt i) else unat (Jf i))))"
    and "filter_sim m0 sp p0 prog p2 pkt (filter_l25 a m r)
      (goto_pc (length prog) s (Suc (pc s) +
        (if cond Jge (acc s) (idx s) then unat (Jt i) else unat (Jf i))))"
    and "filter_sim m0 sp p0 prog p2 pkt (filter_l14 a m r)
      (goto_pc (length prog) s (Suc (pc s) +
        (if cond Jeq (acc s) (idx s) then unat (Jt i) else unat (Jf i))))"
    and "filter_sim m0 sp p0 prog p2 pkt (filter_l31 a m r)
      (goto_pc (length prog) s (Suc (pc s) +
        (if cond Jset (acc s) (idx s) then unat (Jt i) else unat (Jf i))))"
  unfolding a_def filter_l17_def filter_l23_def filter_l11_def filter_l28_def filter_l20_def
    filter_l25_def filter_l14_def filter_l31_def rel_k [OF R] bind.bind_lunit i_def
  by (rule sim_jump [OF R]; simp add: rel_acc [OF R] rel_idx [OF R] and.commute not_less not_le)+

text \<open>The unconditional jump. The target is computed on words and checked without a sign.\<close>

lemma pc_word:
  assumes "filter_rel m0 sp p0 prog p2 pkt (m, r) s"
  shows "signed_drop_bit 3 (fv10 r - p0) = (of_nat (pc s) :: u32)"
proof -
  have b: "8 * pc s < 2 ^ 31"
    using rel_pc [OF assms] rel_layout [OF assms] by (simp add: filter_layout_def)
  have d: "fv10 r - p0 = of_nat (8 * pc s)" using rel_v10 [OF assms] by simp
  have "sint (of_nat n :: u32) = int n" if "n < 2 ^ 31" for n
    using that by (simp add: signed_of_nat signed_take_bit_int_eq_self)
  with b have "sint (signed_drop_bit 3 (fv10 r - p0)) = sint (of_nat (pc s) :: u32)"
    unfolding d by (simp add: sint_signed_drop_bit_eq drop_bit_eq_div del: of_nat_mult)
  then show ?thesis by (rule signed_word_eqI)
qed

lemma target_check:
  fixes k :: u32
  assumes "n \<le> 3060000" "p < n"
  shows "k + of_nat p + 1 \<ge> of_nat n \<longleftrightarrow>
    int p + 1 + sint k < 0 \<or> int n \<le> int p + 1 + sint k"
proof -
  define t where "t = int p + 1 + sint k"
  have t: "k + of_nat p + 1 = word_of_int t"
    by (simp add: t_def)
  have "- (2 ^ 31) \<le> sint k" "sint k < 2 ^ 31"
    using sint_ge [of k] sint_lt [of k] by simp_all
  with assms have range: "- (2 ^ 31) \<le> t" "t < 2 ^ 32 - 3060000" by (auto simp: t_def)
  have n: "uint (of_nat n :: u32) = int n"
    using assms by (simp add: unsigned_of_nat take_bit_nat_eq_self)
  have "uint (word_of_int t :: u32) = t mod 2 ^ 32" by (simp add: uint_word_of_int)
  also have "\<dots> = (if t < 0 then t + 2 ^ 32 else t)"
  proof (cases "t < 0")
    case True
    have "t mod 2 ^ 32 = (t + 2 ^ 32) mod 2 ^ 32" by simp
    also have "\<dots> = t + 2 ^ 32" using True range by (intro mod_pos_pos_trivial) auto
    finally show ?thesis using True by simp
  next
    case False
    with range show ?thesis by simp
  qed
  finally show ?thesis
    using range assms(1) by (auto simp: word_le_def n t t_def [symmetric])
qed

lemma label_ja:
  fixes wl :: u32
  assumes R: "filter_rel m0 sp p0 prog p2 pkt (m, r) s"
  defines "a \<equiv> filter_args_of sp p0 prog p2 pkt wl" and "k \<equiv> K (prog ! pc s)"
  shows "filter_sim m0 sp p0 prog p2 pkt (filter_l5 a m r) (jump_always (length prog) s k)"
proof -
  define t where "t = int (pc s) + 1 + sint k"
  note lay = rel_layout [OF R] and pc = rel_pc [OF R] and fail = sim_fail [OF R]
  have l5: "filter_l5 a m r =
      (if t < 0 \<or> int (length prog) \<le> t then Some (goto_l8 m r)
       else if sint k < 0 then
         if k = - 1 then Some (goto_l8 m r)
         else if fv12 r > 63 then Some (goto_l8 m r)
         else Some (goto_l41 a m (r\<lparr>fv12 := fv12 r + 1, fv10 := fv10 r + push_bit 3 k\<rparr>) (fv7 r))
       else Some (goto_l41 a m (r\<lparr>fv10 := fv10 r + push_bit 3 k\<rparr>) (fv7 r)))"
    using target_check [of "length prog" "pc s" k] lay pc
    by (simp add: filter_l5_def rel_k [OF R] k_def [symmetric] a_def pc_word [OF R] t_def
      filter_layout_def)
  have minus1: "sint k = - 1 \<longleftrightarrow> k = - 1"
    using signed_word_eqI [of k "- 1"] by auto
  have fv12: "fv12 r > 63 \<longleftrightarrow> 64 \<le> jumps_back s"
    using rel_v12 [OF R] by (auto simp: word_less_nat_alt)
  have v12_next: "unat (fv12 r + 1) = Suc (jumps_back s)" if "jumps_back s < 64"
    using that rel_v12 [OF R] by (simp add: unat_add_no_wrap)
  have addr: "fv10 r + push_bit 3 k + 8 = p0 + 8 * of_nat (nat t)" if "0 \<le> t"
  proof -
    have "(of_nat (nat t) :: u32) = word_of_int t" using that by simp
    also have "\<dots> = of_nat (pc s) + 1 + k" by (simp add: t_def)
    finally show ?thesis by (simp add: rel_v10 [OF R] push_bit_3 algebra_simps)
  qed
  have goal: "filter_sim m0 sp p0 prog p2 pkt
      (Some (goto_l41 a m (r\<lparr>fv12 := x, fv10 := fv10 r + push_bit 3 k\<rparr>) (fv7 r)))
      (goto_pc (length prog) (s\<lparr>jumps_back := j\<rparr>) (nat t))"
    if "0 \<le> t" "t < int (length prog)" "unat x = j" "j \<le> 64" for x j
    unfolding a_def
    by (rule goto_l41_sim [OF R])
      (use that addr rel_next [OF R] rel_facts [OF R] in simp_all)
  show ?thesis
    using fail goal [of "fv12 r" "jumps_back s"] goal [of "fv12 r + 1" "Suc (jumps_back s)"]
      rel_v12 [OF R] rel_next(3) [OF R] v12_next
    by (auto simp: l5 jump_always_def t_def [symmetric] Let_def minus1 fv12 not_le not_less)
qed
subsection \<open>The switch\<close>

text \<open>The opcodes the switch knows, and the instruction each decodes to.\<close>

definition opcode_table :: "(u16 \<times> bpf_insn) list" where
  "opcode_table =
     [(0, LdImm), (32, LdAbs SizeW), (40, LdAbs SizeH), (48, LdAbs SizeB),
      (64, LdInd SizeW), (72, LdInd SizeH), (80, LdInd SizeB), (96, LdMem), (128, LdLen),
      (1, LdxImm), (97, LdxMem), (129, LdxLen), (177, LdxMsh), (2, St), (3, Stx),
      (4, Alu Add SrcK), (12, Alu Add SrcX), (20, Alu Sub SrcK), (28, Alu Sub SrcX),
      (36, Alu Mul SrcK), (44, Alu Mul SrcX), (52, Alu Div SrcK), (60, Alu Div SrcX),
      (68, Alu Or SrcK), (76, Alu Or SrcX), (84, Alu And SrcK), (92, Alu And SrcX),
      (100, Alu Lsh SrcK), (108, Alu Lsh SrcX), (116, Alu Rsh SrcK), (124, Alu Rsh SrcX),
      (148, Alu Mod SrcK), (156, Alu Mod SrcX), (164, Alu Xor SrcK), (172, Alu Xor SrcX),
      (132, Neg), (5, Ja),
      (21, Jcc Jeq SrcK), (29, Jcc Jeq SrcX), (37, Jcc Jgt SrcK), (45, Jcc Jgt SrcX),
      (53, Jcc Jge SrcK), (61, Jcc Jge SrcX), (69, Jcc Jset SrcK), (77, Jcc Jset SrcX),
      (6, RetK), (22, RetA), (7, Tax), (135, Txa)]"

text \<open>An opcode is the sum of its fields, so a decoded instruction determines it.\<close>

lemma opcode_fields:
  fixes op :: u16
  assumes "\<not> 256 \<le> op"
  shows "op = (op AND 7) OR (op AND 0xf8)"
proof -
  have "unat op < 2 ^ 8" using assms by (simp add: word_le_nat_alt)
  then have "op < 2 ^ 8" by (simp add: word_less_nat_alt)
  then have "op AND mask 8 = op" by (rule less_mask_eq)
  moreover have "(mask 8 :: u16) = 7 OR 0xf8" by (simp add: mask_eq_exp_minus_1)
  ultimately show ?thesis by (metis word_bw_comms(1) word_ao_dist word_ao_dist2)
qed

lemma rest_fields:
  "(op :: u16) AND 0xf8 = (op AND 0x18) OR (op AND 0xe0)"
  "op AND 0xf8 = (op AND 0xf0) OR (op AND 8)"
proof -
  have "(0xf8 :: u16) = 0x18 OR 0xe0" "(0xf8 :: u16) = 0xf0 OR 8" by simp_all
  then show "op AND 0xf8 = (op AND 0x18) OR (op AND 0xe0)"
    and "op AND 0xf8 = (op AND 0xf0) OR (op AND 8)"
    by (metis word_ao_dist2)+
qed

lemma and_exp: "(x :: 'a::len word) AND 2 ^ k = (if bit x k then 2 ^ k else 0)"
  by (rule bit_word_eqI) (auto simp: bit_and_iff bit_exp_iff)

lemma src_field: "(op :: u16) AND 8 = 0 \<or> op AND 8 = 8"
  using and_exp [of op 3] by (simp split: if_splits)

lemma class_field: "(op :: u16) AND 7 \<in> {0, 1, 2, 3, 4, 5, 6, 7}"
proof -
  have "unat (op AND 7) \<le> 7"
    using word_and_le1 [of op 7] by (simp add: word_le_nat_alt)
  then have "unat (op AND 7) \<in> {0, 1, 2, 3, 4, 5, 6, 7}" by auto
  then show ?thesis by (auto simp: word_unat_eq_iff)
qed

lemma decode_ld_inv:
  assumes "decode_ld op = Some ins" "op AND 7 = 0"  "\<not> 256 \<le> op"
  shows "(op, ins) \<in> set opcode_table"
  using assms opcode_fields [OF assms(3)] rest_fields(1) [of op]
  by (auto simp: decode_ld_def size_of_field_def Let_def opcode_table_def split: if_splits)

lemma decode_ldx_inv:
  assumes "decode_ldx op = Some ins" "op AND 7 = 1" "\<not> 256 \<le> op"
  shows "(op, ins) \<in> set opcode_table"
  using assms opcode_fields [OF assms(3)] rest_fields(1) [of op]
  by (auto simp: decode_ldx_def Let_def opcode_table_def split: if_splits)

lemma decode_alu_inv:
  assumes "decode_alu op = Some ins" "op AND 7 = 4" "\<not> 256 \<le> op"
  shows "(op, ins) \<in> set opcode_table"
  using assms opcode_fields [OF assms(3)] rest_fields(2) [of op] src_field [of op]
  by (auto simp: decode_alu_def alu_of_field_def src_of_field_def opcode_table_def
    split: if_splits)

lemma decode_jmp_inv:
  assumes "decode_jmp op = Some ins" "op AND 7 = 5" "\<not> 256 \<le> op"
  shows "(op, ins) \<in> set opcode_table"
  using assms opcode_fields [OF assms(3)] rest_fields(2) [of op] src_field [of op]
  by (auto simp: decode_jmp_def cond_of_field_def src_of_field_def opcode_table_def
    split: if_splits)

lemma decode_op_Some: "decode_op op = Some ins \<Longrightarrow> (op, ins) \<in> set opcode_table"
  using decode_ld_inv [of op ins] decode_ldx_inv [of op ins] decode_alu_inv [of op ins]
    decode_jmp_inv [of op ins] opcode_fields [of op] class_field [of op]
  by (auto simp: decode_op_def Let_def opcode_table_def split: if_splits)
lemma opcode_table_decode: "(op, ins) \<in> set opcode_table \<Longrightarrow> decode_op op = Some ins"
  by (auto simp: opcode_table_def decode_op_def decode_ld_def decode_ldx_def decode_alu_def
    decode_jmp_def size_of_field_def alu_of_field_def cond_of_field_def src_of_field_def word_le_nat_alt)

lemma switch_default:
  assumes "decode_op op = None"
  shows "filter_switch (ucast op) a m r = Some (goto_l8 m r)"
proof -
  have "op \<notin> fst ` set opcode_table"
    using assms opcode_table_decode [of op] by force
  then show ?thesis
    by (simp add: filter_switch_def opcode_table_def word_unat_eq_iff)
qed

text \<open>The interpreter takes the step of the abstract machine.\<close>

lemma switch_table:
  "filter_switch (ucast (0 :: u16)) = filter_l0"
  "filter_switch (ucast (1 :: u16)) = filter_l1"
  "filter_switch (ucast (2 :: u16)) = filter_l2"
  "filter_switch (ucast (3 :: u16)) = filter_l3"
  "filter_switch (ucast (4 :: u16)) = filter_l4"
  "filter_switch (ucast (5 :: u16)) = filter_l5"
  "filter_switch (ucast (6 :: u16)) = filter_l6"
  "filter_switch (ucast (7 :: u16)) = filter_l7"
  "filter_switch (ucast (12 :: u16)) = filter_l9"
  "filter_switch (ucast (20 :: u16)) = filter_l10"
  "filter_switch (ucast (21 :: u16)) = filter_l11"
  "filter_switch (ucast (22 :: u16)) = filter_l12"
  "filter_switch (ucast (28 :: u16)) = filter_l13"
  "filter_switch (ucast (29 :: u16)) = filter_l14"
  "filter_switch (ucast (32 :: u16)) = filter_l15"
  "filter_switch (ucast (36 :: u16)) = filter_l16"
  "filter_switch (ucast (37 :: u16)) = filter_l17"
  "filter_switch (ucast (40 :: u16)) = filter_l18"
  "filter_switch (ucast (44 :: u16)) = filter_l19"
  "filter_switch (ucast (45 :: u16)) = filter_l20"
  "filter_switch (ucast (48 :: u16)) = filter_l21"
  "filter_switch (ucast (52 :: u16)) = filter_l22"
  "filter_switch (ucast (53 :: u16)) = filter_l23"
  "filter_switch (ucast (60 :: u16)) = filter_l24"
  "filter_switch (ucast (61 :: u16)) = filter_l25"
  "filter_switch (ucast (64 :: u16)) = filter_l26"
  "filter_switch (ucast (68 :: u16)) = filter_l27"
  "filter_switch (ucast (69 :: u16)) = filter_l28"
  "filter_switch (ucast (72 :: u16)) = filter_l29"
  "filter_switch (ucast (76 :: u16)) = filter_l30"
  "filter_switch (ucast (77 :: u16)) = filter_l31"
  "filter_switch (ucast (80 :: u16)) = filter_l32"
  "filter_switch (ucast (84 :: u16)) = filter_l33"
  "filter_switch (ucast (92 :: u16)) = filter_l34"
  "filter_switch (ucast (96 :: u16)) = filter_l35"
  "filter_switch (ucast (97 :: u16)) = filter_l36"
  "filter_switch (ucast (100 :: u16)) = filter_l37"
  "filter_switch (ucast (108 :: u16)) = filter_l38"
  "filter_switch (ucast (116 :: u16)) = filter_l39"
  "filter_switch (ucast (124 :: u16)) = filter_l40"
  "filter_switch (ucast (129 :: u16)) = filter_l42"
  "filter_switch (ucast (132 :: u16)) = filter_l43"
  "filter_switch (ucast (135 :: u16)) = filter_l44"
  "filter_switch (ucast (148 :: u16)) = filter_l45"
  "filter_switch (ucast (156 :: u16)) = filter_l46"
  "filter_switch (ucast (164 :: u16)) = filter_l47"
  "filter_switch (ucast (172 :: u16)) = filter_l48"
  "filter_switch (ucast (177 :: u16)) = filter_l49"
  by (simp_all add: filter_switch_def fun_eq_iff)

lemma switch_len: "filter_switch (ucast (128 :: u16)) a m r = Some (goto_l41 a m r (fv3 a))"
  by (simp add: filter_switch_def)

lemma label_ret:
  assumes R: "filter_rel m0 sp p0 prog p2 pkt (m, r) s"
  shows "filter_sim m0 sp p0 prog p2 pkt (filter_l6 a m r) (Stop (K (prog ! pc s)))"
    and "filter_sim m0 sp p0 prog p2 pkt (filter_l12 a m r) (Stop (acc s))"
  using rel_outside [OF R]
  by (simp_all add: filter_l6_def filter_l12_def rel_k [OF R] goto_l8_def verdict_rel_def
    rel_acc [OF R])

lemmas label_sims = label_load_abs label_load_ind label_load_mem label_load_idx label_alu_x
  label_alu_k label_jump label_ja label_ret

lemma switch_sim:
  fixes wl :: u32
  assumes R: "filter_rel m0 sp p0 prog p2 pkt (m, r) s"
    and ins: "(Op (prog ! pc s), ins) \<in> set opcode_table"
  shows "filter_sim m0 sp p0 prog p2 pkt
    (filter_switch (ucast (Op (prog ! pc s))) (filter_args_of sp p0 prog p2 pkt wl) m r)
    (bpf_exec (length prog) pkt wl (prog ! pc s) ins s)"
  using ins unfolding opcode_table_def list.set insert_iff empty_iff prod.inject simp_thms
  apply (elim disjE conjE)
  apply (simp_all only: switch_table switch_len bpf_exec.simps operand.simps args_simps)
  apply (rule label_sims [OF R] sim_acc [OF R])+
  done
lemma filter_step_sim:
  assumes R: "filter_rel m0 sp p0 prog p2 pkt c s"
    and step: "bpf_step prog pkt wl s = Some q"
  shows "filter_sim m0 sp p0 prog p2 pkt
    (filter_step (filter_args_of sp p0 prog p2 pkt wl) c) q"
proof -
  obtain m r where c: "c = (m, r)" by (cases c)
  note R' = R [unfolded c]
  have "filter_step (filter_args_of sp p0 prog p2 pkt wl) c =
      filter_switch (ucast (Op (prog ! pc s))) (filter_args_of sp p0 prog p2 pkt wl) m r"
    by (simp add: filter_step_def c rel_op [OF R'])
  moreover have "filter_sim m0 sp p0 prog p2 pkt
      (filter_switch (ucast (Op (prog ! pc s))) (filter_args_of sp p0 prog p2 pkt wl) m r) q"
  proof (cases "decode_op (Op (prog ! pc s))")
    case None
    with step sim_fail [OF R'] show ?thesis
      by (simp add: bpf_step_def Let_def switch_default)
  next
    case (Some ins)
    with step switch_sim [OF R' decode_op_Some [OF Some], of wl] show ?thesis
      by (simp add: bpf_step_def Let_def)
  qed
  ultimately show ?thesis by simp
qed

interpretation filter_sim: forward_simulation
  "filter_step (filter_args_of sp p0 prog p2 pkt wl)" "bpf_step prog pkt wl"
  "filter_rel m0 sp p0 prog p2 pkt" "verdict_rel m0 sp"
  for m0 sp p0 prog p2 pkt wl
  by unfold_locales (rule filter_step_sim)

section \<open>The call\<close>

text \<open>Clearing the frame succeeds inside the memory and leaves sixteen zero words.\<close>

lemma store64_zero:
  assumes "a + 8 \<le> length m"
  shows "store64 m a 0 = Some (take a m @ replicate 8 0 @ drop (a + 8) m)"
  using assms by (simp add: store64_def put_bytes_def le_bytes64_def eval_nat_numeral)

text \<open>\<open>cleared m0 m f a\<close>: the frame at \<open>f\<close> is zero from \<open>a\<close> on, nothing else has changed.\<close>

definition cleared :: "memory \<Rightarrow> memory \<Rightarrow> nat \<Rightarrow> nat \<Rightarrow> bool" where
  "cleared m0 m f a \<longleftrightarrow>
     same_outside m0 m f 64 \<and> (\<forall>i. a \<le> i \<and> i < f + 64 \<longrightarrow> m ! i = 0)"

lemma cleared_step:
  assumes "cleared m0 m f b" "b = a + 8" "f \<le> a" "a + 8 \<le> f + 64" "f + 64 \<le> length m0"
  shows "\<exists>m'. store64 m a 0 = Some m' \<and> cleared m0 m' f a"
proof -
  have len: "length m = length m0" using assms(1) by (simp add: cleared_def same_outside_def)
  define m' where "m' = take a m @ replicate 8 0 @ drop (a + 8) m"
  have "store64 m a 0 = Some m'" using assms len by (simp add: store64_zero m'_def)
  moreover have "m' ! i = (if a \<le> i \<and> i < a + 8 then 0 else m ! i)" if "i < length m" for i
    using that assms len by (auto simp: m'_def nth_append min_def)
  moreover have "length m' = length m" using assms len by (simp add: m'_def)
  ultimately show ?thesis
    using assms len by (auto simp: cleared_def same_outside_def)
qed

lemma clear_frame_zero:
  assumes "unat fr + 64 \<le> length m"
  shows "\<exists>m'. clear_frame m fr = Some m' \<and> cleared m m' (unat fr) (unat fr)"
proof -
  define f where "f = unat fr"
  have f: "f + 64 \<le> length m" using assms by (simp add: f_def)
  have c0: "cleared m m f (f + 64)" by (auto simp: cleared_def)
  obtain m1 where s1: "store64 m (f + 56) 0 = Some m1" and c1: "cleared m m1 f (f + 56)"
    using cleared_step [OF c0, of "f + 56"] f by auto
  obtain m2 where s2: "store64 m1 (f + 48) 0 = Some m2" and c2: "cleared m m2 f (f + 48)"
    using cleared_step [OF c1, of "f + 48"] f by auto
  obtain m3 where s3: "store64 m2 (f + 40) 0 = Some m3" and c3: "cleared m m3 f (f + 40)"
    using cleared_step [OF c2, of "f + 40"] f by auto
  obtain m4 where s4: "store64 m3 (f + 32) 0 = Some m4" and c4: "cleared m m4 f (f + 32)"
    using cleared_step [OF c3, of "f + 32"] f by auto
  obtain m5 where s5: "store64 m4 (f + 24) 0 = Some m5" and c5: "cleared m m5 f (f + 24)"
    using cleared_step [OF c4, of "f + 24"] f by auto
  obtain m6 where s6: "store64 m5 (f + 16) 0 = Some m6" and c6: "cleared m m6 f (f + 16)"
    using cleared_step [OF c5, of "f + 16"] f by auto
  obtain m7 where s7: "store64 m6 (f + 8) 0 = Some m7" and c7: "cleared m m7 f (f + 8)"
    using cleared_step [OF c6, of "f + 8"] f by auto
  obtain m8 where s8: "store64 m7 (f) 0 = Some m8" and c8: "cleared m m8 f (f)"
    using cleared_step [OF c7, of "f"] f by auto
  from s1 s2 s3 s4 s5 s6 s7 s8 c8 show ?thesis
    by (simp add: clear_frame_def f_def [symmetric])
qed

lemma cleared_slot:
  assumes "cleared m0 m f f" "f + 64 \<le> length m0" "i < 16"
  shows "load32 m (f + 4 * i) = Some 0"
proof -
  have len: "length m = length m0" using assms(1) by (simp add: cleared_def same_outside_def)
  have "take 4 (drop (f + 4 * i) m) = replicate 4 0"
    using assms len by (intro nth_equalityI) (auto simp: cleared_def)
  with assms len show ?thesis by (simp add: load32_def get_bytes_in le_uint32_def)
qed

lemma filter_rel_init:
  assumes lay: "filter_layout m sp p0 prog p2 pkt" and m': "cleared m m' (unat sp - 64) (unat sp - 64)"
  shows "filter_rel m sp p0 prog p2 pkt
    (m', \<lparr>fv7 = 0, fv8 = p0 - 8, fv9 = 0, fv10 = p0, fv12 = 0, fv13 = 0\<rparr>) bpf_init"
proof -
  have "unat sp - 64 + 64 \<le> length m" using lay by (simp add: filter_layout_def)
  from cleared_slot [OF m' this] lay m' show ?thesis
    by (auto simp: filter_rel_def bpf_inv_def bpf_init_def cleared_def filter_layout_def)
qed

text \<open>
  The guard on the number of instructions is one comparison of wrapped differences: it lets
  through 1 to 3060000.
\<close>

lemma count_guard:
  "(n :: u32) - 3060001 < - 3060000 \<longleftrightarrow> \<not> (1 \<le> unat n \<and> unat n \<le> 3060000)"
  using unat_u32_less [of n] by (auto simp: word_less_nat_alt unat_sub_if_size word_size)

lemma filter_fuel:
  assumes lay: "filter_layout m sp p0 prog p2 pkt" and run: "run (bpf_step prog pkt wl) fuel bpf_init = Some v"
  shows "\<exists>m'. filter_with_aux_data fuel m sp p0 (of_nat (length prog)) p2 wl (of_nat (length pkt)) (of_nat (length pkt)) =
      Some (v, m') \<and> same_outside m m' (unat sp - 64) 64"
proof -
  have n: "1 \<le> length prog" "length prog \<le> 3060000" "p0 \<noteq> 0"
    using lay by (auto simp: filter_layout_def)
  then have len: "unat (of_nat (length prog) :: u32) = length prog"
    by (simp add: unat_of_nat)
  have fr: "unat (sp + - 64) = unat sp - 64" by (rule frame_addr [OF lay])
  then obtain m1 where m1: "clear_frame m (sp + - 64) = Some m1"
    "cleared m m1 (unat sp - 64) (unat sp - 64)"
    using clear_frame_zero [of "sp + - 64" m] lay by (auto simp: filter_layout_def)
  define r where "r = \<lparr>fv7 = 0, fv8 = p0 - 8, fv9 = 0, fv10 = p0, fv12 = 0, fv13 = 0 :: u32\<rparr>"
  from filter_sim.run_simulates [OF filter_rel_init [OF lay m1(2)] run]
  obtain m' where "run (filter_step (filter_args_of sp p0 prog p2 pkt wl)) fuel (m1, r) = Some (v, m')"
    and "same_outside m m' (unat sp - 64) 64"
    by (auto simp: verdict_rel_def r_def)
  with n len m1(1) show ?thesis
    by (auto simp: filter_with_aux_data_def count_guard filter_args_of_def Let_def r_def)
qed

lemma filter_verdict:
  assumes "filter_layout m sp p0 prog p2 pkt"
  shows "\<exists>v m'. xpcapint_filter m sp p0 (of_nat (length prog)) p2 wl (of_nat (length pkt)) =
      Some (v, m') \<and>
    bpf_verdict prog pkt wl = Some v \<and> same_outside m m' (unat sp - 64) 64"
proof -
  have n: "1 \<le> length prog" "length prog \<le> 3060000" using assms by (auto simp: filter_layout_def)
  then have len: "unat (of_nat (length prog) :: u32) = length prog" by (simp add: unat_of_nat)
  obtain q where q: "bpf_verdict prog pkt wl = Some q" using bpf_verdict_total by blast
  with n have "run (bpf_step prog pkt wl) (bpf_fuel (length prog)) bpf_init = Some q"
    by (auto simp: bpf_verdict_def split: if_splits)
  from filter_fuel [OF assms this] q show ?thesis by (auto simp: xpcapint_filter_def len)
qed

text \<open>
  C5: On every memory that holds a program, a packet and the scratch frame as \<open>filter_layout\<close>
  says, the transpiled interpreter does not panic, stops within its fuel, returns exactly the
  verdict of the abstract BPF machine on the decoded program and the captured bytes, and
  changes no byte outside its 64-byte scratch frame.
\<close>

theorem interpreter_refines_machine:
  assumes "filter_layout m sp p0 prog p2 pkt"
  shows "\<exists>v m'. xpcapint_filter m sp p0 (of_nat (length prog)) p2 wl (of_nat (length pkt)) =
      Some (v, m') \<and>
    bpf_verdict prog pkt wl = Some v \<and> same_outside m m' (unat sp - 64) 64"
  using assms by (rule filter_verdict)

definition witness_memory :: memory where
  "witness_memory = replicate 8 0 @ [48, 0, 0, 0, 1, 0, 0, 0] @ [22, 0, 0, 0, 0, 0, 0, 0] @
     [9, 7] @ replicate 102 0"

lemma witness_layout:
  "filter_layout witness_memory 128 8
    [\<lparr>Op = 48, Jt = 0, Jf = 0, K = 1\<rparr>, \<lparr>Op = 22, Jt = 0, Jf = 0, K = 0\<rparr>] 24 [9, 7]"
  by (simp add: filter_layout_def prog_at_simps bytes_at_def apart_def witness_memory_def
    insn_at_def load16_def load32_def get_bytes_def slice_def le_uint16_def
    le_uint32_def index_def nth_append)

theorem interpreter_refines_machine_witness:
  "\<exists>v m'. xpcapint_filter witness_memory 128 8 2 24 2 2 = Some (v, m') \<and>
    bpf_verdict [\<lparr>Op = 48, Jt = 0, Jf = 0, K = 1\<rparr>, \<lparr>Op = 22, Jt = 0, Jf = 0, K = 0\<rparr>] [9, 7] 2 =
      Some v \<and> same_outside witness_memory m' (unat (128 :: u32) - 64) 64"
  using interpreter_refines_machine [OF witness_layout, of 2] by simp

end
