(* ===== verification/Bpf_Validate.thy ===== *)
theory Bpf_Validate
  imports Bpf_Filter
begin

text \<open>
  The program validator, \<open>_pcapint_valid_insn\<close> and \<open>_pcapint_validate_filter\<close> of
  \<open>internal/bpf.go\<close>, against a declarative notion of a valid program, and what validity buys:
  in a valid program control never leaves the program and no opcode is unknown, so a verdict
  comes from a return instruction or from one of three run-time conditions.
\<close>

section \<open>The validator\<close>

lemma word_pred_less: "(d :: u32) \<noteq> 0 \<Longrightarrow> unat (d - 1) < unat d"
  by (simp add: unat_minus_one unat_gt_0)

definition pcapint_valid_insn :: "memory \<Rightarrow> u32 \<Rightarrow> u32 option" where
  "pcapint_valid_insn m v0 =
     do {
       t0 \<leftarrow> load16 m (unat v0);
       if t0 \<in> {0, 1, 4, 5, 6, 7, 12, 20, 21, 22, 28, 29, 32, 36, 37, 40, 44, 45, 48, 53, 60, 61,
           64, 68, 69, 72, 76, 77, 80, 84, 92, 108, 124, 128, 129, 132, 135, 156, 164, 172, 177}
       then Some 1
       else if t0 \<in> {2, 3, 96, 97} then do {
         t1 \<leftarrow> load32 m (unat v0 + 4);
         Some (if t1 < 16 then 1 else 0)
       }
       else if t0 \<in> {52, 148} then do {
         t3 \<leftarrow> load32 m (unat v0 + 4);
         Some (if t3 \<noteq> 0 then 1 else 0)
       }
       else if t0 \<in> {100, 116} then do {
         t5 \<leftarrow> load32 m (unat v0 + 4);
         Some (if t5 < 32 then 1 else 0)
       }
       else Some 0
     }"

text \<open>
  The jump check of one instruction at address \<open>v2\<close>, number \<open>v3\<close> of \<open>v1\<close>: \<open>True\<close> is the way to
  \<open>l1\<close>, \<open>False\<close> the way to \<open>l0\<close> (reject).
\<close>

definition validate_jumps :: "memory \<Rightarrow> u32 \<Rightarrow> u32 \<Rightarrow> u32 \<Rightarrow> bool option" where
  "validate_jumps m v1 v2 v3 =
     do {
       t1 \<leftarrow> load16 m (unat v2);
       let v4 = (ucast t1 :: u32);
       if v4 AND 7 \<noteq> 5 then Some True
       else
         (let v4 = drop_bit 4 v4 AND 15
          in if v4 - 1 \<ge> 4 then
               if v4 \<noteq> 0 then Some True
               else do {
                 v4 \<leftarrow> load32 m (unat v2 + 4);
                 Some (if v4 = - 1 then False else v3 + v4 + 1 < v1)
               }
             else do {
               t3 \<leftarrow> load8 m (unat v2 + 2);
               if v3 + t3 + 1 \<ge> v1 then Some False
               else do {
                 t4 \<leftarrow> load8 m (unat v2 + 3);
                 Some (\<not> v3 + t4 + 1 \<ge> v1)
               }
             })
     }"

text \<open>
  The loop at \<open>l2\<close>; it counts \<open>v3\<close> up to \<open>v1\<close>. \<open>Some False\<close> is a jump to \<open>l0\<close> with the result 0.
\<close>

function validate_loop :: "memory \<Rightarrow> u32 \<Rightarrow> u32 \<Rightarrow> u32 \<Rightarrow> bool option" where
  "validate_loop m v1 v2 v3 =
     do {
       t0 \<leftarrow> pcapint_valid_insn m v2;
       if t0 = 0 then Some False
       else do {
         ok \<leftarrow> validate_jumps m v1 v2 v3;
         if \<not> ok then Some False
         else if v1 \<noteq> v3 + 1 then validate_loop m v1 (v2 + 8) (v3 + 1)
         else Some True
       }
     }"
  by pat_completeness auto
termination
proof (relation "measure (\<lambda>(m, v1, v2, v3). unat (v1 - v3 - 1))")
  fix m :: memory and v1 v2 v3 :: u32 and t0 ok
  assume "v1 \<noteq> v3 + 1"
  then have "v1 - v3 - 1 \<noteq> 0" by (simp add: algebra_simps)
  then have "unat (v1 - v3 - 1 - 1) < unat (v1 - v3 - 1)"
    by (rule word_pred_less)
  then show "((m, v1, v2 + 8, v3 + 1), (m, v1, v2, v3)) \<in>
      measure (\<lambda>(m, v1, v2, v3). unat (v1 - v3 - 1))"
    by (simp add: algebra_simps)
qed auto

declare validate_loop.simps [simp del]

definition pcapint_validate_filter :: "memory \<Rightarrow> u32 \<Rightarrow> u32 \<Rightarrow> u32 option" where
  "pcapint_validate_filter m v0 v1 =
     (if v1 - 3060001 < - 3060000 then Some 0
      else do {
        ok \<leftarrow> validate_loop m v1 v0 0;
        if \<not> ok then Some 0
        else do {
          t6 \<leftarrow> load16 m (unat (v0 + push_bit 3 v1 - 8));
          Some (if t6 AND 7 = 6 then 1 else 0)
        }
      })"

section \<open>Valid programs\<close>

fun valid_operand :: "bpf_insn \<Rightarrow> u32 \<Rightarrow> bool" where
  "valid_operand LdMem k = (k < 16)"
| "valid_operand LdxMem k = (k < 16)"
| "valid_operand St k = (k < 16)"
| "valid_operand Stx k = (k < 16)"
| "valid_operand (Alu Div SrcK) k = (k \<noteq> 0)"
| "valid_operand (Alu Mod SrcK) k = (k \<noteq> 0)"
| "valid_operand (Alu Lsh SrcK) k = (k < 32)"
| "valid_operand (Alu Rsh SrcK) k = (k < 32)"
| "valid_operand _ k = True"

text \<open>\<open>n\<close> is the length of the program, \<open>p\<close> the position of the instruction.\<close>

fun valid_targets :: "nat \<Rightarrow> nat \<Rightarrow> raw_instruction \<Rightarrow> bpf_insn \<Rightarrow> bool" where
  "valid_targets n p i Ja =
     (sint (K i) \<noteq> - 1 \<and> 0 \<le> int p + 1 + sint (K i) \<and> int p + 1 + sint (K i) < int n)"
| "valid_targets n p i (Jcc c src) = (p + 1 + unat (Jt i) < n \<and> p + 1 + unat (Jf i) < n)"
| "valid_targets n p i _ = True"

definition valid_insn :: "nat \<Rightarrow> nat \<Rightarrow> raw_instruction \<Rightarrow> bool" where
  "valid_insn n p i =
     (case decode_op (Op i) of
        None \<Rightarrow> False
      | Some ins \<Rightarrow> valid_operand ins (K i) \<and> valid_targets n p i ins)"

definition is_return :: "raw_instruction \<Rightarrow> bool" where
  "is_return i = (decode_op (Op i) \<in> {Some RetK, Some RetA})"

definition valid_prog :: "raw_instruction list \<Rightarrow> bool" where
  "valid_prog prog \<longleftrightarrow>
     1 \<le> length prog \<and> length prog \<le> 3060000 \<and>
     (\<forall>p < length prog. valid_insn (length prog) p (prog ! p)) \<and>
     is_return (last prog)"

section \<open>The validator decides validity\<close>

text \<open>The 49 opcodes again, now with the operand each class of the switch asks for.\<close>

lemma valid_insn_operand:
  assumes "insn_at m (unat v0) = Some i"
  shows "pcapint_valid_insn m v0 =
    Some (case decode_op (Op i) of None \<Rightarrow> 0 | Some ins \<Rightarrow> if valid_operand ins (K i) then 1 else 0)"
proof (cases "decode_op (Op i)")
  case None
  then have "Op i \<notin> fst ` set opcode_table" using opcode_table_decode by force
  with None show ?thesis
    by (simp add: pcapint_valid_insn_def insn_at_fields [OF assms] opcode_table_def)
next
  case (Some ins)
  note fields = insn_at_fields [OF assms]
  have "pcapint_valid_insn m v0 = Some (if valid_operand ins (K i) then 1 else 0)"
    using decode_op_Some [OF Some]
    unfolding opcode_table_def list.set insert_iff empty_iff prod.inject simp_thms
    by (elim disjE conjE) (simp_all add: pcapint_valid_insn_def fields)
  with Some show ?thesis by simp
qed
text \<open>The jump checks.\<close>

lemma class_of_insn:
  assumes "decode_op op = Some ins"
  shows "(ucast op :: u32) AND 7 = 5 \<longleftrightarrow> ins = Ja \<or> (\<exists>c src. ins = Jcc c src)"
    and "(ucast op :: u32) AND 7 = 6 \<longleftrightarrow> ins = RetK \<or> ins = RetA"
    and "ins = Ja \<longleftrightarrow> op = 5"
  using decode_op_Some [OF assms]
  unfolding opcode_table_def list.set insert_iff empty_iff prod.inject simp_thms
  by (elim disjE conjE; simp)+

lemma jump_field:
  assumes "decode_op op = Some (Jcc c src)"
  shows "\<not> (drop_bit 4 (ucast op :: u32) AND 15) - 1 \<ge> 4"
  using decode_op_Some [OF assms]
  unfolding opcode_table_def list.set insert_iff empty_iff prod.inject simp_thms
  by (elim disjE conjE; simp add: word_le_nat_alt)

lemma short_target:
  fixes d :: u8
  assumes "p < n" "n \<le> 3060000"
  shows "of_nat p + (ucast d :: u32) + 1 < of_nat n \<longleftrightarrow> p + 1 + unat d < n"
proof -
  have "unat (of_nat p :: u32) = p" "unat (of_nat n :: u32) = n"
    using assms by (simp_all add: unat_of_nat)
  moreover have "unat (of_nat p + (ucast d :: u32)) = p + unat d"
    using assms unat_u8_less [of d] by (subst unat_add_no_wrap) (simp_all add: unat_of_nat)
  moreover from this have "unat (of_nat p + (ucast d :: u32) + 1) = p + unat d + 1"
    using assms unat_u8_less [of d] by (subst unat_add_no_wrap) simp_all
  ultimately show ?thesis by (simp add: word_less_nat_alt)
qed

lemma validate_jumps_targets:
  assumes ins: "insn_at m (unat v2) = Some i" "decode_op (Op i) = Some ins"
    and p: "p < n" "n \<le> 3060000"
  shows "validate_jumps m (of_nat n) v2 (of_nat p) = Some (valid_targets n p i ins)"
proof -
  note fields = insn_at_fields [OF ins(1)] and cls = class_of_insn [OF ins(2)]
  have bytes: "load8 m (unat v2 + 2) = Some (ucast (Jt i))" "load8 m (unat v2 + 3) = Some (ucast (Jf i))"
    by (simp_all only: load8_def fields option.map)
  consider (ja) "ins = Ja" | (jcc) c src where "ins = Jcc c src"
    | (other) "ins \<noteq> Ja" "\<nexists>c src. ins = Jcc c src" by blast
  then show ?thesis
  proof cases
    case ja
    with cls(3) have op: "Op i = 5" by simp
    have "K i = - 1 \<longleftrightarrow> sint (K i) = - 1" using signed_word_eqI [of "K i" "- 1"] by auto
    have comm: "of_nat p + K i + 1 = K i + of_nat p + 1" by simp
    show ?thesis
      using ja op target_check [OF p(2,1), of "K i"] \<open>K i = - 1 \<longleftrightarrow> sint (K i) = - 1\<close>
      by (auto simp: validate_jumps_def fields not_le comm)
  next
    case jcc
    from jump_field [OF ins(2) [unfolded jcc]] jcc cls(1) show ?thesis
      using short_target [OF p, of "Jt i"] short_target [OF p, of "Jf i"]
      by (auto simp: validate_jumps_def fields bytes Let_def not_le)
  next
    case other
    with cls(1) have "(ucast (Op i) :: u32) AND 7 \<noteq> 5" by blast
    moreover from other have "valid_targets n p i ins" by (cases ins) auto
    ultimately show ?thesis by (simp add: validate_jumps_def fields)
  qed
qed

lemma validate_step:
  assumes "insn_at m (unat v2) = Some i" "p < n" "n \<le> 3060000"
  shows "validate_loop m (of_nat n) v2 (of_nat p) =
    (if \<not> valid_insn n p i then Some False
     else if Suc p = n then Some True
     else validate_loop m (of_nat n) (v2 + 8) (of_nat (Suc p)))"
proof -
  have "of_nat n \<noteq> (of_nat p + 1 :: u32) \<longleftrightarrow> Suc p \<noteq> n"
  proof -
    have "unat (of_nat n :: u32) = n" "unat (of_nat (Suc p) :: u32) = Suc p"
      using assms by (simp_all add: unat_of_nat del: of_nat_Suc)
    then show ?thesis by (metis of_nat_Suc add.commute)
  qed
  then show ?thesis
    using validate_jumps_targets [OF assms(1) _ assms(2,3)]
    by (subst validate_loop.simps)
      (auto simp: valid_insn_operand [OF assms(1)] valid_insn_def add.commute split: option.splits)
qed

lemma validate_loop_valid:
  assumes "prog_at m (unat v0) prog" "length prog \<le> 3060000"
    and "unat v0 + 8 * length prog \<le> 2 ^ 32" "p < length prog"
  shows "validate_loop m (of_nat (length prog)) (v0 + 8 * of_nat p) (of_nat p) =
    Some (\<forall>q. p \<le> q \<and> q < length prog \<longrightarrow> valid_insn (length prog) q (prog ! q))"
  using assms(4)
proof (induction "length prog - p" arbitrary: p)
  case 0
  then show ?case by simp
next
  case (Suc k)
  have "unat (v0 + 8 * of_nat p) = unat v0 + 8 * p"
  proof -
    have b: "unat v0 + 8 * p < 2 ^ 32" using assms(3) Suc.prems by simp
    then have "unat (of_nat (8 * p) :: u32) = 8 * p" by (simp add: unat_of_nat del: of_nat_mult)
    with b show ?thesis by (subst unat_add_no_wrap) auto
  qed
  with assms(1) Suc.prems have "insn_at m (unat (v0 + 8 * of_nat p)) = Some (prog ! p)"
    by (simp add: prog_at_def)
  note step = validate_step [OF this Suc.prems assms(2)]
  have all: "(\<forall>q. p \<le> q \<and> q < length prog \<longrightarrow> valid_insn (length prog) q (prog ! q)) \<longleftrightarrow>
      valid_insn (length prog) p (prog ! p) \<and>
      (\<forall>q. Suc p \<le> q \<and> q < length prog \<longrightarrow> valid_insn (length prog) q (prog ! q))"
  proof -
    have "p \<le> q \<longleftrightarrow> q = p \<or> Suc p \<le> q" for q by auto
    then show ?thesis using Suc.prems by metis
  qed
  show ?case
  proof (cases "Suc p = length prog")
    case True
    with step all show ?thesis by auto
  next
    case False
    have "v0 + 8 * of_nat p + 8 = v0 + 8 * of_nat (Suc p)" by (simp add: algebra_simps)
    moreover have "validate_loop m (of_nat (length prog)) (v0 + 8 * of_nat (Suc p)) (of_nat (Suc p)) =
        Some (\<forall>q. Suc p \<le> q \<and> q < length prog \<longrightarrow> valid_insn (length prog) q (prog ! q))"
      using Suc.hyps(2) Suc.prems False by (intro Suc.hyps(1)) auto
    ultimately have "validate_loop m (of_nat (length prog)) (v0 + 8 * of_nat p + 8) (of_nat (Suc p)) =
        Some (\<forall>q. Suc p \<le> q \<and> q < length prog \<longrightarrow> valid_insn (length prog) q (prog ! q))"
      by (simp only:)
    with step all False show ?thesis by (simp del: of_nat_Suc)
  qed
qed
lemma return_class:
  assumes "decode_op (Op i) \<noteq> None"
  shows "Op i AND 7 = 6 \<longleftrightarrow> is_return i"
proof -
  obtain ins where ins: "decode_op (Op i) = Some ins" using assms by blast
  have "(ucast (Op i AND 7) :: u32) = ucast (Op i) AND 7" by (simp add: unsigned_and_eq)
  moreover have "(ucast (Op i) :: u32) AND 7 = 6 \<longleftrightarrow> is_return i"
    unfolding class_of_insn(2) [OF ins] is_return_def ins by auto
  moreover have "Op i AND 7 = 6 \<longleftrightarrow> (ucast (Op i AND 7) :: u32) = ucast (6 :: u16)"
    by (rule ucast_u16_eq_iff [symmetric])
  ultimately show ?thesis by simp
qed

lemma last_addr:
  assumes "unat v0 + 8 * length prog \<le> 2 ^ 32" "1 \<le> length prog"
  shows "unat (v0 + push_bit 3 (of_nat (length prog)) - 8 :: u32) =
    unat v0 + 8 * (length prog - 1)"
proof -
  have eq: "v0 + push_bit 3 (of_nat (length prog)) - 8 = v0 + of_nat (8 * (length prog - 1))"
    using assms(2) by (simp add: push_bit_3 of_nat_diff algebra_simps)
  have b: "unat v0 + 8 * (length prog - 1) < 2 ^ 32" using assms by simp
  then have "unat (of_nat (8 * (length prog - 1)) :: u32) = 8 * (length prog - 1)"
    by (simp add: unat_of_nat del: of_nat_mult)
  with b unat_add_no_wrap [of v0 "of_nat (8 * (length prog - 1))"] show ?thesis
    unfolding eq by (simp del: of_nat_mult)
qed

lemma validator_verdict:
  assumes "prog_at m (unat v0) prog" "unat v0 + 8 * length prog \<le> 2 ^ 32"
  shows "pcapint_validate_filter m v0 (of_nat (length prog)) =
    Some (if valid_prog prog then 1 else 0)"
proof (cases "1 \<le> length prog \<and> length prog \<le> 3060000")
  case False
  have "length prog < 2 ^ 32" using assms(2) by simp
  then have "unat (of_nat (length prog) :: u32) = length prog" by (simp add: unat_of_nat)
  with False show ?thesis
    by (auto simp: pcapint_validate_filter_def count_guard valid_prog_def)
next
  case True
  then have n: "unat (of_nat (length prog) :: u32) = length prog" by (simp add: unat_of_nat)
  define lst where "lst = prog ! (length prog - 1)"
  have at: "insn_at m (unat (v0 + push_bit 3 (of_nat (length prog)) - 8)) = Some lst"
    using assms(1) True unfolding last_addr [OF assms(2) conjunct1 [OF True]] lst_def prog_at_def
    by (metis diff_less less_le_trans zero_less_one)
  have lst: "last prog = lst" using True by (cases prog) (auto simp: lst_def last_conv_nth)
  have loop: "validate_loop m (of_nat (length prog)) v0 0 =
      Some (\<forall>q < length prog. valid_insn (length prog) q (prog ! q))"
    using validate_loop_valid [OF assms(1) _ assms(2), of 0] True by (cases prog) simp_all
  show ?thesis
  proof (cases "\<forall>q < length prog. valid_insn (length prog) q (prog ! q)")
    case False
    with True loop n show ?thesis
      by (auto simp: pcapint_validate_filter_def count_guard valid_prog_def)
  next
    case all: True
    then have "valid_insn (length prog) (length prog - 1) lst"
      using True unfolding lst_def by (cases prog) simp_all
    then have known: "decode_op (Op lst) \<noteq> None" by (auto simp: valid_insn_def split: option.splits)
    have guard: "\<not> (of_nat (length prog) - 3060001 < (- 3060000 :: u32))"
      unfolding count_guard n using True by simp
    have "pcapint_validate_filter m v0 (of_nat (length prog)) =
        Some (if Op lst AND 7 = 6 then 1 else 0)"
      unfolding pcapint_validate_filter_def loop insn_at_fields(1) [OF at]
      using guard all by simp
    moreover have "valid_prog prog \<longleftrightarrow> is_return lst"
      unfolding valid_prog_def lst using all True by simp
    ultimately show ?thesis by (simp add: return_class [OF known])
  qed
qed

text \<open>
  C6: On a memory that holds a program, the transpiled validator never panics and returns 1
  exactly for the programs that are valid: 1 to 3060000 instructions, every opcode known,
  every operand in range (scratch slots below 16, constant divisors not 0, constant shifts
  below 32), every jump inside the program and not to itself, and a return at the end.
\<close>

theorem validator_decides_validity:
  assumes "prog_at m (unat v0) prog" "unat v0 + 8 * length prog \<le> 2 ^ 32"
  shows "pcapint_validate_filter m v0 (of_nat (length prog)) =
    Some (if valid_prog prog then 1 else 0)"
  by (rule validator_verdict [OF assms])

theorem validator_decides_validity_witness:
  "pcapint_validate_filter witness_memory 8 2 =
    Some (if valid_prog [\<lparr>Op = 48, Jt = 0, Jf = 0, K = 1\<rparr>, \<lparr>Op = 22, Jt = 0, Jf = 0, K = 0\<rparr>]
          then 1 else 0)"
  using validator_decides_validity [of witness_memory 8
      "[\<lparr>Op = 48, Jt = 0, Jf = 0, K = 1\<rparr>, \<lparr>Op = 22, Jt = 0, Jf = 0, K = 0\<rparr>]"]
    witness_layout by (simp add: filter_layout_def)

section \<open>What validity buys at run time\<close>

text \<open>The states a program can reach on a packet.\<close>

inductive bpf_reachable :: "raw_instruction list \<Rightarrow> u8 list \<Rightarrow> u32 \<Rightarrow> bpf_state \<Rightarrow> bool"
  for prog pkt wl where
  start: "prog \<noteq> [] \<Longrightarrow> bpf_reachable prog pkt wl bpf_init"
| step: "bpf_reachable prog pkt wl s \<Longrightarrow> bpf_step prog pkt wl s = Some (Next s') \<Longrightarrow>
    bpf_reachable prog pkt wl s'"

lemma bpf_reachable_inv: "bpf_reachable prog pkt wl s \<Longrightarrow> bpf_inv prog s"
  by (induction rule: bpf_reachable.induct) (auto intro: bpf_init_inv bpf_step_inv)

text \<open>Why a step may stop: the run-time conditions no static check can rule out.\<close>

inductive run_time_stop :: "u8 list \<Rightarrow> raw_instruction \<Rightarrow> bpf_insn \<Rightarrow> bpf_state \<Rightarrow> bool" where
  abs_window: "length pkt < unat (K i) + size_bytes sz \<Longrightarrow> run_time_stop pkt i (LdAbs sz) s"
| ind_window: "length pkt < unat (idx s) + unat (K i) + size_bytes sz \<Longrightarrow>
    run_time_stop pkt i (LdInd sz) s"
| msh_window: "length pkt \<le> unat (K i) \<Longrightarrow> run_time_stop pkt i LdxMsh s"
| div_zero: "f \<in> {Div, Mod} \<Longrightarrow> idx s = 0 \<Longrightarrow> run_time_stop pkt i (Alu f SrcX) s"
| back_limit: "sint (K i) < 0 \<Longrightarrow> jumps_back s = 64 \<Longrightarrow> run_time_stop pkt i Ja s"

inductive_simps run_time_stop_simps [simp]:
  "run_time_stop pkt i (LdAbs sz) s" "run_time_stop pkt i (LdInd sz) s"
  "run_time_stop pkt i LdxMsh s" "run_time_stop pkt i (Alu f src) s" "run_time_stop pkt i Ja s"

text \<open>An instruction that cannot return, at its place in a valid program, only stops this way.\<close>

lemma return_is_last:
  assumes "valid_prog prog" "pc s < length prog" "\<not> is_return (prog ! pc s)"
  shows "Suc (pc s) < length prog"
proof (rule ccontr)
  assume "\<not> Suc (pc s) < length prog"
  with assms(2) have "pc s = length prog - 1" "prog \<noteq> []" by auto
  then have "prog ! pc s = last prog" by (simp add: last_conv_nth)
  with assms show False by (simp add: valid_prog_def)
qed

lemma goto_pc_not_Stop: "p < n \<Longrightarrow> goto_pc n s p \<noteq> Stop r"
  by (simp add: goto_pc_def)

lemma alu_None:
  "alu f a b = None \<longleftrightarrow> f \<in> {Div, Mod} \<and> b = 0"
  by (cases f) auto

lemma valid_alu_operand:
  "valid_operand (Alu f SrcK) k \<Longrightarrow> alu f a k \<noteq> None"
  by (cases f) auto

lemma set_acc_Stop:
  assumes "set_acc n s v = Stop r" "Suc (pc s) < n"
  shows "v = None \<and> r = 0"
  using assms by (auto simp: set_acc_def goto_pc_not_Stop split: option.splits)

lemma set_idx_Stop:
  assumes "set_idx n s v = Stop r" "Suc (pc s) < n"
  shows "v = None \<and> r = 0"
  using assms by (auto simp: set_idx_def goto_pc_not_Stop split: option.splits)

lemma set_scratch_Stop:
  assumes "set_scratch n s k v = Stop r" "Suc (pc s) < n"
  shows "16 \<le> k \<and> r = 0"
  using assms by (auto simp: set_scratch_def goto_pc_not_Stop not_less split: if_splits)

lemma jump_always_Stop:
  assumes "jump_always n s (K i) = Stop r" "valid_targets n (pc s) i Ja" "jumps_back s \<le> 64"
  shows "sint (K i) < 0 \<and> jumps_back s = 64 \<and> r = 0"
  using assms by (auto simp: jump_always_def Let_def goto_pc_def split: if_splits)

lemmas set_Stop = set_acc_Stop set_idx_Stop set_scratch_Stop

lemma valid_exec_Stop:
  assumes exec: "bpf_exec n pkt wl i ins s = Stop r"
    and ok: "valid_operand ins (K i)" "valid_targets n (pc s) i ins"
    and pc: "Suc (pc s) < n" "jumps_back s \<le> 64"
    and ret: "ins \<noteq> RetK" "ins \<noteq> RetA"
  shows "run_time_stop pkt i ins s \<and> r = 0"
proof (cases ins)
  case (Alu f src)
  with exec set_acc_Stop [OF _ pc(1)]
  have "alu f (acc s) (operand src (K i) s) = None" "r = 0" by auto
  with ok(1) Alu show ?thesis
    by (cases src) (auto simp: alu_None dest: valid_alu_operand)
next
  case Ja
  with exec ok pc jump_always_Stop [of n s i r] show ?thesis by simp
next
  case (Jcc c src)
  with exec ok(2) show ?thesis by (auto simp: goto_pc_def split: if_splits)
qed (use assms in \<open>auto dest!: set_Stop [OF _ pc(1)] simp: pkt_load_def not_le not_less split: if_splits\<close>)

lemma valid_stop:
  assumes "valid_prog prog" "bpf_reachable prog pkt wl s"
    and "bpf_step prog pkt wl s = Some (Stop r)"
  shows "\<exists>ins. decode_op (Op (prog ! pc s)) = Some ins \<and>
    (ins = RetK \<and> r = K (prog ! pc s) \<or> ins = RetA \<and> r = acc s \<or>
     run_time_stop pkt (prog ! pc s) ins s \<and> r = 0)"
proof -
  note inv = bpf_reachable_inv [OF assms(2), unfolded bpf_inv_def]
  with assms(1) have "valid_insn (length prog) (pc s) (prog ! pc s)" by (simp add: valid_prog_def)
  then obtain ins where ins: "decode_op (Op (prog ! pc s)) = Some ins"
    and ok: "valid_operand ins (K (prog ! pc s))"
      "valid_targets (length prog) (pc s) (prog ! pc s) ins"
    by (auto simp: valid_insn_def split: option.splits)
  with assms(3) have exec: "bpf_exec (length prog) pkt wl (prog ! pc s) ins s = Stop r"
    by (simp add: bpf_step_def Let_def)
  show ?thesis
  proof (cases "ins = RetK \<or> ins = RetA")
    case True
    with exec ins show ?thesis by auto
  next
    case False
    with ins have "\<not> is_return (prog ! pc s)" by (auto simp: is_return_def)
    with return_is_last [OF assms(1)] inv have "Suc (pc s) < length prog" by blast
    with valid_exec_Stop [OF exec ok] inv False have "run_time_stop pkt (prog ! pc s) ins s \<and> r = 0"
      by blast
    with ins show ?thesis by blast
  qed
qed

text \<open>A run that gives a result stops in a state that it reaches.\<close>

lemma run_stops_reachable:
  assumes "run (bpf_step prog pkt wl) n s = Some v" "bpf_reachable prog pkt wl s"
  shows "\<exists>s'. bpf_reachable prog pkt wl s' \<and> bpf_step prog pkt wl s' = Some (Stop v)"
  using assms
proof (induction n arbitrary: s)
  case (Suc n)
  obtain p where p: "bpf_step prog pkt wl s = Some p" by (simp add: bpf_step_def Let_def)
  show ?case
  proof (cases p)
    case (Next s')
    with p Suc.prems bpf_reachable.step [OF Suc.prems(2), of s'] Suc.IH [of s'] show ?thesis by simp
  next
    case (Stop r)
    with p Suc.prems show ?thesis by auto
  qed
qed simp

text \<open>
  C14: When the validator of the module accepts a program in memory, the module's interpreter returns on
  every packet, and the verdict comes from a return instruction, with its operand or the accumulator, or is 0
  for one of the run-time conditions: a load outside the captured bytes, a division by an index register of
  0, or a backward jump after 64 of them. It never comes from running off the program, an unknown opcode or
  a scratch slot out of range.
\<close>

theorem validated_program_stops_for_cause:
  assumes "filter_layout m sp p0 prog p2 pkt" "pcapint_validate_filter m p0 (of_nat (length prog)) = Some 1"
  shows "\<exists>v m' s ins. xpcapint_filter m sp p0 (of_nat (length prog)) p2 wl (of_nat (length pkt)) = Some (v, m') \<and>
    bpf_reachable prog pkt wl s \<and> decode_op (Op (prog ! pc s)) = Some ins \<and>
    (ins = RetK \<and> v = K (prog ! pc s) \<or> ins = RetA \<and> v = acc s \<or> run_time_stop pkt (prog ! pc s) ins s \<and> v = 0)"
proof -
  have p: "prog_at m (unat p0) prog" "unat p0 + 8 * length prog \<le> 2 ^ 32" "prog \<noteq> []"
    using assms(1) by (auto simp: filter_layout_def prog_at_def)
  have ok: "valid_prog prog" using validator_verdict [OF p(1,2)] assms(2) by (simp split: if_splits)
  obtain v m' where v: "xpcapint_filter m sp p0 (of_nat (length prog)) p2 wl (of_nat (length pkt)) = Some (v, m')"
    "bpf_verdict prog pkt wl = Some v" using filter_verdict [OF assms(1), of wl] by blast
  have n: "\<not> (length prog < 1 \<or> 3060000 < length prog)" using ok by (auto simp: valid_prog_def)
  have "run (bpf_step prog pkt wl) (bpf_fuel (length prog)) bpf_init = Some v"
    using v(2) n unfolding bpf_verdict_def by (simp only: if_False)
  from run_stops_reachable [OF this bpf_reachable.start [OF p(3)]]
  obtain s where s: "bpf_reachable prog pkt wl s" "bpf_step prog pkt wl s = Some (Stop v)" by blast
  from valid_stop [OF ok s] s(1) v(1) show ?thesis by blast
qed

section \<open>Forward-only programs\<close>

text \<open>What libpcap generates has no backward jump; such a program runs each instruction once at most.\<close>

definition forward_only :: "raw_instruction list \<Rightarrow> bool" where
  "forward_only prog = (\<forall>i \<in> set prog. decode_op (Op i) = Some Ja \<longrightarrow> 0 \<le> sint (K i))"

lemma forward_step:
  assumes "forward_only prog" "pc s < length prog" "bpf_step prog pkt wl s = Some (Next s')"
  shows "pc s < pc s' \<and> pc s' < length prog"
proof -
  obtain ins where ins: "decode_op (Op (prog ! pc s)) = Some ins"
    and exec: "bpf_exec (length prog) pkt wl (prog ! pc s) ins s = Next s'"
    using assms(3) by (auto simp: bpf_step_def Let_def split: option.splits)
  show ?thesis
  proof (cases "ins = Ja")
    case True
    with ins assms(1,2) have "0 \<le> sint (K (prog ! pc s))" by (simp add: forward_only_def)
    with exec True assms(2) show ?thesis
      by (auto simp: jump_always_def goto_pc_Next Let_def split: if_splits)
  next
    case False
    with bpf_exec_forward [OF exec] show ?thesis by blast
  qed
qed

lemma forward_run:
  assumes "forward_only prog"
  shows "pc s < length prog \<Longrightarrow> length prog - pc s \<le> n \<Longrightarrow>
    \<exists>r. run (bpf_step prog pkt wl) n s = Some r"
proof (induction n arbitrary: s)
  case 0
  then show ?case by simp
next
  case (Suc n)
  obtain p where p: "bpf_step prog pkt wl s = Some p" by (simp add: bpf_step_def Let_def)
  show ?case
  proof (cases p)
    case (Next s')
    with p forward_step [OF assms Suc.prems(1), of pkt wl s']
    have "pc s < pc s'" "pc s' < length prog" by simp_all
    with Suc.IH [of s'] Suc.prems(2) p Next show ?thesis by auto
  next
    case (Stop r)
    with p show ?thesis by simp
  qed
qed

lemma forward_verdict:
  assumes "forward_only prog" "1 \<le> length prog" "length prog \<le> 3060000"
  shows "\<exists>r. run (bpf_step prog pkt wl) (length prog) bpf_init = Some r \<and> bpf_verdict prog pkt wl = Some r"
proof -
  have "pc bpf_init = 0" by (simp add: bpf_init_def)
  with assms(2) have "pc bpf_init < length prog" by linarith
  with forward_run [OF assms(1), of bpf_init "length prog" pkt wl]
  obtain r where "run (bpf_step prog pkt wl) (length prog) bpf_init = Some r" by auto
  moreover from this have "run (bpf_step prog pkt wl) (bpf_fuel (length prog)) bpf_init = Some r"
    by (rule run_mono) (simp add: bpf_fuel_def)
  moreover have "bpf_verdict prog pkt wl =
      run (bpf_step prog pkt wl) (bpf_fuel (length prog)) bpf_init"
    unfolding bpf_verdict_def by (rule if_not_P) (use assms(2,3) in linarith)
  ultimately show ?thesis by simp
qed

text \<open>
  C19: On a program of n instructions with no backward jump, the loop of the module's interpreter returns the
  verdict within n turns, on every packet.
\<close>

theorem forward_program_linear:
  assumes "filter_layout m sp p0 prog p2 pkt" "forward_only prog"
  shows "\<exists>v m'. filter_with_aux_data (length prog) m sp p0 (of_nat (length prog)) p2 wl (of_nat (length pkt))
      (of_nat (length pkt)) = Some (v, m') \<and> bpf_verdict prog pkt wl = Some v"
proof -
  have n: "1 \<le> length prog" "length prog \<le> 3060000" using assms(1) by (auto simp: filter_layout_def)
  obtain r where r: "run (bpf_step prog pkt wl) (length prog) bpf_init = Some r" "bpf_verdict prog pkt wl = Some r"
    using forward_verdict [OF assms(2) n] by blast
  from filter_fuel [OF assms(1) r(1)] r(2) show ?thesis by blast
qed

text \<open>\<open>ldb [1]; ret a\<close>, as in \<open>witness_layout\<close>.\<close>

definition witness_prog :: "raw_instruction list" where
  "witness_prog = [\<lparr>Op = 48, Jt = 0, Jf = 0, K = 1\<rparr>, \<lparr>Op = 22, Jt = 0, Jf = 0, K = 0\<rparr>]"

lemma decode_witness: "decode_op 48 = Some (LdAbs SizeB)" "decode_op 22 = Some RetA"
  by (simp_all add: opcode_table_decode opcode_table_def)

lemma witness_prog_valid: "valid_prog witness_prog" "forward_only witness_prog"
  by (auto simp: valid_prog_def forward_only_def witness_prog_def valid_insn_def is_return_def
    decode_witness less_Suc_eq nth_Cons')

lemma witness_accepted: "pcapint_validate_filter witness_memory 8 2 = Some 1"
proof -
  have a: "prog_at witness_memory (unat (8 :: u32)) witness_prog" "unat (8 :: u32) + 8 * length witness_prog \<le> 2 ^ 32"
    using witness_layout by (simp_all add: filter_layout_def witness_prog_def)
  have "of_nat (length witness_prog) = (2 :: u32)" by (simp add: witness_prog_def)
  with validator_verdict [OF a] show ?thesis by (simp add: witness_prog_valid)
qed

theorem validated_program_stops_for_cause_witness:
  "\<exists>v m' s ins. xpcapint_filter witness_memory 128 8 2 24 2 2 = Some (v, m') \<and>
    bpf_reachable witness_prog [9, 7] 2 s \<and> decode_op (Op (witness_prog ! pc s)) = Some ins \<and>
    (ins = RetK \<and> v = K (witness_prog ! pc s) \<or> ins = RetA \<and> v = acc s \<or>
     run_time_stop [9, 7] (witness_prog ! pc s) ins s \<and> v = 0)"
proof -
  have n: "of_nat (length witness_prog) = (2 :: u32)" "of_nat (length [9, 7 :: u8]) = (2 :: u32)"
    by (simp_all add: witness_prog_def)
  have l: "filter_layout witness_memory 128 8 witness_prog 24 [9, 7]" using witness_layout by (simp only: witness_prog_def)
  from validated_program_stops_for_cause [OF l, of 2] witness_accepted show ?thesis unfolding n by blast
qed

theorem forward_program_linear_witness:
  "\<exists>v m'. filter_with_aux_data 2 witness_memory 128 8 2 24 2 2 2 = Some (v, m') \<and>
    bpf_verdict witness_prog [9, 7] 2 = Some v"
proof -
  have n: "of_nat (length witness_prog) = (2 :: u32)" "of_nat (length [9, 7 :: u8]) = (2 :: u32)" "length witness_prog = 2"
    by (simp_all add: witness_prog_def)
  have l: "filter_layout witness_memory 128 8 witness_prog 24 [9, 7]" using witness_layout by (simp only: witness_prog_def)
  from forward_program_linear [OF l witness_prog_valid(2), of 2] show ?thesis
    unfolding n(1,2) unfolding n(3) .
qed

end
