(* ===== verification/Libc.thy ===== *)
theory Libc
  imports Wasm_Memory
begin

text \<open>
  The string functions of the C library: \<open>internal/libc.go\<close> (Go code on byte slices of the
  memory) and the ones transpiled into \<open>internal/bpf.go\<close> (\<open>_strlcpy\<close>, \<open>_tolower\<close>,
  \<open>_pcapint_strcasecmp\<close>), against what they mean for the strings that \<open>cstr_at\<close> finds at
  their arguments.
\<close>

section \<open>C strings\<close>

text \<open>\<open>cstr_at m p s\<close>: the bytes \<open>s\<close>, none of them 0, stand at \<open>p\<close> and are followed by a 0.\<close>

definition cstr_at :: "memory \<Rightarrow> nat \<Rightarrow> u8 list \<Rightarrow> bool" where
  "cstr_at m p s \<longleftrightarrow> 0 \<notin> set s \<and> p + length s < length m \<and>
     take (length s) (drop p m) = s \<and> m ! (p + length s) = 0"

lemma cstr_at_drop: "cstr_at m p s \<longleftrightarrow> 0 \<notin> set s \<and> (\<exists>r. drop p m = s @ 0 # r)"
proof -
  have "p + length s < length m \<and> take (length s) (drop p m) = s \<and> m ! (p + length s) = 0"
    if "drop p m = s @ 0 # r" for r
  proof -
    from that have "length (drop p m) = Suc (length s + length r)" by simp
    then have "p + length s < length m" by simp
    moreover from this have "m ! (p + length s) = drop p m ! length s" by simp
    ultimately show ?thesis using that by simp
  qed
  moreover have "drop p m = s @ 0 # drop (Suc (p + length s)) m"
    if "p + length s < length m" "take (length s) (drop p m) = s" "m ! (p + length s) = 0"
  proof -
    have "drop p m = take (length s) (drop p m) @ drop (length s) (drop p m)"
      by (rule append_take_drop_id [symmetric])
    also have "drop (length s) (drop p m) = drop (p + length s) m" by (simp add: add.commute)
    also have "\<dots> = m ! (p + length s) # drop (Suc (p + length s)) m"
      using that(1) by (simp add: Cons_nth_drop_Suc)
    finally show ?thesis using that by simp
  qed
  ultimately show ?thesis unfolding cstr_at_def by blast
qed

lemma cstr_at_unique:
  assumes "cstr_at m p s" "cstr_at m p t"
  shows "s = t"
proof -
  have "takeWhile (\<lambda>b. b \<noteq> 0) (drop p m) = u" if "cstr_at m p u" for u
    using that unfolding cstr_at_drop by (auto simp: takeWhile_tail)
  with assms show ?thesis by metis
qed

lemma cstr_at_Cons: "cstr_at m p (b # s) \<longleftrightarrow> b \<noteq> 0 \<and> index m p = Some b \<and> cstr_at m (Suc p) s"
proof (cases "p < length m")
  case True
  then have "drop p m = m ! p # drop (Suc p) m" by (simp add: Cons_nth_drop_Suc)
  with True show ?thesis by (auto simp: cstr_at_drop)
qed (auto simp: cstr_at_drop)

lemma ucast_u8_eq_iff [simp]: "(ucast (x :: u8) :: u32) = ucast y \<longleftrightarrow> x = y"
  by (metis unat_ucast_u8_u32 word_unat_eq_iff)

lemma ucast_u8_eq_0 [simp]: "(ucast (x :: u8) :: u32) = 0 \<longleftrightarrow> x = 0"
  using ucast_u8_eq_iff [of x 0] by simp

lemma cstr_at_ConsD:
  assumes "cstr_at m p (b # s)"
  shows "b \<noteq> 0" "load8 m p = Some (ucast b)" "cstr_at m (Suc p) s"
proof -
  have "b \<noteq> 0 \<and> index m p = Some b \<and> cstr_at m (Suc p) s" using assms unfolding cstr_at_Cons .
  then show "b \<noteq> 0" "load8 m p = Some (ucast b)" "cstr_at m (Suc p) s"
    unfolding load8_def by (blast, force simp del: index_Some_iff, blast)
qed

lemma cstr_at_Nil: "cstr_at m p [] \<longleftrightarrow> index m p = Some 0"
  by (auto simp: cstr_at_def)

section \<open>The functions of \<open>internal/libc.go\<close>\<close>

text \<open>\<open>bytes.Compare\<close> and \<open>bytes.IndexByte\<close> of the standard library.\<close>

fun bytes_compare :: "u8 list \<Rightarrow> u8 list \<Rightarrow> u32" where
  "bytes_compare [] [] = 0"
| "bytes_compare [] (b # bs) = - 1"
| "bytes_compare (a # as) [] = 1"
| "bytes_compare (a # as) (b # bs) =
     (if a < b then - 1 else if b < a then 1 else bytes_compare as bs)"

fun index_byte :: "u8 list \<Rightarrow> u8 \<Rightarrow> nat option" where
  "index_byte [] c = None"
| "index_byte (b # bs) c = (if b = c then Some 0 else map_option Suc (index_byte bs c))"

definition memcmp :: "memory \<Rightarrow> u32 \<Rightarrow> u32 \<Rightarrow> u32 \<Rightarrow> u32 option" where
  "memcmp m s1 s2 n =
     (if s1 = s2 then Some 0
      else
        (let e1 = s1 + n; e2 = s2 + n
         in do {
           b1 \<leftarrow> slice m (unat s1) (unat e1);
           b2 \<leftarrow> slice m (unat s2) (unat e2);
           Some (bytes_compare b1 b2)
         }))"

text \<open>The loop of \<open>_strchrnul\<close> over the rest of the memory, \<open>i\<close> bytes behind \<open>s\<close>.\<close>

fun strchrnul_loop :: "u32 \<Rightarrow> u8 \<Rightarrow> nat \<Rightarrow> u8 list \<Rightarrow> u32" where
  "strchrnul_loop s c i [] = - 1"
| "strchrnul_loop s c i (d # ds) =
     (if d = 0 \<or> d = c then s + of_nat i else strchrnul_loop s c (Suc i) ds)"

definition strchrnul :: "memory \<Rightarrow> u32 \<Rightarrow> u32 \<Rightarrow> u32 option" where
  "strchrnul m s c =
     do { b \<leftarrow> slice m (unat s) (length m); Some (strchrnul_loop s (ucast c) 0 b) }"

definition strchr :: "memory \<Rightarrow> u32 \<Rightarrow> u32 \<Rightarrow> u32 option" where
  "strchr m s c =
     do {
       s \<leftarrow> strchrnul m s c;
       b \<leftarrow> index m (unat s);
       Some (if b = ucast c then s else 0)
     }"

definition strcmp :: "memory \<Rightarrow> u32 \<Rightarrow> u32 \<Rightarrow> u32 option" where
  "strcmp m s1 s2 =
     (if s1 = s2 then Some 0
      else do {
        b1 \<leftarrow> slice m (unat s1) (length m);
        b2 \<leftarrow> slice m (unat s2) (length m);
        let sz = min (length b1) (length b2);
        let sz = (case index_byte (take sz b2) 0 of Some i \<Rightarrow> i + 1 | None \<Rightarrow> sz);
        Some (bytes_compare (take sz b1) (take sz b2))
      })"

definition strlen :: "memory \<Rightarrow> u32 \<Rightarrow> u32 option" where
  "strlen m s =
     do {
       b \<leftarrow> slice m (unat s) (length m);
       Some (case index_byte b 0 of Some i \<Rightarrow> of_nat i | None \<Rightarrow> - 1)
     }"

section \<open>The transpiled string functions\<close>

definition strlcpy :: "memory \<Rightarrow> u32 \<Rightarrow> u32 \<Rightarrow> u32 \<Rightarrow> (memory \<times> u32) option" where
  "strlcpy m v0 v1 v2 =
     do {
       v3 \<leftarrow> strlen m v1;
       if v2 \<noteq> 0 then do {
         let v2 = v2 - 1;
         let v2 = (if v2 < v3 then v2 else v3);
         m \<leftarrow> (if v2 \<noteq> 0 then memory_copy m (unat v0) (unat v1) (unat v2) else Some m);
         m \<leftarrow> store8 m (unat (v0 + v2)) 0;
         Some (m, v3)
       }
       else Some (m, v3)
     }"

definition tolower :: "u32 \<Rightarrow> u32" where
  "tolower v0 = (if v0 - 65 < 26 then v0 OR 32 else v0)"

text \<open>The loop at \<open>l1\<close>; it is bounded only by the strings, so it is a partial function.\<close>

partial_function (option) pcapint_strcasecmp :: "memory \<Rightarrow> u32 \<Rightarrow> u32 \<Rightarrow> u32 option" where
  "pcapint_strcasecmp m v0 v1 =
     do {
       v2 \<leftarrow> load8 m (unat v1);
       v3 \<leftarrow> load8 m (unat v0);
       if v3 = 0 then Some (v3 - v2)
       else if v2 = 0 then Some (v3 - v2)
       else do {
         t3 \<leftarrow> load8 m (unat v1);
         let v2 = (tolower v3 AND 255) - (tolower t3 AND 255);
         if v2 = 0 then pcapint_strcasecmp m (v0 + 1) (v1 + 1) else Some v2
       }
     }"

section \<open>What they compute\<close>

lemma index_byte_Some: "index_byte bs c = Some i \<longleftrightarrow> (\<exists>s r. bs = s @ c # r \<and> c \<notin> set s \<and> i = length s)"
proof (induction bs arbitrary: i)
  case Nil
  then show ?case by simp
next
  case (Cons b bs)
  show ?case
  proof (cases "b = c")
    case True
    then show ?thesis by (auto simp: Cons_eq_append_conv)
  next
    case False
    have "(\<exists>s r. b # bs = s @ c # r \<and> c \<notin> set s \<and> i = length s) \<longleftrightarrow>
        (\<exists>j. i = Suc j \<and> (\<exists>s r. bs = s @ c # r \<and> c \<notin> set s \<and> j = length s))"
      using False by (simp add: Cons_eq_append_conv) fastforce
    with Cons.IH False show ?thesis by auto
  qed
qed

lemma index_byte_cstr: "cstr_at m p s \<Longrightarrow> index_byte (drop p m) 0 = Some (length s)"
  unfolding cstr_at_drop index_byte_Some by blast

lemma cstr_slice: "cstr_at m p s \<Longrightarrow> slice m p (length m) = Some (drop p m)"
  by (simp add: cstr_at_def)

lemma strlen_cstr: "cstr_at m (unat p) s \<Longrightarrow> strlen m p = Some (of_nat (length s))"
  by (simp add: strlen_def cstr_slice index_byte_cstr)

lemma bytes_compare_refl [simp]: "bytes_compare xs xs = 0"
  by (induction xs) auto

lemma bytes_compare_0: "bytes_compare xs ys = 0 \<longleftrightarrow> xs = ys"
  by (induction xs ys rule: bytes_compare.induct) auto

text \<open>The order of unsigned bytes, as \<open>lexordp\<close>-style recursion on the strings.\<close>

fun bytes_less :: "u8 list \<Rightarrow> u8 list \<Rightarrow> bool" where
  "bytes_less xs [] = False"
| "bytes_less [] (b # bs) = True"
| "bytes_less (a # as) (b # bs) = (a < b \<or> a = b \<and> bytes_less as bs)"

lemma compare_terminated:
  assumes "0 \<notin> set s" "0 \<notin> set t"
  shows "bytes_compare (take (Suc (length t)) (s @ 0 # r)) (t @ [0]) =
    (if s = t then 0 else if bytes_less s t then - 1 else 1)"
  using assms
proof (induction s t rule: bytes_less.induct)
  case (1 s)
  then show ?case by (cases s) (auto simp: word_gt_0 not_less)
next
  case (2 b bs)
  then show ?case by (auto simp: word_gt_0)
next
  case (3 a as b bs)
  then show ?case by auto
qed

lemma strcmp_cstr:
  assumes "cstr_at m (unat p) s" "cstr_at m (unat q) t"
  shows "strcmp m p q = Some (if s = t then 0 else if bytes_less s t then - 1 else 1)"
proof (cases "p = q")
  case True
  with assms cstr_at_unique show ?thesis by (auto simp: strcmp_def)
next
  case False
  obtain r1 where r1: "drop (unat p) m = s @ 0 # r1" and s: "0 \<notin> set s"
    using assms(1) by (auto simp: cstr_at_drop)
  obtain r2 where r2: "drop (unat q) m = t @ 0 # r2" and t: "0 \<notin> set t"
    using assms(2) by (auto simp: cstr_at_drop)
  define sz where "sz = min (length (drop (unat p) m)) (length (drop (unat q) m))"
  define sz' where "sz' = (case index_byte (take sz (drop (unat q) m)) 0 of Some i \<Rightarrow> i + 1 | None \<Rightarrow> sz)"
  have "strcmp m p q = Some (bytes_compare (take sz' (drop (unat p) m)) (take sz' (drop (unat q) m)))"
    using False by (simp only: strcmp_def cstr_slice [OF assms(1)] cstr_slice [OF assms(2)]
      if_False bind.bind_lunit Let_def sz_def sz'_def)
  moreover have "bytes_compare (take sz' (drop (unat p) m)) (take sz' (drop (unat q) m)) =
      (if s = t then 0 else if bytes_less s t then - 1 else 1)"
  proof (cases "length t < sz")
    case True
    then have "take sz (drop (unat q) m) = t @ 0 # take (sz - Suc (length t)) r2"
      by (simp add: r2 take_Cons' Suc_diff_Suc)
    then have "index_byte (take sz (drop (unat q) m)) 0 = Some (length t)"
      using t by (auto simp: index_byte_Some)
    then have "sz' = Suc (length t)" by (simp add: sz'_def)
    then show ?thesis using compare_terminated [OF s t] by (simp add: r1 r2)
  next
    case False
    then have sz: "sz = length s + 1 + length r1" "sz \<le> length t"
      by (auto simp: sz_def r1 r2 min_def split: if_splits)
    then have pre: "take sz (drop (unat q) m) = take sz t" by (simp add: r2)
    moreover have "index_byte (take sz t) 0 = None"
    proof (rule ccontr)
      assume "index_byte (take sz t) 0 \<noteq> None"
      then obtain i where "index_byte (take sz t) 0 = Some i" by blast
      then have "0 \<in> set (take sz t)" by (auto simp: index_byte_Some)
      then have "0 \<in> set t" by (rule in_set_takeD)
      with t show False ..
    qed
    ultimately have sz': "sz' = sz" by (simp add: sz'_def)
    have "bytes_compare (s @ 0 # r1) (take sz t) = (if s = t then 0 else if bytes_less s t then - 1 else 1)"
      using s t sz
    proof (induction s t arbitrary: sz rule: bytes_less.induct)
      case (1 xs)
      then show ?case by simp
    next
      case (2 b bs)
      then show ?case by (auto simp: word_gt_0)
    next
      case (3 a as b bs)
      then show ?case by (cases sz) auto
    qed
    moreover have "take sz (drop (unat p) m) = s @ 0 # r1" using sz by (simp add: r1)
    ultimately show ?thesis unfolding sz' pre by simp
  qed
  ultimately show ?thesis by simp
qed

lemma strchrnul_loop_eq:
  "0 \<notin> set s \<Longrightarrow> strchrnul_loop p c i (s @ 0 # r) =
    p + of_nat (i + length (takeWhile (\<lambda>b. b \<noteq> c) s))"
  by (induction s arbitrary: i) (auto simp: algebra_simps)

lemma strchrnul_cstr:
  "cstr_at m (unat p) s \<Longrightarrow>
    strchrnul m p c = Some (p + of_nat (length (takeWhile (\<lambda>b. b \<noteq> ucast c) s)))"
  by (auto simp: strchrnul_def cstr_slice) (auto simp: cstr_at_drop strchrnul_loop_eq)


lemma unat_offset:
  assumes "unat (p :: u32) + k < 2 ^ 32"
  shows "unat (p + of_nat k) = unat p + k"
proof -
  from assms have "unat (of_nat k :: u32) = k" by (simp add: unat_of_nat)
  with assms show ?thesis by (simp add: unat_add_no_wrap)
qed

lemma cstr_nth: "cstr_at m p s \<Longrightarrow> i < length s \<Longrightarrow> m ! (p + i) = s ! i"
  by (auto simp: cstr_at_def dest!: arg_cong [where f = "\<lambda>xs. xs ! i"])

lemma strchr_cstr:
  assumes "cstr_at m (unat p) s" "length m \<le> 2 ^ 32"
  shows "strchr m p c =
    Some (if ucast c \<in> insert 0 (set s)
          then p + of_nat (length (takeWhile (\<lambda>b. b \<noteq> ucast c) s)) else 0)"
proof -
  let ?i = "length (takeWhile (\<lambda>b. b \<noteq> ucast c) s)"
  have le: "?i \<le> length s" by (rule length_takeWhile_le)
  have m: "unat p + length s < length m" "m ! (unat p + length s) = 0" "0 \<notin> set s"
    using assms(1) by (simp_all add: cstr_at_def)
  then have addr: "unat (p + of_nat ?i) = unat p + ?i"
    using assms(2) le by (intro unat_offset) linarith
  show ?thesis
  proof (cases "ucast c \<in> set s")
    case True
    then have "?i < length s" by (induction s) auto
    moreover from this have "s ! ?i = ucast c" using nth_length_takeWhile by fastforce
    ultimately have "m ! (unat p + ?i) = ucast c" using cstr_nth [OF assms(1)] by simp
    with True m le addr show ?thesis
      by (simp add: strchr_def strchrnul_cstr [OF assms(1)] index_def)
  next
    case False
    then have all: "takeWhile (\<lambda>b. b \<noteq> ucast c) s = s" by (auto simp: takeWhile_eq_all_conv)
    have "strchrnul m p c = Some (p + of_nat (length s))"
      using strchrnul_cstr [OF assms(1), of c] unfolding all .
    moreover have "index m (unat (p + of_nat (length s))) = Some 0"
      using m addr unfolding all by simp
    ultimately show ?thesis using False unfolding strchr_def all
      by (auto simp del: index_Some_iff)
  qed
qed

lemma unat_of_nat_small: "n < 2 ^ 32 \<Longrightarrow> unat (of_nat n :: u32) = n"
  by (simp add: unat_of_nat)

lemma word_pred_of_nat: "(d :: u32) \<noteq> 0 \<Longrightarrow> of_nat (unat d - Suc 0) = d - 1"
proof -
  assume "d \<noteq> 0"
  then have "unat (d - 1) = unat d - Suc 0" by (simp add: unat_minus_one)
  moreover have "of_nat (unat (d - 1)) = d - 1" by simp
  ultimately show ?thesis by simp
qed

text \<open>\<open>strlcpy\<close> truncates to the buffer, always terminates the copy and returns the full length.\<close>

lemma strlcpy_cstr:
  assumes src: "cstr_at m (unat src) s" "length m \<le> 2 ^ 32"
    and cap: "cap \<noteq> 0"
    and dst: "unat dst + min (unat cap - 1) (length s) < length m"
  shows "\<exists>m'. strlcpy m dst src cap = Some (m', of_nat (length s)) \<and>
    cstr_at m' (unat dst) (take (unat cap - 1) s) \<and>
    same_outside m m' (unat dst) (Suc (min (unat cap - 1) (length s)))"
proof -
  define n where "n = min (unat cap - 1) (length s)"
  have len: "unat src + length s < length m" "take (length s) (drop (unat src) m) = s"
    using src(1) by (simp_all add: cstr_at_def)
  then have s32: "length s < 2 ^ 32" using src(2) by linarith
  have v2: "(if cap - 1 < of_nat (length s) then cap - 1 else of_nat (length s)) = (of_nat n :: u32)"
    using s32 word_pred_of_nat [OF cap]
    by (auto simp: n_def min_def word_less_nat_alt unat_of_nat_small unat_minus_one [OF cap])
  have n32: "n < 2 ^ 32" using s32 by (simp add: n_def)
  have take_n: "take n (drop (unat src) m) = take n s"
    using len by (metis min.cobounded2 min.absorb_iff1 n_def take_take)
  define m1 where "m1 = take (unat dst) m @ take n s @ drop (unat dst + n) m"
  have copy: "(if (of_nat n :: u32) \<noteq> 0 then memory_copy m (unat dst) (unat src) (unat (of_nat n :: u32))
      else Some m) = Some m1"
  proof (cases "n = 0")
    case True
    with dst show ?thesis by (simp add: m1_def)
  next
    case False
    then have "(of_nat n :: u32) \<noteq> 0" using n32 by (metis unat_of_nat_small unat_0)
    have "unat dst + n \<le> length m" "unat src + n \<le> length m" "length (take n s) = n"
      using dst len by (simp_all add: n_def)
    then have "memory_copy m (unat dst) (unat src) n = Some m1"
      by (simp add: memory_copy_in put_bytes_def take_n m1_def)
    with \<open>(of_nat n :: u32) \<noteq> 0\<close> show ?thesis using n32 by (simp add: unat_of_nat_small)
  qed
  have addr: "unat (dst + of_nat n) = unat dst + n"
    using dst src(2) by (intro unat_offset) (simp add: n_def)
  have m1: "length m1 = length m" using dst by (auto simp: m1_def n_def min_def)
  define m' where "m' = m1[unat dst + n := 0]"
  have "strlcpy m dst src cap = Some (m', of_nat (length s))"
    unfolding strlcpy_def strlen_cstr [OF src(1)] bind.bind_lunit Let_def v2 copy
    using cap dst by (simp add: addr store8_def set_index_def m1 m'_def) (simp add: n_def)
  moreover have "drop (unat dst) m' = take n s @ 0 # drop (Suc (unat dst + n)) m"
  proof -
    have "drop (unat dst) m1 = take n s @ drop (unat dst + n) m"
      using dst by (simp add: m1_def n_def)
    moreover have "drop (unat dst) m' = (drop (unat dst) m1)[n := 0]"
      by (simp add: m'_def drop_update_swap)
    moreover have "drop (unat dst + n) m = m ! (unat dst + n) # drop (Suc (unat dst + n)) m"
      using dst by (simp add: Cons_nth_drop_Suc n_def)
    moreover have "length (take n s) = n" by (simp add: n_def)
    ultimately show ?thesis by (simp add: list_update_append)
  qed
  moreover from this have "cstr_at m' (unat dst) (take (unat cap - 1) s)"
    using src(1) unfolding cstr_at_drop
    by (auto simp: n_def min_def dest: in_set_takeD split: if_splits)
  moreover have "same_outside m m' (unat dst) (Suc n)"
    using dst m1 by (auto simp: same_outside_def m'_def m1_def nth_append nth_list_update n_def)
  ultimately show ?thesis unfolding n_def by blast
qed

section \<open>Case-insensitive comparison\<close>

definition lower_byte :: "u8 \<Rightarrow> u8" where
  "lower_byte b = (if 65 \<le> b \<and> b \<le> 90 then b + 32 else b)"

lemma upper_byte_cases:
  "65 \<le> (b :: u8) \<and> b \<le> 90 \<Longrightarrow> tolower (ucast b) AND 255 = ucast (b + 32)"
proof -
  assume "65 \<le> b \<and> b \<le> 90"
  then have "65 \<le> unat b" "unat b < 91" by (auto simp: word_le_nat_alt)
  then have "unat b \<in> set [65..<91]" by (simp only: set_upt atLeastLessThan_iff)
  moreover have "b = of_nat (unat b)" by simp
  ultimately have "\<exists>n \<in> set [65..<91]. b = of_nat n" by blast
  then show ?thesis by (simp add: tolower_def) (elim disjE; simp)
qed

lemma tolower_range: "(ucast (b :: u8) :: u32) - 65 < 26 \<longleftrightarrow> 65 \<le> b \<and> b \<le> 90"
  using unat_u8_less [of b]
  by (auto simp: word_less_nat_alt word_le_nat_alt unat_sub_if_size word_size)

lemma mask_8: "(255 :: u32) = mask 8"
  by (simp add: mask_eq_exp_minus_1)

lemma tolower_byte: "tolower (ucast b) AND 255 = ucast (lower_byte b)"
proof (cases "65 \<le> b \<and> b \<le> 90")
  case True
  then show ?thesis unfolding lower_byte_def by (simp only: upper_byte_cases if_True simp_thms)
next
  case False
  then have "tolower (ucast b) = ucast b" by (simp only: tolower_def tolower_range if_False)
  moreover have "(ucast b :: u32) AND 255 = ucast b"
    unfolding mask_8 by (rule bit_word_eqI) (auto simp: bit_simps dest: bit_imp_le_length)
  ultimately show ?thesis using False by (auto simp: lower_byte_def)
qed

lemma lower_byte_0 [simp]: "lower_byte b = 0 \<longleftrightarrow> b = 0"
proof
  assume "lower_byte b = 0"
  moreover have "unat (b + 32) = unat b + 32" if "b \<le> 90"
    using that by (intro unat_add_no_wrap [of b 32, simplified]) (simp add: word_le_nat_alt)
  ultimately show "b = 0" by (auto simp: lower_byte_def word_unat_eq_iff split: if_splits)
qed (simp add: lower_byte_def)

text \<open>The difference of two bytes as the signed result.\<close>

lemma byte_diff:
  "sint ((ucast (a :: u8) :: u32) - ucast (b :: u8)) = int (unat a) - int (unat b)"
proof -
  define k where "k = int (unat a) - int (unat b)"
  have "- 256 < k" "k < 256" using unat_u8_less [of a] unat_u8_less [of b]
    unfolding k_def by linarith+
  then have "sint (word_of_int k :: u32) = k"
    by (simp add: signed_of_int signed_take_bit_int_eq_self)
  moreover have "(ucast x :: u32) = of_nat (unat x)" for x :: u8
    by (metis unat_ucast_u8_u32 of_nat_unat ucast_id)
  then have "(ucast a :: u32) - ucast b = word_of_int k"
    unfolding k_def by (simp only: of_int_diff of_int_of_nat_eq)
  ultimately show ?thesis by (simp only: k_def)
qed

lemma byte_diff_simps:
  "sint ((ucast (a :: u8) :: u32) - ucast (b :: u8)) < 0 \<longleftrightarrow> a < b"
  "(ucast a :: u32) - ucast b = 0 \<longleftrightarrow> a = b"
  unfolding byte_diff by (simp_all only: word_less_nat_alt right_minus_eq ucast_u8_eq_iff) linarith

lemma strcasecmp_cstr:
  assumes "cstr_at m (unat p) s" "cstr_at m (unat q) t" "length m \<le> 2 ^ 32"
  shows "\<exists>r. pcapint_strcasecmp m p q = Some r \<and>
    (r = 0 \<longleftrightarrow> map lower_byte s = map lower_byte t) \<and>
    (sint r < 0 \<longleftrightarrow> bytes_less (map lower_byte s) (map lower_byte t))"
  using assms
proof (induction s arbitrary: p q t)
  case Nil
  then have p: "load8 m (unat p) = Some 0" by (simp add: cstr_at_Nil load8_def)
  show ?case
  proof (cases t)
    case Nil
    with Nil.prems have q: "load8 m (unat q) = Some 0" by (simp add: cstr_at_Nil load8_def)
    from p q Nil show ?thesis by (subst pcapint_strcasecmp.simps) simp
  next
    case (Cons c t')
    note q = cstr_at_ConsD(2) [OF Nil.prems(2) [unfolded Cons]]
      and c = cstr_at_ConsD(1) [OF Nil.prems(2) [unfolded Cons]]
    from p q have "pcapint_strcasecmp m p q = Some (ucast (0 :: u8) - ucast c)"
      by (subst pcapint_strcasecmp.simps) simp
    with Cons c byte_diff_simps [of 0 c] show ?thesis by (simp add: word_gt_0)
  qed
next
  case (Cons b s)
  note b = cstr_at_ConsD(1) [OF Cons.prems(1)] and p = cstr_at_ConsD(2) [OF Cons.prems(1)]
    and s = cstr_at_ConsD(3) [OF Cons.prems(1)]
  then have "unat p + 1 < 2 ^ 32" using Cons.prems(3) by (simp add: cstr_at_def)
  then have p1: "unat (p + 1) = Suc (unat p)" using unat_offset [of p 1] by simp
  note prems = Cons.prems and IH = Cons.IH
  show ?case
  proof (cases t)
    case Nil
    with Cons.prems have q: "load8 m (unat q) = Some 0" by (simp add: cstr_at_Nil load8_def)
    from p q b have "pcapint_strcasecmp m p q = Some (ucast b - ucast (0 :: u8))"
      by (subst pcapint_strcasecmp.simps) simp
    with Nil b byte_diff_simps [of b 0] show ?thesis by simp
  next
    case (Cons c t')
    note c = cstr_at_ConsD(1) [OF prems(2) [unfolded Cons]]
      and q = cstr_at_ConsD(2) [OF prems(2) [unfolded Cons]]
      and t' = cstr_at_ConsD(3) [OF prems(2) [unfolded Cons]]
    then have "unat q + 1 < 2 ^ 32" using prems(3) by (simp add: cstr_at_def)
    then have q1: "unat (q + 1) = Suc (unat q)" using unat_offset [of q 1] by simp
    have step: "pcapint_strcasecmp m p q =
        (if lower_byte b = lower_byte c then pcapint_strcasecmp m (p + 1) (q + 1)
         else Some (ucast (lower_byte b) - ucast (lower_byte c)))"
      using b c by (subst pcapint_strcasecmp.simps) (simp add: p q tolower_byte)
    show ?thesis
    proof (cases "lower_byte b = lower_byte c")
      case True
      with IH [of "p + 1" "q + 1" t'] s t' p1 q1 prems(3) step Cons show ?thesis by simp
    next
      case False
      then show ?thesis
        using step Cons byte_diff_simps [of "lower_byte b" "lower_byte c"] by auto
    qed
  qed
qed

section \<open>Properties\<close>

text \<open>
  C33: \<open>_strlcpy\<close> never writes past the capacity it is given: it copies as much of the string as
  fits, always ends it with a zero byte, changes nothing else and returns the full length.
\<close>

theorem strlcpy_truncates:
  assumes "cstr_at m (unat src) s" "length m \<le> 2 ^ 32" "cap \<noteq> 0"
    "unat dst + min (unat cap - 1) (length s) < length m"
  shows "\<exists>m'. strlcpy m dst src cap = Some (m', of_nat (length s)) \<and>
    cstr_at m' (unat dst) (take (unat cap - 1) s) \<and>
    same_outside m m' (unat dst) (Suc (min (unat cap - 1) (length s)))"
  using assms by (rule strlcpy_cstr)

theorem strlcpy_truncates_witness:
  "\<exists>m'. strlcpy ([97, 98, 99, 0, 7, 7, 7, 7] :: u8 list) 4 0 3 = Some (m', 3) \<and> cstr_at m' 4 [97, 98]"
  using strlcpy_truncates [of "[97, 98, 99, 0, 7, 7, 7, 7]" 0 "[97, 98, 99]" 3 4]
  by (auto simp: cstr_at_def)

text \<open>
  C34: \<open>_pcapint_strcasecmp\<close> returns on every two C strings; its result is 0 exactly for strings
  that agree up to the case of ASCII letters, and negative exactly when the first is the smaller
  in lower case.
\<close>

theorem strcasecmp_order:
  assumes "cstr_at m (unat p) s" "cstr_at m (unat q) t" "length m \<le> 2 ^ 32"
  shows "\<exists>r. pcapint_strcasecmp m p q = Some r \<and>
    (r = 0 \<longleftrightarrow> map lower_byte s = map lower_byte t) \<and>
    (sint r < 0 \<longleftrightarrow> bytes_less (map lower_byte s) (map lower_byte t))"
  using assms by (rule strcasecmp_cstr)

theorem strcasecmp_order_witness: "pcapint_strcasecmp ([69, 110, 0, 101, 78, 0] :: u8 list) 0 3 = Some 0"
  using strcasecmp_order [of "[69, 110, 0, 101, 78, 0]" 0 "[69, 110]" 3 "[101, 78]"]
  by (auto simp: cstr_at_def lower_byte_def)

end
