(* ===== verification/Go_Program.thy ===== *)
theory Go_Program
  imports Bpf_Validate Libc
begin

text \<open>
  The exported methods of a compiled \<open>Program\<close> and the callbacks of \<open>env\<close> in \<open>filter.go\<close>, on
  the memory of the module. The methods lock the program's mutex for their whole body, so a call
  sees the memory the call before it left; every operation returns the memory it leaves.
\<close>

section \<open>Slices of the memory in Go\<close>

text \<open>
  \<open>b[x:y]\<close> is bounded by the capacity of \<open>b\<close>, not by its length; the bytes between the two are
  zeros, as Go's \<open>append\<close> leaves them. \<open>b[x:]\<close> ends at the length.
\<close>

definition reslice :: "memory \<Rightarrow> nat \<Rightarrow> int \<Rightarrow> int \<Rightarrow> u8 list option" where
  "reslice m cap x y =
     (if 0 \<le> x \<and> x \<le> y \<and> y \<le> int cap
      then Some (take (nat (y - x)) (drop (nat x) (m @ replicate (cap - length m) 0)))
      else None)"

definition slice_from :: "'a list \<Rightarrow> int \<Rightarrow> 'a list option" where
  "slice_from xs x = (if 0 \<le> x \<and> x \<le> int (length xs) then Some (drop (nat x) xs) else None)"

section \<open>Programs\<close>

text \<open>
  The fields of \<open>Program\<close>; \<open>env\<close> is the module, whose memory the operations take and return,
  \<open>mem_cap\<close> the capacity of that memory.
\<close>

record filter_program =
  prog_n :: u32
  prog_ptr :: u32
  prog_pkt :: u32
  prog_snaplen :: u32

definition program_bytes :: "memory \<Rightarrow> nat \<Rightarrow> filter_program \<Rightarrow> u8 list option" where
  "program_bytes m mem_cap p =
     reslice m mem_cap (sint (prog_ptr p)) (sint (prog_ptr p + prog_n p * 8))"

definition raw_instruction_at :: "memory \<Rightarrow> u32 \<Rightarrow> raw_instruction option" where
  "raw_instruction_at buf k =
     do {
       tmp \<leftarrow> slice_from buf (sint k);
       op \<leftarrow> le_uint16 tmp;
       jt \<leftarrow> index tmp 2;
       jf \<leftarrow> index tmp 3;
       tmp4 \<leftarrow> slice_from tmp 4;
       v \<leftarrow> le_uint32 tmp4;
       Some \<lparr>Op = op, Jt = jt, Jf = jf, K = v\<rparr>
     }"

definition program_instructions :: "memory \<Rightarrow> filter_program \<Rightarrow> raw_instruction list option" where
  "program_instructions m p =
     (if sint (prog_n p) < 0 then None
      else those (map (\<lambda>i. raw_instruction_at m (prog_ptr p + of_nat i * 8))
        [0..<nat (sint (prog_n p))]))"

text \<open>
  \<open>Match\<close>: the packet, cut to \<open>snaplen\<close> bytes, is copied to the program's buffer; \<open>sp\<close> is the
  module's stack pointer.
\<close>

definition program_match ::
  "memory \<Rightarrow> u32 \<Rightarrow> filter_program \<Rightarrow> u8 list \<Rightarrow> (bool \<times> memory) option" where
  "program_match m sp p pkt =
     do {
       dst \<leftarrow> slice_from m (sint (prog_pkt p));
       src \<leftarrow> (let k = min (int (length pkt)) (sint (prog_snaplen p))
               in if k < 0 then None else Some (take (nat k) pkt));
       let n = min (length dst) (length src);
       (v, m) \<leftarrow> xpcapint_filter (copy_at m (nat (sint (prog_pkt p))) src) sp
         (prog_ptr p) (prog_n p) (prog_pkt p) (of_nat (length pkt)) (of_nat n);
       Some (v \<noteq> 0, m)
     }"

section \<open>Strings and callbacks\<close>

text \<open>\<open>env.cstr\<close>: the loop looks for the end of the string or of the memory.\<close>

function cstr_end :: "memory \<Rightarrow> u32 \<Rightarrow> u32" where
  "cstr_end buf e =
     (if e < of_nat (length buf) \<and> buf ! unat e \<noteq> 0 then cstr_end buf (e + 1)
      else e)"
  by pat_completeness auto
termination
proof (relation "measure (\<lambda>(buf, e). 2 ^ 32 - unat e)")
  fix buf :: memory and e :: u32
  assume "e < of_nat (length buf) \<and> buf ! unat e \<noteq> 0"
  then have "e < of_nat (length buf)" ..
  then have "unat e < unat (of_nat (length buf) :: u32)" by (simp only: word_less_nat_alt)
  with unat_u32_less [of "of_nat (length buf)"] have "unat e + 1 < 2 ^ 32" by simp
  then show "((buf, e + 1), (buf, e)) \<in> measure (\<lambda>(buf, e). 2 ^ 32 - unat e)"
    by (simp add: unat_add_no_wrap)
qed auto

declare cstr_end.simps [simp del]

definition cstr :: "memory \<Rightarrow> nat \<Rightarrow> u32 \<Rightarrow> u8 list option" where
  "cstr m mem_cap ptr = reslice m mem_cap (int (unat ptr)) (int (unat (cstr_end m ptr)))"

text \<open>\<open>netip.Addr\<close>, as far as the code looks at it: the invalid address, IPv4, or IPv6.\<close>

datatype ip_addr = NoAddr | Ip4 "u8 list" | Ip6 "u8 list"

text \<open>The loop of \<open>Xresolve_host\<close>: the first address of the family asked for is stored.\<close>

fun store_first :: "memory \<Rightarrow> u32 \<Rightarrow> u32 \<Rightarrow> ip_addr list \<Rightarrow> (u32 \<times> memory) option" where
  "store_first m family out [] = Some (- 1, m)"
| "store_first m family out (Ip4 b # as) =
     (if family = 4 then
        (if unat out \<le> length m then Some (0, copy_at m (unat out) b) else None)
      else store_first m family out as)"
| "store_first m family out (Ip6 b # as) =
     (if family = 6 then
        (if unat out \<le> length m then Some (0, copy_at m (unat out) b) else None)
      else store_first m family out as)"
| "store_first m family out (NoAddr # as) = store_first m family out as"

text \<open>
  \<open>lookup\<close> and \<open>ethers\<close> are the functions of \<open>Options\<close>: \<open>None\<close> when the option is nil, an
  error is the result \<open>None\<close>.
\<close>

definition xresolve_host ::
  "(u8 list \<Rightarrow> ip_addr list option) option \<Rightarrow> memory \<Rightarrow> nat \<Rightarrow> u32 \<Rightarrow> u32 \<Rightarrow> u32 \<Rightarrow> (u32 \<times> memory) option" where
  "xresolve_host lookup m mem_cap host family out =
     (case lookup of
        None \<Rightarrow> Some (- 1, m)
      | Some f \<Rightarrow> do {
          name \<leftarrow> cstr m mem_cap host;
          case f name of
            None \<Rightarrow> Some (- 1, m)
          | Some addrs \<Rightarrow>
              if addrs = [] then Some (- 1, m) else store_first m family out addrs
        })"

definition xether_hostton ::
  "(u8 list \<Rightarrow> u8 list option) option \<Rightarrow> memory \<Rightarrow> nat \<Rightarrow> u32 \<Rightarrow> u32 \<Rightarrow> (u32 \<times> memory) option" where
  "xether_hostton ethers m mem_cap name_ptr out =
     (case ethers of
        None \<Rightarrow> Some (- 1, m)
      | Some f \<Rightarrow> do {
          name \<leftarrow> cstr m mem_cap name_ptr;
          case f name of
            None \<Rightarrow> Some (- 1, m)
          | Some mac \<Rightarrow>
              if length mac \<noteq> 6 then Some (- 1, m)
              else if unat out \<le> length m then Some (0, copy_at m (unat out) mac)
              else None
        })"

text \<open>\<open>_ether_hostton\<close> of the module, which passes the callback on.\<close>

definition ether_hostton ::
  "(u8 list \<Rightarrow> u8 list option) option \<Rightarrow> memory \<Rightarrow> nat \<Rightarrow> u32 \<Rightarrow> u32 \<Rightarrow> (u32 \<times> memory) option" where
  "ether_hostton ethers m mem_cap v0 v1 =
     do {
       (t0, m) \<leftarrow> xether_hostton ethers m mem_cap v0 v1;
       Some (if t0 \<noteq> 0 then - 1 else 0, m)
     }"


section \<open>Instructions and bytes\<close>

definition instr_bytes :: "raw_instruction \<Rightarrow> u8 list" where
  "instr_bytes i = le_bytes16 (Op i) @ [Jt i, Jf i] @ le_bytes32 (K i)"

lemma le_bytes16_uint16:
  assumes "le_uint16 bs = Some v"
  shows "le_bytes16 v = take 2 bs"
proof -
  obtain a b r where bs: "bs = a # b # r" using assms
    by (cases bs; cases "tl bs") (auto simp: le_uint16_def split: if_splits)
  with assms have v: "v = ucast a OR push_bit 8 (ucast b)" by (simp add: le_uint16_def)
  have "ucast v = a" "ucast (drop_bit 8 v) = b"
    by (rule bit_word_eqI; auto simp: v bit_simps dest: bit_imp_le_length)+
  with bs show ?thesis by (simp add: le_bytes16_def numeral_2_eq_2)
qed

lemma le_bytes32_uint32:
  assumes "le_uint32 bs = Some v"
  shows "le_bytes32 v = take 4 bs"
proof -
  obtain a b c d r where bs: "bs = a # b # c # d # r" using assms
    by (cases bs; cases "tl bs"; cases "tl (tl bs)"; cases "tl (tl (tl bs))")
      (auto simp: le_uint32_def split: if_splits)
  with assms have v: "v = ucast a OR push_bit 8 (ucast b) OR push_bit 16 (ucast c) OR push_bit 24 (ucast d)"
    by (simp add: le_uint32_def)
  have "ucast v = a" "ucast (drop_bit 8 v) = b" "ucast (drop_bit 16 v) = c" "ucast (drop_bit 24 v) = d"
    by (rule bit_word_eqI; auto simp: v bit_simps dest: bit_imp_le_length)+
  with bs show ?thesis by (simp add: le_bytes32_def numeral_eq_Suc)
qed

lemma insn_at_bytes:
  assumes "insn_at m p = Some i"
  shows "take 8 (drop p m) = instr_bytes i \<and> p + 8 \<le> length m"
proof -
  note f = insn_at_fields [OF assms]
  from f(1) have op: "p + 2 \<le> length m" "le_bytes16 (Op i) = take 2 (drop p m)"
    using le_bytes16_uint16 by (auto simp: load16_def split: option_bind_splits)
  from f(4) have k: "p + 8 \<le> length m" "le_bytes32 (K i) = take 4 (drop (p + 4) m)"
    using le_bytes32_uint32 by (auto simp: load32_def split: option_bind_splits)
  from f(2,3) have j: "Jt i = m ! (p + 2)" "Jf i = m ! (p + 3)" by auto
  have "take 8 (drop p m) = take 2 (drop p m) @ take 2 (drop (p + 2) m) @ take 4 (drop (p + 4) m)"
    using take_add [of 2 6 "drop p m"] take_add [of 2 4 "drop (p + 2) m"] by (simp add: add.commute)
  moreover have "take 2 (drop (p + 2) m) = [m ! (p + 2), m ! (p + 3)]"
    using k(1) by (simp add: numeral_2_eq_2 take_Suc_conv_app_nth) (simp add: numeral_3_eq_3)
  ultimately show ?thesis using op k j by (simp add: instr_bytes_def)
qed

lemma instr_bytes_at:
  assumes "drop p m = instr_bytes i @ r"
  shows "insn_at m p = Some i"
proof -
  have "length (drop p m) = 8 + length r" unfolding assms by (simp add: instr_bytes_def)
  then have len: "p + 8 \<le> length m" by simp
  have "take 2 (drop p m) = le_bytes16 (Op i)" unfolding assms by (simp add: instr_bytes_def)
  then have "load16 m p = Some (Op i)"
    using len by (simp add: load16_def get_bytes_in le_uint16_bytes)
  moreover have "drop (p + 4) m = drop 4 (drop p m)" by (simp add: add.commute)
  then have "take 4 (drop (p + 4) m) = le_bytes32 (K i)"
    unfolding assms by (simp add: instr_bytes_def)
  then have "load32 m (p + 4) = Some (K i)"
    using len by (simp add: load32_def get_bytes_in le_uint32_bytes)
  moreover have "m ! (p + 2) = drop p m ! 2" "m ! (p + 3) = drop p m ! 3" using len by simp_all
  then have "m ! (p + 2) = Jt i" "m ! (p + 3) = Jf i"
    unfolding assms by (simp_all add: instr_bytes_def nth_append)
  ultimately show ?thesis using len by (simp add: insn_at_def index_def)
qed

lemma length_instr_bytes [simp]: "length (instr_bytes i) = 8"
  by (simp add: instr_bytes_def)

lemma prog_at_bytes:
  "prog_at m p prog \<Longrightarrow> take (8 * length prog) (drop p m) = concat (map instr_bytes prog)"
proof (induction prog arbitrary: p)
  case Nil
  then show ?case by simp
next
  case (Cons i prog)
  then have i: "insn_at m p = Some i" and r: "prog_at m (p + 8) prog" by (simp_all add: prog_at_simps)
  have "take (8 * length (i # prog)) (drop p m) =
      take 8 (drop p m) @ take (8 * length prog) (drop (p + 8) m)"
    using take_add [of 8 "8 * length prog" "drop p m"] by (simp add: add.commute)
  with insn_at_bytes [OF i] Cons.IH [OF r] show ?case by simp
qed

lemma le_uint_take [simp]:
  "2 \<le> length bs \<Longrightarrow> le_uint16 (take 2 bs) = le_uint16 bs"
  "4 \<le> length bs \<Longrightarrow> le_uint32 (take 4 bs) = le_uint32 bs"
  by (simp_all add: le_uint16_def le_uint32_def)

lemma raw_instruction_at_insn:
  assumes "insn_at m (unat k) = Some i" "unat k < 2 ^ 31"
  shows "raw_instruction_at m k = Some i"
proof -
  note f = insn_at_fields [OF assms(1)] and len = conjunct2 [OF insn_at_bytes [OF assms(1)]]
  have "slice_from m (sint k) = Some (drop (unat k) m)"
    using len by (simp add: slice_from_def sint_small [OF assms(2)] del: of_nat_unat)
  moreover have "le_uint16 (drop (unat k) m) = Some (Op i)"
    using f(1) len by (simp add: load16_def get_bytes_in)
  moreover have "le_uint32 (drop (unat k + 4) m) = Some (K i)"
    using f(4) len by (simp add: load32_def get_bytes_in)
  moreover have "slice_from (drop (unat k) m) 4 = Some (drop (unat k + 4) m)"
    using len by (simp add: slice_from_def add.commute del: of_nat_unat)
  moreover have "index (drop (unat k) m) 2 = Some (Jt i)" "index (drop (unat k) m) 3 = Some (Jf i)"
    using f(2,3) len by auto
  ultimately show ?thesis by (simp add: raw_instruction_at_def del: index_Some_iff)
qed

lemma those_map_Some: "(\<And>x. x \<in> set xs \<Longrightarrow> f x = Some (g x)) \<Longrightarrow> those (map f xs) = Some (map g xs)"
  by (induction xs) auto

section \<open>A loaded program\<close>

text \<open>
  What \<open>Compile\<close> leaves behind: the program and a packet buffer of \<open>snaplen\<close> bytes in the
  lower 2 GiB of the memory, apart from each other and from the interpreter's frame below the
  stack pointer.
\<close>

definition loaded :: "memory \<Rightarrow> u32 \<Rightarrow> filter_program \<Rightarrow> raw_instruction list \<Rightarrow> bool" where
  "loaded m sp p prog \<longleftrightarrow>
     prog_n p = of_nat (length prog) \<and>
     filter_layout m sp (prog_ptr p) prog (prog_pkt p) [] \<and>
     unat (prog_ptr p) + 8 * length prog < 2 ^ 31 \<and>
     unat (prog_pkt p) < 2 ^ 31 \<and> unat (prog_snaplen p) < 2 ^ 31 \<and>
     unat (prog_pkt p) + unat (prog_snaplen p) \<le> length m \<and>
     apart (unat sp - 64) 64 (unat (prog_pkt p)) (unat (prog_snaplen p)) \<and>
     apart (unat (prog_pkt p)) (unat (prog_snaplen p)) (unat (prog_ptr p)) (8 * length prog)"

lemma loaded_n:
  assumes "loaded m sp p prog"
  shows "unat (prog_n p) = length prog" "sint (prog_n p) = int (length prog)"
    "unat (prog_ptr p + prog_n p * 8) = unat (prog_ptr p) + 8 * length prog"
proof -
  have n: "prog_n p = of_nat (length prog)" "length prog \<le> 3060000"
    and p: "unat (prog_ptr p) + 8 * length prog < 2 ^ 31"
    using assms by (auto simp: loaded_def filter_layout_def)
  show u: "unat (prog_n p) = length prog" using n by (simp add: unat_of_nat)
  with sint_small [of "prog_n p"] n(2) show "sint (prog_n p) = int (length prog)" by simp
  have "prog_n p * 8 = of_nat (8 * length prog)" using n(1) by simp
  with unat_offset [of "prog_ptr p" "8 * length prog"] p
  show "unat (prog_ptr p + prog_n p * 8) = unat (prog_ptr p) + 8 * length prog"
    by (simp del: of_nat_mult)
qed

text \<open>The program of \<open>witness_layout\<close>, with a buffer for packets of up to 16 bytes.\<close>

definition witness_program :: filter_program where
  "witness_program = \<lparr>prog_n = 2, prog_ptr = 8, prog_pkt = 24, prog_snaplen = 16\<rparr>"

lemma witness_loaded: "loaded witness_memory 128 witness_program witness_prog"
  using witness_layout
  by (simp add: loaded_def witness_program_def witness_prog_def filter_layout_def apart_def
    bytes_at_def witness_memory_def)

lemma loaded_instructions:
  assumes "loaded m sp p prog" "length m \<le> mem_cap"
  shows "program_instructions m p = Some prog \<and>
    program_bytes m mem_cap p = Some (concat (map instr_bytes prog))"
proof
  note n = loaded_n [OF assms(1)]
  have at: "prog_at m (unat (prog_ptr p)) prog" and b: "unat (prog_ptr p) + 8 * length prog < 2 ^ 31"
    using assms(1) by (auto simp: loaded_def filter_layout_def)
  have "raw_instruction_at m (prog_ptr p + of_nat i * 8) = Some (prog ! i)" if "i < length prog" for i
  proof -
    have "unat (prog_ptr p + of_nat (8 * i)) = unat (prog_ptr p) + 8 * i"
      using that b by (intro unat_offset) simp
    moreover have "(of_nat (8 * i) :: u32) = of_nat i * 8" by simp
    ultimately have "unat (prog_ptr p + of_nat i * 8) = unat (prog_ptr p) + 8 * i" by (simp only:)
    with at that b show ?thesis by (intro raw_instruction_at_insn) (auto simp: prog_at_def)
  qed
  then have "those (map (\<lambda>i. raw_instruction_at m (prog_ptr p + of_nat i * 8)) [0..<length prog]) =
      Some (map ((!) prog) [0..<length prog])"
    by (intro those_map_Some) simp
  with n(2) show "program_instructions m p = Some prog"
    by (simp add: program_instructions_def map_nth)
  have "sint (prog_ptr p) = int (unat (prog_ptr p))"
    "sint (prog_ptr p + prog_n p * 8) = int (unat (prog_ptr p) + 8 * length prog)"
    using b by (auto simp only: n(3) intro!: sint_small [THEN trans])
  moreover have "unat (prog_ptr p) + 8 * length prog \<le> length m" using at by (simp add: prog_at_def)
  ultimately show "program_bytes m mem_cap p = Some (concat (map instr_bytes prog))"
    using prog_at_bytes [OF at] assms(2)
    by (simp add: program_bytes_def reslice_def nat_mult_distrib del: of_nat_unat)
qed

text \<open>
  C16: \<open>Instructions\<close> of a loaded program returns exactly its instructions and \<open>Bytes\<close> their
  little-endian encoding, eight bytes each; neither panics.
\<close>

theorem instructions_and_bytes:
  assumes "loaded m sp p prog" "length m \<le> mem_cap"
  shows "program_instructions m p = Some prog \<and>
    program_bytes m mem_cap p = Some (concat (map instr_bytes prog))"
  using assms by (rule loaded_instructions)

theorem instructions_and_bytes_witness:
  "program_instructions witness_memory witness_program = Some witness_prog \<and>
    program_bytes witness_memory 200 witness_program = Some (concat (map instr_bytes witness_prog))"
  using instructions_and_bytes [OF witness_loaded, of 200] by (simp add: witness_memory_def)

section \<open>Matching\<close>

lemma loaded_match:
  assumes "loaded m sp p prog"
  shows "\<exists>v m'. bpf_verdict prog (take (unat (prog_snaplen p)) pkt) (of_nat (length pkt)) = Some v \<and>
    program_match m sp p pkt = Some (v \<noteq> 0, m') \<and> loaded m' sp p prog"
proof -
  define src where "src = take (unat (prog_snaplen p)) pkt"
  define m1 where "m1 = copy_at m (unat (prog_pkt p)) src"
  have L: "prog_n p = of_nat (length prog)" "filter_layout m sp (prog_ptr p) prog (prog_pkt p) []"
    "unat (prog_pkt p) < 2 ^ 31" "unat (prog_snaplen p) < 2 ^ 31"
    "unat (prog_pkt p) + unat (prog_snaplen p) \<le> length m"
    "apart (unat sp - 64) 64 (unat (prog_pkt p)) (unat (prog_snaplen p))"
    "apart (unat (prog_pkt p)) (unat (prog_snaplen p)) (unat (prog_ptr p)) (8 * length prog)"
    using assms by (auto simp: loaded_def)
  have src: "length src \<le> unat (prog_snaplen p)" by (simp add: src_def)
  have copied: "same_outside m m1 (unat (prog_pkt p)) (unat (prog_snaplen p))"
    using L(5) src by (auto simp: same_outside_def m1_def nth_copy_at)
  have at: "bytes_at m1 (unat (prog_pkt p)) src"
    using L(5) src by (simp add: bytes_at_def m1_def copy_at_def Let_def)
  have layout: "filter_layout m1 sp (prog_ptr p) prog (prog_pkt p) src"
    using L(2,6,7) at src prog_at_same_outside [OF copied] same_outside_length [OF copied]
    by (auto simp: filter_layout_def apart_def)
  from filter_verdict [OF this, of "of_nat (length pkt)"]
  obtain v m' where v: "xpcapint_filter m1 sp (prog_ptr p) (prog_n p) (prog_pkt p)
      (of_nat (length pkt)) (of_nat (length src)) = Some (v, m')"
    "bpf_verdict prog src (of_nat (length pkt)) = Some v"
    "same_outside m1 m' (unat sp - 64) 64"
    using L(1) by auto
  have "slice_from m (sint (prog_pkt p)) = Some (drop (unat (prog_pkt p)) m)"
    using L(5) by (simp add: slice_from_def sint_small [OF L(3)] del: of_nat_unat)
  moreover have "min (length m - unat (prog_pkt p)) (length src) = length src"
    using L(5) src by simp
  moreover have "take (nat (min (int (length pkt)) (int (unat (prog_snaplen p))))) pkt = src"
    by (simp add: src_def min_def del: of_nat_unat)
  ultimately have "program_match m sp p pkt = Some (v \<noteq> 0, m')"
    using v(1)
    by (simp add: program_match_def Let_def m1_def sint_small [OF L(3)] sint_small [OF L(4)]
        del: of_nat_unat)
  moreover have "loaded m' sp p prog"
    using assms L(2) prog_at_same_outside [OF v(3)] prog_at_same_outside [OF copied]
      same_outside_length [OF copied] same_outside_length [OF v(3)]
    by (auto simp: loaded_def filter_layout_def bytes_at_def apart_def)
  ultimately show ?thesis using v(2) by (auto simp: src_def)
qed

text \<open>
  C4: \<open>Match\<close> on a loaded program never panics, answers whether the BPF machine's verdict on
  the packet, cut to \<open>snaplen\<close> bytes but with its full length on the wire, is not 0, and leaves
  the program loaded.
\<close>

theorem match_is_verdict:
  assumes "loaded m sp p prog"
  shows "\<exists>v m'. bpf_verdict prog (take (unat (prog_snaplen p)) pkt) (of_nat (length pkt)) = Some v \<and>
    program_match m sp p pkt = Some (v \<noteq> 0, m') \<and> loaded m' sp p prog"
  using assms by (rule loaded_match)

theorem match_is_verdict_witness:
  "\<exists>v m'. bpf_verdict witness_prog (take (unat (prog_snaplen witness_program)) [9, 7, 1]) 3 = Some v \<and>
    program_match witness_memory 128 witness_program [9, 7, 1] = Some (v \<noteq> 0, m') \<and>
    loaded m' 128 witness_program witness_prog"
  using match_is_verdict [OF witness_loaded, of "[9, 7, 1]"] by simp

text \<open>A sequence of calls, each on the memory the one before left.\<close>

fun match_all ::
  "memory \<Rightarrow> u32 \<Rightarrow> filter_program \<Rightarrow> u8 list list \<Rightarrow> (bool list \<times> memory) option" where
  "match_all m sp p [] = Some ([], m)"
| "match_all m sp p (pkt # pkts) =
     do {
       (b, m) \<leftarrow> program_match m sp p pkt;
       (bs, m) \<leftarrow> match_all m sp p pkts;
       Some (b # bs, m)
     }"

text \<open>
  C15: The answers of any sequence of calls of \<open>Match\<close> are the verdicts of the single packets:
  no call depends on the packets matched before it, and afterwards \<open>Instructions\<close> still
  returns the program.
\<close>

theorem match_history_independent:
  assumes "loaded m sp p prog"
  shows "\<exists>m'. match_all m sp p pkts =
      Some (map (\<lambda>pkt. bpf_verdict prog (take (unat (prog_snaplen p)) pkt) (of_nat (length pkt)) \<noteq> Some 0) pkts, m') \<and>
    loaded m' sp p prog"
  using assms
proof (induction pkts arbitrary: m)
  case Nil
  then show ?case by simp
next
  case (Cons pkt pkts)
  from loaded_match [OF Cons.prems, of pkt] obtain v m1 where
    "bpf_verdict prog (take (unat (prog_snaplen p)) pkt) (of_nat (length pkt)) = Some v"
    "program_match m sp p pkt = Some (v \<noteq> 0, m1)" "loaded m1 sp p prog" by auto
  with Cons.IH [of m1] show ?case by auto
qed


theorem match_history_independent_witness:
  "\<exists>m'. match_all witness_memory 128 witness_program [[9, 7], [], [1]] =
      Some (map (\<lambda>pkt. bpf_verdict witness_prog (take (unat (prog_snaplen witness_program)) pkt)
        (of_nat (length pkt)) \<noteq> Some 0) [[9, 7], [], [1]], m') \<and>
    loaded m' 128 witness_program witness_prog"
  by (rule match_history_independent [OF witness_loaded])

section \<open>Reading strings, answering lookups\<close>

lemma cstr_end_cstr:
  assumes "length m < 2 ^ 32"
  shows "cstr_at m (unat p) s \<Longrightarrow> cstr_end m p = p + of_nat (length s)"
proof (induction s arbitrary: p)
  case Nil
  then show ?case by (subst cstr_end.simps) (simp add: cstr_at_Nil)
next
  case (Cons b s)
  have len: "unat p + 1 < length m" "m ! unat p = b" "b \<noteq> 0" and s: "cstr_at m (Suc (unat p)) s"
    using Cons.prems [unfolded cstr_at_Cons] by (auto simp: cstr_at_def)
  have p1: "unat (p + 1) = Suc (unat p)" using unat_offset [of p 1] len assms by simp
  have "p < of_nat (length m)"
    using len assms by (simp add: word_less_nat_alt unat_of_nat_small)
  then have "cstr_end m p = cstr_end m (p + 1)"
    using len by (subst cstr_end.simps) simp
  with Cons.IH [of "p + 1"] s p1 show ?case by (simp add: algebra_simps)
qed

lemma cstr_reads:
  assumes "cstr_at m (unat p) s" "length m < 2 ^ 32" "length m \<le> mem_cap"
  shows "cstr m mem_cap p = Some s"
proof -
  have len: "unat p + length s < length m" "take (length s) (drop (unat p) m) = s"
    using assms(1) by (simp_all add: cstr_at_def)
  then have "unat (cstr_end m p) = unat p + length s"
    unfolding cstr_end_cstr [OF assms(2,1)] using assms(2) by (intro unat_offset) linarith
  with len assms(3) show ?thesis
    by (simp add: cstr_def reslice_def del: of_nat_unat)
qed

fun addr_bytes :: "ip_addr \<Rightarrow> u8 list" where
  "addr_bytes NoAddr = []"
| "addr_bytes (Ip4 b) = b"
| "addr_bytes (Ip6 b) = b"

fun of_family :: "u32 \<Rightarrow> ip_addr \<Rightarrow> bool" where
  "of_family family NoAddr = False"
| "of_family family (Ip4 b) = (family = 4)"
| "of_family family (Ip6 b) = (family = 6)"

fun addr_wf :: "ip_addr \<Rightarrow> bool" where
  "addr_wf NoAddr = True"
| "addr_wf (Ip4 b) = (length b = 4)"
| "addr_wf (Ip6 b) = (length b = 16)"

lemma copy_at_put: "a + length bs \<le> length m \<Longrightarrow> put_bytes m a bs = Some (copy_at m a bs)"
  by (simp add: put_bytes_def copy_at_def Let_def)

lemma store_first_find:
  assumes "\<forall>a \<in> set addrs. addr_wf a" "unat out + 16 \<le> length m"
  shows "store_first m family out addrs =
    (case find (of_family family) addrs of
       None \<Rightarrow> Some (- 1, m)
     | Some a \<Rightarrow> map_option (Pair 0) (put_bytes m (unat out) (addr_bytes a)))"
  using assms
  by (induction m family out addrs rule: store_first.induct) (auto simp: copy_at_put)

text \<open>
  C21: The host callback gives the name that C code passes to the user's lookup function and
  stores the first address of the family asked for, 4 bytes for IPv4 and 16 for IPv6, at the
  output pointer and nowhere else; it answers \<open>-1\<close> and leaves the memory alone when there is no
  lookup function, when it fails or when it has no such address.
\<close>

theorem resolve_host_stores_first:
  assumes "cstr_at m (unat host) name" "length m < 2 ^ 32" "length m \<le> mem_cap"
    and "\<And>addrs. f name = Some addrs \<Longrightarrow> \<forall>a \<in> set addrs. addr_wf a" "unat out + 16 \<le> length m"
  shows "xresolve_host (Some f) m mem_cap host family out =
    (case Option.bind (f name) (find (of_family family)) of
       None \<Rightarrow> Some (- 1, m)
     | Some a \<Rightarrow> map_option (Pair 0) (put_bytes m (unat out) (addr_bytes a)))"
proof (cases "f name")
  case None
  then show ?thesis by (simp add: xresolve_host_def cstr_reads [OF assms(1-3)])
next
  case (Some addrs')
  then have "\<forall>a \<in> set addrs'. addr_wf a" using assms(4) by blast
  from store_first_find [OF this assms(5)] Some show ?thesis
    by (simp add: xresolve_host_def cstr_reads [OF assms(1-3)])
qed

theorem resolve_host_stores_first_witness:
  "xresolve_host (Some (\<lambda>name. if name = [97] then Some [Ip6 (replicate 16 1), Ip4 [10, 0, 0, 1]] else None))
      ([97, 0] @ replicate 20 9) 30 0 4 2 =
    (case Option.bind (if [97 :: u8] = [97] then Some [Ip6 (replicate 16 1), Ip4 [10, 0, 0, 1]] else None)
        (find (of_family 4)) of
       None \<Rightarrow> Some (- 1, [97, 0] @ replicate 20 9)
     | Some a \<Rightarrow> map_option (Pair 0) (put_bytes ([97, 0] @ replicate 20 9) (unat (2 :: u32)) (addr_bytes a)))"
  by (rule resolve_host_stores_first) (auto simp: cstr_at_def)

end
