(* ===== verification/Alloc.thy ===== *)
theory Alloc
  imports Libc
begin

text \<open>
  The bump allocator of the module, \<open>Xmalloc\<close>, \<open>Xfree\<close>, \<open>_calloc\<close> and \<open>_realloc\<close> of
  \<open>internal/bpf.go\<close>. Three words of the memory are its state: the heap pointer at 125436, the
  heap's end at 125440 and the address of the block handed out last, or 0, at 127524. Only the
  last block can be given back. The compiler inlined the code that reserves a block into every
  function; here it is \<open>heap_reserve\<close> with the loop \<open>heap_grow\<close>.
\<close>

section \<open>The code\<close>

text \<open>
  The loop (\<open>l1\<close> in \<open>Xmalloc\<close>): the memory grows until \<open>v2\<close> bytes are available. The result is
  \<open>None\<close> for a growth that fails, or the address of the block.
\<close>

partial_function (option) heap_grow ::
  "memory \<Rightarrow> u32 \<Rightarrow> u32 \<Rightarrow> u32 \<Rightarrow> u32 \<Rightarrow> (u32 option \<times> memory) option" where
  "heap_grow m v2 v1 v3 v4 =
     (let v5 = v2 - v1 + 0xffff;
          v6 = drop_bit 16 v5;
          (m, t4) = memory_grow m (ucast v6) 65536;
          v1 = (ucast t4 :: u32)
      in if v1 = - 1 then Some (None, m)
         else
           (let v0 = push_bit 16 v1
            in if v3 = v0 then do {
                 m \<leftarrow> store32 m 125440 (v3 + (v5 AND - 65536));
                 Some (Some v4, m)
               }
               else do {
                 m \<leftarrow> store32 m 125436 v0;
                 let v3 = push_bit 16 (v1 + v6);
                 m \<leftarrow> store32 m 125440 v3;
                 let v1 = v5 AND - 65536;
                 if v2 > v1 then heap_grow m v2 v1 v3 v0 else Some (Some v0, m)
               }))"

definition heap_reserve :: "memory \<Rightarrow> u32 \<Rightarrow> u32 \<Rightarrow> (u32 option \<times> memory) option" where
  "heap_reserve m v2 v4 =
     do {
       v3 \<leftarrow> load32 m 125440;
       let v1 = v3 - v4;
       (r, m) \<leftarrow> (if v2 \<le> v1 then Some (Some v4, m) else heap_grow m v2 v1 v3 v4);
       case r of
         None \<Rightarrow> Some (None, m)
       | Some v0 \<Rightarrow> do {
           m \<leftarrow> store32 m 127524 v0;
           m \<leftarrow> store32 m 125436 (v0 + v2);
           Some (Some v0, m)
         }
     }"

definition xmalloc :: "memory \<Rightarrow> u32 \<Rightarrow> (u32 \<times> memory) option" where
  "xmalloc m v0 =
     (if sint v0 \<le> 0 then Some (0, m)
      else do {
        v4 \<leftarrow> load32 m 125436;
        (r, m) \<leftarrow> heap_reserve m ((v0 + 15) AND - 16) v4;
        Some (case r of None \<Rightarrow> 0 | Some v0 \<Rightarrow> v0, m)
      })"

definition xfree :: "memory \<Rightarrow> u32 \<Rightarrow> memory option" where
  "xfree m v0 =
     (if v0 = 0 then Some m
      else do {
        t0 \<leftarrow> load32 m 127524;
        if v0 \<noteq> t0 then Some m
        else do {
          m \<leftarrow> store32 m 125436 v0;
          store32 m 127524 0
        }
      })"

text \<open>The product is computed on 64 bits; a product over 32 bits is refused.\<close>

definition calloc :: "memory \<Rightarrow> u32 \<Rightarrow> u32 \<Rightarrow> (u32 \<times> memory) option" where
  "calloc m v0 v1 =
     (let v6 = (ucast v0 :: u64) * ucast v1
      in if (ucast (drop_bit 32 v6) :: u32) \<noteq> 0 then Some (0, m)
         else
           (let v1 = (ucast v6 :: u32)
            in if sint v1 \<le> 0 then Some (0, m)
               else do {
                 v4 \<leftarrow> load32 m 125436;
                 (r, m) \<leftarrow> heap_reserve m ((v1 + 15) AND - 16) v4;
                 Some (case r of None \<Rightarrow> 0 | Some v2 \<Rightarrow> v2, m)
               }))"

text \<open>
  \<open>realloc_move\<close> is the code from \<open>l3\<close>: the last block is given back first, so that it can grow
  where it is; \<open>v8\<close> is the heap pointer before that, put back when no memory is left (\<open>l4\<close>).
\<close>

definition realloc_move :: "memory \<Rightarrow> u32 \<Rightarrow> u32 \<Rightarrow> u32 \<Rightarrow> (u32 \<times> memory) option" where
  "realloc_move m v0 v1 v2 =
     do {
       v8 \<leftarrow> load32 m 125436;
       (v6, m) \<leftarrow> (if v0 = v2 then do { m \<leftarrow> store32 m 125436 v0; Some (v0, m) } else Some (v8, m));
       (r, m) \<leftarrow> (if sint v1 \<le> 0 then Some (None, m)
         else heap_reserve m ((v1 + 15) AND - 16) v6);
       if r = None \<or> r = Some 0 then do {
         m \<leftarrow> store32 m 125436 v8;
         Some (0, m)
       }
       else
         (let v2 = the r
          in if v0 = v2 then Some (v2, m)
             else
               (let v3 = v8 - v0;
                    v1 = (if v1 > v3 then v3 else v1)
                in if v1 = 0 then Some (v2, m)
                   else do {
                     m \<leftarrow> memory_copy m (unat v2) (unat v0) (unat v1);
                     Some (v2, m)
                   }))
     }"

definition realloc :: "memory \<Rightarrow> u32 \<Rightarrow> u32 \<Rightarrow> (u32 \<times> memory) option" where
  "realloc m v0 v1 =
     (if v0 = 0 then xmalloc m v1
      else if v1 = 0 then do {
        t7 \<leftarrow> load32 m 127524;
        if v0 \<noteq> t7 then Some (0, m)
        else do {
          m \<leftarrow> store32 m 125436 v0;
          m \<leftarrow> store32 m 127524 0;
          Some (0, m)
        }
      }
      else do {
        v2 \<leftarrow> load32 m 127524;
        if \<not> v1 > 16 \<and> v0 \<noteq> v2 then Some (v0, m)
        else realloc_move m v0 v1 v2
      })"

section \<open>Rounding\<close>

definition round_up :: "nat \<Rightarrow> nat \<Rightarrow> nat" where
  "round_up k n = 2 ^ k * ((n + (2 ^ k - 1)) div 2 ^ k)"

lemma and_not_mask_word:
  fixes x :: u32
  assumes "k = 4 \<or> k = 16"
  shows "unat (x AND NOT (mask k)) = 2 ^ k * (unat x div 2 ^ k)"
proof -
  have "x AND NOT (mask k) = push_bit k (drop_bit k x)"
    by (rule bit_word_eqI) (auto simp: bit_simps)
  also have "\<dots> = drop_bit k x * 2 ^ k" by (simp add: push_bit_eq_mult)
  also have "unat \<dots> = 2 ^ k * (unat x div 2 ^ k)"
  proof -
    have "unat (drop_bit k x) = unat x div 2 ^ k"
      unfolding unat_drop_bit_eq by (rule drop_bit_eq_div)
    moreover have "unat (2 ^ k :: u32) = 2 ^ k" using assms by auto
    moreover have "unat x div 2 ^ k * 2 ^ k < 2 ^ 32"
      using unat_u32_less [of x] by (intro le_less_trans [OF div_times_less_eq_dividend]) simp
    ultimately show ?thesis
      using unat_mult_lem [of "drop_bit k x" "2 ^ k"] by (simp add: mult.commute)
  qed
  finally show ?thesis .
qed

lemma round_16:
  fixes n :: u32
  assumes "unat n < 2 ^ 31"
  shows "unat ((n + 15) AND - 16) = round_up 4 (unat n)"
proof -
  have "(- 16 :: u32) = NOT (mask 4)" by (simp add: mask_eq_exp_minus_1)
  moreover have "unat (n + 15) = unat n + 15" using assms by (simp add: unat_add_no_wrap)
  ultimately show ?thesis using and_not_mask_word [of 4 "n + 15"] by (simp add: round_up_def)
qed

lemma round_up_bounds:
  "n \<le> round_up 4 n" "round_up 4 n < n + 16" "16 dvd round_up 4 n"
  unfolding round_up_def by auto


section \<open>The heap's invariant\<close>

text \<open>
  The allocator's own words: the heap pointer and the heap's end lie side by side.
\<close>

definition own_byte :: "nat \<Rightarrow> bool" where
  "own_byte i \<longleftrightarrow> 125436 \<le> i \<and> i < 125444 \<or> 127524 \<le> i \<and> i < 127528"

text \<open>\<open>H\<close> is the heap pointer, \<open>L\<close> the last block or 0; the heap starts at 127840 and ends with the memory.\<close>

definition heap_inv :: "memory \<Rightarrow> nat \<Rightarrow> nat \<Rightarrow> bool" where
  "heap_inv m H L \<longleftrightarrow>
     length m \<le> 2 ^ 32 \<and> 2 ^ 16 dvd length m \<and> 127840 \<le> H \<and> H \<le> length m \<and> 16 dvd H \<and>
     load32 m 125436 = Some (of_nat H) \<and> load32 m 125440 = Some (of_nat (length m)) \<and>
     load32 m 127524 = Some (of_nat L) \<and> (L = 0 \<or> 127840 \<le> L \<and> L \<le> H \<and> 16 dvd L)"

text \<open>All of \<open>m\<close> but the allocator's own words is kept, and what is new is zero.\<close>

definition heap_kept :: "memory \<Rightarrow> memory \<Rightarrow> bool" where
  "heap_kept m m' \<longleftrightarrow> 127528 \<le> length m \<and> length m \<le> length m' \<and>
     (\<forall>i < length m. \<not> own_byte i \<longrightarrow> m' ! i = m ! i) \<and>
     (\<forall>i < length m'. length m \<le> i \<longrightarrow> m' ! i = 0)"

lemma heap_kept_refl [intro]: "127528 \<le> length m \<Longrightarrow> heap_kept m m"
  by (simp add: heap_kept_def)

lemma heap_kept_trans:
  assumes "heap_kept m1 m2" "heap_kept m2 m3"
  shows "heap_kept m1 m3"
proof -
  have "m3 ! i = 0" if "i < length m3" "length m1 \<le> i" for i
  proof (cases "i < length m2")
    case True
    moreover have "\<not> own_byte i" using that(2) assms(1) by (auto simp: heap_kept_def own_byte_def)
    ultimately show ?thesis using assms that by (auto simp: heap_kept_def)
  next
    case False
    with assms(2) that show ?thesis by (simp add: heap_kept_def)
  qed
  with assms show ?thesis by (auto simp: heap_kept_def)
qed

lemma store_own_kept:
  assumes "store32 m a v = Some m'" "a = 125436 \<or> a = 125440 \<or> a = 127524" "127528 \<le> length m"
  shows "heap_kept m m'"
  using assms nth_put_bytes [of m a "le_bytes32 v" m'] length_store32 [OF assms(1)]
  by (auto simp: store32_def own_byte_def heap_kept_def)

lemma append_kept: "127528 \<le> length m \<Longrightarrow> heap_kept m (m @ replicate n 0)"
  by (auto simp: heap_kept_def nth_append)

text \<open>When the memory ends where the heap does, one growth is enough and the block stays where it is.\<close>

definition grow_pages :: "memory \<Rightarrow> nat \<Rightarrow> nat \<Rightarrow> nat" where
  "grow_pages m H s = (s - (length m - H) + 65535) div 2 ^ 16"

lemma drop_bit_16: "unat (drop_bit 16 (x :: u32)) = unat x div 2 ^ 16"
  unfolding unat_drop_bit_eq by (rule drop_bit_eq_div)

lemma memory_grow_pages:
  assumes "length m = old * 2 ^ 16" "old \<le> 2 ^ 16" "unat d = pages" "0 < pages" "pages < 2 ^ 17"
  shows "memory_grow m d 65536 =
    (if 2 ^ 16 < old + pages then (m, - 1) else (m @ replicate (pages * 2 ^ 16) 0, of_nat old))"
proof -
  have d: "d = of_nat pages" "d \<noteq> 0" using assms(3,4) by auto
  have new: "unat (of_nat old + d) = old + pages"
    unfolding d using assms(2,5) by (simp flip: of_nat_add add: unat_of_nat)
  have "(of_nat old + d > 65536) \<longleftrightarrow> 2 ^ 16 < old + pages"
    unfolding word_less_nat_alt new by simp
  moreover have "min 65536 (drop_bit 16 (2 ^ 63 - 1)) = (65536 :: u64)" by (simp add: min_def word_le_nat_alt)
  moreover have "\<not> 2 ^ 64 \<le> old + unat d" using assms(2,3,5) by simp
  moreover have "unat (push_bit 16 (of_nat old + d)) = (old + pages) * 2 ^ 16"
    using new assms(2,5) unat_mult_lem [of "of_nat old + d" "65536"] by (simp add: push_bit_eq_mult)
  ultimately show ?thesis
    using d(2) assms(1) by (simp add: memory_grow_def Let_def)
qed


lemma heap_grow_once:
  assumes "length m = old * 2 ^ 16" "old \<le> 2 ^ 16" "H \<le> length m" "127840 \<le> H"
    and "length m - H < s" "s \<le> 2 ^ 31"
  shows "heap_grow m (of_nat s) (of_nat (length m) - of_nat H) (of_nat (length m)) (of_nat H) =
    (if 2 ^ 16 < old + grow_pages m H s then Some (None, m)
     else map_option (Pair (Some (of_nat H)))
       (store32 (m @ replicate (grow_pages m H s * 2 ^ 16) 0) 125440
         (of_nat (length m + grow_pages m H s * 2 ^ 16))))"
proof -
  define d where "d = s - (length m - H) + 65535"
  define pages where "pages = grow_pages m H s"
  define v5 :: u32 where "v5 = of_nat s - (of_nat (length m) - of_nat H) + 0xffff"
  have d: "65536 \<le> d" "d \<le> 2 ^ 31 + 65535" using assms(5,6) by (auto simp: d_def)
  have v5: "v5 = of_nat d"
    using assms(3,5) by (simp add: v5_def d_def of_nat_diff)
  then have u5: "unat v5 = d" using d by (simp add: unat_of_nat)
  have pages: "pages = d div 2 ^ 16" by (simp add: pages_def grow_pages_def d_def)
  have p: "0 < pages" "pages < 2 ^ 17" using d unfolding pages by auto
  have delta: "unat (ucast (drop_bit 16 v5) :: u64) = pages"
  proof -
    have "unat (ucast (drop_bit 16 v5) :: u64) = unat (drop_bit 16 v5)"
      by (simp add: unsigned_ucast_eq take_bit_nat_eq_self_iff less_le_trans [OF unat_u32_less])
    then show ?thesis by (simp add: drop_bit_16 u5 pages)
  qed
  have v5_pages: "v5 AND - 65536 = of_nat (pages * 2 ^ 16)"
  proof -
    have "(- 65536 :: u32) = NOT (mask 16)" by (simp add: mask_eq_exp_minus_1)
    moreover have "unat (v5 AND NOT (mask 16)) = pages * 2 ^ 16"
      using and_not_mask_word [of 16 v5] u5 by (simp add: pages)
    ultimately show ?thesis by (metis of_nat_unat ucast_id)
  qed
  note grow = memory_grow_pages [OF assms(1,2) delta p]
  show ?thesis
  proof (cases "2 ^ 16 < old + pages")
    case True
    have "(ucast (- 1 :: u64) :: u32) = - 1" by (rule bit_word_eqI) (auto simp: bit_simps)
    with True grow show ?thesis
      by (subst heap_grow.simps) (simp add: v5_def pages_def Let_def)
  next
    case False
    then have old: "old < 2 ^ 16" using p(1) by simp
    have cast: "(ucast (of_nat old :: u64) :: u32) = of_nat old"
      using old by (simp add: word_unat_eq_iff unsigned_ucast_eq unat_of_nat take_bit_nat_eq_self_iff)
    have ne: "(of_nat old :: u32) \<noteq> - 1"
    proof
      assume "(of_nat old :: u32) = - 1"
      then have "(of_nat (Suc old) :: u32) = 0" by simp
      moreover have "unat (of_nat (Suc old) :: u32) = Suc old"
        using old by (simp add: unat_of_nat del: of_nat_Suc)
      ultimately show False by simp
    qed
    have same: "push_bit 16 (of_nat old) = (of_nat (length m) :: u32)"
      by (simp add: assms(1) push_bit_eq_mult)
    have gm: "memory_grow m (ucast (drop_bit 16 v5)) 65536 = (m @ replicate (pages * 2 ^ 16) 0, of_nat old)"
      using grow False by simp
    show ?thesis
      using False unfolding pages_def [symmetric]
      by (subst heap_grow.simps, unfold v5_def [symmetric] Let_def gm prod.case cast)
        (use ne same v5_pages in \<open>simp add: map_conv_bind_option o_def del: of_nat_mult\<close>)
  qed
qed


lemma page_multiple: "2 ^ 16 dvd n \<Longrightarrow> n \<le> 2 ^ 32 \<Longrightarrow> \<exists>old. n = old * 2 ^ 16 \<and> old \<le> (2 ^ 16 :: nat)"
  by (auto simp: dvd_def)

text \<open>
  What it takes for a new block \<open>[H, H + s)\<close> to be available: either the memory has room, or it
  grows by whole pages, up to 4 GiB.
\<close>

lemma heap_grow_room:
  assumes inv: "heap_inv m H L" and s: "length m - H < s" "s \<le> 2 ^ 31"
  shows "(\<exists>m'. heap_grow m (of_nat s) (of_nat (length m) - of_nat H) (of_nat (length m)) (of_nat H) =
      Some (Some (of_nat H), m') \<and> heap_kept m m' \<and> H + s \<le> length m' \<and> length m' \<le> 2 ^ 32 \<and>
      2 ^ 16 dvd length m' \<and> load32 m' 125436 = Some (of_nat H) \<and> load32 m' 127524 = Some (of_nat L) \<and>
      load32 m' 125440 = Some (of_nat (length m'))) \<or>
    heap_grow m (of_nat s) (of_nat (length m) - of_nat H) (of_nat (length m)) (of_nat H) =
      Some (None, m) \<and> 2 ^ 32 < H + s"
proof -
  from inv obtain old where old: "length m = old * 2 ^ 16" "old \<le> 2 ^ 16"
    using page_multiple [of "length m"] by (auto simp: heap_inv_def)
  have H: "H \<le> length m" "127840 \<le> H" using inv by (simp_all add: heap_inv_def)
  define n where "n = grow_pages m H s"
  note once = heap_grow_once [OF old H s, folded n_def]
  show ?thesis
  proof (cases "2 ^ 16 < old + n")
    case True
    have "n * 2 ^ 16 \<le> s - (length m - H) + 65535" unfolding n_def grow_pages_def by simp
    moreover have "2 ^ 32 + 2 ^ 16 \<le> length m + n * 2 ^ 16" using True unfolding old(1) by simp
    ultimately have "2 ^ 32 < H + s" using s(1) H(1) by simp
    with True once show ?thesis by simp
  next
    case False
    define m1 where "m1 = m @ replicate (n * 2 ^ 16) 0"
    obtain m' where m': "store32 m1 125440 (of_nat (length m1)) = Some m'"
      using store32_in [of 125440 m1] H by (auto simp: m1_def)
    have len: "length m' = length m1" "length m1 = length m + n * 2 ^ 16"
      using length_store32 [OF m'] by (simp_all add: m1_def)
    have "s - (length m - H) + 65535 < n * 2 ^ 16 + 2 ^ 16"
      unfolding n_def grow_pages_def by simp
    then have "s - (length m - H) \<le> n * 2 ^ 16" by simp
    with s(1) H have room: "H + s \<le> length m'" unfolding len by linarith
    have k: "heap_kept m m'"
      using H store_own_kept [OF m']
      by (intro heap_kept_trans [OF append_kept [of m "n * 2 ^ 16"]]) (simp_all add: m1_def)
    have loads: "load32 m1 a = load32 m a" if "a + 4 \<le> length m" for a
      using that by (simp add: load32_def get_bytes_def slice_def m1_def)
    have "load32 m' 125436 = Some (of_nat H)" "load32 m' 127524 = Some (of_nat L)"
      using load32_store32_other [OF m', of 125436] load32_store32_other [OF m', of 127524]
        loads [of 125436] loads [of 127524] H inv by (simp_all add: heap_inv_def)
    moreover have "load32 m' 125440 = Some (of_nat (length m'))"
      using load32_store32 [OF m'] len(1) by simp
    moreover have "length m' = (old + n) * 2 ^ 16" using old(1) len by simp
    then have "length m' \<le> 2 ^ 32" "2 ^ 16 dvd length m'" using False by simp_all
    moreover have "heap_grow m (of_nat s) (of_nat (length m) - of_nat H) (of_nat (length m)) (of_nat H) =
        Some (Some (of_nat H), m')"
      using False once m' len(2) by (simp add: m1_def del: of_nat_add of_nat_mult)
    ultimately show ?thesis using k room by blast
  qed
qed

lemma diff_addr:
  assumes "a \<le> b" "b \<le> 2 ^ 32" "b - a < 2 ^ 32"
  shows "unat (of_nat b - of_nat a :: u32) = b - a"
proof -
  have "(of_nat b - of_nat a :: u32) = of_nat (b - a)" using assms(1) by (simp add: of_nat_diff)
  with assms(3) show ?thesis by (simp add: unat_of_nat del: of_nat_diff)
qed

lemma heap_reserve_spec:
  assumes inv: "heap_inv m H L" and s: "0 < s" "s \<le> 2 ^ 31" "16 dvd s"
  shows "(\<exists>m'. heap_reserve m (of_nat s) (of_nat H) = Some (Some (of_nat H), m') \<and>
      H + s \<le> length m' \<and> heap_kept m m' \<and> heap_inv m' (H + s) H) \<or>
    heap_reserve m (of_nat s) (of_nat H) = Some (None, m) \<and> 2 ^ 32 < H + s"
proof -
  have H: "H \<le> length m" "127840 \<le> H" "length m \<le> 2 ^ 32" "16 dvd H"
    and hend: "load32 m 125440 = Some (of_nat (length m))"
    using inv by (simp_all add: heap_inv_def)
  have avail: "unat (of_nat (length m) - of_nat H :: u32) = length m - H"
    using H by (intro diff_addr) auto
  have us: "unat (of_nat s :: u32) = s" using s(2) by (simp add: unat_of_nat)
  define r where "r = (if of_nat s \<le> (of_nat (length m) - of_nat H :: u32) then Some (Some (of_nat H), m)
      else heap_grow m (of_nat s) (of_nat (length m) - of_nat H) (of_nat (length m)) (of_nat H))"
  have res: "heap_reserve m (of_nat s) (of_nat H) = Option.bind r (\<lambda>(r, m). case r of
         None \<Rightarrow> Some (None, m)
       | Some v0 \<Rightarrow> do {
           m \<leftarrow> store32 m 127524 v0;
           m \<leftarrow> store32 m 125436 (v0 + of_nat s);
           Some (Some v0, m)
         })"
    by (simp only: heap_reserve_def hend r_def Let_def bind.bind_lunit)
  have "(\<exists>m1. r = Some (Some (of_nat H), m1) \<and> heap_kept m m1 \<and> H + s \<le> length m1 \<and>
      length m1 \<le> 2 ^ 32 \<and> 2 ^ 16 dvd length m1 \<and> load32 m1 125440 = Some (of_nat (length m1))) \<or>
    r = Some (None, m) \<and> 2 ^ 32 < H + s"
  proof (cases "s \<le> length m - H")
    case True
    with avail us have "r = Some (Some (of_nat H), m)" by (simp add: r_def word_le_nat_alt)
    with True H inv show ?thesis by (auto simp: heap_inv_def)
  next
    case False
    with avail us have "r = heap_grow m (of_nat s) (of_nat (length m) - of_nat H) (of_nat (length m)) (of_nat H)"
      by (simp add: r_def word_le_nat_alt)
    with heap_grow_room [OF inv _ s(2)] False show ?thesis by auto
  qed
  then show ?thesis
  proof
    assume "r = Some (None, m) \<and> 2 ^ 32 < H + s"
    with res show ?thesis by simp
  next
    assume "\<exists>m1. r = Some (Some (of_nat H), m1) \<and> heap_kept m m1 \<and> H + s \<le> length m1 \<and>
      length m1 \<le> 2 ^ 32 \<and> 2 ^ 16 dvd length m1 \<and> load32 m1 125440 = Some (of_nat (length m1))"
    then obtain m1 where r: "r = Some (Some (of_nat H), m1)" and k: "heap_kept m m1"
      and m1: "H + s \<le> length m1" "length m1 \<le> 2 ^ 32" "2 ^ 16 dvd length m1"
        "load32 m1 125440 = Some (of_nat (length m1))" by blast
    obtain m2 where m2: "store32 m1 127524 (of_nat H) = Some m2"
      using store32_in [of 127524 m1] m1 H by auto
    have l2: "length m2 = length m1" by (rule length_store32 [OF m2])
    obtain m3 where m3: "store32 m2 125436 (of_nat H + of_nat s) = Some m3"
      using store32_in [of 125436 m2] m1 l2 H by auto
    have l3: "length m3 = length m1" using length_store32 [OF m3] l2 by simp
    have k3: "heap_kept m m3"
      using k store_own_kept [OF m2] store_own_kept [OF m3] m1 H l2
      by (intro heap_kept_trans [OF k heap_kept_trans]) auto
    have "heap_inv m3 (H + s) H"
      using m1 H s l3 load32_store32 [OF m3] load32_store32_other [OF m3, of 125440]
        load32_store32_other [OF m3, of 127524] load32_store32 [OF m2]
        load32_store32_other [OF m2, of 125440]
      by (simp add: heap_inv_def)
    moreover have "heap_reserve m (of_nat s) (of_nat H) = Some (Some (of_nat H), m3)"
      using res r m2 m3 by simp
    ultimately show ?thesis using k3 m1(1) l3 by auto
  qed
qed


section \<open>The operations\<close>

lemma sint_of_range:
  assumes "- (2 ^ 31) \<le> k" "k < 2 ^ 31"
  shows "sint (word_of_int k :: u32) = k"
  using assms by (simp only: sint_sbintrunc') (simp add: signed_take_bit_int_eq_self)

lemma round_arg:
  assumes "0 < sint (n :: u32)"
  shows "(n + 15) AND - 16 = of_nat (round_up 4 (unat n))" "0 < unat n" "unat n < 2 ^ 31"
    "0 < round_up 4 (unat n)" "round_up 4 (unat n) \<le> 2 ^ 31"
proof -
  have "\<not> 2 ^ 31 \<le> unat n"
  proof
    assume "2 ^ 31 \<le> unat n"
    define k where "k = int (unat n) - 2 ^ 32"
    have "k < 0" "- (2 ^ 31) \<le> k"
      using \<open>2 ^ 31 \<le> unat n\<close> unat_u32_less [of n] by (simp_all add: k_def del: of_nat_unat)
    moreover have "n = word_of_int k" by (simp add: k_def)
    ultimately have "sint n < 0" using sint_of_range [of k] by simp
    with assms show False by simp
  qed
  then show b: "unat n < 2 ^ 31" by simp
  from assms have "n \<noteq> 0" by auto
  then show p: "0 < unat n" by (simp add: unat_gt_0)
  have r: "unat ((n + 15) AND - 16) = round_up 4 (unat n)" by (rule round_16 [OF b])
  then show "(n + 15) AND - 16 = of_nat (round_up 4 (unat n))" by (metis of_nat_unat ucast_id)
  show "0 < round_up 4 (unat n)" using p round_up_bounds(1) [of "unat n"] by simp
  have "16 dvd (2 ^ 31 :: nat)" by simp
  with b round_up_bounds(2,3) [of "unat n"] show "round_up 4 (unat n) \<le> 2 ^ 31"
    by (auto simp: dvd_def)
qed

lemma xmalloc_spec:
  assumes inv: "heap_inv m H L" and n: "0 < sint n"
  shows "(\<exists>m'. xmalloc m n = Some (of_nat H, m') \<and> H + round_up 4 (unat n) \<le> length m' \<and>
      heap_kept m m' \<and> heap_inv m' (H + round_up 4 (unat n)) H) \<or>
    xmalloc m n = Some (0, m) \<and> 2 ^ 32 < H + round_up 4 (unat n)"
proof -
  note r = round_arg [OF n]
  have "load32 m 125436 = Some (of_nat H)" using inv by (simp add: heap_inv_def)
  then have "xmalloc m n = map_option (\<lambda>(r, m). (case r of None \<Rightarrow> 0 | Some v0 \<Rightarrow> v0, m))
      (heap_reserve m (of_nat (round_up 4 (unat n))) (of_nat H))"
    using n by (simp add: xmalloc_def r(1) map_conv_bind_option comp_def split_def)
  with heap_reserve_spec [OF inv r(4,5) round_up_bounds(3)] show ?thesis by auto
qed

lemma xmalloc_nonpos: "sint n \<le> 0 \<Longrightarrow> xmalloc m n = Some (0, m)"
  by (simp add: xmalloc_def)

text \<open>A call of \<open>calloc\<close> reserves like \<open>malloc\<close> does with the product; the product does not wrap.\<close>

lemma calloc_malloc:
  "calloc m k n =
     (if unat k * unat n < 2 ^ 32 then xmalloc m (of_nat (unat k * unat n)) else Some (0, m))"
proof -
  define v6 where "v6 = (ucast k :: u64) * ucast n"
  have u: "unat (ucast x :: u64) = unat x" for x :: u32
    by (simp add: unsigned_ucast_eq take_bit_nat_eq_self_iff less_le_trans [OF unat_u32_less])
  have "unat k * unat n < 2 ^ 64"
    using mult_strict_mono [OF unat_u32_less [of k] unat_u32_less [of n]] by simp
  then have v6: "unat v6 = unat k * unat n"
    unfolding v6_def using unat_mult_lem [of "ucast k :: u64" "ucast n"] by (simp add: u)
  have high: "(ucast (drop_bit 32 v6) :: u32) = 0 \<longleftrightarrow> unat k * unat n < 2 ^ 32"
  proof -
    have d: "unat (drop_bit 32 v6) = unat k * unat n div 2 ^ 32"
      unfolding unat_drop_bit_eq v6 by (rule drop_bit_eq_div)
    have "unat k * unat n div 2 ^ 32 < 2 ^ 32" using \<open>unat k * unat n < 2 ^ 64\<close>
      by (simp add: less_mult_imp_div_less)
    then have "unat (ucast (drop_bit 32 v6) :: u32) = unat k * unat n div 2 ^ 32"
      by (simp add: unsigned_ucast_eq d take_bit_nat_eq_self_iff)
    then show ?thesis by (simp add: unat_eq_zero [symmetric] div_eq_0_iff del: unat_eq_zero)
  qed
  have low: "(ucast v6 :: u32) = of_nat (unat k * unat n)" if "unat k * unat n < 2 ^ 32"
    using that by (simp add: word_unat_eq_iff unsigned_ucast_eq v6 unat_of_nat take_bit_eq_mod
      del: of_nat_mult)
  show ?thesis
    using high low unfolding calloc_def v6_def [symmetric] Let_def by (auto simp: xmalloc_def)
qed


lemma heap_addr:
  assumes "heap_inv m' (H + s) H" "0 < s" "127840 \<le> H"
  shows "unat (of_nat H :: u32) = H" "(of_nat H :: u32) \<noteq> 0"
proof -
  have "H < 2 ^ 32" "127840 \<le> H" using assms by (auto simp: heap_inv_def)
  then show u: "unat (of_nat H :: u32) = H" by (simp add: unat_of_nat)
  with \<open>127840 \<le> H\<close> show "(of_nat H :: u32) \<noteq> 0" by auto
qed

lemma xfree_spec:
  assumes inv: "heap_inv m H L" and v: "v \<noteq> 0"
  shows "xfree m v = Some m \<and> unat v \<noteq> L \<or>
    (\<exists>m'. xfree m v = Some m' \<and> unat v = L \<and> length m' = length m \<and> heap_kept m m' \<and> heap_inv m' L 0)"
proof -
  have L: "load32 m 127524 = Some (of_nat L)" "L \<le> H" "H \<le> length m" "127840 \<le> H" "length m \<le> 2 ^ 32"
    using inv by (auto simp: heap_inv_def)
  show ?thesis
  proof (cases "v = of_nat L")
    case False
    have "unat v \<noteq> L" using False by (metis of_nat_unat ucast_id)
    with False v L show ?thesis by (simp add: xfree_def)
  next
    case True
    obtain m1 where m1: "store32 m 125436 v = Some m1" using store32_in [of 125436 m] L by auto
    have l1: "length m1 = length m" by (rule length_store32 [OF m1])
    obtain m2 where m2: "store32 m1 127524 0 = Some m2" using store32_in [of 127524 m1] L l1 by auto
    have l2: "length m2 = length m" using length_store32 [OF m2] l1 by simp
    have "L \<noteq> 0"
    proof
      assume "L = 0"
      then have "v = 0" unfolding True by (simp only: semiring_1_class.of_nat_0)
      with v show False ..
    qed
    then have L': "127840 \<le> L" "16 dvd L" using inv by (auto simp: heap_inv_def)
    have "\<not> 2 ^ 32 \<le> L"
    proof
      assume "2 ^ 32 \<le> L"
      with L have "L = 2 ^ 32" by simp
      with True v show False by simp
    qed
    then have "unat v = L" using True by (simp add: unat_of_nat)
    moreover have "heap_inv m2 L 0"
      using inv L' L l2 True load32_store32 [OF m1] load32_store32_other [OF m1, of 125440]
        load32_store32_other [OF m2, of 125440] load32_store32_other [OF m2, of 125436]
        load32_store32 [OF m2]
      by (simp add: heap_inv_def)
    moreover have "heap_kept m m2"
      using heap_kept_trans [OF store_own_kept [OF m1] store_own_kept [OF m2]] L l1 by simp
    moreover have "xfree m v = Some m2" using True v L m1 m2 by (simp add: xfree_def)
    ultimately show ?thesis using l2 by blast
  qed
qed

text \<open>Writes above the static data leave the allocator's words alone.\<close>

lemma heap_inv_put:
  assumes "heap_inv m H L" "put_bytes m i xs = Some m'" "127528 \<le> i"
  shows "heap_inv m' H L"
proof -
  have "load32 m' a = load32 m a" if "a + 4 \<le> 127528" for a
    using load32_cong [OF get_put_disjoint [OF assms(2), of a 4]] that assms(3) by simp
  with assms(1) length_put_bytes [OF assms(2)] show ?thesis by (simp add: heap_inv_def)
qed

text \<open>
  \<open>realloc\<close> of a block at \<open>p\<close> below the heap pointer: it fails and changes nothing, or keeps the
  block in place (the last block, or a size of at most 16), or copies it to a new block.
\<close>

lemma heap_inv_pop:
  assumes inv: "heap_inv m H L" and L: "L \<noteq> 0" and m1: "store32 m 125436 (of_nat L) = Some m1"
  shows "heap_inv m1 L L"
  using inv L load32_store32 [OF m1] load32_store32_other [OF m1, of 125440]
    load32_store32_other [OF m1, of 127524] length_store32 [OF m1]
  by (auto simp: heap_inv_def)

lemma heap_inv_push:
  assumes inv: "heap_inv m L L" and H: "heap_inv m0 H L" "length m = length m0"
    and m1: "store32 m 125436 (of_nat H) = Some m1"
  shows "heap_inv m1 H L"
  using inv H load32_store32 [OF m1] load32_store32_other [OF m1, of 125440]
    load32_store32_other [OF m1, of 127524] length_store32 [OF m1]
  by (auto simp: heap_inv_def)

lemma realloc_last:
  assumes inv: "heap_inv m H L" and p: "p = of_nat L" "L \<noteq> 0" "p \<noteq> 0" and n: "0 < sint n"
  shows "(\<exists>m'. realloc m p n = Some (p, m') \<and> heap_kept m m' \<and> L + round_up 4 (unat n) \<le> length m' \<and>
      heap_inv m' (L + round_up 4 (unat n)) L) \<or>
    2 ^ 32 < L + round_up 4 (unat n) \<and>
    (\<exists>m'. realloc m p n = Some (0, m') \<and> heap_kept m m' \<and> heap_inv m' H L)"
proof -
  note r = round_arg [OF n]
  have m: "127840 \<le> length m" "load32 m 125436 = Some (of_nat H)" "load32 m 127524 = Some p"
    using inv p(1) by (auto simp: heap_inv_def)
  have "n \<noteq> 0" using n by auto
  obtain m1 where m1: "store32 m 125436 p = Some m1" using store32_in [of 125436 m] m(1) by auto
  have inv1: "heap_inv m1 L L" using heap_inv_pop [OF inv p(2)] m1 p(1) by simp
  have k1: "heap_kept m m1" using store_own_kept [OF m1] m(1) by simp
  have l1: "length m1 = length m" by (rule length_store32 [OF m1])
  have step: "realloc m p n = do {
      (r, m2) \<leftarrow> heap_reserve m1 (of_nat (round_up 4 (unat n))) (of_nat L);
      if r = None \<or> r = Some 0 then do { m3 \<leftarrow> store32 m2 125436 (of_nat H); Some (0, m3) }
      else Some (p, m2) }" if "\<And>q m2. heap_reserve m1 (of_nat (round_up 4 (unat n))) (of_nat L) = Some (Some q, m2) \<Longrightarrow> q = p"
    using p(3) \<open>n \<noteq> 0\<close> n that
    by (auto simp: realloc_def realloc_move_def m m1 p(1) [symmetric] r(1) Let_def
        intro!: Option.bind_cong)
  from heap_reserve_spec [OF inv1 r(4,5) round_up_bounds(3)] show ?thesis
  proof
    assume "\<exists>m'. heap_reserve m1 (of_nat (round_up 4 (unat n))) (of_nat L) = Some (Some (of_nat L), m') \<and>
      L + round_up 4 (unat n) \<le> length m' \<and> heap_kept m1 m' \<and> heap_inv m' (L + round_up 4 (unat n)) L"
    then obtain m' where m': "heap_reserve m1 (of_nat (round_up 4 (unat n))) (of_nat L) = Some (Some p, m')"
      "L + round_up 4 (unat n) \<le> length m'" "heap_kept m1 m'" "heap_inv m' (L + round_up 4 (unat n)) L"
      unfolding p(1) by blast
    then have "realloc m p n = Some (p, m')" using step p(3) by simp
    with m' heap_kept_trans [OF k1 m'(3)] show ?thesis by blast
  next
    assume "heap_reserve m1 (of_nat (round_up 4 (unat n))) (of_nat L) = Some (None, m1) \<and>
      2 ^ 32 < L + round_up 4 (unat n)"
    then have none: "heap_reserve m1 (of_nat (round_up 4 (unat n))) (of_nat L) = Some (None, m1)"
      and big: "2 ^ 32 < L + round_up 4 (unat n)" by blast+
    obtain m3 where m3: "store32 m1 125436 (of_nat H) = Some m3"
      using store32_in [of 125436 m1] m(1) l1 by auto
    have "realloc m p n = Some (0, m3)" using step none m3 by simp
    moreover have "heap_kept m m3"
      using heap_kept_trans [OF k1 store_own_kept [OF m3]] m(1) l1 by simp
    ultimately show ?thesis using heap_inv_push [OF inv1 inv l1 m3] big by blast
  qed
qed

lemma realloc_other:
  assumes inv: "heap_inv m H L" and p: "p \<noteq> of_nat L" "127840 \<le> unat p" "unat p < H" and n: "0 < sint n"
  shows "realloc m p n = Some (p, m) \<and> unat n \<le> 16 \<or>
    (\<exists>m1 m'. realloc m p n = Some (of_nat H, m') \<and> heap_kept m m1 \<and>
      H + round_up 4 (unat n) \<le> length m1 \<and> heap_inv m1 (H + round_up 4 (unat n)) H \<and>
      put_bytes m1 H (take (min (unat n) (H - unat p)) (drop (unat p) m1)) = Some m') \<or>
    (\<exists>m'. realloc m p n = Some (0, m') \<and> heap_kept m m' \<and> heap_inv m' H L)"
proof (cases "unat n \<le> 16")
  case True
  moreover have "p \<noteq> 0" "n \<noteq> 0" using p(2) n by auto
  moreover have "load32 m 127524 = Some (of_nat L)" using inv by (simp add: heap_inv_def)
  ultimately show ?thesis using p(1) by (simp add: realloc_def word_less_nat_alt)
next
  case False
  note r = round_arg [OF n]
  have m: "127840 \<le> length m" "H \<le> length m" "length m \<le> 2 ^ 32" "load32 m 125436 = Some (of_nat H)"
    "load32 m 127524 = Some (of_nat L)"
    using inv by (auto simp: heap_inv_def)
  have nz: "p \<noteq> 0" "n \<noteq> 0" using p(2) n by auto
  have start: "realloc m p n = do {
      (r, m) \<leftarrow> heap_reserve m (of_nat (round_up 4 (unat n))) (of_nat H);
      if r = None \<or> r = Some 0 then do {
         m \<leftarrow> store32 m 125436 (of_nat H);
         Some (0, m)
       }
       else
         (let v2 = the r
          in if p = v2 then Some (v2, m)
             else
               (let v3 = of_nat H - p;
                    v1 = (if n > v3 then v3 else n)
                in if v1 = 0 then Some (v2, m)
                   else do {
                     m \<leftarrow> memory_copy m (unat v2) (unat p) (unat v1);
                     Some (v2, m)
                   }))
     }"
    using False nz p(1) n m(4,5)
    by (simp add: realloc_def realloc_move_def r(1) word_less_nat_alt)
  from heap_reserve_spec [OF inv r(4,5) round_up_bounds(3)] show ?thesis
  proof
    assume "\<exists>m'. heap_reserve m (of_nat (round_up 4 (unat n))) (of_nat H) = Some (Some (of_nat H), m') \<and>
      H + round_up 4 (unat n) \<le> length m' \<and> heap_kept m m' \<and> heap_inv m' (H + round_up 4 (unat n)) H"
    then obtain m1 where m1: "heap_reserve m (of_nat (round_up 4 (unat n))) (of_nat H) = Some (Some (of_nat H), m1)"
      "H + round_up 4 (unat n) \<le> length m1" "heap_kept m m1" "heap_inv m1 (H + round_up 4 (unat n)) H"
      by blast
    have uH: "unat (of_nat H :: u32) = H" "(of_nat H :: u32) \<noteq> 0"
      using heap_addr [OF m1(4) r(4)] p by simp_all
    have diff: "unat (of_nat H - p) = H - unat p"
      using diff_addr [of "unat p" H] p m by simp
    define k where "k = min (unat n) (H - unat p)"
    have v1: "unat (if n > of_nat H - p then of_nat H - p else n) = k"
      by (simp add: k_def word_less_nat_alt diff min_def)
    have k: "k \<le> round_up 4 (unat n)" "0 < k" "unat p + k \<le> H"
      using round_up_bounds(1) [of "unat n"] r(2) p by (auto simp: k_def)
    have "(if n > of_nat H - p then of_nat H - p else n) \<noteq> 0"
      unfolding unat_eq_zero [symmetric] v1 using k(2) by simp
    moreover have "p \<noteq> of_nat H" using uH(1) p(3) by auto
    moreover obtain m' where m': "put_bytes m1 H (take k (drop (unat p) m1)) = Some m'"
      using put_bytes_in [of H "take k (drop (unat p) m1)" m1] m1(2) k(1) by fastforce
    moreover from this have "memory_copy m1 H (unat p) k = Some m'"
      using memory_copy_in [of H k m1 "unat p"] m1(2) k by simp
    ultimately have "realloc m p n = Some (of_nat H, m')"
      using start m1(1) uH by (simp add: Let_def v1)
    with m1 m' show ?thesis unfolding k_def by blast
  next
    assume "heap_reserve m (of_nat (round_up 4 (unat n))) (of_nat H) = Some (None, m) \<and>
      2 ^ 32 < H + round_up 4 (unat n)"
    moreover obtain m3 where m3: "store32 m 125436 (of_nat H) = Some m3"
      using store32_in [of 125436 m] m(1) by auto
    ultimately have "realloc m p n = Some (0, m3)" using start by simp
    moreover have "heap_inv m3 H L"
      using inv load32_store32 [OF m3] load32_store32_other [OF m3, of 125440]
        load32_store32_other [OF m3, of 127524] length_store32 [OF m3]
      by (auto simp: heap_inv_def)
    ultimately show ?thesis using store_own_kept [OF m3] m(1) by auto
  qed
qed

lemma heap_kept_get:
  assumes "heap_kept m m'" "127528 \<le> a" "a + n \<le> length m"
  shows "get_bytes m' a n = get_bytes m a n"
proof -
  have "take n (drop a m') = take n (drop a m)"
    using assms by (intro nth_equalityI) (auto simp: heap_kept_def own_byte_def)
  with assms show ?thesis by (simp add: get_bytes_in heap_kept_def)
qed

text \<open>
  C17: A successful \<open>realloc\<close> of a block keeps its contents: the bytes that the old and the new
  size have in common read the same at the new address.
\<close>

theorem realloc_keeps_contents:
  assumes "heap_inv m H L" "127840 \<le> unat p" "unat p + c \<le> H" "0 < c"
    and "0 < sint n" "realloc m p n = Some (q, m')" "q \<noteq> 0"
  shows "get_bytes m' (unat q) (min (unat n) c) = get_bytes m (unat p) (min (unat n) c)"
proof -
  have H: "127840 \<le> H" "H \<le> length m" and L: "L \<le> 2 ^ 32" using assms(1) by (auto simp: heap_inv_def)
  define k where "k = min (unat n) c"
  have k: "unat p + k \<le> H" "k \<le> unat n" using assms(3) by (simp_all add: k_def)
  have same: "get_bytes m1 (unat p) k = get_bytes m (unat p) k" if "heap_kept m m1" for m1
    using that k H assms(2) by (intro heap_kept_get) simp_all
  have nz: "p \<noteq> 0" using assms(2) by auto
  show ?thesis
  proof (cases "p = of_nat L")
    case True
    then have "L \<noteq> 0" using nz by (cases "L = 0") auto
    from realloc_last [OF assms(1) True this nz assms(5)] assms(6,7) same show ?thesis
      by (auto simp: k_def simp del: get_bytes_Some_iff)
  next
    case False
    have "unat p < H" using assms(3,4) by simp
    from realloc_other [OF assms(1) False assms(2) this assms(5)] show ?thesis
    proof (elim disjE)
      assume "\<exists>m1 m'. realloc m p n = Some (of_nat H, m') \<and> heap_kept m m1 \<and>
        H + round_up 4 (unat n) \<le> length m1 \<and> heap_inv m1 (H + round_up 4 (unat n)) H \<and>
        put_bytes m1 H (take (min (unat n) (H - unat p)) (drop (unat p) m1)) = Some m'"
      then obtain m1 where q: "q = of_nat H" and m1: "heap_kept m m1" "H + round_up 4 (unat n) \<le> length m1"
        "heap_inv m1 (H + round_up 4 (unat n)) H"
        and w: "put_bytes m1 H (take (min (unat n) (H - unat p)) (drop (unat p) m1)) = Some m'"
        using assms(6) by auto
      have uq: "unat q = H" unfolding q by (rule heap_addr(1) [OF m1(3) round_arg(4) [OF assms(5)] H(1)])
      have "take k (drop H m') = take k (drop (unat p) m1)"
        using w k m1(2) round_up_bounds(1) [of "unat n"] assms(3)
        by (auto simp: put_bytes_def k_def min_def split: if_splits)
      moreover have "H + k \<le> length m'" "unat p + k \<le> length m1"
        using length_put_bytes [OF w] m1(2) k round_up_bounds(1) [of "unat n"] by linarith+
      ultimately have "get_bytes m' H k = get_bytes m1 (unat p) k" by (simp add: get_bytes_in)
      with same [OF m1(1)] uq show ?thesis by (simp add: k_def)
    qed (use assms(6,7) in auto)
  qed
qed

section \<open>Live blocks\<close>

text \<open>
  The blocks handed out and not given back, each with the rounded size it was reserved with.
  They lie in the heap, above the static data and below the heap pointer, and apart from each
  other; the block that can be given back is the topmost one.
\<close>

fun apart_blocks :: "(nat \<times> nat) list \<Rightarrow> bool" where
  "apart_blocks [] = True"
| "apart_blocks ((a, n) # bs) =
     ((\<forall>(b, k) \<in> set bs. a + n \<le> b \<or> b + k \<le> a) \<and> apart_blocks bs)"

definition block_in :: "nat \<Rightarrow> nat \<Rightarrow> nat \<times> nat \<Rightarrow> bool" where
  "block_in H L b =
     (case b of (a, n) \<Rightarrow> 127840 \<le> a \<and> 0 < n \<and> a + n \<le> H \<and> 16 dvd a \<and> 16 dvd n \<and>
       (L \<noteq> 0 \<longrightarrow> a = L \<or> a + n \<le> L))"

definition blocks_in :: "(nat \<times> nat) list \<Rightarrow> nat \<Rightarrow> nat \<Rightarrow> bool" where
  "blocks_in bs H L \<longleftrightarrow> apart_blocks bs \<and> (\<forall>b \<in> set bs. block_in H L b)"

definition blocks_ok :: "memory \<Rightarrow> (nat \<times> nat) list \<Rightarrow> bool" where
  "blocks_ok m bs \<longleftrightarrow> (\<exists>H L. heap_inv m H L \<and> blocks_in bs H L)"

lemma apart_blocks_remove1: "apart_blocks bs \<Longrightarrow> apart_blocks (remove1 b bs)"
  by (induction bs) (fastforce dest: notin_set_remove1)+

lemma apart_blocks_other:
  "apart_blocks bs \<Longrightarrow> (a, n) \<in> set bs \<Longrightarrow> (b, k) \<in> set (remove1 (a, n) bs) \<Longrightarrow>
    a + n \<le> b \<or> b + k \<le> a"
  by (induction bs) (auto split: if_splits)

lemma blocks_inD:
  assumes "blocks_in bs H L" "(a, n) \<in> set bs"
  shows "127840 \<le> a" "0 < n" "a + n \<le> H" "16 dvd a" "16 dvd n" "L = 0 \<or> a = L \<or> a + n \<le> L"
  using assms by (auto simp: blocks_in_def block_in_def)

lemma heap_pointer_unique:
  assumes "(of_nat a :: u32) = of_nat b" "0 < a" "a \<le> 2 ^ 32" "0 < b" "b \<le> 2 ^ 32"
  shows "a = b"
proof -
  have "a mod 2 ^ 32 = b mod 2 ^ 32"
    using arg_cong [OF assms(1), of unat] by (simp add: unat_of_nat)
  with assms(2-5) show ?thesis by (cases "a = 2 ^ 32"; cases "b = 2 ^ 32") auto
qed

lemma blocks_in_push:
  assumes "blocks_in bs H L" "127840 \<le> H" "16 dvd H" "0 < s" "16 dvd s"
  shows "blocks_in ((H, s) # bs) (H + s) H"
proof -
  have "b + k \<le> H \<and> block_in (H + s) H (b, k)" if "(b, k) \<in> set bs" for b k
    using blocks_inD [OF assms(1) that] by (simp add: block_in_def)
  moreover have "block_in (H + s) H (H, s)" using assms(2-5) by (simp add: block_in_def)
  ultimately show ?thesis using assms(1) by (auto simp: blocks_in_def)
qed

lemma blocks_in_drop: "blocks_in bs H L \<Longrightarrow> blocks_in (remove1 b bs) H L"
  using notin_set_remove1 [of _ bs b] unfolding blocks_in_def by (blast intro: apart_blocks_remove1)

lemma blocks_in_pop:
  assumes "blocks_in bs H L" "(L, n) \<in> set bs"
  shows "blocks_in (remove1 (L, n) bs) L 0"
proof -
  have "block_in L 0 (b, k)" if "(b, k) \<in> set (remove1 (L, n) bs)" for b k
  proof -
    have "(b, k) \<in> set bs" using that set_remove1_subset by fastforce
    note b = blocks_inD [OF assms(1) this] and l = blocks_inD [OF assms]
    have "L + n \<le> b \<or> b + k \<le> L"
      using apart_blocks_other [OF _ assms(2) that] assms(1) by (simp add: blocks_in_def)
    with b l have "b + k \<le> L" by linarith
    with b show ?thesis by (simp add: block_in_def)
  qed
  with assms(1) show ?thesis by (auto simp: blocks_in_def apart_blocks_remove1)
qed

lemma blocks_in_shrink:
  assumes "blocks_in bs H L" "(a, c) \<in> set bs" "0 < s" "s \<le> c" "16 dvd s"
  shows "blocks_in ((a, s) # remove1 (a, c) bs) H L"
proof -
  have "a + s \<le> b \<or> b + k \<le> a" if "(b, k) \<in> set (remove1 (a, c) bs)" for b k
    using apart_blocks_other [OF _ assms(2) that] assms(1,4) unfolding blocks_in_def by fastforce
  moreover have "block_in H L (a, s)"
    using blocks_inD [OF assms(1,2)] assms(3-5) by (auto simp: block_in_def)
  ultimately show ?thesis
    using blocks_in_drop [OF assms(1), of "(a, c)"] by (auto simp: blocks_in_def)
qed

text \<open>
  What the module and its host do to the heap: allocate, give back a live block, resize a live
  block, and write into a live block.
\<close>

inductive heap_step :: "memory \<times> (nat \<times> nat) list \<Rightarrow> memory \<times> (nat \<times> nat) list \<Rightarrow> bool" where
  malloc: "xmalloc m n = Some (p, m') \<Longrightarrow>
    heap_step (m, bs) (m', if p = 0 then bs else (unat p, round_up 4 (unat n)) # bs)"
| calloc: "calloc m k n = Some (p, m') \<Longrightarrow>
    heap_step (m, bs) (m', if p = 0 then bs else (unat p, round_up 4 (unat k * unat n)) # bs)"
| free: "(unat p, c) \<in> set bs \<Longrightarrow> xfree m p = Some m' \<Longrightarrow>
    heap_step (m, bs) (m', remove1 (unat p, c) bs)"
| realloc: "(unat p, c) \<in> set bs \<Longrightarrow> 0 < sint n \<Longrightarrow> realloc m p n = Some (q, m') \<Longrightarrow>
    heap_step (m, bs) (m', if q = 0 then bs else (unat q, round_up 4 (unat n)) # remove1 (unat p, c) bs)"
| fill: "(a, c) \<in> set bs \<Longrightarrow> a \<le> i \<Longrightarrow> i + length xs \<le> a + c \<Longrightarrow> put_bytes m i xs = Some m' \<Longrightarrow>
    heap_step (m, bs) (m', bs)"

inductive_cases heap_stepE: "heap_step (m, bs) s"

lemma blocks_ok_malloc:
  assumes "blocks_ok m bs" "xmalloc m n = Some (p, m')"
  shows "blocks_ok m' (if p = 0 then bs else (unat p, round_up 4 (unat n)) # bs)"
proof (cases "0 < sint n")
  case False
  with assms show ?thesis by (simp add: xmalloc_nonpos)
next
  case True
  from assms(1) obtain H L where inv: "heap_inv m H L" and bs: "blocks_in bs H L"
    by (auto simp: blocks_ok_def)
  have H: "127840 \<le> H" "16 dvd H" using inv by (simp_all add: heap_inv_def)
  note r = round_arg [OF True]
  from xmalloc_spec [OF inv True] show ?thesis
  proof
    assume "\<exists>m'. xmalloc m n = Some (of_nat H, m') \<and> H + round_up 4 (unat n) \<le> length m' \<and>
      heap_kept m m' \<and> heap_inv m' (H + round_up 4 (unat n)) H"
    with assms(2) have p: "p = of_nat H" and i: "heap_inv m' (H + round_up 4 (unat n)) H" by auto
    note a = heap_addr [OF i r(4) H(1)]
    show ?thesis
      unfolding p using i a blocks_in_push [OF bs H r(4) round_up_bounds(3)]
      by (auto simp: blocks_ok_def)
  next
    assume "xmalloc m n = Some (0, m) \<and> 2 ^ 32 < H + round_up 4 (unat n)"
    with assms show ?thesis by simp
  qed
qed

lemma blocks_ok_free:
  assumes "blocks_ok m bs" "(unat p, c) \<in> set bs" "xfree m p = Some m'"
  shows "blocks_ok m' (remove1 (unat p, c) bs)"
proof -
  from assms(1) obtain H L where inv: "heap_inv m H L" and bs: "blocks_in bs H L"
    by (auto simp: blocks_ok_def)
  have "p \<noteq> 0" using blocks_inD(1) [OF bs assms(2)] by auto
  from xfree_spec [OF inv this] show ?thesis
  proof
    assume "xfree m p = Some m \<and> unat p \<noteq> L"
    with assms(3) inv blocks_in_drop [OF bs] show ?thesis by (auto simp: blocks_ok_def)
  next
    assume "\<exists>m'. xfree m p = Some m' \<and> unat p = L \<and> length m' = length m \<and> heap_kept m m' \<and>
      heap_inv m' L 0"
    with assms(2,3) blocks_in_pop [OF bs] show ?thesis by (auto simp: blocks_ok_def)
  qed
qed

lemma blocks_ok_realloc:
  assumes "blocks_ok m bs" "(unat p, c) \<in> set bs" "0 < sint n" "realloc m p n = Some (q, m')"
  shows "blocks_ok m' (if q = 0 then bs else (unat q, round_up 4 (unat n)) # remove1 (unat p, c) bs)"
proof -
  from assms(1) obtain H L where inv: "heap_inv m H L" and bs: "blocks_in bs H L"
    by (auto simp: blocks_ok_def)
  note r = round_arg [OF assms(3)]
  have H: "127840 \<le> H" "16 dvd H" using inv by (simp_all add: heap_inv_def)
  have p: "127840 \<le> unat p" "0 < c" "unat p + c \<le> H" "16 dvd unat p" "16 dvd c"
    using blocks_inD [OF bs assms(2)] by simp_all
  then have nz: "p \<noteq> 0" by auto
  show ?thesis
  proof (cases "p = of_nat L")
    case True
    then have "L \<noteq> 0" using nz by (cases "L = 0") auto
    moreover have "unat p = L"
    proof (rule heap_pointer_unique)
      show "(of_nat (unat p) :: u32) = of_nat L" using True by simp
      show "unat p \<le> 2 ^ 32" using unat_u32_less [of p] by simp
      show "L \<le> 2 ^ 32" using inv by (auto simp: heap_inv_def)
    qed (use p(1) \<open>L \<noteq> 0\<close> in auto)
    ultimately show ?thesis
      using realloc_last [OF inv True _ nz assms(3)] assms(2,4) bs inv nz
        blocks_in_push [OF blocks_in_pop [OF bs], of c "round_up 4 (unat n)"] p r(4) round_up_bounds(3)
      by (auto simp: blocks_ok_def)
  next
    case False
    have "unat p < H" using p by simp
    from realloc_other [OF inv False p(1) this assms(3)] show ?thesis
    proof (elim disjE)
      assume "realloc m p n = Some (p, m) \<and> unat n \<le> 16"
      moreover from this have "unat n + 15 < 32" by simp
      then have "round_up 4 (unat n) \<le> 16" by (simp add: round_up_def)
      moreover have "16 \<le> c" using p(2,5) by (auto simp: dvd_def)
      ultimately show ?thesis
        using assms(4) inv nz blocks_in_shrink [OF bs assms(2) r(4) _ round_up_bounds(3)]
        by (auto simp: blocks_ok_def)
    next
      assume "\<exists>m1 m'. realloc m p n = Some (of_nat H, m') \<and> heap_kept m m1 \<and>
        H + round_up 4 (unat n) \<le> length m1 \<and> heap_inv m1 (H + round_up 4 (unat n)) H \<and>
        put_bytes m1 H (take (min (unat n) (H - unat p)) (drop (unat p) m1)) = Some m'"
      then obtain m1 where q: "q = of_nat H" and i: "heap_inv m1 (H + round_up 4 (unat n)) H"
        and w: "put_bytes m1 H (take (min (unat n) (H - unat p)) (drop (unat p) m1)) = Some m'"
        using assms(4) by auto
      have "heap_inv m' (H + round_up 4 (unat n)) H"
        by (rule heap_inv_put [OF i w]) (use H in simp)
      then show ?thesis
        unfolding q using heap_addr [OF i r(4) H(1)]
          blocks_in_push [OF blocks_in_drop [OF bs] H r(4) round_up_bounds(3)]
        by (auto simp: blocks_ok_def)
    next
      assume "\<exists>m'. realloc m p n = Some (0, m') \<and> heap_kept m m' \<and> heap_inv m' H L"
      with assms(4) bs show ?thesis by (auto simp: blocks_ok_def)
    qed
  qed
qed

lemma blocks_ok_step: "heap_step s s' \<Longrightarrow> blocks_ok (fst s) (snd s) \<Longrightarrow> blocks_ok (fst s') (snd s')"
proof (induction rule: heap_step.induct)
  case (malloc m n p m' bs)
  with blocks_ok_malloc [of m bs n p m'] show ?case by simp
next
  case (calloc m k n p m' bs)
  show ?case
  proof (cases "unat k * unat n < 2 ^ 32")
    case True
    then have "unat (of_nat (unat k * unat n) :: u32) = unat k * unat n"
      by (rule unat_of_nat_small)
    moreover have "xmalloc m (of_nat (unat k * unat n)) = Some (p, m')"
      using calloc(1) True by (simp only: calloc_malloc if_True)
    ultimately show ?thesis
      using blocks_ok_malloc [of m bs "of_nat (unat k * unat n)" p m'] calloc(2) by (simp only: fst_conv snd_conv)
  next
    case False
    with calloc show ?thesis by (simp add: calloc_malloc)
  qed
next
  case (free p c bs m m')
  with blocks_ok_free [of m bs p c m'] show ?case by simp
next
  case (realloc p c bs n m q m')
  with blocks_ok_realloc [of m bs p c n q m'] show ?case by simp
next
  case (fill a c bs i xs m m')
  then obtain H L where inv: "heap_inv m H L" and bs: "blocks_in bs H L" by (auto simp: blocks_ok_def)
  then have "127528 \<le> i" using fill(1,2) blocks_inD(1) [OF bs] by fastforce
  with heap_inv_put [OF inv fill(4)] bs show ?case by (auto simp: blocks_ok_def)
qed

text \<open>
  C13: From the module's initial heap, whatever sequence of allocations, frees, resizings of
  live blocks and writes into live blocks is done, the live blocks are pairwise apart, at
  multiples of 16, above the static data and inside the memory.
\<close>

theorem live_blocks_apart:
  assumes "heap_step\<^sup>*\<^sup>* (m0, []) (m, bs)" "heap_inv m0 127840 0"
  shows "apart_blocks bs \<and> (\<forall>(a, n) \<in> set bs. 127840 \<le> a \<and> a + n \<le> length m \<and> 16 dvd a)"
proof -
  have "blocks_ok (fst s) (snd s)" if "heap_step\<^sup>*\<^sup>* (m0, []) s" for s
    using that
  proof (induction rule: rtranclp_induct)
    case base
    with assms(2) show ?case by (auto simp: blocks_ok_def blocks_in_def)
  next
    case (step s s')
    then show ?case by (blast intro: blocks_ok_step)
  qed
  from this [OF assms(1)] obtain H L where inv: "heap_inv m H L" and bs: "blocks_in bs H L"
    by (auto simp: blocks_ok_def)
  have "127840 \<le> a \<and> a + n \<le> length m \<and> 16 dvd a" if "(a, n) \<in> set bs" for a n
    using blocks_inD [OF bs that] inv by (auto simp: heap_inv_def)
  with bs show ?thesis by (auto simp: blocks_in_def)
qed


section \<open>Contents of a block\<close>

text \<open>\<open>calloc\<close> hands out whatever the heap holds above its pointer; only new pages are zero.\<close>

lemma calloc_contents:
  assumes inv: "heap_inv m H L" and c: "calloc m k n = Some (p, m')" "p \<noteq> 0"
  shows "unat p = H \<and> H + unat k * unat n \<le> length m' \<and>
    (\<forall>i. H \<le> i \<and> i < length m' \<longrightarrow> m' ! i = (if i < length m then m ! i else 0))"
proof -
  have lt: "unat k * unat n < 2 ^ 32" using c by (auto simp: calloc_malloc split: if_splits)
  define s where "s = (of_nat (unat k * unat n) :: u32)"
  have s: "unat s = unat k * unat n" unfolding s_def using lt by (rule unat_of_nat_small)
  have x: "xmalloc m s = Some (p, m')" using c(1) lt by (simp only: calloc_malloc s_def if_True)
  then have pos: "0 < sint s" using c(2) xmalloc_nonpos [of s m] by fastforce
  have H: "127840 \<le> H" using inv by (simp add: heap_inv_def)
  from xmalloc_spec [OF inv pos] x c(2)
  have m': "p = of_nat H" "H + round_up 4 (unat s) \<le> length m'" "heap_kept m m'"
    "heap_inv m' (H + round_up 4 (unat s)) H"
    by auto
  have "unat p = H" using heap_addr(1) [OF m'(4) round_arg(4) [OF pos] H] m'(1) by simp
  moreover have "\<not> own_byte i" if "H \<le> i" for i using that H by (simp add: own_byte_def)
  ultimately show ?thesis
    using m'(2,3) round_up_bounds(1) [of "unat s"] s H by (auto simp: heap_kept_def)
qed

text \<open>
  C20: \<open>calloc\<close> does not clear the block it returns: a block that was filled, given back and
  allocated again with \<open>calloc\<close> comes back at the same address with the old bytes in it.
\<close>

theorem calloc_returns_old_bytes:
  assumes "heap_inv m H L" "xmalloc m n = Some (p, m1)" "p \<noteq> 0"
    and "put_bytes m1 (unat p) xs = Some m2" "length xs \<le> unat n"
    and "xfree m2 p = Some m3" "calloc m3 1 n = Some (q, m4)" "q \<noteq> 0"
  shows "q = p \<and> get_bytes m4 (unat q) (length xs) = Some xs"
proof -
  have H: "127840 \<le> H" using assms(1) by (simp add: heap_inv_def)
  have pos: "0 < sint n" using assms(2,3) xmalloc_nonpos [of n m] by fastforce
  note r = round_arg [OF pos]
  from xmalloc_spec [OF assms(1) pos] assms(2,3)
  have m1: "p = of_nat H" "H + round_up 4 (unat n) \<le> length m1" "heap_inv m1 (H + round_up 4 (unat n)) H"
    by auto
  have uH: "unat p = H" using heap_addr(1) [OF m1(3) r(4) H] m1(1) by simp
  have i2: "heap_inv m2 (H + round_up 4 (unat n)) H"
    by (rule heap_inv_put [OF m1(3) assms(4)]) (use uH H in simp)
  from xfree_spec [OF i2 assms(3)] assms(6) uH
  have m3: "length m3 = length m2" "heap_kept m2 m3" "heap_inv m3 H 0" by auto
  note c = calloc_contents [OF m3(3) assms(7,8)]
  have l2: "length m2 = length m1" by (rule length_put_bytes [OF assms(4)])
  have len: "H + length xs \<le> length m2"
    using round_up_bounds(1) [of "unat n"] m1(2) l2 assms(5) by linarith
  have len4: "H + length xs \<le> length m4" using c assms(5) by simp
  have "m4 ! (H + i) = xs ! i" if "i < length xs" for i
  proof -
    have "m4 ! (H + i) = m3 ! (H + i)" using c that len len4 m3(1) by simp
    also have "\<dots> = m2 ! (H + i)" using m3(2) that len H by (simp add: heap_kept_def own_byte_def)
    also have "\<dots> = xs ! i" using nth_put_bytes [OF assms(4), of "H + i"] that len l2 uH by simp
    finally show ?thesis .
  qed
  then have "take (length xs) (drop H m4) = xs" using len4 by (intro nth_equalityI) auto
  moreover have "unat q = H" using c by simp
  moreover from this uH have "q = p" by (metis word_unat_eq_iff)
  ultimately show ?thesis using len4 by simp
qed

section \<open>Examples\<close>

text \<open>The module's memory at start, as far as the allocator sees it: the heap is empty.\<close>

definition initial_heap :: memory where
  "initial_heap = replicate 125436 0 @ le_bytes32 127840 @ le_bytes32 131072 @ replicate 5628 0"

lemma load32_at:
  assumes "take 4 (drop a m) = le_bytes32 v" "a + 4 \<le> length m"
  shows "load32 m a = Some v"
  unfolding load32_def get_bytes_in [OF assms(2)] by (simp add: assms(1) le_uint32_bytes)

lemma four_zeros: "replicate 4 0 = le_bytes32 0"
  by (simp add: le_bytes32_def numeral_eq_Suc)

lemma initial_heap_inv: "heap_inv initial_heap 127840 0"
proof -
  have len: "length initial_heap = 131072" unfolding initial_heap_def by simp
  have "drop 125436 initial_heap = le_bytes32 127840 @ le_bytes32 131072 @ replicate 5628 0"
    unfolding initial_heap_def by simp
  then have "load32 initial_heap 125436 = Some 127840" using len by (intro load32_at) simp_all
  moreover have "drop 125440 initial_heap = le_bytes32 131072 @ replicate 5628 0"
    unfolding initial_heap_def by simp
  then have "load32 initial_heap 125440 = Some 131072" using len by (intro load32_at) simp_all
  moreover have "drop 127524 initial_heap = replicate 3548 0"
    unfolding initial_heap_def by simp
  then have "load32 initial_heap 127524 = Some 0"
    using len four_zeros by (intro load32_at) simp_all
  ultimately show ?thesis using len by (simp add: heap_inv_def)
qed

lemma length_initial_heap: "length initial_heap = 131072"
  by (simp add: initial_heap_def)

lemma initial_malloc:
  "\<exists>m'. xmalloc initial_heap 100 = Some (127840, m') \<and> 127952 \<le> length m' \<and> heap_inv m' 127952 127840"
proof -
  have "round_up 4 (unat (100 :: u32)) = 112" by (simp add: round_up_def)
  with xmalloc_spec [OF initial_heap_inv, of 100] length_initial_heap show ?thesis by auto
qed

definition filled_heap :: memory where
  "filled_heap = the (put_bytes (snd (the (xmalloc initial_heap 100))) 127840 [1, 2, 3])"

theorem live_blocks_apart_witness:
  "apart_blocks [(127840, 112)] \<and> 127840 \<le> (127840 :: nat) \<and>
    127840 + 112 \<le> length filled_heap \<and> (16 :: nat) dvd 127840"
proof -
  obtain m' where m': "xmalloc initial_heap 100 = Some (127840, m')" "127952 \<le> length m'"
    using initial_malloc by blast
  have "heap_step (initial_heap, []) (m', [(127840, 112)])"
    using heap_step.malloc [OF m'(1), of "[]"] by (simp add: round_up_def)
  moreover have "put_bytes m' 127840 [1, 2, 3] = Some filled_heap"
    using m' by (simp add: filled_heap_def put_bytes_def)
  then have "heap_step (m', [(127840, 112)]) (filled_heap, [(127840, 112)])"
    by (intro heap_step.fill [of 127840 112]) auto
  ultimately have "heap_step\<^sup>*\<^sup>* (initial_heap, []) (filled_heap, [(127840, 112)])" by simp
  from live_blocks_apart [OF this initial_heap_inv] show ?thesis by simp
qed

theorem calloc_returns_old_bytes_witness:
  "\<exists>m3 m4 q. xfree filled_heap 127840 = Some m3 \<and> calloc m3 1 100 = Some (q, m4) \<and>
    q = 127840 \<and> get_bytes m4 (unat q) 3 = Some [1, 2, 3]"
proof -
  obtain m' where m': "xmalloc initial_heap 100 = Some (127840, m')" "127952 \<le> length m'"
    "heap_inv m' 127952 127840"
    using initial_malloc by blast
  have f: "put_bytes m' 127840 [1, 2, 3] = Some filled_heap"
    using m' by (simp add: filled_heap_def put_bytes_def)
  have i: "heap_inv filled_heap 127952 127840" by (rule heap_inv_put [OF m'(3) f]) simp
  from xfree_spec [OF i, of 127840] obtain m3 where m3: "xfree filled_heap 127840 = Some m3"
    "length m3 = length filled_heap" "heap_inv m3 127840 0" by auto
  have "(of_nat (unat (1 :: u32) * unat (100 :: u32)) :: u32) = 100" by simp
  then have c: "calloc m3 1 100 = xmalloc m3 100" by (simp add: calloc_malloc)
  have "round_up 4 (unat (100 :: u32)) = 112" by (simp add: round_up_def)
  with xmalloc_spec [OF m3(3), of 100] m'(2) m3(2) length_put_bytes [OF f]
  obtain m4 where m4: "calloc m3 1 100 = Some (127840, m4)" unfolding c by auto
  have three: "length [1, 2, 3 :: u8] = 3" by simp
  have "put_bytes m' (unat (127840 :: u32)) [1, 2, 3] = Some filled_heap" using f by simp
  from calloc_returns_old_bytes [OF initial_heap_inv m'(1) _ this _ m3(1) m4]
  have "get_bytes m4 (unat (127840 :: u32)) (length [1, 2, 3 :: u8]) = Some [1, 2, 3]"
    by (simp del: get_bytes_Some_iff)
  with m3(1) m4 show ?thesis unfolding three by blast
qed

theorem realloc_keeps_contents_witness:
  "\<exists>q m'. realloc filled_heap 127840 200 = Some (q, m') \<and> q \<noteq> 0 \<and>
    get_bytes m' (unat q) 112 = get_bytes filled_heap (unat (127840 :: u32)) 112"
proof -
  obtain m' where m': "xmalloc initial_heap 100 = Some (127840, m')" "127952 \<le> length m'"
    "heap_inv m' 127952 127840"
    using initial_malloc by blast
  have f: "put_bytes m' 127840 [1, 2, 3] = Some filled_heap"
    using m' by (simp add: filled_heap_def put_bytes_def)
  have i: "heap_inv filled_heap 127952 127840" by (rule heap_inv_put [OF m'(3) f]) simp
  have "round_up 4 (unat (200 :: u32)) = 208" by (simp add: round_up_def)
  with realloc_last [OF i, of 127840 200] obtain m1 where r: "realloc filled_heap 127840 200 = Some (127840, m1)"
    by auto
  from realloc_keeps_contents [OF i _ _ _ _ r, of 112] r show ?thesis by (simp add: min_def)
qed

section \<open>The interface\<close>

text \<open>
  What a client relies on: an allocation fails and changes nothing, or returns a block at the
  heap's first free address \<open>H\<close>, and everything below stays.
\<close>

locale bump_allocator =
  fixes alloc :: "memory \<Rightarrow> u32 \<Rightarrow> (u32 \<times> memory) option"
    and heap :: "memory \<Rightarrow> nat \<Rightarrow> nat \<Rightarrow> bool"
  assumes alloc_returns: "heap m H L \<Longrightarrow> 0 < sint n \<Longrightarrow>
      alloc m n = Some (0, m) \<or>
      (\<exists>p m' H'. alloc m n = Some (p, m') \<and> p \<noteq> 0 \<and> unat p = H \<and> H + unat n \<le> H' \<and>
        heap_kept m m' \<and> heap m' H' H)"
    and heap_bounds: "heap m H L \<Longrightarrow> 127528 \<le> H \<and> H \<le> length m \<and> length m \<le> 2 ^ 32"
    and heap_write: "heap m H L \<Longrightarrow> put_bytes m i xs = Some m' \<Longrightarrow> 127528 \<le> i \<Longrightarrow> heap m' H L"
begin

lemma alloc_total: "heap m H L \<Longrightarrow> 0 < sint n \<Longrightarrow> \<exists>p m'. alloc m n = Some (p, m')"
  using alloc_returns by blast

lemma alloc_block:
  assumes "heap m H L" "0 < sint n" "alloc m n = Some (p, m')" "p \<noteq> 0"
  shows "unat p = H \<and> heap_kept m m' \<and> (\<exists>H'. H + unat n \<le> H' \<and> heap m' H' H)"
  using alloc_returns [OF assms(1,2)] assms(3,4) by auto

text \<open>A string below the heap pointer survives every allocation.\<close>

lemma alloc_keeps_string:
  assumes "heap m H L" "0 < sint n" "alloc m n = Some (p, m')"
    and s: "cstr_at m q s" "127528 \<le> q" "q + length s < H"
  shows "cstr_at m' q s"
proof (cases "p = 0")
  case True
  with alloc_returns [OF assms(1,2)] assms(3) have "m' = m" by auto
  with s show ?thesis by simp
next
  case False
  with alloc_block [OF assms(1-3)] have k: "heap_kept m m'" by blast
  have "m' ! i = m ! i" if "q \<le> i" "i < length m" for i
    using k that s(2) by (simp add: heap_kept_def own_byte_def)
  moreover have "q + length s < length m" "length m \<le> length m'"
    using s(1) k by (simp_all add: cstr_at_def heap_kept_def)
  ultimately have "take (length s) (drop q m') = take (length s) (drop q m)" "m' ! (q + length s) = m ! (q + length s)"
    by (auto intro!: nth_equalityI)
  with s k show ?thesis by (auto simp: cstr_at_def heap_kept_def)
qed

text \<open>A string stored in a new block with its terminator reads back.\<close>

lemma alloc_string:
  assumes "heap m H L" "alloc m (of_nat (length s + 1)) = Some (p, m1)" "p \<noteq> 0"
    and "0 \<notin> set s" "length s + 1 < 2 ^ 31"
  shows "\<exists>m2 H'. put_bytes m1 (unat p) (s @ [0]) = Some m2 \<and> cstr_at m2 (unat p) s \<and>
    unat p = H \<and> H + length s < H' \<and> heap m2 H' H"
proof -
  have n: "unat (of_nat (length s + 1) :: u32) = length s + 1"
    using assms(5) by (intro unat_of_nat_small) simp
  have "sint (word_of_int (int (length s + 1)) :: u32) = int (length s + 1)"
    using assms(5) by (intro sint_of_range) simp_all
  then have "0 < sint (of_nat (length s + 1) :: u32)" by simp
  from alloc_block [OF assms(1) this assms(2,3)] n obtain H' where
    p: "unat p = H" and H': "H + (length s + 1) \<le> H'" "heap m1 H' H" by auto
  have b: "H + (length s + 1) \<le> length m1" "127528 \<le> H"
    using heap_bounds [OF H'(2)] heap_bounds [OF assms(1)] H'(1) by auto
  obtain m2 where m2: "put_bytes m1 (unat p) (s @ [0]) = Some m2"
    using b p by (auto simp: put_bytes_def)
  have "drop (unat p) m2 = s @ 0 # drop (unat p + (length s + 1)) m1"
    using m2 b p by (auto simp: put_bytes_def)
  then have "cstr_at m2 (unat p) s" using assms(4) by (auto simp: cstr_at_drop)
  moreover have "heap m2 H' H" by (rule heap_write [OF H'(2) m2]) (use b p in simp)
  ultimately show ?thesis
    using m2 p H'(1) by (intro exI [of _ m2] exI [of _ H']) auto
qed

end

interpretation bump: bump_allocator xmalloc heap_inv
proof unfold_locales
  fix m H L and n :: u32
  assume inv: "heap_inv m H L" and n: "0 < sint n"
  have H: "127840 \<le> H" using inv by (simp add: heap_inv_def)
  show "xmalloc m n = Some (0, m) \<or> (\<exists>p m' H'. xmalloc m n = Some (p, m') \<and> p \<noteq> 0 \<and> unat p = H \<and>
      H + unat n \<le> H' \<and> heap_kept m m' \<and> heap_inv m' H' H)"
    using xmalloc_spec [OF inv n]
  proof
    assume "\<exists>m'. xmalloc m n = Some (of_nat H, m') \<and> H + round_up 4 (unat n) \<le> length m' \<and>
      heap_kept m m' \<and> heap_inv m' (H + round_up 4 (unat n)) H"
    then obtain m' where "xmalloc m n = Some (of_nat H, m')" "heap_kept m m'"
      and i: "heap_inv m' (H + round_up 4 (unat n)) H" by blast
    moreover have "H + unat n \<le> H + round_up 4 (unat n)" using round_up_bounds(1) by simp
    ultimately show ?thesis using heap_addr [OF i round_arg(4) [OF n] H] by blast
  qed simp
qed (simp add: heap_inv_def, rule heap_inv_put)

end
