(* ===== verification/Go_Compile.thy ===== *)
theory Go_Compile
  imports Go_Program Alloc
begin

text \<open>
  \<open>Compile\<close> of \<open>filter.go\<close>: the options, the filter string handed to the module, the module's
  compiler \<open>Xbpf_compile\<close>, which is a parameter here, its error paths (a negative result, or a
  Go panic raised by the \<open>longjmp\<close> replacement and recovered), and the packet buffer.
\<close>

section \<open>Strings for the module\<close>

definition ascii :: "string \<Rightarrow> u8 list" where
  "ascii s = map of_char s"

text \<open>\<open>env.mkcstr\<close>; a result \<open>None\<close> inside is the error \<open>out of wasm memory\<close>.\<close>

definition mkcstr :: "memory \<Rightarrow> u8 list \<Rightarrow> (u32 option \<times> memory) option" where
  "mkcstr m b =
     do {
       (ptr, m) \<leftarrow> xmalloc m (of_nat (length b + 1));
       if ptr = 0 then Some (None, m)
       else do {
         _ \<leftarrow> slice m (unat ptr) (length m);
         m \<leftarrow> set_index (copy_at m (unat ptr) b) (unat (ptr + of_nat (length b))) 0;
         Some (Some ptr, m)
       }
     }"

definition xbpf_errbuf :: "memory \<Rightarrow> u32 option" where
  "xbpf_errbuf m =
     do {
       v1 \<leftarrow> load32 m 127828;
       if v1 = 0 then Some 127568
       else do {
         t2 \<leftarrow> load8 m (unat (v1 + 148));
         if t2 = 0 then Some 127568
         else do {
           t3 \<leftarrow> load32 m 127828;
           Some (t3 + 148)
         }
       }
     }"

section \<open>Compile\<close>

text \<open>\<open>Options\<close>; Go's \<open>int\<close> has 64 bits. The two lookup functions are part of the module's environment.\<close>

record options =
  link_type :: u64
  opt_snaplen :: u64
  netmask :: ip_addr
  optimize :: bool

text \<open>How a call into the module ends: it returns, or it panics with a \<open>panicErr\<close> or otherwise.\<close>

datatype 'a outcome = Returned 'a | PcapPanic "u8 list" memory | OtherPanic

datatype compile_result = Compiled filter_program | Failed "u8 list"

definition link_type_arg :: "options \<Rightarrow> u32" where
  "link_type_arg opts = (if link_type opts \<noteq> 0 then ucast (link_type opts) else 1)"

definition snaplen_arg :: "options \<Rightarrow> u32" where
  "snaplen_arg opts = (if opt_snaplen opts \<noteq> 0 then ucast (opt_snaplen opts) else 65535)"

definition netmask_arg :: "options \<Rightarrow> u32 option" where
  "netmask_arg opts = (case netmask opts of Ip4 b \<Rightarrow> be_uint32 b | _ \<Rightarrow> Some 0xffffffff)"

text \<open>
  The body after the filter string is in place. The deferred \<open>free\<close> runs first on every way
  out, then the deferred function that recovers from the panic and reads the error buffer.
\<close>

definition compile_with ::
  "(u32 \<Rightarrow> u32 \<Rightarrow> u32 \<Rightarrow> u32 \<Rightarrow> u32 \<Rightarrow> memory \<Rightarrow> (u32 \<times> u32 \<times> memory) outcome) \<Rightarrow>
    (memory \<Rightarrow> nat) \<Rightarrow> options \<Rightarrow> u32 \<Rightarrow> memory \<Rightarrow> (compile_result \<times> memory) option" where
  "compile_with xbpf_compile mem_cap opts str m =
     do {
       nmask \<leftarrow> netmask_arg opts;
       case xbpf_compile (link_type_arg opts) (snaplen_arg opts) str
           (if optimize opts then 1 else 0) nmask m of
         OtherPanic \<Rightarrow> None
       | PcapPanic msg m \<Rightarrow> do {
           m \<leftarrow> xfree m str;
           buf \<leftarrow> xbpf_errbuf m;
           s \<leftarrow> cstr m (mem_cap m) buf;
           Some (Failed (if s = [] then msg else s), m)
         }
       | Returned (n, ptr, m) \<Rightarrow>
           if sint n < 0 then do {
             buf \<leftarrow> xbpf_errbuf m;
             s \<leftarrow> cstr m (mem_cap m) buf;
             m \<leftarrow> xfree m str;
             Some (Failed s, m)
           }
           else do {
             (pkt, m) \<leftarrow> xmalloc m (snaplen_arg opts);
             m \<leftarrow> xfree m str;
             Some (if pkt = 0 then Failed (ascii ''out of wasm memory'')
                   else Compiled \<lparr>prog_n = n, prog_ptr = ptr, prog_pkt = pkt, prog_snaplen = snaplen_arg opts\<rparr>, m)
           }
     }"

definition compile_filter ::
  "(u32 \<Rightarrow> u32 \<Rightarrow> u32 \<Rightarrow> u32 \<Rightarrow> u32 \<Rightarrow> memory \<Rightarrow> (u32 \<times> u32 \<times> memory) outcome) \<Rightarrow>
    (memory \<Rightarrow> nat) \<Rightarrow> memory \<Rightarrow> u8 list \<Rightarrow> options \<Rightarrow> (compile_result \<times> memory) option" where
  "compile_filter xbpf_compile mem_cap m expr opts =
     do {
       (r, m) \<leftarrow> mkcstr m expr;
       case r of
         None \<Rightarrow> Some (Failed (ascii ''out of wasm memory''), m)
       | Some str \<Rightarrow> compile_with xbpf_compile mem_cap opts str m
     }"

section \<open>The filter string\<close>

lemma set_last_put:
  "a + length b < length m \<Longrightarrow>
    put_bytes m a (b @ [c]) = Some ((copy_at m a b)[a + length b := c])"
  by (simp add: put_bytes_def copy_at_def Let_def list_update_append Cons_nth_drop_Suc [symmetric])

text \<open>
  C22: A filter string without a zero byte arrives in the module as that C string, in a block of
  its own at the heap's first free address, or the allocation fails and nothing changes;
  \<open>mkcstr\<close> never panics.
\<close>

theorem mkcstr_round_trip:
  assumes "heap_inv m H L" "0 \<notin> set b" "length b + 1 < 2 ^ 31"
  shows "mkcstr m b = Some (None, m) \<or>
    (\<exists>ptr m' H'. mkcstr m b = Some (Some ptr, m') \<and> unat ptr = H \<and> cstr_at m' (unat ptr) b \<and>
      H + length b < H' \<and> heap_inv m' H' H)"
proof -
  have "sint (word_of_int (int (length b + 1)) :: u32) = int (length b + 1)"
    using assms(3) by (intro sint_of_range) simp_all
  then have n: "0 < sint (of_nat (length b + 1) :: u32)" by simp
  obtain p m1 where a: "xmalloc m (of_nat (length b + 1)) = Some (p, m1)"
    using bump.alloc_total [OF assms(1) n] by blast
  show ?thesis
  proof (cases "p = 0")
    case True
    with bump.alloc_returns [OF assms(1) n] a have "m1 = m" by auto
    with a True show ?thesis by (simp add: mkcstr_def)
  next
    case False
    from bump.alloc_string [OF assms(1) a False assms(2,3)] obtain m2 H' where
      m2: "put_bytes m1 (unat p) (b @ [0]) = Some m2" "cstr_at m2 (unat p) b" "unat p = H"
        "H + length b < H'" "heap_inv m2 H' H" by blast
    have len: "unat p + length b < length m1" using m2(1) by (auto simp: put_bytes_def split: if_splits)
    have "length m1 \<le> 2 ^ 32" using m2(5) length_put_bytes [OF m2(1)] by (simp add: heap_inv_def)
    with len have "unat (p + of_nat (length b)) = unat p + length b" by (intro unat_offset) simp
    then have "mkcstr m b = Some (Some p, m2)"
      using a False len m2(1) set_last_put [OF len, of 0]
      by (simp add: mkcstr_def slice_def set_index_def)
    with m2 show ?thesis by blast
  qed
qed

theorem mkcstr_round_trip_witness:
  "mkcstr initial_heap (ascii ''tcp'') = Some (None, initial_heap) \<or>
    (\<exists>ptr m' H'. mkcstr initial_heap (ascii ''tcp'') = Some (Some ptr, m') \<and> unat ptr = 127840 \<and>
      cstr_at m' (unat ptr) (ascii ''tcp'') \<and> 127840 + length (ascii ''tcp'') < H' \<and>
      heap_inv m' H' 127840)"
  by (rule mkcstr_round_trip [OF initial_heap_inv]) (simp_all add: ascii_def)


section \<open>Errors\<close>

lemma xfree_kept:
  assumes "heap_inv m H L"
  shows "\<exists>m'. xfree m p = Some m' \<and> heap_kept m m' \<and> length m' = length m"
proof (cases "p = 0")
  case True
  with assms show ?thesis by (auto simp: xfree_def heap_inv_def)
next
  case False
  from xfree_spec [OF assms this] show ?thesis
    using heap_kept_refl [of m] assms by (auto simp: heap_inv_def)
qed

lemma cstr_at_kept:
  assumes "heap_kept m m'" "cstr_at m a s" "127528 \<le> a"
  shows "cstr_at m' a s"
proof -
  have len: "a + length s < length m" "length m \<le> length m'"
    using assms(1,2) by (simp_all add: cstr_at_def heap_kept_def)
  then have "take (length s) (drop a m') = take (length s) (drop a m)" "m' ! (a + length s) = m ! (a + length s)"
    using assms(1,3) by (auto simp: heap_kept_def own_byte_def intro!: nth_equalityI)
  with assms(2) len show ?thesis by (simp add: cstr_at_def)
qed

lemma xbpf_errbuf_handle:
  assumes "load32 m 127828 = Some hdl" "hdl \<noteq> 0" "cstr_at m (unat (hdl + 148)) s" "s \<noteq> []"
  shows "xbpf_errbuf m = Some (hdl + 148)"
proof -
  obtain c s' where s: "s = c # s'" using assms(4) by (cases s) auto
  have "load8 m (unat (hdl + 148)) = Some (ucast c)" "c \<noteq> 0"
    using cstr_at_ConsD [OF assms(3) [unfolded s]] by auto
  with assms(1,2) show ?thesis by (simp add: xbpf_errbuf_def)
qed

text \<open>
  C18: When the module's compiler gives up with a panic, \<open>Compile\<close> frees the filter string and
  returns the message in the error buffer of the current pcap handle; with no message there it
  returns the panic's own.
\<close>

theorem compile_recovers_panic:
  assumes "netmask_arg opts = Some nmask"
    and "xbpf_compile (link_type_arg opts) (snaplen_arg opts) str (if optimize opts then 1 else 0) nmask m =
      PcapPanic msg m1"
    and inv: "heap_inv m1 H L" "length m1 < 2 ^ 32" "\<And>m. length m \<le> mem_cap m"
    and handle: "load32 m1 127828 = Some hdl" "hdl \<noteq> 0" "127528 \<le> unat (hdl + 148)"
      "cstr_at m1 (unat (hdl + 148)) s" "s \<noteq> []"
  shows "\<exists>m'. compile_with xbpf_compile mem_cap opts str m = Some (Failed s, m') \<and> heap_kept m1 m'"
proof -
  obtain m2 where m2: "xfree m1 str = Some m2" "heap_kept m1 m2" "length m2 = length m1"
    using xfree_kept [OF inv(1)] by blast
  have at: "cstr_at m2 (unat (hdl + 148)) s" by (rule cstr_at_kept [OF m2(2) handle(4,3)])
  have "load32 m2 127828 = Some hdl"
    using load32_cong [OF heap_kept_get [OF m2(2), of 127828 4]] handle(1) inv(1)
    by (simp add: heap_inv_def)
  from xbpf_errbuf_handle [OF this handle(2) at handle(5)] have buf: "xbpf_errbuf m2 = Some (hdl + 148)" .
  have "cstr m2 (mem_cap m2) (hdl + 148) = Some s"
    by (rule cstr_reads [OF at]) (use m2(3) inv(2) inv(3) [of m2] in simp_all)
  with buf m2 handle(5) assms(1,2) show ?thesis by (simp add: compile_with_def)
qed

section \<open>A compiled program\<close>

text \<open>
  What the module's compiler promises when it succeeds: a program of 1 to 3060000 instructions
  in the heap, below the heap pointer.
\<close>

definition compiled_at :: "memory \<Rightarrow> u32 \<Rightarrow> raw_instruction list \<Rightarrow> nat \<Rightarrow> nat \<Rightarrow> bool" where
  "compiled_at m ptr prog H L \<longleftrightarrow>
     heap_inv m H L \<and> 1 \<le> length prog \<and> length prog \<le> 3060000 \<and> prog_at m (unat ptr) prog \<and>
     127840 \<le> unat ptr \<and> unat ptr + 8 * length prog \<le> H"

lemma prog_at_kept:
  assumes "heap_kept m m'" "prog_at m p prog" "127528 \<le> p"
  shows "prog_at m' p prog"
proof -
  have len: "p + 8 * length prog \<le> length m" "length m \<le> length m'"
    using assms(1,2) by (simp_all add: prog_at_def heap_kept_def)
  have nth: "m' ! i = m ! i" if "p \<le> i" "i < length m" for i
    using assms(1,3) that by (auto simp: heap_kept_def own_byte_def)
  have "insn_at m' (p + 8 * i) = Some (prog ! i)" if i: "i < length prog" for i
  proof -
    have b: "p + 8 * i + 8 \<le> length m" using i len(1) by simp
    have g: "get_bytes m' (p + 8 * i + j) k = get_bytes m (p + 8 * i + j) k" if "j + k \<le> 8" for j k
      using that b assms(3) by (intro heap_kept_get [OF assms(1)]) simp_all
    have x: "index m' (p + 8 * i + j) = index m (p + 8 * i + j)" if "j < 8" for j
      using nth [of "p + 8 * i + j"] that b len by (simp add: index_def)
    have "insn_at m' (p + 8 * i) = insn_at m (p + 8 * i)"
      using g [of 0 2] g [of 4 4] x [of 2] x [of 3] by (simp add: insn_at_def load16_def load32_def)
    with assms(2) i show ?thesis by (simp add: prog_at_def)
  qed
  with len show ?thesis by (simp add: prog_at_def)
qed

lemma xfree_heap:
  assumes "heap_inv m H L" "unat p < L"
  shows "xfree m p = Some m"
proof (cases "p = 0")
  case False
  from xfree_spec [OF assms(1) this] assms(2) show ?thesis by auto
qed (simp add: xfree_def)

lemma compiled_runs:
  assumes "netmask_arg opts = Some nmask"
    and "xbpf_compile (link_type_arg opts) (snaplen_arg opts) str (if optimize opts then 1 else 0) nmask m =
      Returned (of_nat (length prog), ptr, m1)"
    and "compiled_at m1 ptr prog H L" "unat str < H"
    and "0 < sint (snaplen_arg opts)" "H + unat (snaplen_arg opts) < 2 ^ 31 - 16"
  shows "\<exists>p m'. compile_with xbpf_compile mem_cap opts str m = Some (Compiled p, m') \<and> loaded m' 65536 p prog \<and>
      program_instructions m' p = Some prog \<and>
      (\<forall>pkt. \<exists>v m''. bpf_verdict prog (take (unat (snaplen_arg opts)) pkt) (of_nat (length pkt)) = Some v \<and>
        program_match m' 65536 p pkt = Some (v \<noteq> 0, m''))"
proof -
  have c: "heap_inv m1 H L" "1 \<le> length prog" "length prog \<le> 3060000" "prog_at m1 (unat ptr) prog"
    "127840 \<le> unat ptr" "unat ptr + 8 * length prog \<le> H"
    using assms(3) by (simp_all add: compiled_at_def)
  have H: "127840 \<le> H" using c(1) by (simp add: heap_inv_def)
  have n: "\<not> sint (of_nat (length prog) :: u32) < 0"
    using c(3) by (subst sint_small) (simp_all add: unat_of_nat)
  note r = round_arg [OF assms(5)]
  have "H + round_up 4 (unat (snaplen_arg opts)) \<le> 2 ^ 32"
    using assms(6) round_up_bounds(2) [of "unat (snaplen_arg opts)"] by simp
  with xmalloc_spec [OF c(1) assms(5)] obtain m2 where m2: "xmalloc m1 (snaplen_arg opts) = Some (of_nat H, m2)"
    "H + round_up 4 (unat (snaplen_arg opts)) \<le> length m2" "heap_kept m1 m2"
    "heap_inv m2 (H + round_up 4 (unat (snaplen_arg opts))) H" by auto
  note a = heap_addr [OF m2(4) r(4) H]
  define p where "p = \<lparr>prog_n = of_nat (length prog), prog_ptr = ptr, prog_pkt = of_nat H,
    prog_snaplen = snaplen_arg opts\<rparr>"
  have "xfree m2 str = Some m2" by (rule xfree_heap [OF m2(4) assms(4)])
  then have ok: "compile_with xbpf_compile mem_cap opts str m = Some (Compiled p, m2)"
    using assms(1,2) n m2(1) a(2) by (simp add: compile_with_def p_def)
  have prog2: "prog_at m2 (unat ptr) prog" by (rule prog_at_kept [OF m2(3) c(4)]) (use c(5) in simp)
  have len: "H + unat (snaplen_arg opts) \<le> length m2" "length m2 \<le> 2 ^ 32"
    using m2(2,4) round_up_bounds(1) [of "unat (snaplen_arg opts)"] by (auto simp: heap_inv_def)
  have "filter_layout m2 65536 ptr prog (of_nat H) []"
    using c prog2 len H assms(6) a(1) by (simp add: filter_layout_def bytes_at_def apart_def)
  then have L: "loaded m2 65536 p prog"
    using c len H assms(6) a(1) by (simp add: loaded_def p_def apart_def)
  have "\<exists>v m''. bpf_verdict prog (take (unat (snaplen_arg opts)) pkt) (of_nat (length pkt)) = Some v \<and>
      program_match m2 65536 p pkt = Some (v \<noteq> 0, m'')" for pkt
    using loaded_match [OF L, of pkt] by (auto simp: p_def)
  with loaded_instructions [OF L order_refl] ok L show ?thesis by blast
qed

text \<open>
  C7: \<open>Compile\<close> from end to end: when the module's compiler succeeds and the packet buffer fits the address
  space, \<open>Compile\<close> succeeds: the result is a loaded program whose \<open>Instructions\<close> are what the compiler
  wrote, and \<open>Match\<close> on any packet answers with the verdict of exactly these instructions.
\<close>

theorem compiled_program_matches:
  assumes "netmask_arg opts = Some nmask"
    and "xbpf_compile (link_type_arg opts) (snaplen_arg opts) str (if optimize opts then 1 else 0) nmask m =
      Returned (of_nat (length prog), ptr, m1)"
    and "compiled_at m1 ptr prog H L" "unat str < H"
    and "0 < sint (snaplen_arg opts)" "H + unat (snaplen_arg opts) < 2 ^ 31 - 16"
  shows "\<exists>p m'. compile_with xbpf_compile mem_cap opts str m = Some (Compiled p, m') \<and> loaded m' 65536 p prog \<and>
      program_instructions m' p = Some prog \<and>
      (\<forall>pkt. \<exists>v m''. bpf_verdict prog (take (unat (snaplen_arg opts)) pkt) (of_nat (length pkt)) = Some v \<and>
        program_match m' 65536 p pkt = Some (v \<noteq> 0, m''))"
  using compiled_runs [where xbpf_compile = xbpf_compile and mem_cap = mem_cap, OF assms] .

section \<open>Examples\<close>

text \<open>The default options, and a compiler that writes the program \<open>ret #0\<close> after the initial heap.\<close>

definition default_options :: options where
  "default_options = \<lparr>link_type = 0, opt_snaplen = 0, netmask = NoAddr, optimize = True\<rparr>"


lemma default_args:
  "link_type_arg default_options = 1" "snaplen_arg default_options = 65535"
  "netmask_arg default_options = Some 0xffffffff"
  by (simp_all add: default_options_def link_type_arg_def snaplen_arg_def netmask_arg_def)

text \<open>A heap with a pcap handle at 127840 whose error buffer holds the string \<open>bad\<close>.\<close>

definition error_heap :: memory where
  "error_heap = the (put_bytes (the (put_bytes initial_heap 127828 (le_bytes32 127840)))
     127988 (ascii ''bad'' @ [0]))"

lemma error_heap_props:
  "heap_inv error_heap 127840 0" "length error_heap = 131072" "load32 error_heap 127828 = Some 127840"
  "cstr_at error_heap 127988 (ascii ''bad'')"
proof -
  obtain m1 where m1: "put_bytes initial_heap 127828 (le_bytes32 127840) = Some m1"
    by (simp add: put_bytes_def length_initial_heap)
  have l1: "length m1 = 131072" using length_put_bytes [OF m1] length_initial_heap by simp
  have bad: "length (ascii ''bad'' @ [0]) = 4" by (simp add: ascii_def)
  obtain m2 where m2: "put_bytes m1 127988 (ascii ''bad'' @ [0]) = Some m2"
    using l1 bad by (simp only: put_bytes_def) simp
  have e: "error_heap = m2" by (simp add: error_heap_def m1 m2)
  show "length error_heap = 131072" unfolding e using length_put_bytes [OF m2] l1 by simp
  show "heap_inv error_heap 127840 0"
    unfolding e by (rule heap_inv_put [OF heap_inv_put [OF initial_heap_inv m1] m2]) simp_all
  have "load32 m1 127828 = Some 127840"
    using load32_store32 [of initial_heap 127828 127840 m1] m1 by (simp add: store32_def)
  moreover have "load32 m2 127828 = load32 m1 127828"
    by (rule load32_cong [OF get_put_disjoint [OF m2]]) simp
  ultimately show "load32 error_heap 127828 = Some 127840" unfolding e by simp
  have "drop 127988 m2 = ascii ''bad'' @ 0 # drop 127992 m1"
    using m2 l1 bad by (auto simp: put_bytes_def split: if_splits)
  then show "cstr_at error_heap 127988 (ascii ''bad'')"
    unfolding e cstr_at_drop by (auto simp: ascii_def)
qed

theorem compile_recovers_panic_witness:
  "\<exists>m'. compile_with (\<lambda>_ _ _ _ _ _. PcapPanic [] error_heap) (\<lambda>m. length m) default_options 0 initial_heap =
    Some (Failed (ascii ''bad''), m') \<and> heap_kept error_heap m'"
  by (rule compile_recovers_panic [where hdl = 127840 and H = 127840 and L = 0 and msg = "[]"])
    (simp_all add: default_args error_heap_props, simp add: ascii_def)

definition reject_all :: raw_instruction where
  "reject_all = \<lparr>Op = 6, Jt = 0, Jf = 0, K = 0\<rparr>"

definition compiled_heap :: memory where
  "compiled_heap = the (put_bytes (snd (the (xmalloc initial_heap 100))) 127840 (instr_bytes reject_all))"

lemma compiled_heap_program: "compiled_at compiled_heap 127840 [reject_all] 127952 127840"
proof -
  obtain m' where m': "xmalloc initial_heap 100 = Some (127840, m')" "127952 \<le> length m'"
    "heap_inv m' 127952 127840"
    using initial_malloc by blast
  have p: "put_bytes m' 127840 (instr_bytes reject_all) = Some compiled_heap"
    using m' by (simp add: compiled_heap_def put_bytes_def)
  then have c: "compiled_heap = take 127840 m' @ instr_bytes reject_all @ drop 127848 m'"
    using m'(2) by (simp add: put_bytes_def)
  have "drop 127840 compiled_heap = instr_bytes reject_all @ drop 127848 m'"
    unfolding c using m'(2) by simp
  then have "insn_at compiled_heap 127840 = Some reject_all" by (rule instr_bytes_at)
  moreover have "heap_inv compiled_heap 127952 127840" by (rule heap_inv_put [OF m'(3) p]) simp
  moreover have "127952 \<le> length compiled_heap" using length_put_bytes [OF p] m'(2) by simp
  ultimately show ?thesis by (simp add: compiled_at_def prog_at_simps)
qed

theorem compiled_program_matches_witness:
  "\<exists>p m'. compile_with (\<lambda>_ _ _ _ _ _. Returned (1, 127840, compiled_heap)) (\<lambda>m. length m) default_options 0 initial_heap =
      Some (Compiled p, m') \<and> program_instructions m' p = Some [reject_all] \<and>
    (\<exists>m''. program_match m' 65536 p [1, 2] = Some (False, m''))"
proof -
  have d: "decode_op 6 = Some RetK" by (simp add: opcode_table_decode opcode_table_def)
  have v: "bpf_verdict [reject_all] pkt 2 = Some 0" for pkt
  proof -
    have "run (bpf_step [reject_all] pkt 2) (Suc 0) bpf_init = Some 0"
      by (simp add: bpf_step_def bpf_init_def reject_all_def d)
    from run_mono [OF this, of "bpf_fuel (length [reject_all])"] show ?thesis by (simp add: bpf_verdict_def bpf_fuel_def)
  qed
  from compiled_program_matches [OF default_args(3) _ compiled_heap_program, of
      "\<lambda>_ _ _ _ _ _. Returned (1, 127840, compiled_heap)" 0 initial_heap "\<lambda>m. length m"]
  obtain p m' where p: "compile_with (\<lambda>_ _ _ _ _ _. Returned (1, 127840, compiled_heap)) (\<lambda>m. length m) default_options 0 initial_heap =
      Some (Compiled p, m')" "program_instructions m' p = Some [reject_all]"
    "\<And>pkt. \<exists>v m''. bpf_verdict [reject_all] (take (unat (snaplen_arg default_options)) pkt) (of_nat (length pkt)) = Some v \<and>
        program_match m' 65536 p pkt = Some (v \<noteq> 0, m'')"
    by (auto simp: default_args)
  from p(3) [of "[1, 2]"] have "\<exists>m''. program_match m' 65536 p [1, 2] = Some (False, m'')"
    using v by (auto simp: default_args)
  with p(1,2) show ?thesis by blast
qed

end
