(* ===== verification/Errors.thy ===== *)
theory Errors
  imports Wasm_Memory
begin

text \<open>
  How the transpiled libpcap reports errors: \<open>_bpf_set_error\<close> and \<open>_bpf_error\<close> of the filter
  compiler, \<open>_opt_error\<close> of the optimizer, and the two \<open>__pcap_longjmp_at\<close> functions that leave
  the module with a Go panic (\<open>internal/bpf.go\<close>). A function that may leave this way returns a
  \<open>jump\<close>.
\<close>

section \<open>Leaving the module\<close>

text \<open>
  \<open>Env_panic p m\<close>: \<open>__env_panic\<close> was called with the address \<open>p\<close> of a message, in the memory
  \<open>m\<close>; the host panics with the message, so nothing of the module runs after it. \<open>Trap\<close> is a
  run-time panic (an index out of range).
\<close>

datatype 'a jump = Ret 'a | Env_panic u32 memory | Trap

definition lift :: "'a option \<Rightarrow> 'a jump" where
  "lift x = (case x of None \<Rightarrow> Trap | Some v \<Rightarrow> Ret v)"

fun jump_bind :: "'a jump \<Rightarrow> ('a \<Rightarrow> 'b jump) \<Rightarrow> 'b jump" where
  "jump_bind (Ret v) f = f v"
| "jump_bind (Env_panic p m) f = Env_panic p m"
| "jump_bind Trap f = Trap"

lemma lift_simps [simp]: "lift None = Trap" "lift (Some v) = Ret v"
  by (simp_all add: lift_def)

lemma jump_bind_assoc: "jump_bind (jump_bind x f) g = jump_bind x (\<lambda>v. jump_bind (f v) g)"
  by (cases x) auto

lemma jump_bind_Ret [simp]: "jump_bind x Ret = x"
  by (cases x) auto

lemma jump_bind_eq_Ret: "jump_bind x f = Ret r \<longleftrightarrow> (\<exists>v. x = Ret v \<and> f v = Ret r)"
  by (cases x) auto

section \<open>Error messages\<close>

text \<open>
  \<open>_bpf_set_error\<close>: the first error of a compilation is formatted into the error buffer of the
  handle. \<open>vsnprintf sp m dst size fmt args\<close> is the formatter, run with the stack pointer \<open>sp\<close>;
  it restores the stack pointer, so only the memory comes back.
\<close>

type_synonym formatter = "u32 \<Rightarrow> memory \<Rightarrow> u32 \<Rightarrow> u32 \<Rightarrow> u32 \<Rightarrow> u32 \<Rightarrow> memory option"

definition bpf_set_error ::
  "formatter \<Rightarrow> u32 \<Rightarrow> memory \<Rightarrow> u32 \<Rightarrow> u32 \<Rightarrow> u32 \<Rightarrow> memory option" where
  "bpf_set_error vsnprintf sp m v0 v1 v2 =
     (let v3 = sp - 16
      in do {
        t1 \<leftarrow> load32 m (unat v0 + 8);
        if t1 = 0 then do {
          m \<leftarrow> store32 m (unat v3 + 12) v2;
          t2 \<leftarrow> load32 m (unat v0 + 4);
          m \<leftarrow> vsnprintf v3 m (t2 + 148) 256 v1 v2;
          store32 m (unat v0 + 8) 1
        }
        else Some m
      })"

text \<open>
  \<open>__pcap_longjmp_at\<close> and \<open>__pcap_longjmp_at_145\<close>, one for each of the two source files: the
  message with the place of the jump goes to a static buffer, then the host is called.
\<close>

definition longjmp_at :: "u32 \<Rightarrow> u32 \<Rightarrow> formatter \<Rightarrow> u32 \<Rightarrow> memory \<Rightarrow> u32 \<Rightarrow> u32 \<Rightarrow> 'a jump" where
  "longjmp_at buf src_file snprintf sp m v0 v1 =
     (let v2 = sp - 16
      in jump_bind (lift (do {
           m \<leftarrow> store32 m (unat v2 + 8) v1;
           m \<leftarrow> store32 m (unat v2 + 4) src_file;
           m \<leftarrow> store32 m (unat v2) v0;
           snprintf v2 m buf 256 70703 v2
         }))
         (Env_panic buf))"

definition pcap_longjmp_at :: "formatter \<Rightarrow> u32 \<Rightarrow> memory \<Rightarrow> u32 \<Rightarrow> u32 \<Rightarrow> 'a jump" where
  "pcap_longjmp_at = longjmp_at 125456 71067"

definition pcap_longjmp_at_145 :: "formatter \<Rightarrow> u32 \<Rightarrow> memory \<Rightarrow> u32 \<Rightarrow> u32 \<Rightarrow> 'a jump" where
  "pcap_longjmp_at_145 = longjmp_at 127008 71008"

definition bpf_error :: "formatter \<Rightarrow> formatter \<Rightarrow> u32 \<Rightarrow> memory \<Rightarrow> u32 \<Rightarrow> u32 \<Rightarrow> u32 \<Rightarrow> 'a jump" where
  "bpf_error vsnprintf snprintf sp m v0 v1 v2 =
     (let v3 = sp - 16
      in jump_bind (lift (do {
           m \<leftarrow> store32 m (unat v3 + 12) v2;
           t1 \<leftarrow> load32 m (unat v0 + 4);
           vsnprintf v3 m (t1 + 148) 256 v1 v2
         }))
         (\<lambda>m. pcap_longjmp_at snprintf v3 m 67507 763))"

definition opt_error :: "formatter \<Rightarrow> formatter \<Rightarrow> u32 \<Rightarrow> memory \<Rightarrow> u32 \<Rightarrow> u32 \<Rightarrow> u32 \<Rightarrow> 'a jump" where
  "opt_error vsnprintf snprintf sp m v0 v1 v2 =
     (let v3 = sp - 16
      in jump_bind (lift (do {
           t1 \<leftarrow> load32 m (unat v0 + 4);
           if t1 \<noteq> 0 then do {
             m \<leftarrow> store32 m (unat v3 + 12) v2;
             t2 \<leftarrow> load32 m (unat v0 + 4);
             vsnprintf v3 m t2 256 v1 v2
           }
           else Some m
         }))
         (\<lambda>m. pcap_longjmp_at_145 snprintf v3 m 67497 0x999))"

text \<open>None of them ever comes back.\<close>

lemma errors_never_return [simp]:
  "longjmp_at buf fl sn sp m a b \<noteq> Ret r" "pcap_longjmp_at sn sp m a b \<noteq> Ret r"
  "pcap_longjmp_at_145 sn sp m a b \<noteq> Ret r"
  "bpf_error vs sn sp m h fmt args \<noteq> Ret r" "opt_error vs sn sp m h fmt args \<noteq> Ret r"
proof -
  show l: "longjmp_at buf fl sn sp m a b \<noteq> Ret r" for buf fl sp m a b r
    by (auto simp: longjmp_at_def Let_def jump_bind_eq_Ret)
  then show "pcap_longjmp_at sn sp m a b \<noteq> Ret r" "pcap_longjmp_at_145 sn sp m a b \<noteq> Ret r"
    by (simp_all add: pcap_longjmp_at_def pcap_longjmp_at_145_def)
  show "bpf_error vs sn sp m h fmt args \<noteq> Ret r" "opt_error vs sn sp m h fmt args \<noteq> Ret r"
    by (auto simp: bpf_error_def opt_error_def Let_def jump_bind_eq_Ret pcap_longjmp_at_def
      pcap_longjmp_at_145_def l)
qed

end
