(* ===== verification/Nametoaddr.thy ===== *)
theory Nametoaddr
  imports Libc Errors
begin

text \<open>
  The readers of names, addresses and numbers that the filter compiler calls on the tokens of a
  filter expression (\<open>_pcap_nametoeproto\<close>, \<open>_pcap_nametollc\<close>, \<open>_pcapint_atoin\<close>,
  \<open>_pcapint_atodn\<close>, \<open>_pcapint_atoan\<close>, \<open>_str2tok\<close>, \<open>_stoulen\<close>, \<open>_stou\<close> of
  \<open>internal/bpf.go\<close>), each against the notation it reads. An early return of a loop is \<open>None\<close>
  inside the \<open>Some\<close> of a run without panic.
\<close>

section \<open>Tables of names\<close>

text \<open>The loop at \<open>l0\<close>: \<open>v1\<close> walks the values, \<open>v2\<close> is the name of the current entry.\<close>

partial_function (option) nametoeproto_loop ::
  "memory \<Rightarrow> u32 \<Rightarrow> u32 \<Rightarrow> u32 \<Rightarrow> u32 option" where
  "nametoeproto_loop m v0 v1 v2 =
     do {
       t1 \<leftarrow> strcmp m v2 v0;
       if t1 = 0 then map_option ucast (load16 m (unat v1))
       else do {
         t4 \<leftarrow> load32 m (unat v1 + 4);
         if t4 \<noteq> 0 then nametoeproto_loop m v0 (v1 + 8) t4 else Some (- 1)
       }
     }"

definition nametoeproto :: "memory \<Rightarrow> u32 \<Rightarrow> u32 option" where
  "nametoeproto m v0 =
     do {
       t0 \<leftarrow> load32 m 125312;
       if t0 \<noteq> 0 then nametoeproto_loop m v0 125316 t0 else Some (- 1)
     }"

definition nametollc :: "memory \<Rightarrow> u32 \<Rightarrow> u32 option" where
  "nametollc m v0 =
     (let found = (\<lambda>p1 :: u32. map_option ucast (load16 m (unat p1 + 4)))
      in do {
        t2 \<leftarrow> strcmp m 68027 v0;
        if t2 = 0 then found 75056
        else do {
          t3 \<leftarrow> strcmp m 67678 v0;
          if t3 = 0 then found 75064
          else do {
            t4 \<leftarrow> strcmp m 65642 v0;
            if t4 = 0 then found 75072
            else do {
              t5 \<leftarrow> strcmp m 69231 v0;
              if t5 \<noteq> 0 then Some (- 1) else found 75080
            }
          }
        }
      })"

text \<open>The loop at \<open>l1\<close>; the result is the entry that matched, \<open>None\<close> at the end of the table.\<close>

partial_function (option) str2tok_loop ::
  "memory \<Rightarrow> u32 \<Rightarrow> u32 \<Rightarrow> u32 \<Rightarrow> u32 option option" where
  "str2tok_loop m v0 v1 v3 =
     do {
       t1 \<leftarrow> pcapint_strcasecmp m v3 v0;
       if t1 \<noteq> 0 then do {
         t3 \<leftarrow> load32 m (unat v1 + 12);
         if t3 \<noteq> 0 then str2tok_loop m v0 (v1 + 8) t3 else Some None
       }
       else Some (Some v1)
     }"

definition str2tok :: "memory \<Rightarrow> u32 \<Rightarrow> u32 \<Rightarrow> u32 option" where
  "str2tok m v0 v1 =
     do {
       t0 \<leftarrow> load32 m (unat v1 + 4);
       if t0 = 0 then Some (- 1)
       else do {
         r \<leftarrow> str2tok_loop m v0 v1 t0;
         case r of
           None \<Rightarrow> Some (- 1)
         | Some v1 \<Rightarrow> do {
             v2 \<leftarrow> load32 m (unat v1);
             if v2 \<noteq> - 1 then Some v2 else None
           }
       }
     }"

section \<open>Addresses\<close>

text \<open>\<open>int32(int8(v))\<close>.\<close>

definition sext8 :: "u32 \<Rightarrow> u32" where
  "sext8 v = scast (ucast v :: u8)"

text \<open>The loop at \<open>l1\<close> of \<open>_pcapint_atoin\<close>: one number, up to a dot or the end.\<close>

partial_function (option) atoin_part :: "memory \<Rightarrow> u32 \<Rightarrow> u32 \<Rightarrow> (u32 \<times> u32) option option" where
  "atoin_part m v0 v2 =
     do {
       v5 \<leftarrow> load8 m (unat v0);
       if v5 = 0 then Some (Some (v0, v2))
       else if v5 = 46 then Some (Some (v0, v2))
       else if v2 > 25 then Some None
       else atoin_part m (v0 + 1) (sext8 v5 + v2 * 10 - 48)
     }"

partial_function (option) atoin_loop ::
  "memory \<Rightarrow> u32 \<Rightarrow> u32 \<Rightarrow> u32 \<Rightarrow> u32 \<Rightarrow> (memory \<times> u32) option" where
  "atoin_loop m v0 v1 v3 v4 =
     do {
       r \<leftarrow> atoin_part m v0 0;
       case r of
         None \<Rightarrow> Some (m, - 1)
       | Some (v0, v2) \<Rightarrow>
           if v2 > 255 then Some (m, - 1)
           else do {
             let v4 = push_bit 8 v4 OR v2;
             m \<leftarrow> store32 m (unat v1) v4;
             let v3 = v3 + 8;
             t2 \<leftarrow> load8 m (unat v0);
             let v0 = v0 + 1;
             if t2 \<noteq> 0 then atoin_loop m v0 v1 v3 v4 else Some (m, v3)
           }
     }"

definition atoin :: "memory \<Rightarrow> u32 \<Rightarrow> u32 \<Rightarrow> (memory \<times> u32) option" where
  "atoin m v0 v1 = do { m \<leftarrow> store32 m (unat v1) 0; atoin_loop m v0 v1 0 0 }"

text \<open>\<open>_pcapint_atodn\<close>: the area number (\<open>l1\<close>), then the node number (\<open>l2\<close>).\<close>

partial_function (option) atodn_area :: "memory \<Rightarrow> u32 \<Rightarrow> u32 \<Rightarrow> (u32 \<times> u32) option option" where
  "atodn_area m v2 v3 =
     do {
       v0 \<leftarrow> load8 m (unat (v2 - 2));
       if v0 = 0 then Some None
       else if v0 \<noteq> 46 then
         (if (v0 - 48) AND 255 > 9 then Some None
          else
            (let v2 = v2 + 1; v3 = sext8 v0 + v3 * 10 - 48
             in if v3 < 64 then atodn_area m v2 v3 else Some None))
       else Some (Some (v2, v3))
     }"

partial_function (option) atodn_node :: "memory \<Rightarrow> u32 \<Rightarrow> u32 \<Rightarrow> u32 option option" where
  "atodn_node m v2 v4 =
     do {
       v0 \<leftarrow> load8 m (unat v2);
       if v0 \<noteq> 0 then
         (if (v0 - 48) AND 255 > 9 then Some None
          else
            (let v2 = v2 + 1; v4 = v4 * 10 + v0 - 48
             in if v4 < 1024 then atodn_node m v2 v4 else Some None))
       else Some (Some v4)
     }"

definition atodn :: "memory \<Rightarrow> u32 \<Rightarrow> u32 \<Rightarrow> (memory \<times> u32) option" where
  "atodn m v0 v1 =
     do {
       v2 \<leftarrow> load8 m (unat v0);
       if v2 = 0 then Some (m, 0)
       else if (v2 - 48) AND 255 > 9 then Some (m, 0)
       else do {
         r \<leftarrow> atodn_area m (v0 + 3) ((v2 - 48) AND 255);
         case r of
           None \<Rightarrow> Some (m, 0)
         | Some (v2, v3) \<Rightarrow> do {
             v0 \<leftarrow> load8 m (unat (v2 - 1));
             if v0 = 0 then Some (m, 0)
             else if (v0 - 48) AND 255 > 9 then Some (m, 0)
             else do {
               r \<leftarrow> atodn_node m v2 ((v0 - 48) AND 255);
               case r of
                 None \<Rightarrow> Some (m, 0)
               | Some v4 \<Rightarrow> do {
                   m \<leftarrow> store16 m (unat v1) (ucast (push_bit 10 v3 OR v4));
                   Some (m, 1)
                 }
             }
           }
       }
     }"

text \<open>The hexadecimal digit that \<open>_pcapint_atoan\<close> decodes twice; \<open>None\<close> is its \<open>goto l0\<close>.\<close>

definition atoan_digit :: "u32 \<Rightarrow> u32 option" where
  "atoan_digit v2 =
     (let v3 = v2 - 48
      in if v3 AND 255 < 10 then Some v3
         else if (v2 - 65) AND 255 \<ge> 6 then
           (if (v2 - 97) AND 255 > 5 then None else Some (v2 - 87))
         else Some (v2 - 55))"

definition atoan :: "memory \<Rightarrow> u32 \<Rightarrow> u32 \<Rightarrow> (memory \<times> u32) option" where
  "atoan m v0 v1 =
     (let done = (\<lambda>v3. do { m \<leftarrow> store8 m (unat v1) v3; Some (m, 1) })
      in do {
        t0 \<leftarrow> load8 m (unat v0);
        if t0 \<noteq> 36 then Some (m, 0)
        else do {
          v2 \<leftarrow> load8 m (unat v0 + 1);
          if v2 = 0 then Some (m, 0)
          else case atoan_digit v2 of
            None \<Rightarrow> Some (m, 0)
          | Some v3 \<Rightarrow> do {
              v2 \<leftarrow> load8 m (unat v0 + 2);
              if v2 \<noteq> 0 then
                (case atoan_digit v2 of
                   None \<Rightarrow> Some (m, 0)
                 | Some v4 \<Rightarrow> do {
                     t3 \<leftarrow> load8 m (unat v0 + 3);
                     if t3 \<noteq> 0 then Some (m, 0) else done (v4 OR push_bit 4 v3)
                   })
              else done v3
            }
        }
      })"

section \<open>Numbers\<close>

text \<open>
  The overflow report of \<open>_stoulen\<close>: the arguments of the message are stored at \<open>args\<close>, in the
  frame \<open>v5\<close>, \<open>args + 4\<close> and \<open>args + 8\<close>.
\<close>

definition stoulen_overflow ::
  "formatter \<Rightarrow> u32 \<Rightarrow> nat \<Rightarrow> u32 \<Rightarrow> memory \<Rightarrow> u32 \<Rightarrow> u32 \<Rightarrow> u32 \<Rightarrow> (memory \<times> u32) option" where
  "stoulen_overflow vsnprintf v5 args base m v0 v1 v3 =
     do {
       m \<leftarrow> store32 m (unat v5 + args + 8) v0;
       m \<leftarrow> store32 m (unat v5 + args + 4) v1;
       m \<leftarrow> store32 m (unat v5 + args) base;
       m \<leftarrow> bpf_set_error vsnprintf v5 m v3 66463 (v5 + of_nat args);
       Some (m, 4)
     }"

text \<open>
  The loops at \<open>l3\<close>, \<open>l5\<close> and \<open>l6\<close>. The result is the value (\<open>Inl\<close>, the jump to \<open>l0\<close>), or the
  memory and the code of the jump to \<open>l1\<close> (\<open>Inr\<close>).
\<close>

partial_function (option) stoulen_dec ::
  "formatter \<Rightarrow> u32 \<Rightarrow> memory \<Rightarrow> u32 \<Rightarrow> u32 \<Rightarrow> u32 \<Rightarrow> u32 \<Rightarrow> u32 \<Rightarrow> (u32 + memory \<times> u32) option"
where
  "stoulen_dec vsnprintf v5 m v0 v1 v3 v4 v6 =
     do {
       v7 \<leftarrow> load8 m (unat (v0 + v6));
       if (v7 - 48) AND 255 > 9 then Some (Inr (m, 3))
       else if v4 \<le> 0x19999999 \<and> (v4 \<noteq> 0x19999999 \<or> v7 < 54) then
         (let v4 = v4 * 10 + v7 - 48; t3 = v1; v6 = v6 + 1
          in if t3 \<noteq> v6 then stoulen_dec vsnprintf v5 m v0 v1 v3 v4 v6 else Some (Inl v4))
       else map_option Inr (stoulen_overflow vsnprintf v5 32 68913 m v0 v1 v3)
     }"

definition stoulen_hex_bias :: "u32 \<Rightarrow> u32 option" where
  "stoulen_hex_bias v7 =
     (if (v7 - 48) AND 255 < 10 then Some (- 48)
      else if (v7 - 97) AND 255 < 6 then Some (- 87)
      else if (v7 - 65) AND 255 > 5 then None
      else Some (- 55))"

partial_function (option) stoulen_hex ::
  "formatter \<Rightarrow> u32 \<Rightarrow> memory \<Rightarrow> u32 \<Rightarrow> u32 \<Rightarrow> u32 \<Rightarrow> u32 \<Rightarrow> u32 \<Rightarrow> (u32 + memory \<times> u32) option"
where
  "stoulen_hex vsnprintf v5 m v0 v1 v3 v4 v6 =
     do {
       t6 \<leftarrow> load8 m (unat (v0 + v6));
       let v7 = sext8 t6;
       case stoulen_hex_bias v7 of
         None \<Rightarrow> Some (Inr (m, 1))
       | Some v9 \<Rightarrow>
           if v4 \<ge> 0x10000000 then
             map_option Inr (stoulen_overflow vsnprintf v5 16 68909 m v0 v1 v3)
           else
             (let v4 = v7 + v9 + push_bit 4 v4; t8 = v1; v6 = v6 + 1
              in if t8 \<noteq> v6 then stoulen_hex vsnprintf v5 m v0 v1 v3 v4 v6 else Some (Inl v4))
     }"

partial_function (option) stoulen_oct ::
  "formatter \<Rightarrow> u32 \<Rightarrow> memory \<Rightarrow> u32 \<Rightarrow> u32 \<Rightarrow> u32 \<Rightarrow> u32 \<Rightarrow> u32 \<Rightarrow> (u32 + memory \<times> u32) option"
where
  "stoulen_oct vsnprintf v5 m v0 v1 v3 v4 v6 =
     do {
       v7 \<leftarrow> load8 m (unat (v0 + v6));
       if v7 AND 248 \<noteq> 48 then Some (Inr (m, 2))
       else if v4 \<ge> 0x20000000 then
         map_option Inr (stoulen_overflow vsnprintf v5 0 68848 m v0 v1 v3)
       else
         (let v4 = ((v7 - 48) AND 255) OR push_bit 3 v4; t10 = v1; v6 = v6 + 1
          in if t10 \<noteq> v6 then stoulen_oct vsnprintf v5 m v0 v1 v3 v4 v6 else Some (Inl v4))
     }"

definition stoulen ::
  "formatter \<Rightarrow> u32 \<Rightarrow> memory \<Rightarrow> u32 \<Rightarrow> u32 \<Rightarrow> u32 \<Rightarrow> u32 \<Rightarrow> (memory \<times> u32) option"
where
  "stoulen vsnprintf sp m v0 v1 v2 v3 =
     (let v5 = sp - 48
      in do {
        r \<leftarrow>
          (if v1 = 0 then Some (Inl 0)
           else do {
             t1 \<leftarrow> load8 m (unat v0);
             if t1 \<noteq> 48 then stoulen_dec vsnprintf v5 m v0 v1 v3 0 0
             else if v1 = 1 then Some (Inl 0)
             else do {
               t4 \<leftarrow> load8 m (unat v0 + 1);
               if t4 OR 32 = 120 then
                 (if v1 = 2 then Some (Inl 0)
                  else stoulen_hex vsnprintf v5 m v0 v1 v3 0 2)
               else stoulen_oct vsnprintf v5 m v0 v1 v3 0 1
             }
           });
        case r of
          Inl v4 \<Rightarrow> do { m \<leftarrow> store32 m (unat v2) v4; Some (m, 0) }
        | Inr (m, v8) \<Rightarrow> Some (m, v8)
      })"

text \<open>The reports at \<open>l0\<close>, \<open>l1\<close> and \<open>l2\<close> of \<open>_stou\<close>: the string is the argument of the message.\<close>

definition stou_report ::
  "formatter \<Rightarrow> u32 \<Rightarrow> u32 \<Rightarrow> u32 \<Rightarrow> memory \<Rightarrow> nat \<Rightarrow> u32 \<Rightarrow> (memory \<times> u32) option" where
  "stou_report vsnprintf v3 v0 v2 m args fmt =
     do {
       m \<leftarrow> store32 m (unat v3 + args) v0;
       m \<leftarrow> bpf_set_error vsnprintf v3 m v2 fmt (v3 + of_nat args);
       Some (m, 376)
     }"

text \<open>\<open>_stou\<close> turns the code into the token NUM (292) or the token of a lexical error (376).\<close>

definition stou ::
  "formatter \<Rightarrow> u32 \<Rightarrow> memory \<Rightarrow> u32 \<Rightarrow> u32 \<Rightarrow> u32 \<Rightarrow> (memory \<times> u32) option" where
  "stou vsnprintf sp m v0 v1 v2 =
     (let v3 = sp - 48
      in do {
        t1 \<leftarrow> strlen m v0;
        (m, t2) \<leftarrow> stoulen vsnprintf v3 m v0 t1 v1 v2;
        if t2 = 1 then stou_report vsnprintf v3 v0 v2 m 16 66272
        else if t2 = 2 then stou_report vsnprintf v3 v0 v2 m 0 66305
        else if t2 = 3 then stou_report vsnprintf v3 v0 v2 m 32 66340
        else if t2 = 4 then Some (m, 376)
        else Some (m, 292)
      })"

section \<open>Comparison callbacks\<close>

definition uint32_t_cmp :: "memory \<Rightarrow> u32 \<Rightarrow> u32 \<Rightarrow> u32 option" where
  "uint32_t_cmp m v0 v1 =
     do {
       v0 \<leftarrow> load32 m (unat v0);
       v1 \<leftarrow> load32 m (unat v1);
       let p3 = (if v0 > v1 then 1 else 0);
       let p4 = (if v0 < v1 then 1 else 0);
       Some (p3 - p4)
     }"

definition in6_addr_cmp :: "memory \<Rightarrow> u32 \<Rightarrow> u32 \<Rightarrow> u32 option" where
  "in6_addr_cmp m v0 v1 = memcmp m v0 v1 16"

section \<open>Digits\<close>

lemma byte_difference:
  fixes v :: u32 and c :: u8
  shows "(v - ucast c) AND 255 = ucast ((ucast v :: u8) - c)"
proof -
  have "(uint v - uint c mod 4294967296) mod 256 = (uint v mod 256 - uint c) mod 256"
    by (rule mod_diff_cong) (simp_all add: mod_mod_cancel)
  then have "take_bit 8 (v - ucast c) = ucast ((ucast v :: u8) - c)"
    by (intro word_uint_eqI) (simp add: uint_word_ariths uint_mod_distrib unsigned_ucast_eq
      take_bit_eq_mod mod_mod_cancel del: of_nat_unat)
  then show ?thesis unfolding mask_8 by (simp only: take_bit_eq_mask)
qed

lemma ucast_u8_u32_u8 [simp]: "ucast (ucast (b :: u8) :: u32) = b"
  by (rule bit_word_eqI) (simp add: bit_simps)

lemma ucast_sext8 [simp]: "(ucast (sext8 (ucast (b :: u8))) :: u8) = b"
proof (rule bit_word_eqI)
  fix n assume "n < LENGTH(8)"
  then show "bit (ucast (sext8 (ucast b)) :: u8) n = bit b n"
    by (cases "n = 7") (auto simp: sext8_def bit_simps min_def)
qed

lemma unat_sub_byte:
  "unat ((b :: u8) - c) = (if c \<le> b then unat b - unat c else unat b + 256 - unat c)"
  using unat_sub_if' [of b c] by (simp add: word_le_nat_alt)

definition is_digit :: "u8 \<Rightarrow> bool" where
  "is_digit b \<longleftrightarrow> 48 \<le> b \<and> b \<le> 57"

definition digit :: "u8 \<Rightarrow> nat" where
  "digit b = unat b - 48"

lemma digit_less: "is_digit b \<Longrightarrow> digit b < 10"
  by (auto simp: is_digit_def digit_def word_le_nat_alt)

lemma digit_test: "9 < ((ucast (b :: u8) :: u32) - 48) AND 255 \<longleftrightarrow> \<not> is_digit b"
  using byte_difference [of "ucast b" 48] unat_u8_less [of b]
  by (auto simp: is_digit_def word_less_nat_alt word_le_nat_alt unat_sub_byte)

lemma digit_value: "is_digit b \<Longrightarrow> ((ucast b :: u32) - 48) AND 255 = of_nat (digit b)"
proof -
  assume "is_digit b"
  then have "unat (b - 48) = digit b"
    by (auto simp: is_digit_def digit_def word_le_nat_alt unat_sub_byte)
  moreover have "(ucast (b - 48) :: u32) = of_nat (unat (b - 48))" by simp
  ultimately show ?thesis using byte_difference [of "ucast b" 48] by (simp del: of_nat_unat)
qed

lemma digit_char: "is_digit b \<Longrightarrow> (ucast b :: u32) = of_nat (digit b) + 48"
  using unat_u8_less [of b]
  by (auto simp: is_digit_def digit_def word_unat_eq_iff word_le_nat_alt unat_word_ariths unat_of_nat)

lemma digit_ascii: "is_digit b \<Longrightarrow> b < 128"
  by (auto simp: is_digit_def word_less_nat_alt word_le_nat_alt)

lemma bit_less_power: "unat x < 2 ^ k \<Longrightarrow> \<forall>n. bit x n \<longrightarrow> n < k"
  by (metis bit_take_bit_iff bit_unsigned_iff take_bit_nat_eq_self unsigned_take_bit_eq word_unat_eq_iff)

lemma sext8_ascii: "b < 128 \<Longrightarrow> sext8 (ucast b) = ucast (b :: u8)"
proof (rule bit_word_eqI)
  fix n assume "b < 128"
  then have "\<forall>n. bit b n \<longrightarrow> n < 7" using bit_less_power [of b 7] by (simp add: word_less_nat_alt)
  moreover assume "n < LENGTH(32)"
  ultimately show "bit (sext8 (ucast b)) n = bit (ucast b :: u32) n"
    by (cases "n < 7") (auto simp: sext8_def bit_simps min_def)
qed

text \<open>The value of a number in decimal, read on from \<open>n\<close>.\<close>

definition decimal_from :: "nat \<Rightarrow> u8 list \<Rightarrow> nat" where
  "decimal_from n ds = foldl (\<lambda>n d. n * 10 + digit d) n ds"

abbreviation decimal :: "u8 list \<Rightarrow> nat" where
  "decimal \<equiv> decimal_from 0"

lemma decimal_from_simps [simp]:
  "decimal_from n [] = n" "decimal_from n (d # ds) = decimal_from (n * 10 + digit d) ds"
  by (simp_all add: decimal_from_def)

lemma decimal_from_mono: "n \<le> decimal_from n ds"
proof (induction ds arbitrary: n)
  case (Cons d ds)
  from Cons [of "n * 10 + digit d"] show ?case by simp
qed simp

text \<open>One digit read into a 32-bit value, in the two ways the code writes it.\<close>

lemma read_digit:
  assumes "is_digit d"
  shows "sext8 (ucast d) + of_nat n * 10 - 48 = of_nat (n * 10 + digit d)"
    "(of_nat n * 10 + ucast d - 48 :: u32) = of_nat (n * 10 + digit d)"
proof -
  have "sext8 (ucast d) = of_nat (digit d) + 48"
    using sext8_ascii [OF digit_ascii [OF assms]] digit_char [OF assms] by metis
  then show "sext8 (ucast d) + of_nat n * 10 - 48 = of_nat (n * 10 + digit d)" by simp
  show "(of_nat n * 10 + ucast d - 48 :: u32) = of_nat (n * 10 + digit d)"
    unfolding digit_char [OF assms] by simp
qed

lemma of_nat_less_u32: "n < 2 ^ 32 \<Longrightarrow> (of_nat n :: u32) < k \<longleftrightarrow> n < unat k"
  "n < 2 ^ 32 \<Longrightarrow> (k :: u32) < of_nat n \<longleftrightarrow> unat k < n"
  by (simp_all add: word_less_nat_alt unat_of_nat_small)

section \<open>\<open>_pcapint_atoin\<close>\<close>

text \<open>The strings between the separators \<open>c\<close>.\<close>

fun split_on :: "u8 \<Rightarrow> u8 list \<Rightarrow> u8 list list" where
  "split_on c [] = [[]]"
| "split_on c (b # bs) =
     (if b = c then [] # split_on c bs
      else (case split_on c bs of [] \<Rightarrow> [[b]] | p # ps \<Rightarrow> (b # p) # ps))"

lemma split_on_not_Nil [simp]: "split_on c s \<noteq> []"
  by (cases s) (auto split: list.splits)

lemma split_on_prefix: "c \<notin> set p \<Longrightarrow> split_on c (p @ c # s) = p # split_on c s"
  by (induction p) auto

lemma split_on_last: "c \<notin> set p \<Longrightarrow> split_on c p = [p]"
  by (induction p) auto

lemma atoin_part_reads:
  assumes "list_all is_digit ds" "cstr_at m (unat p) (ds @ s)" "s = [] \<or> hd s = 46"
    "length m \<le> 2 ^ 32" "n < 260"
  shows "\<exists>r. atoin_part m p (of_nat n) = Some r \<and>
    (case r of None \<Rightarrow> 255 < decimal_from n ds
     | Some (a, v) \<Rightarrow> a = p + of_nat (length ds) \<and> v = of_nat (decimal_from n ds) \<and>
         decimal_from n ds < 260)"
  using assms
proof (induction ds arbitrary: p n)
  case Nil
  have "load8 m (unat p) = Some 0 \<or> load8 m (unat p) = Some 46"
  proof (cases s)
    case Nil
    with Nil.prems show ?thesis by (simp add: cstr_at_Nil load8_def)
  next
    case (Cons b s')
    with Nil.prems cstr_at_ConsD(2) [of m "unat p" b s'] show ?thesis by simp
  qed
  with Nil.prems show ?case by (subst atoin_part.simps) auto
next
  case (Cons d ds)
  from Cons.prems have d: "is_digit d" "list_all is_digit ds" by auto
  have c: "cstr_at m (unat p) (d # (ds @ s))" using Cons.prems by simp
  note l = cstr_at_ConsD [OF c]
  have p: "unat (p + 1) = Suc (unat p)"
    using c Cons.prems(4) unat_offset [of p 1] by (auto simp: cstr_at_def)
  have d46: "(ucast d :: u32) \<noteq> 46" "(ucast d :: u32) \<noteq> 0"
    using d(1) l(1) ucast_u8_eq_iff [of d 46] by (auto simp: is_digit_def)
  show ?case
  proof (cases "25 < n")
    case True
    have "255 < decimal_from (n * 10 + digit d) ds"
      using True decimal_from_mono [of "n * 10 + digit d" ds] by linarith
    moreover have "(25 :: u32) < of_nat n" using True Cons.prems by (simp add: of_nat_less_u32)
    ultimately show ?thesis using l d46 by (subst atoin_part.simps) simp
  next
    case False
    then have "\<not> (25 :: u32) < of_nat n" using Cons.prems by (simp add: of_nat_less_u32)
    then have "atoin_part m p (of_nat n) = atoin_part m (p + 1) (of_nat (n * 10 + digit d))"
      using l d46 read_digit(1) [OF d(1), of n]
      by (subst atoin_part.simps) (simp del: of_nat_add of_nat_mult)
    moreover have "n * 10 + digit d < 260" using False digit_less [OF d(1)] by simp
    moreover from this obtain r where
      "atoin_part m (p + 1) (of_nat (n * 10 + digit d)) = Some r"
      "case r of None \<Rightarrow> 255 < decimal_from (n * 10 + digit d) ds
       | Some (a, v) \<Rightarrow> a = p + 1 + of_nat (length ds) \<and>
           v = of_nat (decimal_from (n * 10 + digit d) ds) \<and>
           decimal_from (n * 10 + digit d) ds < 260"
      using Cons.IH [of "p + 1" "n * 10 + digit d"] d(2) l(3) Cons.prems p
      by (auto simp del: of_nat_add of_nat_mult)
    ultimately show ?thesis by (cases r) (auto simp: add.assoc)
  qed
qed


lemma cstr_at_suffix: "cstr_at m p (s @ t) \<Longrightarrow> cstr_at m (p + length s) t"
proof (induction s arbitrary: p)
  case (Cons b s)
  then have "cstr_at m (Suc p) (s @ t)" using cstr_at_ConsD(3) by simp
  with Cons.IH show ?case by fastforce
qed simp

text \<open>A string that a store does not touch is still there.\<close>

lemma cstr_at_outside:
  "same_outside m m' q n \<Longrightarrow> p + length s < q \<or> q + n \<le> p \<Longrightarrow> cstr_at m p s \<Longrightarrow> cstr_at m' p s"
  using same_outside_take_drop [of m m' q n p "length s"]
  by (auto simp: cstr_at_def same_outside_def)

text \<open>The packed address of the parts read so far.\<close>

definition pack_parts :: "u32 \<Rightarrow> nat list \<Rightarrow> u32" where
  "pack_parts w ns = foldl (\<lambda>w n. push_bit 8 w OR of_nat n) w ns"

lemma pack_parts_simps [simp]:
  "pack_parts w [] = w" "pack_parts w (n # ns) = pack_parts (push_bit 8 w OR of_nat n) ns"
  by (simp_all add: pack_parts_def)

lemma atoin_loop_reads:
  assumes "list_all (\<lambda>b. is_digit b \<or> b = 46) s" "cstr_at m (unat p) s"
    "length m \<le> 2 ^ 32" "unat q + 4 \<le> length m"
    "unat p + length s < unat q \<or> unat q + 4 \<le> unat p"
  shows "\<exists>m'. atoin_loop m p q k w =
      Some (m', if list_all (\<lambda>n. n \<le> 255) (map decimal (split_on 46 s))
                then k + of_nat (8 * length (split_on 46 s)) else - 1) \<and>
    same_outside m m' (unat q) 4 \<and>
    (list_all (\<lambda>n. n \<le> 255) (map decimal (split_on 46 s)) \<longrightarrow>
      load32 m' (unat q) = Some (pack_parts w (map decimal (split_on 46 s))))"
  using assms
proof (induction "length s" arbitrary: s m p k w rule: less_induct)
  case less
  define ds where "ds = takeWhile is_digit s"
  define t where "t = dropWhile is_digit s"
  have s: "s = ds @ t" by (simp add: ds_def t_def)
  have ds: "list_all is_digit ds" by (auto simp: ds_def list_all_iff dest: set_takeWhileD)
  have n46: "46 \<notin> set ds" using ds by (auto simp: list_all_iff is_digit_def)
  have t: "t = [] \<or> hd t = 46"
    using less.prems(1) hd_dropWhile [of is_digit s] unfolding t_def [symmetric]
    by (cases t) (auto simp: s)
  obtain r where r: "atoin_part m p 0 = Some r"
    "case r of None \<Rightarrow> 255 < decimal ds
     | Some (a, v) \<Rightarrow> a = p + of_nat (length ds) \<and> v = of_nat (decimal ds) \<and> decimal ds < 260"
    using atoin_part_reads [OF ds less.prems(2) [unfolded s] t less.prems(3), of 0] by auto
  have parts: "split_on 46 s = ds # (if t = [] then [] else split_on 46 (tl t))"
    using t n46 split_on_prefix [OF n46, of "tl t"] split_on_last [OF n46]
    by (cases t) (auto simp: s)
  show ?case
  proof (cases "255 < decimal ds")
    case True
    with r have "atoin_loop m p q k w = Some (m, - 1)"
      by (subst atoin_loop.simps) (auto simp: of_nat_less_u32 split: option.splits)
    with True show ?thesis by (simp add: parts not_le)
  next
    case False
    with r have r: "atoin_part m p 0 = Some (Some (p + of_nat (length ds), of_nat (decimal ds)))"
      by (auto split: option.splits)
    define w' where "w' = push_bit 8 w OR (of_nat (decimal ds) :: u32)"
    obtain m1 where m1: "store32 m (unat q) w' = Some m1"
      using store32_in [OF less.prems(4)] by blast
    have out: "same_outside m m1 (unat q) 4" by (rule store32_same_outside [OF m1]) auto
    have a: "unat (p + of_nat (length ds)) = unat p + length ds"
      using less.prems(2,3) by (intro unat_offset) (auto simp: cstr_at_def s)
    have t1: "cstr_at m1 (unat p + length ds) t"
      by (rule cstr_at_outside [OF out _ cstr_at_suffix])
        (use less.prems(2,5) in \<open>auto simp: s\<close>)
    have len: "length m1 = length m" using m1 by (rule length_store32)
    have step: "atoin_loop m p q k w = do {
        t2 \<leftarrow> load8 m1 (unat p + length ds);
        if t2 \<noteq> 0 then atoin_loop m1 (p + of_nat (length ds) + 1) q (k + 8) w' else Some (m1, k + 8)
      }"
      using r m1 False a
      by (subst atoin_loop.simps) (simp add: w'_def [symmetric] of_nat_less_u32 Let_def)
    show ?thesis
    proof (cases t)
      case Nil
      with t1 have "load8 m1 (unat p + length ds) = Some 0" by (simp add: cstr_at_Nil load8_def)
      with step Nil False out load32_store32 [OF m1] show ?thesis
        by (simp add: parts w'_def)
    next
      case (Cons c t')
      with t have c: "c = 46" by simp
      have t': "cstr_at m1 (unat p + length ds) (46 # t')" using t1 Cons c by simp
      note l = cstr_at_ConsD [OF t']
      have p': "unat (p + of_nat (length ds) + 1) = Suc (unat p + length ds)"
        using t' less.prems(3) len a unat_offset [of "p + of_nat (length ds)" 1]
        by (auto simp: cstr_at_def)
      have "atoin_loop m p q k w = atoin_loop m1 (p + of_nat (length ds) + 1) q (k + 8) w'"
        using step l(2) by simp
      moreover have "list_all (\<lambda>b. is_digit b \<or> b = 46) t'" "length t' < length s"
        "unat (p + of_nat (length ds) + 1) + length t' < unat q \<or>
          unat q + 4 \<le> unat (p + of_nat (length ds) + 1)"
        using less.prems(1,5) unfolding p' by (auto simp: s Cons)
      moreover have "split_on 46 s = ds # split_on 46 t'" using parts Cons by simp
      ultimately show ?thesis
        using less.hyps [of t' m1 "p + of_nat (length ds) + 1" "k + 8" w'] l(3) p' len less.prems(3,4)
          False same_outside_trans [OF out]
        by (auto simp: w'_def algebra_simps not_less)
    qed
  qed
qed

section \<open>\<open>_pcapint_atodn\<close>\<close>

text \<open>A DECnet address: an area below 64, a dot, a node below 1024, both in decimal.\<close>

definition decnet_address :: "u8 list \<Rightarrow> u16 option" where
  "decnet_address s =
     (let area = takeWhile is_digit s; rest = dropWhile is_digit s
      in case rest of
           [] \<Rightarrow> None
         | c # node \<Rightarrow>
             if c = 46 \<and> area \<noteq> [] \<and> node \<noteq> [] \<and> list_all is_digit node \<and>
                decimal area < 64 \<and> decimal node < 1024
             then Some (of_nat (decimal area * 1024 + decimal node)) else None)"

lemma load_end: "cstr_at m p [] \<Longrightarrow> load8 m p = Some 0"
  by (simp add: cstr_at_Nil load8_def)

lemma cstr_next:
  assumes "cstr_at m (unat (p :: u32)) (b # s)" "length m \<le> 2 ^ 32"
  shows "unat (p + 1) = Suc (unat p)"
  using assms unat_offset [of p 1] by (auto simp: cstr_at_def)

lemma load_digit:
  assumes "cstr_at m p (d # s)"
  shows "load8 m p = Some (ucast d)" "(ucast d :: u32) \<noteq> 0" "is_digit d \<Longrightarrow> (ucast d :: u32) \<noteq> 46"
    "cstr_at m (Suc p) s"
  using cstr_at_ConsD [OF assms] ucast_u8_eq_iff [of d 46] by (auto simp: is_digit_def)

lemma digit_word_le: "is_digit d \<Longrightarrow> \<not> (9 :: u32) < of_nat (digit d)"
  using digit_less [of d] by (simp add: of_nat_less_u32)

lemma atodn_area_reads:
  assumes "cstr_at m (unat p) s" "length m \<le> 2 ^ 32" "n < 64"
  shows "atodn_area m (p + 2) (of_nat n) =
    Some (let ds = takeWhile is_digit s
          in if dropWhile is_digit s \<noteq> [] \<and> hd (dropWhile is_digit s) = 46 \<and> decimal_from n ds < 64
             then Some (p + of_nat (length ds) + 2, of_nat (decimal_from n ds)) else None)"
  using assms
proof (induction s arbitrary: p n)
  case Nil
  then show ?case by (subst atodn_area.simps) (simp add: load_end)
next
  case (Cons d s)
  note l = load_digit [OF Cons.prems(1)]
  show ?case
  proof (cases "is_digit d")
    case True
    have n': "n * 10 + digit d < 2 ^ 32" using Cons.prems(3) digit_less [OF True] by simp
    have "atodn_area m (p + 2) (of_nat n) =
        (if n * 10 + digit d < 64 then atodn_area m (p + 1 + 2) (of_nat (n * 10 + digit d)) else Some None)"
      using l True read_digit(1) [OF True, of n] of_nat_less_u32(1) [OF n', of 64]
      by (subst atodn_area.simps) (simp add: Let_def digit_test del: of_nat_add of_nat_mult)
    moreover have "n * 10 + digit d \<le> decimal_from (n * 10 + digit d) (takeWhile is_digit s)"
      by (rule decimal_from_mono)
    ultimately show ?thesis
      using Cons.IH [of "p + 1" "n * 10 + digit d"] l cstr_next [OF Cons.prems(1,2)] True Cons.prems(2)
      by (auto simp: Let_def add.assoc)
  next
    case False
    then show ?thesis using l digit_test [of d] Cons.prems(3) ucast_u8_eq_iff [of d 46]
      by (subst atodn_area.simps) (auto simp: Let_def not_less is_digit_def)
  qed
qed

lemma atodn_node_reads:
  assumes "cstr_at m (unat p) s" "length m \<le> 2 ^ 32" "n < 1024"
  shows "atodn_node m p (of_nat n) =
    Some (if list_all is_digit s \<and> decimal_from n s < 1024 then Some (of_nat (decimal_from n s)) else None)"
  using assms
proof (induction s arbitrary: p n)
  case Nil
  then show ?case by (subst atodn_node.simps) (simp add: load_end)
next
  case (Cons d s)
  note l = load_digit [OF Cons.prems(1)]
  show ?case
  proof (cases "is_digit d")
    case True
    have n': "n * 10 + digit d < 2 ^ 32" using Cons.prems(3) digit_less [OF True] by simp
    have "atodn_node m p (of_nat n) =
        (if n * 10 + digit d < 1024 then atodn_node m (p + 1) (of_nat (n * 10 + digit d)) else Some None)"
      using l True read_digit(2) [OF True, of n] of_nat_less_u32(1) [OF n', of 1024]
      by (subst atodn_node.simps) (simp add: Let_def digit_test del: of_nat_add of_nat_mult)
    moreover have "n * 10 + digit d \<le> decimal_from (n * 10 + digit d) s"
      by (rule decimal_from_mono)
    ultimately show ?thesis
      using Cons.IH [of "p + 1" "n * 10 + digit d"] l cstr_next [OF Cons.prems(1,2)] True Cons.prems(2)
      by (auto simp: Let_def add.assoc)
  next
    case False
    then show ?thesis using l digit_test [of d]
      by (subst atodn_node.simps) (auto simp: Let_def not_less)
  qed
qed

text \<open>Two numbers packed into one word.\<close>

lemma pack_word:
  assumes "n < 2 ^ k" "k < 32"
  shows "push_bit k (of_nat a) OR of_nat n = (of_nat (a * 2 ^ k + n) :: u32)"
    "of_nat n OR push_bit k (of_nat a) = (of_nat (a * 2 ^ k + n) :: u32)"
proof -
  have "(2 :: nat) ^ k < 2 ^ 32" using assms(2) by (simp only: power_strict_increasing)
  then have "unat (of_nat n :: u32) < 2 ^ k" using assms(1) by (simp add: unat_of_nat_small)
  then have "\<forall>i. bit (of_nat n :: u32) i \<longrightarrow> i < k" by (rule bit_less_power)
  then have "push_bit k (of_nat a) OR of_nat n = (push_bit k (of_nat a) + of_nat n :: u32)"
    by (intro disjunctive_add [symmetric]) (auto simp: bit_push_bit_iff)
  also have "\<dots> = of_nat (a * 2 ^ k + n)" by (simp add: push_bit_eq_mult)
  finally show "push_bit k (of_nat a) OR of_nat n = (of_nat (a * 2 ^ k + n) :: u32)" .
  then show "of_nat n OR push_bit k (of_nat a) = (of_nat (a * 2 ^ k + n) :: u32)"
    by (simp only: or.commute)
qed

lemma decnet_word:
  assumes "a < 64" "n < 1024"
  shows "(ucast (push_bit 10 (of_nat a) OR of_nat n :: u32) :: u16) = of_nat (a * 1024 + n)"
  using assms pack_word(1) [of n 10 a]
  by (intro word_unat_eq_iff [THEN iffD2])
    (simp add: unsigned_ucast_eq unat_of_nat take_bit_eq_mod del: of_nat_add of_nat_mult)

lemma bind_Some_pair: "Option.bind x (\<lambda>m. Some (m, r)) = map_option (\<lambda>m. (m, r)) x"
  by (cases x) auto

lemma atodn_reads:
  assumes s: "cstr_at m (unat p) s" and m: "length m \<le> 2 ^ 32"
  shows "atodn m p q =
    (case decnet_address s of
       None \<Rightarrow> Some (m, 0)
     | Some a \<Rightarrow> map_option (\<lambda>m'. (m', 1)) (store16 m (unat q) a))"
proof (cases "s \<noteq> [] \<and> is_digit (hd s)")
  case False
  have "atodn m p q = Some (m, 0)"
  proof (cases s)
    case Nil
    with s show ?thesis by (simp add: atodn_def load_end)
  next
    case (Cons d s')
    with False load_digit [OF s [unfolded Cons]] digit_test [of d] show ?thesis
      by (simp add: atodn_def)
  qed
  with False show ?thesis
    by (cases s) (auto simp: decnet_address_def Let_def split: list.splits)
next
  case True
  then obtain d s' where ds: "s = d # s'" "is_digit d" by (cases s) auto
  note l = load_digit [OF s [unfolded ds(1)]]
  define area where "area = takeWhile is_digit s"
  define rest where "rest = dropWhile is_digit s"
  have area: "area = d # takeWhile is_digit s'" "rest = dropWhile is_digit s'" "s = area @ rest"
    "decimal area = decimal_from (digit d) (takeWhile is_digit s')"
    using ds by (simp_all add: area_def rest_def)
  have p: "unat (p + 1) = Suc (unat p)" using s m unfolding ds(1) by (rule cstr_next)
  have reads: "atodn_area m (p + 3) (of_nat (digit d)) =
      Some (if rest \<noteq> [] \<and> hd rest = 46 \<and> decimal area < 64
        then Some (p + of_nat (length area) + 2, of_nat (decimal area)) else None)"
    using atodn_area_reads [of m "p + 1" s' "digit d"] l m p digit_less [OF ds(2)]
    by (simp add: area Let_def add.assoc add.commute)
  show ?thesis
  proof (cases "rest \<noteq> [] \<and> hd rest = 46 \<and> decimal area < 64")
    case False
    with reads l digit_test [of d] digit_value [OF ds(2)] ds(2) have "atodn m p q = Some (m, 0)"
      by (simp add: atodn_def del: of_nat_unat)
    moreover have "decnet_address s = None"
      using False unfolding decnet_address_def area_def [symmetric] rest_def [symmetric] Let_def
      by (auto split: list.splits)
    ultimately show ?thesis by simp
  next
    case True
    then have area64: "decimal area < 64" by simp
    from True obtain node where rest: "rest = 46 # node" by (cases rest) auto
    have r: "cstr_at m (unat p + length area) (46 # node)"
      using cstr_at_suffix s area(3) rest by metis
    have a: "unat (p + of_nat (length area)) = unat p + length area"
      using r m by (intro unat_offset) (auto simp: cstr_at_def)
    have a1: "unat (p + of_nat (length area) + 1) = Suc (unat p + length area)"
      using cstr_next [of m "p + of_nat (length area)" 46 node] r m by (simp add: a)
    then have a1c: "unat (1 + (p + of_nat (length area))) = Suc (unat p + length area)"
      by (simp add: add.commute)
    note lr = load_digit [OF r]
    have spec: "decnet_address s =
        (if node \<noteq> [] \<and> list_all is_digit node \<and> decimal node < 1024
         then Some (of_nat (decimal area * 1024 + decimal node)) else None)"
      using True rest area(1)
      unfolding decnet_address_def area_def [symmetric] rest_def [symmetric] Let_def by auto
    have start: "atodn m p q = do {
        v0 \<leftarrow> load8 m (Suc (unat p + length area));
        if v0 = 0 then Some (m, 0)
        else if (v0 - 48) AND 255 > 9 then Some (m, 0)
        else do {
          r \<leftarrow> atodn_node m (p + of_nat (length area) + 2) ((v0 - 48) AND 255);
          case r of
            None \<Rightarrow> Some (m, 0)
          | Some v4 \<Rightarrow> do {
              m \<leftarrow> store16 m (unat q) (ucast (push_bit 10 (of_nat (decimal area)) OR v4));
              Some (m, 1)
            }
        }
      }"
      using reads True l ds(2) a1c
      by (simp add: atodn_def digit_value digit_word_le del: of_nat_unat)
    show ?thesis
    proof (cases "node \<noteq> [] \<and> is_digit (hd node)")
      case False
      then have "atodn m p q = Some (m, 0)"
        using start lr(4)
        by (cases node) (auto simp: load_end digit_test dest: load_digit)
      with False show ?thesis by (cases node) (auto simp: spec)
    next
      case True
      then obtain e node' where n: "node = e # node'" "is_digit e" by (cases node) auto
      have le: "cstr_at m (unat (p + of_nat (length area) + 1)) (e # node')" using lr(4) a1 n by simp
      note l2 = load_digit [OF le]
      have a2: "unat (p + of_nat (length area) + 2) = Suc (Suc (unat p + length area))"
        using cstr_next [OF le m, unfolded a1] by (simp add: add.assoc)
      have "atodn_node m (p + of_nat (length area) + 2) (of_nat (digit e)) =
          Some (if list_all is_digit node \<and> decimal node < 1024 then Some (of_nat (decimal node)) else None)"
        using atodn_node_reads [of m "p + of_nat (length area) + 2" node' "digit e"]
          l2 m a1 a2 n digit_less [OF n(2)] by simp
      then show ?thesis
        using start l2 a1 n spec
        by (simp add: digit_value digit_word_le decnet_word area64
          option.map_comp bind_Some_pair del: of_nat_unat of_nat_add of_nat_mult)
    qed
  qed
qed

section \<open>\<open>_pcapint_atoan\<close>\<close>

definition hex_digit :: "u8 \<Rightarrow> nat option" where
  "hex_digit b =
     (if 48 \<le> b \<and> b \<le> 57 then Some (unat b - 48)
      else if 65 \<le> b \<and> b \<le> 70 then Some (unat b - 55)
      else if 97 \<le> b \<and> b \<le> 102 then Some (unat b - 87)
      else None)"

text \<open>An ARCnet address: a dollar sign and one or two hexadecimal digits.\<close>

definition arcnet_address :: "u8 list \<Rightarrow> nat option" where
  "arcnet_address s =
     (case s of
        [c, h] \<Rightarrow> if c = 36 then hex_digit h else None
      | [c, h, l] \<Rightarrow>
          if c = 36 then do { h \<leftarrow> hex_digit h; l \<leftarrow> hex_digit l; Some (h * 16 + l) } else None
      | _ \<Rightarrow> None)"

lemma hex_digit_less: "hex_digit b = Some k \<Longrightarrow> k < 16"
  by (auto simp: hex_digit_def word_le_nat_alt split: if_splits)

text \<open>The three range tests on a byte and the value they select.\<close>

lemma range_tests:
  "((v - 48) AND 255 < (10 :: u32)) = (48 \<le> (ucast v :: u8) \<and> (ucast v :: u8) \<le> 57)"
  "((v - 65) AND 255 < (6 :: u32)) = (65 \<le> (ucast v :: u8) \<and> (ucast v :: u8) \<le> 70)"
  "((v - 97) AND 255 < (6 :: u32)) = (97 \<le> (ucast v :: u8) \<and> (ucast v :: u8) \<le> 102)"
  using byte_difference [of v 48] byte_difference [of v 65] byte_difference [of v 97]
    unat_u8_less [of "ucast v"]
  by (auto simp: word_less_nat_alt word_le_nat_alt unat_sub_byte)

lemma byte_minus:
  "numeral k \<le> unat b \<Longrightarrow> (ucast (b :: u8) :: u32) - numeral k = of_nat (unat b - numeral k)"
  by (simp add: of_nat_diff)

lemma atoan_digit_hex: "atoan_digit (ucast b) = map_option of_nat (hex_digit b)"
proof -
  have t: "(6 \<le> ((ucast b :: u32) - 65) AND 255) = (\<not> (65 \<le> b \<and> b \<le> 70))"
    "(5 < ((ucast b :: u32) - 97) AND 255) = (\<not> (97 \<le> b \<and> b \<le> 102))"
    using range_tests(2,3) [of "ucast b"] by (auto simp: not_less [symmetric] word_less_nat_alt)
  show ?thesis
    using range_tests(1) [of "ucast b"] t
    by (auto simp: atoan_digit_def hex_digit_def Let_def word_le_nat_alt of_nat_diff)
qed

lemma atoan_reads:
  assumes "cstr_at m (unat p) s"
  shows "atoan m p q =
    (case arcnet_address s of
       None \<Rightarrow> Some (m, 0)
     | Some v \<Rightarrow> map_option (\<lambda>m'. (m', 1)) (store8 m (unat q) (of_nat v)))"
proof (cases s)
  case Nil
  with assms show ?thesis by (simp add: atoan_def arcnet_address_def load_end)
next
  case (Cons c s1)
  note l0 = load_digit [OF assms [unfolded Cons]]
  have c: "(ucast c :: u32) = 36 \<longleftrightarrow> c = 36" using ucast_u8_eq_iff [of c 36] by simp
  show ?thesis
  proof (cases "c = 36 \<and> s1 \<noteq> []")
    case False
    have "atoan m p q = Some (m, 0)" using l0 False c
      by (cases "c = 36") (auto simp: atoan_def load_end Let_def)
    with False Cons show ?thesis by (auto simp: arcnet_address_def split: list.splits)
  next
    case True
    then obtain h s2 where s1: "s1 = h # s2" by (cases s1) auto
    note l1 = load_digit [OF l0(4) [unfolded s1]]
    have s2: "cstr_at m (unat p + 2) s2" using l1(4) by (metis add_2_eq_Suc')
    have "atoan m p q = (case hex_digit h of None \<Rightarrow> Some (m, 0) | Some v \<Rightarrow>
        (case s2 of [] \<Rightarrow> map_option (\<lambda>m'. (m', 1)) (store8 m (unat q) (of_nat v))
         | l # s3 \<Rightarrow> (case hex_digit l of None \<Rightarrow> Some (m, 0) | Some w \<Rightarrow>
            if s3 = [] then map_option (\<lambda>m'. (m', 1)) (store8 m (unat q) (of_nat (v * 16 + w)))
            else Some (m, 0))))"
    proof (cases s2)
      case Nil
      with l0 l1 True c load_end [of m "unat p + 2"] s2 show ?thesis
        by (auto simp: atoan_def Let_def atoan_digit_hex bind_Some_pair split: option.splits)
    next
      case (Cons l s3)
      note l2 = load_digit [OF s2 [unfolded Cons]]
      have l3: "\<exists>x. load8 m (unat p + 3) = Some x \<and> (x = 0 \<longleftrightarrow> s3 = [])"
        using l2(4) load_end [of m "unat p + 3"]
        by (cases s3) (auto simp: eval_nat_numeral dest: load_digit)
      show ?thesis
      proof (cases "hex_digit h = None \<or> hex_digit l = None")
        case True
        with l0 l1 l2 \<open>c = 36 \<and> s1 \<noteq> []\<close> c Cons show ?thesis
          by (auto simp: atoan_def Let_def atoan_digit_hex option.case_eq_if)
      next
        case False
        then obtain v w where v: "hex_digit h = Some v" "hex_digit l = Some w" by auto
        have "of_nat w OR push_bit 4 (of_nat v) = (of_nat (v * 16 + w) :: u32)"
          using pack_word(2) [of w 4 v] hex_digit_less [OF v(2)] by simp
        with l0 l1 l2 l3 \<open>c = 36 \<and> s1 \<noteq> []\<close> c Cons v show ?thesis
          by (auto simp: atoan_def Let_def atoan_digit_hex bind_Some_pair simp del: of_nat_add of_nat_mult)
      qed
    qed
    then show ?thesis using True Cons s1
      by (auto simp: arcnet_address_def split: list.splits option.splits)
  qed
qed

section \<open>\<open>_stoulen\<close> and \<open>_stou\<close>\<close>

text \<open>
  A number in a radix, read on from \<open>n\<close>: its value, or what stops the reader first, a character
  that is no digit or a value past 32 bits.
\<close>

datatype number = Value nat | Bad_digit | Too_large

fun number_from :: "(u8 \<Rightarrow> nat option) \<Rightarrow> nat \<Rightarrow> nat \<Rightarrow> u8 list \<Rightarrow> number" where
  "number_from dg base n [] = Value n"
| "number_from dg base n (b # bs) =
     (case dg b of
        None \<Rightarrow> Bad_digit
      | Some k \<Rightarrow> if 2 ^ 32 \<le> n * base + k then Too_large else number_from dg base (n * base + k) bs)"

definition dec_digit :: "u8 \<Rightarrow> nat option" where
  "dec_digit b = (if is_digit b then Some (digit b) else None)"

definition oct_digit :: "u8 \<Rightarrow> nat option" where
  "oct_digit b = (if 48 \<le> b \<and> b \<le> 55 then Some (unat b - 48) else None)"

datatype radix = Octal | Decimal | Hexadecimal

text \<open>The C notation: \<open>0x\<close> or \<open>0X\<close> for hexadecimal, \<open>0\<close> for octal, decimal otherwise.\<close>

definition c_number :: "u8 list \<Rightarrow> radix \<times> number" where
  "c_number s =
     (case s of
        [] \<Rightarrow> (Decimal, Value 0)
      | b # s' \<Rightarrow>
          if b \<noteq> 48 then (Decimal, number_from dec_digit 10 0 s)
          else (case s' of
              [] \<Rightarrow> (Octal, Value 0)
            | x # s'' \<Rightarrow>
                if x = 88 \<or> x = 120 then (Hexadecimal, number_from hex_digit 16 0 s'')
                else (Octal, number_from oct_digit 8 0 s')))"

text \<open>The three loops read a number in their radix.\<close>

lemma digit_loop:
  assumes step: "\<And>n i. n < 2 ^ 32 \<Longrightarrow> i < length s \<Longrightarrow>
      loop (of_nat n) (of_nat i) =
        (case dg (s ! i) of
           None \<Rightarrow> Some (Inr bad)
         | Some k \<Rightarrow>
             if 2 ^ 32 \<le> n * base + k then large
             else if Suc i \<noteq> length s then loop (of_nat (n * base + k)) (of_nat (Suc i))
             else Some (Inl (of_nat (n * base + k) :: u32)))"
    and "n < 2 ^ 32" "i < length s"
  shows "loop (of_nat n) (of_nat i :: u32) =
    (case number_from dg base n (drop i s) of
       Value v \<Rightarrow> Some (Inl (of_nat v))
     | Bad_digit \<Rightarrow> Some (Inr bad)
     | Too_large \<Rightarrow> large)"
  using assms(2,3)
proof (induction "length s - i" arbitrary: n i)
  case 0
  then show ?case by simp
next
  case (Suc d)
  have drop: "drop i s = s ! i # drop (Suc i) s" using Suc.prems by (simp add: Cons_nth_drop_Suc)
  show ?case
  proof (cases "\<exists>k. dg (s ! i) = Some k \<and> n * base + k < 2 ^ 32 \<and> Suc i \<noteq> length s")
    case True
    then obtain k where k: "dg (s ! i) = Some k" "n * base + k < 2 ^ 32" "Suc i \<noteq> length s" by blast
    then have "loop (of_nat n) (of_nat i) = loop (of_nat (n * base + k)) (of_nat (Suc i))"
      using step [OF Suc.prems] by (simp del: of_nat_add of_nat_mult of_nat_Suc)
    moreover have "d = length s - Suc i" "Suc i < length s" using Suc k(3) by auto
    ultimately show ?thesis using Suc.hyps(1) [of "Suc i" "n * base + k"] k drop
      by (simp del: of_nat_add of_nat_mult of_nat_Suc)
  next
    case False
    then show ?thesis using step [OF Suc.prems] drop
      by (auto simp: not_less split: option.splits)
  qed
qed

lemma load_string:
  fixes p :: u32
  assumes "take (length s) (drop (unat p) m) = s" "unat p + length s \<le> length m" "length m \<le> 2 ^ 32"
    "i < length s"
  shows "load8 m (unat (p + of_nat i)) = Some (ucast (s ! i))"
proof -
  have "unat (p + of_nat i) = unat p + i" by (rule unat_offset) (use assms in simp)
  moreover have "m ! (unat p + i) = s ! i"
    using assms by (metis nth_drop nth_take add_leD1)
  ultimately show ?thesis using assms by (simp add: load8_def index_def)
qed

lemma loop_end:
  fixes v1 :: u32
  assumes "i < length s" "unat v1 = length s"
  shows "v1 \<noteq> of_nat i + 1 \<longleftrightarrow> Suc i \<noteq> length s"
proof -
  have "Suc i < 2 ^ 32 \<or> Suc i = 2 ^ 32" using assms unat_u32_less [of v1] by auto
  then have "unat (of_nat (Suc i) :: u32) = length s \<longleftrightarrow> Suc i = length s"
    using assms unat_u32_less [of v1] by (auto simp: unat_of_nat simp del: of_nat_Suc)
  moreover have "v1 \<noteq> of_nat i + 1 \<longleftrightarrow> unat (of_nat (Suc i) :: u32) \<noteq> length s"
    unfolding assms(2) [symmetric] by (auto simp: word_unat_eq_iff add.commute)
  ultimately show ?thesis by simp
qed

lemma read_bounds:
  fixes n k :: nat
  assumes "n < 2 ^ 32"
  shows "k < 10 \<Longrightarrow> ((of_nat n :: u32) \<le> 0x19999999 \<and> ((of_nat n :: u32) \<noteq> 0x19999999 \<or> k < 6)) = (n * 10 + k < 2 ^ 32)"
    "k < 16 \<Longrightarrow> ((of_nat n :: u32) \<ge> 0x10000000) = (2 ^ 32 \<le> n * 16 + k)"
    "k < 8 \<Longrightarrow> ((of_nat n :: u32) \<ge> 0x20000000) = (2 ^ 32 \<le> n * 8 + k)"
  using assms by (auto simp: word_le_nat_alt word_unat_eq_iff unat_of_nat_small)

lemma oct_digit_tests:
  "((ucast (b :: u8) :: u32) AND 248 \<noteq> 48) = (oct_digit b = None)"
  "oct_digit b = Some k \<Longrightarrow> ((ucast b :: u32) - 48) AND 255 = of_nat k \<and> k < 8"
proof -
  have m: "(248 :: u32) = push_bit 3 (mask 5)" by (simp add: mask_eq_exp_minus_1 push_bit_eq_mult)
  have "(ucast b :: u32) AND 248 = push_bit 3 (drop_bit 3 (ucast b))"
    unfolding m by (rule bit_word_eqI) (auto simp: bit_simps dest: bit_imp_le_length)
  also have "unat \<dots> = unat b div 8 * 8"
    using unat_u8_less [of b]
    by (simp add: push_bit_eq_mult drop_bit_eq_div unat_word_ariths unat_div)
  finally have "unat ((ucast b :: u32) AND 248) = unat b div 8 * 8" .
  then have "(ucast b :: u32) AND 248 = 48 \<longleftrightarrow> unat b div 8 * 8 = 48"
    by (simp add: word_unat_eq_iff)
  then show "((ucast b :: u32) AND 248 \<noteq> 48) = (oct_digit b = None)"
    by (auto simp: oct_digit_def word_le_nat_alt)
  show "((ucast b :: u32) - 48) AND 255 = of_nat k \<and> k < 8" if "oct_digit b = Some k"
  proof -
    from that have "is_digit b" "k = digit b" "k < 8"
      by (auto simp: oct_digit_def is_digit_def digit_def word_le_nat_alt split: if_splits)
    with digit_value show ?thesis by blast
  qed
qed

lemma hex_bias:
  "stoulen_hex_bias (sext8 (ucast b)) =
     (case hex_digit b of None \<Rightarrow> None | Some k \<Rightarrow> Some (of_nat k - ucast b))"
  "hex_digit b = Some k \<Longrightarrow> sext8 (ucast b) = ucast b"
proof -
  let ?v = "sext8 (ucast b)"
  have "(5 < (?v - 65) AND 255) = (\<not> (65 \<le> b \<and> b \<le> 70))"
    using range_tests(2) [of ?v] by (auto simp: not_less [symmetric] word_less_nat_alt)
  moreover have "\<not> (48 \<le> b \<and> b \<le> 57 \<and> 65 \<le> b)" "\<not> (65 \<le> b \<and> b \<le> 70 \<and> 97 \<le> b)"
    "\<not> (48 \<le> b \<and> b \<le> 57 \<and> 97 \<le> b)"
    by (auto simp: word_le_nat_alt)
  ultimately show "stoulen_hex_bias ?v =
     (case hex_digit b of None \<Rightarrow> None | Some k \<Rightarrow> Some (of_nat k - ucast b))"
    using range_tests(1,3) [of ?v]
    by (auto simp: stoulen_hex_bias_def hex_digit_def word_le_nat_alt of_nat_diff)
  show "hex_digit b = Some k \<Longrightarrow> ?v = ucast b"
    by (rule sext8_ascii) (auto simp: hex_digit_def word_le_nat_alt word_less_nat_alt split: if_splits)
qed

text \<open>What \<open>_stoulen\<close> and its three loops make of a number.\<close>

definition bad_digit_code :: "radix \<Rightarrow> u32" where
  "bad_digit_code r = (case r of Hexadecimal \<Rightarrow> 1 | Octal \<Rightarrow> 2 | Decimal \<Rightarrow> 3)"

definition overflow_report ::
  "formatter \<Rightarrow> u32 \<Rightarrow> memory \<Rightarrow> u32 \<Rightarrow> u32 \<Rightarrow> u32 \<Rightarrow> radix \<Rightarrow> (memory \<times> u32) option" where
  "overflow_report vsnprintf v5 m v0 v1 v3 r =
     (case r of
        Octal \<Rightarrow> stoulen_overflow vsnprintf v5 0 68848 m v0 v1 v3
      | Hexadecimal \<Rightarrow> stoulen_overflow vsnprintf v5 16 68909 m v0 v1 v3
      | Decimal \<Rightarrow> stoulen_overflow vsnprintf v5 32 68913 m v0 v1 v3)"

definition number_read ::
  "formatter \<Rightarrow> u32 \<Rightarrow> memory \<Rightarrow> u32 \<Rightarrow> u32 \<Rightarrow> u32 \<Rightarrow> radix \<times> number \<Rightarrow> (u32 + memory \<times> u32) option"
where
  "number_read vsnprintf v5 m v0 v1 v3 = (\<lambda>(r, x). case x of
     Value v \<Rightarrow> Some (Inl (of_nat v))
   | Bad_digit \<Rightarrow> Some (Inr (m, bad_digit_code r))
   | Too_large \<Rightarrow> map_option Inr (overflow_report vsnprintf v5 m v0 v1 v3 r))"

lemma stoulen_dec_reads:
  assumes "take (length s) (drop (unat p) m) = s" "unat p + length s \<le> length m" "length m \<le> 2 ^ 32"
    "unat v1 = length s" "s \<noteq> []"
  shows "stoulen_dec f v5 m p v1 v3 0 0 = number_read f v5 m p v1 v3 (Decimal, number_from dec_digit 10 0 s)"
proof -
  have "stoulen_dec f v5 m p v1 v3 (of_nat n) (of_nat i) =
      (case dec_digit (s ! i) of
         None \<Rightarrow> Some (Inr (m, 3))
       | Some k \<Rightarrow>
           if 2 ^ 32 \<le> n * 10 + k then map_option Inr (stoulen_overflow f v5 32 68913 m p v1 v3)
           else if Suc i \<noteq> length s
           then stoulen_dec f v5 m p v1 v3 (of_nat (n * 10 + k)) (of_nat (Suc i))
           else Some (Inl (of_nat (n * 10 + k))))" if n: "n < 2 ^ 32" and i: "i < length s" for n i
  proof (cases "is_digit (s ! i)")
    case True
    have c: "(ucast (s ! i) < (54 :: u32)) = (digit (s ! i) < 6)"
      using True by (auto simp: word_less_nat_alt is_digit_def digit_def word_le_nat_alt)
    show ?thesis
      unfolding dec_digit_def if_P [OF True]
      using load_string [OF assms(1-3) i] True loop_end [OF i assms(4)] read_digit(2) [OF True, of n]
        read_bounds(1) [OF n digit_less [OF True]]
      by (subst stoulen_dec.simps) (auto simp: digit_test Let_def c not_less add.commute
        simp del: of_nat_add of_nat_mult)
  next
    case False
    then show ?thesis using load_string [OF assms(1-3) i]
      by (subst stoulen_dec.simps) (simp add: digit_test dec_digit_def)
  qed
  from digit_loop [of s "stoulen_dec f v5 m p v1 v3", OF this, of 0 0] assms(5)
  show ?thesis by (simp add: number_read_def bad_digit_code_def overflow_report_def split: number.splits)
qed


lemma stoulen_hex_reads:
  assumes "take (length s) (drop (unat p) m) = s" "unat p + length s \<le> length m" "length m \<le> 2 ^ 32"
    "unat v1 = length s" "2 < length s"
  shows "stoulen_hex f v5 m p v1 v3 0 2 =
    number_read f v5 m p v1 v3 (Hexadecimal, number_from hex_digit 16 0 (drop 2 s))"
proof -
  have "stoulen_hex f v5 m p v1 v3 (of_nat n) (of_nat i) =
      (case hex_digit (s ! i) of
         None \<Rightarrow> Some (Inr (m, 1))
       | Some k \<Rightarrow>
           if 2 ^ 32 \<le> n * 16 + k then map_option Inr (stoulen_overflow f v5 16 68909 m p v1 v3)
           else if Suc i \<noteq> length s
           then stoulen_hex f v5 m p v1 v3 (of_nat (n * 16 + k)) (of_nat (Suc i))
           else Some (Inl (of_nat (n * 16 + k))))" if n: "n < 2 ^ 32" and i: "i < length s" for n i
  proof (cases "hex_digit (s ! i)")
    case None
    then show ?thesis using load_string [OF assms(1-3) i]
      by (subst stoulen_hex.simps) (simp add: hex_bias Let_def)
  next
    case (Some k)
    have "of_nat k + push_bit 4 (of_nat n) = (of_nat (n * 16 + k) :: u32)"
      by (simp add: push_bit_eq_mult)
    then show ?thesis
      using load_string [OF assms(1-3) i] loop_end [OF i assms(4)]
        read_bounds(2) [OF n hex_digit_less [OF Some]] hex_bias [of "s ! i"] Some
      by (subst stoulen_hex.simps) (auto simp: Let_def add.commute simp del: of_nat_add of_nat_mult)
  qed
  from digit_loop [of s "stoulen_hex f v5 m p v1 v3", OF this, of 0 2] assms(5)
  show ?thesis by (simp add: number_read_def bad_digit_code_def overflow_report_def split: number.splits)
qed

lemma stoulen_oct_reads:
  assumes "take (length s) (drop (unat p) m) = s" "unat p + length s \<le> length m" "length m \<le> 2 ^ 32"
    "unat v1 = length s" "1 < length s"
  shows "stoulen_oct f v5 m p v1 v3 0 1 =
    number_read f v5 m p v1 v3 (Octal, number_from oct_digit 8 0 (drop 1 s))"
proof -
  have "stoulen_oct f v5 m p v1 v3 (of_nat n) (of_nat i) =
      (case oct_digit (s ! i) of
         None \<Rightarrow> Some (Inr (m, 2))
       | Some k \<Rightarrow>
           if 2 ^ 32 \<le> n * 8 + k then map_option Inr (stoulen_overflow f v5 0 68848 m p v1 v3)
           else if Suc i \<noteq> length s
           then stoulen_oct f v5 m p v1 v3 (of_nat (n * 8 + k)) (of_nat (Suc i))
           else Some (Inl (of_nat (n * 8 + k))))" if n: "n < 2 ^ 32" and i: "i < length s" for n i
  proof (cases "oct_digit (s ! i)")
    case None
    then show ?thesis using load_string [OF assms(1-3) i]
      by (subst stoulen_oct.simps) (simp add: oct_digit_tests)
  next
    case (Some k)
    note k = oct_digit_tests(2) [OF Some]
    have "of_nat k OR push_bit 3 (of_nat n) = (of_nat (n * 8 + k) :: u32)"
      using pack_word(2) [of k 3 n] k by simp
    then show ?thesis
      using load_string [OF assms(1-3) i] loop_end [OF i assms(4)]
        read_bounds(3) [OF n conjunct2 [OF k]] oct_digit_tests(1) [of "s ! i"] Some k
      by (subst stoulen_oct.simps) (auto simp: Let_def add.commute simp del: of_nat_add of_nat_mult)
  qed
  from digit_loop [of s "stoulen_oct f v5 m p v1 v3", OF this, of 0 1] assms(5)
  show ?thesis by (simp add: number_read_def bad_digit_code_def overflow_report_def split: number.splits)
qed

text \<open>The result codes of \<open>_stoulen\<close>: the value is stored only for a number that fits.\<close>

definition number_result ::
  "formatter \<Rightarrow> u32 \<Rightarrow> memory \<Rightarrow> u32 \<Rightarrow> u32 \<Rightarrow> u32 \<Rightarrow> u32 \<Rightarrow> radix \<times> number \<Rightarrow> (memory \<times> u32) option"
where
  "number_result vsnprintf v5 m v0 v1 v2 v3 = (\<lambda>(r, x). case x of
     Value v \<Rightarrow> map_option (\<lambda>m. (m, 0)) (store32 m (unat v2) (of_nat v))
   | Bad_digit \<Rightarrow> Some (m, bad_digit_code r)
   | Too_large \<Rightarrow> overflow_report vsnprintf v5 m v0 v1 v3 r)"

lemma or_32: "(v :: u32) OR 32 = 120 \<longleftrightarrow> v = 88 \<or> v = 120"
proof -
  have "(32 :: u32) = push_bit 5 1" by (simp add: push_bit_eq_mult)
  then have b: "bit (32 :: u32) n \<longleftrightarrow> n = 5" for n
    by (simp only: bit_push_bit_iff bit_1_iff) auto
  show ?thesis
  proof (cases "bit v 5")
    case True
    then have "v OR 32 = v" by (intro bit_word_eqI) (auto simp only: bit_or_iff b)
    moreover have "v \<noteq> 88" using True by (auto simp: bit_iff_odd)
    ultimately show ?thesis by simp
  next
    case False
    then have "v + 32 = v OR 32" by (intro disjunctive_add) (auto simp only: b)
    moreover have "v + 32 = 120 \<longleftrightarrow> v = 88" by (simp add: eq_diff_eq [symmetric])
    moreover have "v \<noteq> 120" using False by (auto simp: bit_iff_odd)
    ultimately show ?thesis by simp
  qed
qed

lemma stoulen_reads:
  assumes s: "take (length s) (drop (unat p) m) = s" "unat p + length s \<le> length m"
    "length m \<le> 2 ^ 32" "unat v1 = length s"
  shows "stoulen f sp m p v1 v2 v3 = number_result f (sp - 48) m p v1 v2 v3 (c_number s)"
proof -
  have fin: "(do {
        r \<leftarrow> number_read f (sp - 48) m p v1 v3 x;
        case r of
          Inl v4 \<Rightarrow> do { m \<leftarrow> store32 m (unat v2) v4; Some (m, 0) }
        | Inr (m, v8) \<Rightarrow> Some (m, v8)
      }) = number_result f (sp - 48) m p v1 v2 v3 x" for x
    by (cases x; cases "snd x")
      (auto simp: number_read_def number_result_def bind_Some_pair bind_map_option comp_def
        split: option.splits)
  have v1: "v1 = 0 \<longleftrightarrow> length s = 0" "v1 = 1 \<longleftrightarrow> length s = 1" "v1 = 2 \<longleftrightarrow> length s = 2"
    using s(4) by (auto simp: word_unat_eq_iff)
  have c: "stoulen f sp m p v1 v2 v3 = (do {
        r \<leftarrow> number_read f (sp - 48) m p v1 v3 (c_number s);
        case r of
          Inl v4 \<Rightarrow> do { m \<leftarrow> store32 m (unat v2) v4; Some (m, 0) }
        | Inr (m, v8) \<Rightarrow> Some (m, v8)
      })"
  proof (cases s)
    case Nil
    then show ?thesis by (simp add: stoulen_def v1 c_number_def number_read_def)
  next
    case (Cons b s')
    have l0: "load8 m (unat p) = Some (ucast b)" using load_string [OF s(1-3), of 0] Cons by simp
    have b: "(ucast b :: u32) = 48 \<longleftrightarrow> b = 48" using ucast_u8_eq_iff [of b 48] by simp
    show ?thesis
    proof (cases "b = 48")
      case False
      with b l0 Cons show ?thesis
        by (simp add: stoulen_def v1 c_number_def stoulen_dec_reads [OF s] Let_def case_prod_eta cong del: sum.case_cong_weak)
    next
      case True
      show ?thesis
      proof (cases s')
        case Nil
        with True b l0 Cons show ?thesis by (simp add: stoulen_def v1 c_number_def number_read_def)
      next
        case (Cons x s'')
        have l1: "load8 m (unat p + 1) = Some (ucast x)"
        proof -
          have "unat (p + of_nat 1) = unat p + 1"
            by (rule unat_offset) (use s \<open>s = b # s'\<close> Cons in simp)
          then show ?thesis using load_string [OF s(1-3), of 1] \<open>s = b # s'\<close> Cons by simp
        qed
        have x: "(ucast x :: u32) = 88 \<longleftrightarrow> x = 88" "(ucast x :: u32) = 120 \<longleftrightarrow> x = 120"
          using ucast_u8_eq_iff [of x 88] ucast_u8_eq_iff [of x 120] by simp_all
        have len: "length s = Suc (Suc (length s''))" "drop 2 s = s''" "drop 1 s = s'"
          using \<open>s = b # s'\<close> Cons by simp_all
        show ?thesis
          using True b l0 l1 x \<open>s = b # s'\<close> Cons len stoulen_hex_reads [OF s] stoulen_oct_reads [OF s]
          by (auto simp: stoulen_def v1 c_number_def number_read_def or_32 Let_def case_prod_eta cong del: sum.case_cong_weak)
      qed
    qed
  qed
  show ?thesis unfolding c fin ..
qed

section \<open>Tables of names, looked up\<close>

text \<open>
  A table of names at \<open>a\<close>: eight bytes an entry, the name pointer, then the 16-bit value, ended by
  a null pointer.
\<close>

fun proto_table :: "memory \<Rightarrow> u32 \<Rightarrow> (u8 list \<times> u16) list \<Rightarrow> bool" where
  "proto_table m a [] \<longleftrightarrow> load32 m (unat a) = Some 0"
| "proto_table m a ((s, v) # es) \<longleftrightarrow>
     (\<exists>q. load32 m (unat a) = Some q \<and> q \<noteq> 0 \<and> cstr_at m (unat q) s) \<and>
     load16 m (unat a + 4) = Some v \<and> proto_table m (a + 8) es"

text \<open>The same with the value first, as a signed number, for \<open>_str2tok\<close>.\<close>

fun token_table :: "memory \<Rightarrow> u32 \<Rightarrow> (u8 list \<times> u32) list \<Rightarrow> bool" where
  "token_table m a [] \<longleftrightarrow> load32 m (unat a + 4) = Some 0"
| "token_table m a ((s, v) # es) \<longleftrightarrow>
     (\<exists>q. load32 m (unat a + 4) = Some q \<and> q \<noteq> 0 \<and> cstr_at m (unat q) s) \<and>
     load32 m (unat a) = Some v \<and> unat a + 16 < 2 ^ 32 \<and> token_table m (a + 8) es"

lemma strcmp_0: 
  "cstr_at m (unat p) s \<Longrightarrow> cstr_at m (unat q) t \<Longrightarrow> \<exists>r. strcmp m p q = Some r \<and> (r = 0 \<longleftrightarrow> s = t)"
  by (auto simp: strcmp_cstr)

lemma nametoeproto_loop_step:
  assumes "proto_table m a ((s, v) # es)" "load32 m (unat a) = Some q"
    "unat a + 12 < 2 ^ 32" "cstr_at m (unat p) name"
  shows "nametoeproto_loop m p (a + 4) q =
    (if s = name then Some (ucast v)
     else do {
       t4 \<leftarrow> load32 m (unat a + 8);
       if t4 \<noteq> 0 then nametoeproto_loop m p (a + 4 + 8) t4 else Some (- 1)
     })"
proof -
  have a4: "unat (a + 4) = unat a + 4" using assms(3) by (auto simp: unat_add_no_wrap)
  have "cstr_at m (unat q) s" using assms(1,2) by auto
  from strcmp_0 [OF this assms(4)] obtain r where "strcmp m q p = Some r" "(r = 0) = (s = name)"
    by blast
  with assms(1) a4 show ?thesis
    by (subst nametoeproto_loop.simps) (auto simp: add.assoc)
qed

lemma nametoeproto_loop_finds:
  assumes "proto_table m a ((s, v) # es)" "load32 m (unat a) = Some q"
    "unat a + 8 * length es + 12 < 2 ^ 32" "cstr_at m (unat p) name"
  shows "nametoeproto_loop m p (a + 4) q =
    Some (case map_of ((s, v) # es) name of Some w \<Rightarrow> ucast w | None \<Rightarrow> - 1)"
  using assms(1-3)
proof (induction es arbitrary: a s v q)
  case Nil
  have "unat (a + 8) = unat a + 8" using Nil.prems(3) by (auto simp: unat_add_no_wrap)
  with Nil nametoeproto_loop_step [OF Nil.prems(1,2) _ assms(4)] show ?case by auto
next
  case (Cons e es)
  obtain s' v' where e: "e = (s', v')" by (cases e)
  have a8: "unat (a + 8) = unat a + 8" using Cons.prems(3) by (auto simp: unat_add_no_wrap)
  obtain q' where q': "load32 m (unat (a + 8)) = Some q'" "q' \<noteq> 0"
    using Cons.prems(1) e by auto
  have "nametoeproto_loop m p (a + 4 + 8) q' =
      Some (case map_of (e # es) name of Some w \<Rightarrow> ucast w | None \<Rightarrow> - 1)"
    using Cons.IH [of "a + 8" s' v' q'] Cons.prems(1,3) q' a8
    by (simp add: e add.assoc)
  with q' a8 nametoeproto_loop_step [OF Cons.prems(1,2) _ assms(4)] Cons.prems(3) show ?case
    by auto
qed

lemma nametoeproto_finds:
  assumes "proto_table m 125312 es" "125324 + 8 * length es < 2 ^ 32" "cstr_at m (unat p) name"
  shows "nametoeproto m p = Some (case map_of es name of Some w \<Rightarrow> ucast w | None \<Rightarrow> - 1)"
proof (cases es)
  case Nil
  with assms show ?thesis by (simp add: nametoeproto_def)
next
  case (Cons e es')
  obtain s v where e: "e = (s, v)" by (cases e)
  obtain q where q: "load32 m 125312 = Some q" "q \<noteq> 0" using assms(1) Cons e by auto
  have "nametoeproto_loop m p (125312 + 4) q =
      Some (case map_of es name of Some w \<Rightarrow> ucast w | None \<Rightarrow> - 1)"
    unfolding Cons e by (rule nametoeproto_loop_finds) (use assms Cons e q in auto)
  with q show ?thesis by (simp add: nametoeproto_def)
qed

text \<open>The first entry whose name is the same up to the case of ASCII letters.\<close>

definition lookup_nocase :: "(u8 list \<times> u32) list \<Rightarrow> u8 list \<Rightarrow> u32 option" where
  "lookup_nocase es name = map_of (map (\<lambda>(s, v). (map lower_byte s, v)) es) (map lower_byte name)"

lemma strcasecmp_0:
  assumes "cstr_at m (unat p) s" "cstr_at m (unat q) t" "length m \<le> 2 ^ 32"
  shows "\<exists>r. pcapint_strcasecmp m p q = Some r \<and> (r = 0 \<longleftrightarrow> map lower_byte s = map lower_byte t)"
  using strcasecmp_cstr [OF assms] by blast

lemma str2tok_loop_step:
  assumes "token_table m a ((s, v) # es)" "load32 m (unat a + 4) = Some q"
    "length m \<le> 2 ^ 32" "cstr_at m (unat p) name"
  shows "str2tok_loop m p a q =
    (if map lower_byte s = map lower_byte name then Some (Some a)
     else do {
       t3 \<leftarrow> load32 m (unat a + 12);
       if t3 \<noteq> 0 then str2tok_loop m p (a + 8) t3 else Some None
     })"
proof -
  have "cstr_at m (unat q) s" using assms(1,2) by auto
  then show ?thesis using strcasecmp_0 [OF _ assms(4,3), of q s]
    by (subst str2tok_loop.simps) auto
qed

lemma str2tok_loop_finds:
  assumes "token_table m a ((s, v) # es)" "load32 m (unat a + 4) = Some q"
    "length m \<le> 2 ^ 32" "cstr_at m (unat p) name"
  shows "\<exists>r. str2tok_loop m p a q = Some r \<and>
    lookup_nocase ((s, v) # es) name = Option.bind r (\<lambda>e. load32 m (unat e)) \<and>
    (r = None \<longleftrightarrow> lookup_nocase ((s, v) # es) name = None)"
  using assms(1,2)
proof (induction es arbitrary: a s v q)
  case Nil
  have "unat (a + 8) + 4 = unat a + 12" using Nil by (auto simp: unat_add_no_wrap)
  with Nil str2tok_loop_step [OF Nil assms(3,4)] show ?case by (auto simp: lookup_nocase_def)
next
  case (Cons e es)
  obtain s' v' where e: "e = (s', v')" by (cases e)
  have tt: "token_table m (a + 8) ((s', v') # es)" "unat a + 16 < 2 ^ 32"
    using Cons.prems(1) unfolding e token_table.simps by blast+
  obtain q' where q': "load32 m (unat (a + 8) + 4) = Some q'" "q' \<noteq> 0"
    using tt(1) by auto
  have a8: "unat (a + 8) + 4 = unat a + 12" using tt(2) by (auto simp: unat_add_no_wrap)
  have head: "load32 m (unat a) = Some v" using Cons.prems(1) by simp
  show ?case
    unfolding str2tok_loop_step [OF Cons.prems assms(3,4)]
    using Cons.IH [OF tt(1) q'(1)] q' head unfolding a8
    by (simp add: lookup_nocase_def e)
qed

lemma str2tok_finds:
  assumes "token_table m a es" "length m \<le> 2 ^ 32" "cstr_at m (unat p) name"
    "\<forall>(s, v) \<in> set es. v \<noteq> - 1"
  shows "str2tok m p a = Some (case lookup_nocase es name of Some v \<Rightarrow> v | None \<Rightarrow> - 1)"
proof (cases es)
  case Nil
  with assms show ?thesis by (simp add: str2tok_def lookup_nocase_def)
next
  case (Cons e es')
  obtain s v where e: "e = (s, v)" by (cases e)
  obtain q where q: "load32 m (unat a + 4) = Some q" "q \<noteq> 0" using assms(1) Cons e by auto
  obtain r where r: "str2tok_loop m p a q = Some r"
    "lookup_nocase es name = Option.bind r (\<lambda>e. load32 m (unat e))"
    "r = None \<longleftrightarrow> lookup_nocase es name = None"
    using str2tok_loop_finds [OF assms(1) [unfolded Cons e] q(1) assms(2,3)] unfolding Cons e by (elim exE conjE)
  show ?thesis
  proof (cases r)
    case None
    with q r show ?thesis by (simp add: str2tok_def)
  next
    case (Some x)
    then obtain w where w: "lookup_nocase es name = Some w" "load32 m (unat x) = Some w"
      using r by (cases "lookup_nocase es name") auto
    then have "\<exists>s. (s, w) \<in> set es" unfolding lookup_nocase_def by (force dest!: map_of_SomeD)
    with assms(4) have "w \<noteq> - 1" by blast
    with q r(1) Some w show ?thesis by (simp add: str2tok_def)
  qed
qed

lemma atoin_reads:
  assumes "cstr_at m (unat p) s" "list_all (\<lambda>b. is_digit b \<or> b = 46) s" "length m \<le> 2 ^ 32"
    "unat q + 4 \<le> length m" "unat p + length s < unat q \<or> unat q + 4 \<le> unat p"
    "parts = map decimal (split_on 46 s)"
  shows "\<exists>m'. atoin m p q =
      Some (m', if list_all (\<lambda>n. n \<le> 255) parts then of_nat (8 * length parts) else - 1) \<and>
    same_outside m m' (unat q) 4 \<and>
    (list_all (\<lambda>n. n \<le> 255) parts \<longrightarrow> load32 m' (unat q) = Some (pack_parts 0 parts))"
proof -
  obtain m1 where m1: "store32 m (unat q) 0 = Some m1" using store32_in [OF assms(4)] by blast
  have out: "same_outside m m1 (unat q) 4" by (rule store32_same_outside [OF m1]) auto
  have "cstr_at m1 (unat p) s" by (rule cstr_at_outside [OF out assms(5,1)])
  from atoin_loop_reads [OF assms(2) this, of q 0 0] assms(3-5) m1 out length_store32 [OF m1]
  show ?thesis unfolding assms(6) by (auto simp: atoin_def intro: same_outside_trans)
qed

section \<open>Properties\<close>

text \<open>
  C28: \<open>_pcapint_atoin\<close> reads one to any number of decimal parts separated by dots: it returns
  eight times their number and stores the parts packed in this order, or returns -1 exactly when
  some part is above 255. It writes nothing but the four bytes of the result.
\<close>

theorem atoin_dotted:
  assumes "cstr_at m (unat p) s" "list_all (\<lambda>b. is_digit b \<or> b = 46) s" "length m \<le> 2 ^ 32"
    "unat q + 4 \<le> length m" "unat p + length s < unat q \<or> unat q + 4 \<le> unat p"
    "parts = map decimal (split_on 46 s)"
  shows "\<exists>m'. atoin m p q =
      Some (m', if list_all (\<lambda>n. n \<le> 255) parts then of_nat (8 * length parts) else - 1) \<and>
    same_outside m m' (unat q) 4 \<and>
    (list_all (\<lambda>n. n \<le> 255) parts \<longrightarrow> load32 m' (unat q) = Some (pack_parts 0 parts))"
  using assms by (rule atoin_reads)

theorem atoin_dotted_witness:
  "\<exists>m'. atoin ([49, 48, 46, 49, 0, 7, 7, 7, 7, 7] :: u8 list) 0 5 = Some (m', 16) \<and>
     load32 m' 5 = Some 0xa01"
  using atoin_dotted [of "[49, 48, 46, 49, 0, 7, 7, 7, 7, 7]" 0 "[49, 48, 46, 49]" 5, OF _ _ _ _ _ refl]
  by (auto simp: cstr_at_def is_digit_def digit_def)

text \<open>
  C29: \<open>_pcapint_atodn\<close> accepts exactly the DECnet addresses, an area below 64 and a node below
  1024, and stores them packed into 16 bits; for anything else it returns 0 and writes nothing.
\<close>

theorem atodn_decnet:
  assumes "cstr_at m (unat p) s" "length m \<le> 2 ^ 32"
  shows "atodn m p q =
    (case decnet_address s of
       None \<Rightarrow> Some (m, 0)
     | Some a \<Rightarrow> map_option (\<lambda>m'. (m', 1)) (store16 m (unat q) a))"
  using assms by (rule atodn_reads)

theorem atodn_decnet_witness:
  "map_option snd (atodn ([49, 46, 51, 0, 7, 7] :: u8 list) 0 4) = Some 1"
  using atodn_decnet [of "[49, 46, 51, 0, 7, 7]" 0 "[49, 46, 51]" 4]
  by (simp add: cstr_at_def decnet_address_def is_digit_def digit_def store16_def put_bytes_def)

text \<open>
  C30: \<open>_pcapint_atoan\<close> accepts exactly a dollar sign with one or two hexadecimal digits and
  stores their value in one byte; for anything else it returns 0 and writes nothing.
\<close>

theorem atoan_arcnet:
  assumes "cstr_at m (unat p) s"
  shows "atoan m p q =
    (case arcnet_address s of
       None \<Rightarrow> Some (m, 0)
     | Some v \<Rightarrow> map_option (\<lambda>m'. (m', 1)) (store8 m (unat q) (of_nat v)))"
  using assms by (rule atoan_reads)

theorem atoan_arcnet_witness: "atoan ([36, 49, 102, 0, 7] :: u8 list) 0 4 = Some ([36, 49, 102, 0, 31], 1)"
  using atoan_arcnet [of "[36, 49, 102, 0, 7]" 0 "[36, 49, 102]" 4]
  by (simp add: cstr_at_def arcnet_address_def hex_digit_def store8_def set_index_def)

lemma stou_reads:
  assumes "cstr_at m (unat p) s" "length m \<le> 2 ^ 32"
  shows "stou f sp m p q h =
    (case c_number s of
       (_, Value v) \<Rightarrow> map_option (\<lambda>m. (m, 292)) (store32 m (unat q) (of_nat v))
     | (r, Bad_digit) \<Rightarrow>
         (case r of
            Octal \<Rightarrow> stou_report f (sp - 48) p h m 0 66305
          | Decimal \<Rightarrow> stou_report f (sp - 48) p h m 32 66340
          | Hexadecimal \<Rightarrow> stou_report f (sp - 48) p h m 16 66272)
     | (r, Too_large) \<Rightarrow>
         map_option (\<lambda>(m, _). (m, 376)) (overflow_report f (sp - 48 - 48) m p (of_nat (length s)) h r))"
proof -
  have n: "unat (of_nat (length s) :: u32) = length s"
    using assms by (intro unat_of_nat_small) (auto simp: cstr_at_def)
  have s: "take (length s) (drop (unat p) m) = s" "unat p + length s \<le> length m"
    using assms by (auto simp: cstr_at_def)
  have code: "overflow_report f sp' m p' v1 v3 r = Some (m', c) \<Longrightarrow> c = 4" for sp' p' v1 v3 r m' c
    by (cases r) (auto simp: overflow_report_def stoulen_overflow_def bind_eq_Some_conv)
  obtain r x where rx: "c_number s = (r, x)" by (cases "c_number s")
  show ?thesis
    unfolding stou_def strlen_cstr [OF assms(1)] stoulen_reads [OF s assms(2) n] Let_def bind.bind_lunit
      number_result_def rx prod.case stou_report_def
    by (cases x; cases r; cases "overflow_report f (sp - 48 - 48) m p (of_nat (length s)) h r")
      (auto simp: bad_digit_code_def map_option_case dest!: code split: option.splits)
qed

text \<open>
  C27: \<open>_stou\<close> on a C string: a number in C notation that fits 32 bits is stored and gives the
  token NUM; a bad digit is reported with the message of its radix, a number that does not fit by
  \<open>_stoulen\<close>, and both give the error token, with nothing stored at the value's address.
\<close>

theorem stou_tokens:
  assumes "cstr_at m (unat p) s" "length m \<le> 2 ^ 32"
  shows "stou f sp m p q h =
    (case c_number s of
       (_, Value v) \<Rightarrow> map_option (\<lambda>m. (m, 292)) (store32 m (unat q) (of_nat v))
     | (r, Bad_digit) \<Rightarrow>
         (case r of
            Octal \<Rightarrow> stou_report f (sp - 48) p h m 0 66305
          | Decimal \<Rightarrow> stou_report f (sp - 48) p h m 32 66340
          | Hexadecimal \<Rightarrow> stou_report f (sp - 48) p h m 16 66272)
     | (r, Too_large) \<Rightarrow>
         map_option (\<lambda>(m, _). (m, 376)) (overflow_report f (sp - 48 - 48) m p (of_nat (length s)) h r))"
  using assms by (rule stou_reads)

theorem stou_tokens_witness:
  "stou (\<lambda>_ m _ _ _ _. Some m) 0 ([48, 120, 49, 70, 0, 7, 7, 7, 7] :: u8 list) 0 5 0 =
     Some ([48, 120, 49, 70, 0, 31, 0, 0, 0], 292)"
  using stou_tokens [of "[48, 120, 49, 70, 0, 7, 7, 7, 7]" 0 "[48, 120, 49, 70]" "\<lambda>_ m _ _ _ _. Some m" 0 5 0]
  by (simp add: cstr_at_def c_number_def hex_digit_def store32_def put_bytes_def le_bytes32_def)

text \<open>
  C31: \<open>_pcap_nametoeproto\<close> answers with the value of the first entry of the protocol table whose
  name is the argument, and with -1 when there is none.
\<close>

theorem nametoeproto_lookup:
  assumes "proto_table m 125312 es" "125324 + 8 * length es < 2 ^ 32" "cstr_at m (unat p) name"
  shows "nametoeproto m p = Some (case map_of es name of Some w \<Rightarrow> ucast w | None \<Rightarrow> - 1)"
  using assms by (rule nametoeproto_finds)

lemma nametollc_finds:
  assumes "cstr_at m 68027 n1" "cstr_at m 67678 n2" "cstr_at m 65642 n3" "cstr_at m 69231 n4"
    "cstr_at m (unat p) name"
  shows "nametollc m p =
    (if n1 = name then map_option ucast (load16 m 75060)
     else if n2 = name then map_option ucast (load16 m 75068)
     else if n3 = name then map_option ucast (load16 m 75076)
     else if n4 = name then map_option ucast (load16 m 75084)
     else Some (- 1))"
  using strcmp_0 [OF _ assms(5), of 68027 n1] strcmp_0 [OF _ assms(5), of 67678 n2]
    strcmp_0 [OF _ assms(5), of 65642 n3] strcmp_0 [OF _ assms(5), of 69231 n4] assms(1-4)
  by (auto simp: nametollc_def Let_def)

lemma uint32_t_cmp_order:
  assumes "load32 m (unat p) = Some x" "load32 m (unat q) = Some y"
  shows "uint32_t_cmp m p q = Some (if x < y then - 1 else if y < x then 1 else 0)"
  using assms by (auto simp: uint32_t_cmp_def Let_def)

lemma cstr_at_append: "length xs = n \<Longrightarrow> cstr_at (xs @ ys) (n + k) s \<longleftrightarrow> cstr_at ys k s"
  by (simp add: cstr_at_drop)

lemma load_append:
  "length xs = n \<Longrightarrow> load32 (xs @ ys) (n + k) = load32 ys k"
  "length xs = n \<Longrightarrow> load16 (xs @ ys) (n + k) = load16 ys k"
  by (simp_all add: load32_def load16_def get_bytes_def slice_def)

theorem nametoeproto_lookup_witness:
  "nametoeproto (replicate 125312 0 @ [144, 233, 1, 0, 0, 8, 0, 0, 0, 0, 0, 0, 0, 0, 0, 0, 105, 112, 0])
     125328 = Some 0x800"
proof -
  let ?ys = "[144, 233, 1, 0, 0, 8, 0, 0, 0, 0, 0, 0, 0, 0, 0, 0, 105, 112, 0] :: u8 list"
  let ?m = "replicate 125312 0 @ ?ys"
  have "load32 ?m (125312 + 0) = Some 125328" "load16 ?m (125312 + 4) = Some 0x800"
    "load32 ?m (125312 + 8) = Some 0" "cstr_at ?m (125312 + 16) [105, 112]"
    by (simp_all only: load_append [OF length_replicate] cstr_at_append [OF length_replicate])
      (simp_all add: load32_def load16_def get_bytes_def slice_def le_uint32_def le_uint16_def cstr_at_def
        push_bit_eq_mult)
  then have "proto_table ?m 125312 [([105, 112], 0x800)]" "cstr_at ?m (unat (125328 :: u32)) [105, 112]"
    by simp_all
  from nametoeproto_lookup [OF this(1) _ this(2)] show ?thesis by simp
qed

text \<open>
  C32: \<open>_str2tok\<close> answers with the token of the first entry whose name is the argument up to
  case, and with -1 when there is none; with no entry for -1 it does not abort.
\<close>

theorem str2tok_lookup:
  assumes "token_table m a es" "length m \<le> 2 ^ 32" "cstr_at m (unat p) name"
    "\<forall>(s, v) \<in> set es. v \<noteq> - 1"
  shows "str2tok m p a = Some (case lookup_nocase es name of Some v \<Rightarrow> v | None \<Rightarrow> - 1)"
  using assms by (rule str2tok_finds)

theorem str2tok_lookup_witness:
  "str2tok ([9, 0, 0, 0, 16, 0, 0, 0, 0, 0, 0, 0, 0, 0, 0, 0, 114, 69, 74, 0] :: u8 list) 16 0 = Some 9"
  using str2tok_lookup [of "[9, 0, 0, 0, 16, 0, 0, 0, 0, 0, 0, 0, 0, 0, 0, 0, 114, 69, 74, 0]" 0
      "[([114, 69, 74], 9)]" 16 "[114, 69, 74]"]
  by (simp add: cstr_at_def load32_def get_bytes_def slice_def le_uint32_def push_bit_eq_mult lookup_nocase_def)

end
