(* ===== verification/Frames.thy ===== *)
theory Frames
  imports Alloc
begin

text \<open>
  Frames: which bytes a piece of the module may change. \<open>kept A m m'\<close> says that everything
  outside the bytes \<open>A\<close> is as before, while the memory may have grown; what was loaded from
  outside \<open>A\<close> is then loaded again.
\<close>

section \<open>Bytes that are kept\<close>

definition kept :: "nat set \<Rightarrow> memory \<Rightarrow> memory \<Rightarrow> bool" where
  "kept A m m' \<longleftrightarrow> length m \<le> length m' \<and> (\<forall>i < length m. i \<notin> A \<longrightarrow> m' ! i = m ! i)"

definition span :: "nat \<Rightarrow> nat \<Rightarrow> nat set" where
  "span a n = {a..<a + n}"

lemma span_disjoint [simp]: "span a n \<inter> span b k = {} \<longleftrightarrow> n = 0 \<or> k = 0 \<or> a + n \<le> b \<or> b + k \<le> a"
  by (auto simp: span_def)

lemma span_iff [simp]: "i \<in> span a n \<longleftrightarrow> a \<le> i \<and> i < a + n"
  by (auto simp: span_def)

lemma span_subset [simp]: "span a n \<subseteq> span b k \<longleftrightarrow> n = 0 \<or> b \<le> a \<and> a + n \<le> b + k"
  by (auto simp: span_def subset_iff) (metis add_le_cancel_left le_add1 less_eq_Suc_le linorder_not_le nat_less_le not_add_less1)+

lemma disjoint_sub: "A \<inter> B = {} \<Longrightarrow> C \<subseteq> B \<Longrightarrow> A \<inter> C = {}"
  by blast

lemma kept_refl [simp, intro]: "kept A m m"
  by (simp add: kept_def)

lemma kept_trans: "kept A m1 m2 \<Longrightarrow> kept A m2 m3 \<Longrightarrow> kept A m1 m3"
  by (auto simp: kept_def)

lemma kept_mono: "kept A m m' \<Longrightarrow> A \<subseteq> A' \<Longrightarrow> kept A' m m'"
  by (auto simp: kept_def)

lemma kept_length: "kept A m m' \<Longrightarrow> length m \<le> length m'"
  by (simp add: kept_def)

lemma kept_get:
  assumes "kept A m m'" "span a n \<inter> A = {}" "get_bytes m a n = Some bs"
  shows "get_bytes m' a n = Some bs"
proof -
  have "m' ! i = m ! i" if "a \<le> i" "i < a + n" for i
  proof -
    have "i \<in> span a n" using that by simp
    with assms(2) have "i \<notin> A" by blast
    with assms(1,3) that show ?thesis by (auto simp: kept_def)
  qed
  with assms(1,3) show ?thesis
    by (auto simp: kept_def intro!: nth_equalityI)
qed

lemma kept_load32:
  "kept A m m' \<Longrightarrow> load32 m a = Some v \<Longrightarrow> span a 4 \<inter> A = {} \<Longrightarrow> load32 m' a = Some v"
  unfolding load32_def by (elim bind_eq_Some_conv [THEN iffD1, THEN exE] conjE) (simp only: kept_get bind.bind_lunit)

lemma kept_load16:
  "kept A m m' \<Longrightarrow> load16 m a = Some v \<Longrightarrow> span a 2 \<inter> A = {} \<Longrightarrow> load16 m' a = Some v"
  unfolding load16_def by (elim bind_eq_Some_conv [THEN iffD1, THEN exE] conjE) (simp only: kept_get bind.bind_lunit)

lemma kept_index:
  "kept A m m' \<Longrightarrow> index m a = Some v \<Longrightarrow> a \<notin> A \<Longrightarrow> index m' a = Some v"
  by (auto simp: kept_def)

lemma kept_put: "put_bytes m a bs = Some m' \<Longrightarrow> kept (span a (length bs)) m m'"
  by (auto simp: kept_def length_put_bytes nth_put_bytes)

lemma kept_store32: "store32 m a v = Some m' \<Longrightarrow> kept (span a 4) m m'"
  unfolding store32_def using kept_put [of m a "le_bytes32 v" m'] by simp

lemma kept_store16: "store16 m a v = Some m' \<Longrightarrow> kept (span a 2) m m'"
  unfolding store16_def using kept_put [of m a "le_bytes16 v" m'] by simp

lemma kept_store8: "store8 m a v = Some m' \<Longrightarrow> kept {a} m m'"
  by (auto simp: store8_def kept_def nth_list_update)

lemma load16_store16: "store16 m a v = Some m' \<Longrightarrow> load16 m' a = Some v"
  unfolding load16_def store16_def by (rule cell16.load_after_store)

lemma index_store8: "store8 m a v = Some m' \<Longrightarrow> index m' a = Some (ucast v)"
  by (auto simp: store8_def)

lemma store8_in: "a < length m \<Longrightarrow> \<exists>m'. store8 m a v = Some m'"
  by (auto simp: store8_def)

lemma store16_in: "a + 2 \<le> length m \<Longrightarrow> \<exists>m'. store16 m a v = Some m'"
  unfolding store16_def by (rule cell16.store_in)

lemma length_store16: "store16 m a v = Some m' \<Longrightarrow> length m' = length m"
  unfolding store16_def by (rule length_put_bytes)

lemma length_store8: "store8 m a v = Some m' \<Longrightarrow> length m' = length m"
  by (auto simp: store8_def)

lemma load32_bound: "load32 m a = Some v \<Longrightarrow> a + 4 \<le> length m"
  by (cases "a + 4 \<le> length m") (auto simp: load32_def get_bytes_def slice_def)

section \<open>The allocator\<close>

text \<open>The bytes the allocator keeps for itself.\<close>

definition own_bytes :: "nat set" where
  "own_bytes = span 125436 8 \<union> span 127524 4"

lemma own_byte_set: "i \<in> own_bytes \<longleftrightarrow> own_byte i"
  by (auto simp: own_bytes_def own_byte_def)

lemma heap_kept_kept: "heap_kept m m' \<Longrightarrow> kept own_bytes m m'"
  by (auto simp: heap_kept_def kept_def own_byte_set)

text \<open>A change that spares the allocator's words and the length of the memory keeps the heap.\<close>

lemma heap_inv_kept:
  assumes "heap_inv m H L" "kept A m m'" "length m' = length m" "A \<inter> own_bytes = {}"
  shows "heap_inv m' H L"
proof -
  have "span 125436 4 \<inter> A = {}" "span 125440 4 \<inter> A = {}" "span 127524 4 \<inter> A = {}"
    using assms(4) by (auto simp: own_bytes_def)
  with assms(1,3) kept_load32 [OF assms(2)] show ?thesis by (simp add: heap_inv_def)
qed

lemma own_disjoint [simp]:
  "span a n \<inter> own_bytes = {} \<longleftrightarrow> n = 0 \<or> a + n \<le> 125436 \<or> 125444 \<le> a \<and> (a + n \<le> 127524 \<or> 127528 \<le> a)"
  "own_bytes \<inter> span a n = {} \<longleftrightarrow> n = 0 \<or> a + n \<le> 125436 \<or> 125444 \<le> a \<and> (a + n \<le> 127524 \<or> 127528 \<le> a)"
  unfolding own_bytes_def Int_Un_distrib Int_Un_distrib2 Un_empty span_disjoint by linarith+

text \<open>A short-lived block: reserved at the top of the heap and given back at once.\<close>

lemma calloc_top:
  assumes "heap_inv m H L" "0 < unat k" "0 < unat n" "unat k * unat n < 2 ^ 31"
    "H + round_up 4 (unat k * unat n) \<le> 2 ^ 32"
  obtains m' where "calloc m k n = Some (of_nat H, m')" "kept own_bytes m m'" "length m \<le> length m'"
    "heap_inv m' (H + round_up 4 (unat k * unat n)) H"
proof -
  let ?n = "unat k * unat n"
  have u: "unat (of_nat ?n :: u32) = ?n" using assms(4) by (intro unat_of_nat_small) simp
  have "0 < ?n" using assms(2,3) by simp
  then have "0 < sint (of_nat ?n :: u32)"
    using sint_small [of "of_nat ?n"] u assms(4) by (simp del: of_nat_mult of_nat_unat)
  from xmalloc_spec [OF assms(1) this] u assms(5)
  obtain m' where "xmalloc m (of_nat ?n) = Some (of_nat H, m')" "heap_kept m m'"
    "heap_inv m' (H + round_up 4 ?n) H" by auto
  moreover from this have "kept own_bytes m m'" by (simp add: heap_kept_kept)
  ultimately show thesis
    using that [of m'] assms(4) kept_length by (auto simp: calloc_malloc simp del: of_nat_mult)
qed

end
