(* ===== verification/Codegen_Logic.thy ===== *)
theory Codegen_Logic
  imports Frames
begin

text \<open>
  The boolean connectives of the filter compiler (\<open>_gen_and\<close>, \<open>_gen_or\<close>, \<open>_gen_not\<close> and
  \<open>_sappend\<close> of \<open>internal/bpf.go\<close>). A fragment of code is a graph of blocks in memory; its open
  exits are threaded through the very jump fields that are still to be filled in, one list for
  the exit taken when the condition holds and one for the other. The second part gives fragments
  a meaning and shows that the three functions compute conjunction, disjunction and negation.

  The fields of a block that are used here, by offset: 44 the sense, 60 and 84 the jumps taken
  when the test of the block succeeds and fails, 96 the block where the fragment starts, 208
  whether the fragment is known to be always true (1) or always false (2).
\<close>

section \<open>The code\<close>

text \<open>The jump field that continues the list through a block: \<open>p4 := 60; if sense != 0 { p4 = 84 }\<close>.\<close>

definition link_field :: "memory \<Rightarrow> u32 \<Rightarrow> u32 option" where
  "link_field m v2 = do { t3 \<leftarrow> load32 m (unat v2 + 44); Some (v2 + (if t3 \<noteq> 0 then 84 else 60)) }"

text \<open>The loop at \<open>l1\<close> of \<open>_gen_and\<close> and \<open>_gen_or\<close>: every exit of the list goes to \<open>v3\<close>.\<close>

partial_function (option) backpatch :: "memory \<Rightarrow> u32 \<Rightarrow> u32 \<Rightarrow> memory option" where
  "backpatch m v2 v3 =
     do {
       v4 \<leftarrow> link_field m v2;
       t6 \<leftarrow> load32 m (unat v4);
       m \<leftarrow> store32 m (unat v4) v3;
       if t6 \<noteq> 0 then backpatch m t6 v3 else Some m
     }"

text \<open>The loop at \<open>l2\<close>: the address of the last link of the list.\<close>

partial_function (option) last_link :: "memory \<Rightarrow> u32 \<Rightarrow> u32 option" where
  "last_link m v2 =
     do {
       v4 \<leftarrow> link_field m v2;
       t16 \<leftarrow> load32 m (unat v4);
       if t16 \<noteq> 0 then last_link m t16 else Some v4
     }"

definition gen_and :: "memory \<Rightarrow> u32 \<Rightarrow> u32 \<Rightarrow> (memory \<times> u32) option" where
  "gen_and m v0 v1 =
     do {
       t0 \<leftarrow> load32 m (unat v0 + 208);
       if t0 = 2 then Some (m, v0)
       else if t0 = 1 then Some (m, v1)
       else do {
         t1 \<leftarrow> load32 m (unat v1 + 208);
         if t1 = 2 then Some (m, v1)
         else if t1 = 1 then Some (m, v0)
         else do {
           t2 \<leftarrow> load32 m (unat v1 + 96);
           m \<leftarrow> backpatch m v0 t2;
           t7 \<leftarrow> load32 m (unat v0 + 44);
           m \<leftarrow> store32 m (unat v0 + 44) (if t7 = 0 then 1 else 0);
           t10 \<leftarrow> load32 m (unat v1 + 44);
           m \<leftarrow> store32 m (unat v1 + 44) (if t10 = 0 then 1 else 0);
           v4 \<leftarrow> last_link m v1;
           m \<leftarrow> store32 m (unat v4) v0;
           m \<leftarrow> store32 m (unat v1 + 44) (if t10 \<noteq> 0 then 1 else 0);
           t19 \<leftarrow> load32 m (unat v0 + 96);
           m \<leftarrow> store32 m (unat v1 + 96) t19;
           Some (m, v1)
         }
       }
     }"

definition gen_or :: "memory \<Rightarrow> u32 \<Rightarrow> u32 \<Rightarrow> (memory \<times> u32) option" where
  "gen_or m v0 v1 =
     do {
       t0 \<leftarrow> load32 m (unat v0 + 208);
       if t0 = 2 then Some (m, v1)
       else if t0 = 1 then Some (m, v0)
       else do {
         t1 \<leftarrow> load32 m (unat v1 + 208);
         if t1 = 2 then Some (m, v0)
         else if t1 = 1 then Some (m, v1)
         else do {
           t2 \<leftarrow> load32 m (unat v0 + 44);
           m \<leftarrow> store32 m (unat v0 + 44) (if t2 = 0 then 1 else 0);
           t5 \<leftarrow> load32 m (unat v1 + 96);
           m \<leftarrow> backpatch m v0 t5;
           m \<leftarrow> store32 m (unat v0 + 44) (if t2 \<noteq> 0 then 1 else 0);
           v3 \<leftarrow> last_link m v1;
           m \<leftarrow> store32 m (unat v3) v0;
           t16 \<leftarrow> load32 m (unat v0 + 96);
           m \<leftarrow> store32 m (unat v1 + 96) t16;
           Some (m, v1)
         }
       }
     }"

definition gen_not :: "memory \<Rightarrow> u32 \<Rightarrow> (memory \<times> u32) option" where
  "gen_not m v0 =
     do {
       t0 \<leftarrow> load32 m (unat v0 + 44);
       m \<leftarrow> store32 m (unat v0 + 44) (if t0 = 0 then 1 else 0);
       t3 \<leftarrow> load32 m (unat v0 + 208);
       if t3 = 1 then do { m \<leftarrow> store32 m (unat v0 + 208) 2; Some (m, v0) }
       else if t3 = 2 then do { m \<leftarrow> store32 m (unat v0 + 208) 1; Some (m, v0) }
       else Some (m, v0)
     }"

text \<open>\<open>_sappend\<close> walks the statement list of \<open>v0\<close> to its end and hangs \<open>v1\<close> there.\<close>

partial_function (option) sappend :: "memory \<Rightarrow> u32 \<Rightarrow> u32 \<Rightarrow> memory option" where
  "sappend m v0 v1 =
     do {
       t0 \<leftarrow> load32 m (unat v0 + 16);
       if t0 \<noteq> 0 then sappend m t0 v1 else store32 m (unat v0 + 16) v1
     }"

section \<open>Graphs of blocks\<close>

text \<open>
  A graph gives the fields of its blocks by offset. \<open>graph_at m B G\<close>: the blocks at the addresses
  \<open>B\<close> lie apart from each other in memory and hold the fields that \<open>G\<close> says.
\<close>

type_synonym graph = "u32 \<Rightarrow> nat \<Rightarrow> u32"

definition block_fields :: "nat set" where
  "block_fields = {44, 60, 84, 96, 208}"

definition graph_at :: "memory \<Rightarrow> u32 set \<Rightarrow> graph \<Rightarrow> bool" where
  "graph_at m B G \<longleftrightarrow> length m \<le> 2 ^ 32 \<and>
     (\<forall>b \<in> B. b \<noteq> 0 \<and> unat b + 212 \<le> length m \<and>
        (\<forall>off \<in> block_fields. load32 m (unat b + off) = Some (G b off))) \<and>
     (\<forall>b \<in> B. \<forall>c \<in> B. b \<noteq> c \<longrightarrow> unat b + 212 \<le> unat c \<or> unat c + 212 \<le> unat b)"

definition set_field :: "graph \<Rightarrow> u32 \<Rightarrow> nat \<Rightarrow> u32 \<Rightarrow> graph" where
  "set_field G b off v = G(b := (G b)(off := v))"

lemma set_field_apply:
  "set_field G b off v c o' = (if c = b \<and> o' = off then v else G c o')"
  by (simp add: set_field_def)

lemma set_field_simps [simp]:
  "set_field G b off v b off = v"
  "c \<noteq> b \<or> o' \<noteq> off \<Longrightarrow> set_field G b off v c o' = G c o'"
  by (auto simp: set_field_def)

lemma graph_at_load:
  "graph_at m B G \<Longrightarrow> b \<in> B \<Longrightarrow> off \<in> block_fields \<Longrightarrow> load32 m (unat b + off) = Some (G b off)"
  by (simp add: graph_at_def)

lemma block_fields_simps [simp]:
  "44 \<in> block_fields" "60 \<in> block_fields" "84 \<in> block_fields" "96 \<in> block_fields" "208 \<in> block_fields"
  by (simp_all add: block_fields_def)

lemma block_fields_apart:
  "off \<in> block_fields \<Longrightarrow> off' \<in> block_fields \<Longrightarrow> off \<noteq> off' \<Longrightarrow> off + 4 \<le> off' \<or> off' + 4 \<le> off"
  "off \<in> block_fields \<Longrightarrow> off + 4 \<le> 212"
  by (auto simp: block_fields_def)

text \<open>Only the fields of the blocks have changed.\<close>

definition graph_words :: "u32 set \<Rightarrow> nat set" where
  "graph_words B = (\<Union>b \<in> B. \<Union>off \<in> block_fields. span (unat b + off) 4)"

definition edited :: "u32 set \<Rightarrow> memory \<Rightarrow> memory \<Rightarrow> bool" where
  "edited B m m' \<longleftrightarrow> length m' = length m \<and> kept (graph_words B) m m'"

lemma edited_refl [simp]: "edited B m m"
  by (simp add: edited_def)

lemma edited_trans [trans]: "edited B m1 m2 \<Longrightarrow> edited B m2 m3 \<Longrightarrow> edited B m1 m3"
  by (auto simp: edited_def elim: kept_trans)

lemma edited_store:
  assumes "store32 m (unat b + off) v = Some m'" "b \<in> B" "off \<in> block_fields"
  shows "edited B m m'"
  using length_store32 [OF assms(1)] kept_mono [OF kept_store32 [OF assms(1)], of "graph_words B"] assms(2,3)
  unfolding edited_def graph_words_def by blast

lemma graph_at_store:
  assumes "graph_at m B G" "b \<in> B" "off \<in> block_fields"
  shows "\<exists>m'. store32 m (unat b + off) v = Some m' \<and> graph_at m' B (set_field G b off v) \<and> edited B m m'"
proof -
  have "unat b + off + 4 \<le> length m" using assms block_fields_apart(2) by (fastforce simp: graph_at_def)
  then obtain m' where m': "store32 m (unat b + off) v = Some m'" using store32_in by blast
  have "load32 m' (unat c + off') = Some (set_field G b off v c off')"
    if c: "c \<in> B" "off' \<in> block_fields" for c off'
  proof (cases "c = b \<and> off' = off")
    case True
    with load32_store32 [OF m'] show ?thesis by simp
  next
    case False
    have "unat b + off + 4 \<le> unat c + off' \<or> unat c + off' + 4 \<le> unat b + off"
    proof (cases "c = b")
      case True
      with False c assms(3) block_fields_apart(1) [of off off'] show ?thesis by auto
    next
      case False
      with assms c have "unat b + 212 \<le> unat c \<or> unat c + 212 \<le> unat b"
        by (auto simp: graph_at_def)
      with block_fields_apart(2) [OF assms(3)] block_fields_apart(2) [OF c(2)] show ?thesis by linarith
    qed
    with load32_store32_other [OF m'] graph_at_load [OF assms(1) c] False show ?thesis by auto
  qed
  with m' length_store32 [OF m'] assms(1) edited_store [OF m' assms(2,3)] show ?thesis by (auto simp: graph_at_def)
qed

section \<open>Lists of exits\<close>

text \<open>
  An exit is a jump field of a block. \<open>exits G p xs\<close>: from the block \<open>p\<close> on, the links through
  the exits \<open>xs\<close> lead to 0.
\<close>

type_synonym exit_slot = "u32 \<times> nat"

fun exits :: "graph \<Rightarrow> u32 \<Rightarrow> exit_slot list \<Rightarrow> bool" where
  "exits G p [] \<longleftrightarrow> p = 0"
| "exits G p ((b, off) # xs) \<longleftrightarrow> p = b \<and> b \<noteq> 0 \<and> exits G (G b off) xs"

definition jump_field :: "u32 \<Rightarrow> nat" where
  "jump_field s = (if s \<noteq> 0 then 84 else 60)"

definition link :: "graph \<Rightarrow> u32 \<Rightarrow> nat" where
  "link G b = jump_field (G b 44)"

definition follows_sense :: "graph \<Rightarrow> exit_slot list \<Rightarrow> bool" where
  "follows_sense G xs \<longleftrightarrow> (\<forall>(b, off) \<in> set xs. off = link G b)"

definition patch :: "graph \<Rightarrow> exit_slot list \<Rightarrow> u32 \<Rightarrow> graph" where
  "patch G xs t = (\<lambda>b off. if (b, off) \<in> set xs then t else G b off)"

lemma patch_Nil [simp]: "patch G [] t = G"
  by (simp add: patch_def)

lemma patch_Cons: "patch G ((b, off) # xs) t = patch (set_field G b off t) xs t"
  by (auto simp: patch_def set_field_apply fun_eq_iff)

lemma exits_cong:
  "(\<And>b off. (b, off) \<in> set xs \<Longrightarrow> G b off = G' b off) \<Longrightarrow> exits G p xs = exits G' p xs"
proof (induction xs arbitrary: p)
  case (Cons x xs)
  obtain b off where x: "x = (b, off)" by (cases x)
  with Cons.prems have "G b off = G' b off" by simp
  with Cons x show ?case by simp
qed simp

text \<open>Two lists joined at the last link of the first.\<close>

lemma exits_join:
  assumes "exits G p (xs @ [(b, off)])" "exits G q ys" "(b, off) \<notin> set xs" "(b, off) \<notin> set ys"
  shows "exits (set_field G b off q) p ((xs @ [(b, off)]) @ ys)"
  using assms(1,3)
proof (induction xs arbitrary: p)
  case Nil
  have "exits (set_field G b off q) q ys = exits G q ys"
    by (rule exits_cong) (use assms(4) in \<open>auto simp: set_field_apply\<close>)
  with Nil assms(2) show ?case by simp
next
  case (Cons x xs)
  obtain c o' where "x = (c, o')" by (cases x)
  with Cons show ?case by auto
qed

lemma link_field_graph:
  assumes "graph_at m B G" "b \<in> B"
  shows "\<exists>a. link_field m b = Some a \<and> unat a = unat b + link G b" "link G b \<in> block_fields"
proof -
  have "unat b + 212 \<le> 2 ^ 32" using assms by (fastforce simp: graph_at_def)
  then have "unat (b + 60) = unat b + 60" "unat (b + 84) = unat b + 84"
    by (auto simp: unat_add_no_wrap)
  then show "\<exists>a. link_field m b = Some a \<and> unat a = unat b + link G b"
    using graph_at_load [OF assms, of 44] by (auto simp: link_field_def link_def jump_field_def)
  show "link G b \<in> block_fields" by (simp add: link_def jump_field_def)
qed

lemma link_set_jump [simp]:
  "off \<noteq> 44 \<Longrightarrow> link (set_field G b off v) = link G"
  by (auto simp: link_def set_field_apply fun_eq_iff)

lemma link_not_44 [simp]: "link G b \<noteq> 44"
  by (simp add: link_def jump_field_def)

text \<open>The two loops on a list of exits.\<close>

lemma backpatch_graph:
  assumes "graph_at m B G" "exits G p xs" "xs \<noteq> []" "follows_sense G xs" "fst ` set xs \<subseteq> B"
    "distinct (map fst xs)"
  shows "\<exists>m'. backpatch m p t = Some m' \<and> graph_at m' B (patch G xs t) \<and> edited B m m'"
  using assms
proof (induction xs arbitrary: m G p)
  case Nil
  then show ?case by simp
next
  case (Cons x xs)
  obtain b where x: "x = (b, link G b)" "b \<in> B" "b \<noteq> 0" "p = b"
    using Cons.prems by (cases x) (auto simp: follows_sense_def)
  obtain a where a: "link_field m b = Some a" "unat a = unat b + link G b"
    using link_field_graph [OF Cons.prems(1) x(2)] by blast
  have ld: "load32 m (unat a) = Some (G b (link G b))"
    using graph_at_load [OF Cons.prems(1) x(2) link_field_graph(2) [OF Cons.prems(1) x(2)]] a by simp
  obtain m1 where m1: "store32 m (unat a) t = Some m1" "graph_at m1 B (set_field G b (link G b) t)" "edited B m m1"
    using graph_at_store [OF Cons.prems(1) x(2) link_field_graph(2) [OF Cons.prems(1) x(2)], of t] a
    by auto
  have step: "backpatch m p t =
      (if G b (link G b) \<noteq> 0 then backpatch m1 (G b (link G b)) t else Some m1)"
    using a ld m1(1) x(4) by (subst backpatch.simps) simp
  have ex: "exits G (G b (link G b)) xs" using Cons.prems(2) x by simp
  show ?case
  proof (cases "xs = []")
    case True
    with ex step m1 x show ?thesis by (simp add: patch_Cons)
  next
    case False
    let ?G = "set_field G b (link G b) t"
    have nb: "b \<notin> fst ` set xs" using Cons.prems(6) x by simp
    have "exits ?G (G b (link G b)) xs = exits G (G b (link G b)) xs"
      by (rule exits_cong) (metis nb fst_conv image_eqI set_field_simps(2))
    moreover have "follows_sense ?G xs" using Cons.prems(4) by (simp add: follows_sense_def)
    moreover have "G b (link G b) \<noteq> 0" using ex False by (cases xs) auto
    ultimately show ?thesis
      using Cons.IH [OF m1(2)] ex step False Cons.prems(5,6)
      by (fastforce simp: x patch_Cons elim: edited_trans [OF m1(3)])
  qed
qed

lemma last_link_graph:
  assumes "graph_at m B G" "exits G p (xs @ [(b, off)])" "follows_sense G (xs @ [(b, off)])"
    "fst ` set (xs @ [(b, off)]) \<subseteq> B"
  shows "\<exists>a. last_link m p = Some a \<and> unat a = unat b + off"
  using assms(2-4)
proof (induction xs arbitrary: p)
  case Nil
  then have b: "p = b" "b \<in> B" "off = link G b" "G b (link G b) = 0" by (auto simp: follows_sense_def)
  obtain a where a: "link_field m b = Some a" "unat a = unat b + link G b"
    using link_field_graph [OF assms(1) b(2)] by blast
  with graph_at_load [OF assms(1) b(2) link_field_graph(2) [OF assms(1) b(2)]] b show ?case
    by (subst last_link.simps) simp
next
  case (Cons x xs)
  obtain c where x: "x = (c, link G c)" "c \<in> B" "p = c"
    using Cons.prems by (cases x) (auto simp: follows_sense_def)
  obtain a where a: "link_field m c = Some a" "unat a = unat c + link G c"
    using link_field_graph [OF assms(1) x(2)] by blast
  have "exits G (G c (link G c)) (xs @ [(b, off)])" using Cons.prems(1) x by simp
  moreover from this have "G c (link G c) \<noteq> 0" by (cases xs) auto
  ultimately show ?case
    using Cons.IH [of "G c (link G c)"] Cons.prems a x
      graph_at_load [OF assms(1) x(2) link_field_graph(2) [OF assms(1) x(2)]]
    by (subst last_link.simps) (simp add: follows_sense_def)
qed

section \<open>Fragments and their meaning\<close>

text \<open>
  Running a fragment with the test results \<open>ev\<close>: a block whose test has no result (its statements
  read beyond the packet) stops the run; else it jumps through its field 60 or 84, and the run ends
  with true or false when that field is an open exit of the one or the other list. The connectives
  of such results look at the second operand only when the first does not decide.
\<close>

type_synonym results = "u32 \<Rightarrow> bool option"

definition and3 :: "bool option \<Rightarrow> bool option \<Rightarrow> bool option" where
  "and3 a b = (if a = Some True then b else a)"

definition or3 :: "bool option \<Rightarrow> bool option \<Rightarrow> bool option" where
  "or3 a b = (if a = Some False then b else a)"

definition not3 :: "bool option \<Rightarrow> bool option" where
  "not3 a = map_option Not a"

lemma not3_simps [simp]: "not3 None = None" "not3 (Some b) = Some (\<not> b)" "not3 (not3 a) = a"
  by (cases a, simp_all add: not3_def)+

lemma decided3 [simp]:
  "and3 (Some True) b = b" "and3 (Some False) b = Some False" "and3 None b = None"
  "or3 (Some False) b = b" "or3 (Some True) b = Some True" "or3 None b = None"
  by (simp_all add: and3_def or3_def)

lemma option_bool_cases: "(x = None \<Longrightarrow> P) \<Longrightarrow> (x = Some True \<Longrightarrow> P) \<Longrightarrow> (x = Some False \<Longrightarrow> P) \<Longrightarrow> P"
  by (cases x) auto

lemma not3_and3: "not3 (and3 (not3 a) (not3 b)) = or3 a b"
  by (cases a; cases b) (auto simp: and3_def or3_def)

definition taken :: "results \<Rightarrow> u32 \<Rightarrow> nat" where
  "taken ev c = (if ev c = Some True then 60 else 84)"

inductive leads_to ::
  "graph \<Rightarrow> u32 set \<Rightarrow> exit_slot list \<Rightarrow> exit_slot list \<Rightarrow> results \<Rightarrow> u32 \<Rightarrow> bool option \<Rightarrow> bool"
  for G B T F ev where
  leads_Stop: "c \<in> B \<Longrightarrow> ev c = None \<Longrightarrow> leads_to G B T F ev c None"
| leads_True: "c \<in> B \<Longrightarrow> ev c \<noteq> None \<Longrightarrow> (c, taken ev c) \<in> set T \<Longrightarrow> leads_to G B T F ev c (Some True)"
| leads_False: "c \<in> B \<Longrightarrow> ev c \<noteq> None \<Longrightarrow> (c, taken ev c) \<in> set F \<Longrightarrow> leads_to G B T F ev c (Some False)"
| leads_on: "c \<in> B \<Longrightarrow> ev c \<noteq> None \<Longrightarrow> (c, taken ev c) \<notin> set T \<Longrightarrow> (c, taken ev c) \<notin> set F \<Longrightarrow>
    leads_to G B T F ev (G c (taken ev c)) r \<Longrightarrow> leads_to G B T F ev c r"

inductive_cases leads_toE: "leads_to G B T F ev c r"

text \<open>
  A fragment with last block \<open>b\<close>: its true exits start with the field of \<open>b\<close> that its sense
  picks, its false exits with the other; the rest of both lists follows the senses of the blocks.
  Its meaning \<open>phi\<close> is where it leads from its start, for all test results. A fragment is one whose
  outcome the compiler does not know in advance: field 208 of its last block is neither 1 nor 2.
\<close>

definition wired ::
  "graph \<Rightarrow> u32 set \<Rightarrow> u32 \<Rightarrow> exit_slot list \<Rightarrow> exit_slot list \<Rightarrow> (results \<Rightarrow> bool option) \<Rightarrow> bool"
where
  "wired G B b T F phi \<longleftrightarrow>
     b \<in> B \<and> T \<noteq> [] \<and> F \<noteq> [] \<and> hd T = (b, link G b) \<and> hd F = (b, 144 - link G b) \<and>
     exits G b T \<and> exits G b F \<and> follows_sense G (tl T) \<and> follows_sense G (tl F) \<and>
     distinct (b # map fst (tl T) @ map fst (tl F)) \<and> fst ` set (tl T) \<subseteq> B \<and> fst ` set (tl F) \<subseteq> B \<and>
     (\<forall>ev. leads_to G B T F ev (G b 96) (phi ev))"

definition fragment ::
  "graph \<Rightarrow> u32 set \<Rightarrow> u32 \<Rightarrow> exit_slot list \<Rightarrow> exit_slot list \<Rightarrow> (results \<Rightarrow> bool option) \<Rightarrow> bool"
where
  "fragment G B b T F phi \<longleftrightarrow> wired G B b T F phi \<and>
     G b 208 \<notin> {1, 2}"

lemma link_cases: "link G b = 60 \<or> link G b = 84"
  by (simp add: link_def jump_field_def)

lemma follows_sense_cong:
  "(\<And>x. x \<in> fst ` set xs \<Longrightarrow> link G' x = link G x) \<Longrightarrow> follows_sense G' xs = follows_sense G xs"
  unfolding follows_sense_def by (intro ball_cong refl, clarsimp) (metis fst_conv image_eqI)

lemma wired_lists:
  assumes "wired G B b T F phi"
  obtains T' F' where "T = (b, link G b) # T'" "F = (b, 144 - link G b) # F'"
    "follows_sense G T'" "follows_sense G F'" "distinct (b # map fst T' @ map fst F')"
    "fst ` set T' \<subseteq> B" "fst ` set F' \<subseteq> B" "b \<in> B"
  using assms unfolding wired_def by (metis list.collapse)

lemma wired_slots:
  assumes "wired G B b T F phi" "(c, off) \<in> set T \<union> set F"
  shows "c \<in> B" "off = 60 \<or> off = 84"
proof -
  obtain T' F' where TF: "T = (b, link G b) # T'" "F = (b, 144 - link G b) # F'"
    "follows_sense G T'" "follows_sense G F'" "fst ` set T' \<subseteq> B" "fst ` set F' \<subseteq> B" "b \<in> B"
    using assms(1) by (rule wired_lists)
  from assms(2) TF(1,2) consider "c = b" "off = link G b \<or> off = 144 - link G b"
    | "(c, off) \<in> set T' \<union> set F'" by auto
  then have "c \<in> B \<and> (off = 60 \<or> off = 84)"
  proof cases
    case 1
    with TF(7) link_cases [of G b] show ?thesis by auto
  next
    case 2
    then have "c \<in> fst ` set T' \<union> fst ` set F'" "off = link G c"
      using TF(3,4) by (auto simp: follows_sense_def image_iff intro: bexI [rotated])
    with TF(5,6) link_cases [of G c] show ?thesis by auto
  qed
  then show "c \<in> B" "off = 60 \<or> off = 84" by blast+
qed

lemma wired_apart:
  assumes "wired G B b T F phi"
  shows "set T \<inter> set F = {}" "distinct T" "distinct F"
proof -
  obtain T' F' where TF: "T = (b, link G b) # T'" "F = (b, 144 - link G b) # F'"
    "distinct (b # map fst T' @ map fst F')"
    using assms by (rule wired_lists)
  have "144 - link G b \<noteq> link G b" using link_cases [of G b] by auto
  moreover have "b \<notin> fst ` set T'" "b \<notin> fst ` set F'" "fst ` set T' \<inter> fst ` set F' = {}"
    "distinct T'" "distinct F'"
    using TF(3) by (auto simp: distinct_map)
  ultimately show "set T \<inter> set F = {}" "distinct T" "distinct F" unfolding TF by force+
qed

text \<open>The sense of the last block decides which list is the true one.\<close>

lemma leads_to_swap: "leads_to G B T F ev c r \<Longrightarrow> leads_to G B F T ev c (not3 r)"
  by (induction rule: leads_to.induct) (auto intro: leads_to.intros)

lemma leads_to_cong:
  assumes "leads_to G B T F ev c r"
    and "\<And>x off. off = 60 \<or> off = 84 \<Longrightarrow> (x, off) \<notin> set T \<union> set F \<Longrightarrow> x \<in> B \<Longrightarrow> G' x off = G x off"
  shows "leads_to G' B T F ev c r"
  using assms(1)
proof (induction rule: leads_to.induct)
  case (leads_on c r)
  then have "G' c (taken ev c) = G c (taken ev c)" by (intro assms(2)) (auto simp: taken_def)
  with leads_on show ?case by (metis leads_to.leads_on)
qed (auto intro: leads_to.intros)

lemma wired_not:
  assumes "wired G B b T F phi"
    and link: "link G' b = 144 - link G b" "\<And>x. x \<in> B \<Longrightarrow> x \<noteq> b \<Longrightarrow> link G' x = link G x"
    and same: "\<And>x off. x \<in> B \<Longrightarrow> off \<noteq> 44 \<Longrightarrow> off \<noteq> 208 \<Longrightarrow> G' x off = G x off"
  shows "wired G' B b F T (\<lambda>ev. not3 (phi ev))"
proof -
  obtain T' F' where TF: "T = (b, link G b) # T'" "F = (b, 144 - link G b) # F'"
    "follows_sense G T'" "follows_sense G F'" "distinct (b # map fst T' @ map fst F')"
    "fst ` set T' \<subseteq> B" "fst ` set F' \<subseteq> B" "b \<in> B"
    using assms(1) by (rule wired_lists)
  have "link G' x = link G x" if "x \<in> fst ` set T' \<union> fst ` set F'" for x
    using that TF(5-7) by (intro link(2)) auto
  then have "follows_sense G' T'" "follows_sense G' F'"
    using TF(3,4) follows_sense_cong [of T' G' G] follows_sense_cong [of F' G' G] by blast+
  moreover have same_slot: "G' x off = G x off" if "(x, off) \<in> set T \<union> set F" for x off
    using wired_slots [OF assms(1) that] by (intro same) auto
  have "exits G' b T = exits G b T" "exits G' b F = exits G b F"
    by (rule exits_cong, use same_slot in blast)+
  moreover have "leads_to G' B F T ev (G' b 96) (not3 (phi ev))" for ev
  proof -
    have "leads_to G B T F ev (G b 96) (phi ev)" using assms(1) by (simp add: wired_def)
    then have "leads_to G' B T F ev (G b 96) (phi ev)" by (rule leads_to_cong) (auto intro: same)
    then show ?thesis using same [OF TF(8), of 96] leads_to_swap by simp
  qed
  moreover have "144 - link G' b = link G b" using link(1) link_cases [of G b] by auto
  ultimately show ?thesis
    using assms(1) TF link(1) unfolding wired_def by auto
qed


text \<open>Joining two fragments: the true exits of the first go to the start of the second.\<close>

lemma wired_disjoint:
  assumes "wired G B0 b0 T0 F0 phi0" "wired G B1 b1 T1 F1 phi1" "B0 \<inter> B1 = {}"
  shows "(x, off) \<in> set T0 \<union> set F0 \<Longrightarrow> (x, off) \<notin> set T1 \<union> set F1"
    "x \<in> B1 \<Longrightarrow> (x, off) \<notin> set T0 \<union> set F0" "x \<in> B0 \<Longrightarrow> (x, off) \<notin> set T1 \<union> set F1"
  using wired_slots(1) [OF assms(1), of x off] wired_slots(1) [OF assms(2), of x off] assms(3) by blast+

lemma taken_jump: "taken ev c = 60 \<or> taken ev c = 84"
  by (simp add: taken_def)

lemma leads_to_joined:
  assumes a: "wired G B0 b0 T0 F0 phi0" and b: "wired G B1 b1 T1 F1 phi1" and disj: "B0 \<inter> B1 = {}"
    and G': "\<And>x off. off = 60 \<or> off = 84 \<Longrightarrow> G' x off =
      (if (x, off) \<in> set T0 then h1 else if (x, off) = last F1 then b0 else G x off)"
  shows "leads_to G B1 T1 F1 ev x r \<Longrightarrow> leads_to G' (B0 \<union> B1) T1 (F1 @ F0) ev x r"
    and "leads_to G B0 T0 F0 ev x r \<Longrightarrow> (r = Some True \<Longrightarrow> leads_to G' (B0 \<union> B1) T1 (F1 @ F0) ev h1 s) \<Longrightarrow>
      leads_to G' (B0 \<union> B1) T1 (F1 @ F0) ev x (and3 r s)"
proof -
  have F1: "last F1 \<in> set F1" using b by (simp add: wired_def)
  note dis = wired_disjoint [OF a b disj]
  show "leads_to G B1 T1 F1 ev x r \<Longrightarrow> leads_to G' (B0 \<union> B1) T1 (F1 @ F0) ev x r"
  proof (induction rule: leads_to.induct)
    case (leads_on c r)
    have n: "(c, taken ev c) \<notin> set T0 \<union> set F0" by (rule dis(2) [OF leads_on(1)])
    have "(c, taken ev c) \<noteq> last F1" using leads_on(4) F1 by metis
    with n G' [OF taken_jump, of c ev c] have "G' c (taken ev c) = G c (taken ev c)" by simp
    with leads_on n show ?case by - (rule leads_to.leads_on, simp_all)
  qed (simp_all add: leads_Stop leads_True leads_False)
  show "leads_to G B0 T0 F0 ev x r \<Longrightarrow> (r = Some True \<Longrightarrow> leads_to G' (B0 \<union> B1) T1 (F1 @ F0) ev h1 s) \<Longrightarrow>
      leads_to G' (B0 \<union> B1) T1 (F1 @ F0) ev x (and3 r s)"
  proof (induction rule: leads_to.induct)
    case (leads_Stop c)
    then show ?case by (simp add: and3_def leads_to.leads_Stop)
  next
    case (leads_True c)
    have n: "(c, taken ev c) \<notin> set T1 \<union> set F1" by (rule dis(3) [OF leads_True(1)])
    have "(c, taken ev c) \<notin> set F0" using wired_apart(1) [OF a] leads_True(3) by blast
    moreover have "G' c (taken ev c) = h1" using leads_True(3) G' [OF taken_jump, of c ev c] by simp
    ultimately show ?case using leads_True n by (intro leads_to.leads_on [of c]) simp_all
  next
    case (leads_False c)
    then show ?case by (simp add: and3_def leads_to.leads_False)
  next
    case (leads_on c r)
    have n: "(c, taken ev c) \<notin> set T1 \<union> set F1" by (rule dis(3) [OF leads_on(1)])
    then have "(c, taken ev c) \<noteq> last F1" using F1 by (metis UnCI)
    with leads_on(3) G' [OF taken_jump, of c ev c] have "G' c (taken ev c) = G c (taken ev c)" by simp
    with leads_on n show ?case by - (rule leads_to.leads_on, simp_all)
  qed
qed

lemma wired_and:
  assumes a: "wired G B0 b0 T0 F0 phi0" and b: "wired G B1 b1 T1 F1 phi1" and disj: "B0 \<inter> B1 = {}"
    and G': "\<And>x off. off = 60 \<or> off = 84 \<Longrightarrow> G' x off =
      (if (x, off) \<in> set T0 then G b1 96 else if (x, off) = last F1 then b0 else G x off)"
    and link: "link G' b0 = 144 - link G b0" "\<And>x. x \<in> B0 \<union> B1 \<Longrightarrow> x \<noteq> b0 \<Longrightarrow> link G' x = link G x"
    and head: "G' b1 96 = G b0 96"
  shows "wired G' (B0 \<union> B1) b1 T1 (F1 @ F0) (\<lambda>ev. and3 (phi0 ev) (phi1 ev))"
proof -
  obtain T0' F0' where TF0: "T0 = (b0, link G b0) # T0'" "F0 = (b0, 144 - link G b0) # F0'"
    "follows_sense G T0'" "follows_sense G F0'" "distinct (b0 # map fst T0' @ map fst F0')"
    "fst ` set T0' \<subseteq> B0" "fst ` set F0' \<subseteq> B0" "b0 \<in> B0"
    using a by (rule wired_lists)
  obtain T1' F1' where TF1: "T1 = (b1, link G b1) # T1'" "F1 = (b1, 144 - link G b1) # F1'"
    "follows_sense G T1'" "follows_sense G F1'" "distinct (b1 # map fst T1' @ map fst F1')"
    "fst ` set T1' \<subseteq> B1" "fst ` set F1' \<subseteq> B1" "b1 \<in> B1"
    using b by (rule wired_lists)
  note s0 = wired_slots [OF a] and s1 = wired_slots [OF b]
  have b01: "b1 \<noteq> b0" using TF0(8) TF1(8) disj by blast
  have l: "link G' x = link G x" if "x \<in> fst ` set T1' \<union> fst ` set F1' \<union> fst ` set F0'" for x
    using that TF0(5-8) TF1(5-8) disj by (intro link(2)) auto
  have sense: "follows_sense G' T1'" "follows_sense G' F1'" "follows_sense G' F0'"
    using TF0(4) TF1(3,4) l follows_sense_cong [of T1' G' G] follows_sense_cong [of F1' G' G]
      follows_sense_cong [of F0' G' G] by blast+
  have last: "last F1 \<in> set F1" using TF1(2) by simp
  have "G' x off = G x off" if t: "(x, off) \<in> set T1" for x off
  proof -
    have "off = 60 \<or> off = 84" using s1(2) t by blast
    moreover have "(x, off) \<notin> set T0" using wired_disjoint(1) [OF a b disj, of x off] t by blast
    moreover have "(x, off) \<noteq> last F1" using wired_apart(1) [OF b] t last by (metis IntI empty_iff)
    ultimately show ?thesis by (simp add: G')
  qed
  then have "exits G' b1 T1 = exits G b1 T1" by (rule exits_cong)
  moreover have "exits G' b1 (F1 @ F0)"
  proof -
    obtain xs c off where F1: "F1 = xs @ [(c, off)]"
      using TF1(2) by (metis append_butlast_last_id list.distinct(1) surj_pair)
    have "exits (set_field G c off b0) b1 ((xs @ [(c, off)]) @ F0)"
      using a b F1 wired_apart(3) [OF b] s0(1) [of c off] s1(1) [of c off] disj
      by (intro exits_join) (auto simp: wired_def)
    moreover have "G' x o' = set_field G c off b0 x o'" if "(x, o') \<in> set (F1 @ F0)" for x o'
    proof -
      have "(x, o') \<notin> set T0"
        using that wired_apart(1) [OF a] wired_disjoint(1) [OF a b disj, of x o'] by auto
      moreover have "o' = 60 \<or> o' = 84" using that s0(2) s1(2) by auto
      ultimately show ?thesis by (simp add: G' F1 set_field_apply)
    qed
    ultimately show ?thesis using exits_cong [of "F1 @ F0" G' "set_field G c off b0" b1] F1 by simp
  qed
  moreover have "leads_to G' (B0 \<union> B1) T1 (F1 @ F0) ev (G' b1 96) (and3 (phi0 ev) (phi1 ev))" for ev
    unfolding head
    by (rule leads_to_joined(2) [OF a b disj G'], simp, use a in \<open>simp add: wired_def\<close>,
        rule leads_to_joined(1) [OF a b disj G'], simp, use b in \<open>simp add: wired_def\<close>)
  moreover have "follows_sense G' (F1' @ F0)"
    using sense link(1) by (auto simp: follows_sense_def TF0(2))
  moreover have "distinct (b1 # map fst T1' @ map fst (F1' @ F0))"
  proof -
    have "fst ` set F0' \<inter> (fst ` set F1' \<union> fst ` set T1') = {}" "b0 \<notin> fst ` set F1' \<union> fst ` set T1'"
      "b1 \<notin> fst ` set F0'"
      using TF0(7,8) TF1(6-8) disj by blast+
    with TF0(5) TF1(5) b01 show ?thesis unfolding TF0(2) by (simp add: Int_commute Int_Un_distrib)
  qed
  moreover have "fst ` set T1' \<subseteq> B0 \<union> B1" "fst ` set (F1' @ F0) \<subseteq> B0 \<union> B1"
    using TF0(7,8) TF1(6,7) unfolding TF0(2) by auto
  ultimately show ?thesis
    using b TF1 sense(1) link(2) [of b1] b01 unfolding wired_def by (simp add: TF1(1,2))
qed

text \<open>Turning the sense of a block, and disjunction by way of conjunction.\<close>

definition set_sense :: "graph \<Rightarrow> u32 \<Rightarrow> bool \<Rightarrow> graph" where
  "set_sense G b s = set_field G b 44 (if s then 1 else 0)"

lemma set_sense_other [simp]: "off \<noteq> 44 \<Longrightarrow> set_sense G b s x off = G x off"
  by (simp add: set_sense_def set_field_apply)

lemma link_set_sense:
  "link (set_sense G b (G b 44 = 0)) x = (if x = b then 144 - link G b else link G x)"
  "link (set_sense G b (G b 44 \<noteq> 0)) x = link G x"
  by (auto simp: link_def jump_field_def set_sense_def set_field_apply)

lemma wired_or:
  assumes a: "wired G B0 b0 T0 F0 phi0" and b: "wired G B1 b1 T1 F1 phi1" and disj: "B0 \<inter> B1 = {}"
    and G': "\<And>x off. off = 60 \<or> off = 84 \<Longrightarrow> G' x off =
      (if (x, off) \<in> set F0 then G b1 96 else if (x, off) = last T1 then b0 else G x off)"
    and link: "\<And>x. x \<in> B0 \<union> B1 \<Longrightarrow> link G' x = link G x"
    and head: "G' b1 96 = G b0 96"
  shows "wired G' (B0 \<union> B1) b1 (T1 @ T0) F1 (\<lambda>ev. or3 (phi0 ev) (phi1 ev))"
proof -
  have b01: "b0 \<in> B0" "b1 \<in> B1" "b0 \<noteq> b1" "b0 \<notin> B1" "b1 \<notin> B0" using a b disj by (auto simp: wired_def)
  define H0 where "H0 = set_sense G b0 (G b0 44 = 0)"
  define H where "H = set_sense H0 b1 (H0 b1 44 = 0)"
  define H' where "H' = set_sense G' b1 (G' b1 44 = 0)"
  have linkH: "link H x = (if x = b0 \<or> x = b1 then 144 - link G x else link G x)" for x
    using b01(3) by (simp add: H_def H0_def link_set_sense)
  have linkH': "link H' x = (if x = b1 then 144 - link G' b1 else link G' x)" for x
    by (simp add: H'_def link_set_sense)
  have same: "off \<noteq> 44 \<Longrightarrow> H x off = G x off" "off \<noteq> 44 \<Longrightarrow> H' x off = G' x off" for x off
    by (simp_all add: H_def H0_def H'_def)
  have two: "144 - (144 - link G x) = link G x" for x using link_cases [of G x] by auto
  have "wired H B0 b0 F0 T0 (\<lambda>ev. not3 (phi0 ev))"
    by (rule wired_not [OF a]) (use b01 in \<open>auto simp: linkH same\<close>)
  moreover have "wired H B1 b1 F1 T1 (\<lambda>ev. not3 (phi1 ev))"
    by (rule wired_not [OF b]) (use b01 in \<open>auto simp: linkH same\<close>)
  ultimately have "wired H' (B0 \<union> B1) b1 F1 (T1 @ T0) (\<lambda>ev. and3 (not3 (phi0 ev)) (not3 (phi1 ev)))"
    by (rule wired_and [OF _ _ disj]) (use b01 in \<open>auto simp: linkH linkH' same G' link head two\<close>)
  then have "wired G' (B0 \<union> B1) b1 (T1 @ T0) F1 (\<lambda>ev. not3 (and3 (not3 (phi0 ev)) (not3 (phi1 ev))))"
    by (rule wired_not) (use b01 link_cases [of G b1] in \<open>auto simp: linkH' same link\<close>)
  then show ?thesis by (simp add: not3_and3)
qed

section \<open>The connectives\<close>

lemma graph_at_store_sense:
  assumes "graph_at m B G" "b \<in> B"
  shows "\<exists>m'. store32 m (unat b + 44) (if s then 1 else 0) = Some m' \<and> graph_at m' B (set_sense G b s) \<and> edited B m m'"
  using graph_at_store [OF assms, of 44] by (simp add: set_sense_def)

lemma patch_other:
  "off \<noteq> 60 \<Longrightarrow> off \<noteq> 84 \<Longrightarrow> (\<And>x off. (x, off) \<in> set xs \<Longrightarrow> off = 60 \<or> off = 84) \<Longrightarrow> patch G xs t x off = G x off"
  by (auto simp: patch_def)

lemma link_cong: "G' x 44 = G x 44 \<Longrightarrow> link G' x = link G x"
  by (simp add: link_def)

lemma gen_and_wired:
  assumes g: "graph_at m B G" and sub: "B0 \<union> B1 \<subseteq> B" and disj: "B0 \<inter> B1 = {}"
    and a: "wired G B0 b0 T0 F0 phi0" and b: "wired G B1 b1 T1 F1 phi1"
    and uncertain: "G b0 208 \<notin> {1, 2}" "G b1 208 \<notin> {1, 2}"
  shows "\<exists>m' G'. gen_and m b0 b1 = Some (m', b1) \<and> graph_at m' B G' \<and> edited B m m' \<and>
    wired G' (B0 \<union> B1) b1 T1 (F1 @ F0) (\<lambda>ev. and3 (phi0 ev) (phi1 ev)) \<and> G' b1 208 = G b1 208 \<and>
    (\<forall>c off. c \<notin> B0 \<union> B1 \<longrightarrow> G' c off = G c off)"
proof -
  have b01: "b0 \<in> B0" "b1 \<in> B1" "b0 \<noteq> b1" "b0 \<in> B" "b1 \<in> B" using a b disj sub by (auto simp: wired_def)
  note s0 = wired_slots [OF a] and s1 = wired_slots [OF b]
  obtain T0' where T0: "T0 = (b0, link G b0) # T0'" "follows_sense G T0'" "distinct (b0 # map fst T0')"
    "fst ` set T0' \<subseteq> B0"
    using a by (rule wired_lists) (auto simp: distinct_map)
  obtain F1' where F1: "F1 = (b1, 144 - link G b1) # F1'" "follows_sense G F1'" "b1 \<notin> fst ` set F1'"
    "fst ` set F1' \<subseteq> B1"
    using b by (rule wired_lists) (auto simp: distinct_map)
  obtain xs c off where last: "F1 = xs @ [(c, off)]"
    using F1(1) by (metis append_butlast_last_id list.distinct(1) surj_pair)
  have co: "c \<in> B1" "off = 60 \<or> off = 84" "(c, off) \<notin> set T0"
    using s1 [of c off] wired_disjoint(1) [OF a b disj, of c off] by (auto simp: last)
  have cB: "c \<in> B" "off \<in> block_fields" using co sub by auto
  define G1 where "G1 = patch G T0 (G b1 96)"
  define G2 where "G2 = set_sense G1 b0 (G1 b0 44 = 0)"
  define G3 where "G3 = set_sense G2 b1 (G2 b1 44 = 0)"
  define G4 where "G4 = set_field G3 c off b0"
  define G5 where "G5 = set_sense G4 b1 (G2 b1 44 \<noteq> 0)"
  define G6 where "G6 = set_field G5 b1 96 (G5 b0 96)"
  have G1o: "o' \<noteq> 60 \<Longrightarrow> o' \<noteq> 84 \<Longrightarrow> G1 x o' = G x o'" for x o'
    unfolding G1_def using s0(2) by (intro patch_other) blast+
  have G3j: "o' = 60 \<or> o' = 84 \<Longrightarrow> G3 x o' = (if (x, o') \<in> set T0 then G b1 96 else G x o')" for x o'
    by (auto simp: G3_def G2_def G1_def patch_def)
  obtain m1 where m1: "backpatch m b0 (G b1 96) = Some m1" "graph_at m1 B G1" "edited B m m1"
    using backpatch_graph [OF g, of b0 T0 "G b1 96"] a T0 sub b01
    unfolding G1_def by (auto simp: wired_def follows_sense_def)
  obtain m2 where m2: "store32 m1 (unat b0 + 44) (if G1 b0 44 = 0 then 1 else 0) = Some m2" "graph_at m2 B G2" "edited B m1 m2"
    using graph_at_store_sense [OF m1(2) b01(4)] unfolding G2_def by blast
  obtain m3 where m3: "store32 m2 (unat b1 + 44) (if G2 b1 44 = 0 then 1 else 0) = Some m3" "graph_at m3 B G3" "edited B m2 m3"
    using graph_at_store_sense [OF m2(2) b01(5)] unfolding G3_def by blast
  have link3: "link G3 x = (if x = b0 \<or> x = b1 then 144 - link G x else link G x)" for x
    using b01(3) link_cong [of G1 x G] G1o [of 44 x] by (auto simp: G3_def G2_def link_set_sense)
  have "G3 x o' = G x o'" if "(x, o') \<in> set F1" for x o'
    using that s1(2) [of x o'] wired_disjoint(1) [OF a b disj, of x o'] by (subst G3j) auto
  then have ex3: "exits G3 b1 F1" using b exits_cong [of F1 G3 G b1] by (auto simp: wired_def)
  have fs3: "follows_sense G3 F1"
  proof -
    have "follows_sense G3 F1' = follows_sense G F1'"
      using F1(3,4) b01 disj by (intro follows_sense_cong) (auto simp: link3)
    then show ?thesis using F1(1,2) by (simp add: follows_sense_def link3)
  qed
  obtain a' where a': "last_link m3 b1 = Some a'" "unat a' = unat c + off"
    using last_link_graph [OF m3(2), of b1 xs c off] ex3 fs3 F1(4) b01 sub unfolding last [symmetric]
    by (auto simp: F1(1))
  obtain m4 where m4: "store32 m3 (unat c + off) b0 = Some m4" "graph_at m4 B G4" "edited B m3 m4"
    using graph_at_store [OF m3(2) cB] unfolding G4_def by blast
  obtain m5 where m5: "store32 m4 (unat b1 + 44) (if G2 b1 44 \<noteq> 0 then 1 else 0) = Some m5" "graph_at m5 B G5" "edited B m4 m5"
    using graph_at_store_sense [OF m4(2) b01(5)] unfolding G5_def by blast
  obtain m6 where m6: "store32 m5 (unat b1 + 96) (G5 b0 96) = Some m6" "graph_at m6 B G6" "edited B m5 m6"
    using graph_at_store [OF m5(2) b01(5), of 96] unfolding G6_def by auto
  have run: "gen_and m b0 b1 = Some (m6, b1)"
    using graph_at_load [OF g b01(4), of 208] graph_at_load [OF g b01(5), of 208]
      graph_at_load [OF g b01(5), of 96] graph_at_load [OF m1(2) b01(4), of 44]
      graph_at_load [OF m2(2) b01(5), of 44] graph_at_load [OF m5(2) b01(4), of 96]
      m1 m2 m3 a' m4 m5 m6 uncertain
    unfolding gen_and_def by (simp del: if_split)
  have "G6 x o' = (if (x, o') \<in> set T0 then G b1 96 else if (x, o') = List.last F1 then b0 else G x o')"
    if "o' = 60 \<or> o' = 84" for x o'
    using that co(3) by (auto simp: G6_def G5_def G4_def set_field_apply G3j last)
  moreover have "link G6 x = (if x = b0 then 144 - link G b0 else link G x)" for x
  proof -
    have "G6 x 44 = (if x = b1 then (if G b1 44 \<noteq> 0 then 1 else 0) else G3 x 44)"
      using co(2) b01(3) by (auto simp: G6_def G5_def G4_def G2_def set_sense_def set_field_apply G1o)
    then show ?thesis
      using link3 [of x] link_cong [of G6 x G3] b01(3)
      by (cases "x = b1") (simp_all add: link_def jump_field_def)
  qed
  moreover have "G6 b1 96 = G b0 96"
    using co(2) b01(3) by (auto simp: G6_def G5_def G4_def G3_def G2_def set_field_apply G1o)
  ultimately have "wired G6 (B0 \<union> B1) b1 T1 (F1 @ F0) (\<lambda>ev. and3 (phi0 ev) (phi1 ev))"
    by (intro wired_and [OF a b disj]) simp_all
  moreover have "G6 b1 208 = G b1 208"
    using co(2) by (auto simp: G6_def G5_def G4_def G3_def G2_def set_field_apply G1o)
  moreover have "G6 x o' = G x o'" if "x \<notin> B0 \<union> B1" for x o'
  proof -
    have "x \<noteq> c" "x \<noteq> b0" "x \<noteq> b1" "(x, o') \<notin> set T0" using that co(1) b01 s0(1) by blast+
    then show ?thesis
      by (simp add: G6_def G5_def G4_def G3_def G2_def G1_def set_sense_def set_field_apply patch_def)
  qed
  moreover have "edited B m m6" using m1(3) m2(3) m3(3) m4(3) m5(3) m6(3) by (blast intro: edited_trans)
  ultimately show ?thesis using run m6(2) by blast
qed


lemma gen_or_wired:
  assumes g: "graph_at m B G" and sub: "B0 \<union> B1 \<subseteq> B" and disj: "B0 \<inter> B1 = {}"
    and a: "wired G B0 b0 T0 F0 phi0" and b: "wired G B1 b1 T1 F1 phi1"
    and uncertain: "G b0 208 \<notin> {1, 2}" "G b1 208 \<notin> {1, 2}"
  shows "\<exists>m' G'. gen_or m b0 b1 = Some (m', b1) \<and> graph_at m' B G' \<and> edited B m m' \<and>
    wired G' (B0 \<union> B1) b1 (T1 @ T0) F1 (\<lambda>ev. or3 (phi0 ev) (phi1 ev)) \<and> G' b1 208 = G b1 208 \<and>
    (\<forall>c off. c \<notin> B0 \<union> B1 \<longrightarrow> G' c off = G c off)"
proof -
  have b01: "b0 \<in> B0" "b1 \<in> B1" "b0 \<noteq> b1" "b0 \<in> B" "b1 \<in> B" using a b disj sub by (auto simp: wired_def)
  note s0 = wired_slots [OF a] and s1 = wired_slots [OF b]
  obtain F0' where F0: "F0 = (b0, 144 - link G b0) # F0'" "follows_sense G F0'" "distinct (b0 # map fst F0')"
    "fst ` set F0' \<subseteq> B0"
    using a by (rule wired_lists) (auto simp: distinct_map)
  obtain T1' where T1: "T1 = (b1, link G b1) # T1'" "follows_sense G T1'" "fst ` set T1' \<subseteq> B1"
    using b by (rule wired_lists) (auto simp: distinct_map)
  obtain xs c off where last: "T1 = xs @ [(c, off)]"
    using T1(1) by (metis append_butlast_last_id list.distinct(1) surj_pair)
  have co: "c \<in> B1" "off = 60 \<or> off = 84" "(c, off) \<notin> set F0"
    using s1 [of c off] wired_disjoint(1) [OF a b disj, of c off] by (auto simp: last)
  have cB: "c \<in> B" "off \<in> block_fields" using co sub by auto
  define G1 where "G1 = set_sense G b0 (G b0 44 = 0)"
  define G2 where "G2 = patch G1 F0 (G b1 96)"
  define G3 where "G3 = set_sense G2 b0 (G b0 44 \<noteq> 0)"
  define G4 where "G4 = set_field G3 c off b0"
  define G5 where "G5 = set_field G4 b1 96 (G4 b0 96)"
  have G2o: "o' \<noteq> 60 \<Longrightarrow> o' \<noteq> 84 \<Longrightarrow> G2 x o' = G1 x o'" for x o'
    unfolding G2_def using s0(2) by (intro patch_other) blast+
  have G3j: "o' = 60 \<or> o' = 84 \<Longrightarrow> G3 x o' = (if (x, o') \<in> set F0 then G b1 96 else G x o')" for x o'
    by (auto simp: G3_def G2_def G1_def patch_def)
  obtain m1 where m1: "store32 m (unat b0 + 44) (if G b0 44 = 0 then 1 else 0) = Some m1" "graph_at m1 B G1" "edited B m m1"
    using graph_at_store_sense [OF g b01(4)] unfolding G1_def by blast
  have link1: "link G1 x = (if x = b0 then 144 - link G x else link G x)" for x
    by (simp add: G1_def link_set_sense)
  have "exits G1 b0 F0"
  proof -
    have "G1 x o' = G x o'" if "(x, o') \<in> set F0" for x o'
      using s0(2) [of x o'] that by (auto simp: G1_def)
    then have "exits G1 b0 F0 = exits G b0 F0" by (rule exits_cong)
    then show ?thesis using a by (simp add: wired_def)
  qed
  moreover have "follows_sense G1 F0"
  proof -
    have "follows_sense G1 F0' = follows_sense G F0'"
      using F0(3) by (intro follows_sense_cong) (auto simp: link1)
    then show ?thesis using F0(1,2) by (simp add: follows_sense_def link1)
  qed
  ultimately obtain m2 where m2: "backpatch m1 b0 (G b1 96) = Some m2" "graph_at m2 B G2" "edited B m1 m2"
    using backpatch_graph [OF m1(2), of b0 F0 "G b1 96"] F0 sub b01 unfolding G2_def by auto
  obtain m3 where m3: "store32 m2 (unat b0 + 44) (if G b0 44 \<noteq> 0 then 1 else 0) = Some m3" "graph_at m3 B G3" "edited B m2 m3"
    using graph_at_store_sense [OF m2(2) b01(4)] unfolding G3_def by blast
  have sense3: "G3 x 44 = (if x = b0 then (if G b0 44 \<noteq> 0 then 1 else 0) else G x 44)" for x
    by (auto simp: G3_def set_sense_def set_field_apply G2o) (simp add: G1_def set_sense_def set_field_apply)
  then have link3: "link G3 x = link G x" for x
    by (simp add: link_def jump_field_def)
  have "G3 x o' = G x o'" if "(x, o') \<in> set T1" for x o'
    using that s1(2) [of x o'] wired_disjoint(1) [OF a b disj, of x o'] by (subst G3j) auto
  then have "exits G3 b1 T1" using b exits_cong [of T1 G3 G b1] by (auto simp: wired_def)
  moreover have "follows_sense G3 T1" using T1 by (auto simp: follows_sense_def link3)
  ultimately obtain a' where a': "last_link m3 b1 = Some a'" "unat a' = unat c + off"
    using last_link_graph [OF m3(2), of b1 xs c off] T1(3) b01 sub unfolding last [symmetric]
    by (auto simp: T1(1))
  obtain m4 where m4: "store32 m3 (unat c + off) b0 = Some m4" "graph_at m4 B G4" "edited B m3 m4"
    using graph_at_store [OF m3(2) cB] unfolding G4_def by blast
  obtain m5 where m5: "store32 m4 (unat b1 + 96) (G4 b0 96) = Some m5" "graph_at m5 B G5" "edited B m4 m5"
    using graph_at_store [OF m4(2) b01(5), of 96] unfolding G5_def by auto
  have head1: "G1 b1 96 = G b1 96" by (simp add: G1_def)
  have run: "gen_or m b0 b1 = Some (m5, b1)"
    using graph_at_load [OF g b01(4), of 208] graph_at_load [OF g b01(5), of 208]
      graph_at_load [OF g b01(4), of 44] graph_at_load [OF m1(2) b01(5), of 96]
      graph_at_load [OF m4(2) b01(4), of 96] head1
      m1 m2 m3 a' m4 m5 uncertain
    unfolding gen_or_def by (simp del: if_split)
  have "G5 x o' = (if (x, o') \<in> set F0 then G b1 96 else if (x, o') = List.last T1 then b0 else G x o')"
    if "o' = 60 \<or> o' = 84" for x o'
    using that co(3) by (auto simp: G5_def G4_def set_field_apply G3j last)
  moreover have "link G5 x = link G x" for x
    using co(2) link3 [of x] by (auto simp: link_def G5_def G4_def set_field_apply)
  moreover have "G5 b1 96 = G b0 96"
    using co(2) by (auto simp: G5_def G4_def G3_def G2o set_field_apply G1_def)
  ultimately have "wired G5 (B0 \<union> B1) b1 (T1 @ T0) F1 (\<lambda>ev. or3 (phi0 ev) (phi1 ev))"
    by (intro wired_or [OF a b disj]) simp_all
  moreover have "G5 b1 208 = G b1 208"
    using co(2) by (auto simp: G5_def G4_def G3_def G2o set_field_apply G1_def)
  moreover have "G5 x o' = G x o'" if "x \<notin> B0 \<union> B1" for x o'
  proof -
    have "x \<noteq> c" "x \<noteq> b0" "x \<noteq> b1" "(x, o') \<notin> set F0" using that co(1) b01 s0(1) by blast+
    then show ?thesis
      by (simp add: G5_def G4_def G3_def G2_def G1_def set_sense_def set_field_apply patch_def)
  qed
  moreover have "edited B m m5" using m1(3) m2(3) m3(3) m4(3) m5(3) by (blast intro: edited_trans)
  ultimately show ?thesis using run m5(2) by blast
qed


lemma fragment_wired: "fragment G B b T F phi \<Longrightarrow> wired G B b T F phi"
  by (simp add: fragment_def)

lemma fragment_load:
  assumes "graph_at m B G" "fragment G C b T F phi" "C \<subseteq> B"
  shows "load32 m (unat b + 208) = Some (G b 208)" "load32 m (unat b + 44) = Some (G b 44)" "b \<in> B"
  using assms graph_at_load [OF assms(1), of b] by (auto simp: fragment_def wired_def)

lemma gen_and_fragment:
  assumes g: "graph_at m B G" and sub: "B0 \<union> B1 \<subseteq> B" and disj: "B0 \<inter> B1 = {}"
    and a: "fragment G B0 b0 T0 F0 phi0" and b: "fragment G B1 b1 T1 F1 phi1"
  shows "\<exists>m' G' C b T F. gen_and m b0 b1 = Some (m', b) \<and> graph_at m' B G' \<and> edited B m m' \<and> C \<subseteq> B0 \<union> B1 \<and>
    fragment G' C b T F (\<lambda>ev. and3 (phi0 ev) (phi1 ev)) \<and> (\<forall>c off. c \<notin> B0 \<union> B1 \<longrightarrow> G' c off = G c off)"
proof -
  have u: "G b0 208 \<notin> {1, 2}" "G b1 208 \<notin> {1, 2}" using a b by (simp_all add: fragment_def)
  from gen_and_wired [OF g sub disj fragment_wired [OF a] fragment_wired [OF b] this]
  obtain m' G' where r: "gen_and m b0 b1 = Some (m', b1)" "graph_at m' B G'" "edited B m m'"
    "wired G' (B0 \<union> B1) b1 T1 (F1 @ F0) (\<lambda>ev. and3 (phi0 ev) (phi1 ev))" "G' b1 208 = G b1 208"
    "\<forall>c off. c \<notin> B0 \<union> B1 \<longrightarrow> G' c off = G c off" by (elim exE conjE)
  then have "fragment G' (B0 \<union> B1) b1 T1 (F1 @ F0) (\<lambda>ev. and3 (phi0 ev) (phi1 ev))"
    using u(2) by (simp add: fragment_def)
  with r show ?thesis by blast
qed

lemma gen_or_fragment:
  assumes g: "graph_at m B G" and sub: "B0 \<union> B1 \<subseteq> B" and disj: "B0 \<inter> B1 = {}"
    and a: "fragment G B0 b0 T0 F0 phi0" and b: "fragment G B1 b1 T1 F1 phi1"
  shows "\<exists>m' G' C b T F. gen_or m b0 b1 = Some (m', b) \<and> graph_at m' B G' \<and> edited B m m' \<and> C \<subseteq> B0 \<union> B1 \<and>
    fragment G' C b T F (\<lambda>ev. or3 (phi0 ev) (phi1 ev)) \<and> (\<forall>c off. c \<notin> B0 \<union> B1 \<longrightarrow> G' c off = G c off)"
proof -
  have u: "G b0 208 \<notin> {1, 2}" "G b1 208 \<notin> {1, 2}" using a b by (simp_all add: fragment_def)
  from gen_or_wired [OF g sub disj fragment_wired [OF a] fragment_wired [OF b] this]
  obtain m' G' where r: "gen_or m b0 b1 = Some (m', b1)" "graph_at m' B G'" "edited B m m'"
    "wired G' (B0 \<union> B1) b1 (T1 @ T0) F1 (\<lambda>ev. or3 (phi0 ev) (phi1 ev))" "G' b1 208 = G b1 208"
    "\<forall>c off. c \<notin> B0 \<union> B1 \<longrightarrow> G' c off = G c off" by (elim exE conjE)
  then have "fragment G' (B0 \<union> B1) b1 (T1 @ T0) F1 (\<lambda>ev. or3 (phi0 ev) (phi1 ev))"
    using u(2) by (simp add: fragment_def)
  with r show ?thesis by blast
qed

lemma gen_not_fragment:
  assumes g: "graph_at m B G" and sub: "C \<subseteq> B" and a: "fragment G C b T F phi"
  shows "\<exists>m' G'. gen_not m b = Some (m', b) \<and> graph_at m' B G' \<and> edited B m m' \<and>
    fragment G' C b F T (\<lambda>ev. not3 (phi ev)) \<and> (\<forall>c off. c \<noteq> b \<longrightarrow> G' c off = G c off)"
proof -
  note l = fragment_load [OF g a sub]
  have u: "G b 208 \<notin> {1, 2}" using a by (simp add: fragment_def)
  define G1 where "G1 = set_sense G b (G b 44 = 0)"
  obtain m1 where m1: "store32 m (unat b + 44) (if G b 44 = 0 then 1 else 0) = Some m1" "graph_at m1 B G1" "edited B m m1"
    using graph_at_store_sense [OF g l(3)] unfolding G1_def by blast
  have "load32 m1 (unat b + 208) = Some (G b 208)"
    using graph_at_load [OF m1(2) l(3), of 208] by (simp add: G1_def)
  then have "gen_not m b = Some (m1, b)" using u m1 l(2) by (auto simp: gen_not_def)
  moreover have "wired G1 C b F T (\<lambda>ev. not3 (phi ev))"
    by (rule wired_not [OF fragment_wired [OF a]]) (auto simp: G1_def link_set_sense)
  then have "fragment G1 C b F T (\<lambda>ev. not3 (phi ev))" using u by (simp add: fragment_def G1_def)
  ultimately show ?thesis using m1 by (auto simp: G1_def set_sense_def set_field_apply)
qed

text \<open>A list of statements: the field at offset 16 is the link.\<close>

fun stmt_list :: "memory \<Rightarrow> u32 \<Rightarrow> u32 list \<Rightarrow> bool" where
  "stmt_list m p [] \<longleftrightarrow> p = 0"
| "stmt_list m p (s # ss) \<longleftrightarrow>
     p = s \<and> s \<noteq> 0 \<and> (\<exists>q. load32 m (unat s + 16) = Some q \<and> stmt_list m q ss)"

lemma stmt_list_frame:
  assumes m': "store32 m a v = Some m'"
    and apart: "\<And>s. s \<in> set ss \<Longrightarrow> a + 4 \<le> unat s + 16 \<or> unat s + 20 \<le> a"
  shows "stmt_list m p ss \<Longrightarrow> stmt_list m' p ss"
  using apart
proof (induction ss arbitrary: p)
  case (Cons s ss)
  have "load32 m' (unat s + 16) = load32 m (unat s + 16)"
    by (rule load32_store32_other [OF m']) (use Cons.prems(2) [of s] in auto)
  with Cons show ?case by auto
qed simp

lemma sappend_last:
  "stmt_list m p ss \<Longrightarrow> ss \<noteq> [] \<Longrightarrow> sappend m p q = store32 m (unat (last ss) + 16) q"
proof (induction ss arbitrary: p)
  case (Cons s ss)
  then obtain r where "p = s" "load32 m (unat s + 16) = Some r" "stmt_list m r ss" by auto
  with Cons.IH [of r] show ?case by (subst sappend.simps) (cases ss; auto)
qed simp

lemma stmt_list_join:
  assumes m': "store32 m (unat s + 16) q = Some m'" and "stmt_list m p (ss @ [s])" "stmt_list m q ts"
    and apart: "\<And>t. t \<in> set ss \<union> set ts \<Longrightarrow> unat s + 24 \<le> unat t \<or> unat t + 24 \<le> unat s"
  shows "stmt_list m' p ((ss @ [s]) @ ts)"
  using assms(2) apart
proof (induction ss arbitrary: p)
  case Nil
  have "stmt_list m' q ts" by (rule stmt_list_frame [OF m' _ assms(3)]) (use Nil(2) in fastforce)
  with Nil load32_store32 [OF m'] show ?case by auto
next
  case (Cons x ss)
  have "load32 m' (unat x + 16) = load32 m (unat x + 16)"
    by (rule load32_store32_other [OF m']) (use Cons.prems(2) [of x] in auto)
  with Cons show ?case by auto
qed

lemma sappend_appends:
  assumes "stmt_list m p (ss @ [s])" "stmt_list m q ts"
    "\<And>t. t \<in> set ss \<union> set ts \<Longrightarrow> unat s + 24 \<le> unat t \<or> unat t + 24 \<le> unat s"
  shows "\<exists>m'. sappend m p q = Some m' \<and> stmt_list m' p ((ss @ [s]) @ ts)"
proof -
  have "\<exists>r. load32 m (unat s + 16) = Some r" using assms(1) by (induction ss arbitrary: p) auto
  then have "\<not> length m < unat s + 16 + 4"
    using cell32.load_out [of m "unat s + 16"] by (auto simp: load32_def)
  then obtain m' where "store32 m (unat s + 16) q = Some m'" using store32_in [of "unat s + 16" m q] by auto
  with sappend_last [OF assms(1)] stmt_list_join [OF _ assms] show ?thesis by auto
qed

section \<open>Composing the connectives\<close>

text \<open>
  The compiler applies the three functions along the syntax tree of the filter expression, to the
  fragments of its primitives. \<open>gen_cond\<close> does so for a tree whose leaves are blocks.
\<close>

datatype 'a cond = Leaf 'a | Conj "'a cond" "'a cond" | Disj "'a cond" "'a cond" | Neg "'a cond"

fun leaves :: "'a cond \<Rightarrow> 'a list" where
  "leaves (Leaf b) = [b]"
| "leaves (Conj x y) = leaves x @ leaves y"
| "leaves (Disj x y) = leaves x @ leaves y"
| "leaves (Neg x) = leaves x"

fun holds :: "'a cond \<Rightarrow> ('a \<Rightarrow> bool option) \<Rightarrow> bool option" where
  "holds (Leaf b) ev = ev b"
| "holds (Conj x y) ev = and3 (holds x ev) (holds y ev)"
| "holds (Disj x y) ev = or3 (holds x ev) (holds y ev)"
| "holds (Neg x) ev = not3 (holds x ev)"

fun gen_cond :: "u32 cond \<Rightarrow> memory \<Rightarrow> (memory \<times> u32) option" where
  "gen_cond (Leaf b) m = Some (m, b)"
| "gen_cond (Conj x y) m = do { (m, b0) \<leftarrow> gen_cond x m; (m, b1) \<leftarrow> gen_cond y m; gen_and m b0 b1 }"
| "gen_cond (Disj x y) m = do { (m, b0) \<leftarrow> gen_cond x m; (m, b1) \<leftarrow> gen_cond y m; gen_or m b0 b1 }"
| "gen_cond (Neg x) m = do { (m, b) \<leftarrow> gen_cond x m; gen_not m b }"

lemma fragment_frame:
  assumes "fragment G C b T F phi" "\<And>x off. x \<in> C \<Longrightarrow> G' x off = G x off"
  shows "fragment G' C b T F phi"
proof -
  have w: "wired G C b T F phi" using assms(1) by (rule fragment_wired)
  then have b: "b \<in> C" by (simp add: wired_def)
  have link: "link G' x = link G x" if "x \<in> C" for x using assms(2) [OF that] by (simp add: link_def)
  have "exits G' b T = exits G b T" "exits G' b F = exits G b F"
    by (rule exits_cong, rule assms(2), use wired_slots(1) [OF w] in blast)+
  moreover have "follows_sense G' (tl T) = follows_sense G (tl T)"
    by (rule follows_sense_cong, rule link) (use w in \<open>auto simp: wired_def\<close>)
  moreover have "follows_sense G' (tl F) = follows_sense G (tl F)"
    by (rule follows_sense_cong, rule link) (use w in \<open>auto simp: wired_def\<close>)
  moreover have "leads_to G' C T F ev (G b 96) (phi ev)" for ev
  proof -
    have "leads_to G C T F ev (G b 96) (phi ev)" using w by (simp add: wired_def)
    then show ?thesis by (rule leads_to_cong) (rule assms(2))
  qed
  ultimately have "wired G' C b T F phi"
    using w link [OF b] assms(2) [OF b, of 96] unfolding wired_def by simp
  with assms(1) assms(2) [OF b, of 208] show ?thesis by (simp add: fragment_def)
qed

text \<open>\<open>yields B G L r phi\<close>: the result \<open>r\<close> is a fragment for \<open>phi\<close> made of the blocks in \<open>L\<close>.\<close>

definition yields ::
  "u32 set \<Rightarrow> graph \<Rightarrow> u32 set \<Rightarrow> (memory \<times> u32) option \<Rightarrow> (results \<Rightarrow> bool option) \<Rightarrow> bool" where
  "yields B G L r phi \<longleftrightarrow> (\<exists>m' G' C b T F. r = Some (m', b) \<and> graph_at m' B G' \<and> C \<subseteq> L \<and>
     fragment G' C b T F phi \<and> (\<forall>x off. x \<notin> L \<longrightarrow> G' x off = G x off))"

lemma yieldsI:
  "r = Some (m', b) \<Longrightarrow> graph_at m' B G' \<Longrightarrow> C \<subseteq> L \<Longrightarrow> fragment G' C b T F phi \<Longrightarrow>
    (\<And>x off. x \<notin> L \<Longrightarrow> G' x off = G x off) \<Longrightarrow> yields B G L r phi"
  unfolding yields_def by blast

text \<open>The fragment of the first operand is still there when that of the second has been built.\<close>

lemma yields_two:
  assumes "yields B G L0 r phi0" "L0 \<inter> L1 = {}"
    and "\<And>m1 b0 G1. r = Some (m1, b0) \<Longrightarrow> graph_at m1 B G1 \<Longrightarrow>
      (\<And>x off. x \<notin> L0 \<Longrightarrow> G1 x off = G x off) \<Longrightarrow> yields B G1 L1 (f m1) phi1"
  obtains m1 b0 m2 b1 G2 C0 C1 T0 F0 T1 F1 where "r = Some (m1, b0)" "f m1 = Some (m2, b1)"
    "graph_at m2 B G2" "C0 \<subseteq> L0" "C1 \<subseteq> L1" "fragment G2 C0 b0 T0 F0 phi0" "fragment G2 C1 b1 T1 F1 phi1"
    "\<forall>x off. x \<notin> L0 \<union> L1 \<longrightarrow> G2 x off = G x off"
proof -
  from assms(1) obtain m1 G1 C0 b0 T0 F0 where 1: "r = Some (m1, b0)" "graph_at m1 B G1" "C0 \<subseteq> L0"
    "fragment G1 C0 b0 T0 F0 phi0" "\<forall>x off. x \<notin> L0 \<longrightarrow> G1 x off = G x off"
    unfolding yields_def by blast
  from assms(3) [OF 1(1,2)] 1(5) obtain m2 G2 C1 b1 T1 F1 where 2: "f m1 = Some (m2, b1)" "graph_at m2 B G2"
    "C1 \<subseteq> L1" "fragment G2 C1 b1 T1 F1 phi1" "\<forall>x off. x \<notin> L1 \<longrightarrow> G2 x off = G1 x off"
    unfolding yields_def by blast
  have "fragment G2 C0 b0 T0 F0 phi0"
    by (rule fragment_frame [OF 1(4)]) (use 1(3) 2(5) assms(2) in blast)
  moreover have "\<forall>x off. x \<notin> L0 \<union> L1 \<longrightarrow> G2 x off = G x off" using 1(5) 2(5) by simp
  ultimately show thesis using that 1(1,3) 2 by blast
qed

definition leaf_fragments :: "graph \<Rightarrow> u32 set \<Rightarrow> bool" where
  "leaf_fragments G L \<longleftrightarrow> (\<forall>b \<in> L. fragment G {b} b [(b, 60)] [(b, 84)] (\<lambda>ev. ev b))"

lemma leaf_fragments_frame:
  "leaf_fragments G L \<Longrightarrow> (\<And>x off. x \<in> L \<Longrightarrow> G' x off = G x off) \<Longrightarrow> leaf_fragments G' L"
  unfolding leaf_fragments_def by (blast intro: fragment_frame)

lemma yields_operands:
  assumes "graph_at m B G" "distinct (leaves c @ leaves d)" "set (leaves c @ leaves d) \<subseteq> B"
    "leaf_fragments G (set (leaves c @ leaves d))"
    and IH: "\<And>m G. graph_at m B G \<Longrightarrow> distinct (leaves c) \<Longrightarrow> set (leaves c) \<subseteq> B \<Longrightarrow>
        leaf_fragments G (set (leaves c)) \<Longrightarrow>
        yields B G (set (leaves c)) (gen_cond c m) (\<lambda>ev. holds c ev)"
      "\<And>m G. graph_at m B G \<Longrightarrow> distinct (leaves d) \<Longrightarrow> set (leaves d) \<subseteq> B \<Longrightarrow>
        leaf_fragments G (set (leaves d)) \<Longrightarrow>
        yields B G (set (leaves d)) (gen_cond d m) (\<lambda>ev. holds d ev)"
  obtains m1 b0 m2 b1 G2 C0 C1 T0 F0 T1 F1 where
    "gen_cond c m = Some (m1, b0)" "gen_cond d m1 = Some (m2, b1)"
    "C0 \<subseteq> set (leaves c)" "C1 \<subseteq> set (leaves d)"
    "\<forall>x off. x \<notin> set (leaves c) \<union> set (leaves d) \<longrightarrow> G2 x off = G x off"
    "graph_at m2 B G2" "C0 \<union> C1 \<subseteq> B" "C0 \<inter> C1 = {}"
    "fragment G2 C0 b0 T0 F0 (\<lambda>ev. holds c ev)" "fragment G2 C1 b1 T1 F1 (\<lambda>ev. holds d ev)"
proof -
  have disj: "set (leaves c) \<inter> set (leaves d) = {}" using assms(2) by simp
  have "yields B G (set (leaves c)) (gen_cond c m) (\<lambda>ev. holds c ev)"
    by (rule IH(1)) (use assms(1-4) in \<open>auto simp: leaf_fragments_def\<close>)
  then show thesis
  proof (rule yields_two [OF _ disj])
    fix m1 b0 G1 assume "graph_at m1 B G1" "\<And>x off. x \<notin> set (leaves c) \<Longrightarrow> G1 x off = G x off"
    then show "yields B G1 (set (leaves d)) (gen_cond d m1) (\<lambda>ev. holds d ev)"
      using assms(2-4) disj leaf_fragments_frame [of G "set (leaves d)" G1]
      by (intro IH(2)) (auto simp: leaf_fragments_def)
  next
    fix m1 b0 m2 b1 G2 C0 C1 T0 F0 T1 F1
    assume a: "gen_cond c m = Some (m1, b0)" "gen_cond d m1 = Some (m2, b1)"
      "graph_at m2 B G2" "C0 \<subseteq> set (leaves c)" "C1 \<subseteq> set (leaves d)"
      "fragment G2 C0 b0 T0 F0 (\<lambda>ev. holds c ev)" "fragment G2 C1 b1 T1 F1 (\<lambda>ev. holds d ev)"
      "\<forall>x off. x \<notin> set (leaves c) \<union> set (leaves d) \<longrightarrow> G2 x off = G x off"
    have "C0 \<union> C1 \<subseteq> B" "C0 \<inter> C1 = {}" using a(4,5) assms(3) disj by auto
    with a that show thesis by blast
  qed
qed

lemma gen_cond_yields:
  assumes "graph_at m B G" "distinct (leaves c)" "set (leaves c) \<subseteq> B" "leaf_fragments G (set (leaves c))"
  shows "yields B G (set (leaves c)) (gen_cond c m) (\<lambda>ev. holds c ev)"
  using assms
proof (induction c arbitrary: m G)
  case (Leaf b)
  then show ?case
    by (intro yieldsI [of _ m b B G "{b}" _ "[(b, 60)]" "[(b, 84)]"]) (simp_all add: leaf_fragments_def)
next
  case (Neg c)
  from Neg.IH [OF Neg.prems(1)] Neg.prems(2-4) have "yields B G (set (leaves c)) (gen_cond c m) (\<lambda>ev. holds c ev)"
    by simp
  then obtain m1 G1 C b T F where r: "gen_cond c m = Some (m1, b)" "graph_at m1 B G1" "C \<subseteq> set (leaves c)"
    "fragment G1 C b T F (\<lambda>ev. holds c ev)" "\<forall>x off. x \<notin> set (leaves c) \<longrightarrow> G1 x off = G x off"
    unfolding yields_def by blast
  then have b: "b \<in> set (leaves c)" by (auto simp: fragment_def wired_def)
  obtain m2 G2 where "gen_not m1 b = Some (m2, b)" "graph_at m2 B G2"
    "fragment G2 C b F T (\<lambda>ev. not3 (holds c ev))" "\<forall>x off. x \<noteq> b \<longrightarrow> G2 x off = G1 x off"
    using gen_not_fragment [OF r(2) _ r(4)] r(3) Neg.prems(3) by auto
  with r b show ?case
    by (intro yieldsI [of _ m2 b B G2 C _ F T]) auto
next
  case (Conj c d)
  obtain m1 b0 m2 b1 G2 C0 C1 T0 F0 T1 F1
    where o: "gen_cond c m = Some (m1, b0)" "gen_cond d m1 = Some (m2, b1)"
      "C0 \<subseteq> set (leaves c)" "C1 \<subseteq> set (leaves d)"
      "\<forall>x off. x \<notin> set (leaves c) \<union> set (leaves d) \<longrightarrow> G2 x off = G x off"
    and f: "graph_at m2 B G2" "C0 \<union> C1 \<subseteq> B" "C0 \<inter> C1 = {}"
      "fragment G2 C0 b0 T0 F0 (\<lambda>ev. holds c ev)" "fragment G2 C1 b1 T1 F1 (\<lambda>ev. holds d ev)"
    by (rule yields_operands [OF Conj.prems(1) Conj.prems(2-4) [unfolded leaves.simps] Conj.IH])
  obtain m3 G3 C b T F where r: "gen_and m2 b0 b1 = Some (m3, b)" "graph_at m3 B G3" "C \<subseteq> C0 \<union> C1"
    "fragment G3 C b T F (\<lambda>ev. and3 (holds c ev) (holds d ev))" "\<forall>x off. x \<notin> C0 \<union> C1 \<longrightarrow> G3 x off = G2 x off"
    using gen_and_fragment [OF f] by (elim exE conjE)
  show ?case
  proof (rule yieldsI [OF _ r(2)])
    show "gen_cond (Conj c d) m = Some (m3, b)" using o(1,2) r(1) by simp
    show "C \<subseteq> set (leaves (Conj c d))" using o(3,4) r(3) by auto
    show "fragment G3 C b T F (\<lambda>ev. holds (Conj c d) ev)" using r(4) by simp
    show "G3 x off = G x off" if "x \<notin> set (leaves (Conj c d))" for x off
    proof -
      have "x \<notin> C0 \<union> C1" "x \<notin> set (leaves c) \<union> set (leaves d)" using that o(3,4) by auto
      with r(5) o(5) show ?thesis by simp
    qed
  qed
next
  case (Disj c d)
  obtain m1 b0 m2 b1 G2 C0 C1 T0 F0 T1 F1
    where o: "gen_cond c m = Some (m1, b0)" "gen_cond d m1 = Some (m2, b1)"
      "C0 \<subseteq> set (leaves c)" "C1 \<subseteq> set (leaves d)"
      "\<forall>x off. x \<notin> set (leaves c) \<union> set (leaves d) \<longrightarrow> G2 x off = G x off"
    and f: "graph_at m2 B G2" "C0 \<union> C1 \<subseteq> B" "C0 \<inter> C1 = {}"
      "fragment G2 C0 b0 T0 F0 (\<lambda>ev. holds c ev)" "fragment G2 C1 b1 T1 F1 (\<lambda>ev. holds d ev)"
    by (rule yields_operands [OF Disj.prems(1) Disj.prems(2-4) [unfolded leaves.simps] Disj.IH])
  obtain m3 G3 C b T F where r: "gen_or m2 b0 b1 = Some (m3, b)" "graph_at m3 B G3" "C \<subseteq> C0 \<union> C1"
    "fragment G3 C b T F (\<lambda>ev. or3 (holds c ev) (holds d ev))" "\<forall>x off. x \<notin> C0 \<union> C1 \<longrightarrow> G3 x off = G2 x off"
    using gen_or_fragment [OF f] by (elim exE conjE)
  show ?case
  proof (rule yieldsI [OF _ r(2)])
    show "gen_cond (Disj c d) m = Some (m3, b)" using o(1,2) r(1) by simp
    show "C \<subseteq> set (leaves (Disj c d))" using o(3,4) r(3) by auto
    show "fragment G3 C b T F (\<lambda>ev. holds (Disj c d) ev)" using r(4) by simp
    show "G3 x off = G x off" if "x \<notin> set (leaves (Disj c d))" for x off
    proof -
      have "x \<notin> C0 \<union> C1" "x \<notin> set (leaves c) \<union> set (leaves d)" using that o(3,4) by auto
      with r(5) o(5) show ?thesis by simp
    qed
  qed
qed

section \<open>Properties\<close>

text \<open>
  C11: \<open>_gen_and\<close> on two disjoint fragments always returns a fragment that computes the conjunction
  of their conditions (the second is not evaluated when the first is false or stops the run), built
  from their blocks; it leaves every other block, and all memory but the fields of blocks, as it was.
\<close>

theorem gen_and_conjunction:
  assumes "graph_at m B G" "B0 \<union> B1 \<subseteq> B" "B0 \<inter> B1 = {}"
    "fragment G B0 b0 T0 F0 phi0" "fragment G B1 b1 T1 F1 phi1"
  shows "\<exists>m' G' C b T F. gen_and m b0 b1 = Some (m', b) \<and> graph_at m' B G' \<and> edited B m m' \<and> C \<subseteq> B0 \<union> B1 \<and>
    fragment G' C b T F (\<lambda>ev. and3 (phi0 ev) (phi1 ev)) \<and> (\<forall>c off. c \<notin> B0 \<union> B1 \<longrightarrow> G' c off = G c off)"
  using assms by (rule gen_and_fragment)

text \<open>Two blocks, at 100 and 400, each the whole of a fragment.\<close>

definition two_blocks :: memory where
  "two_blocks = replicate 196 0 @ le_bytes32 100 @ replicate 296 0 @ le_bytes32 400 @ replicate 204 0"

definition own_head :: graph where
  "own_head = (\<lambda>b off. if off = 96 then b else 0)"

lemma two_blocks_graph: "graph_at two_blocks {100, 400} own_head"
  by (simp add: graph_at_def block_fields_def two_blocks_def own_head_def load32_def get_bytes_def slice_def
    le_uint32_def le_bytes32_def push_bit_eq_mult)

lemma single_fragment:
  "b \<noteq> 0 \<Longrightarrow> fragment own_head {b} b [(b, 60)] [(b, 84)] (\<lambda>ev. ev b)"
proof -
  assume "b \<noteq> 0"
  moreover have "leads_to own_head {b} [(b, 60)] [(b, 84)] ev b (ev b)" for ev
    by (rule option_bool_cases [of "ev b"]) (auto intro!: leads_Stop leads_True leads_False simp: taken_def)
  moreover have "own_head b 96 = b" "own_head b 44 = 0" "own_head b 60 = 0" "own_head b 84 = 0" "own_head b 208 = 0"
    by (simp_all add: own_head_def)
  ultimately show ?thesis
    by (simp add: fragment_def wired_def link_def jump_field_def follows_sense_def)
qed

theorem gen_and_conjunction_witness:
  "\<exists>m' G' C b T F. gen_and two_blocks 100 400 = Some (m', b) \<and>
     fragment G' C b T F (\<lambda>ev. and3 (ev 100) (ev 400))"
  using gen_and_conjunction [OF two_blocks_graph _ _ single_fragment [of 100] single_fragment [of 400]]
  by simp blast

text \<open>
  C12: \<open>_gen_or\<close> on two disjoint fragments always returns a fragment that computes the disjunction
  of their conditions (the second is not evaluated when the first is true or stops the run), built
  from their blocks; it leaves every other block, and all memory but the fields of blocks, as it was.
\<close>

theorem gen_or_disjunction:
  assumes "graph_at m B G" "B0 \<union> B1 \<subseteq> B" "B0 \<inter> B1 = {}"
    "fragment G B0 b0 T0 F0 phi0" "fragment G B1 b1 T1 F1 phi1"
  shows "\<exists>m' G' C b T F. gen_or m b0 b1 = Some (m', b) \<and> graph_at m' B G' \<and> edited B m m' \<and> C \<subseteq> B0 \<union> B1 \<and>
    fragment G' C b T F (\<lambda>ev. or3 (phi0 ev) (phi1 ev)) \<and> (\<forall>c off. c \<notin> B0 \<union> B1 \<longrightarrow> G' c off = G c off)"
  using assms by (rule gen_or_fragment)

theorem gen_or_disjunction_witness:
  "\<exists>m' G' C b T F. gen_or two_blocks 100 400 = Some (m', b) \<and>
     fragment G' C b T F (\<lambda>ev. or3 (ev 100) (ev 400))"
  using gen_or_disjunction [OF two_blocks_graph _ _ single_fragment [of 100] single_fragment [of 400]]
  by simp blast

text \<open>
  C35: \<open>_gen_not\<close> makes a fragment compute the negation of its condition by turning the sense of
  its last block alone.
\<close>

theorem gen_not_negation:
  assumes "graph_at m B G" "C \<subseteq> B" "fragment G C b T F phi"
  shows "\<exists>m' G'. gen_not m b = Some (m', b) \<and> graph_at m' B G' \<and> edited B m m' \<and>
    fragment G' C b F T (\<lambda>ev. not3 (phi ev)) \<and> (\<forall>c off. c \<noteq> b \<longrightarrow> G' c off = G c off)"
  using assms by (rule gen_not_fragment)

theorem gen_not_negation_witness:
  "\<exists>m' G'. gen_not two_blocks 100 = Some (m', 100) \<and>
     fragment G' {100} 100 [(100, 84)] [(100, 60)] (\<lambda>ev. not3 (ev 100))"
  using gen_not_negation [OF two_blocks_graph _ single_fragment [of 100]]
  by simp blast


text \<open>
  C10: The connectives compose: for every boolean expression over distinct blocks, applying them
  along its syntax tree returns one fragment, made of its blocks, that evaluates the expression from
  left to right: it leads to the true or false exits as the tests of the blocks say, and stops at the
  first test evaluated that has no result.
\<close>

theorem connectives_compose:
  assumes "graph_at m B G" "distinct (leaves c)" "set (leaves c) \<subseteq> B" "leaf_fragments G (set (leaves c))"
  shows "\<exists>m' G' C b T F. gen_cond c m = Some (m', b) \<and> graph_at m' B G' \<and> C \<subseteq> set (leaves c) \<and>
    fragment G' C b T F (\<lambda>ev. holds c ev)"
  using gen_cond_yields [OF assms] unfolding yields_def by blast

theorem connectives_compose_witness:
  "\<exists>m' G' C b T F. gen_cond (Neg (Disj (Leaf 100) (Neg (Leaf 400)))) two_blocks = Some (m', b) \<and>
     fragment G' C b T F (\<lambda>ev. not3 (or3 (ev 100) (not3 (ev 400))))"
proof -
  have "leaf_fragments own_head {100, 400}"
    using single_fragment [of 100] single_fragment [of 400] by (simp add: leaf_fragments_def)
  with connectives_compose [OF two_blocks_graph, of "Neg (Disj (Leaf 100) (Neg (Leaf 400)))"]
  show ?thesis by simp blast
qed

end
