(* ===== verification/Codegen_Blocks.thy ===== *)
theory Codegen_Blocks
  imports Libc Errors Codegen_Logic Bpf_Machine
begin

text \<open>
  The lower layer of the code generator in \<open>internal/bpf.go\<close>: the arena of the compiler
  (\<open>_newchunk_nolongjmp\<close>, \<open>_sdup\<close>), the statements that load from the packet
  (\<open>_gen_abs_offset_varpart\<close>, \<open>_gen_load_absoffsetrel\<close>, \<open>_gen_loadx_iphdrlen\<close>, \<open>_gen_load_a\<close>)
  and the blocks that test what was loaded (\<open>_gen_cmp\<close>, \<open>_gen_ncmp\<close>, \<open>_gen_mcmp\<close>, \<open>_gen_true\<close>,
  \<open>_gen_false\<close>, \<open>_gen_retblk\<close>). The handle of the compiler is at the address \<open>v0\<close>; each function
  is given the stack pointer of its caller.
\<close>

section \<open>The arena\<close>

text \<open>
  Sixteen chunks, described from offset 248 of the handle on by the bytes left and the address;
  the index of the current one is at 376. Memory is handed out from the end of a chunk; the next
  chunk is twice as large.
\<close>

definition newchunk_nolongjmp ::
  "formatter \<Rightarrow> u32 \<Rightarrow> memory \<Rightarrow> u32 \<Rightarrow> u32 \<Rightarrow> (memory \<times> u32) option" where
  "newchunk_nolongjmp vsnprintf sp m v0 v1 =
     (let v3 = sp - 48;
          v5 = (v1 + 3) AND - 4;
          v6 = v0 + 248;
          l0 = (\<lambda>m v1 v4 v2. do {
            let v0 = v4 - v5;
            m \<leftarrow> store32 m (unat (v6 + push_bit 3 v1)) v0;
            Some (m, v0 + v2)
          })
      in do {
        v1 \<leftarrow> load32 m (unat v0 + 376);
        let v2 = v6 + push_bit 3 v1;
        v4 \<leftarrow> load32 m (unat v2);
        if v5 \<le> v4 then do {
          v2 \<leftarrow> load32 m (unat v2 + 4);
          l0 m v1 v4 v2
        }
        else if v1 \<ge> 15 then do {
          m \<leftarrow> store32 m (unat v3) 16;
          m \<leftarrow> bpf_set_error vsnprintf v3 m v0 67167 v3;
          Some (m, 0)
        }
        else do {
          let v2 = v1 + 1;
          let v4 = i32_shl 2048 v1;
          if v4 < v5 then do {
            m \<leftarrow> store32 m (unat v3 + 20) v2;
            m \<leftarrow> store32 m (unat v3 + 16) v5;
            m \<leftarrow> bpf_set_error vsnprintf v3 m v0 65965 (v3 + 16);
            Some (m, 0)
          }
          else do {
            m \<leftarrow> store32 m (unat v0 + 376) v2;
            (v2, m) \<leftarrow> calloc m 1 v4;
            v1 \<leftarrow> load32 m (unat v0 + 376);
            let v7 = v6 + push_bit 3 v1;
            m \<leftarrow> store32 m (unat v7 + 4) v2;
            if v2 = 0 then do {
              m \<leftarrow> store32 m (unat v3 + 32) 69145;
              m \<leftarrow> bpf_set_error vsnprintf v3 m v0 70679 (v3 + 32);
              Some (m, 0)
            }
            else do {
              m \<leftarrow> store32 m (unat v7) v4;
              l0 m v1 v4 v2
            }
          }
        }
      })"

definition sdup :: "formatter \<Rightarrow> u32 \<Rightarrow> memory \<Rightarrow> u32 \<Rightarrow> u32 \<Rightarrow> (memory \<times> u32) option" where
  "sdup vsnprintf sp m v0 v1 =
     do {
       t0 \<leftarrow> strlen m v1;
       let v2 = t0 + 1;
       (m, v0) \<leftarrow> newchunk_nolongjmp vsnprintf sp m v0 v2;
       if v0 \<noteq> 0 then do {
         (m, _) \<leftarrow> strlcpy m v0 v1 v2;
         Some (m, v0)
       }
       else Some (m, v0)
     }"

text \<open>
  The allocation of a statement (20 bytes) or a block (212 bytes) as the generating functions do
  it: without memory they leave the module.
\<close>

definition newchunk ::
  "formatter \<Rightarrow> formatter \<Rightarrow> u32 \<Rightarrow> memory \<Rightarrow> u32 \<Rightarrow> u32 \<Rightarrow> (memory \<times> u32) jump" where
  "newchunk vsnprintf snprintf sp m v0 n =
     jump_bind (lift (newchunk_nolongjmp vsnprintf sp m v0 n))
       (\<lambda>(m, p). if p = 0 then pcap_longjmp_at snprintf sp m 69165 972 else Ret (m, p))"

text \<open>A statement with its code and constant, and a block that tests after its statements.\<close>

definition new_stmt ::
  "formatter \<Rightarrow> formatter \<Rightarrow> u32 \<Rightarrow> memory \<Rightarrow> u32 \<Rightarrow> u32 \<Rightarrow> u32 \<Rightarrow> (memory \<times> u32) jump" where
  "new_stmt vsnprintf snprintf sp m v0 code k =
     jump_bind (newchunk vsnprintf snprintf sp m v0 20)
       (\<lambda>(m, v1). lift (do {
          m \<leftarrow> store32 m (unat v1 + 12) k;
          m \<leftarrow> store32 m (unat v1) code;
          Some (m, v1)
        }))"

definition gen_retblk ::
  "formatter \<Rightarrow> formatter \<Rightarrow> u32 \<Rightarrow> memory \<Rightarrow> u32 \<Rightarrow> u32 \<Rightarrow> (memory \<times> u32) jump" where
  "gen_retblk vsnprintf snprintf sp m v0 v1 =
     jump_bind (newchunk vsnprintf snprintf sp m v0 212)
       (\<lambda>(m, v0). lift (do {
          m \<leftarrow> store32 m (unat v0 + 8) 6;
          m \<leftarrow> store32 m (unat v0 + 20) v1;
          m \<leftarrow> store32 m (unat v0 + 96) v0;
          Some (m, v0)
        }))"

text \<open>A block with a constant test, known to be true (\<open>meaning\<close> 1) or false (2).\<close>

definition gen_constant ::
  "u32 \<Rightarrow> u32 \<Rightarrow> formatter \<Rightarrow> formatter \<Rightarrow> u32 \<Rightarrow> memory \<Rightarrow> u32 \<Rightarrow> (memory \<times> u32) jump" where
  "gen_constant k meaning vsnprintf snprintf sp m v0 =
     jump_bind (new_stmt vsnprintf snprintf sp m v0 0 k)
       (\<lambda>(m, v1). jump_bind (newchunk vsnprintf snprintf sp m v0 212)
         (\<lambda>(m, v0). lift (do {
            m \<leftarrow> store32 m (unat v0 + 8) 21;
            m \<leftarrow> store32 m (unat v0 + 20) 0;
            m \<leftarrow> store32 m (unat v0 + 208) meaning;
            m \<leftarrow> store32 m (unat v0 + 4) v1;
            m \<leftarrow> store32 m (unat v0 + 96) v0;
            Some (m, v0)
          })))"

definition gen_true :: "formatter \<Rightarrow> formatter \<Rightarrow> u32 \<Rightarrow> memory \<Rightarrow> u32 \<Rightarrow> (memory \<times> u32) jump" where
  "gen_true = gen_constant 0 1"

definition gen_false :: "formatter \<Rightarrow> formatter \<Rightarrow> u32 \<Rightarrow> memory \<Rightarrow> u32 \<Rightarrow> (memory \<times> u32) jump" where
  "gen_false = gen_constant 1 2"

section \<open>Statements that load from the packet\<close>

text \<open>\<open>v % 16\<close> of an \<open>int32\<close>.\<close>

definition srem16 :: "u32 \<Rightarrow> u32" where
  "srem16 v = (if 0 \<le> sint v then word_of_int (sint v mod 16) else word_of_int (- ((- sint v) mod 16)))"

text \<open>
  The loop at \<open>l2\<close> of \<open>_gen_abs_offset_varpart\<close> looks for a free scratch register, two a turn, eight
  turns; \<open>Some v6\<close> is the address of its flag.
\<close>

fun find_free_reg :: "nat \<Rightarrow> memory \<Rightarrow> u32 \<Rightarrow> u32 \<Rightarrow> (memory \<times> u32 option) option" where
  "find_free_reg 0 m v0 v2 = Some (m, None)"
| "find_free_reg (Suc turns) m v0 v2 =
     (let v3 = v0 + 180; v6 = v3 + push_bit 2 v2
      in do {
        t4 \<leftarrow> load32 m (unat v6);
        if t4 = 0 then Some (m, Some v6)
        else do {
          let v2 = srem16 (v2 + 1);
          m \<leftarrow> store32 m (unat v0 + 244) v2;
          let v6 = v3 + push_bit 2 v2;
          t7 \<leftarrow> load32 m (unat v6);
          if t7 = 0 then Some (m, Some v6)
          else do {
            let v2 = srem16 (v2 + 1);
            m \<leftarrow> store32 m (unat v0 + 244) v2;
            find_free_reg turns m v0 v2
          }
        }
      })"

definition gen_abs_offset_varpart ::
  "formatter \<Rightarrow> formatter \<Rightarrow> u32 \<Rightarrow> memory \<Rightarrow> u32 \<Rightarrow> u32 \<Rightarrow> (memory \<times> u32) jump" where
  "gen_abs_offset_varpart vsnprintf snprintf sp m v0 v1 =
     (let v4 = sp - 16;
          l3 = (\<lambda>m v3. jump_bind (lift (do {
              m \<leftarrow> store32 m (unat v4 + 8) v3;
              m \<leftarrow> store32 m (unat v4 + 4) 68063;
              store32 m (unat v4) 69750
            }))
            (\<lambda>m. bpf_error vsnprintf snprintf v4 m v0 70807 v4))
      in jump_bind (lift (load32 m (unat v1)))
        (\<lambda>t1. if t1 = 0 then Ret (m, 0)
          else jump_bind (lift (load32 m (unat v1 + 8)))
            (\<lambda>v3. jump_bind
              (if v3 = - 1 then
                 jump_bind (lift (do { t3 \<leftarrow> load32 m (unat v0 + 244); find_free_reg 8 m v0 t3 }))
                   (\<lambda>(m, r). case r of
                      None \<Rightarrow> bpf_error vsnprintf snprintf v4 m v0 68385 0
                    | Some v6 \<Rightarrow> lift (do {
                        m \<leftarrow> store32 m (unat v6) 1;
                        v3 \<leftarrow> load32 m (unat v0 + 244);
                        m \<leftarrow> store32 m (unat v1 + 8) v3;
                        Some (m, v3)
                      }))
               else Ret (m, v3))
              (\<lambda>(m, v3). if v3 > 15 then l3 m v3
                else jump_bind (lift (load32 m (unat (v0 + push_bit 2 v3) + 180)))
                  (\<lambda>t12. if t12 = 0 then l3 m v3
                    else new_stmt vsnprintf snprintf v4 m v0 97 v3)))))"

definition gen_load_absoffsetrel ::
  "formatter \<Rightarrow> formatter \<Rightarrow> u32 \<Rightarrow> memory \<Rightarrow> u32 \<Rightarrow> u32 \<Rightarrow> u32 \<Rightarrow> u32 \<Rightarrow> (memory \<times> u32) jump" where
  "gen_load_absoffsetrel vsnprintf snprintf sp m v0 v1 v2 v3 =
     (let v5 = sp - 16
      in if v3 > 16 \<or> i32_shl 1 v3 AND 65793 = 0 then
           jump_bind (lift (do {
             m \<leftarrow> store32 m (unat v5 + 8) v3;
             m \<leftarrow> store32 m (unat v5 + 4) 69773;
             store32 m (unat v5) 68809
           }))
           (\<lambda>m. bpf_error vsnprintf snprintf v5 m v0 70807 v5)
         else if v1 \<noteq> 0 then
           jump_bind (new_stmt vsnprintf snprintf v5 m v0 (v3 OR 64) v2)
             (\<lambda>(m, v4). lift (do { m \<leftarrow> sappend m v1 v4; Some (m, v1) }))
         else new_stmt vsnprintf snprintf v5 m v0 (v3 OR 32) v2)"

text \<open>One appended statement of \<open>_gen_loadx_iphdrlen\<close>.\<close>

definition append_stmt ::
  "formatter \<Rightarrow> formatter \<Rightarrow> u32 \<Rightarrow> u32 \<Rightarrow> u32 \<Rightarrow> memory \<Rightarrow> u32 \<Rightarrow> u32 \<Rightarrow> memory jump" where
  "append_stmt vsnprintf snprintf sp v0 v4 m code k =
     jump_bind (newchunk vsnprintf snprintf sp m v0 20)
       (\<lambda>(m, v1). lift (do {
          m \<leftarrow> store32 m (unat v1 + 12) k;
          m \<leftarrow> store32 m (unat v1) code;
          sappend m v4 v1
        }))"

text \<open>A statement without a constant.\<close>

definition append_plain ::
  "formatter \<Rightarrow> formatter \<Rightarrow> u32 \<Rightarrow> u32 \<Rightarrow> u32 \<Rightarrow> memory \<Rightarrow> u32 \<Rightarrow> memory jump" where
  "append_plain vsnprintf snprintf sp v0 v4 m code =
     jump_bind (newchunk vsnprintf snprintf sp m v0 20)
       (\<lambda>(m, v1). lift (do {
          m \<leftarrow> store32 m (unat v1) code;
          sappend m v4 v1
        }))"

definition gen_loadx_iphdrlen ::
  "formatter \<Rightarrow> formatter \<Rightarrow> u32 \<Rightarrow> memory \<Rightarrow> u32 \<Rightarrow> (memory \<times> u32) jump" where
  "gen_loadx_iphdrlen vsnprintf snprintf sp m v0 =
     jump_bind (gen_abs_offset_varpart vsnprintf snprintf sp m v0 (v0 + 96))
       (\<lambda>(m, v4). jump_bind (lift (do {
            v2 \<leftarrow> load32 m (unat v0 + 172);
            v3 \<leftarrow> load32 m (unat v0 + 100);
            Some (v2 + v3)
          }))
         (\<lambda>off. if v4 \<noteq> 0 then
            jump_bind (append_stmt vsnprintf snprintf sp v0 v4 m 80 off)
              (\<lambda>m. jump_bind (append_stmt vsnprintf snprintf sp v0 v4 m 84 15)
              (\<lambda>m. jump_bind (append_stmt vsnprintf snprintf sp v0 v4 m 100 2)
              (\<lambda>m. jump_bind (append_plain vsnprintf snprintf sp v0 v4 m 12)
              (\<lambda>m. jump_bind (append_plain vsnprintf snprintf sp v0 v4 m 7)
              (\<lambda>m. Ret (m, v4))))))
          else new_stmt vsnprintf snprintf sp m v0 177 off))"

text \<open>
  \<open>_gen_load_a\<close>: a load relative to one of the headers \<open>v1\<close>. \<open>rel part offs\<close> is the pattern of
  its cases: the variable part \<open>part\<close>, then the constant offset read from the handle.
\<close>

definition gen_load_a ::
  "formatter \<Rightarrow> formatter \<Rightarrow> u32 \<Rightarrow> memory \<Rightarrow> u32 \<Rightarrow> u32 \<Rightarrow> u32 \<Rightarrow> u32 \<Rightarrow> (memory \<times> u32) jump" where
  "gen_load_a vsnprintf snprintf sp m v0 v1 v2 v3 =
     (let rel = (\<lambda>part offs.
            jump_bind part (\<lambda>(m, t). jump_bind (lift (offs m))
              (\<lambda>k. gen_load_absoffsetrel vsnprintf snprintf sp m v0 t k v3)));
          varpart = (\<lambda>a. gen_abs_offset_varpart vsnprintf snprintf sp m v0 (v0 + a));
          fld = (\<lambda>m off. load32 m (unat v0 + off))
      in if v1 = 1 then rel (varpart 60) (\<lambda>m. do { t \<leftarrow> fld m 64; Some (t + v2) })
         else if v1 = 2 then rel (varpart 72) (\<lambda>m. do { t \<leftarrow> fld m 76; Some (t + v2) })
         else if v1 = 3 then rel (varpart 96) (\<lambda>m. do { t \<leftarrow> fld m 100; Some (t + v2) })
         else if v1 = 4 then
           rel (varpart 96) (\<lambda>m. do { t10 \<leftarrow> fld m 172; t11 \<leftarrow> fld m 100; Some (t10 + (v2 + t11) - 4) })
         else if v1 = 5 then rel (varpart 108) (\<lambda>m. do { t \<leftarrow> fld m 112; Some (t + v2) })
         else if v1 = 6 then
           rel (varpart 96) (\<lambda>m. do { t14 \<leftarrow> fld m 172; t15 \<leftarrow> fld m 100; Some (t14 + (t15 + v2)) })
         else if v1 = 7 then
           rel (varpart 96) (\<lambda>m. do { t18 \<leftarrow> fld m 176; t19 \<leftarrow> fld m 100; Some (t18 + (t19 + v2)) })
         else if v1 = 8 then
           rel (gen_loadx_iphdrlen vsnprintf snprintf sp m v0)
             (\<lambda>m. do { t25 \<leftarrow> fld m 172; t26 \<leftarrow> fld m 100; Some (t25 + (t26 + v2)) })
         else if v1 = 9 then
           rel (varpart 96) (\<lambda>m. do { t29 \<leftarrow> fld m 172; t30 \<leftarrow> fld m 100; Some (t29 + (v2 + t30) + 40) })
         else gen_load_absoffsetrel vsnprintf snprintf sp m v0 0 v2 v3)"

section \<open>Blocks that test\<close>

definition gen_cmp ::
  "formatter \<Rightarrow> formatter \<Rightarrow> u32 \<Rightarrow> memory \<Rightarrow> u32 \<Rightarrow> u32 \<Rightarrow> u32 \<Rightarrow> u32 \<Rightarrow> u32 \<Rightarrow> (memory \<times> u32) jump" where
  "gen_cmp vsnprintf snprintf sp m v0 v1 v2 v3 v4 =
     jump_bind (gen_load_a vsnprintf snprintf sp m v0 v1 v2 v3)
       (\<lambda>(m, v3). jump_bind (newchunk vsnprintf snprintf sp m v0 212)
         (\<lambda>(m, v0). lift (do {
            m \<leftarrow> store32 m (unat v0 + 8) 21;
            m \<leftarrow> store32 m (unat v0 + 20) v4;
            m \<leftarrow> store32 m (unat v0 + 4) v3;
            m \<leftarrow> store32 m (unat v0 + 96) v0;
            Some (m, v0)
          })))"

definition gen_ncmp ::
  "formatter \<Rightarrow> formatter \<Rightarrow> u32 \<Rightarrow> memory \<Rightarrow> u32 \<Rightarrow> u32 \<Rightarrow> u32 \<Rightarrow> u32 \<Rightarrow> u32 \<Rightarrow> u32 \<Rightarrow> u32 \<Rightarrow> u32 \<Rightarrow>
    (memory \<times> u32) jump" where
  "gen_ncmp vsnprintf snprintf sp m v0 v1 v2 v3 v4 v5 v6 v7 =
     jump_bind (gen_load_a vsnprintf snprintf sp m v0 v1 v2 v3)
       (\<lambda>(m, v2). jump_bind
         (if v4 \<noteq> - 1 then append_stmt vsnprintf snprintf sp v0 v2 m 84 v4 else Ret m)
         (\<lambda>m. jump_bind (newchunk vsnprintf snprintf sp m v0 212)
           (\<lambda>(m, v4). lift (do {
              m \<leftarrow> store32 m (unat v4 + 20) v7;
              m \<leftarrow> store32 m (unat v4 + 4) v2;
              m \<leftarrow> store32 m (unat v4 + 8) (v5 OR 5);
              m \<leftarrow> store32 m (unat v4 + 96) v4;
              if v6 = 0 then Some (m, v4) else gen_not m v4
            }))))"

definition gen_mcmp ::
  "formatter \<Rightarrow> formatter \<Rightarrow> u32 \<Rightarrow> memory \<Rightarrow> u32 \<Rightarrow> u32 \<Rightarrow> u32 \<Rightarrow> u32 \<Rightarrow> u32 \<Rightarrow> u32 \<Rightarrow>
    (memory \<times> u32) jump" where
  "gen_mcmp vsnprintf snprintf sp m v0 v1 v2 v3 v4 v5 =
     (if v5 = 0 then
        (if v4 \<noteq> 0 then gen_false vsnprintf snprintf sp m v0 else gen_true vsnprintf snprintf sp m v0)
      else gen_ncmp vsnprintf snprintf sp m v0 v1 v2 v3 v5 16 0 v4)"

end
