(* ===== verification/Optimizer_Fold.thy ===== *)
theory Optimizer_Fold
  imports Bpf_Machine Errors
begin

text \<open>
  Constant folding of the optimizer: \<open>_fold_op\<close> of \<open>internal/bpf.go\<close>, which replaces an
  arithmetic statement whose two operands are known by the load of its result. The operands are
  value numbers; their values are looked up in the table of the optimizer state.
\<close>

section \<open>The code\<close>

text \<open>The label that the switch on the operation jumps to, and what it computes from \<open>v2\<close>, \<open>v3\<close>.\<close>

datatype folding = Folded u32 | Division_by_zero | Modulo_by_zero | Unknown_op

definition fold_value :: "u32 \<Rightarrow> u32 \<Rightarrow> u32 \<Rightarrow> folding" where
  "fold_value t4 v2 v3 =
     (let op = drop_bit 4 t4 AND 15
      in if op = 0 then Folded (v2 + v3)
         else if op = 1 then Folded (v2 - v3)
         else if op = 2 then Folded (v2 * v3)
         else if op = 3 then (if v3 = 0 then Division_by_zero else Folded (v2 div v3))
         else if op = 4 then Folded (v2 OR v3)
         else if op = 5 then Folded (v2 AND v3)
         else if op = 6 then Folded (if v3 < 32 then i32_shl v2 v3 else 0)
         else if op = 7 then Folded (if v3 < 32 then i32_shr_u v2 v3 else 0)
         else if op = 9 then (if v3 = 0 then Modulo_by_zero else Folded (v2 mod v3))
         else if op = 10 then Folded (v2 XOR v3)
         else Unknown_op)"

text \<open>\<open>_abort\<close> is a run-time panic.\<close>

definition fold_op ::
  "formatter \<Rightarrow> formatter \<Rightarrow> u32 \<Rightarrow> memory \<Rightarrow> u32 \<Rightarrow> u32 \<Rightarrow> u32 \<Rightarrow> u32 \<Rightarrow> memory jump" where
  "fold_op vsnprintf snprintf sp m v0 v1 v2 v3 =
     jump_bind (lift (do {
         v4 \<leftarrow> load32 m (unat v0 + 920);
         v3 \<leftarrow> load32 m (unat (v4 + push_bit 3 v3) + 4);
         v2 \<leftarrow> load32 m (unat (v4 + push_bit 3 v2) + 4);
         t4 \<leftarrow> load32 m (unat v1);
         Some (fold_value t4 v2 v3)
       }))
       (\<lambda>r. case r of
          Folded v3 \<Rightarrow> lift (do {
            m \<leftarrow> store32 m (unat v1) 0;
            m \<leftarrow> store32 m (unat v1 + 12) v3;
            store64 m (unat v0 + 8) 0x100000000
          })
        | Division_by_zero \<Rightarrow> opt_error vsnprintf snprintf sp m v0 68046 0
        | Modulo_by_zero \<Rightarrow> opt_error vsnprintf snprintf sp m v0 68031 0
        | Unknown_op \<Rightarrow> Trap)"

section \<open>What it computes\<close>

text \<open>The switch agrees with the operations of the machine on every opcode the machine knows.\<close>

lemma operation_field:
  fixes op :: u16
  shows "drop_bit 4 (ucast op :: u32) AND 15 = ucast (drop_bit 4 (op AND 0xf0))"
proof -
  have "(15 :: u32) = mask 4" "(0xf0 :: u16) = push_bit 4 (mask 4)"
    by (simp_all add: mask_eq_exp_minus_1 push_bit_eq_mult)
  then show ?thesis
    by (simp only:) (rule bit_word_eqI, auto simp: bit_simps dest: bit_imp_le_length)
qed

lemma decode_op_Alu:
  assumes "decode_op op = Some (Alu f src)"
  shows "alu_of_field (op AND 0xf0) = Some f" "src = src_of_field (op AND 8)"
  using assms
  by (auto simp: decode_op_def decode_alu_def decode_ld_def decode_ldx_def decode_jmp_def Let_def
    split: if_splits)

lemma i32_shifts: "b < 32 \<Longrightarrow> i32_shl a b = push_bit (unat b) a" "b < 32 \<Longrightarrow> i32_shr_u a b = drop_bit (unat b) a"
proof -
  assume "b < 32"
  then have "b AND mask 5 = b"
    by (simp add: word_less_nat_alt take_bit_eq_mask [symmetric] word_unat_eq_iff unsigned_take_bit_eq
      take_bit_nat_eq_self)
  moreover have "(31 :: u32) = mask 5" by (simp add: mask_eq_exp_minus_1)
  ultimately show "i32_shl a b = push_bit (unat b) a" "i32_shr_u a b = drop_bit (unat b) a"
    by (simp_all add: i32_shl_def i32_shr_u_def)
qed

lemma fold_value_alu:
  assumes "decode_op op = Some (Alu f src)"
  shows "fold_value (ucast op) a b =
    (case alu f a b of
       Some c \<Rightarrow> Folded c
     | None \<Rightarrow> if f = Div then Division_by_zero else Modulo_by_zero)"
  using decode_op_Alu(1) [OF assms] operation_field [of op]
  by (auto simp: alu_of_field_def fold_value_def Let_def i32_shifts drop_bit_eq_div split: if_splits)

text \<open>The table of value numbers at \<open>vmap\<close>: eight bytes an entry, the value in the second word.\<close>

definition known_value :: "memory \<Rightarrow> u32 \<Rightarrow> u32 \<Rightarrow> u32 \<Rightarrow> bool" where
  "known_value m v0 n x \<longleftrightarrow>
     (\<exists>vmap. load32 m (unat v0 + 920) = Some vmap \<and> load32 m (unat (vmap + push_bit 3 n) + 4) = Some x)"

lemma fold_op_runs:
  assumes stmt: "load32 m (unat s) = Some (ucast op)" "decode_op op = Some (Alu f src)"
    and vals: "known_value m v0 n a" "known_value m v0 k b"
    and room: "unat s + 16 \<le> length m" "unat v0 + 16 \<le> length m" "unat s + 16 \<le> unat v0 + 8 \<or> unat v0 + 16 \<le> unat s"
  shows "case alu f a b of
      Some c \<Rightarrow> \<exists>m'. fold_op vs sn sp m v0 s n k = Ret m' \<and>
        load32 m' (unat s) = Some 0 \<and> load32 m' (unat s + 12) = Some c \<and>
        load32 m' (unat v0 + 8) = Some 0 \<and> load32 m' (unat v0 + 12) = Some 1
    | None \<Rightarrow> fold_op vs sn sp m v0 s n k =
        opt_error vs sn sp m v0 (if f = Div then 68046 else 68031) 0"
proof -
  obtain vmap where v: "load32 m (unat v0 + 920) = Some vmap"
    "load32 m (unat (vmap + push_bit 3 n) + 4) = Some a" "load32 m (unat (vmap + push_bit 3 k) + 4) = Some b"
    using vals by (auto simp: known_value_def)
  note val = fold_value_alu [OF stmt(2), of a b]
  show ?thesis
  proof (cases "alu f a b")
    case None
    with v stmt(1) val show ?thesis by (simp add: fold_op_def)
  next
    case (Some c)
    obtain m1 where m1: "store32 m (unat s) 0 = Some m1" using room store32_in [of "unat s" m] by auto
    obtain m2 where m2: "store32 m1 (unat s + 12) c = Some m2"
      using room length_store32 [OF m1] store32_in [of "unat s + 12" m1] by auto
    have len: "length m2 = length m" using length_store32 [OF m1] length_store32 [OF m2] by simp
    obtain m3 where m3: "store64 m2 (unat v0 + 8) 0x100000000 = Some m3"
      using room len cell64.store_in [of "unat v0 + 8" m2] by (auto simp: store64_def)
    have "fold_op vs sn sp m v0 s n k = Ret m3"
      using v stmt(1) val Some m1 m2 m3 by (simp add: fold_op_def)
    moreover have "load32 m3 (unat s) = Some 0" "load32 m3 (unat s + 12) = Some c"
    proof -
      have out: "same_outside m2 m3 (unat v0 + 8) 8" by (rule store64_same_outside [OF m3]) auto
      have "load32 m2 (unat s) = Some 0" "load32 m2 (unat s + 12) = Some c"
        using load32_store32 [OF m1] load32_store32_other [OF m2, of "unat s"] load32_store32 [OF m2] by auto
      moreover have "load32 m3 (unat s) = load32 m2 (unat s)" "load32 m3 (unat s + 12) = load32 m2 (unat s + 12)"
        by (rule load32_cong, rule same_outside_get [OF out], use room(3) in linarith)+
      ultimately show "load32 m3 (unat s) = Some 0" "load32 m3 (unat s + 12) = Some c" by simp_all
    qed
    moreover have "load32 m3 (unat v0 + 8) = Some 0" "load32 m3 (unat v0 + 12) = Some 1"
    proof -
      have b: "le_bytes64 0x100000000 = [0, 0, 0, 0, 1, 0, 0, 0]"
        by (simp add: le_bytes64_def drop_bit_eq_div)
      have "get_bytes m3 (unat v0 + 8) 8 = Some [0, 0, 0, 0, 1, 0, 0, 0]"
        using get_put_same [OF m3 [unfolded store64_def], unfolded length_le_bytes] unfolding b .
      then have g: "take 8 (drop (unat v0 + 8) m3) = [0, 0, 0, 0, 1, 0, 0, 0]" "unat v0 + 16 \<le> length m3"
        by (simp_all add: eq_commute)
      have "take 4 (drop (unat v0 + 8) m3) = take 4 (take 8 (drop (unat v0 + 8) m3))"
        "take 4 (drop (unat v0 + 12) m3) = take 4 (drop 4 (take 8 (drop (unat v0 + 8) m3)))"
        by (simp_all add: drop_take add.commute)
      then show "load32 m3 (unat v0 + 8) = Some 0" "load32 m3 (unat v0 + 12) = Some 1"
        unfolding g(1) using g(2) by (simp_all add: load32_def get_bytes_in le_uint32_def)
    qed
    ultimately show ?thesis using Some by auto
  qed
qed

section \<open>Properties\<close>

text \<open>
  C36: Folding is sound: for an arithmetic statement whose operands are known, \<open>_fold_op\<close> makes it
  load the very value that the BPF machine computes for the operation, marks the optimizer state
  as changed, and leaves with an error exactly when the machine would stop, on a division or
  modulo by zero.
\<close>

theorem fold_op_sound:
  assumes "load32 m (unat s) = Some (ucast op)" "decode_op op = Some (Alu f src)"
    "known_value m v0 n a" "known_value m v0 k b"
    "unat s + 16 \<le> length m" "unat v0 + 16 \<le> length m" "unat s + 16 \<le> unat v0 + 8 \<or> unat v0 + 16 \<le> unat s"
  shows "case alu f a b of
      Some c \<Rightarrow> \<exists>m'. fold_op vs sn sp m v0 s n k = Ret m' \<and>
        load32 m' (unat s) = Some 0 \<and> load32 m' (unat s + 12) = Some c \<and>
        load32 m' (unat v0 + 8) = Some 0 \<and> load32 m' (unat v0 + 12) = Some 1
    | None \<Rightarrow> fold_op vs sn sp m v0 s n k =
        opt_error vs sn sp m v0 (if f = Div then 68046 else 68031) 0"
  using assms by (rule fold_op_runs)

text \<open>
  A state at 0 with its table of values at 1000: value 1 is 20, value 2 is 0. The statement at
  1100 divides.
\<close>

definition fold_memory :: memory where
  "fold_memory = replicate 920 0 @ le_bytes32 1000 @ replicate 88 0 @ le_bytes32 20 @ replicate 84 0 @
     le_bytes32 0x34 @ replicate 20 0"

theorem fold_op_sound_witness:
  "fold_op (\<lambda>_ m _ _ _ _. Some m) (\<lambda>_ m _ _ _ _. Some m) 900 fold_memory 0 1100 1 2 =
     opt_error (\<lambda>_ m _ _ _ _. Some m) (\<lambda>_ m _ _ _ _. Some m) 900 fold_memory 0 68046 0 \<and>
   (\<exists>m'. fold_op (\<lambda>_ m _ _ _ _. Some m) (\<lambda>_ m _ _ _ _. Some m) 900 fold_memory 0 1100 2 1 = Ret m' \<and>
      load32 m' 1112 = Some 0)"
proof -
  have m: "load32 fold_memory 920 = Some 1000" "load32 fold_memory 1012 = Some 20"
    "load32 fold_memory 1020 = Some 0" "load32 fold_memory 1100 = Some 0x34" "length fold_memory = 1124"
    by (simp_all add: fold_memory_def load32_def get_bytes_def slice_def le_uint32_def le_bytes32_def
      push_bit_eq_mult)
  have op: "decode_op 0x34 = Some (Alu Div SrcK)" by code_simp
  have "known_value fold_memory 0 1 20" "known_value fold_memory 0 2 0"
    by (simp_all add: known_value_def m push_bit_eq_mult)
  with fold_op_sound [OF _ op, of fold_memory 1100 0 1 20 2 0 "\<lambda>_ m _ _ _ _. Some m" "\<lambda>_ m _ _ _ _. Some m" 900]
    fold_op_sound [OF _ op, of fold_memory 1100 0 2 0 1 20 "\<lambda>_ m _ _ _ _. Some m" "\<lambda>_ m _ _ _ _. Some m" 900] m
  show ?thesis by auto
qed

end
