(* ===== verification/Emit.thy ===== *)
theory Emit
  imports Alloc Errors
begin

text \<open>
  The last phase of the filter compiler: \<open>_icode_to_fcode\<close> of \<open>internal/bpf.go\<close> turns the graph of
  blocks into an array of instructions. \<open>_count_stmts\<close> gives its length; \<open>_convert_code_r\<close>
  fills it from the end, a block after its successors, and asks for another round when a
  conditional jump is too far for its eight bits.

  The words of a block used here, by offset: 4 the statements, 8 and 20 the code and constant of
  its last instruction, 24 the mark of the last traversal, 28 and 32 whether its true and false
  jump need a long jump, 40 its place in the program, 60 and 84 its successors. A statement has
  its code at 0, two internal jump targets at 4 and 8, its constant at 12 and the next statement
  at 16; the code -1 is a statement that was optimized away.
\<close>

section \<open>Counting\<close>

text \<open>The loop over the statements of a block (\<open>l2\<close> of \<open>_count_stmts\<close>, \<open>l3\<close> of \<open>_convert_code_r\<close>).\<close>

partial_function (option) count_body :: "memory \<Rightarrow> u32 \<Rightarrow> u32 \<Rightarrow> u32 option" where
  "count_body m v2 v0 =
     do {
       t7 \<leftarrow> load32 m (unat v2);
       let v0 = v0 + (if t7 \<noteq> - 1 then 1 else 0);
       v2 \<leftarrow> load32 m (unat v2 + 16);
       if v2 \<noteq> 0 then count_body m v2 v0 else Some v0
     }"

partial_function (option) count_stmts :: "memory \<Rightarrow> u32 \<Rightarrow> u32 \<Rightarrow> (memory \<times> u32) option" where
  "count_stmts m v0 v1 =
     (if v1 = 0 then Some (m, 0)
      else do {
        v3 \<leftarrow> load32 m (unat v0 + 4);
        t1 \<leftarrow> load32 m (unat v1 + 24);
        if v3 = t1 then Some (m, 0)
        else do {
          m \<leftarrow> store32 m (unat v1 + 24) v3;
          t2 \<leftarrow> load32 m (unat v1 + 60);
          (m, v3) \<leftarrow> count_stmts m v0 t2;
          t4 \<leftarrow> load32 m (unat v1 + 84);
          (m, v4) \<leftarrow> count_stmts m v0 t4;
          v2 \<leftarrow> load32 m (unat v1 + 4);
          v0 \<leftarrow> (if v2 = 0 then Some 0 else count_body m v2 0);
          t11 \<leftarrow> load32 m (unat v1 + 32);
          t12 \<leftarrow> load32 m (unat v1 + 28);
          Some (m, t11 + (t12 + (v3 + v4 + v0)) + 1)
        }
      })"

section \<open>The statements of a block\<close>

definition conv_error :: "formatter \<Rightarrow> formatter \<Rightarrow> u32 \<Rightarrow> memory \<Rightarrow> u32 \<Rightarrow> u32 \<Rightarrow> u32 \<Rightarrow> 'a jump" where
  "conv_error vsnprintf snprintf sp m v0 v1 v2 =
     (let v3 = sp - 16
      in jump_bind (lift (do {
           m \<leftarrow> store32 m (unat v3 + 12) v2;
           t1 \<leftarrow> load32 m (unat v0 + 4);
           vsnprintf v3 m t1 256 v1 v2
         }))
         (\<lambda>m. pcap_longjmp_at_145 snprintf v3 m 67486 2959))"

text \<open>The loop at \<open>l6\<close> lists the addresses of at most \<open>v6\<close> statements.\<close>

partial_function (option) list_stmts :: "memory \<Rightarrow> u32 \<Rightarrow> u32 \<Rightarrow> u32 \<Rightarrow> u32 \<Rightarrow> memory option" where
  "list_stmts m v1 v4 v6 v8 =
     do {
       m \<leftarrow> store32 m (unat v1) v8;
       if v4 \<ge> v6 then Some m
       else do {
         v8 \<leftarrow> load32 m (unat v8 + 16);
         if v8 \<noteq> 0 then list_stmts m (v1 + 4) (v4 + 1) v6 v8 else Some m
       }
     }"

text \<open>The labels that the loops below jump to.\<close>

datatype label = L7 | L8 | L9 | L10 | L11 | L12 | L13 | L14

text \<open>
  The loop at \<open>l15\<close> looks for the targets \<open>v15\<close> and \<open>v16\<close> of a jump inside the block in the list of
  statements at \<open>v4\<close>; \<open>v1\<close> is the distance of the statement looked at.
\<close>

fun find_targets ::
  "nat \<Rightarrow> memory \<Rightarrow> u32 \<Rightarrow> u32 \<Rightarrow> u32 \<Rightarrow> u32 \<Rightarrow> u32 \<Rightarrow> u32 \<Rightarrow> u32 \<Rightarrow> (memory \<times> label) option" where
  "find_targets 0 m v1 v4 v5 v11 v12 v15 v16 = Some (m, if v12 = 0 \<or> v11 = 0 then L10 else L8)"
| "find_targets (Suc v8) m v1 v4 v5 v11 v12 v15 v16 =
     do {
       v13 \<leftarrow> load32 m (unat v4);
       if v15 = v13 \<and> v12 \<noteq> 0 then Some (m, L11)
       else if v15 = v13 \<and> v1 \<ge> 256 then Some (m, L12)
       else do {
         (m, v12) \<leftarrow> (if v15 = v13 then do { m \<leftarrow> store8 m (unat v5 + 2) v1; Some (m, 1) } else Some (m, v12));
         if v13 = v16 \<and> v11 \<noteq> 0 then Some (m, L13)
         else if v13 = v16 \<and> v1 \<ge> 256 then Some (m, L14)
         else do {
           (m, v11) \<leftarrow> (if v13 = v16 then do { m \<leftarrow> store8 m (unat v5 + 3) v1; Some (m, 1) } else Some (m, v11));
           find_targets v8 m (v1 + 1) (v4 + 4) v5 v11 v12 v15 v16
         }
       }
     }"

text \<open>The format of the error messages, copied to the frame at \<open>v3\<close>.\<close>

definition copy_format :: "memory \<Rightarrow> u32 \<Rightarrow> memory option" where
  "copy_format m v3 =
     do {
       t24 \<leftarrow> load8 m 75048;
       m \<leftarrow> store8 m (unat v3 + 136) t24;
       t25 \<leftarrow> load64 m 75040;
       m \<leftarrow> store64 m (unat v3 + 128) t25;
       t26 \<leftarrow> load64 m 75032;
       m \<leftarrow> store64 m (unat v3 + 120) t26;
       t27 \<leftarrow> load64 m 75024;
       m \<leftarrow> store64 m (unat v3 + 112) t27;
       t28 \<leftarrow> load64 m 75016;
       m \<leftarrow> store64 m (unat v3 + 104) t28;
       t29 \<leftarrow> load64 m 75008;
       store64 m (unat v3 + 96) t29
     }"

text \<open>
  One statement: its instruction at \<open>v5\<close>, and its jumps when it has some. \<open>v9\<close> is its index,
  \<open>v7\<close> the list of the \<open>v6\<close> statements, \<open>v14\<close> the index before the last.
\<close>

definition emit_stmt ::
  "memory \<Rightarrow> u32 \<Rightarrow> u32 \<Rightarrow> u32 \<Rightarrow> u32 \<Rightarrow> u32 \<Rightarrow> u32 \<Rightarrow> u32 \<Rightarrow> u32 \<Rightarrow> (memory \<times> label) option" where
  "emit_stmt m v1 v3 v5 v6 v7 v9 v10 v14 =
     do {
       m \<leftarrow> store16 m (unat v5) (ucast v1);
       t23 \<leftarrow> load32 m (unat v10 + 12);
       m \<leftarrow> store32 m (unat v5 + 4) t23;
       if v1 = 5 \<or> v1 AND 7 \<noteq> 5 \<or> v9 = v14 then Some (m, L8)
       else do {
         m \<leftarrow> copy_format m v3;
         v15 \<leftarrow> load32 m (unat v10 + 4);
         if v15 = 0 then Some (m, L9)
         else do {
           v16 \<leftarrow> load32 m (unat v10 + 8);
           if v16 = 0 then Some (m, L9)
           else if v6 = 0 then Some (m, L10)
           else find_targets (unat v6) m (v9 XOR - 1) v7 v5 0 0 v15 v16
         }
       }
     }"

text \<open>
  The loop at \<open>l16\<close>. It ends at \<open>l7\<close> with the place of the last instruction, or at a label of an
  error with the index of the statement.
\<close>

partial_function (option) emit_stmts ::
  "memory \<Rightarrow> u32 \<Rightarrow> u32 \<Rightarrow> u32 \<Rightarrow> u32 \<Rightarrow> u32 \<Rightarrow> u32 \<Rightarrow> u32 \<Rightarrow> (memory \<times> label \<times> u32 \<times> u32) option" where
  "emit_stmts m v3 v5 v6 v7 v9 v10 v14 =
     do {
       v1 \<leftarrow> load32 m (unat v10);
       (m, l) \<leftarrow> (if v1 \<noteq> - 1 then emit_stmt m v1 v3 v5 v6 v7 v9 v10 v14 else Some (m, L8));
       if l \<noteq> L8 then Some (m, l, v5, v9)
       else do {
         let (v5, v9) = (if v1 \<noteq> - 1 then (v5 + 8, v9 + 1) else (v5, v9));
         v10 \<leftarrow> load32 m (unat v10 + 16);
         if v10 \<noteq> 0 then emit_stmts m v3 v5 v6 v7 v9 v10 v14 else Some (m, L7, v5, v9)
       }
     }"

section \<open>A block\<close>

text \<open>
  \<open>_convert_code_r\<close> after its recursive calls, in three parts. First the length of the block, its
  place before all that has been written and its offset.
\<close>

definition place_block :: "memory \<Rightarrow> u32 \<Rightarrow> u32 \<Rightarrow> (memory \<times> u32 \<times> u32) option" where
  "place_block m v0 v2 =
     do {
       v1 \<leftarrow> load32 m (unat v2 + 4);
       v6 \<leftarrow> (if v1 = 0 then Some 0 else count_body m v1 0);
       t12 \<leftarrow> load32 m (unat v0 + 12);
       t13 \<leftarrow> load32 m (unat v2 + 28);
       t14 \<leftarrow> load32 m (unat v2 + 32);
       let v5 = t12 + push_bit 3 ((v6 XOR - 1) - (t13 + t14));
       m \<leftarrow> store32 m (unat v0 + 12) v5;
       t16 \<leftarrow> load32 m (unat v0 + 8);
       m \<leftarrow> store32 m (unat v2 + 40) (signed_drop_bit 3 (v5 - t16));
       Some (m, v5, v6)
     }"

text \<open>Then the statements, up to the label \<open>l7\<close>; the other labels report an error.\<close>

definition stmt_error ::
  "formatter \<Rightarrow> formatter \<Rightarrow> u32 \<Rightarrow> memory \<Rightarrow> u32 \<Rightarrow> u32 \<Rightarrow> u32 \<Rightarrow> u32 \<Rightarrow> u32 \<Rightarrow> 'a jump" where
  "stmt_error vsnprintf snprintf v3 m v0 v7 v9 args msg =
     jump_bind (lift (do {
         m \<leftarrow> xfree m v7;
         m \<leftarrow> store32 m (unat (v3 + args) + 4) v9;
         store32 m (unat (v3 + args)) msg
       }))
       (\<lambda>m. conv_error vsnprintf snprintf v3 m v0 (v3 + 96) (v3 + args))"

definition emit_body ::
  "formatter \<Rightarrow> formatter \<Rightarrow> u32 \<Rightarrow> memory \<Rightarrow> u32 \<Rightarrow> u32 \<Rightarrow> u32 \<Rightarrow> u32 \<Rightarrow> (memory \<times> u32) jump" where
  "emit_body vsnprintf snprintf v3 m v0 v2 v5 v6 =
     jump_bind (lift (
       if v6 = 0 then do {
         v10 \<leftarrow> load32 m (unat v2 + 4);
         Some (m, Some (0, v10))
       }
       else do {
         (v7, m) \<leftarrow> calloc m v6 4;
         if v7 = 0 then Some (m, None)
         else do {
           v10 \<leftarrow> load32 m (unat v2 + 4);
           m \<leftarrow> (if v10 = 0 then Some m else list_stmts m v7 1 v6 v10);
           Some (m, Some (v7, v10))
         }
       }))
       (\<lambda>(m, r). case r of
          None \<Rightarrow> conv_error vsnprintf snprintf v3 m v0 70004 0
        | Some (v7, v10) \<Rightarrow>
            jump_bind (lift (if v10 = 0 then Some (m, L7, v5, 0)
                else emit_stmts m v3 v5 v6 v7 0 v10 (v6 - 2)))
              (\<lambda>(m, l, v5, v9).
                 let err = stmt_error vsnprintf snprintf v3 m v0 v7 v9
                 in if l = L9 then err 0 68215
                    else if l = L10 then err 16 70424
                    else if l = L11 then err 80 67215
                    else if l = L12 then err 32 67870
                    else if l = L13 then err 64 67215
                    else if l = L14 then err 48 67870
                    else lift (do {
                      m \<leftarrow> (if v7 \<noteq> 0 then xfree m v7 else Some m);
                      Some (m, v5)
                    })))"

text \<open>
  Last its final instruction, at \<open>v5\<close>, with the jumps over the distances \<open>v4\<close> and \<open>v1\<close>. A jump
  too long for its byte goes to a long jump behind the instruction, if room was planned for it;
  else the plan is changed and the result is \<open>None\<close> or 0. \<open>v8\<close> counts the long jumps.
\<close>

definition true_jump :: "memory \<Rightarrow> u32 \<Rightarrow> u32 \<Rightarrow> u32 \<Rightarrow> (memory \<times> u32 option) option" where
  "true_jump m v2 v5 v4 =
     (if v4 < 256 then do { m \<leftarrow> store8 m (unat v5 + 2) v4; Some (m, Some 0) }
      else do {
        t40 \<leftarrow> load32 m (unat v2 + 28);
        if t40 = 0 then do {
          m \<leftarrow> store32 m (unat v2 + 28) 1;
          Some (m, None)
        }
        else do {
          m \<leftarrow> store16 m (unat v5 + 8) 5;
          m \<leftarrow> store8 m (unat v5 + 2) 0;
          m \<leftarrow> store32 m (unat v5 + 12) (v4 - 1);
          Some (m, Some 1)
        }
      })"

definition false_jump :: "memory \<Rightarrow> u32 \<Rightarrow> u32 \<Rightarrow> u32 \<Rightarrow> u32 \<Rightarrow> (memory \<times> u32) option" where
  "false_jump m v2 v5 v8 v1 =
     (if v1 < 256 then do { m \<leftarrow> store8 m (unat v5 + 3) v1; Some (m, 1) }
      else do {
        t43 \<leftarrow> load32 m (unat v2 + 32);
        if t43 = 0 then do {
          m \<leftarrow> store32 m (unat v2 + 32) 1;
          Some (m, 0)
        }
        else do {
          m \<leftarrow> store8 m (unat v5 + 3) v8;
          let v8 = v8 + 1;
          let v13 = v5 + push_bit 3 v8;
          m \<leftarrow> store32 m (unat v13 + 4) (v1 - v8);
          m \<leftarrow> store16 m (unat v13) 5;
          Some (m, 1)
        }
      })"

definition emit_jumps :: "memory \<Rightarrow> u32 \<Rightarrow> u32 \<Rightarrow> u32 \<Rightarrow> (memory \<times> u32) option" where
  "emit_jumps m v2 v5 v6 =
     do {
       t35 \<leftarrow> load32 m (unat v2 + 8);
       m \<leftarrow> store16 m (unat v5) (ucast t35);
       t36 \<leftarrow> load32 m (unat v2 + 20);
       m \<leftarrow> store32 m (unat v5 + 4) t36;
       v1 \<leftarrow> load32 m (unat v2 + 60);
       if v1 = 0 then Some (m, 1)
       else do {
         t38 \<leftarrow> load32 m (unat v1 + 40);
         t39 \<leftarrow> load32 m (unat v2 + 40);
         let v1 = (t39 + v6) XOR - 1;
         (m, r) \<leftarrow> true_jump m v2 v5 (t38 + v1);
         case r of
           None \<Rightarrow> Some (m, 0)
         | Some v8 \<Rightarrow> do {
             t41 \<leftarrow> load32 m (unat v2 + 84);
             t42 \<leftarrow> load32 m (unat t41 + 40);
             false_jump m v2 v5 v8 (t42 + v1)
           }
       }
     }"

text \<open>
  The recursion. The stack of the program bounds its depth; \<open>fuel\<close> is that bound, and the
  recursion panics when it is used up.
\<close>

fun convert_code_r ::
  "formatter \<Rightarrow> formatter \<Rightarrow> nat \<Rightarrow> u32 \<Rightarrow> memory \<Rightarrow> u32 \<Rightarrow> u32 \<Rightarrow> u32 \<Rightarrow> (memory \<times> u32) jump" where
  "convert_code_r vsnprintf snprintf 0 sp m v0 v1 v2 = Trap"
| "convert_code_r vsnprintf snprintf (Suc fuel) sp m v0 v1 v2 =
     (let v3 = sp - 144
      in if v2 = 0 then Ret (m, 1)
         else jump_bind (lift (do {
             v4 \<leftarrow> load32 m (unat v1 + 4);
             t2 \<leftarrow> load32 m (unat v2 + 24);
             Some (v4, t2)
           }))
           (\<lambda>(v4, t2). if v4 = t2 then Ret (m, 1)
              else jump_bind (lift (do {
                  m \<leftarrow> store32 m (unat v2 + 24) v4;
                  t3 \<leftarrow> load32 m (unat v2 + 84);
                  Some (m, t3)
                }))
                (\<lambda>(m, t3). jump_bind (convert_code_r vsnprintf snprintf fuel v3 m v0 v1 t3)
                (\<lambda>(m, t4). if t4 = 0 then Ret (m, 0)
                  else jump_bind (lift (load32 m (unat v2 + 60)))
                  (\<lambda>t5. jump_bind (convert_code_r vsnprintf snprintf fuel v3 m v0 v1 t5)
                  (\<lambda>(m, t6). if t6 = 0 then Ret (m, 0)
                    else jump_bind (lift (place_block m v0 v2))
                    (\<lambda>(m, v5, v6). jump_bind (emit_body vsnprintf snprintf v3 m v0 v2 v5 v6)
                    (\<lambda>(m, v5). lift (emit_jumps m v2 v5 v6)))))))))"

section \<open>The program\<close>

text \<open>
  The loop at \<open>l1\<close>: a round writes the program into a fresh block of memory; a round that failed
  has planned one more long jump. \<open>fuel\<close> bounds the rounds, \<open>depth\<close> the recursion. The result is
  the address of the program and its length, or \<open>None\<close> when there is no memory for it.
\<close>

fun convert_rounds ::
  "formatter \<Rightarrow> formatter \<Rightarrow> nat \<Rightarrow> nat \<Rightarrow> u32 \<Rightarrow> memory \<Rightarrow> u32 \<Rightarrow> u32 \<Rightarrow> u32 \<Rightarrow> u32 \<Rightarrow>
    (memory \<times> (u32 \<times> u32) option) jump" where
  "convert_rounds vsnprintf snprintf depth 0 v4 m v0 v1 v5 v6 = Trap"
| "convert_rounds vsnprintf snprintf depth (Suc fuel) v4 m v0 v1 v5 v6 =
     (if v5 = 0 then Ret (m, None)
      else jump_bind (lift (do {
          t4 \<leftarrow> load32 m (unat v0 + 4);
          m \<leftarrow> store32 m (unat v0 + 4) (t4 + 1);
          m \<leftarrow> store32 m (unat v4 + 8) v5;
          store32 m (unat v4 + 12) (v5 + push_bit 3 v6)
        }))
        (\<lambda>m. jump_bind (convert_code_r vsnprintf snprintf depth v4 m v4 v0 v1)
        (\<lambda>(m, t5). if t5 \<noteq> 0 then Ret (m, Some (v5, v6))
          else jump_bind (lift (do {
              m \<leftarrow> xfree m v5;
              t6 \<leftarrow> load32 m (unat v0 + 4);
              m \<leftarrow> store32 m (unat v0 + 4) (t6 + 1);
              (m, v6) \<leftarrow> count_stmts m v0 v1;
              (v5, m) \<leftarrow> calloc m v6 8;
              Some (m, v5, v6)
            }))
            (\<lambda>(m, v5, v6). convert_rounds vsnprintf snprintf depth fuel v4 m v0 v1 v5 v6))))"

definition icode_to_fcode ::
  "formatter \<Rightarrow> formatter \<Rightarrow> nat \<Rightarrow> nat \<Rightarrow> u32 \<Rightarrow> memory \<Rightarrow> u32 \<Rightarrow> u32 \<Rightarrow> u32 \<Rightarrow> u32 \<Rightarrow> (memory \<times> u32) jump" where
  "icode_to_fcode vsnprintf snprintf depth fuel sp m v0 v1 v2 v3 =
     (let v4 = sp - 16
      in jump_bind (lift (do {
           t1 \<leftarrow> load32 m (unat v0 + 4);
           m \<leftarrow> store32 m (unat v0 + 4) (t1 + 1);
           m \<leftarrow> store32 m (unat v4 + 4) v3;
           m \<leftarrow> store32 m (unat v4 + 8) 0;
           (m, v6) \<leftarrow> count_stmts m v0 v1;
           (v5, m) \<leftarrow> calloc m v6 8;
           Some (m, v5, v6)
         }))
         (\<lambda>(m, v5, v6). jump_bind (convert_rounds vsnprintf snprintf depth fuel v4 m v0 v1 v5 v6)
           (\<lambda>(m, r). lift (case r of
              Some (v5, v6) \<Rightarrow> do { m \<leftarrow> store32 m (unat v2) v6; Some (m, v5) }
            | None \<Rightarrow> do { m \<leftarrow> snprintf v4 m v3 256 70973 0; Some (m, 0) }))))"

end
