(* ===== verification/Icode.thy ===== *)
theory Icode
  imports Bpf_Machine
begin

text \<open>
  The intermediate code of the filter compiler, apart from its layout in memory: a graph of
  blocks, each a list of statements and a test with two successors, or a return. A block graph
  has a meaning of its own, on the registers of the BPF machine; a program in which the blocks
  are laid out and the jumps lead where the edges lead computes the same verdicts.
\<close>

section \<open>Block graphs\<close>

text \<open>
  A block at an address: its statements as pairs of code and constant, the code and constant of
  its last instruction, and the successors, both 0 in a block that returns.
\<close>

record icode_block =
  body :: "(u32 \<times> u32) list"
  test :: u32
  bound :: u32
  yes :: u32
  no :: u32

type_synonym icode = "u32 \<Rightarrow> icode_block"

text \<open>A statement is an instruction that does not jump.\<close>

definition exec_stmt :: "u8 list \<Rightarrow> u32 \<Rightarrow> u32 \<times> u32 \<Rightarrow> bpf_state \<Rightarrow> (bpf_state, u32) progress" where
  "exec_stmt pkt wl x s =
     (case decode_op (ucast (fst x)) of
        None \<Rightarrow> Stop 0
      | Some ins \<Rightarrow> bpf_exec (pc s + 2) pkt wl \<lparr>Op = ucast (fst x), Jt = 0, Jf = 0, K = snd x\<rparr> ins s)"

fun exec_body :: "u8 list \<Rightarrow> u32 \<Rightarrow> (u32 \<times> u32) list \<Rightarrow> bpf_state \<Rightarrow> (bpf_state, u32) progress" where
  "exec_body pkt wl [] s = Next s"
| "exec_body pkt wl (x # xs) s =
     (case exec_stmt pkt wl x s of Stop v \<Rightarrow> Stop v | Next s \<Rightarrow> exec_body pkt wl xs s)"

text \<open>The end of a block: an edge, or the verdict.\<close>

datatype block_end = Edge u32 | Verdict u32

definition block_end_of :: "icode_block \<Rightarrow> bpf_state \<Rightarrow> block_end" where
  "block_end_of b s =
     (case decode_op (ucast (test b)) of
        Some RetK \<Rightarrow> Verdict (bound b)
      | Some RetA \<Rightarrow> Verdict (acc s)
      | Some (Jcc c src) \<Rightarrow> Edge (if cond c (acc s) (operand src (bound b) s) then yes b else no b)
      | _ \<Rightarrow> Verdict 0)"

inductive block_run :: "icode \<Rightarrow> u8 list \<Rightarrow> u32 \<Rightarrow> u32 \<Rightarrow> bpf_state \<Rightarrow> u32 \<Rightarrow> bool"
  for C pkt wl where
  run_stop: "exec_body pkt wl (body (C b)) s = Stop v \<Longrightarrow> block_run C pkt wl b s v"
| run_verdict: "exec_body pkt wl (body (C b)) s = Next s' \<Longrightarrow> block_end_of (C b) s' = Verdict v \<Longrightarrow>
    block_run C pkt wl b s v"
| run_edge: "exec_body pkt wl (body (C b)) s = Next s' \<Longrightarrow> block_end_of (C b) s' = Edge c \<Longrightarrow>
    block_run C pkt wl c s' v \<Longrightarrow> block_run C pkt wl b s v"

inductive_cases block_runE: "block_run C pkt wl b s v"

lemma block_run_deterministic:
  "block_run C pkt wl b s v \<Longrightarrow> block_run C pkt wl b s v' \<Longrightarrow> v' = v"
proof (induction arbitrary: v' rule: block_run.induct)
  case (run_edge b s s' c v)
  from run_edge.prems have "block_run C pkt wl c s' v'"
    by (rule block_runE) (use run_edge.hyps(1,2) in simp_all)
  then show ?case by (rule run_edge.IH)
qed (auto elim: block_runE)

section \<open>Well-formed graphs\<close>

text \<open>
  Statements do not jump; a block has two successors and a conditional jump, or none and a
  return; edges stay in the graph, and there is no cycle: \<open>rank\<close> falls along the edges.
\<close>

definition plain_code :: "u32 \<Rightarrow> bool" where
  "plain_code c \<longleftrightarrow> c AND 7 \<noteq> 5"

definition block_ok :: "u32 set \<Rightarrow> (u32 \<Rightarrow> nat) \<Rightarrow> u32 \<Rightarrow> icode_block \<Rightarrow> bool" where
  "block_ok B rank b k \<longleftrightarrow>
     (\<forall>x \<in> set (body k). plain_code (fst x)) \<and>
     (if yes k = 0
      then no k = 0 \<and> (decode_op (ucast (test k)) = Some RetK \<or> decode_op (ucast (test k)) = Some RetA)
      else (\<exists>c src. decode_op (ucast (test k)) = Some (Jcc c src)) \<and>
        {yes k, no k} \<subseteq> B \<and> rank (yes k) < rank b \<and> rank (no k) < rank b)"

definition icode_ok :: "u32 set \<Rightarrow> (u32 \<Rightarrow> nat) \<Rightarrow> icode \<Rightarrow> bool" where
  "icode_ok B rank C \<longleftrightarrow> 0 \<notin> B \<and> (\<forall>b \<in> B. block_ok B rank b (C b))"

lemma block_end_cases:
  assumes "block_ok B rank b k"
  obtains v where "yes k = 0" "block_end_of k s = Verdict v"
  | c src where "yes k \<noteq> 0" "decode_op (ucast (test k)) = Some (Jcc c src)"
    "block_end_of k s = Edge (if cond c (acc s) (operand src (bound k) s) then yes k else no k)"
  using assms by (auto simp: block_ok_def block_end_of_def split: if_splits)

lemma block_run_total:
  assumes "icode_ok B rank C" "b \<in> B"
  shows "\<exists>v. block_run C pkt wl b s v"
  using assms(2)
proof (induction "rank b" arbitrary: b s rule: less_induct)
  case less
  have ok: "block_ok B rank b (C b)" using assms(1) less.prems by (simp add: icode_ok_def)
  show ?case
  proof (cases "exec_body pkt wl (body (C b)) s")
    case (Stop v)
    then show ?thesis by (blast intro: run_stop)
  next
    case (Next s')
    from ok show ?thesis
    proof (rule block_end_cases [where s = s'])
      fix v assume "block_end_of (C b) s' = Verdict v"
      with Next show ?thesis by (blast intro: run_verdict)
    next
      fix c src
      define t where "t = (if cond c (acc s') (operand src (bound (C b)) s') then yes (C b) else no (C b))"
      assume a: "yes (C b) \<noteq> 0"
        "block_end_of (C b) s' = Edge (if cond c (acc s') (operand src (bound (C b)) s') then yes (C b) else no (C b))"
      then have "rank t < rank b" "t \<in> B" using ok by (auto simp: block_ok_def t_def)
      from less.hyps [OF this, of s'] obtain v where "block_run C pkt wl t s' v" by blast
      with Next a(2) show ?thesis unfolding t_def by (blast intro: run_edge)
    qed
  qed
qed

section \<open>Programs that lay out a graph\<close>

text \<open>An instruction at \<open>p\<close> leads to \<open>t\<close> when it is there, or is a jump forward to it.\<close>

definition leads :: "raw_instruction list \<Rightarrow> nat \<Rightarrow> nat \<Rightarrow> bool" where
  "leads prog p t \<longleftrightarrow>
     p = t \<or> p < length prog \<and> Op (prog ! p) = 5 \<and> unat (K (prog ! p)) < 2 ^ 31 \<and>
       p + 1 + unat (K (prog ! p)) = t"

definition block_laid :: "raw_instruction list \<Rightarrow> (u32 \<Rightarrow> nat) \<Rightarrow> u32 \<Rightarrow> icode_block \<Rightarrow> bool" where
  "block_laid prog pos b k \<longleftrightarrow>
     (let e = pos b + length (body k)
      in e < length prog \<and>
         (\<forall>i < length (body k). Op (prog ! (pos b + i)) = ucast (fst (body k ! i)) \<and>
            K (prog ! (pos b + i)) = snd (body k ! i)) \<and>
         Op (prog ! e) = ucast (test k) \<and> K (prog ! e) = bound k \<and>
         (yes k \<noteq> 0 \<longrightarrow> leads prog (e + 1 + unat (Jt (prog ! e))) (pos (yes k)) \<and>
            leads prog (e + 1 + unat (Jf (prog ! e))) (pos (no k))))"

lemma plain_code_decode:
  assumes "plain_code c" "decode_op (ucast c) = Some ins"
  shows "ins \<noteq> Ja" "ins \<noteq> Jcc f src"
proof -
  have e: "(ucast c :: u16) AND 7 = ucast (c AND 7)"
    by (rule bit_word_eqI) (auto simp: bit_simps)
  have "(ucast c :: u16) AND 7 \<noteq> 5"
  proof
    assume "(ucast c :: u16) AND 7 = 5"
    then have "unat (ucast (c AND 7) :: u16) = 5" using e by simp
    moreover have "unat (ucast (c AND 7) :: u16) = unat (c AND 7)"
    proof -
      have "c AND 7 \<le> 7" by (rule word_and_le1)
      then have "unat (c AND 7) \<le> 7" by (simp add: word_le_nat_alt)
      then show ?thesis by (simp add: unsigned_ucast_eq take_bit_nat_eq_self_iff)
    qed
    ultimately have "c AND 7 = 5" by (simp add: word_unat_eq_iff)
    with assms(1) show False by (simp add: plain_code_def)
  qed
  with assms(2) show "ins \<noteq> Ja" "ins \<noteq> Jcc f src"
    by (auto simp: decode_op_def decode_alu_def decode_ld_def decode_ldx_def Let_def
      split: if_splits)
qed

text \<open>A statement does the same wherever it stands.\<close>

lemma bpf_exec_moved:
  assumes "ins \<noteq> Ja" "\<And>f src. ins \<noteq> Jcc f src" "K i = K i'" "p + 1 < n"
  shows "bpf_exec n pkt wl i ins (s\<lparr>pc := p, jumps_back := j\<rparr>) =
    (case bpf_exec (pc s + 2) pkt wl i' ins s of
       Stop v \<Rightarrow> Stop v | Next s' \<Rightarrow> Next (s'\<lparr>pc := p + 1, jumps_back := j\<rparr>))"
  using assms(1,2)
proof (cases ins)
  case (Alu f src)
  with assms(3,4) show ?thesis
    by (cases src) (auto simp: set_acc_def goto_pc_def split: option.splits)
qed (use assms(3,4) in \<open>auto simp: set_acc_def set_idx_def set_scratch_def goto_pc_def split: option.splits\<close>)


definition stops :: "raw_instruction list \<Rightarrow> u8 list \<Rightarrow> u32 \<Rightarrow> bpf_state \<Rightarrow> u32 \<Rightarrow> bool" where
  "stops prog pkt wl s v \<longleftrightarrow> (\<exists>n. run (bpf_step prog pkt wl) n s = Some v)"

lemma stops_step:
  assumes "bpf_step prog pkt wl s = Some (Next s')" "stops prog pkt wl s' v"
  shows "stops prog pkt wl s v"
proof -
  obtain n where "run (bpf_step prog pkt wl) n s' = Some v" using assms(2) by (auto simp: stops_def)
  with assms(1) have "run (bpf_step prog pkt wl) (Suc n) s = Some v" by simp
  then show ?thesis unfolding stops_def by blast
qed

lemma stops_now:
  assumes "bpf_step prog pkt wl s = Some (Stop v)"
  shows "stops prog pkt wl s v"
proof -
  have "run (bpf_step prog pkt wl) (Suc 0) s = Some v" using assms by simp
  then show ?thesis unfolding stops_def by blast
qed

lemma stops_verdict:
  assumes "stops prog pkt wl bpf_init v" "1 \<le> length prog" "length prog \<le> 3060000"
  shows "bpf_verdict prog pkt wl = Some v"
proof -
  obtain n where n: "run (bpf_step prog pkt wl) n bpf_init = Some v" using assms(1) by (auto simp: stops_def)
  obtain v' where "bpf_verdict prog pkt wl = Some v'" using bpf_verdict_total by blast
  with assms(2,3) have v': "run (bpf_step prog pkt wl) (bpf_fuel (length prog)) bpf_init = Some v'"
    by (auto simp: bpf_verdict_def split: if_splits)
  from run_mono [OF n, of "max n (bpf_fuel (length prog))"]
    run_mono [OF v', of "max n (bpf_fuel (length prog))"] assms(2,3) v'
  show ?thesis by (cases prog) (simp_all add: bpf_verdict_def)
qed

text \<open>Running the statements of a block where it is laid out.\<close>

lemma body_runs:
  assumes "\<And>i. i < length xs \<Longrightarrow> Op (prog ! (p + i)) = ucast (fst (xs ! i)) \<and> K (prog ! (p + i)) = snd (xs ! i)"
    and "p + length xs < length prog" "\<forall>x \<in> set xs. plain_code (fst x)"
  shows "case exec_body pkt wl xs s of
      Stop v \<Rightarrow> stops prog pkt wl (s\<lparr>pc := p, jumps_back := j\<rparr>) v
    | Next s' \<Rightarrow> (\<forall>v. stops prog pkt wl (s'\<lparr>pc := p + length xs, jumps_back := j\<rparr>) v \<longrightarrow>
        stops prog pkt wl (s\<lparr>pc := p, jumps_back := j\<rparr>) v)"
  using assms
proof (induction xs arbitrary: p s)
  case (Cons x xs)
  have op: "Op (prog ! p) = ucast (fst x)" "K (prog ! p) = snd x" using Cons.prems(1) [of 0] by simp_all
  let ?s = "s\<lparr>pc := p, jumps_back := j\<rparr>"
  show ?case
  proof (cases "decode_op (ucast (fst x))")
    case None
    then have "bpf_step prog pkt wl ?s = Some (Stop 0)" by (simp add: bpf_step_def Let_def op)
    with None show ?thesis by (simp add: exec_stmt_def stops_now)
  next
    case (Some ins)
    have "ins \<noteq> Ja" "\<And>f src. ins \<noteq> Jcc f src" using plain_code_decode [OF _ Some] Cons.prems(3) by auto
    note mv = bpf_exec_moved [OF this, where i = "prog ! p" and i' = "\<lparr>Op = ucast (fst x), Jt = 0, Jf = 0, K = snd x\<rparr>" and
      n = "length prog" and p = p and s = s and j = j and pkt = pkt and wl = wl]
    have step: "bpf_step prog pkt wl ?s = Some (case exec_stmt pkt wl x s of
        Stop v \<Rightarrow> Stop v | Next s' \<Rightarrow> Next (s'\<lparr>pc := p + 1, jumps_back := j\<rparr>))"
      using mv Cons.prems(2) by (simp add: bpf_step_def Let_def op Some exec_stmt_def)
    show ?thesis
    proof (cases "exec_stmt pkt wl x s")
      case (Stop v)
      with step show ?thesis by (simp add: stops_now)
    next
      case (Next s1)
      have "Op (prog ! (p + 1 + i)) = ucast (fst (xs ! i)) \<and> K (prog ! (p + 1 + i)) = snd (xs ! i)"
        if "i < length xs" for i
        using Cons.prems(1) [of "Suc i"] that by simp
      note ih = Cons.IH [OF this, of s1]
      have st: "stops prog pkt wl (s1\<lparr>pc := p + 1, jumps_back := j\<rparr>) v \<Longrightarrow> stops prog pkt wl ?s v" for v
        by (rule stops_step) (use step Next in simp_all)
      from ih Cons.prems(2,3) show ?thesis
        by (cases "exec_body pkt wl xs s1") (auto simp: Next intro: st)
    qed
  qed
qed simp

lemma leads_runs:
  assumes "leads prog p t" "stops prog pkt wl (s\<lparr>pc := t, jumps_back := j\<rparr>) v" "t < length prog"
  shows "stops prog pkt wl (s\<lparr>pc := p, jumps_back := j\<rparr>) v"
proof (cases "p = t")
  case False
  with assms(1) have a: "p < length prog" "Op (prog ! p) = 5" "unat (K (prog ! p)) < 2 ^ 31"
    "p + 1 + unat (K (prog ! p)) = t" by (auto simp: leads_def)
  have "decode_op 5 = Some Ja" by code_simp
  moreover have "sint (K (prog ! p)) = int (unat (K (prog ! p)))"
    using a(3) by (rule sint_small)
  moreover from this have "int p + 1 + sint (K (prog ! p)) = int t" using a(4) by (simp del: of_nat_unat)
  ultimately have "bpf_step prog pkt wl (s\<lparr>pc := p, jumps_back := j\<rparr>) = Some (Next (s\<lparr>pc := t, jumps_back := j\<rparr>))"
    using a(2,3) assms(3) by (simp add: bpf_step_def Let_def jump_always_def goto_pc_def del: of_nat_unat)
  then show ?thesis using assms(2) by (rule stops_step)
qed (use assms in simp)


section \<open>A laid out graph is computed\<close>

lemma laid_runs:
  assumes "block_run C pkt wl b s v" "icode_ok B rank C" "b \<in> B"
    and laid: "\<And>c. c \<in> R \<Longrightarrow> block_laid prog pos c (C c) \<and> (yes (C c) \<noteq> 0 \<longrightarrow> yes (C c) \<in> R \<and> no (C c) \<in> R)"
    and "b \<in> R"
  shows "stops prog pkt wl (s\<lparr>pc := pos b, jumps_back := j\<rparr>) v"
  using assms(1,3,5)
proof (induction rule: block_run.induct)
  case (run_stop b s v)
  have l: "block_laid prog pos b (C b)" using laid run_stop by blast
  have ok: "block_ok B rank b (C b)" using assms(2) run_stop by (simp add: icode_ok_def)
  with body_runs [of "body (C b)" prog "pos b" pkt wl j s] l run_stop.hyps show ?case
    by (simp add: block_laid_def Let_def block_ok_def)
next
  case (run_verdict b s s' v)
  have l: "block_laid prog pos b (C b)" using laid run_verdict by blast
  have ok: "block_ok B rank b (C b)" using assms(2) run_verdict by (simp add: icode_ok_def)
  let ?e = "pos b + length (body (C b))"
  have "decode_op (ucast (test (C b))) = Some RetK \<or> decode_op (ucast (test (C b))) = Some RetA"
    using ok run_verdict.hyps(2) by (auto simp: block_ok_def block_end_of_def split: if_splits)
  then have "bpf_step prog pkt wl (s'\<lparr>pc := ?e, jumps_back := j\<rparr>) = Some (Stop v)"
    using l run_verdict.hyps(2) by (auto simp: bpf_step_def Let_def block_laid_def block_end_of_def)
  then have "stops prog pkt wl (s'\<lparr>pc := ?e, jumps_back := j\<rparr>) v" by (rule stops_now)
  with body_runs [of "body (C b)" prog "pos b" pkt wl j s] l run_verdict.hyps ok show ?case
    by (simp add: block_laid_def Let_def block_ok_def)
next
  case (run_edge b s s' c v)
  have l: "block_laid prog pos b (C b)" using laid run_edge by blast
  have ok: "block_ok B rank b (C b)" using assms(2) run_edge by (simp add: icode_ok_def)
  let ?e = "pos b + length (body (C b))"
  obtain f src where f: "yes (C b) \<noteq> 0" "decode_op (ucast (test (C b))) = Some (Jcc f src)"
    and c: "c = (if cond f (acc s') (operand src (bound (C b)) s') then yes (C b) else no (C b))"
    by (rule block_end_cases [OF ok, of s']) (use run_edge.hyps(2) in auto)
  have cin: "c \<in> B" "c \<in> R" using ok f laid [OF run_edge.prems(2)] by (auto simp: c block_ok_def)
  have "pos c < length prog" using laid [OF cin(2)] by (simp add: block_laid_def Let_def)
  let ?t = "?e + 1 + unat (if cond f (acc s') (operand src (bound (C b)) s') then Jt (prog ! ?e) else Jf (prog ! ?e))"
  have ld: "leads prog ?t (pos c)" using l f by (auto simp: block_laid_def Let_def c)
  have ih: "stops prog pkt wl (s'\<lparr>pc := pos c, jumps_back := j\<rparr>) v" using run_edge.IH cin by blast
  have t: "?t < length prog" using ld \<open>pos c < length prog\<close> by (auto simp: leads_def)
  have "operand src (bound (C b)) (s'\<lparr>pc := ?e, jumps_back := j\<rparr>) = operand src (bound (C b)) s'"
    by (cases src) simp_all
  then have "bpf_step prog pkt wl (s'\<lparr>pc := ?e, jumps_back := j\<rparr>) = Some (Next (s'\<lparr>pc := ?t, jumps_back := j\<rparr>))"
    using l f t by (cases "cond f (acc s') (operand src (bound (C b)) s')")
      (simp_all add: bpf_step_def Let_def block_laid_def goto_pc_def)
  then have "stops prog pkt wl (s'\<lparr>pc := ?e, jumps_back := j\<rparr>) v"
    by (rule stops_step) (rule leads_runs [OF ld ih \<open>pos c < length prog\<close>])
  with body_runs [of "body (C b)" prog "pos b" pkt wl j s] l run_edge.hyps ok show ?case
    by (simp add: block_laid_def Let_def block_ok_def)
qed


lemma laid_verdict:
  assumes "icode_ok B rank C" "b \<in> B" "b \<in> R" "pos b = 0"
    and "\<And>c. c \<in> R \<Longrightarrow> block_laid prog pos c (C c) \<and> (yes (C c) \<noteq> 0 \<longrightarrow> yes (C c) \<in> R \<and> no (C c) \<in> R)"
    and "length prog \<le> 3060000"
  obtains v where "block_run C pkt wl b bpf_init v" "bpf_verdict prog pkt wl = Some v"
proof -
  obtain v where v: "block_run C pkt wl b bpf_init v" using block_run_total [OF assms(1,2)] by blast
  have "stops prog pkt wl (bpf_init\<lparr>pc := pos b, jumps_back := 0\<rparr>) v"
    by (rule laid_runs [OF v assms(1,2,5,3)])
  moreover have "bpf_init\<lparr>pc := pos b, jumps_back := 0\<rparr> = bpf_init" using assms(4) by (simp add: bpf_init_def)
  moreover have "1 \<le> length prog" using assms(5) [OF assms(3)] by (simp add: block_laid_def Let_def)
  ultimately show thesis using that v stops_verdict assms(6) by simp
qed

end
