(* ===== verification/Emit_Parts.thy ===== *)
theory Emit_Parts
  imports Frames Emit Icode Bpf_Filter
begin

text \<open>
  What the parts of \<open>_convert_code_r\<close> (theory \<open>Emit\<close>) write: a list of statements in memory, its
  length, its instructions in the program (\<open>emit_body_at\<close>), and the last instruction of a block
  with its short and long jumps (\<open>emit_jumps_at\<close>).
\<close>

section \<open>The graph in memory\<close>

text \<open>A list of statements: addresses, codes and constants.\<close>

type_synonym statement = "u32 \<times> u32 \<times> u32"

fun stmts_at :: "memory \<Rightarrow> u32 \<Rightarrow> statement list \<Rightarrow> bool" where
  "stmts_at m p [] \<longleftrightarrow> p = 0"
| "stmts_at m p ((a, c, k) # xs) \<longleftrightarrow>
     p = a \<and> a \<noteq> 0 \<and> load32 m (unat a) = Some c \<and> load32 m (unat a + 12) = Some k \<and>
     (\<exists>q. load32 m (unat a + 16) = Some q \<and> stmts_at m q xs)"

text \<open>What is left of it in the program.\<close>

definition live_stmts :: "statement list \<Rightarrow> (u32 \<times> u32) list" where
  "live_stmts xs = map snd (List.filter (\<lambda>(a, c, k). c \<noteq> - 1) xs)"

lemma live_stmts_simps [simp]:
  "live_stmts [] = []"
  "live_stmts ((a, c, k) # xs) = (if c \<noteq> - 1 then (c, k) # live_stmts xs else live_stmts xs)"
  by (simp_all add: live_stmts_def)

lemma live_stmts_length: "length (live_stmts xs) \<le> length xs"
  by (simp add: live_stmts_def)

definition stmt_span :: "statement \<Rightarrow> nat set" where
  "stmt_span x = span (unat (fst x)) 20"

lemma stmts_at_kept:
  assumes "stmts_at m p xs" "kept A m m'" "\<And>x. x \<in> set xs \<Longrightarrow> stmt_span x \<inter> A = {}"
  shows "stmts_at m' p xs"
  using assms(1,3)
proof (induction xs arbitrary: p)
  case (Cons x xs)
  obtain a c k where x: "x = (a, c, k)" by (cases x)
  have sp: "span (unat a + off) 4 \<inter> A = {}" if "off + 4 \<le> 20" for off
  proof -
    have "span (unat a + off) 4 \<subseteq> stmt_span x" using that by (simp add: stmt_span_def x)
    with Cons.prems(2) [of x] show ?thesis by auto
  qed
  from Cons.prems(1) obtain q where q: "p = a" "a \<noteq> 0" "load32 m (unat a) = Some c" "load32 m (unat a + 12) = Some k"
    "load32 m (unat a + 16) = Some q" "stmts_at m q xs" unfolding x by auto
  moreover have "load32 m' (unat a) = Some c" "load32 m' (unat a + 12) = Some k" "load32 m' (unat a + 16) = Some q"
    using kept_load32 [OF assms(2) q(3)] kept_load32 [OF assms(2) q(4)] kept_load32 [OF assms(2) q(5)]
      sp [of 0] sp [of 12] sp [of 16] by simp_all
  ultimately show ?case using Cons.IH [OF q(6)] Cons.prems(2) unfolding x by auto
qed simp

lemma count_body_at:
  assumes "stmts_at m p xs" "xs \<noteq> []"
  shows "count_body m p v = Some (v + of_nat (length (live_stmts xs)))"
  using assms
proof (induction xs arbitrary: p v)
  case (Cons x xs)
  obtain a c k where x: "x = (a, c, k)" by (cases x)
  from Cons.prems(1) obtain q where q: "p = a" "load32 m (unat a) = Some c"
    "load32 m (unat a + 16) = Some q" "stmts_at m q xs" unfolding x by auto
  show ?case
  proof (cases xs)
    case Nil
    with q show ?thesis by (subst count_body.simps) (simp add: x)
  next
    case (Cons y ys)
    then have "q \<noteq> 0" using q(4) by (cases y) auto
    then have "count_body m p v = count_body m q (v + (if c \<noteq> - 1 then 1 else 0))"
      using q by (subst count_body.simps) simp
    with Cons.IH [OF q(4)] Cons show ?thesis by (simp add: x algebra_simps)
  qed
qed simp

section \<open>The statements in the program\<close>

lemma list_stmts_at:
  assumes "stmts_at m p xs" "xs \<noteq> []" "v4 \<le> v6" "length m \<le> 2 ^ 32"
    "unat v1 + 4 * (unat v6 - unat v4 + 1) \<le> length m" "unat v1 + 4 * (unat v6 - unat v4) < 2 ^ 32"
    "\<And>x. x \<in> set xs \<Longrightarrow> stmt_span x \<inter> span (unat v1) (4 * (unat v6 - unat v4 + 1)) = {}"
  shows "\<exists>m'. list_stmts m v1 v4 v6 p = Some m' \<and> length m' = length m \<and>
    kept (span (unat v1) (4 * (unat v6 - unat v4 + 1))) m m'"
  using assms
proof (induction xs arbitrary: m p v1 v4)
  case (Cons x xs)
  obtain a c k where x: "x = (a, c, k)" by (cases x)
  let ?A = "span (unat v1) (4 * (unat v6 - unat v4 + 1))"
  have "unat v1 + 4 \<le> length m" using Cons.prems(5) by simp
  then obtain m1 where m1: "store32 m (unat v1) p = Some m1" using store32_in by blast
  have k1: "kept ?A m m1" by (rule kept_mono [OF kept_store32 [OF m1]]) simp
  have l1: "length m1 = length m" by (rule length_store32 [OF m1])
  have "stmts_at m1 p (x # xs)" by (rule stmts_at_kept [OF Cons.prems(1) k1]) (use Cons.prems(7) in auto)
  then obtain q where q: "p = a" "load32 m1 (unat a + 16) = Some q" "stmts_at m1 q xs" unfolding x by auto
  show ?case
  proof (cases "v4 \<ge> v6 \<or> xs = []")
    case True
    then have "q = 0 \<or> v4 \<ge> v6" using q(3) by auto
    then have "list_stmts m v1 v4 v6 p = Some m1" using m1 q(1,2) by (subst list_stmts.simps) auto
    with k1 l1 show ?thesis by blast
  next
    case False
    then have lt: "unat v4 < unat v6" by (simp add: word_less_nat_alt not_le)
    have u4: "unat (v4 + 1) = unat v4 + 1" using lt unat_u32_less [of v6] by (subst unat_add_no_wrap) simp_all
    have u1: "unat (v1 + 4) = unat v1 + 4" using lt Cons.prems(6) by (subst unat_add_no_wrap) simp_all
    have "q \<noteq> 0" using False q(3) by (cases xs) auto
    then have step: "list_stmts m v1 v4 v6 p = list_stmts m1 (v1 + 4) (v4 + 1) v6 q"
      using m1 q(1,2) False by (subst list_stmts.simps) auto
    have sub: "span (unat (v1 + 4)) (4 * (unat v6 - unat (v4 + 1) + 1)) \<subseteq> ?A" using lt by (simp add: u1 u4)
    have "\<exists>m'. list_stmts m1 (v1 + 4) (v4 + 1) v6 q = Some m' \<and> length m' = length m1 \<and>
        kept (span (unat (v1 + 4)) (4 * (unat v6 - unat (v4 + 1) + 1))) m1 m'"
    proof (rule Cons.IH [OF q(3)])
      show "xs \<noteq> []" using False by simp
      show "v4 + 1 \<le> v6" using lt u4 by (simp add: word_le_nat_alt)
      show "unat (v1 + 4) + 4 * (unat v6 - unat (v4 + 1) + 1) \<le> length m1"
        "unat (v1 + 4) + 4 * (unat v6 - unat (v4 + 1)) < 2 ^ 32"
        using Cons.prems(5,6) lt by (simp_all add: u1 u4 l1)
      show "stmt_span y \<inter> span (unat (v1 + 4)) (4 * (unat v6 - unat (v4 + 1) + 1)) = {}" if "y \<in> set xs" for y
        using Cons.prems(7) [of y] sub that by auto
    qed (use l1 Cons.prems(4) in simp)
    with step k1 l1 kept_trans [OF k1 kept_mono [OF _ sub]] show ?thesis by auto
  qed
qed simp

text \<open>Plain statements go to the program one after the other.\<close>

definition code_at :: "memory \<Rightarrow> nat \<Rightarrow> (u32 \<times> u32) list \<Rightarrow> bool" where
  "code_at m q cs \<longleftrightarrow> (\<forall>i < length cs. load16 m (q + 8 * i) = Some (ucast (fst (cs ! i))) \<and>
     load32 m (q + 8 * i + 4) = Some (snd (cs ! i)))"

lemma code_at_kept:
  assumes "code_at m q cs" "kept A m m'" "span q (8 * length cs) \<inter> A = {}"
  shows "code_at m' q cs"
proof -
  have "span (q + 8 * i) 2 \<inter> A = {}" "span (q + 8 * i + 4) 4 \<inter> A = {}" if "i < length cs" for i
  proof -
    have "span (q + 8 * i) 2 \<subseteq> span q (8 * length cs)" "span (q + 8 * i + 4) 4 \<subseteq> span q (8 * length cs)"
      using that by simp_all
    with assms(3) show "span (q + 8 * i) 2 \<inter> A = {}" "span (q + 8 * i + 4) 4 \<inter> A = {}" by blast+
  qed
  with assms(1) show ?thesis
    by (simp add: code_at_def kept_load16 [OF assms(2)] kept_load32 [OF assms(2)])
qed

lemma code_at_Cons:
  "code_at m q (c # cs) \<longleftrightarrow>
    load16 m q = Some (ucast (fst c)) \<and> load32 m (q + 4) = Some (snd c) \<and> code_at m (q + 8) cs"
  by (auto simp: code_at_def less_Suc_eq_0_disj all_conj_distrib algebra_simps)

lemma emit_stmt_plain:
  assumes "plain_code c" "load32 m (unat a + 12) = Some k" "unat v5 + 8 \<le> length m"
    "unat a + 20 \<le> unat v5 \<or> unat v5 + 8 \<le> unat a"
  obtains m' where "emit_stmt m c v3 v5 v6 v7 v9 a v14 = Some (m', L8)" "length m' = length m"
    "kept (span (unat v5) 8) m m'" "load16 m' (unat v5) = Some (ucast c)" "load32 m' (unat v5 + 4) = Some k"
proof -
  obtain m1 where m1: "store16 m (unat v5) (ucast c) = Some m1" using store16_in [of "unat v5" m] assms(3) by auto
  have l1: "length m1 = length m" by (rule length_store16 [OF m1])
  have k: "load32 m1 (unat a + 12) = Some k"
    by (rule kept_load32 [OF kept_store16 [OF m1] assms(2)]) (use assms(4) in auto)
  obtain m2 where m2: "store32 m1 (unat v5 + 4) k = Some m2" using store32_in [of "unat v5 + 4" m1] assms(3) l1 by auto
  have "emit_stmt m c v3 v5 v6 v7 v9 a v14 = Some (m2, L8)"
    using m1 k m2 assms(1) by (simp add: emit_stmt_def plain_code_def)
  moreover have "length m2 = length m" using length_store32 [OF m2] l1 by simp
  moreover have "kept (span (unat v5) 8) m m2"
    by (rule kept_trans [OF kept_mono [OF kept_store16 [OF m1]] kept_mono [OF kept_store32 [OF m2]]]) simp_all
  moreover have "load16 m2 (unat v5) = Some (ucast c)"
    by (rule kept_load16 [OF kept_store32 [OF m2] load16_store16 [OF m1]]) simp
  ultimately show thesis using that load32_store32 [OF m2] by blast
qed

lemma emit_stmts_at:
  assumes "stmts_at m p xs" "xs \<noteq> []" "\<forall>x \<in> set (live_stmts xs). plain_code (fst x)"
    "unat v5 + 8 * length (live_stmts xs) \<le> length m" "unat v5 + 8 * length (live_stmts xs) < 2 ^ 32"
    "\<And>x. x \<in> set xs \<Longrightarrow> stmt_span x \<inter> span (unat v5) (8 * length (live_stmts xs)) = {}"
  shows "\<exists>m' v9'. emit_stmts m v3 v5 v6 v7 v9 p v14 =
      Some (m', L7, v5 + of_nat (8 * length (live_stmts xs)), v9') \<and>
    length m' = length m \<and> kept (span (unat v5) (8 * length (live_stmts xs))) m m' \<and>
    code_at m' (unat v5) (live_stmts xs)"
  using assms
proof (induction xs arbitrary: m p v5 v9)
  case (Cons x xs)
  obtain a c k where x: "x = (a, c, k)" by (cases x)
  let ?ls = "live_stmts (x # xs)"
  from Cons.prems(1) obtain q where q: "p = a" "load32 m (unat a) = Some c" "load32 m (unat a + 12) = Some k"
    "load32 m (unat a + 16) = Some q" "stmts_at m q xs" unfolding x by auto
  have q0: "q = 0 \<longleftrightarrow> xs = []" using q(5) by (cases xs) auto
  show ?case
  proof (cases "c = - 1")
    case True
    have step: "emit_stmts m v3 v5 v6 v7 v9 p v14 =
        (if q \<noteq> 0 then emit_stmts m v3 v5 v6 v7 v9 q v14 else Some (m, L7, v5, v9))"
      using q True by (subst emit_stmts.simps) simp
    show ?thesis
    proof (cases "xs = []")
      case True
      with step \<open>c = - 1\<close> show ?thesis by (simp add: x q0 code_at_def)
    next
      case False
      with Cons.IH [OF q(5), of v5 v9] Cons.prems step \<open>c = - 1\<close> show ?thesis by (simp add: x q0)
    qed
  next
    case False
    then have ls: "?ls = (c, k) # live_stmts xs" by (simp add: x)
    have sp: "unat a + 20 \<le> unat v5 \<or> unat v5 + 8 * length ?ls \<le> unat a"
      using Cons.prems(6) [of x] ls by (auto simp: stmt_span_def x)
    obtain m1 where m1: "emit_stmt m c v3 v5 v6 v7 v9 a v14 = Some (m1, L8)" "length m1 = length m"
      "kept (span (unat v5) 8) m m1" "load16 m1 (unat v5) = Some (ucast c)" "load32 m1 (unat v5 + 4) = Some k"
      by (rule emit_stmt_plain [of c m a k v5]) (use Cons.prems(3,4) sp q(3) ls in auto)
    have sub: "span (unat v5) 8 \<subseteq> span (unat v5) (8 * length ?ls)" by (simp add: ls)
    have s1: "stmts_at m1 q xs"
      by (rule stmts_at_kept [OF q(5) m1(3)]) (use Cons.prems(6) sub in fastforce)
    have "load32 m1 (unat a + 16) = Some q"
      by (rule kept_load32 [OF m1(3) q(4)]) (use sp ls in auto)
    then have step: "emit_stmts m v3 v5 v6 v7 v9 p v14 =
        (if q \<noteq> 0 then emit_stmts m1 v3 (v5 + 8) v6 v7 (v9 + 1) q v14 else Some (m1, L7, v5 + 8, v9 + 1))"
      using q(1,2) m1(1) False by (subst emit_stmts.simps) simp
    show ?thesis
    proof (cases "xs = []")
      case True
      with ls have "?ls = [(c, k)]" by simp
      with True step m1 show ?thesis by (simp add: q0 code_at_Cons) (simp add: code_at_def)
    next
      case xs: False
      have u: "unat (v5 + 8) = unat v5 + 8"
        using Cons.prems(5) by (subst unat_add_no_wrap) (simp_all add: ls)
      have sub2: "span (unat (v5 + 8)) (8 * length (live_stmts xs)) \<subseteq> span (unat v5) (8 * length ?ls)"
        by (simp add: u ls)
      have "\<exists>m' v9'. emit_stmts m1 v3 (v5 + 8) v6 v7 (v9 + 1) q v14 =
          Some (m', L7, v5 + 8 + of_nat (8 * length (live_stmts xs)), v9') \<and>
        length m' = length m1 \<and> kept (span (unat (v5 + 8)) (8 * length (live_stmts xs))) m1 m' \<and>
        code_at m' (unat (v5 + 8)) (live_stmts xs)"
      proof (rule Cons.IH [OF s1 xs])
        show "stmt_span y \<inter> span (unat (v5 + 8)) (8 * length (live_stmts xs)) = {}" if "y \<in> set xs" for y
          by (rule disjoint_sub [OF _ sub2]) (use Cons.prems(6) that in simp)
      qed (use Cons.prems(3-5) in \<open>auto simp: u ls m1(2)\<close>)
      then obtain m' v9' where m': "emit_stmts m1 v3 (v5 + 8) v6 v7 (v9 + 1) q v14 =
          Some (m', L7, v5 + 8 + of_nat (8 * length (live_stmts xs)), v9')" "length m' = length m1"
        "kept (span (unat v5 + 8) (8 * length (live_stmts xs))) m1 m'" "code_at m' (unat v5 + 8) (live_stmts xs)"
        unfolding u by blast
      have "kept (span (unat v5) (8 * length ?ls)) m m'"
        by (rule kept_trans [OF kept_mono [OF m1(3) sub] kept_mono [OF m'(3)]]) (simp add: ls)
      moreover have "load16 m' (unat v5) = Some (ucast c)" "load32 m' (unat v5 + 4) = Some k"
        using kept_load16 [OF m'(3) m1(4)] kept_load32 [OF m'(3) m1(5)] by simp_all
      ultimately show ?thesis
        using step m' m1(2) xs by (auto simp: q0 ls code_at_Cons algebra_simps)
    qed
  qed
qed simp

lemma unat_len: "4 * n < 2 ^ 31 \<Longrightarrow> unat (of_nat n :: u32) = n"
  by (rule unat_of_nat_small) simp

text \<open>
  The statements of a block with the list of their addresses, which is reserved at the top of the
  heap and given back.
\<close>

lemma emit_body_at:
  assumes inv: "heap_inv m H L" and p: "load32 m (unat v2 + 4) = Some p" "stmts_at m p xs"
    and plain: "\<forall>x \<in> set (live_stmts xs). plain_code (fst x)"
    and v6: "v6 = of_nat (length (live_stmts xs))"
    and low: "unat v2 + 8 \<le> P" "127840 \<le> unat v2" "\<And>x. x \<in> set xs \<Longrightarrow> stmt_span x \<subseteq> {127840..<P}"
    and code: "P \<le> unat v5" "unat v5 + 8 * length (live_stmts xs) \<le> H"
    and room: "H + round_up 4 (4 * length (live_stmts xs)) \<le> 2 ^ 32" "4 * length (live_stmts xs) < 2 ^ 31" "H < 2 ^ 32"
  shows "\<exists>m' L'. emit_body vs sn v3 m v0 v2 v5 v6 = Ret (m', v5 + of_nat (8 * length (live_stmts xs))) \<and>
    heap_inv m' H L' \<and> (L' = L \<or> L' = 0) \<and>
    kept (own_bytes \<union> span (unat v5) (8 * length (live_stmts xs)) \<union> {H..}) m m' \<and> code_at m' (unat v5) (live_stmts xs)"
proof -
  let ?n = "length (live_stmts xs)"
  let ?W = "own_bytes \<union> span (unat v5) (8 * ?n) \<union> {H..}"
  have H: "127840 \<le> H" "H \<le> length m" using inv by (simp_all add: heap_inv_def)
  have PH: "P \<le> H" using code by simp
  have p0: "p = 0 \<longleftrightarrow> xs = []" using p(2) by (cases xs) auto
  have st: "stmt_span x \<inter> A = {}" if "x \<in> set xs" "A \<inter> {127840..<P} = {}" for x A
    using low(3) [OF that(1)] that(2) by blast
  have off: "span (unat v5) (8 * ?n) \<inter> {127840..<P} = {}" using code(1) by auto
  show ?thesis
  proof (cases "?n = 0")
    case True
    show ?thesis
    proof (cases "xs = []")
      case True
      have "emit_body vs sn v3 m v0 v2 v5 v6 = Ret (m, v5)"
        using True p(1) p0 v6 by (simp add: emit_body_def Let_def)
      with inv True show ?thesis by (auto simp: code_at_def)
    next
      case False
      obtain m' v9' where "emit_stmts m v3 v5 0 0 0 p (0 - 2) = Some (m', L7, v5 + of_nat (8 * ?n), v9')"
        "length m' = length m" "kept (span (unat v5) (8 * ?n)) m m'" "code_at m' (unat v5) (live_stmts xs)"
        using emit_stmts_at [OF p(2) False plain, of v5 v3 0 0 0 "0 - 2"] st [OF _ off] code room H
        by auto
      then have "emit_body vs sn v3 m v0 v2 v5 v6 = Ret (m', v5 + of_nat (8 * ?n))" "heap_inv m' H L"
        "kept ?W m m'" "code_at m' (unat v5) (live_stmts xs)"
        using p p0 v6 False \<open>?n = 0\<close> heap_inv_kept [OF inv, of "span (unat v5) (8 * ?n)" m']
        by (auto simp: emit_body_def Let_def intro: kept_mono)
      then show ?thesis by blast
    qed
  next
    case False
    then have ne: "xs \<noteq> []" by auto
    have u6: "unat v6 = ?n" using room(2) unfolding v6 by (rule unat_len)
    obtain m1 where m1: "calloc m v6 4 = Some (of_nat H, m1)" "kept own_bytes m m1" "length m \<le> length m1"
      "heap_inv m1 (H + round_up 4 (4 * ?n)) H"
      by (rule calloc_top [OF inv, of v6 4]) (use False room in \<open>simp_all add: u6 mult.commute\<close>)
    have r: "4 * ?n \<le> round_up 4 (4 * ?n)" by (rule round_up_bounds)
    have r0: "0 < round_up 4 (4 * ?n)" using r False by linarith
    note hp = heap_addr [OF m1(4) r0 H(1)]
    have l1: "length m1 \<le> 2 ^ 32" "H + round_up 4 (4 * ?n) \<le> length m1" using m1(4) by (simp_all add: heap_inv_def)
    have own_low: "own_bytes \<inter> {127840..<P} = {}" by (auto simp: own_bytes_def)
    have s1: "stmts_at m1 p xs" "load32 m1 (unat v2 + 4) = Some p"
      using stmts_at_kept [OF p(2) m1(2) st [OF _ own_low]] kept_load32 [OF m1(2) p(1)] low(2) by simp_all
    let ?A = "span H (4 * ?n)"
    have A: "?A \<inter> {127840..<P} = {}" using PH by auto
    have v61: "1 \<le> v6" using False u6 by (simp add: word_le_nat_alt Suc_le_eq)
    have "4 * (unat v6 - unat (1 :: u32) + 1) = 4 * ?n" using False u6 by simp
    then obtain m2 where m2: "list_stmts m1 (of_nat H) 1 v6 p = Some m2" "length m2 = length m1" "kept ?A m1 m2"
      using list_stmts_at [OF s1(1) ne v61 l1(1), of "of_nat H"] st [OF _ A] hp(1) l1 r False
      by (auto simp: u6)
    have s2: "stmts_at m2 p xs" by (rule stmts_at_kept [OF s1(1) m2(3) st [OF _ A]])
    let ?B = "span (unat v5) (8 * ?n)"
    obtain m3 v9' where m3: "emit_stmts m2 v3 v5 v6 (of_nat H) 0 p (v6 - 2) = Some (m3, L7, v5 + of_nat (8 * ?n), v9')"
      "length m3 = length m2" "kept ?B m2 m3" "code_at m3 (unat v5) (live_stmts xs)"
      using emit_stmts_at [OF s2 ne plain, of v5 v3 v6 "of_nat H" 0 "v6 - 2"] st [OF _ off] code room H m1(3) m2(2)
      by auto
    have i2: "heap_inv m2 (H + round_up 4 (4 * ?n)) H"
      by (rule heap_inv_kept [OF m1(4) m2(3,2)]) (use H in simp)
    have i3: "heap_inv m3 (H + round_up 4 (4 * ?n)) H"
      by (rule heap_inv_kept [OF i2 m3(3,2)]) (use code low(1,2) in simp)
    obtain m4 where m4: "xfree m3 (of_nat H) = Some m4" "heap_kept m3 m4" "heap_inv m4 H 0"
      using xfree_spec [OF i3 hp(2)] hp(1) by auto
    have "emit_body vs sn v3 m v0 v2 v5 v6 = Ret (m4, v5 + of_nat (8 * ?n))"
      using m1(1) s1(2) p0 ne m2(1) m3(1) m4(1) hp(2) False u6 by (auto simp: emit_body_def Let_def)
    moreover have "kept ?W m m4"
      by (rule kept_trans [OF kept_mono [OF m1(2)] kept_trans [OF kept_mono [OF m2(3)]
        kept_trans [OF kept_mono [OF m3(3)] kept_mono [OF heap_kept_kept [OF m4(2)]]]]]) auto
    moreover have "code_at m4 (unat v5) (live_stmts xs)"
      by (rule code_at_kept [OF m3(4) heap_kept_kept [OF m4(2)]]) (use code low(1,2) in simp)
    ultimately show ?thesis using m4(3) by blast
  qed
qed

section \<open>The last instruction\<close>

lemma xor_all_ones: "(x :: u32) XOR - 1 = - x - 1"
  by (simp add: not_eq_complement)


lemma distance:
  assumes "s + n < t"
  shows "of_nat t + ((of_nat s + of_nat n) XOR - 1 :: u32) = of_nat (t - (s + n) - 1)"
proof -
  obtain d where "t = s + n + 1 + d" using assms less_iff_Suc_add by fastforce
  then show ?thesis unfolding xor_all_ones by simp
qed

text \<open>A jump that is stored as a byte, or a byte to a long jump behind the instruction.\<close>

definition jump_at :: "memory \<Rightarrow> nat \<Rightarrow> u8 \<Rightarrow> nat \<Rightarrow> nat \<Rightarrow> bool" where
  "jump_at m q j extra d \<longleftrightarrow> unat j = d \<or>
     unat j < extra \<and> unat j < d \<and> load16 m (q + 8 * (unat j + 1)) = Some 5 \<and>
       load32 m (q + 8 * (unat j + 1) + 4) = Some (of_nat (d - unat j - 1))"

lemma jump_at_kept:
  assumes "jump_at m q j extra d" "kept A m m'" "span (q + 8) (8 * extra) \<inter> A = {}"
  shows "jump_at m' q j extra d"
proof (cases "unat j = d")
  case False
  with assms(1) have j: "unat j < extra" "unat j < d" "load16 m (q + 8 * (unat j + 1)) = Some 5"
    "load32 m (q + 8 * (unat j + 1) + 4) = Some (of_nat (d - unat j - 1))" by (auto simp: jump_at_def)
  then have "span (q + 8 * (unat j + 1)) 2 \<inter> A = {}" "span (q + 8 * (unat j + 1) + 4) 4 \<inter> A = {}"
    using assms(3) by (auto simp: disjoint_iff)
  with j kept_load16 [OF assms(2) j(3)] kept_load32 [OF assms(2) j(4)] show ?thesis
    by (simp add: jump_at_def)
qed (simp add: jump_at_def)


lemma jump_at_mono: "jump_at m q j extra d \<Longrightarrow> extra \<le> extra' \<Longrightarrow> jump_at m q j extra' d"
  by (auto simp: jump_at_def)

text \<open>The true jump and the false jump of the last instruction at \<open>v5\<close>.\<close>

lemma store_long_jump:
  assumes "unat v5 + 8 * (unat x + 1) + 8 \<le> length m" "unat v5 + 8 * (unat x + 1) + 8 < 2 ^ 32"
    "unat x < 2" "unat x < d" "d < 2 ^ 32"
  obtains m1 m2 where "store32 m (unat (v5 + push_bit 3 (x + 1)) + 4) (of_nat d - (x + 1)) = Some m1"
    "store16 m1 (unat (v5 + push_bit 3 (x + 1))) 5 = Some m2" "length m2 = length m"
    "kept (span (unat v5 + 8 * (unat x + 1)) 8) m m2"
    "load16 m2 (unat v5 + 8 * (unat x + 1)) = Some 5"
    "load32 m2 (unat v5 + 8 * (unat x + 1) + 4) = Some (of_nat (d - unat x - 1))"
proof -
  let ?q = "unat v5 + 8 * (unat x + 1)"
  have x1: "unat (x + 1) = unat x + 1" using assms(3) by (subst unat_add_no_wrap) simp_all
  have px: "unat (push_bit 3 (x + 1)) = 8 * (unat x + 1)"
  proof -
    have "x = 0 \<or> x = 1" using assms(3) by (auto simp: word_unat_eq_iff)
    then show ?thesis by (auto simp: push_bit_eq_mult)
  qed
  have q: "unat (v5 + push_bit 3 (x + 1)) = ?q"
    using assms(2) px by (subst unat_add_no_wrap) simp_all
  have k: "of_nat d - (x + 1) = of_nat (d - unat x - 1)"
  proof -
    obtain e where e: "d = unat x + 1 + e" using assms(4) less_iff_Suc_add by fastforce
    have "of_nat (unat x) = x" by simp
    then show ?thesis unfolding e by (simp only: of_nat_add diff_add_inverse add.assoc) simp
  qed
  obtain m1 where m1: "store32 m (?q + 4) (of_nat (d - unat x - 1)) = Some m1"
    using store32_in [of "?q + 4" m] assms(1) by auto
  have l1: "length m1 = length m" by (rule length_store32 [OF m1])
  obtain m2 where m2: "store16 m1 ?q 5 = Some m2" using store16_in [of ?q m1] assms(1) l1 by auto
  show thesis
  proof (rule that)
    show "store32 m (unat (v5 + push_bit 3 (x + 1)) + 4) (of_nat d - (x + 1)) = Some m1"
      using m1 by (simp only: q k)
    show "store16 m1 (unat (v5 + push_bit 3 (x + 1))) 5 = Some m2" using m2 by (simp only: q)
    show "length m2 = length m" using length_store16 [OF m2] l1 by simp
    show "kept (span ?q 8) m m2"
      by (rule kept_trans [OF kept_mono [OF kept_store32 [OF m1]] kept_mono [OF kept_store16 [OF m2]]]) simp_all
    show "load16 m2 ?q = Some 5" by (rule load16_store16 [OF m2])
    show "load32 m2 (?q + 4) = Some (of_nat (d - unat x - 1))"
      by (rule kept_load32 [OF kept_store16 [OF m2] load32_store32 [OF m1]]) simp
  qed
qed


lemma ucast_byte: "(v :: u32) < 256 \<Longrightarrow> unat (ucast v :: u8) = unat v"
  by (simp add: unsigned_ucast_eq take_bit_nat_eq_self_iff word_less_nat_alt)

text \<open>A distance of 256 or more goes to a long jump, the true one first.\<close>

definition long_jumps :: "u8 \<Rightarrow> u8 \<Rightarrow> nat \<Rightarrow> nat \<Rightarrow> bool" where
  "long_jumps jt jf dy dz \<longleftrightarrow> (256 \<le> dy \<longrightarrow> unat jt = 0) \<and> (256 \<le> dz \<longrightarrow> unat jf = (if 256 \<le> dy then 1 else 0))"

lemma true_jump_at:
  assumes a: "load32 m (unat b + 28) = Some a" "a \<le> 1"
    and d: "d < 2 ^ 32"
    and room: "unat v5 + 8 * (1 + unat a) \<le> length m" "unat b + 212 \<le> unat v5"
  shows "(\<exists>m' j v8. true_jump m b v5 (of_nat d) = Some (m', Some v8) \<and> length m' = length m \<and>
      kept ({unat v5 + 2} \<union> span (unat v5 + 8) (8 * unat a)) m m' \<and> v8 \<le> a \<and>
      index m' (unat v5 + 2) = Some j \<and> jump_at m' (unat v5) j (unat v8) d \<and>
      (256 \<le> d \<longrightarrow> unat j = 0) \<and> v8 = (if 256 \<le> d then 1 else 0)) \<or>
    (\<exists>m'. true_jump m b v5 (of_nat d) = Some (m', None) \<and> length m' = length m \<and>
      kept (span (unat b + 28) 4) m m' \<and> a = 0 \<and> 256 \<le> d \<and> load32 m' (unat b + 28) = Some 1)"
proof -
  have ud: "unat (of_nat d :: u32) = d" using d by (rule unat_of_nat_small)
  have q: "unat v5 + 8 \<le> length m" using room(1) by simp
  have ds: "(of_nat d :: u32) < 256 \<longleftrightarrow> \<not> 256 \<le> d" using ud by (simp add: word_less_nat_alt not_le)
  have "unat a = 0 \<or> unat a = 1" using a(2) by (auto simp: word_le_nat_alt)
  then have a01: "a = 0 \<or> a = 1" by (auto simp: word_unat_eq_iff)
  consider "(of_nat d :: u32) < 256" | "\<not> (of_nat d :: u32) < 256" "a = 0" | "\<not> (of_nat d :: u32) < 256" "a = 1"
    using a01 by blast
  then show ?thesis
  proof cases
    case 1
    obtain m' where m': "store8 m (unat v5 + 2) (of_nat d) = Some m'" using store8_in [of "unat v5 + 2" m] q by auto
    have "jump_at m' (unat v5) (ucast (of_nat d :: u32)) 0 d"
      using ucast_byte [OF 1] ud by (simp add: jump_at_def)
    moreover have "kept ({unat v5 + 2} \<union> span (unat v5 + 8) (8 * unat a)) m m'"
      by (rule kept_mono [OF kept_store8 [OF m']]) simp
    ultimately show ?thesis
      using 1 m' index_store8 [OF m'] length_store8 [OF m'] ds by (auto simp: true_jump_def)
  next
    case 2
    have "unat b + 28 + 4 \<le> length m" using room q by simp
    then obtain m' where m': "store32 m (unat b + 28) 1 = Some m'" using store32_in by blast
    with 2 a(1) kept_store32 [OF m'] length_store32 [OF m'] load32_store32 [OF m'] ds show ?thesis
      by (auto simp: true_jump_def)
  next
    case 3
    have q2: "unat v5 + 16 \<le> length m" using room(1) 3(2) by simp
    have d0: "256 \<le> d" using 3(1) ud by (simp add: word_less_nat_alt)
    obtain m1 where m1: "store16 m (unat v5 + 8) 5 = Some m1" using store16_in [of "unat v5 + 8" m] q2 by auto
    obtain m2 where m2: "store8 m1 (unat v5 + 2) 0 = Some m2"
      using store8_in [of "unat v5 + 2" m1] q2 length_store16 [OF m1] by auto
    obtain m3 where m3: "store32 m2 (unat v5 + 12) (of_nat d - 1) = Some m3"
      using store32_in [of "unat v5 + 12" m2] q2 length_store16 [OF m1] length_store8 [OF m2] by auto
    let ?A = "{unat v5 + 2} \<union> span (unat v5 + 8) (8 * unat a)"
    have "kept ?A m m3"
      by (rule kept_trans [OF kept_mono [OF kept_store16 [OF m1]] kept_trans [OF kept_mono [OF kept_store8 [OF m2]]
        kept_mono [OF kept_store32 [OF m3]]]]) (auto simp: 3)
    moreover have "index m3 (unat v5 + 2) = Some 0"
      by (rule kept_index [OF kept_store32 [OF m3]]) (use index_store8 [OF m2] in auto)
    moreover have "load16 m3 (unat v5 + 8) = Some 5"
      by (rule kept_load16 [OF kept_store32 [OF m3] kept_load16 [OF kept_store8 [OF m2] load16_store16 [OF m1]]]) simp_all
    moreover have "(of_nat (d - 1) :: u32) = of_nat d - 1" using d0 by (simp add: of_nat_diff)
    then have "load32 m3 (unat v5 + 12) = Some (of_nat (d - 1))" using load32_store32 [OF m3] by simp
    ultimately have "jump_at m3 (unat v5) 0 1 d" using 3 d0 by (simp add: jump_at_def add.commute)
    with \<open>kept ?A m m3\<close> \<open>index m3 (unat v5 + 2) = Some 0\<close> d0 show ?thesis
      using 3 a(1) m1 m2 m3 length_store16 [OF m1] length_store8 [OF m2] length_store32 [OF m3]
      by (auto simp: true_jump_def simp del: index_Some_iff)
  qed
qed


lemma false_jump_at:
  assumes c: "load32 m (unat b + 32) = Some c" "c \<le> 1"
    and d: "d < 2 ^ 32"
    and v8: "v8 \<le> a" "a \<le> 1"
    and room: "unat v5 + 8 * (1 + unat a + unat c) \<le> length m" "unat v5 + 8 * (1 + unat a + unat c) < 2 ^ 32"
      "unat b + 212 \<le> unat v5"
  shows "(\<exists>m' j. false_jump m b v5 v8 (of_nat d) = Some (m', 1) \<and> length m' = length m \<and>
      kept ({unat v5 + 3} \<union> span (unat v5 + 8 * (1 + unat v8)) (8 * (unat a + unat c - unat v8))) m m' \<and>
      index m' (unat v5 + 3) = Some j \<and> jump_at m' (unat v5) j (unat a + unat c) d \<and> (256 \<le> d \<longrightarrow> unat j = unat v8)) \<or>
    (\<exists>m'. false_jump m b v5 v8 (of_nat d) = Some (m', 0) \<and> length m' = length m \<and>
      kept (span (unat b + 32) 4) m m' \<and> c = 0 \<and> 256 \<le> d \<and> load32 m' (unat b + 32) = Some 1)"
proof -
  have ud: "unat (of_nat d :: u32) = d" using d by (rule unat_of_nat_small)
  have q: "unat v5 + 8 \<le> length m" using room(1) by simp
  have ds: "(of_nat d :: u32) < 256 \<longleftrightarrow> \<not> 256 \<le> d" using ud by (simp add: word_less_nat_alt not_le)
  have "unat c = 0 \<or> unat c = 1" using c(2) by (auto simp: word_le_nat_alt)
  then have c01: "c = 0 \<or> c = 1" by (auto simp: word_unat_eq_iff)
  have v8a: "unat v8 \<le> unat a" "unat a \<le> 1" using v8 by (simp_all add: word_le_nat_alt)
  consider "(of_nat d :: u32) < 256" | "\<not> (of_nat d :: u32) < 256" "c = 0" | "\<not> (of_nat d :: u32) < 256" "c = 1"
    using c01 by blast
  then show ?thesis
  proof cases
    case 1
    obtain m' where m': "store8 m (unat v5 + 3) (of_nat d) = Some m'" using store8_in [of "unat v5 + 3" m] q by auto
    have "jump_at m' (unat v5) (ucast (of_nat d :: u32)) (unat a + unat c) d"
      using ucast_byte [OF 1] ud by (simp add: jump_at_def)
    moreover have "kept ({unat v5 + 3} \<union> span (unat v5 + 8 * (1 + unat v8)) (8 * (unat a + unat c - unat v8))) m m'"
      by (rule kept_mono [OF kept_store8 [OF m']]) simp
    ultimately show ?thesis
      using 1 m' index_store8 [OF m'] length_store8 [OF m'] ds by (auto simp: false_jump_def)
  next
    case 2
    have "unat b + 32 + 4 \<le> length m" using room q by simp
    then obtain m' where m': "store32 m (unat b + 32) 1 = Some m'" using store32_in by blast
    with 2 c(1) kept_store32 [OF m'] length_store32 [OF m'] load32_store32 [OF m'] ds show ?thesis
      by (auto simp: false_jump_def)
  next
    case 3
    have d0: "256 \<le> d" using 3(1) ud by (simp add: word_less_nat_alt)
    obtain m1 where m1: "store8 m (unat v5 + 3) v8 = Some m1" using store8_in [of "unat v5 + 3" m] q by auto
    have l1: "length m1 = length m" by (rule length_store8 [OF m1])
    let ?q = "unat v5 + 8 * (unat v8 + 1)"
    obtain m2 m3 where m3: "store32 m1 (unat (v5 + push_bit 3 (v8 + 1)) + 4) (of_nat d - (v8 + 1)) = Some m2"
      "store16 m2 (unat (v5 + push_bit 3 (v8 + 1))) 5 = Some m3" "length m3 = length m1" "kept (span ?q 8) m1 m3"
      "load16 m3 ?q = Some 5" "load32 m3 (?q + 4) = Some (of_nat (d - unat v8 - 1))"
    proof (rule store_long_jump)
      show "?q + 8 \<le> length m1" "?q + 8 < 2 ^ 32" using room v8a 3(2) l1 by simp_all
    qed (use v8a d0 d in auto)
    let ?A = "{unat v5 + 3} \<union> span (unat v5 + 8 * (1 + unat v8)) (8 * (unat a + unat c - unat v8))"
    have k: "kept ?A m m3"
      by (rule kept_trans [OF kept_mono [OF kept_store8 [OF m1]] kept_mono [OF m3(4)]])
        (use v8a 3(2) in auto)
    have j: "index m3 (unat v5 + 3) = Some (ucast v8)"
      by (rule kept_index [OF m3(4) index_store8 [OF m1]]) simp
    have "v8 < 256" using v8a by (simp add: word_less_nat_alt)
    then have uj: "unat (ucast v8 :: u8) = unat v8" by (rule ucast_byte)
    then have "jump_at m3 (unat v5) (ucast v8) (unat a + unat c) d"
      using m3(5,6) v8a 3(2) d0 by (simp add: jump_at_def)
    with k j uj show ?thesis using 3 c(1) m1 m3(1-3) l1 by (auto simp: false_jump_def Let_def simp del: index_Some_iff)
  qed
qed


lemma emit_jumps_at:
  assumes tst: "load32 m (unat b + 8) = Some tst" "load32 m (unat b + 20) = Some bnd"
    and edges: "load32 m (unat b + 60) = Some y" "load32 m (unat b + 84) = Some z"
    and plan: "load32 m (unat b + 28) = Some a" "load32 m (unat b + 32) = Some c" "a \<le> 1" "c \<le> 1"
    and place: "load32 m (unat b + 40) = Some (of_nat s)" "v6 = of_nat len"
    and targets: "y \<noteq> 0 \<Longrightarrow> load32 m (unat y + 40) = Some (of_nat py) \<and> load32 m (unat z + 40) = Some (of_nat pz) \<and>
        s + len < py \<and> s + len < pz \<and> py < 2 ^ 32 \<and> pz < 2 ^ 32 \<and> unat y + 212 \<le> unat v5 \<and> unat z + 212 \<le> unat v5"
    and room: "unat v5 + 8 * (1 + unat a + unat c) \<le> length m" "unat v5 + 8 * (1 + unat a + unat c) < 2 ^ 32"
      "unat b + 212 \<le> unat v5"
  shows "(\<exists>m'. emit_jumps m b v5 v6 = Some (m', 1) \<and> length m' = length m \<and>
      kept (span (unat v5) (8 * (1 + unat a + unat c))) m m' \<and>
      load16 m' (unat v5) = Some (ucast tst) \<and> load32 m' (unat v5 + 4) = Some bnd \<and>
      (y \<noteq> 0 \<longrightarrow> (\<exists>jt jf. index m' (unat v5 + 2) = Some jt \<and> index m' (unat v5 + 3) = Some jf \<and>
        jump_at m' (unat v5) jt (unat a + unat c) (py - (s + len) - 1) \<and>
        jump_at m' (unat v5) jf (unat a + unat c) (pz - (s + len) - 1) \<and>
        long_jumps jt jf (py - (s + len) - 1) (pz - (s + len) - 1)))) \<or>
    (\<exists>m' a' c'. emit_jumps m b v5 v6 = Some (m', 0) \<and> length m' = length m \<and>
      kept (span (unat v5) (8 * (1 + unat a + unat c)) \<union> span (unat b + 28) 8) m m' \<and>
      load32 m' (unat b + 28) = Some a' \<and> load32 m' (unat b + 32) = Some c' \<and>
      y \<noteq> 0 \<and> (a = 0 \<and> a' = 1 \<and> c' = c \<and> 256 \<le> py - (s + len) - 1 \<or> c = 0 \<and> a' = a \<and> c' = 1 \<and> 256 \<le> pz - (s + len) - 1))"
proof -
  let ?A = "span (unat v5) (8 * (1 + unat a + unat c))"
  have q: "unat v5 + 8 \<le> length m" using room(1) by simp
  obtain m1 where m1: "store16 m (unat v5) (ucast tst) = Some m1" using store16_in [of "unat v5" m] q by auto
  have l1: "length m1 = length m" by (rule length_store16 [OF m1])
  obtain m2 where m2: "store32 m1 (unat v5 + 4) bnd = Some m2" using store32_in [of "unat v5 + 4" m1] q l1 by auto
  have l2: "length m2 = length m" using length_store32 [OF m2] l1 by simp
  have k1: "kept (span (unat v5) 8) m m1" by (rule kept_mono [OF kept_store16 [OF m1]]) simp
  have k2: "kept (span (unat v5) 8) m m2"
    by (rule kept_trans [OF k1 kept_mono [OF kept_store32 [OF m2]]]) simp
  have r: "load16 m2 (unat v5) = Some (ucast tst)" "load32 m2 (unat v5 + 4) = Some bnd"
    using kept_load16 [OF kept_store32 [OF m2] load16_store16 [OF m1]] load32_store32 [OF m2] by simp_all
  have b: "load32 m1 (unat b + 20) = Some bnd" "load32 m2 (unat b + 60) = Some y" "load32 m2 (unat b + 84) = Some z"
    "load32 m2 (unat b + 28) = Some a" "load32 m2 (unat b + 32) = Some c" "load32 m2 (unat b + 40) = Some (of_nat s)"
    using kept_load32 [OF k1 tst(2)] kept_load32 [OF k2 edges(1)] kept_load32 [OF k2 edges(2)]
      kept_load32 [OF k2 plan(1)] kept_load32 [OF k2 plan(2)] kept_load32 [OF k2 place(1)] room(3) by simp_all
  show ?thesis
  proof (cases "y = 0")
    case True
    then have "emit_jumps m b v5 v6 = Some (m2, 1)" using tst(1) m1 m2 b by (simp add: emit_jumps_def)
    moreover have "kept ?A m m2" by (rule kept_mono [OF k2]) simp
    ultimately show ?thesis using True l2 r by blast
  next
    case False
    note t = targets [OF False]
    let ?dy = "py - (s + len) - 1" and ?dz = "pz - (s + len) - 1"
    have ty: "load32 m2 (unat y + 40) = Some (of_nat py)" using kept_load32 [OF k2] t by simp
    have w: "of_nat py + NOT (of_nat s + v6) = of_nat ?dy" "of_nat pz + NOT (of_nat s + v6) = of_nat ?dz"
      using distance [of s len py] distance [of s len pz] t by (simp_all add: place(2))
    have run: "emit_jumps m b v5 v6 = do {
        (m, r) \<leftarrow> true_jump m2 b v5 (of_nat ?dy);
        case r of None \<Rightarrow> Some (m, 0)
        | Some v8 \<Rightarrow> do {
            t41 \<leftarrow> load32 m (unat b + 84);
            t42 \<leftarrow> load32 m (unat t41 + 40);
            false_jump m b v5 v8 (t42 + NOT (of_nat s + v6)) } }"
      using tst(1) m1 m2 b False ty w(1) by (simp add: emit_jumps_def Let_def)
    have dy: "?dy < 2 ^ 32" "?dz < 2 ^ 32" using t by auto
    have rt: "unat v5 + 8 * (1 + unat a) \<le> length m2" using room(1) l2 by simp
    from true_jump_at [OF b(4) plan(3) dy(1) rt room(3)] show ?thesis
    proof (elim disjE exE conjE)
      fix m3
      assume m3: "true_jump m2 b v5 (of_nat ?dy) = Some (m3, None)" "length m3 = length m2"
        "kept (span (unat b + 28) 4) m2 m3" "a = 0" "256 \<le> ?dy" "load32 m3 (unat b + 28) = Some 1"
      have "load32 m3 (unat b + 32) = Some c" by (rule kept_load32 [OF m3(3) b(5)]) simp
      moreover have "kept (?A \<union> span (unat b + 28) 8) m m3"
        by (rule kept_trans [OF kept_mono [OF k2] kept_mono [OF m3(3)]]) auto
      moreover have "emit_jumps m b v5 v6 = Some (m3, 0)" using run m3(1) by simp
      ultimately show ?thesis using m3 l2 False
        by (intro disjI2 exI [of _ m3] exI [of _ 1] exI [of _ c]) simp
    next
      fix m3 j v8
      assume m3: "true_jump m2 b v5 (of_nat ?dy) = Some (m3, Some v8)" "length m3 = length m2"
        "kept ({unat v5 + 2} \<union> span (unat v5 + 8) (8 * unat a)) m2 m3" "v8 \<le> a"
        "index m3 (unat v5 + 2) = Some j" "jump_at m3 (unat v5) j (unat v8) ?dy"
        "256 \<le> ?dy \<longrightarrow> unat j = 0" "v8 = (if 256 \<le> ?dy then 1 else 0)"
      have fz: "load32 m3 (unat b + 84) = Some z" "load32 m3 (unat b + 28) = Some a" "load32 m3 (unat b + 32) = Some c"
        using kept_load32 [OF m3(3) b(3)] kept_load32 [OF m3(3) b(4)] kept_load32 [OF m3(3) b(5)] room(3)
        by auto
      have "load32 m2 (unat z + 40) = Some (of_nat pz)" using kept_load32 [OF k2] t by simp
      from kept_load32 [OF m3(3) this] t have tz: "load32 m3 (unat z + 40) = Some (of_nat pz)" by auto
      have run2: "emit_jumps m b v5 v6 = false_jump m3 b v5 v8 (of_nat ?dz)"
        using run m3(1) fz tz w(2) by simp
      have k3: "kept ?A m m3" by (rule kept_trans [OF kept_mono [OF k2] kept_mono [OF m3(3)]]) auto
      have l3: "length m3 = length m" using m3(2) l2 by simp
      have r3: "load16 m3 (unat v5) = Some (ucast tst)" "load32 m3 (unat v5 + 4) = Some bnd"
        using kept_load16 [OF m3(3) r(1)] kept_load32 [OF m3(3) r(2)] by auto
      have rz: "unat v5 + 8 * (1 + unat a + unat c) \<le> length m3" using room(1) l3 by simp
      from false_jump_at [OF fz(3) plan(4) dy(2) m3(4) plan(3) rz room(2,3)] show ?thesis
      proof (elim disjE exE conjE)
        fix m4
        assume m4: "false_jump m3 b v5 v8 (of_nat ?dz) = Some (m4, 0)" "length m4 = length m3"
          "kept (span (unat b + 32) 4) m3 m4" "c = 0" "256 \<le> ?dz" "load32 m4 (unat b + 32) = Some 1"
        have "load32 m4 (unat b + 28) = Some a" by (rule kept_load32 [OF m4(3) fz(2)]) simp
        moreover have k4: "kept (?A \<union> span (unat b + 28) 8) m m4"
          by (rule kept_trans [OF kept_mono [OF k3] kept_mono [OF m4(3)]]) auto
        ultimately have "\<exists>a' c'. load32 m4 (unat b + 28) = Some a' \<and> load32 m4 (unat b + 32) = Some c' \<and>
            y \<noteq> 0 \<and> (a = 0 \<and> a' = 1 \<and> c' = c \<and> 256 \<le> ?dy \<or> c = 0 \<and> a' = a \<and> c' = 1 \<and> 256 \<le> ?dz)"
          using m4(4-6) False by simp
        with k4 m4(1,2) l3 run2 show ?thesis by auto
      next
        fix m4 jf
        let ?F = "{unat v5 + 3} \<union> span (unat v5 + 8 * (1 + unat v8)) (8 * (unat a + unat c - unat v8))"
        assume m4: "false_jump m3 b v5 v8 (of_nat ?dz) = Some (m4, 1)" "length m4 = length m3" "kept ?F m3 m4"
          "index m4 (unat v5 + 3) = Some jf" "jump_at m4 (unat v5) jf (unat a + unat c) ?dz"
          "256 \<le> ?dz \<longrightarrow> unat jf = unat v8"
        have v8a: "unat v8 \<le> unat a" using m3(4) by (simp add: word_le_nat_alt)
        have "kept ?A m m4"
          by (rule kept_trans [OF k3 kept_mono [OF m4(3)]]) (use v8a in auto)
        moreover have "load16 m4 (unat v5) = Some (ucast tst)" "load32 m4 (unat v5 + 4) = Some bnd"
          using kept_load16 [OF m4(3) r3(1)] kept_load32 [OF m4(3) r3(2)] by auto
        moreover have "index m4 (unat v5 + 2) = Some j" by (rule kept_index [OF m4(3) m3(5)]) simp
        moreover have "jump_at m4 (unat v5) j (unat a + unat c) ?dy"
          by (rule jump_at_mono [OF jump_at_kept [OF m3(6) m4(3)]]) (use v8a in auto)
        moreover have "long_jumps j jf ?dy ?dz" using m3(7,8) m4(6) by (auto simp: long_jumps_def)
        ultimately show ?thesis using m4 l3 run2 by (auto simp del: index_Some_iff)
      qed
    qed
  qed
qed

end
