(* ===== verification/Arena.thy ===== *)
theory Arena
  imports Codegen_Blocks Emit_Parts
begin

text \<open>
  What the allocations of the code generator do (\<open>_newchunk_nolongjmp\<close>, theory \<open>Codegen_Blocks\<close>):
  a request that fits the current chunk or the next one is met with zero bytes that were free
  and are free no more (\<open>newchunk_fresh\<close>), whatever is not free is kept, and whether a sequence of
  requests can be met is computed by \<open>fits\<close>. Lists of statements are built from such pieces
  (\<open>new_stmt_built\<close>, \<open>built_append\<close>).
\<close>

section \<open>The arena\<close>

text \<open>
  The arena of the compiler handle: the current chunk, the bytes left in it, its address, and the
  heap pointer. \<open>free\<close> are the bytes it may still hand out.
\<close>

record arena =
  handle :: u32
  chunk :: nat
  left :: nat
  base :: nat
  brk :: nat

definition free :: "arena \<Rightarrow> nat set" where
  "free A = {base A..<base A + left A} \<union> {brk A..}"

definition arena_words :: "arena \<Rightarrow> nat set" where
  "arena_words A = span (unat (handle A) + 248) 132"

text \<open>The address of each of the 16 chunks is in the handle: 0, or below the heap pointer \<open>H\<close>.\<close>

definition chunk_slots :: "u32 \<Rightarrow> nat \<Rightarrow> memory \<Rightarrow> bool" where
  "chunk_slots h H m \<longleftrightarrow> (\<forall>k < 16. \<exists>p. load32 m (unat h + 252 + 8 * k) = Some p \<and> unat p < H)"

definition arena_ok :: "arena \<Rightarrow> memory \<Rightarrow> bool" where
  "arena_ok A m \<longleftrightarrow> (\<exists>L. heap_inv m (brk A) L) \<and> unat (handle A) + 380 \<le> 125436 \<and> chunk A < 16 \<and>
     load32 m (unat (handle A) + 376) = Some (of_nat (chunk A)) \<and>
     load32 m (unat (handle A) + 248 + 8 * chunk A) = Some (of_nat (left A)) \<and>
     load32 m (unat (handle A) + 248 + 8 * chunk A + 4) = Some (of_nat (base A)) \<and>
     (left A = 0 \<or> 127840 \<le> base A) \<and> base A + left A \<le> brk A \<and>
     chunk_slots (handle A) (brk A) m \<and> (\<forall>i \<in> free A. i < length m \<longrightarrow> m ! i = 0)"

text \<open>The next chunk has \<open>chunk_size\<close> bytes. A request is met from the current chunk or the next one.\<close>

definition chunk_size :: "arena \<Rightarrow> nat" where
  "chunk_size A = 2048 * 2 ^ chunk A"

definition next_arena :: "nat \<Rightarrow> arena \<Rightarrow> arena" where
  "next_arena n A =
     (if n \<le> left A then A\<lparr>left := left A - n\<rparr>
      else A\<lparr>chunk := Suc (chunk A), left := chunk_size A - n, base := brk A, brk := brk A + chunk_size A\<rparr>)"

definition has_room :: "nat \<Rightarrow> arena \<Rightarrow> bool" where
  "has_room n A \<longleftrightarrow> n \<le> left A \<or> chunk A < 15 \<and> n \<le> chunk_size A \<and> brk A + chunk_size A \<le> 2 ^ 32"

text \<open>A sequence of requests, and whether the 16 chunks and the address space have room for them.\<close>

fun after :: "nat list \<Rightarrow> arena \<Rightarrow> arena" where
  "after [] A = A"
| "after (n # ns) A = after ns (next_arena n A)"

fun fits :: "nat list \<Rightarrow> arena \<Rightarrow> bool" where
  "fits [] A = True"
| "fits (n # ns) A = (has_room n A \<and> fits ns (next_arena n A))"

lemma after_append [simp]: "after (ns @ ks) A = after ks (after ns A)"
  by (induction ns arbitrary: A) auto

lemma fits_append [simp]: "fits (ns @ ks) A \<longleftrightarrow> fits ns A \<and> fits ks (after ns A)"
  by (induction ns arbitrary: A) auto

lemma next_arena_handle [simp]: "handle (next_arena n A) = handle A"
  by (simp add: next_arena_def)

lemma after_handle [simp]: "handle (after ns A) = handle A"
  by (induction ns arbitrary: A) auto

lemma chunk_size_le: "chunk A < 15 \<Longrightarrow> chunk_size A \<le> 2 ^ 25 \<and> 16 dvd chunk_size A"
  unfolding chunk_size_def
  by (intro conjI order_trans [OF mult_left_mono [OF power_increasing [of "chunk A" 14 2]]]) auto

text \<open>What was handed out is not free any more.\<close>

lemma next_arena_free:
  assumes "has_room n A" "base A + left A \<le> brk A" "0 < n"
  shows "span (base (next_arena n A) + left (next_arena n A)) n \<subseteq> free A"
    "free (next_arena n A) \<subseteq> free A"
    "span (base (next_arena n A) + left (next_arena n A)) n \<inter> free (next_arena n A) = {}"
    "base (next_arena n A) + left (next_arena n A) + n \<le> brk (next_arena n A)"
    "brk A \<le> brk (next_arena n A)"
  using assms by (auto simp: next_arena_def has_room_def free_def)

text \<open>A change outside the free bytes, the words of the handle and those of the allocator.\<close>

lemma chunk_slots_kept:
  assumes "chunk_slots h H m" "kept S m m'" "H \<le> H'" "\<And>k. k < 16 \<Longrightarrow> span (unat h + 252 + 8 * k) 4 \<inter> S = {}"
  shows "chunk_slots h H' m'"
  using assms kept_load32 [OF assms(2)] unfolding chunk_slots_def by (meson less_le_trans)

lemma arena_ok_kept:
  assumes "arena_ok A m" "kept S m m'" "length m' = length m"
    "S \<inter> own_bytes = {}" "S \<inter> arena_words A = {}" "S \<inter> free A = {}"
  shows "arena_ok A m'"
proof -
  obtain L where "heap_inv m (brk A) L" using assms(1) by (auto simp: arena_ok_def)
  then have "heap_inv m' (brk A) L" by (rule heap_inv_kept [OF _ assms(2-4)])
  moreover have "load32 m' (unat (handle A) + 248 + d) = Some v"
    if "load32 m (unat (handle A) + 248 + d) = Some v" "d + 4 \<le> 132" for d v
  proof (rule kept_load32 [OF assms(2) that(1)])
    have "span (unat (handle A) + 248 + d) 4 \<subseteq> arena_words A" using that(2) by (simp add: arena_words_def)
    with assms(5) show "span (unat (handle A) + 248 + d) 4 \<inter> S = {}" by blast
  qed
  from this [of 128] this [of "8 * chunk A"] this [of "8 * chunk A + 4"]
  have "load32 m' (unat (handle A) + 376) = Some (of_nat (chunk A))"
    "load32 m' (unat (handle A) + 248 + 8 * chunk A) = Some (of_nat (left A))"
    "load32 m' (unat (handle A) + 248 + 8 * chunk A + 4) = Some (of_nat (base A))"
    using assms(1) by (simp_all add: arena_ok_def add.assoc)
  moreover have "chunk_slots (handle A) (brk A) m'"
  proof (rule chunk_slots_kept [OF _ assms(2) order_refl])
    show "chunk_slots (handle A) (brk A) m" using assms(1) by (simp add: arena_ok_def)
    show "span (unat (handle A) + 252 + 8 * k) 4 \<inter> S = {}" if "k < 16" for k
    proof -
      have "span (unat (handle A) + 252 + 8 * k) 4 \<subseteq> arena_words A" using that by (simp add: arena_words_def)
      with assms(5) show ?thesis by blast
    qed
  qed
  moreover have "m' ! i = 0" if "i \<in> free A" "i < length m'" for i
  proof -
    have "i \<notin> S" using that(1) assms(6) by blast
    with that assms(1-3) show ?thesis by (simp add: kept_def arena_ok_def)
  qed
  ultimately show ?thesis using assms(1) by (auto simp: arena_ok_def)
qed

lemma load32_zero:
  assumes "a + 4 \<le> length m" "\<And>i. i \<in> span a 4 \<Longrightarrow> m ! i = 0"
  shows "load32 m a = Some 0"
proof (rule load32_at [OF _ assms(1)])
  have "take 4 (drop a m) = replicate 4 0" using assms by (intro nth_equalityI) auto
  then show "take 4 (drop a m) = le_bytes32 0" by (simp only: four_zeros)
qed

lemma round_up_16 [simp]: "16 dvd n \<Longrightarrow> round_up 4 n = n"
  by (auto simp: round_up_def dvd_def)

lemma calloc_chunk:
  assumes inv: "heap_inv m H L" and k: "0 < unat k" "unat k < 2 ^ 31" "16 dvd unat k" "H + unat k \<le> 2 ^ 32"
  obtains m' where "calloc m 1 k = Some (of_nat H, m')" "heap_kept m m'" "heap_inv m' (H + unat k) H"
proof -
  have "0 < sint k" using sint_small [of k] k(1,2) by (simp del: of_nat_unat)
  from xmalloc_spec [OF inv this] k(3,4)
  obtain m' where "xmalloc m k = Some (of_nat H, m')" "heap_kept m m'" "heap_inv m' (H + unat k) H" by auto
  moreover have "calloc m 1 k = xmalloc m k" using k(2) by (simp add: calloc_malloc)
  ultimately show thesis using that by simp
qed

lemma arena_bounds:
  assumes "arena_ok A m"
  shows "base A + left A \<le> brk A" "brk A \<le> length m" "length m \<le> 2 ^ 32" "127840 \<le> brk A"
    "unat (of_nat (left A) :: u32) = left A" "left A = 0 \<or> 127840 \<le> base A" "i \<in> free A \<Longrightarrow> 127840 \<le> i"
proof -
  show b: "base A + left A \<le> brk A" "brk A \<le> length m" "length m \<le> 2 ^ 32" "127840 \<le> brk A"
    "left A = 0 \<or> 127840 \<le> base A"
    using assms by (auto simp: arena_ok_def heap_inv_def)
  have "left A < 2 ^ 32" using b by (cases "left A = 0") auto
  then show "unat (of_nat (left A) :: u32) = left A" by (rule unat_of_nat_small)
  show "127840 \<le> i" if "i \<in> free A" using that b(4,5) by (auto simp: free_def)
qed

lemma chunk_addr:
  assumes "arena_ok A m"
  shows "unat (handle A + 248 + push_bit 3 (of_nat (chunk A))) = unat (handle A) + 248 + 8 * chunk A"
proof -
  have c: "unat (handle A) + 380 \<le> 125436" "chunk A < 16" using assms by (auto simp: arena_ok_def)
  have "push_bit 3 (of_nat (chunk A)) = (of_nat (8 * chunk A) :: u32)" by (simp add: push_bit_eq_mult)
  moreover have "unat (of_nat (8 * chunk A) :: u32) = 8 * chunk A" using c(2) by (intro unat_of_nat_small) simp
  moreover have "unat (handle A + 248) = unat (handle A) + 248" using c(1) by (intro unat_add_no_wrap [THEN trans]) simp_all
  ultimately show ?thesis using c by (subst unat_add_no_wrap) simp_all
qed

text \<open>Handing out the end of the chunk.\<close>

lemma arena_take:
  assumes ok: "arena_ok A m" and n: "n \<le> left A" "0 < n"
  obtains m' where "store32 m (unat (handle A + 248 + push_bit 3 (of_nat (chunk A)))) (of_nat (left A) - of_nat n) = Some m'"
    "arena_ok (A\<lparr>left := left A - n\<rparr>) m'" "kept (arena_words A) m m'" "length m' = length m"
proof -
  note b = arena_bounds [OF ok] and ad = chunk_addr [OF ok]
  have c: "unat (handle A) + 380 \<le> 125436" "chunk A < 16" using ok by (auto simp: arena_ok_def)
  obtain m' where m': "store32 m (unat (handle A) + 248 + 8 * chunk A) (of_nat (left A - n)) = Some m'"
    using store32_in [of "unat (handle A) + 248 + 8 * chunk A" m] b c by auto
  have len: "length m' = length m" by (rule length_store32 [OF m'])
  have "span (unat (handle A) + 248 + 8 * chunk A) 4 \<subseteq> arena_words A" using c(2) by (simp add: arena_words_def)
  then have kept: "kept (arena_words A) m m'" by (rule kept_mono [OF kept_store32 [OF m']])
  obtain L where "heap_inv m (brk A) L" using ok by (auto simp: arena_ok_def)
  then have inv: "heap_inv m' (brk A) L" by (rule heap_inv_kept [OF _ kept_store32 [OF m'] len]) (use c in auto)
  have zero: "m' ! i = 0" if "i \<in> free (A\<lparr>left := left A - n\<rparr>)" "i < length m'" for i
  proof -
    have i: "i \<in> free A" using that n by (auto simp: free_def)
    have "127840 \<le> i" by (rule b(7) [OF i])
    then have "i \<notin> span (unat (handle A) + 248 + 8 * chunk A) 4" using c by simp
    with i that len kept_store32 [OF m'] ok show ?thesis by (simp add: kept_def arena_ok_def)
  qed
  have "load32 m' (unat (handle A) + 376) = Some (of_nat (chunk A))"
    "load32 m' (unat (handle A) + 248 + 8 * chunk A + 4) = Some (of_nat (base A))"
    by (rule kept_load32 [OF kept_store32 [OF m']], use ok c(2) in \<open>auto simp: arena_ok_def\<close>)+
  moreover have "chunk_slots (handle A) (brk A) m'"
    by (rule chunk_slots_kept [OF _ kept_store32 [OF m'] order_refl])
      (use ok in \<open>auto simp: arena_ok_def\<close>)
  ultimately have "arena_ok (A\<lparr>left := left A - n\<rparr>) m'"
    using inv zero ok load32_store32 [OF m'] n by (auto simp: arena_ok_def)
  moreover have "of_nat (left A) - of_nat n = (of_nat (left A - n) :: u32)" using n by (simp add: of_nat_diff)
  ultimately show thesis using that m' kept len ad by simp
qed

text \<open>A new chunk, described in the handle before anything is taken from it.\<close>

definition next_chunk :: "arena \<Rightarrow> arena" where
  "next_chunk A = A\<lparr>chunk := Suc (chunk A), left := chunk_size A, base := brk A, brk := brk A + chunk_size A\<rparr>"

lemma next_chunk_simps [simp]:
  "handle (next_chunk A) = handle A" "chunk (next_chunk A) = Suc (chunk A)" "left (next_chunk A) = chunk_size A"
  "base (next_chunk A) = brk A" "brk (next_chunk A) = brk A + chunk_size A"
  by (simp_all add: next_chunk_def)

lemma shl_chunk: "i < 15 \<Longrightarrow> i32_shl 2048 (of_nat i) = of_nat (2048 * 2 ^ i)"
proof -
  assume i: "i < 15"
  have "unat (of_nat i AND 31 :: u32) = i"
  proof -
    have "unat (of_nat i :: u32) = i" using i by (intro unat_of_nat_small) simp
    moreover have "i AND 31 = i" using i take_bit_nat_eq_self [of i 5] by (simp add: take_bit_eq_mask mask_eq_exp_minus_1)
    ultimately show ?thesis by (simp only: unsigned_and_eq unat_numeral) simp
  qed
  then show ?thesis by (simp add: i32_shl_def push_bit_eq_mult mult.commute)
qed

lemma arena_grow:
  assumes ok: "arena_ok A m" and c: "chunk A < 15" "brk A + chunk_size A \<le> 2 ^ 32"
  obtains m1 m2 m3 m4 where "store32 m (unat (handle A) + 376) (of_nat (Suc (chunk A))) = Some m1"
    "calloc m1 1 (of_nat (chunk_size A)) = Some (of_nat (brk A), m2)" "load32 m2 (unat (handle A) + 376) = Some (of_nat (Suc (chunk A)))"
    "store32 m2 (unat (handle A + 248 + push_bit 3 (of_nat (Suc (chunk A)))) + 4) (of_nat (brk A)) = Some m3"
    "(of_nat (brk A) :: u32) \<noteq> 0"
    "store32 m3 (unat (handle A + 248 + push_bit 3 (of_nat (Suc (chunk A))))) (of_nat (chunk_size A)) = Some m4"
    "arena_ok (next_chunk A) m4" "kept (own_bytes \<union> arena_words A) m m4" "length m \<le> length m4"
proof -
  note b = arena_bounds [OF ok]
  have h: "unat (handle A) + 380 \<le> 125436" using ok by (simp add: arena_ok_def)
  have cs: "chunk_size A \<le> 2 ^ 25" "16 dvd chunk_size A" "0 < chunk_size A" using chunk_size_le [OF c(1)] by (auto simp: chunk_size_def)
  have ucs: "unat (of_nat (chunk_size A) :: u32) = chunk_size A" using cs(1) by (intro unat_of_nat_small) simp
  obtain L where inv: "heap_inv m (brk A) L" using ok by (auto simp: arena_ok_def)
  obtain m1 where m1: "store32 m (unat (handle A) + 376) (of_nat (Suc (chunk A))) = Some m1"
    using store32_in [of "unat (handle A) + 376" m] b h by auto
  have l1: "length m1 = length m" by (rule length_store32 [OF m1])
  have i1: "heap_inv m1 (brk A) L" by (rule heap_inv_kept [OF inv kept_store32 [OF m1] l1]) (use h in auto)
  obtain m2 where m2: "calloc m1 1 (of_nat (chunk_size A)) = Some (of_nat (brk A), m2)" "heap_kept m1 m2"
    "heap_inv m2 (brk A + chunk_size A) (brk A)"
    by (rule calloc_chunk [OF i1, of "of_nat (chunk_size A)"]) (use ucs cs c(2) l1 in simp_all)
  have k2: "kept own_bytes m1 m2" by (rule heap_kept_kept [OF m2(2)])
  have l2: "length m1 \<le> length m2" by (rule kept_length [OF k2])
  have ld: "load32 m2 (unat (handle A) + 376) = Some (of_nat (Suc (chunk A)))"
    by (rule kept_load32 [OF k2 load32_store32 [OF m1]]) (use h in auto)
  have ad: "unat (handle A + 248 + push_bit 3 (of_nat (Suc (chunk A)))) = unat (handle A) + 248 + 8 * Suc (chunk A)"
  proof -
    have "push_bit 3 (of_nat (Suc (chunk A))) = (of_nat (8 * Suc (chunk A)) :: u32)" by (simp add: push_bit_eq_mult)
    moreover have "unat (of_nat (8 * Suc (chunk A)) :: u32) = 8 * Suc (chunk A)" using c(1) by (intro unat_of_nat_small) simp
    moreover have "unat (handle A + 248) = unat (handle A) + 248" using h by (intro unat_add_no_wrap [THEN trans]) simp_all
    ultimately show ?thesis using c h by (subst unat_add_no_wrap) simp_all
  qed
  have bd: "unat (handle A) + 248 + 8 * Suc (chunk A) + 8 \<le> length m2" "unat (handle A) + 248 + 8 * Suc (chunk A) + 8 \<le> 125436"
    using b h c(1) l1 l2 by simp_all
  obtain m3 where m3: "store32 m2 (unat (handle A) + 248 + 8 * Suc (chunk A) + 4) (of_nat (brk A)) = Some m3"
    using store32_in [of "unat (handle A) + 248 + 8 * Suc (chunk A) + 4" m2] bd by auto
  have l3: "length m3 = length m2" by (rule length_store32 [OF m3])
  obtain m4 where m4: "store32 m3 (unat (handle A) + 248 + 8 * Suc (chunk A)) (of_nat (chunk_size A)) = Some m4"
    using store32_in [of "unat (handle A) + 248 + 8 * Suc (chunk A)" m3] l3 bd by auto
  have l4: "length m4 = length m2" using length_store32 [OF m4] l3 by simp
  have "span (unat (handle A) + 248 + 8 * Suc (chunk A)) 8 \<subseteq> arena_words A" using c(1) by (simp add: arena_words_def)
  then have k24: "kept (arena_words A) m2 m4"
    by (intro kept_trans [OF kept_mono [OF kept_store32 [OF m3]] kept_mono [OF kept_store32 [OF m4]]])
      (auto simp: subset_iff)
  have "span (unat (handle A) + 376) 4 \<subseteq> arena_words A" by (simp add: arena_words_def)
  then have k: "kept (own_bytes \<union> arena_words A) m m4"
    by (intro kept_trans [OF kept_mono [OF kept_store32 [OF m1]] kept_trans [OF kept_mono [OF k2] kept_mono [OF k24]]]) auto
  have "arena_words A \<inter> own_bytes = {}" using h by (auto simp: arena_words_def own_bytes_def)
  then have i4: "heap_inv m4 (brk A + chunk_size A) (brk A)" by (rule heap_inv_kept [OF m2(3) k24 l4])
  have "load32 m4 (unat (handle A) + 376) = Some (of_nat (Suc (chunk A)))"
    "load32 m4 (unat (handle A) + 248 + 8 * Suc (chunk A) + 4) = Some (of_nat (brk A))"
    by (rule kept_load32 [OF kept_store32 [OF m4] kept_load32 [OF kept_store32 [OF m3] ld]], use c(1) in \<open>simp, simp\<close>)
      (rule kept_load32 [OF kept_store32 [OF m4] load32_store32 [OF m3]], simp)
  note loads = this load32_store32 [OF m4]
  have zero: "m4 ! i = 0" if i: "i \<in> free (next_chunk A)" "i < length m4" for i
  proof -
    have ge: "brk A \<le> i" using i(1) by (auto simp: free_def)
    have nw: "i \<notin> arena_words A" "\<not> own_byte i" "i \<notin> span (unat (handle A) + 376) 4"
      using ge b h by (auto simp: arena_words_def own_byte_def)
    have "m4 ! i = m2 ! i" using k24 nw(1) i(2) l4 by (simp add: kept_def)
    moreover have "m2 ! i = 0"
    proof (cases "i < length m1")
      case True
      then have "m2 ! i = m1 ! i" using m2(2) nw(2) by (simp add: heap_kept_def)
      moreover have "m1 ! i = m ! i" using kept_store32 [OF m1] nw(3) True l1 by (simp add: kept_def)
      moreover have "m ! i = 0" using ok ge True l1 by (simp add: arena_ok_def free_def)
      ultimately show ?thesis by simp
    next
      case False
      then show ?thesis using m2(2) i(2) l4 by (simp add: heap_kept_def)
    qed
    ultimately show ?thesis by simp
  qed
  have sl: "chunk_slots (handle A) (brk A + chunk_size A) m4"
    unfolding chunk_slots_def
  proof (intro allI impI)
    fix k :: nat assume k: "k < 16"
    obtain p where p: "load32 m (unat (handle A) + 252 + 8 * k) = Some p" "unat p < brk A"
      using ok k by (auto simp: arena_ok_def chunk_slots_def)
    have "load32 m1 (unat (handle A) + 252 + 8 * k) = Some p"
      by (rule kept_load32 [OF kept_store32 [OF m1] p(1)]) (use k in auto)
    then have p2: "load32 m2 (unat (handle A) + 252 + 8 * k) = Some p"
      by (rule kept_load32 [OF k2]) (use h k in auto)
    show "\<exists>p. load32 m4 (unat (handle A) + 252 + 8 * k) = Some p \<and> unat p < brk A + chunk_size A"
    proof (cases "k = Suc (chunk A)")
      case True
      have "unat (of_nat (brk A) :: u32) \<le> brk A" by (simp add: unat_of_nat)
      with True loads(2) cs(3) show ?thesis by (simp add: add.assoc)
    next
      case False
      have "load32 m3 (unat (handle A) + 252 + 8 * k) = Some p"
        by (rule kept_load32 [OF kept_store32 [OF m3] p2]) (use False in auto)
      then have "load32 m4 (unat (handle A) + 252 + 8 * k) = Some p"
        by (rule kept_load32 [OF kept_store32 [OF m4]]) auto
      with p(2) show ?thesis by auto
    qed
  qed
  have "arena_ok (next_chunk A) m4"
    unfolding arena_ok_def next_chunk_simps using i4 h c(1) loads b(1,4) zero sl by auto
  moreover have "(of_nat (brk A) :: u32) \<noteq> 0"
    using heap_addr(2) [OF m2(3) cs(3)] b(1,4) by simp
  ultimately show thesis
    using that [OF m1 m2(1) ld _ _ _ _ k] m3 m4 ad l1 l2 l4 by simp
qed

lemma next_arena_grow: "\<not> n \<le> left A \<Longrightarrow> next_arena n A = (next_chunk A)\<lparr>left := left (next_chunk A) - n\<rparr>"
  by (simp add: next_arena_def next_chunk_def)

lemma newchunk_at:
  assumes ok: "arena_ok A m" and room: "has_room (unat n) A" and n: "(n + 3) AND - 4 = n" "0 < unat n"
  obtains m' p where "newchunk_nolongjmp vs sp m (handle A) n = Some (m', p)" "p \<noteq> 0"
    "unat p = base (next_arena (unat n) A) + left (next_arena (unat n) A)"
    "arena_ok (next_arena (unat n) A) m'" "kept (own_bytes \<union> arena_words A) m m'" "length m \<le> length m'"
    "\<And>i. i \<in> free A \<Longrightarrow> i < length m' \<Longrightarrow> m' ! i = 0"
proof -
  note b = arena_bounds [OF ok]
  let ?A = "next_arena (unat n) A"
  have ix: "load32 m (unat (handle A) + 376) = Some (of_nat (chunk A))" using ok by (simp add: arena_ok_def)
  have lv: "load32 m (unat (handle A + 248 + push_bit 3 (of_nat (chunk A)))) = Some (of_nat (left A))"
    "load32 m (unat (handle A + 248 + push_bit 3 (of_nat (chunk A))) + 4) = Some (of_nat (base A))"
    using ok unfolding chunk_addr [OF ok] by (simp_all add: arena_ok_def)
  have le: "n \<le> of_nat (left A) \<longleftrightarrow> unat n \<le> left A" using b(5) by (simp add: word_le_nat_alt)
  have un: "of_nat (unat n) = n" by simp
  have out: "i \<notin> own_bytes \<union> arena_words A" if "127840 \<le> i" for i
    using ok that by (auto simp: arena_ok_def own_bytes_def arena_words_def)
  show thesis
  proof (cases "unat n \<le> left A")
    case True
    then have A': "?A = A\<lparr>left := left A - unat n\<rparr>" by (simp add: next_arena_def)
    obtain m' where m': "store32 m (unat (handle A + 248 + push_bit 3 (of_nat (chunk A)))) (of_nat (left A) - n) = Some m'"
      "arena_ok (A\<lparr>left := left A - unat n\<rparr>) m'" "kept (arena_words A) m m'" "length m' = length m"
      using arena_take [OF ok True n(2)] unfolding un by blast
    let ?p = "of_nat (left A) - n + of_nat (base A) :: u32"
    have p: "?p = of_nat (base A + (left A - unat n))" using True by (simp add: of_nat_diff)
    have up: "unat ?p = base A + (left A - unat n)" unfolding p using b True n(2) by (intro unat_of_nat_small) simp
    show thesis
    proof (rule that)
      show "newchunk_nolongjmp vs sp m (handle A) n = Some (m', ?p)"
        unfolding newchunk_nolongjmp_def Let_def n(1) ix bind.bind_lunit using lv True le m'(1) by simp
      show "?p \<noteq> 0" using up b(6) True n(2) by auto
      show "kept (own_bytes \<union> arena_words A) m m'" by (rule kept_mono [OF m'(3)]) simp
      show "m' ! i = 0" if "i \<in> free A" "i < length m'" for i
        using ok that m'(3,4) out [OF b(7) [OF that(1)]] by (simp add: arena_ok_def kept_def)
    qed (use up m' A' in simp_all)
  next
    case False
    then have r: "chunk A < 15" "unat n \<le> chunk_size A" "brk A + chunk_size A \<le> 2 ^ 32" using room by (auto simp: has_room_def)
    have cs: "chunk_size A \<le> 2 ^ 25" using chunk_size_le [OF r(1)] by simp
    have ucs: "unat (of_nat (chunk_size A) :: u32) = chunk_size A" using cs by (intro unat_of_nat_small) simp
    obtain m1 m2 m3 m4 where g: "store32 m (unat (handle A) + 376) (of_nat (Suc (chunk A))) = Some m1"
      "calloc m1 1 (of_nat (chunk_size A)) = Some (of_nat (brk A), m2)" "load32 m2 (unat (handle A) + 376) = Some (of_nat (Suc (chunk A)))"
      "store32 m2 (unat (handle A + 248 + push_bit 3 (of_nat (Suc (chunk A)))) + 4) (of_nat (brk A)) = Some m3"
      "(of_nat (brk A) :: u32) \<noteq> 0"
      "store32 m3 (unat (handle A + 248 + push_bit 3 (of_nat (Suc (chunk A))))) (of_nat (chunk_size A)) = Some m4"
      "arena_ok (next_chunk A) m4" "kept (own_bytes \<union> arena_words A) m m4" "length m \<le> length m4"
      by (rule arena_grow [OF ok r(1,3)])
    obtain m' where m': "store32 m4 (unat (handle A + 248 + push_bit 3 (of_nat (Suc (chunk A))))) (of_nat (chunk_size A) - n) = Some m'"
      "arena_ok ?A m'" "kept (arena_words A) m4 m'" "length m' = length m4"
      using arena_take [OF g(7), of "unat n"] r(2) n(2) unfolding un next_arena_grow [OF False] arena_words_def by auto
    let ?p = "of_nat (chunk_size A) - n + of_nat (brk A) :: u32"
    note b4 = arena_bounds [OF g(7)]
    have p: "?p = of_nat (brk A + (chunk_size A - unat n))" using r(2) by (simp add: of_nat_diff)
    have up: "unat ?p = brk A + (chunk_size A - unat n)" unfolding p using b4 r(2) n(2) by (intro unat_of_nat_small) simp
    have i1: "\<not> 15 \<le> (of_nat (chunk A) :: u32)"
    proof -
      have "unat (of_nat (chunk A) :: u32) = chunk A" using r(1) by (intro unat_of_nat_small) simp
      with r(1) show ?thesis by (simp add: word_le_nat_alt)
    qed
    have i2: "of_nat (chunk A) + 1 = (of_nat (Suc (chunk A)) :: u32)" by simp
    have sz: "i32_shl 2048 (of_nat (chunk A)) = of_nat (chunk_size A)" using shl_chunk [OF r(1)] by (simp add: chunk_size_def)
    have ns: "\<not> of_nat (chunk_size A) < n" using ucs r(2) by (simp add: word_less_nat_alt)
    show thesis
    proof (rule that)
      show "newchunk_nolongjmp vs sp m (handle A) n = Some (m', ?p)"
        unfolding newchunk_nolongjmp_def Let_def n(1) ix bind.bind_lunit i2 sz
        using lv False le g(1-6) m'(1) ns i1 by (simp del: of_nat_Suc)
      show "?p \<noteq> 0" using up b b4 by auto
      show "kept (own_bytes \<union> arena_words A) m m'"
        by (rule kept_trans [OF g(8) kept_mono [OF m'(3)]]) simp
      show "m' ! i = 0" if i: "i \<in> free A" "i < length m'" for i
      proof (cases "brk A \<le> i")
        case True
        then have "i \<in> free (next_chunk A)" by (auto simp: free_def)
        then have "m4 ! i = 0" using g(7) i(2) m'(4) unfolding arena_ok_def by simp
        then show ?thesis using m'(3,4) i(2) out [OF b(7) [OF i(1)]] by (simp add: kept_def)
      next
        case False
        then have old: "i < length m" using b(2) by simp
        with ok i(1) have "m ! i = 0" by (simp add: arena_ok_def)
        with kept_trans [OF g(8) kept_mono [OF m'(3), of "own_bytes \<union> arena_words A"]] old out [OF b(7) [OF i(1)]]
        show ?thesis by (simp add: kept_def)
      qed
    qed (use up m' False g(9) in \<open>simp_all add: next_arena_grow\<close>)
  qed
qed

text \<open>A new piece of memory: zero, out of the free bytes, and free no more.\<close>

definition piece :: "arena \<Rightarrow> u32 \<Rightarrow> nat \<Rightarrow> bool" where
  "piece A p n \<longleftrightarrow> 127840 \<le> unat p \<and> unat p + n \<le> brk A \<and> span (unat p) n \<inter> free A = {}"

definition fresh :: "arena \<Rightarrow> nat \<Rightarrow> memory \<Rightarrow> memory \<Rightarrow> u32 \<Rightarrow> bool" where
  "fresh A n m m' p \<longleftrightarrow> p \<noteq> 0 \<and> arena_ok (next_arena n A) m' \<and> kept (own_bytes \<union> arena_words A) m m' \<and>
     length m \<le> length m' \<and> piece (next_arena n A) p n \<and> span (unat p) n \<subseteq> free A \<and>
     free (next_arena n A) \<subseteq> free A \<and> brk A \<le> brk (next_arena n A) \<and> (\<forall>i \<in> span (unat p) n. m' ! i = 0)"

lemma newchunk_fresh:
  assumes ok: "arena_ok A m" and room: "has_room (unat n) A" and n: "(n + 3) AND - 4 = n" "0 < unat n"
  obtains m' p where "newchunk_nolongjmp vs sp m (handle A) n = Some (m', p)" "fresh A (unat n) m m' p"
proof -
  obtain m' p where r: "newchunk_nolongjmp vs sp m (handle A) n = Some (m', p)" "p \<noteq> 0"
    "unat p = base (next_arena (unat n) A) + left (next_arena (unat n) A)"
    "arena_ok (next_arena (unat n) A) m'" "kept (own_bytes \<union> arena_words A) m m'" "length m \<le> length m'"
    "\<And>i. i \<in> free A \<Longrightarrow> i < length m' \<Longrightarrow> m' ! i = 0"
    by (rule newchunk_at [OF ok room n, of vs sp]) (rule that)
  note b = arena_bounds [OF ok] and b' = arena_bounds [OF r(4)]
  have h: "unat (handle A) + 380 \<le> 125436" using ok by (simp add: arena_ok_def)
  note f = next_arena_free [OF room b(1) n(2), folded r(3)]
  have "m' ! i = 0" if "i \<in> span (unat p) (unat n)" for i
    using that f(1,4) b'(2) by (intro r(7)) auto
  moreover have "127840 \<le> unat p"
  proof (rule arena_bounds(7) [OF ok])
    have "unat p \<in> span (unat p) (unat n)" using n(2) by simp
    with f(1) show "unat p \<in> free A" by blast
  qed
  ultimately have "fresh A (unat n) m m' p" using r f by (simp add: fresh_def piece_def)
  with r(1) show thesis by (rule that)
qed

text \<open>Filling in its words.\<close>

fun put_words :: "memory \<Rightarrow> nat \<Rightarrow> (nat \<times> u32) list \<Rightarrow> memory option" where
  "put_words m p [] = Some m"
| "put_words m p ((off, v) # fs) = do { m \<leftarrow> store32 m (p + off) v; put_words m p fs }"

lemma put_words_kept:
  assumes "put_words m p fs = Some m'" "\<forall>(off, v) \<in> set fs. off + 4 \<le> n"
  shows "kept (span p n) m m'" "length m' = length m"
proof -
  have "kept (span p n) m m' \<and> length m' = length m"
    using assms
  proof (induction fs arbitrary: m)
    case (Cons x fs)
    obtain off v where x: "x = (off, v)" by (cases x)
    with Cons.prems(1) obtain m1 where m1: "store32 m (p + off) v = Some m1" "put_words m1 p fs = Some m'"
      by (auto simp: bind_eq_Some_conv)
    have "kept (span p n) m m1" by (rule kept_mono [OF kept_store32 [OF m1(1)]]) (use Cons.prems(2) x in auto)
    then show ?case using Cons.IH [OF m1(2)] Cons.prems(2) length_store32 [OF m1(1)] by (auto elim: kept_trans)
  qed simp
  then show "kept (span p n) m m'" "length m' = length m" by blast+
qed

lemma put_words_loads:
  assumes "\<forall>(off, v) \<in> set fs. 4 dvd off \<and> off + 4 \<le> n" "distinct (map fst fs)" "p + n \<le> length m"
  shows "\<exists>m'. put_words m p fs = Some m' \<and> (\<forall>off v. 4 dvd off \<longrightarrow> load32 m (p + off) = Some v \<longrightarrow>
    load32 m' (p + off) = Some (case map_of fs off of None \<Rightarrow> v | Some w \<Rightarrow> w))"
  using assms
proof (induction fs arbitrary: m)
  case (Cons x fs)
  obtain o1 w where x: "x = (o1, w)" by (cases x)
  then have o1: "4 dvd o1" "o1 + 4 \<le> n" using Cons.prems(1) by auto
  obtain m1 where m1: "store32 m (p + o1) w = Some m1" using store32_in [of "p + o1" m] o1 Cons.prems(3) by auto
  have "p + n \<le> length m1" using Cons.prems(3) length_store32 [OF m1] by simp
  then obtain m2 where m2: "put_words m1 p fs = Some m2" "\<And>off v. 4 dvd off \<Longrightarrow> load32 m1 (p + off) = Some v \<Longrightarrow>
    load32 m2 (p + off) = Some (case map_of fs off of None \<Rightarrow> v | Some w \<Rightarrow> w)"
    using Cons.IH [of m1] Cons.prems(1,2) by auto
  have "load32 m2 (p + off) = Some (case map_of (x # fs) off of None \<Rightarrow> v | Some w \<Rightarrow> w)"
    if "4 dvd off" "load32 m (p + off) = Some v" for off v
  proof (cases "off = o1")
    case True
    have "map_of fs o1 = None" using Cons.prems(2) x by (simp add: map_of_eq_None_iff)
    then show ?thesis using m2(2) [OF that(1), of w] load32_store32 [OF m1] True x by simp
  next
    case False
    then have "off + 4 \<le> o1 \<or> o1 + 4 \<le> off" using that(1) o1(1) by (auto simp: dvd_def)
    then have "load32 m1 (p + off) = Some v" by (intro kept_load32 [OF kept_store32 [OF m1] that(2)]) auto
    then show ?thesis using m2(2) [OF that(1)] False x by simp
  qed
  with m1 m2(1) x show ?case by auto
qed simp

lemma fresh_words:
  assumes fr: "fresh A n m m1 p" and fs: "\<forall>(off, v) \<in> set fs. 4 dvd off \<and> off + 4 \<le> n" "distinct (map fst fs)"
  obtains m' where "put_words m1 (unat p) fs = Some m'" "arena_ok (next_arena n A) m'"
    "kept (own_bytes \<union> arena_words A \<union> span (unat p) n) m m'" "length m \<le> length m'"
    "\<And>off. 4 dvd off \<Longrightarrow> off + 4 \<le> n \<Longrightarrow>
      load32 m' (unat p + off) = Some (case map_of fs off of None \<Rightarrow> 0 | Some v \<Rightarrow> v)"
proof -
  have f: "arena_ok (next_arena n A) m1" "kept (own_bytes \<union> arena_words A) m m1" "length m \<le> length m1"
    "127840 \<le> unat p" "unat p + n \<le> brk (next_arena n A)" "span (unat p) n \<inter> free (next_arena n A) = {}"
    "\<forall>i \<in> span (unat p) n. m1 ! i = 0"
    using fr by (simp_all add: fresh_def piece_def)
  have len: "unat p + n \<le> length m1" using f(5) arena_bounds(2) [OF f(1)] by simp
  obtain m' where m': "put_words m1 (unat p) fs = Some m'" "\<And>off v. 4 dvd off \<Longrightarrow> load32 m1 (unat p + off) = Some v \<Longrightarrow>
    load32 m' (unat p + off) = Some (case map_of fs off of None \<Rightarrow> v | Some w \<Rightarrow> w)"
    using put_words_loads [OF fs len] by blast
  have k: "kept (span (unat p) n) m1 m'" "length m' = length m1" by (rule put_words_kept [OF m'(1)], use fs(1) in auto)+
  have h: "unat (handle A) + 380 \<le> 125436" using f(1) by (simp add: arena_ok_def)
  have "arena_ok (next_arena n A) m'"
    by (rule arena_ok_kept [OF f(1) k]) (use f(4,6) h in \<open>auto simp: arena_words_def\<close>)
  moreover have "kept (own_bytes \<union> arena_words A \<union> span (unat p) n) m m'"
    by (rule kept_trans [OF kept_mono [OF f(2)] kept_mono [OF k(1)]]) auto
  moreover have "load32 m' (unat p + off) = Some (case map_of fs off of None \<Rightarrow> 0 | Some v \<Rightarrow> v)"
    if "4 dvd off" "off + 4 \<le> n" for off
    by (rule m'(2) [OF that(1)], rule load32_zero) (use f(7) len that(2) in auto)
  ultimately show thesis using that m'(1) f(3) k(2) by simp
qed

section \<open>Statement lists\<close>

text \<open>All that an allocation from the arena may change.\<close>

definition touched :: "arena \<Rightarrow> nat set" where
  "touched A = own_bytes \<union> arena_words A \<union> free A"

lemma touched_sub: "handle A' = handle A \<Longrightarrow> free A' \<subseteq> free A \<Longrightarrow> touched A' \<subseteq> touched A"
  by (auto simp: touched_def arena_words_def)

text \<open>Statements apart from each other, and from the bytes \<open>S\<close>.\<close>

fun spread :: "statement list \<Rightarrow> bool" where
  "spread [] = True"
| "spread (x # xs) = ((\<forall>y \<in> set xs. stmt_span x \<inter> stmt_span y = {}) \<and> spread xs)"

lemma spread_append [simp]:
  "spread (xs @ ys) \<longleftrightarrow> spread xs \<and> spread ys \<and> (\<forall>x \<in> set xs. \<forall>y \<in> set ys. stmt_span x \<inter> stmt_span y = {})"
  by (induction xs) auto

lemma sappend_at:
  assumes "stmts_at m p xs" "xs \<noteq> []" "store32 m (unat (fst (last xs)) + 16) q = Some m'"
  shows "sappend m p q = Some m'"
  using assms
proof (induction xs arbitrary: p)
  case (Cons x xs)
  obtain a c k where x: "x = (a, c, k)" by (cases x)
  obtain r where r: "p = a" "load32 m (unat a + 16) = Some r" "stmts_at m r xs" using Cons.prems(1) x by auto
  show ?case
  proof (cases "xs = []")
    case True
    with r Cons.prems(3) x show ?thesis by (subst sappend.simps) simp
  next
    case False
    then have "r \<noteq> 0" using r(3) by (cases xs) auto
    with Cons.IH [OF r(3) False] Cons.prems(3) False r(1,2) show ?thesis by (subst sappend.simps) simp
  qed
qed simp

lemma stmts_at_link:
  assumes "stmts_at m p xs" "stmts_at m q ys" "xs \<noteq> []" "spread (xs @ ys)"
    "store32 m (unat (fst (last xs)) + 16) q = Some m'"
  shows "stmts_at m' p (xs @ ys)"
proof -
  note k = kept_store32 [OF assms(5)]
  have lastspan: "span (unat (fst (last xs)) + 16) 4 \<subseteq> stmt_span (last xs)" by (auto simp: stmt_span_def)
  have ys: "stmts_at m' q ys"
  proof (rule stmts_at_kept [OF assms(2) k])
    fix y assume "y \<in> set ys"
    then have "stmt_span (last xs) \<inter> stmt_span y = {}" using assms(3,4) by simp
    with lastspan show "stmt_span y \<inter> span (unat (fst (last xs)) + 16) 4 = {}" by blast
  qed
  from assms(1,3,4) lastspan k load32_store32 [OF assms(5)] show ?thesis
  proof (induction xs arbitrary: p)
    case (Cons x xs)
    obtain a c d where x: "x = (a, c, d)" by (cases x)
    obtain r where r: "p = a" "a \<noteq> 0" "load32 m (unat a) = Some c" "load32 m (unat a + 12) = Some d"
      "load32 m (unat a + 16) = Some r" "stmts_at m r xs" using Cons.prems(1) x by auto
    show ?case
    proof (cases "xs = []")
      case True
      have "load32 m' (unat a) = Some c" "load32 m' (unat a + 12) = Some d"
        by (rule kept_load32 [OF Cons.prems(5)], use r True x in simp_all)+
      with True r ys Cons.prems(6) x show ?thesis by simp
    next
      case False
      have n: "stmt_span x \<inter> span (unat (fst (last xs)) + 16) 4 = {}"
      proof -
        have "stmt_span x \<inter> stmt_span (last xs) = {}" using Cons.prems(3) False by simp
        with Cons.prems(4) False show ?thesis by auto
      qed
      have "span (unat a + off) 4 \<inter> span (unat (fst (last xs)) + 16) 4 = {}" if "off + 4 \<le> 20" for off
        using n that x unfolding stmt_span_def by (auto simp: disjoint_iff)
      from this [of 0] this [of 12] this [of 16]
      have "load32 m' (unat a) = Some c" "load32 m' (unat a + 12) = Some d" "load32 m' (unat a + 16) = Some r"
        using False r x by (auto intro!: kept_load32 [OF Cons.prems(5)] simp del: span_disjoint)
      moreover have "stmts_at m' r (xs @ ys)"
        by (rule Cons.IH [OF r(6) False]) (use Cons.prems False in auto)
      ultimately show ?thesis using r x by simp
    qed
  qed simp
qed

section \<open>Statements from the arena\<close>

definition grows :: "arena \<Rightarrow> arena \<Rightarrow> bool" where
  "grows A A' \<longleftrightarrow> handle A' = handle A \<and> free A' \<subseteq> free A \<and> brk A \<le> brk A'"

lemma grows_refl [simp]: "grows A A"
  by (simp add: grows_def)

lemma grows_trans: "grows A A1 \<Longrightarrow> grows A1 A2 \<Longrightarrow> grows A A2"
  by (auto simp: grows_def)

lemma grows_touched: "grows A A' \<Longrightarrow> touched A' \<subseteq> touched A"
  by (intro touched_sub) (auto simp: grows_def)

lemma grows_piece: "grows A A' \<Longrightarrow> piece A p n \<Longrightarrow> piece A' p n"
  unfolding grows_def piece_def by (auto intro: order_trans)

lemma fresh_grows: "fresh A n m m' p \<Longrightarrow> grows A (next_arena n A)"
  by (simp add: fresh_def grows_def)

text \<open>A change inside a piece of the arena keeps it.\<close>

lemma piece_apart:
  assumes "arena_ok A m" "piece A p n"
  shows "span (unat p) n \<inter> touched A = {}"
  using assms by (auto simp: arena_ok_def piece_def touched_def arena_words_def own_bytes_def)

lemma arena_ok_piece:
  assumes "arena_ok A m" "kept S m m'" "length m' = length m" "S \<subseteq> span (unat p) n" "piece A p n"
  shows "arena_ok A m'"
proof -
  have "S \<inter> touched A = {}" using piece_apart [OF assms(1,5)] assms(4) by blast
  then show ?thesis using arena_ok_kept [OF assms(1-3)] by (simp add: touched_def Int_Un_distrib)
qed

text \<open>A list of statements \<open>xs\<close> at \<open>p\<close>, made from the arena \<open>A\<close>, of which \<open>A'\<close> is left.\<close>

definition built :: "arena \<Rightarrow> arena \<Rightarrow> memory \<Rightarrow> memory \<Rightarrow> statement list \<Rightarrow> u32 \<Rightarrow> bool" where
  "built A A' m m' xs p \<longleftrightarrow> grows A A' \<and> arena_ok A' m' \<and> kept (touched A) m m' \<and> length m \<le> length m' \<and>
     stmts_at m' p xs \<and> spread xs \<and> (\<forall>x \<in> set xs. stmt_span x \<subseteq> free A \<and> piece A' (fst x) 20)"

lemma fresh_touched:
  assumes "fresh A n m m1 p" "kept (own_bytes \<union> arena_words A \<union> span (unat p) n) m m'"
  shows "kept (touched A) m m'"
  by (rule kept_mono [OF assms(2)]) (use assms(1) in \<open>auto simp: touched_def fresh_def\<close>)

lemma newchunk_Ret:
  "newchunk_nolongjmp vs sp m h n = Some (m', p) \<Longrightarrow> p \<noteq> 0 \<Longrightarrow> newchunk vs sn sp m h n = Ret (m', p)"
  by (simp add: newchunk_def)

lemma new_stmt_built:
  assumes ok: "arena_ok A m" and room: "has_room 20 A"
  obtains m' p where "new_stmt vs sn sp m (handle A) c k = Ret (m', p)" "built A (next_arena 20 A) m m' [(p, c, k)] p"
proof -
  obtain m1 p where 1: "newchunk_nolongjmp vs sp m (handle A) 20 = Some (m1, p)" "fresh A 20 m m1 p"
    using newchunk_fresh [OF ok, of 20 vs sp] room by auto
  obtain m' where 2: "put_words m1 (unat p) [(12, k), (0, c)] = Some m'" "arena_ok (next_arena 20 A) m'"
    "kept (own_bytes \<union> arena_words A \<union> span (unat p) 20) m m'" "length m \<le> length m'"
    "\<And>off. 4 dvd off \<Longrightarrow> off + 4 \<le> 20 \<Longrightarrow>
      load32 m' (unat p + off) = Some (case map_of [(12, k), (0, c)] off of None \<Rightarrow> 0 | Some v \<Rightarrow> v)"
    by (rule fresh_words [OF 1(2), of "[(12, k), (0, c)]"]) auto
  have p0: "p \<noteq> 0" using 1(2) by (simp add: fresh_def)
  have "new_stmt vs sn sp m (handle A) c k = Ret (m', p)"
    unfolding new_stmt_def newchunk_Ret [OF 1(1) p0] jump_bind.simps using 2(1) by (simp add: bind_eq_Some_conv) auto
  moreover have "built A (next_arena 20 A) m m' [(p, c, k)] p"
    using 1(2) p0 2(2,4) fresh_touched [OF 1(2) 2(3)] fresh_grows [OF 1(2)] 2(5) [of 0] 2(5) [of 12] 2(5) [of 16]
    by (simp add: built_def stmt_span_def fresh_def)
  ultimately show thesis by (rule that)
qed

lemma built_append:
  assumes 1: "built A A1 m m1 xs p" "xs \<noteq> []" and 2: "built A1 A2 m1 m2 ys q"
  obtains m' where "sappend m2 p q = Some m'" "built A A2 m m' (xs @ ys) p"
proof -
  note b1 = 1(1) [unfolded built_def] and b2 = 2 [unfolded built_def]
  have g1: "grows A A1" "grows A1 A2" using b1 b2 by blast+
  have pc: "piece A1 (fst x) 20" "stmt_span x = span (unat (fst x)) 20" if "x \<in> set xs" for x
    using b1 that by (simp_all add: stmt_span_def)
  have ok1: "arena_ok A1 m1" using b1 by blast
  have xs2: "stmts_at m2 p xs"
    by (rule stmts_at_kept [of m1 _ _ "touched A1"]) (use b1 b2 piece_apart [OF ok1 pc(1)] pc(2) in auto)
  have sp: "spread (xs @ ys)"
  proof -
    have "stmt_span x \<inter> stmt_span y = {}" if x: "x \<in> set xs" and y: "y \<in> set ys" for x y
    proof -
      have "stmt_span y \<subseteq> touched A1" using b2 y by (auto simp: touched_def)
      with piece_apart [OF ok1 pc(1) [OF x]] pc(2) [OF x] show ?thesis by blast
    qed
    with b1 b2 show ?thesis by simp
  qed
  define l where "l = fst (last xs)"
  have lin: "last xs \<in> set xs" using 1(2) by simp
  have pl: "piece A2 l 20" using grows_piece [OF g1(2) pc(1) [OF lin]] by (simp add: l_def)
  have ok2: "arena_ok A2 m2" using b2 by blast
  have "unat l + 20 \<le> length m2" using pl arena_bounds(2) [OF ok2] by (simp add: piece_def)
  then obtain m' where m': "store32 m2 (unat l + 16) q = Some m'" using store32_in [of "unat l + 16" m2] by auto
  have len: "length m' = length m2" by (rule length_store32 [OF m'])
  have st: "stmts_at m' p (xs @ ys)"
    by (rule stmts_at_link [OF xs2 _ 1(2) sp m' [unfolded l_def]]) (use b2 in blast)
  have ok': "arena_ok A2 m'" by (rule arena_ok_piece [OF ok2 kept_store32 [OF m'] len _ pl]) simp
  have "kept (touched A) m1 m2" by (rule kept_mono [OF _ grows_touched [OF g1(1)]]) (use b2 in blast)
  moreover have "kept (touched A) m2 m'"
  proof (rule kept_mono [OF kept_store32 [OF m']])
    have "span (unat l + 16) 4 \<subseteq> stmt_span (last xs)" by (auto simp: stmt_span_def l_def)
    moreover have "stmt_span (last xs) \<subseteq> free A" using b1 lin by blast
    ultimately show "span (unat l + 16) 4 \<subseteq> touched A" by (auto simp: touched_def)
  qed
  ultimately have k: "kept (touched A) m m'" using b1 by (blast intro: kept_trans)
  have "\<forall>x \<in> set (xs @ ys). stmt_span x \<subseteq> free A \<and> piece A2 (fst x) 20"
    using b1 b2 g1 grows_piece [OF g1(2)] unfolding grows_def by (simp add: ball_Un) blast
  then have "built A A2 m m' (xs @ ys) p"
    using grows_trans [OF g1] ok' k b1 b2 len st sp unfolding built_def by auto
  moreover have "sappend m2 p q = Some m'" by (rule sappend_at [OF xs2 1(2) m' [unfolded l_def]])
  ultimately show thesis using that by blast
qed

end
