(* ===== verification/Codegen_Tests.thy ===== *)
theory Codegen_Tests
  imports Arena
begin

text \<open>
  The statements and blocks that the tests of the code generator make from the arena
  (\<open>_gen_load_a\<close>, \<open>_gen_cmp\<close>, \<open>_gen_mcmp\<close>, \<open>_gen_ncmp\<close> of \<open>src/internal/bpf.go\<close>, modelled in
  \<open>Codegen_Blocks\<close>), for a link layer whose header has a fixed length (\<open>link_at\<close>): a load builds a
  list of statements (\<open>gen_load_a_built\<close>), and a test a block with the statements, the comparison and
  the value of \<open>test_body\<close>, \<open>test_code\<close> and \<open>test_value\<close> (\<open>gen_test_made\<close>).
\<close>

section \<open>Loads\<close>

text \<open>
  A link layer without variable parts: the four flags of the handle are 0, and \<open>c\<close> are the constant
  offsets.
\<close>

definition link_at :: "(nat \<Rightarrow> u32) \<Rightarrow> u32 \<Rightarrow> memory \<Rightarrow> bool" where
  "link_at c h m \<longleftrightarrow> unat h + 380 \<le> 125436 \<and> (\<forall>off \<in> {60, 72, 96, 108}. load32 m (unat h + off) = Some 0) \<and>
     (\<forall>off \<in> {64, 76, 100, 112, 172, 176}. load32 m (unat h + off) = Some (c off))"

text \<open>The words of the handle that say which link layer it is: without labels, encapsulation or a header in front.\<close>

definition link_words :: "u32 \<Rightarrow> u32 \<Rightarrow> memory \<Rightarrow> bool" where
  "link_words dlt h m \<longleftrightarrow> load32 m (unat h + 24) = Some dlt \<and> load32 m (unat h + 28) = Some dlt \<and>
     load32 m (unat h + 44) = Some 0 \<and> load32 m (unat h + 124) = Some 0"

lemma handle_word_apart:
  assumes "arena_ok A m" "off + 4 \<le> 248"
  shows "span (unat (handle A) + off) 4 \<inter> touched A = {}"
proof -
  have h: "unat (handle A) + 380 \<le> 125436" using assms(1) by (simp add: arena_ok_def)
  have "span (unat (handle A) + off) 4 \<inter> free A = {}"
  proof -
    have "i \<notin> span (unat (handle A) + off) 4" if "i \<in> free A" for i
      using arena_bounds(7) [OF assms(1) that] h assms(2) by simp
    then show ?thesis by blast
  qed
  with h assms(2) show ?thesis
    unfolding touched_def Int_Un_distrib Un_empty by (auto simp: arena_words_def)
qed

lemma link_at_kept:
  assumes "link_at c (handle A) m" "arena_ok A m" "kept (touched A) m m'"
  shows "link_at c (handle A) m'"
  using assms(1) unfolding link_at_def by (auto intro!: kept_load32 [OF assms(3)] handle_word_apart [OF assms(2)])

text \<open>The offset of a header, and the statements that load from it.\<close>

definition load_offset :: "(nat \<Rightarrow> u32) \<Rightarrow> u32 \<Rightarrow> u32 \<Rightarrow> u32" where
  "load_offset c rel off =
     (if rel = 1 then c 64 + off else if rel = 2 then c 76 + off else if rel = 3 then c 100 + off
      else if rel = 4 then c 172 + (off + c 100) - 4 else if rel = 5 then c 112 + off
      else if rel = 6 \<or> rel = 8 then c 172 + (c 100 + off) else if rel = 7 then c 176 + (c 100 + off)
      else if rel = 9 then c 172 + (off + c 100) + 40 else off)"

definition load_body :: "(nat \<Rightarrow> u32) \<Rightarrow> u32 \<Rightarrow> u32 \<Rightarrow> u32 \<Rightarrow> (u32 \<times> u32) list" where
  "load_body c rel off sz =
     (if rel = 8 then [(177, c 172 + c 100), (sz OR 64, load_offset c rel off)]
      else [(sz OR 32, load_offset c rel off)])"

definition load_requests :: "u32 \<Rightarrow> nat list" where
  "load_requests rel = (if rel = 8 then [20, 20] else [20])"

lemma built_ok: "built A A' m m' xs p \<Longrightarrow> arena_ok A' m'"
  by (simp add: built_def)

lemma built_link:
  "built A A' m m' xs p \<Longrightarrow> arena_ok A m \<Longrightarrow> link_at c (handle A) m \<Longrightarrow> link_at c (handle A') m'"
  unfolding built_def grows_def using link_at_kept by metis

lemma gen_load_absoffsetrel_plain:
  assumes ok: "arena_ok A m" and room: "has_room 20 A" and sz: "sz \<in> {0, 8, 16}"
  obtains m' p where "gen_load_absoffsetrel vs sn sp m (handle A) 0 k sz = Ret (m', p)"
    "built A (next_arena 20 A) m m' [(p, sz OR 32, k)] p"
proof -
  obtain m' p where r: "new_stmt vs sn (sp - 16) m (handle A) (sz OR 32) k = Ret (m', p)"
    "built A (next_arena 20 A) m m' [(p, sz OR 32, k)] p"
    by (rule new_stmt_built [OF ok room, of vs sn "sp - 16" "sz OR 32" k])
  have "\<not> sz > 16" "i32_shl 1 sz AND 65793 \<noteq> 0" using sz by (auto simp: i32_shl_def)
  then have "gen_load_absoffsetrel vs sn sp m (handle A) 0 k sz = Ret (m', p)"
    using r(1) by (simp add: gen_load_absoffsetrel_def Let_def)
  then show thesis using r(2) by (rule that)
qed

lemma gen_load_absoffsetrel_rel:
  assumes 1: "built A A1 m m1 xs p" "xs \<noteq> []" "p \<noteq> 0" and room: "has_room 20 A1" and sz: "sz \<in> {0, 8, 16}"
  obtains m' q where "gen_load_absoffsetrel vs sn sp m1 (handle A1) p k sz = Ret (m', p)"
    "built A (next_arena 20 A1) m m' (xs @ [(q, sz OR 64, k)]) p"
proof -
  obtain m2 q where r: "new_stmt vs sn (sp - 16) m1 (handle A1) (sz OR 64) k = Ret (m2, q)"
    "built A1 (next_arena 20 A1) m1 m2 [(q, sz OR 64, k)] q"
    by (rule new_stmt_built [OF built_ok [OF 1(1)] room, of vs sn "sp - 16" "sz OR 64" k])
  obtain m' where m': "sappend m2 p q = Some m'" "built A (next_arena 20 A1) m m' (xs @ [(q, sz OR 64, k)]) p"
    by (rule built_append [OF 1(1,2) r(2)])
  have "\<not> sz > 16" "i32_shl 1 sz AND 65793 \<noteq> 0" using sz by (auto simp: i32_shl_def)
  then have "gen_load_absoffsetrel vs sn sp m1 (handle A1) p k sz = Ret (m', p)"
    using r(1) m'(1) 1(3) by (simp add: gen_load_absoffsetrel_def Let_def)
  then show thesis using m'(2) by (rule that)
qed

lemma no_varpart:
  assumes "link_at c h m" "off \<in> {60, 72, 96, 108}"
  shows "gen_abs_offset_varpart vs sn sp m h (h + off) = Ret (m, 0)"
proof -
  have "unat (h + off) = unat h + unat off" using assms by (intro unat_add_no_wrap) (auto simp: link_at_def)
  with assms show ?thesis by (auto simp: gen_abs_offset_varpart_def link_at_def)
qed

lemma gen_load_a_built:
  assumes ok: "arena_ok A m" and link: "link_at c (handle A) m" and sz: "sz \<in> {0, 8, 16}"
    and room: "fits (load_requests rel) A"
  obtains m' p xs where "gen_load_a vs sn sp m (handle A) rel off sz = Ret (m', p)"
    "built A (after (load_requests rel) A) m m' xs p" "map snd xs = load_body c rel off sz" "p \<noteq> 0"
proof (cases "rel = 8")
  case True
  have room1: "has_room 20 A" "has_room 20 (next_arena 20 A)" using room True by (simp_all add: load_requests_def)
  obtain m1 p where r: "new_stmt vs sn sp m (handle A) 177 (c 172 + c 100) = Ret (m1, p)"
    "built A (next_arena 20 A) m m1 [(p, 177, c 172 + c 100)] p"
    by (rule new_stmt_built [OF ok room1(1), of vs sn sp 177 "c 172 + c 100"])
  have p0: "p \<noteq> 0" and len: "length m \<le> length m1" using r(2) by (simp_all add: built_def)
  have link1: "link_at c (handle A) m1" using built_link [OF r(2) ok link] by simp
  obtain m' q where r2: "gen_load_absoffsetrel vs sn sp m1 (handle (next_arena 20 A)) p (load_offset c 8 off) sz = Ret (m', p)"
    "built A (next_arena 20 (next_arena 20 A)) m m' ([(p, 177, c 172 + c 100)] @ [(q, sz OR 64, load_offset c 8 off)]) p"
    by (rule gen_load_absoffsetrel_rel [OF r(2) _ p0 room1(2) sz, of vs sn sp "load_offset c 8 off"]) simp
  have "gen_loadx_iphdrlen vs sn sp m (handle A) = Ret (m1, p)"
    using no_varpart [OF link, of 96 vs sn sp] link r(1) by (simp add: gen_loadx_iphdrlen_def link_at_def)
  then have "gen_load_a vs sn sp m (handle A) rel off sz = Ret (m', p)"
    using True link1 r2(1) by (simp add: gen_load_a_def link_at_def load_offset_def)
  moreover have "built A (after (load_requests rel) A) m m' [(p, 177, c 172 + c 100), (q, sz OR 64, load_offset c 8 off)] p"
    using r2(2) True by (simp add: load_requests_def)
  ultimately show thesis by (rule that) (use True p0 in \<open>simp_all add: load_body_def\<close>)
next
  case False
  have room1: "has_room 20 A" using room False by (simp add: load_requests_def)
  obtain m' p where r: "gen_load_absoffsetrel vs sn sp m (handle A) 0 (load_offset c rel off) sz = Ret (m', p)"
    "built A (next_arena 20 A) m m' [(p, sz OR 32, load_offset c rel off)] p"
    by (rule gen_load_absoffsetrel_plain [OF ok room1 sz, of vs sn sp "load_offset c rel off"])
  have "gen_load_a vs sn sp m (handle A) rel off sz = Ret (m', p)"
    using r(1) link False no_varpart [OF link, of _ vs sn sp]
    by (auto simp: gen_load_a_def link_at_def load_offset_def split: if_splits)
  moreover have "built A (after (load_requests rel) A) m m' [(p, sz OR 32, load_offset c rel off)] p"
    using r(2) False by (simp add: load_requests_def)
  ultimately show thesis by (rule that) (use False r(2) in \<open>simp_all add: load_body_def built_def\<close>)
qed

section \<open>Tests\<close>

text \<open>
  The tests of the code generator: a field of the packet compared with a value (\<open>_gen_cmp\<close>), also
  under a mask (\<open>_gen_mcmp\<close>) and with another relation (\<open>_gen_ncmp\<close>, the masks - 1 for none and the
  relations 16, 32, 48 and 64).
\<close>

datatype test =
    Cmp u32 u32 u32 u32
  | Mcmp u32 u32 u32 u32 u32
  | Ncmp u32 u32 u32 u32 u32 u32

fun gen_test :: "formatter \<Rightarrow> formatter \<Rightarrow> u32 \<Rightarrow> memory \<Rightarrow> u32 \<Rightarrow> test \<Rightarrow> (memory \<times> u32) jump" where
  "gen_test vs sn sp m h (Cmp rel off sz v) = gen_cmp vs sn sp m h rel off sz v"
| "gen_test vs sn sp m h (Mcmp rel off sz v msk) = gen_mcmp vs sn sp m h rel off sz v msk"
| "gen_test vs sn sp m h (Ncmp rel off sz msk jtype v) = gen_ncmp vs sn sp m h rel off sz msk jtype 0 v"

fun test_ok :: "test \<Rightarrow> bool" where
  "test_ok (Cmp rel off sz v) = (sz \<in> {0, 8, 16})"
| "test_ok (Mcmp rel off sz v msk) = (sz \<in> {0, 8, 16} \<and> msk \<noteq> 0)"
| "test_ok (Ncmp rel off sz msk jtype v) = (sz \<in> {0, 8, 16} \<and> jtype \<in> {16, 32, 48, 64})"

text \<open>The code of the block of a test: its statements, and its comparison.\<close>

definition masked :: "(u32 \<times> u32) list \<Rightarrow> u32 \<Rightarrow> (u32 \<times> u32) list" where
  "masked xs msk = (if msk \<noteq> - 1 then xs @ [(84, msk)] else xs)"

fun test_body :: "(nat \<Rightarrow> u32) \<Rightarrow> test \<Rightarrow> (u32 \<times> u32) list" where
  "test_body c (Cmp rel off sz v) = load_body c rel off sz"
| "test_body c (Mcmp rel off sz v msk) = masked (load_body c rel off sz) msk"
| "test_body c (Ncmp rel off sz msk jtype v) = masked (load_body c rel off sz) msk"

fun test_code :: "test \<Rightarrow> u32" where
  "test_code (Ncmp rel off sz msk jtype v) = jtype OR 5"
| "test_code t = 21"

fun test_value :: "test \<Rightarrow> u32" where
  "test_value (Cmp rel off sz v) = v"
| "test_value (Mcmp rel off sz v msk) = v"
| "test_value (Ncmp rel off sz msk jtype v) = v"

text \<open>Its requests to the arena.\<close>

definition mask_requests :: "u32 \<Rightarrow> nat list" where
  "mask_requests msk = (if msk \<noteq> - 1 then [20] else [])"

fun test_requests :: "test \<Rightarrow> nat list" where
  "test_requests (Cmp rel off sz v) = load_requests rel @ [212]"
| "test_requests (Mcmp rel off sz v msk) = load_requests rel @ mask_requests msk @ [212]"
| "test_requests (Ncmp rel off sz msk jtype v) = load_requests rel @ mask_requests msk @ [212]"

text \<open>A block made from the arena, with its statements.\<close>

definition made ::
  "arena \<Rightarrow> arena \<Rightarrow> memory \<Rightarrow> memory \<Rightarrow> statement list \<Rightarrow> u32 \<Rightarrow> u32 \<Rightarrow> u32 \<Rightarrow> bool" where
  "made A A' m m' xs code v b \<longleftrightarrow> grows A A' \<and> arena_ok A' m' \<and> kept (touched A) m m' \<and> length m \<le> length m' \<and>
     b \<noteq> 0 \<and> span (unat b) 212 \<subseteq> free A \<and> piece A' b 212 \<and>
     (\<forall>x \<in> set xs. stmt_span x \<subseteq> free A \<and> piece A' (fst x) 20 \<and> stmt_span x \<inter> span (unat b) 212 = {}) \<and>
     (\<exists>p. load32 m' (unat b + 4) = Some p \<and> stmts_at m' p xs) \<and>
     load32 m' (unat b + 8) = Some code \<and> load32 m' (unat b + 20) = Some v \<and> load32 m' (unat b + 96) = Some b \<and>
     (\<forall>off \<in> {24, 28, 32, 44, 60, 84, 208}. load32 m' (unat b + off) = Some 0)"

lemma add_block:
  assumes 1: "built A A1 m m1 xs p" and room: "has_room 212 A1"
    and fs: "\<And>b. fs b \<in> {[(8, code), (20, v), (4, p), (96, b)], [(20, v), (4, p), (8, code), (96, b)]} \<or>
      p = 0 \<and> fs b = [(8, code), (20, v), (96, b)]"
  obtains m2 b m' where "newchunk_nolongjmp vs sp m1 (handle A1) 212 = Some (m2, b)" "b \<noteq> 0"
    "put_words m2 (unat b) (fs b) = Some m'"
    "made A (next_arena 212 A1) m m' xs code v b"
proof -
  note b1 = 1 [unfolded built_def]
  have ok1: "arena_ok A1 m1" and g1: "grows A A1" using b1 by blast+
  obtain m2 b where 2: "newchunk_nolongjmp vs sp m1 (handle A1) 212 = Some (m2, b)" "fresh A1 212 m1 m2 b"
    using newchunk_fresh [OF ok1, of 212 vs sp] room by auto
  note f = 2(2) [unfolded fresh_def]
  have b0: "b \<noteq> 0" using f by blast
  have mp: "(case map_of (fs b) off of None \<Rightarrow> 0 | Some v \<Rightarrow> v) =
      (case map_of [(8, code), (20, v), (4, p), (96, b)] off of None \<Rightarrow> 0 | Some v \<Rightarrow> v)" for off
    using fs [of b] by auto
  obtain m' where 3: "put_words m2 (unat b) (fs b) = Some m'" "arena_ok (next_arena 212 A1) m'"
    "kept (own_bytes \<union> arena_words A1 \<union> span (unat b) 212) m1 m'" "length m1 \<le> length m'"
    "\<And>off. 4 dvd off \<Longrightarrow> off + 4 \<le> 212 \<Longrightarrow>
      load32 m' (unat b + off) = Some (case map_of (fs b) off of None \<Rightarrow> 0 | Some v \<Rightarrow> v)"
    by (rule fresh_words [OF 2(2), of "fs b"]) (use fs [of b] in auto)
  have k1: "kept (touched A1) m1 m'" by (rule fresh_touched [OF 2(2) 3(3)])
  have g2: "grows A1 (next_arena 212 A1)" by (rule fresh_grows [OF 2(2)])
  have k: "kept (touched A) m m'"
    by (rule kept_trans [OF _ kept_mono [OF k1 grows_touched [OF g1]]]) (use b1 in blast)
  have st: "stmt_span x \<inter> touched A1 = {}" if "x \<in> set xs" for x
    using piece_apart [OF ok1, of "fst x" 20] b1 that by (simp add: stmt_span_def)
  have "stmts_at m' p xs" by (rule stmts_at_kept [OF _ k1 st]) (use b1 in blast)
  moreover have "stmt_span x \<inter> span (unat b) 212 = {}" if "x \<in> set xs" for x
    using st [OF that] f by (auto simp: touched_def)
  moreover have "span (unat b) 212 \<subseteq> free A" using f g1 by (auto simp: grows_def)
  moreover have "stmt_span x \<subseteq> free A" "piece (next_arena 212 A1) (fst x) 20" if "x \<in> set xs" for x
    using b1 that grows_piece [OF g2] by blast+
  ultimately have "made A (next_arena 212 A1) m m' xs code v b"
    using grows_trans [OF g1 g2] 3(2,4) k b1 b0 f 3(5) [of 4] 3(5) [of 8] 3(5) [of 20] 3(5) [of 96] 3(5) [of 24]
      3(5) [of 28] 3(5) [of 32] 3(5) [of 44] 3(5) [of 60] 3(5) [of 84] 3(5) [of 208]
    unfolding made_def mp by simp
  with 2(1) b0 3(1) show thesis by (rule that)
qed

lemma lift_eq_Ret: "lift x = Ret v \<longleftrightarrow> x = Some v"
  by (cases x) simp_all

lemma lift_bind: "lift (Option.bind x f) = jump_bind (lift x) (\<lambda>v. lift (f v))"
  by (cases x) simp_all

lemma add_mask:
  assumes 1: "built A A1 m m1 xs p" "p \<noteq> 0" and room: "fits (mask_requests msk) A1"
  obtains m' ys where "(if msk \<noteq> - 1 then append_stmt vs sn sp (handle A1) p m1 84 msk else Ret m1) = Ret m'"
    "built A (after (mask_requests msk) A1) m m' ys p" "map snd ys = masked (map snd xs) msk"
proof (cases "msk = - 1")
  case True
  then show thesis using that [of m1 xs] 1 by (simp add: mask_requests_def masked_def)
next
  case False
  have xs: "xs \<noteq> []" using 1 by (auto simp: built_def)
  obtain m2 q where r: "new_stmt vs sn sp m1 (handle A1) 84 msk = Ret (m2, q)"
    "built A1 (next_arena 20 A1) m1 m2 [(q, 84, msk)] q"
    by (rule new_stmt_built [OF built_ok [OF 1(1)], of vs sn sp 84 msk]) (use room False in \<open>simp_all add: mask_requests_def\<close>)
  obtain m' where m': "sappend m2 p q = Some m'" "built A (next_arena 20 A1) m m' (xs @ [(q, 84, msk)]) p"
    by (rule built_append [OF 1(1) xs r(2)])
  have "append_stmt vs sn sp (handle A1) p m1 84 msk = Ret m'"
    using r(1) m'(1) by (auto simp: append_stmt_def new_stmt_def jump_bind_eq_Ret lift_eq_Ret bind_eq_Some_conv)
  with False m'(2) show thesis
    using that [of m' "xs @ [(q, 84, msk)]"] by (simp add: mask_requests_def masked_def)
qed

lemma gen_cmp_made:
  assumes ok: "arena_ok A m" and link: "link_at c (handle A) m" and sz: "sz \<in> {0, 8, 16}"
    and room: "fits (load_requests rel @ [212]) A"
  obtains m' b xs where "gen_cmp vs sn sp m (handle A) rel off sz v = Ret (m', b)"
    "made A (after (load_requests rel @ [212]) A) m m' xs 21 v b" "map snd xs = load_body c rel off sz"
proof -
  have r1: "fits (load_requests rel) A" using room by simp
  obtain m1 p xs where l: "gen_load_a vs sn sp m (handle A) rel off sz = Ret (m1, p)"
    "built A (after (load_requests rel) A) m m1 xs p" "map snd xs = load_body c rel off sz" "p \<noteq> 0"
    by (rule gen_load_a_built [OF ok link sz r1, of vs sn sp off])
  have len: "length m \<le> length m1" using l(2) by (simp add: built_def)
  have r2: "has_room 212 (after (load_requests rel) A)" using room by simp
  obtain m2 b m' where b: "newchunk_nolongjmp vs sp m1 (handle (after (load_requests rel) A)) 212 = Some (m2, b)" "b \<noteq> 0"
    "put_words m2 (unat b) [(8, 21), (20, v), (4, p), (96, b)] = Some m'"
    "made A (next_arena 212 (after (load_requests rel) A)) m m' xs 21 v b"
    by (rule add_block [OF l(2) r2, of "\<lambda>b. [(8, 21), (20, v), (4, p), (96, b)]" 21 v vs sp]) auto
  have "gen_cmp vs sn sp m (handle A) rel off sz v = Ret (m', b)"
    using l(1) newchunk_Ret [OF b(1,2)] b(3) by (auto simp: gen_cmp_def bind_eq_Some_conv lift_def split: option.splits)
  moreover have "made A (after (load_requests rel @ [212]) A) m m' xs 21 v b" using b(4) by simp
  ultimately show thesis using l(3) by (rule that)
qed

lemma gen_ncmp_made:
  assumes ok: "arena_ok A m" and link: "link_at c (handle A) m" and sz: "sz \<in> {0, 8, 16}"
    and room: "fits (load_requests rel @ mask_requests msk @ [212]) A"
  obtains m' b xs where "gen_ncmp vs sn sp m (handle A) rel off sz msk jtype 0 v = Ret (m', b)"
    "made A (after (load_requests rel @ mask_requests msk @ [212]) A) m m' xs (jtype OR 5) v b"
    "map snd xs = masked (load_body c rel off sz) msk"
proof -
  let ?A = "after (load_requests rel) A"
  have r1: "fits (load_requests rel) A" using room by simp
  obtain m1 p xs where l: "gen_load_a vs sn sp m (handle A) rel off sz = Ret (m1, p)"
    "built A ?A m m1 xs p" "map snd xs = load_body c rel off sz" "p \<noteq> 0"
    by (rule gen_load_a_built [OF ok link sz r1, of vs sn sp off])
  have len: "length m \<le> length m1" using l(2) by (simp add: built_def)
  have r2: "fits (mask_requests msk) ?A" using room by simp
  obtain m2 ys where y: "(if msk \<noteq> - 1 then append_stmt vs sn sp (handle ?A) p m1 84 msk else Ret m1) = Ret m2"
    "built A (after (mask_requests msk) ?A) m m2 ys p" "map snd ys = masked (map snd xs) msk"
    by (rule add_mask [OF l(2,4) r2, of vs sn sp])
  have len2: "length m \<le> length m2" using y(2) by (simp add: built_def)
  have r3: "has_room 212 (after (mask_requests msk) ?A)" using room by simp
  obtain m3 b m' where b: "newchunk_nolongjmp vs sp m2 (handle (after (mask_requests msk) ?A)) 212 = Some (m3, b)" "b \<noteq> 0"
    "put_words m3 (unat b) [(20, v), (4, p), (8, jtype OR 5), (96, b)] = Some m'"
    "made A (next_arena 212 (after (mask_requests msk) ?A)) m m' ys (jtype OR 5) v b"
    by (rule add_block [OF y(2) r3, of "\<lambda>b. [(20, v), (4, p), (8, jtype OR 5), (96, b)]" "jtype OR 5" v vs sp]) auto
  have "gen_ncmp vs sn sp m (handle A) rel off sz msk jtype 0 v = Ret (m', b)"
    using l(1) y(1) newchunk_Ret [OF b(1,2)] b(3)
    by (auto simp: gen_ncmp_def bind_eq_Some_conv lift_def split: option.splits if_splits)
  moreover have "made A (after (load_requests rel @ mask_requests msk @ [212]) A) m m' ys (jtype OR 5) v b" using b(4) by simp
  ultimately show thesis using y(3) l(3) by (simp add: that)
qed

lemma gen_test_made:
  assumes ok: "arena_ok A m" and link: "link_at c (handle A) m" and t: "test_ok t" "fits (test_requests t) A"
  obtains m' b xs where "gen_test vs sn sp m (handle A) t = Ret (m', b)"
    "made A (after (test_requests t) A) m m' xs (test_code t) (test_value t) b" "map snd xs = test_body c t"
proof (cases t)
  case (Cmp rel off sz v)
  then have "sz \<in> {0, 8, 16}" "fits (load_requests rel @ [212]) A" using t by simp_all
  then show thesis by (rule gen_cmp_made [OF ok link, of _ _ vs sn sp off v]) (use Cmp that in simp)
next
  case (Mcmp rel off sz v msk)
  then have "sz \<in> {0, 8, 16}" "fits (load_requests rel @ mask_requests msk @ [212]) A" using t by simp_all
  then show thesis
    by (rule gen_ncmp_made [OF ok link, of _ _ _ vs sn sp off 16 v]) (use Mcmp t(1) that in \<open>simp add: gen_mcmp_def\<close>)
next
  case (Ncmp rel off sz msk jtype v)
  then have "sz \<in> {0, 8, 16}" "fits (load_requests rel @ mask_requests msk @ [212]) A" using t by simp_all
  then show thesis by (rule gen_ncmp_made [OF ok link, of _ _ _ vs sn sp off jtype v]) (use Ncmp that in simp)
qed

text \<open>The reversed test is the negation.\<close>

lemma gen_ncmp_reverse:
  "turned \<noteq> 0 \<Longrightarrow> gen_ncmp vs sn sp m h rel off sz msk jtype turned v =
    jump_bind (gen_ncmp vs sn sp m h rel off sz msk jtype 0 v) (\<lambda>(m, b). lift (gen_not m b))"
  by (simp add: gen_ncmp_def jump_bind_assoc lift_bind split_def)

lemma gen_retblk_made:
  assumes ok: "arena_ok A m" and room: "has_room 212 A"
  obtains m' b where "gen_retblk vs sn sp m (handle A) v = Ret (m', b)" "made A (next_arena 212 A) m m' [] 6 v b"
proof -
  have z: "built A A m m [] 0" using ok by (simp add: built_def)
  obtain m2 b m' where b: "newchunk_nolongjmp vs sp m (handle A) 212 = Some (m2, b)" "b \<noteq> 0"
    "put_words m2 (unat b) [(8, 6), (20, v), (96, b)] = Some m'" "made A (next_arena 212 A) m m' [] 6 v b"
    by (rule add_block [OF z room, of "\<lambda>b. [(8, 6), (20, v), (96, b)]" 6 v vs sp]) auto
  have "gen_retblk vs sn sp m (handle A) v = Ret (m', b)"
    using newchunk_Ret [OF b(1,2)] b(3) by (auto simp: gen_retblk_def bind_eq_Some_conv lift_def split: option.splits)
  then show thesis using b(4) by (rule that)
qed

end
