(* ===== verification/Codegen_Expr.thy ===== *)
theory Codegen_Expr
  imports Codegen_Tests
begin

text \<open>
  The code of a filter expression (\<open>gen_expr\<close>): tests connected with \<open>_gen_and\<close>, \<open>_gen_or\<close> and
  \<open>_gen_not\<close> in the order in which the parser meets them. \<open>generated\<close> is the invariant: every block
  made so far is a piece of the arena with its own statements, and the connectives change none of
  the code of a block. \<open>makes\<close> is the result: the blocks of an expression form a fragment that evaluates
  the expression, and what was generated before is kept. It composes: the rules \<open>makes_leaf\<close>, \<open>makes_and\<close>,
  \<open>makes_or\<close> and \<open>makes_not\<close> give the code of every generator that is built from tests and connectives.
\<close>

section \<open>Generators\<close>

text \<open>
  A generator takes the memory and leaves the module or returns a block. Two of them in a connective, one
  after the other; the connective with its operands in the other order; and the negation of a block.
\<close>

type_synonym gen = "memory \<Rightarrow> (memory \<times> u32) jump"

definition joined :: "(memory \<Rightarrow> u32 \<Rightarrow> u32 \<Rightarrow> (memory \<times> u32) option) \<Rightarrow> gen \<Rightarrow> gen \<Rightarrow> gen" where
  "joined con f g m = jump_bind (f m) (\<lambda>(m, b0). jump_bind (g m) (\<lambda>(m, b1). lift (con m b0 b1)))"

definition swapped :: "(memory \<Rightarrow> u32 \<Rightarrow> u32 \<Rightarrow> 'a) \<Rightarrow> memory \<Rightarrow> u32 \<Rightarrow> u32 \<Rightarrow> 'a" where
  "swapped con m b0 b1 = con m b1 b0"

definition inverted :: "gen \<Rightarrow> gen" where
  "inverted f m = jump_bind (f m) (\<lambda>(m, b). lift (gen_not m b))"

section \<open>Filter expressions\<close>

text \<open>
  What the parser does with a filter expression: it generates the tests and connects them with
  \<open>_gen_and\<close>, \<open>_gen_or\<close> and \<open>_gen_not\<close>, from left to right.
\<close>

fun gen_expr :: "formatter \<Rightarrow> formatter \<Rightarrow> u32 \<Rightarrow> u32 \<Rightarrow> test cond \<Rightarrow> memory \<Rightarrow> (memory \<times> u32) jump" where
  "gen_expr vs sn sp h (Leaf t) m = gen_test vs sn sp m h t"
| "gen_expr vs sn sp h (Conj x y) m =
     jump_bind (gen_expr vs sn sp h x m) (\<lambda>(m, b0).
     jump_bind (gen_expr vs sn sp h y m) (\<lambda>(m, b1). lift (gen_and m b0 b1)))"
| "gen_expr vs sn sp h (Disj x y) m =
     jump_bind (gen_expr vs sn sp h x m) (\<lambda>(m, b0).
     jump_bind (gen_expr vs sn sp h y m) (\<lambda>(m, b1). lift (gen_or m b0 b1)))"
| "gen_expr vs sn sp h (cond.Neg x) m = jump_bind (gen_expr vs sn sp h x m) (\<lambda>(m, b). lift (gen_not m b))"

definition expr_requests :: "test cond \<Rightarrow> nat list" where
  "expr_requests e = concat (map test_requests (leaves e))"

lemma expr_requests_simps [simp]:
  "expr_requests (Leaf t) = test_requests t"
  "expr_requests (Conj x y) = expr_requests x @ expr_requests y"
  "expr_requests (Disj x y) = expr_requests x @ expr_requests y"
  "expr_requests (cond.Neg x) = expr_requests x"
  by (simp_all add: expr_requests_def)

text \<open>The words of a block that the connectives do not touch.\<close>

definition code_words :: "u32 \<Rightarrow> nat set" where
  "code_words b = span (unat b + 4) 8 \<union> span (unat b + 20) 16"

text \<open>
  The blocks generated so far: \<open>tst b\<close> is the test of the block \<open>b\<close>, and \<open>S b\<close> are its statements.
\<close>

definition block_made :: "(nat \<Rightarrow> u32) \<Rightarrow> arena \<Rightarrow> memory \<Rightarrow> u32 \<Rightarrow> test \<Rightarrow> statement list \<Rightarrow> bool" where
  "block_made c A m b t xs \<longleftrightarrow> test_ok t \<and> map snd xs = test_body c t \<and>
     load32 m (unat b + 8) = Some (test_code t) \<and> load32 m (unat b + 20) = Some (test_value t) \<and>
     (\<forall>off \<in> {24, 28, 32}. load32 m (unat b + off) = Some 0) \<and>
     (\<exists>p. load32 m (unat b + 4) = Some p \<and> stmts_at m p xs)"

definition generated ::
  "(nat \<Rightarrow> u32) \<Rightarrow> arena \<Rightarrow> u32 set \<Rightarrow> graph \<Rightarrow> (u32 \<Rightarrow> test) \<Rightarrow> (u32 \<Rightarrow> statement list) \<Rightarrow> memory \<Rightarrow> bool" where
  "generated c A B G tst S m \<longleftrightarrow> arena_ok A m \<and> link_at c (handle A) m \<and> finite B \<and> graph_at m B G \<and>
     (\<forall>b \<in> B. piece A b 212 \<and> block_made c A m b (tst b) (S b) \<and>
        (\<forall>x \<in> set (S b). piece A (fst x) 20 \<and> (\<forall>d \<in> B. stmt_span x \<inter> span (unat d) 212 = {})))"

lemma block_made_kept:
  assumes "block_made c A m b t xs" "kept T m m'" "T \<inter> code_words b = {}" "\<And>x. x \<in> set xs \<Longrightarrow> stmt_span x \<inter> T = {}"
  shows "block_made c A' m' b t xs"
proof -
  have "load32 m' (unat b + off) = Some v" if "load32 m (unat b + off) = Some v" "off \<in> {4, 8, 20, 24, 28, 32}" for off v
  proof (rule kept_load32 [OF assms(2) that(1)])
    have "span (unat b + off) 4 \<subseteq> code_words b" using that(2) by (auto simp: code_words_def)
    with assms(3) show "span (unat b + off) 4 \<inter> T = {}" by blast
  qed
  with assms(1) stmts_at_kept [OF _ assms(2,4)] show ?thesis unfolding block_made_def by blast
qed

lemma code_words_in: "code_words b \<subseteq> span (unat b) 212"
  by (auto simp: code_words_def)

lemma graph_words_in: "graph_words B \<subseteq> (\<Union>b \<in> B. span (unat b) 212)"
  unfolding graph_words_def block_fields_def by auto

lemma graph_code_words:
  assumes "graph_at m B G" "b \<in> B"
  shows "graph_words B \<inter> code_words b = {}"
proof -
  have "span (unat c + off) 4 \<inter> code_words b = {}" if "c \<in> B" "off \<in> block_fields" for c off
  proof (cases "c = b")
    case True
    with that(2) show ?thesis by (auto simp: block_fields_def code_words_def)
  next
    case False
    with assms that(1) have "unat b + 212 \<le> unat c \<or> unat c + 212 \<le> unat b" by (auto simp: graph_at_def)
    with that(2) show ?thesis by (auto simp: block_fields_def code_words_def)
  qed
  then show ?thesis unfolding graph_words_def by blast
qed

text \<open>The connectives keep what was generated.\<close>

lemma generated_edited:
  assumes g: "generated c A B G tst S m" and e: "graph_at m' B G'" "edited B m m'"
  shows "generated c A B G' tst S m'"
proof -
  note g1 = g [unfolded generated_def]
  have k: "kept (graph_words B) m m'" "length m' = length m" using e(2) by (simp_all add: edited_def)
  have ok: "arena_ok A m" using g1 by blast
  have ap: "graph_words B \<inter> touched A = {}"
    using graph_words_in [of B] piece_apart [OF ok] g1 by blast
  have ok': "arena_ok A m'" by (rule arena_ok_kept [OF ok k]) (use ap in \<open>auto simp: touched_def\<close>)
  have "load32 m' (unat (handle A) + off) = Some v"
    if "load32 m (unat (handle A) + off) = Some v" "off + 4 \<le> 248" for off v
  proof (rule kept_load32 [OF k(1) that(1)])
    have "span (unat (handle A) + off) 4 \<inter> span (unat b) 212 = {}" if "b \<in> B" for b
      using g1 that \<open>off + 4 \<le> 248\<close> by (auto simp: piece_def arena_ok_def)
    then show "span (unat (handle A) + off) 4 \<inter> graph_words B = {}" using graph_words_in [of B] by blast
  qed
  then have link: "link_at c (handle A) m'" using g1 by (auto simp: link_at_def)
  have "block_made c A m' b (tst b) (S b)" if b: "b \<in> B" for b
  proof (rule block_made_kept [OF _ k(1) graph_code_words [OF _ b]])
    show "block_made c A m b (tst b) (S b)" "graph_at m B G" using g1 b by blast+
    show "stmt_span x \<inter> graph_words B = {}" if "x \<in> set (S b)" for x
      using graph_words_in [of B] g1 b that by blast
  qed
  with g1 ok' link e(1) show ?thesis unfolding generated_def by blast
qed

text \<open>Taking more from the arena keeps it, too.\<close>

lemma generated_kept:
  assumes g: "generated c A B G tst S m" and n: "grows A A'" "arena_ok A' m'" "kept (touched A) m m'"
  shows "generated c A' B G tst S m'"
proof -
  note g1 = g [unfolded generated_def]
  have ok: "arena_ok A m" using g1 by blast
  have ap: "span (unat d) 212 \<inter> touched A = {}" if "d \<in> B" for d using piece_apart [OF ok] g1 that by blast
  have st: "stmt_span x \<inter> touched A = {}" if "d \<in> B" "x \<in> set (S d)" for d x
    using piece_apart [OF ok, of "fst x" 20] g1 that by (simp add: stmt_span_def)
  have ld: "load32 m' (unat d + off) = Some (G d off)" if "d \<in> B" "off \<in> block_fields" for d off
  proof (rule kept_load32 [OF n(3)])
    show "load32 m (unat d + off) = Some (G d off)" using g1 that by (auto simp: graph_at_def)
    have "span (unat d + off) 4 \<subseteq> span (unat d) 212" using block_fields_apart(2) [OF that(2)] by simp
    with ap [OF that(1)] show "span (unat d + off) 4 \<inter> touched A = {}" by blast
  qed
  have "graph_at m' B G"
    using g1 ld kept_length [OF n(3)] arena_bounds(3) [OF n(2)] by (auto simp: graph_at_def)
  moreover have "link_at c (handle A') m'" using link_at_kept [OF _ ok n(3)] g1 n(1) by (simp add: grows_def)
  moreover have "block_made c A' m' d (tst d) (S d)" if "d \<in> B" for d
    by (rule block_made_kept [OF _ n(3)]) (use g1 that ap [OF that] code_words_in [of d] st in \<open>blast+\<close>)
  moreover have "piece A' d 212" "\<And>x. x \<in> set (S d) \<Longrightarrow> piece A' (fst x) 20" if "d \<in> B" for d
    using g1 that grows_piece [OF n(1)] by blast+
  ultimately show ?thesis unfolding generated_def using g1 n(2) by simp
qed

lemma made_apart:
  assumes "generated c A B G tst S m" "made A A' m m' xs code v b" "d \<in> B"
  shows "span (unat d) 212 \<inter> span (unat b) 212 = {}" "d \<noteq> b"
    "x \<in> set (S d) \<Longrightarrow> stmt_span x \<inter> span (unat b) 212 = {}"
    "x \<in> set xs \<Longrightarrow> stmt_span x \<inter> span (unat d) 212 = {}"
proof -
  note g1 = assms(1) [unfolded generated_def] and n1 = assms(2) [unfolded made_def]
  have ok: "arena_ok A m" using g1 by blast
  have ap: "span (unat d) 212 \<inter> touched A = {}" using piece_apart [OF ok] g1 assms(3) by blast
  have bt: "span (unat b) 212 \<subseteq> touched A" using n1 by (auto simp: touched_def)
  with ap show db: "span (unat d) 212 \<inter> span (unat b) 212 = {}" by blast
  then show "d \<noteq> b" by auto
  show "stmt_span x \<inter> span (unat b) 212 = {}" if "x \<in> set (S d)"
  proof -
    have "stmt_span x \<inter> touched A = {}"
      using piece_apart [OF ok, of "fst x" 20] g1 assms(3) that by (simp add: stmt_span_def)
    with bt show ?thesis by blast
  qed
  show "stmt_span x \<inter> span (unat d) 212 = {}" if "x \<in> set xs"
  proof -
    have "stmt_span x \<subseteq> touched A" using n1 that by (auto simp: touched_def)
    with ap show ?thesis by blast
  qed
qed

text \<open>A test adds a block.\<close>

lemma generated_test:
  assumes g: "generated c A B G tst S m" and n: "made A A' m m' xs (test_code t) (test_value t) b"
    and t: "test_ok t" "map snd xs = test_body c t"
  shows "generated c A' (insert b B) (G(b := \<lambda>off. if off = 96 then b else 0)) (tst(b := t)) (S(b := xs)) m'"
    "b \<notin> B"
proof -
  note n1 = n [unfolded made_def] and ap = made_apart [OF g n]
  have k: "generated c A' B G tst S m'" by (rule generated_kept [OF g]) (use n1 in blast)+
  note g1 = k [unfolded generated_def]
  show nb: "b \<notin> B" using ap(2) by blast
  have ok: "arena_ok A' m'" using n1 by blast
  have "graph_at m' (insert b B) (G(b := \<lambda>off. if off = 96 then b else 0))"
    unfolding graph_at_def
  proof (intro conjI ballI impI)
    show "length m' \<le> 2 ^ 32" by (rule arena_bounds(3) [OF ok])
    fix d assume d: "d \<in> insert b B"
    show "d \<noteq> 0" using d n1 g1 by (auto simp: graph_at_def)
    have "piece A' d 212" using d n1 g1 by blast
    then show "unat d + 212 \<le> length m'" using arena_bounds(2) [OF ok] by (simp add: piece_def)
    show "load32 m' (unat d + off) = Some ((G(b := \<lambda>off. if off = 96 then b else 0)) d off)" if off: "off \<in> block_fields" for off
    proof (cases "d = b")
      case True
      with n1 off show ?thesis by (auto simp: block_fields_def)
    next
      case False
      with g1 d off show ?thesis by (auto simp: graph_at_def)
    qed
  next
    fix d e assume "d \<in> insert b B" "e \<in> insert b B" "d \<noteq> e"
    then show "unat d + 212 \<le> unat e \<or> unat e + 212 \<le> unat d"
      using g1 ap(1) [of d] ap(1) [of e] by (auto simp: graph_at_def)
  qed
  moreover have "block_made c A' m' b t xs" using n1 t by (simp add: block_made_def)
  moreover have "stmt_span x \<inter> span (unat b) 212 = {}" if "d \<in> B" "x \<in> set (S d)" for d x
    by (rule ap(3) [OF that])
  moreover have "stmt_span x \<inter> span (unat d) 212 = {}" if "d \<in> B" "x \<in> set xs" for d x
    by (rule ap(4) [OF that])
  ultimately show "generated c A' (insert b B) (G(b := \<lambda>off. if off = 96 then b else 0)) (tst(b := t)) (S(b := xs)) m'"
    unfolding generated_def using ok g1 n1 nb by auto
qed

lemma map_cond_leaves: "(\<And>x. x \<in> set (leaves d) \<Longrightarrow> f x = g x) \<Longrightarrow> map_cond f d = map_cond g d"
  by (induction d) auto

lemma holds_map: "holds (map_cond f d) ev = holds d (\<lambda>x. ev (f x))"
  by (induction d) auto

lemma holds_cong: "(\<And>x. x \<in> set (leaves d) \<Longrightarrow> ev x = ev' x) \<Longrightarrow> holds d ev = holds d ev'"
  by (induction d) auto

text \<open>All that generating code may change when the blocks \<open>B\<close> are there.\<close>

definition reach :: "arena \<Rightarrow> u32 set \<Rightarrow> nat set" where
  "reach A B = touched A \<union> (\<Union>b \<in> B. span (unat b) 212)"

lemma graph_words_reach: "graph_words B \<subseteq> reach A B"
  using graph_words_in [of B] by (auto simp: reach_def)

text \<open>
  The code of an expression: new blocks, one for each test, that form a fragment which evaluates
  the expression; the blocks that were there before are as they were.
\<close>

definition expr_made ::
  "(nat \<Rightarrow> u32) \<Rightarrow> arena \<Rightarrow> u32 set \<Rightarrow> graph \<Rightarrow> (u32 \<Rightarrow> test) \<Rightarrow> (u32 \<Rightarrow> statement list) \<Rightarrow> memory \<Rightarrow> test cond \<Rightarrow>
    arena \<Rightarrow> memory \<Rightarrow> u32 \<Rightarrow> u32 set \<Rightarrow> graph \<Rightarrow> (u32 \<Rightarrow> test) \<Rightarrow> (u32 \<Rightarrow> statement list) \<Rightarrow> bool" where
  "expr_made c A B G tst S m e A' m' b B' G' tst' S' \<longleftrightarrow> generated c A' B' G' tst' S' m' \<and> B \<subseteq> B' \<and>
     reach A' B' \<subseteq> reach A B \<and> handle A' = handle A \<and> kept (reach A B) m m' \<and> length m \<le> length m' \<and>
     card B' \<le> card B + length (leaves e) \<and>
     (\<forall>x \<in> B. tst' x = tst x \<and> S' x = S x \<and> (\<forall>off. G' x off = G x off)) \<and>
     (\<exists>d C T F. map_cond tst' d = e \<and> set (leaves d) \<subseteq> B' - B \<and> C \<subseteq> B' - B \<and> fragment G' C b T F (\<lambda>ev. holds d ev))"

lemma new_block_fragment:
  assumes "b \<noteq> 0" "\<And>off. G b off = (if off = 96 then b else 0)"
  shows "fragment G {b} b [(b, 60)] [(b, 84)] (\<lambda>ev. ev b)"
proof -
  have "leads_to G {b} [(b, 60)] [(b, 84)] ev b (ev b)" for ev
    by (rule option_bool_cases [of "ev b"]) (auto intro!: leads_Stop leads_True leads_False simp: taken_def)
  with assms show ?thesis by (simp add: fragment_def wired_def link_def jump_field_def follows_sense_def)
qed

text \<open>Two expressions, one after the other.\<close>

lemma expr_made_two:
  assumes x: "expr_made c A B G tst S m ex A1 m1 b0 B1 G1 tst1 S1"
    and y: "expr_made c A1 B1 G1 tst1 S1 m1 ey A2 m2 b1 B2 G2 tst2 S2"
  obtains dx C0 T0 F0 dy C1 T1 F1 where "map_cond tst2 dx = ex" "map_cond tst2 dy = ey"
    "set (leaves dx) \<subseteq> B2 - B" "set (leaves dy) \<subseteq> B2 - B" "C0 \<union> C1 \<subseteq> B2 - B" "C0 \<inter> C1 = {}"
    "fragment G2 C0 b0 T0 F0 (\<lambda>ev. holds dx ev)" "fragment G2 C1 b1 T1 F1 (\<lambda>ev. holds dy ev)"
proof -
  note x1 = x [unfolded expr_made_def] and y1 = y [unfolded expr_made_def]
  obtain dx C0 T0 F0 where 0: "map_cond tst1 dx = ex" "set (leaves dx) \<subseteq> B1 - B" "C0 \<subseteq> B1 - B"
    "fragment G1 C0 b0 T0 F0 (\<lambda>ev. holds dx ev)" using x1 by blast
  obtain dy C1 T1 F1 where 1: "map_cond tst2 dy = ey" "set (leaves dy) \<subseteq> B2 - B1" "C1 \<subseteq> B2 - B1"
    "fragment G2 C1 b1 T1 F1 (\<lambda>ev. holds dy ev)" using y1 by blast
  have sub: "B \<subseteq> B1" "B1 \<subseteq> B2" using x1 y1 by blast+
  have "map_cond tst2 dx = map_cond tst1 dx" by (rule map_cond_leaves) (use y1 0(2) in blast)
  then have m: "map_cond tst2 dx = ex" using 0(1) by simp
  have f: "fragment G2 C0 b0 T0 F0 (\<lambda>ev. holds dx ev)"
    by (rule fragment_frame [OF 0(4)]) (use y1 0(3) in blast)
  have s: "set (leaves dx) \<subseteq> B2 - B" "set (leaves dy) \<subseteq> B2 - B" "C0 \<union> C1 \<subseteq> B2 - B" "C0 \<inter> C1 = {}"
    using 0(2,3) 1(2,3) sub by blast+
  show thesis by (rule that [OF m 1(1) s f 1(4)])
qed

lemma expr_made_join:
  assumes x: "expr_made c A B G tst S m ex A1 m1 b0 B1 G1 tst1 S1"
    and y: "expr_made c A1 B1 G1 tst1 S1 m1 ey A2 m2 b1 B2 G2 tst2 S2"
    and r: "graph_at m3 B2 G3" "edited B2 m2 m3" "\<forall>x off. x \<notin> C0 \<union> C1 \<longrightarrow> G3 x off = G2 x off" "C0 \<union> C1 \<subseteq> B2 - B"
    and e: "length (leaves e) = length (leaves ex) + length (leaves ey)"
    and d: "map_cond tst2 d = e" "set (leaves d) \<subseteq> B2 - B" "C \<subseteq> B2 - B" "fragment G3 C b T F (\<lambda>ev. holds d ev)"
  shows "expr_made c A B G tst S m e A2 m3 b B2 G3 tst2 S2"
proof -
  note x1 = x [unfolded expr_made_def] and y1 = y [unfolded expr_made_def]
  have "generated c A2 B2 G3 tst2 S2 m3" by (rule generated_edited [OF _ r(1,2)]) (use y1 in blast)
  moreover have "kept (reach A B) m m3"
  proof -
    have "kept (reach A B) m1 m2" by (rule kept_mono [of "reach A1 B1"]) (use x1 y1 in blast)+
    moreover have "kept (reach A B) m2 m3"
      by (rule kept_mono [of "graph_words B2"]) (use r(2) graph_words_reach [of B2 A2] x1 y1 in \<open>auto simp: edited_def\<close>)
    ultimately show ?thesis using x1 by (blast intro: kept_trans)
  qed
  moreover have "length m \<le> length m3" using x1 y1 r(2) by (simp add: edited_def)
  moreover have "\<forall>x \<in> B. tst2 x = tst x \<and> S2 x = S x \<and> (\<forall>off. G3 x off = G x off)"
  proof
    fix x assume "x \<in> B"
    then have "x \<notin> C0 \<union> C1" "x \<in> B1" using r(4) x1 by blast+
    with r(3) x1 y1 \<open>x \<in> B\<close> show "tst2 x = tst x \<and> S2 x = S x \<and> (\<forall>off. G3 x off = G x off)" by simp
  qed
  moreover have "card B2 \<le> card B + length (leaves e)" using x1 y1 e by linarith
  moreover have "B \<subseteq> B2" "reach A2 B2 \<subseteq> reach A B" "handle A2 = handle A" using x1 y1 by auto
  ultimately show ?thesis using d unfolding expr_made_def by blast
qed

definition expr_ok :: "test cond \<Rightarrow> bool" where
  "expr_ok e \<longleftrightarrow> (\<forall>t \<in> set (leaves e). test_ok t)"

lemma expr_made_length: "expr_made c A B G tst S m e A' m' b B' G' tst' S' \<Longrightarrow> length m \<le> length m'"
  by (simp add: expr_made_def)

lemma expr_made_generated: "expr_made c A B G tst S m e A' m' b B' G' tst' S' \<Longrightarrow> generated c A' B' G' tst' S' m'"
  by (simp add: expr_made_def)

section \<open>Generators of expressions\<close>

text \<open>
  A condition \<open>P\<close> on the handle and the memory that generating code does not disturb: it holds in all memories
  that keep what the code does not touch.
\<close>

definition stays :: "(u32 \<Rightarrow> memory \<Rightarrow> bool) \<Rightarrow> arena \<Rightarrow> u32 set \<Rightarrow> memory \<Rightarrow> bool" where
  "stays P A B m \<longleftrightarrow> (\<forall>m'. kept (reach A B) m m' \<longrightarrow> P (handle A) m')"

lemma staysD: "stays P A B m \<Longrightarrow> P (handle A) m"
  by (simp add: stays_def)

text \<open>
  A generator \<open>f\<close>, given the handle, makes the code of the expression \<open>e\<close> with the requests \<open>reqs\<close> to the
  arena, if \<open>P\<close> holds.
\<close>

definition makes :: "(u32 \<Rightarrow> memory \<Rightarrow> bool) \<Rightarrow> (u32 \<Rightarrow> gen) \<Rightarrow> test cond \<Rightarrow> nat list \<Rightarrow> bool" where
  "makes P f e reqs \<longleftrightarrow> (\<forall>c A B G tst S m. generated c A B G tst S m \<longrightarrow> stays P A B m \<longrightarrow> fits reqs A \<longrightarrow>
     (\<exists>m' b B' G' tst' S'. f (handle A) m = Ret (m', b) \<and> expr_made c A B G tst S m e (after reqs A) m' b B' G' tst' S'))"

lemma stays_made:
  assumes "stays P A B m" "expr_made c A B G tst S m e A' m' b B' G' tst' S'"
  shows "stays P A' B' m'"
  using assms kept_trans kept_mono unfolding stays_def expr_made_def by metis

lemma makesE:
  assumes "makes P f e reqs" "generated c A B G tst S m" "stays P A B m" "fits reqs A"
  obtains m' b B' G' tst' S' where "f (handle A) m = Ret (m', b)"
    "expr_made c A B G tst S m e (after reqs A) m' b B' G' tst' S'"
  using assms unfolding makes_def by meson

text \<open>What a generator does may depend on \<open>P\<close>.\<close>

lemma makes_cong:
  assumes g: "makes P g e reqs" and fg: "\<And>h m. P h m \<Longrightarrow> f h m = g h m"
  shows "makes P f e reqs"
  unfolding makes_def
proof (intro allI impI)
  fix c A B G tst S m
  assume a: "generated c A B G tst S m" "stays P A B m" "fits reqs A"
  obtain m' b B' G' tst' S' where "g (handle A) m = Ret (m', b)"
    "expr_made c A B G tst S m e (after reqs A) m' b B' G' tst' S'"
    by (rule makesE [OF g a])
  then show "\<exists>m' b B' G' tst' S'. f (handle A) m = Ret (m', b) \<and> expr_made c A B G tst S m e (after reqs A) m' b B' G' tst' S'"
    unfolding fg [OF staysD [OF a(2)]] by blast
qed

lemma makes_mono: "makes P f e reqs \<Longrightarrow> (\<And>h m. Q h m \<Longrightarrow> P h m) \<Longrightarrow> makes Q f e reqs"
  unfolding makes_def stays_def by meson

text \<open>A block is the code of its test.\<close>

lemma expr_made_leaf:
  assumes g: "generated c A B G tst S m" and t: "test_ok t"
    and r: "made A (after (test_requests t) A) m m' xs (test_code t) (test_value t) b" "map snd xs = test_body c t"
  shows "\<exists>B' G' tst' S'. expr_made c A B G tst S m (Leaf t) (after (test_requests t) A) m' b B' G' tst' S'"
proof -
  note n = r(1) [unfolded made_def]
  let ?G = "G(b := \<lambda>off. if off = 96 then b else 0)"
  note gt = generated_test [OF g r(1) t r(2)]
  have "reach (after (test_requests t) A) (insert b B) \<subseteq> reach A B"
  proof -
    have "touched (after (test_requests t) A) \<subseteq> touched A" using n grows_touched by blast
    moreover have "span (unat b) 212 \<subseteq> touched A" using n by (auto simp: touched_def)
    ultimately show ?thesis by (auto simp: reach_def)
  qed
  moreover have "kept (reach A B) m m'" by (rule kept_mono [of "touched A"]) (use n in \<open>auto simp: reach_def\<close>)
  moreover have "fragment ?G {b} b [(b, 60)] [(b, 84)] (\<lambda>ev. holds (Leaf b) ev)"
    using new_block_fragment [of b ?G] n by simp
  then have "\<exists>d C T F. map_cond (tst(b := t)) d = Leaf t \<and> set (leaves d) \<subseteq> insert b B - B \<and> C \<subseteq> insert b B - B \<and>
      fragment ?G C b T F (\<lambda>ev. holds d ev)"
    using gt(2) by (intro exI [of _ "Leaf b"] exI [of _ "{b}"] exI [of _ "[(b, 60)]"] exI [of _ "[(b, 84)]"]) simp
  moreover have "card (insert b B) \<le> card B + length (leaves (Leaf t))"
    using g gt(2) by (simp add: generated_def)
  moreover have "\<forall>x \<in> B. (tst(b := t)) x = tst x \<and> (S(b := xs)) x = S x \<and> (\<forall>off. ?G x off = G x off)" using gt(2) by auto
  ultimately have "expr_made c A B G tst S m (Leaf t) (after (test_requests t) A) m' b (insert b B) ?G (tst(b := t)) (S(b := xs))"
    using gt(1) n unfolding expr_made_def by auto
  then show ?thesis by blast
qed

lemma makes_leaf:
  assumes t: "test_ok t"
    and f: "\<And>c A m. arena_ok A m \<Longrightarrow> link_at c (handle A) m \<Longrightarrow> fits (test_requests t) A \<Longrightarrow> P (handle A) m \<Longrightarrow>
      \<exists>m' b xs. f (handle A) m = Ret (m', b) \<and> made A (after (test_requests t) A) m m' xs (test_code t) (test_value t) b \<and>
        map snd xs = test_body c t"
  shows "makes P f (Leaf t) (test_requests t)"
  unfolding makes_def
proof (intro allI impI)
  fix c A B G tst S m
  assume g: "generated c A B G tst S m" and s: "stays P A B m" and room: "fits (test_requests t) A"
  have ok: "arena_ok A m" "link_at c (handle A) m" using g by (auto simp: generated_def)
  from f [OF ok room staysD [OF s]] obtain m' b xs where r: "f (handle A) m = Ret (m', b)"
    "made A (after (test_requests t) A) m m' xs (test_code t) (test_value t) b" "map snd xs = test_body c t" by blast
  with expr_made_leaf [OF g t r(2,3)]
  show "\<exists>m' b B' G' tst' S'. f (handle A) m = Ret (m', b) \<and>
      expr_made c A B G tst S m (Leaf t) (after (test_requests t) A) m' b B' G' tst' S'" by blast
qed

lemma makes_test: "test_ok t \<Longrightarrow> makes P (\<lambda>h m. gen_test vs sn sp m h t) (Leaf t) (test_requests t)"
proof (rule makes_leaf)
  fix c :: "nat \<Rightarrow> u32" and A :: arena and m :: memory
  assume t: "test_ok t" and a: "arena_ok A m" "link_at c (handle A) m" "fits (test_requests t) A"
  show "\<exists>m' b xs. gen_test vs sn sp m (handle A) t = Ret (m', b) \<and>
      made A (after (test_requests t) A) m m' xs (test_code t) (test_value t) b \<and> map snd xs = test_body c t"
    by (rule gen_test_made [OF a(1,2) t a(3), of vs sn sp]) blast
qed

text \<open>
  What the connectives have in common: \<open>gop\<close> joins two fragments to one, whose meaning is \<open>bop\<close> of theirs, and
  changes only their blocks.
\<close>

definition connects :: "(memory \<Rightarrow> u32 \<Rightarrow> u32 \<Rightarrow> (memory \<times> u32) option) \<Rightarrow> (bool option \<Rightarrow> bool option \<Rightarrow> bool option) \<Rightarrow> bool" where
  "connects gop bop \<longleftrightarrow> (\<forall>m B G B0 B1 b0 b1 T0 F0 T1 F1 phi0 phi1. graph_at m B G \<longrightarrow> B0 \<union> B1 \<subseteq> B \<longrightarrow> B0 \<inter> B1 = {} \<longrightarrow>
      fragment G B0 b0 T0 F0 phi0 \<longrightarrow> fragment G B1 b1 T1 F1 phi1 \<longrightarrow>
      (\<exists>m' G' C b T F. gop m b0 b1 = Some (m', b) \<and> graph_at m' B G' \<and> edited B m m' \<and> C \<subseteq> B0 \<union> B1 \<and>
        fragment G' C b T F (\<lambda>ev. bop (phi0 ev) (phi1 ev)) \<and> (\<forall>c off. c \<notin> B0 \<union> B1 \<longrightarrow> G' c off = G c off)))"

lemma connectsE:
  assumes "connects gop bop" "graph_at m B G" "B0 \<union> B1 \<subseteq> B" "B0 \<inter> B1 = {}" "fragment G B0 b0 T0 F0 phi0"
    "fragment G B1 b1 T1 F1 phi1"
  obtains m' G' C b T F where "gop m b0 b1 = Some (m', b)" "graph_at m' B G'" "edited B m m'" "C \<subseteq> B0 \<union> B1"
    "fragment G' C b T F (\<lambda>ev. bop (phi0 ev) (phi1 ev))" "\<forall>c off. c \<notin> B0 \<union> B1 \<longrightarrow> G' c off = G c off"
  using assms(1) [unfolded connects_def, rule_format, OF assms(2-6)] by (elim exE conjE) (rule that)

lemma connects_and: "connects gen_and and3"
  unfolding connects_def by (intro allI impI) (rule gen_and_fragment)

lemma connects_or: "connects gen_or or3"
  unfolding connects_def by (intro allI impI) (rule gen_or_fragment)

lemma connects_swapped:
  assumes "connects gop bop"
  shows "connects (swapped gop) (\<lambda>p q. bop q p)"
  unfolding connects_def swapped_def
proof (intro allI impI)
  fix m B G B0 B1 b0 b1 T0 F0 T1 F1 phi0 phi1
  assume a: "graph_at m B G" "B0 \<union> B1 \<subseteq> B" "B0 \<inter> B1 = {}" "fragment G B0 b0 T0 F0 phi0" "fragment G B1 b1 T1 F1 phi1"
  have s: "B1 \<union> B0 \<subseteq> B" "B1 \<inter> B0 = {}" using a(2,3) by blast+
  obtain m' G' C b T F where r: "gop m b1 b0 = Some (m', b)" "graph_at m' B G'" "edited B m m'" "C \<subseteq> B1 \<union> B0"
    "fragment G' C b T F (\<lambda>ev. bop (phi1 ev) (phi0 ev))" "\<forall>c off. c \<notin> B1 \<union> B0 \<longrightarrow> G' c off = G c off"
    by (rule connectsE [OF assms a(1) s a(5,4)])
  then show "\<exists>m' G' C b T F. gop m b1 b0 = Some (m', b) \<and> graph_at m' B G' \<and> edited B m m' \<and> C \<subseteq> B0 \<union> B1 \<and>
      fragment G' C b T F (\<lambda>ev. bop (phi1 ev) (phi0 ev)) \<and> (\<forall>c off. c \<notin> B0 \<union> B1 \<longrightarrow> G' c off = G c off)"
    by (simp only: Un_commute) blast
qed

text \<open>The connectives, in one rule: \<open>gop\<close> acts on the blocks of two generators that ran one after the other.\<close>

lemma makes_joined:
  fixes con :: "test cond \<Rightarrow> test cond \<Rightarrow> test cond" and con' :: "u32 cond \<Rightarrow> u32 cond \<Rightarrow> u32 cond"
  assumes x: "makes P f x rx" and y: "makes P g y ry"
    and e: "length (leaves (con x y)) = length (leaves x) + length (leaves y)"
      "\<And>f dx dy. map_cond f dx = x \<Longrightarrow> map_cond f dy = y \<Longrightarrow> map_cond f (con' dx dy) = con x y"
      "\<And>dx dy ev. holds (con' dx dy) ev = bop (holds dx ev) (holds dy ev)"
      "\<And>dx dy. set (leaves (con' dx dy)) = set (leaves dx) \<union> set (leaves dy)"
    and gop: "connects gop bop"
  shows "makes P (\<lambda>h. joined gop (f h) (g h)) (con x y) (rx @ ry)"
  unfolding makes_def
proof (intro allI impI)
  fix c A B G tst S m
  assume g: "generated c A B G tst S m" and s: "stays P A B m" and room: "fits (rx @ ry) A"
  let ?A1 = "after rx A" and ?A2 = "after (rx @ ry) A"
  have "fits rx A" using room by simp
  then obtain m1 b0 B1 G1 tst1 S1 where 1: "f (handle A) m = Ret (m1, b0)"
    "expr_made c A B G tst S m x ?A1 m1 b0 B1 G1 tst1 S1" by (rule makesE [OF x g s])
  have "fits ry ?A1" using room by simp
  then obtain m2 b1 B2 G2 tst2 S2 where 2: "g (handle ?A1) m1 = Ret (m2, b1)"
    "expr_made c ?A1 B1 G1 tst1 S1 m1 y (after ry ?A1) m2 b1 B2 G2 tst2 S2"
    by (rule makesE [OF y expr_made_generated [OF 1(2)] stays_made [OF s 1(2)]])
  obtain dx C0 T0 F0 dy C1 T1 F1 where d: "map_cond tst2 dx = x" "map_cond tst2 dy = y"
    "set (leaves dx) \<subseteq> B2 - B" "set (leaves dy) \<subseteq> B2 - B" "C0 \<union> C1 \<subseteq> B2 - B" "C0 \<inter> C1 = {}"
    "fragment G2 C0 b0 T0 F0 (\<lambda>ev. holds dx ev)" "fragment G2 C1 b1 T1 F1 (\<lambda>ev. holds dy ev)"
    by (rule expr_made_two [OF 1(2) 2(2)])
  have g2: "graph_at m2 B2 G2" "C0 \<union> C1 \<subseteq> B2" using expr_made_generated [OF 2(2)] d(5) by (auto simp: generated_def)
  obtain m3 G3 C b T F where r: "gop m2 b0 b1 = Some (m3, b)" "graph_at m3 B2 G3" "edited B2 m2 m3" "C \<subseteq> C0 \<union> C1"
    "fragment G3 C b T F (\<lambda>ev. bop (holds dx ev) (holds dy ev))" "\<forall>x off. x \<notin> C0 \<union> C1 \<longrightarrow> G3 x off = G2 x off"
    by (rule connectsE [OF gop g2 d(6-8)])
  have "expr_made c A B G tst S m (con x y) (after ry ?A1) m3 b B2 G3 tst2 S2"
    by (rule expr_made_join [OF 1(2) 2(2) r(2,3,6) d(5) e(1), where d = "con' dx dy" and C = C and T = T and F = F])
      (use d r e in auto)
  with 1(1) 2(1) r(1) show "\<exists>m' b B' G' tst' S'. joined gop (f (handle A)) (g (handle A)) m = Ret (m', b) \<and>
      expr_made c A B G tst S m (con x y) ?A2 m' b B' G' tst' S'" by (auto simp: joined_def)
qed

lemma makes_and: "makes P f x rx \<Longrightarrow> makes P g y ry \<Longrightarrow> makes P (\<lambda>h. joined gen_and (f h) (g h)) (Conj x y) (rx @ ry)"
  by (rule makes_joined [where con' = Conj, OF _ _ _ _ _ _ connects_and]) auto

lemma makes_or: "makes P f x rx \<Longrightarrow> makes P g y ry \<Longrightarrow> makes P (\<lambda>h. joined gen_or (f h) (g h)) (Disj x y) (rx @ ry)"
  by (rule makes_joined [where con' = Disj, OF _ _ _ _ _ _ connects_or]) auto

text \<open>The same with the operands in the other order.\<close>

lemma makes_and_swapped:
  "makes P f x rx \<Longrightarrow> makes P g y ry \<Longrightarrow> makes P (\<lambda>h. joined (swapped gen_and) (f h) (g h)) (Conj y x) (rx @ ry)"
  by (rule makes_joined [where con = "\<lambda>x y. Conj y x" and con' = "\<lambda>x y. Conj y x",
      OF _ _ _ _ _ _ connects_swapped [OF connects_and]]) auto

lemma makes_or_swapped:
  "makes P f x rx \<Longrightarrow> makes P g y ry \<Longrightarrow> makes P (\<lambda>h. joined (swapped gen_or) (f h) (g h)) (Disj y x) (rx @ ry)"
  by (rule makes_joined [where con = "\<lambda>x y. Disj y x" and con' = "\<lambda>x y. Disj y x",
      OF _ _ _ _ _ _ connects_swapped [OF connects_or]]) auto

lemma makes_not:
  assumes x: "makes P f x rx"
  shows "makes P (\<lambda>h. inverted (f h)) (cond.Neg x) rx"
  unfolding makes_def
proof (intro allI impI)
  fix c A B G tst S m
  assume g: "generated c A B G tst S m" and s: "stays P A B m" and room: "fits rx A"
  let ?A1 = "after rx A"
  obtain m1 b0 B1 G1 tst1 S1 where 1: "f (handle A) m = Ret (m1, b0)"
    "expr_made c A B G tst S m x ?A1 m1 b0 B1 G1 tst1 S1" by (rule makesE [OF x g s room])
  note x1 = 1(2) [unfolded expr_made_def]
  obtain d C T F where 0: "map_cond tst1 d = x" "set (leaves d) \<subseteq> B1 - B" "C \<subseteq> B1 - B"
    "fragment G1 C b0 T F (\<lambda>ev. holds d ev)" using x1 by blast
  have g1: "graph_at m1 B1 G1" "C \<subseteq> B1" using expr_made_generated [OF 1(2)] 0(3) by (auto simp: generated_def)
  obtain m3 G3 where r: "gen_not m1 b0 = Some (m3, b0)" "graph_at m3 B1 G3" "edited B1 m1 m3"
    "fragment G3 C b0 F T (\<lambda>ev. not3 (holds d ev))" "\<forall>x off. x \<noteq> b0 \<longrightarrow> G3 x off = G1 x off"
    using gen_not_fragment [OF g1 0(4)] by (elim exE conjE)
  have b0: "b0 \<in> C" using 0(4) by (simp add: fragment_def wired_def)
  have gen: "generated c ?A1 B1 G3 tst1 S1 m3" by (rule generated_edited [OF expr_made_generated [OF 1(2)] r(2,3)])
  have "kept (reach A B) m1 m3"
    by (rule kept_mono [of "graph_words B1"]) (use r(3) graph_words_reach [of B1 ?A1] x1 in \<open>auto simp: edited_def\<close>)
  then have k: "kept (reach A B) m m3" using x1 by (blast intro: kept_trans)
  have old: "\<forall>z \<in> B. tst1 z = tst z \<and> S1 z = S z \<and> (\<forall>off. G3 z off = G z off)"
  proof
    fix z assume "z \<in> B"
    then have "z \<noteq> b0" using b0 0(3) by blast
    with r(5) x1 \<open>z \<in> B\<close> show "tst1 z = tst z \<and> S1 z = S z \<and> (\<forall>off. G3 z off = G z off)" by simp
  qed
  have new: "map_cond tst1 (cond.Neg d) = cond.Neg x" "set (leaves (cond.Neg d)) \<subseteq> B1 - B"
    "fragment G3 C b0 F T (\<lambda>ev. holds (cond.Neg d) ev)" using 0 r(4) by simp_all
  have "length m \<le> length m3" "card B1 \<le> card B + length (leaves (cond.Neg x))" using x1 r(3) by (simp_all add: edited_def)
  with gen k old new x1 0(3) have "expr_made c A B G tst S m (cond.Neg x) ?A1 m3 b0 B1 G3 tst1 S1"
    unfolding expr_made_def by blast
  with 1(1) r(1) show "\<exists>m' b B' G' tst' S'. inverted (f (handle A)) m = Ret (m', b) \<and>
      expr_made c A B G tst S m (cond.Neg x) ?A1 m' b B' G' tst' S'" by (auto simp: inverted_def)
qed

text \<open>The code of every expression.\<close>

lemma gen_expr_joined:
  "gen_expr vs sn sp h (Conj x y) = joined gen_and (gen_expr vs sn sp h x) (gen_expr vs sn sp h y)"
  "gen_expr vs sn sp h (Disj x y) = joined gen_or (gen_expr vs sn sp h x) (gen_expr vs sn sp h y)"
  "gen_expr vs sn sp h (cond.Neg x) = inverted (gen_expr vs sn sp h x)"
  by (rule ext, simp add: joined_def inverted_def)+

lemma gen_expr_makes: "expr_ok e \<Longrightarrow> makes P (\<lambda>h. gen_expr vs sn sp h e) e (expr_requests e)"
proof (induction e)
  case (Leaf t)
  then show ?case using makes_test [of t P vs sn sp] by (simp add: expr_ok_def)
next
  case (Conj x y)
  then show ?case unfolding gen_expr_joined expr_requests_simps by (intro makes_and) (simp_all add: expr_ok_def)
next
  case (Disj x y)
  then show ?case unfolding gen_expr_joined expr_requests_simps by (intro makes_or) (simp_all add: expr_ok_def)
next
  case (Neg x)
  then show ?case unfolding gen_expr_joined expr_requests_simps by (intro makes_not) (simp_all add: expr_ok_def)
qed

end
