(* ===== verification/Codegen_Graph.thy ===== *)
theory Codegen_Graph
  imports Codegen_Logic
begin

text \<open>
  The graph of a fragment has no cycle: from its start every path reaches an exit within as many
  steps as the fragment has blocks (\<open>fragment_start\<close>), because a path that came back to a block
  would never end for the test results that make it. This gives the rank that the emission of the
  program needs.
\<close>

section \<open>Fragments have no cycle\<close>

text \<open>
  A block is within \<open>n\<close> steps of the exits if both its jumps are exits or lead to blocks within \<open>n - 1\<close>
  steps. A fragment leads somewhere for all test results, so its start is within as many steps as it has blocks.
\<close>

fun within :: "graph \<Rightarrow> u32 set \<Rightarrow> exit_slot list \<Rightarrow> exit_slot list \<Rightarrow> nat \<Rightarrow> u32 \<Rightarrow> bool" where
  "within G B T F 0 c = False"
| "within G B T F (Suc n) c = (c \<in> B \<and> (\<forall>off \<in> {60, 84}. (c, off) \<in> set T \<union> set F \<or> within G B T F n (G c off)))"

lemma within_mono: "within G B T F n c \<Longrightarrow> B \<subseteq> B' \<Longrightarrow> n \<le> n' \<Longrightarrow> within G B' T F n' c"
proof (induction n arbitrary: c n')
  case (Suc n)
  then obtain k where k: "n' = Suc k" "n \<le> k" by (cases n') auto
  have "within G B' T F k (G c off)" if "within G B T F n (G c off)" for off
    by (rule Suc.IH [OF that Suc.prems(2) k(2)])
  with Suc.prems show ?case unfolding k by auto
qed simp

lemma leads_to_once:
  assumes "leads_to G B T F ev x r" and c: "ev c \<noteq> None" "(c, taken ev c) \<notin> set T \<union> set F"
  shows "leads_to G (B - {c}) T F ev x r \<or> leads_to G (B - {c}) T F ev (G c (taken ev c)) r"
  using assms(1)
proof (induction rule: leads_to.induct)
  case (leads_on x r)
  then show ?case by (cases "x = c") (auto intro: leads_to.leads_on)
qed (use c in \<open>auto intro: leads_to.intros\<close>)

lemma leads_to_results:
  assumes "leads_to G B T F ev x r" "\<And>y. y \<in> B \<Longrightarrow> ev' y = ev y"
  shows "leads_to G B T F ev' x r"
  using assms(1)
proof (induction rule: leads_to.induct)
  case (leads_on x r)
  then have "taken ev' x = taken ev x" "ev' x \<noteq> None" using assms(2) by (simp_all add: taken_def)
  with leads_on show ?case by (metis leads_to.leads_on)
qed (use assms(2) in \<open>auto intro: leads_to.intros simp: taken_def\<close>)

lemma leads_to_in: "leads_to G B T F ev c r \<Longrightarrow> c \<in> B"
  by (erule leads_toE)

lemma leads_to_within:
  assumes "finite B" "\<And>ev. \<exists>r. leads_to G B T F ev c r"
  shows "within G B T F (card B) c"
  using assms
proof (induction "card B" arbitrary: B c)
  case 0
  then show ?case using leads_to_in by fastforce
next
  case (Suc n)
  have c: "c \<in> B" using Suc.prems(2) leads_to_in by blast
  have n: "card (B - {c}) = n" using Suc.hyps(2) c by simp
  have "within G B T F n (G c off)" if o: "off \<in> {60, 84}" "(c, off) \<notin> set T \<union> set F" for off
  proof -
    have "\<exists>r. leads_to G (B - {c}) T F ev (G c off) r" for ev
    proof -
      define ev' where "ev' = ev(c := Some (off = 60))"
      have t: "taken ev' c = off" "ev' c \<noteq> None" using o(1) by (auto simp: ev'_def taken_def)
      obtain r where "leads_to G B T F ev' c r" using Suc.prems(2) by blast
      from leads_to_once [OF this, of c] t o(2) leads_to_in [of G "B - {c}" T F ev' c r]
      have "leads_to G (B - {c}) T F ev' (G c off) r" by auto
      then have "leads_to G (B - {c}) T F ev (G c off) r" by (rule leads_to_results) (simp add: ev'_def)
      then show ?thesis by blast
    qed
    with Suc.hyps(1) [of "B - {c}" "G c off"] n Suc.prems(1) have "within G (B - {c}) T F n (G c off)" by simp
    then show ?thesis by (rule within_mono) auto
  qed
  with c have "within G B T F (Suc n) c" by auto
  then show ?case using Suc.hyps(2) by simp
qed

definition steps :: "graph \<Rightarrow> u32 set \<Rightarrow> exit_slot list \<Rightarrow> exit_slot list \<Rightarrow> u32 \<Rightarrow> nat" where
  "steps G B T F c = (LEAST n. within G B T F n c)"

lemma steps_within:
  assumes "within G B T F n c"
  shows "steps G B T F c \<le> n" "0 < steps G B T F c" "within G B T F (steps G B T F c) c"
proof -
  show le: "steps G B T F c \<le> n" unfolding steps_def by (rule Least_le) (rule assms)
  show w: "within G B T F (steps G B T F c) c" unfolding steps_def by (rule LeastI) (rule assms)
  show "0 < steps G B T F c" using w by (cases "steps G B T F c") auto
qed

lemma steps_fall:
  assumes "within G B T F n c" "off \<in> {60, 84}" "(c, off) \<notin> set T \<union> set F"
  shows "within G B T F (steps G B T F c - 1) (G c off)" "steps G B T F (G c off) < steps G B T F c"
proof -
  note s = steps_within [OF assms(1)]
  obtain k where k: "steps G B T F c = Suc k" using s(2) by (cases "steps G B T F c") auto
  show w: "within G B T F (steps G B T F c - 1) (G c off)" using s(3) assms(2,3) unfolding k by auto
  show "steps G B T F (G c off) < steps G B T F c" using steps_within(1) [OF w] s(2) by simp
qed

text \<open>The blocks that a fragment reaches.\<close>

definition reachable :: "graph \<Rightarrow> u32 set \<Rightarrow> exit_slot list \<Rightarrow> exit_slot list \<Rightarrow> u32 set" where
  "reachable G B T F = {c. \<exists>n. within G B T F n c}"

lemma reachable_in: "reachable G B T F \<subseteq> B"
proof -
  have "c \<in> B" if "within G B T F n c" for n c using that by (cases n) auto
  then show ?thesis by (auto simp: reachable_def)
qed

lemma reachable_next:
  assumes "c \<in> reachable G B T F" "off \<in> {60, 84}" "(c, off) \<notin> set T \<union> set F"
  shows "G c off \<in> reachable G B T F" "steps G B T F (G c off) < steps G B T F c"
proof -
  obtain n where w: "within G B T F n c" using assms(1) by (auto simp: reachable_def)
  show "G c off \<in> reachable G B T F" unfolding reachable_def using steps_fall(1) [OF w assms(2,3)] by blast
  show "steps G B T F (G c off) < steps G B T F c" by (rule steps_fall(2) [OF w assms(2,3)])
qed

lemma fragment_start:
  assumes "fragment G C b T F phi" "finite C"
  shows "G b 96 \<in> reachable G C T F" "steps G C T F (G b 96) \<le> card C"
proof -
  have l: "\<exists>r. leads_to G C T F ev (G b 96) r" for ev
    using assms(1) unfolding fragment_def wired_def by blast
  have w: "within G C T F (card C) (G b 96)" by (rule leads_to_within [OF assms(2) l])
  show "steps G C T F (G b 96) \<le> card C" by (rule steps_within(1) [OF w])
  show "G b 96 \<in> reachable G C T F" unfolding reachable_def using w by blast
qed

end
