(* ===== verification/Finish_Parse.thy ===== *)
theory Finish_Parse
  imports Codegen_Expr Codegen_Graph
begin

text \<open>
  \<open>_finish_parse\<close> of \<open>src/internal/bpf.go\<close>, which ends the generation of code: it puts statements
  before the first test that compute where the payload starts, for the link layers with headers
  of variable length (Prism, AVS, Radiotap, PPI, PF log, 802.11), adds the blocks that accept and
  reject, and stores the first block in the handle.
\<close>

section \<open>Pieces\<close>

text \<open>The end of a list of statements, as the loops from \<open>l12\<close> on look for it.\<close>

partial_function (option) last_stmt :: "memory \<Rightarrow> u32 \<Rightarrow> u32 option" where
  "last_stmt m v2 = do { t19 \<leftarrow> load32 m (unat v2 + 16); if t19 \<noteq> 0 then last_stmt m t19 else Some v2 }"

fun stores :: "memory \<Rightarrow> (nat \<times> u32) list \<Rightarrow> memory option" where
  "stores m [] = Some m"
| "stores m ((a, v) # xs) = do { m \<leftarrow> store32 m a v; stores m xs }"

text \<open>
  A new statement is appended to the list \<open>v5\<close>. Jumps from and to it are stored \<open>before\<close> the end of the
  list is looked for, \<open>between\<close> that and the link, and \<open>behind\<close> the link.
\<close>

definition append_linked ::
  "formatter \<Rightarrow> formatter \<Rightarrow> u32 \<Rightarrow> u32 \<Rightarrow> u32 \<Rightarrow> memory \<Rightarrow> u32 \<Rightarrow> u32 \<Rightarrow> (u32 \<Rightarrow> (nat \<times> u32) list) \<Rightarrow>
    (u32 \<Rightarrow> (nat \<times> u32) list) \<Rightarrow> (u32 \<Rightarrow> (nat \<times> u32) list) \<Rightarrow> (memory \<times> u32) jump" where
  "append_linked vsnprintf snprintf v7 v0 v5 m code k before between behind =
     jump_bind (new_stmt vsnprintf snprintf v7 m v0 code k)
       (\<lambda>(m, v3). lift (do {
          m \<leftarrow> stores m (before v3);
          v4 \<leftarrow> last_stmt m v5;
          m \<leftarrow> stores m (between v3);
          m \<leftarrow> store32 m (unat v4 + 16) v3;
          m \<leftarrow> stores m (behind v3);
          Some (m, v3)
        }))"

text \<open>
  The scratch register of the field \<open>fld\<close> of the handle, checked; \<open>flag\<close> is the address of its flag.
  The errors from \<open>l17\<close> on differ in the place of their arguments, \<open>a\<close>.
\<close>

definition checked_reg ::
  "formatter \<Rightarrow> formatter \<Rightarrow> u32 \<Rightarrow> memory \<Rightarrow> u32 \<Rightarrow> nat \<Rightarrow> (u32 \<Rightarrow> nat) \<Rightarrow> u32 \<Rightarrow> u32 jump" where
  "checked_reg vsnprintf snprintf v7 m v0 fld flag a =
     (let l17 = (\<lambda>v2. jump_bind (lift (do {
            m \<leftarrow> store32 m (unat v7 + unat a + 8) v2;
            m \<leftarrow> store32 m (unat v7 + unat a + 4) 68063;
            store32 m (unat v7 + unat a) 69750
          }))
          (\<lambda>m. bpf_error vsnprintf snprintf v7 m v0 70807 (v7 + a)))
      in jump_bind (lift (load32 m (unat v0 + fld)))
        (\<lambda>v2. if v2 > 15 then l17 v2
          else jump_bind (lift (load32 m (flag v2)))
            (\<lambda>t29. if t29 = 0 then l17 v2 else Ret v2)))"

text \<open>
  The loops at \<open>l2\<close>, \<open>l80\<close> and \<open>l82\<close>: a scratch register for the field \<open>fld\<close>, which becomes the current one.
\<close>

definition finish_reg ::
  "formatter \<Rightarrow> formatter \<Rightarrow> u32 \<Rightarrow> memory \<Rightarrow> u32 \<Rightarrow> nat \<Rightarrow> memory jump" where
  "finish_reg vsnprintf snprintf v7 m v0 fld =
     jump_bind (lift (do { v2 \<leftarrow> load32 m (unat v0 + 244); find_free_reg 8 m v0 v2 }))
       (\<lambda>(m, r). case r of
          None \<Rightarrow> bpf_error vsnprintf snprintf v7 m v0 68385 0
        | Some v5 \<Rightarrow> lift (do {
            m \<leftarrow> store32 m (unat v5) 1;
            t12 \<leftarrow> load32 m (unat v0 + 244);
            store32 m (unat v0 + fld) t12
          }))"

text \<open>The link layer has a header of variable length, and the start of its payload is used.\<close>

definition finish_prologue ::
  "formatter \<Rightarrow> formatter \<Rightarrow> u32 \<Rightarrow> memory \<Rightarrow> u32 \<Rightarrow> memory jump" where
  "finish_prologue vsnprintf snprintf v7 m v0 =
     jump_bind (lift (do {
         t2 \<leftarrow> load32 m (unat v0 + 104);
         if t2 = - 1 then Some False
         else do {
           t3 \<leftarrow> load32 m (unat v0 + 60);
           if t3 = 0 then Some False
           else do { t4 \<leftarrow> load32 m (unat v0 + 68); Some (t4 = - 1) }
         }
       }))
       (\<lambda>need. if need then finish_reg vsnprintf snprintf v7 m v0 68 else Ret m)"

section \<open>Headers of variable length\<close>

text \<open>
  The length of the radio header goes to the register of the field 68. A Prism header may be an AVS header,
  which its first word tells: \<open>l4\<close>.
\<close>

definition prism_header_test ::
  "formatter \<Rightarrow> formatter \<Rightarrow> u32 \<Rightarrow> memory \<Rightarrow> u32 \<Rightarrow> (memory \<times> u32 \<times> u32) jump" where
  "prism_header_test vsnprintf snprintf v7 m v0 =
     (let none = (\<lambda>_. []); vs = vsnprintf; sn = snprintf
      in jump_bind (new_stmt vs sn v7 m v0 32 0)
        (\<lambda>(m, v5). jump_bind (append_linked vs sn v7 v0 v5 m 84 (- 4096) none none none)
        (\<lambda>(m, v3). jump_bind (append_linked vs sn v7 v0 v5 m 21 (- 0x7fdef000) none none none)
        (\<lambda>(m, v3). jump_bind (append_linked vs sn v7 v0 v5 m 32 4 none (\<lambda>v6. [(unat v3 + 4, v6)]) none)
        (\<lambda>(m, v6). jump_bind (append_linked vs sn v7 v0 v5 m 5 1 none none none)
        (\<lambda>(m, v6). jump_bind (append_linked vs sn v7 v0 v5 m 0 144 none (\<lambda>v8. [(unat v3 + 8, v8)]) none)
        (\<lambda>(m, v8). Ret (m, v5, v6))))))))"

definition prism_header ::
  "formatter \<Rightarrow> formatter \<Rightarrow> u32 \<Rightarrow> memory \<Rightarrow> u32 \<Rightarrow> (memory \<times> u32) jump" where
  "prism_header vsnprintf snprintf v7 m v0 =
     (let none = (\<lambda>_. []); vs = vsnprintf; sn = snprintf
      in jump_bind (prism_header_test vs sn v7 m v0)
        (\<lambda>(m, v5, v6). jump_bind (checked_reg vs sn v7 m v0 68 (\<lambda>v2. unat (v0 + push_bit 2 v2) + 180) 128)
        (\<lambda>v2. jump_bind (append_linked vs sn v7 v0 v5 m 2 v2 none (\<lambda>v3. [(unat v6 + 8, v3)]) none)
        (\<lambda>(m, v3). jump_bind (append_plain vs sn v7 v0 v5 m 7)
        (\<lambda>m. Ret (m, v5))))))"

text \<open>\<open>l8\<close>: the length is the second word of an AVS header.\<close>

definition avs_header ::
  "formatter \<Rightarrow> formatter \<Rightarrow> u32 \<Rightarrow> memory \<Rightarrow> u32 \<Rightarrow> (memory \<times> u32) jump" where
  "avs_header vsnprintf snprintf v7 m v0 =
     jump_bind (new_stmt vsnprintf snprintf v7 m v0 32 4)
       (\<lambda>(m, v5). jump_bind (checked_reg vsnprintf snprintf v7 m v0 68 (\<lambda>v2. unat (v0 + push_bit 2 v2) + 180) 144)
       (\<lambda>v2. jump_bind (append_stmt vsnprintf snprintf v7 v0 v5 m 2 v2)
       (\<lambda>m. jump_bind (append_plain vsnprintf snprintf v7 v0 v5 m 7)
       (\<lambda>m. Ret (m, v5)))))"

text \<open>\<open>l6\<close> and \<open>l9\<close>: the length of a Radiotap or PPI header is a little-endian half word at 2.\<close>

definition le16_header ::
  "u32 \<Rightarrow> formatter \<Rightarrow> formatter \<Rightarrow> u32 \<Rightarrow> memory \<Rightarrow> u32 \<Rightarrow> (memory \<times> u32) jump" where
  "le16_header a vsnprintf snprintf v7 m v0 =
     (let vs = vsnprintf; sn = snprintf
      in jump_bind (new_stmt vs sn v7 m v0 48 3)
        (\<lambda>(m, v5). jump_bind (append_stmt vs sn v7 v0 v5 m 100 8)
        (\<lambda>m. jump_bind (append_plain vs sn v7 v0 v5 m 7)
        (\<lambda>m. jump_bind (append_stmt vs sn v7 v0 v5 m 48 2)
        (\<lambda>m. jump_bind (append_plain vs sn v7 v0 v5 m 76)
        (\<lambda>m. jump_bind (checked_reg vs sn v7 m v0 68 (\<lambda>v2. unat (v0 + push_bit 2 v2) + 180) a)
        (\<lambda>v2. jump_bind (append_stmt vs sn v7 v0 v5 m 2 v2)
        (\<lambda>m. jump_bind (append_plain vs sn v7 v0 v5 m 7)
        (\<lambda>m. Ret (m, v5))))))))))"

definition radiotap_header ::
  "formatter \<Rightarrow> formatter \<Rightarrow> u32 \<Rightarrow> memory \<Rightarrow> u32 \<Rightarrow> (memory \<times> u32) jump" where
  "radiotap_header = le16_header 160"

definition ppi_header ::
  "formatter \<Rightarrow> formatter \<Rightarrow> u32 \<Rightarrow> memory \<Rightarrow> u32 \<Rightarrow> (memory \<times> u32) jump" where
  "ppi_header = le16_header 176"

text \<open>
  The switch on the link type. \<open>Some (v5, v2)\<close> goes on at \<open>l5\<close> with the statements \<open>v5\<close> (0 for none) and
  the link type, \<open>None\<close> at \<open>l10\<close>.
\<close>

definition finish_header ::
  "formatter \<Rightarrow> formatter \<Rightarrow> u32 \<Rightarrow> memory \<Rightarrow> u32 \<Rightarrow> (memory \<times> (u32 \<times> u32) option) jump" where
  "finish_header vsnprintf snprintf v7 m v0 =
     (let header = (\<lambda>m gen. jump_bind (lift (load32 m (unat v0 + 68)))
            (\<lambda>t16. if t16 = - 1 then Ret (m, None)
              else jump_bind (gen vsnprintf snprintf v7 m v0)
                (\<lambda>(m, v5). jump_bind (lift (load32 m (unat v0 + 32))) (\<lambda>v2. Ret (m, Some (v5, v2))))))
      in jump_bind (lift (load32 m (unat v0 + 32)))
        (\<lambda>v2. if v2 = 119 then jump_bind (lift (store32 m (unat v0 + 40) 1)) (\<lambda>m. header m prism_header)
          else if v2 = 127 then header m radiotap_header
          else if v2 = 163 then header m avs_header
          else if v2 = 192 then header m ppi_header
          else Ret (m, Some (0, v2))))"

text \<open>\<open>l40\<close>: the length of a PF log header, rounded up to a multiple of 4.\<close>

definition pflog_header ::
  "formatter \<Rightarrow> formatter \<Rightarrow> u32 \<Rightarrow> memory \<Rightarrow> u32 \<Rightarrow> (memory \<times> u32) jump" where
  "pflog_header vsnprintf snprintf v7 m v0 =
     (let vs = vsnprintf; sn = snprintf
      in jump_bind (new_stmt vs sn v7 m v0 48 0)
        (\<lambda>(m, v5). jump_bind (append_stmt vs sn v7 v0 v5 m 4 3)
        (\<lambda>m. jump_bind (append_stmt vs sn v7 v0 v5 m 84 (- 4))
        (\<lambda>m. jump_bind (checked_reg vs sn v7 m v0 104 (\<lambda>v2. unat (v0 + push_bit 2 v2) + 180) 112)
        (\<lambda>v2. jump_bind (append_stmt vs sn v7 v0 v5 m 2 v2)
        (\<lambda>m. jump_bind (append_plain vs sn v7 v0 v5 m 7)
        (\<lambda>m. Ret (m, v5))))))))"

text \<open>
  \<open>l43\<close>: the payload of an 802.11 frame starts 24 bytes after its header, and 2 more in a frame with QoS;
  frames without payload go to \<open>v8\<close>, the statements of the first test.
\<close>

definition wlan_flags ::
  "formatter \<Rightarrow> formatter \<Rightarrow> u32 \<Rightarrow> u32 \<Rightarrow> u32 \<Rightarrow> u32 \<Rightarrow> memory \<Rightarrow> (memory \<times> u32) jump" where
  "wlan_flags vsnprintf snprintf v7 v0 v5 v8 m =
     (let none = (\<lambda>_. []); vs = vsnprintf; sn = snprintf
      in jump_bind (append_plain vs sn v7 v0 v5 m 135)
        (\<lambda>m. jump_bind (append_stmt vs sn v7 v0 v5 m 4 24)
        (\<lambda>m. jump_bind (checked_reg vs sn v7 m v0 104 (\<lambda>v2. unat (v0 + 180 + push_bit 2 v2)) 32)
        (\<lambda>v2. jump_bind (append_stmt vs sn v7 v0 v5 m 2 v2)
        (\<lambda>m. jump_bind (append_stmt vs sn v7 v0 v5 m 80 0)
        (\<lambda>m. jump_bind (append_linked vs sn v7 v0 v5 m 69 8 none none none)
        (\<lambda>(m, v3). jump_bind (append_linked vs sn v7 v0 v5 m 69 4
            (\<lambda>v6. [(unat v3 + 4, v6)]) (\<lambda>_. [(unat v3 + 8, v8)]) (\<lambda>v6. [(unat v6 + 4, v8)]))
        (\<lambda>(m, v6). append_linked vs sn v7 v0 v5 m 69 128 (\<lambda>v3. [(unat v6 + 8, v3)]) none none))))))))"

definition wlan_qos ::
  "formatter \<Rightarrow> formatter \<Rightarrow> u32 \<Rightarrow> u32 \<Rightarrow> u32 \<Rightarrow> u32 \<Rightarrow> memory \<Rightarrow> memory jump" where
  "wlan_qos vsnprintf snprintf v7 v0 v5 v3 m =
     (let none = (\<lambda>_. []); vs = vsnprintf; sn = snprintf; flag = (\<lambda>v2. unat (v0 + 180 + push_bit 2 v2))
      in jump_bind (checked_reg vs sn v7 m v0 104 flag 48)
        (\<lambda>v2. jump_bind (append_linked vs sn v7 v0 v5 m 96 v2 (\<lambda>v6. [(unat v3 + 4, v6)]) none none)
        (\<lambda>(m, v6). jump_bind (append_stmt vs sn v7 v0 v5 m 4 2)
        (\<lambda>m. jump_bind (checked_reg vs sn v7 m v0 104 flag 64)
        (\<lambda>v2. append_stmt vs sn v7 v0 v5 m 2 v2)))))"

text \<open>
  A Radiotap header tells with a flag that the 802.11 header is padded to a multiple of 4; the flags are
  there if the presence word says so.
\<close>

definition wlan_pad_test ::
  "formatter \<Rightarrow> formatter \<Rightarrow> u32 \<Rightarrow> u32 \<Rightarrow> u32 \<Rightarrow> u32 \<Rightarrow> u32 \<Rightarrow> memory \<Rightarrow> (memory \<times> u32 \<times> u32) jump" where
  "wlan_pad_test vsnprintf snprintf v7 v0 v5 v8 v3 m =
     (let none = (\<lambda>_. []); vs = vsnprintf; sn = snprintf
      in jump_bind (append_linked vs sn v7 v0 v5 m 32 4 (\<lambda>v6. [(unat v3 + 8, v6)]) none none)
        (\<lambda>(m, v6). jump_bind (append_linked vs sn v7 v0 v5 m 69 0x2000000 none (\<lambda>v6. [(unat v6 + 8, v8)]) none)
        (\<lambda>(m, v6). jump_bind (append_linked vs sn v7 v0 v5 m 69 128
            none (\<lambda>v3. [(unat v6 + 4, v3)]) (\<lambda>v3. [(unat v3 + 4, v8)]))
        (\<lambda>(m, v3). jump_bind (append_linked vs sn v7 v0 v5 m 69 0x1000000 none (\<lambda>v6. [(unat v3 + 8, v6)]) none)
        (\<lambda>(m, v6). jump_bind (append_linked vs sn v7 v0 v5 m 48 16 none (\<lambda>v3. [(unat v6 + 4, v3)]) none)
        (\<lambda>(m, v3). jump_bind (append_linked vs sn v7 v0 v5 m 69 32 none none none)
        (\<lambda>(m, v12). jump_bind (append_linked vs sn v7 v0 v5 m 48 8 none (\<lambda>v3. [(unat v6 + 8, v3)]) none)
        (\<lambda>(m, v3). jump_bind (append_linked vs sn v7 v0 v5 m 69 32 none none none)
        (\<lambda>(m, v3). Ret (m, v3, v12))))))))))"

definition wlan_pad ::
  "formatter \<Rightarrow> formatter \<Rightarrow> u32 \<Rightarrow> u32 \<Rightarrow> u32 \<Rightarrow> u32 \<Rightarrow> u32 \<Rightarrow> u32 \<Rightarrow> memory \<Rightarrow> memory jump" where
  "wlan_pad vsnprintf snprintf v7 v0 v5 v8 v3 v12 m =
     (let none = (\<lambda>_. []); vs = vsnprintf; sn = snprintf; flag = (\<lambda>v2. unat (v0 + 180 + push_bit 2 v2))
      in jump_bind (checked_reg vs sn v7 m v0 104 flag 80)
        (\<lambda>v2. jump_bind (append_linked vs sn v7 v0 v5 m 96 v2 none none none)
        (\<lambda>(m, v6). jump_bind (append_stmt vs sn v7 v0 v5 m 4 3)
        (\<lambda>m. jump_bind (append_stmt vs sn v7 v0 v5 m 84 (- 4))
        (\<lambda>m. jump_bind (checked_reg vs sn v7 m v0 104 flag 96)
        (\<lambda>v2. jump_bind (append_linked vs sn v7 v0 v5 m 2 v2
            none (\<lambda>_. [(unat v12 + 4, v6)]) (\<lambda>_. [(unat v12 + 8, v8), (unat v3 + 4, v6)]))
        (\<lambda>(m, v9). Ret m)))))))"

definition wlan_header ::
  "formatter \<Rightarrow> formatter \<Rightarrow> u32 \<Rightarrow> u32 \<Rightarrow> u32 \<Rightarrow> u32 \<Rightarrow> memory \<Rightarrow> memory jump" where
  "wlan_header vsnprintf snprintf v7 v0 v5 v8 m =
     (let vs = vsnprintf; sn = snprintf
      in jump_bind (wlan_flags vs sn v7 v0 v5 v8 m)
        (\<lambda>(m, v3). jump_bind (wlan_qos vs sn v7 v0 v5 v3 m)
        (\<lambda>m. jump_bind (lift (load32 m (unat v0 + 24)))
        (\<lambda>t119. jump_bind
           (if t119 = 127 then
              jump_bind (wlan_pad_test vs sn v7 v0 v5 v8 v3 m)
                (\<lambda>(m, v3, v12). jump_bind (wlan_pad vs sn v7 v0 v5 v8 v3 v12 m) (\<lambda>m. Ret (m, v3)))
            else Ret (m, v3))
        (\<lambda>(m, v3). lift (store32 m (unat v3 + 8) v8))))))"

text \<open>\<open>l44\<close>: the registers of the payload are used, and nothing else sets them.\<close>

definition payload_regs ::
  "formatter \<Rightarrow> formatter \<Rightarrow> u32 \<Rightarrow> memory \<Rightarrow> u32 \<Rightarrow> (memory \<times> u32 option) jump" where
  "payload_regs vsnprintf snprintf v7 m v0 =
     (let vs = vsnprintf; sn = snprintf; flag = (\<lambda>v2. unat (v0 + 180 + push_bit 2 v2));
          need = (\<lambda>fld m. jump_bind (lift (load32 m (unat v0 + fld)))
            (\<lambda>t. if t = - 1 then finish_reg vs sn v7 m v0 fld else Ret m))
      in jump_bind (lift (load32 m (unat v0 + 128)))
        (\<lambda>t148. if t148 = 0 then Ret (m, None)
          else jump_bind (need 104 m)
            (\<lambda>m. jump_bind (need 116 m)
            (\<lambda>m. jump_bind (new_stmt vs sn v7 m v0 0 0)
            (\<lambda>(m, v5). jump_bind (checked_reg vs sn v7 m v0 104 flag 0)
            (\<lambda>v2. jump_bind (append_stmt vs sn v7 v0 v5 m 2 v2)
            (\<lambda>m. jump_bind (checked_reg vs sn v7 m v0 116 flag 16)
            (\<lambda>v2. jump_bind (append_stmt vs sn v7 v0 v5 m 2 v2)
            (\<lambda>m. Ret (m, Some v5))))))))))"

text \<open>\<open>l50\<close>: the statements \<open>v5\<close> come before those of the first test, \<open>v11\<close>.\<close>

definition hang_stmts :: "memory \<Rightarrow> u32 \<Rightarrow> u32 \<Rightarrow> memory option" where
  "hang_stmts m v11 v5 =
     do {
       v3 \<leftarrow> load32 m (unat v11 + 4);
       m \<leftarrow> (if v3 \<noteq> 0 then sappend m v5 v3 else Some m);
       m \<leftarrow> store32 m (unat v11 + 208) 0;
       store32 m (unat v11 + 4) v5
     }"

section \<open>The ends of the program\<close>

text \<open>\<open>l78\<close>: a PPI header must hold an 802.11 frame.\<close>

definition ppi_test ::
  "formatter \<Rightarrow> formatter \<Rightarrow> u32 \<Rightarrow> memory \<Rightarrow> u32 \<Rightarrow> u32 \<Rightarrow> (memory \<times> u32) jump" where
  "ppi_test vsnprintf snprintf v7 m v0 v1 =
     jump_bind (lift (load32 m (unat v0 + 24)))
       (\<lambda>t178. if t178 \<noteq> 192 then Ret (m, v1)
         else jump_bind (new_stmt vsnprintf snprintf v7 m v0 32 4)
           (\<lambda>(m, v2). jump_bind (newchunk vsnprintf snprintf v7 m v0 212)
             (\<lambda>(m, v4). lift (do {
                m \<leftarrow> store32 m (unat v4 + 8) 21;
                m \<leftarrow> store32 m (unat v4 + 20) 0x69000000;
                m \<leftarrow> store32 m (unat v4 + 4) v2;
                m \<leftarrow> store32 m (unat v4 + 96) v4;
                gen_and m v4 v1
              }))))"

text \<open>
  \<open>l88\<close>: a block that accepts a packet of at most the snapshot length for the exits of a true expression,
  and one that rejects for the others; the first block of the expression is stored in the handle.
\<close>

definition finish_ends ::
  "formatter \<Rightarrow> formatter \<Rightarrow> u32 \<Rightarrow> memory \<Rightarrow> u32 \<Rightarrow> u32 \<Rightarrow> memory jump" where
  "finish_ends vsnprintf snprintf v7 m v0 v1 =
     jump_bind (lift (load32 m (unat v0 + 20)))
       (\<lambda>v2. jump_bind (gen_retblk vsnprintf snprintf v7 m v0 v2)
       (\<lambda>(m, v5). jump_bind (lift (do {
            m \<leftarrow> (if v1 \<noteq> 0 then backpatch m v1 v5 else Some m);
            t207 \<leftarrow> load32 m (unat v1 + 44);
            store32 m (unat v1 + 44) (if t207 = 0 then 1 else 0)
          }))
       (\<lambda>m. jump_bind (gen_retblk vsnprintf snprintf v7 m v0 0)
       (\<lambda>(m, v5). lift (do {
            m \<leftarrow> backpatch m v1 v5;
            t215 \<leftarrow> load32 m (unat v1 + 96);
            store32 m (unat v0 + 12) t215
          })))))"

section \<open>The whole function\<close>

text \<open>What \<open>_finish_parse\<close> puts before the first test \<open>v11\<close>, from \<open>l5\<close> on.\<close>

definition finish_payload ::
  "formatter \<Rightarrow> formatter \<Rightarrow> u32 \<Rightarrow> memory \<Rightarrow> u32 \<Rightarrow> u32 \<Rightarrow> (u32 \<times> u32) option \<Rightarrow> memory jump" where
  "finish_payload vsnprintf snprintf v7 m v0 v11 r =
     (let vs = vsnprintf; sn = snprintf;
          l50 = (\<lambda>m v5. lift (hang_stmts m v11 v5));
          l44 = (\<lambda>m. jump_bind (payload_regs vs sn v7 m v0)
            (\<lambda>(m, r). case r of None \<Rightarrow> Ret m | Some v5 \<Rightarrow> l50 m v5));
          l43 = (\<lambda>m v5 v8. jump_bind (wlan_header vs sn v7 v0 v5 v8 m) (\<lambda>m. l50 m v5));
          l42 = (\<lambda>m v8. jump_bind (lift (load32 m (unat v0 + 88)))
            (\<lambda>v2. jump_bind (new_stmt vs sn v7 m v0 1 v2) (\<lambda>(m, v5). l43 m v5 v8)));
          used = (\<lambda>m no yes. jump_bind (lift (load32 m (unat v0 + 104))) (\<lambda>t. if t = - 1 then no m else yes m));
          first = (\<lambda>m. lift (do {
            m \<leftarrow> store32 m (unat v0 + 40) 1;
            v8 \<leftarrow> load32 m (unat v11 + 4);
            Some (m, v8)
          }))
      in case r of
           None \<Rightarrow> used m l44 (\<lambda>m. jump_bind (first m) (\<lambda>(m, v8). l42 m v8))
         | Some (v5, v2) \<Rightarrow>
             (let l39 = (\<lambda>m. if v5 \<noteq> 0 then l50 m v5 else l44 m)
              in if v2 \<in> {105, 119, 127, 192, 163} then
                   used m l39 (\<lambda>m. jump_bind (first m) (\<lambda>(m, v8). if v5 = 0 then l42 m v8 else l43 m v5 v8))
                 else if v2 = 117 then
                   used m l44 (\<lambda>m. jump_bind (pflog_header vs sn v7 m v0) (\<lambda>(m, v5). l50 m v5))
                 else l39 m))"

definition finish_parse ::
  "formatter \<Rightarrow> formatter \<Rightarrow> u32 \<Rightarrow> memory \<Rightarrow> u32 \<Rightarrow> u32 \<Rightarrow> (memory \<times> u32) jump" where
  "finish_parse vsnprintf snprintf sp m v0 v1 =
     (let v7 = sp - 192; vs = vsnprintf; sn = snprintf
      in jump_bind (lift (load32 m (unat v1 + 96)))
        (\<lambda>v11. jump_bind (finish_prologue vs sn v7 m v0)
        (\<lambda>m. jump_bind (finish_header vs sn v7 m v0)
        (\<lambda>(m, r). jump_bind (finish_payload vs sn v7 m v0 v11 r)
        (\<lambda>m. jump_bind (ppi_test vs sn v7 m v0 v1)
        (\<lambda>(m, v1). jump_bind (finish_ends vs sn v7 m v0 v1)
        (\<lambda>m. Ret (m, 0))))))))"

end
