(* ===== verification/Emit_Convert.thy ===== *)
theory Emit_Convert
  imports Emit_Parts
begin

text \<open>
  \<open>_convert_code_r\<close> on a graph of blocks in memory (\<open>convert_at\<close>): it writes the blocks it reaches
  to the end of the program, each one laid out as the theory \<open>Icode\<close> asks, or plans one more long
  jump and gives up. The graph has no cycle and its statements do not jump.
\<close>

section \<open>The conversion at work\<close>

text \<open>
  A round of the conversion: the graph (its blocks, a rank that falls along the edges, the blocks
  and their statements in memory), the addresses of the two state records, the place of the
  program with the number of its slots, and the heap pointer. \<open>others\<close> are words of other parts of the
  compiler, each with its value, that the conversion does not change.
\<close>

record conv_layout =
  gblocks :: "u32 set"
  grank :: "u32 \<Rightarrow> nat"
  gcode :: icode
  gstmts :: "u32 \<Rightarrow> statement list"
  ic_at :: u32
  cs_at :: u32
  out_at :: nat
  slots :: nat
  heap_end :: nat
  others :: "(nat \<times> u32) set"

text \<open>Blocks and statements lie apart in the heap below the program, the records on the stack.\<close>

definition other_place :: "conv_layout \<Rightarrow> nat \<Rightarrow> bool" where
  "other_place E a \<longleftrightarrow>
     127840 \<le> a \<and> a + 4 \<le> out_at E \<and> (\<forall>b \<in> gblocks E. span a 4 \<inter> span (unat b) 212 = {}) \<or>
     a + 4 \<le> 125436 \<and> span a 4 \<inter> (span (unat (ic_at E) + 4) 4 \<union> span (unat (cs_at E)) 16) = {}"

definition graph_layout :: "conv_layout \<Rightarrow> bool" where
  "graph_layout E \<longleftrightarrow> icode_ok (gblocks E) (grank E) (gcode E) \<and>
     (\<forall>b \<in> gblocks E. body (gcode E b) = live_stmts (gstmts E b) \<and> 127840 \<le> unat b \<and>
        unat b + 212 \<le> out_at E \<and>
        (\<forall>c \<in> gblocks E. b \<noteq> c \<longrightarrow> unat b + 212 \<le> unat c \<or> unat c + 212 \<le> unat b) \<and>
        (\<forall>x \<in> set (gstmts E b). stmt_span x \<subseteq> {127840..<out_at E} \<and>
           (\<forall>c \<in> gblocks E. stmt_span x \<inter> span (unat c) 212 = {}))) \<and>
     (\<forall>x \<in> others E. other_place E (fst x))"

definition layout_ok :: "conv_layout \<Rightarrow> bool" where
  "layout_ok E \<longleftrightarrow> graph_layout E \<and>
     out_at E + 8 * slots E \<le> heap_end E \<and> heap_end E < 2 ^ 32 \<and> 8 * slots E < 2 ^ 31 \<and>
     127840 \<le> out_at E \<and> unat (ic_at E) + 8 \<le> 125436 \<and> unat (cs_at E) + 16 \<le> 125436 \<and>
     (unat (ic_at E) + 8 \<le> unat (cs_at E) \<or> unat (cs_at E) + 16 \<le> unat (ic_at E))"

definition graph_in :: "conv_layout \<Rightarrow> memory \<Rightarrow> bool" where
  "graph_in E m \<longleftrightarrow> (\<forall>x \<in> others E. load32 m (fst x) = Some (snd x)) \<and> (\<forall>b \<in> gblocks E.
     (\<exists>p. load32 m (unat b + 4) = Some p \<and> stmts_at m p (gstmts E b)) \<and>
     load32 m (unat b + 8) = Some (test (gcode E b)) \<and> load32 m (unat b + 20) = Some (bound (gcode E b)) \<and>
     load32 m (unat b + 60) = Some (yes (gcode E b)) \<and> load32 m (unat b + 84) = Some (no (gcode E b)))"

text \<open>The words of the graph that the conversion only reads.\<close>

definition fixed_of :: "conv_layout \<Rightarrow> u32 \<Rightarrow> nat set" where
  "fixed_of E b = span (unat b + 4) 8 \<union> span (unat b + 20) 4 \<union> span (unat b + 60) 4 \<union> span (unat b + 84) 4 \<union>
     (\<Union>x \<in> set (gstmts E b). stmt_span x)"

definition fixed :: "conv_layout \<Rightarrow> nat set" where
  "fixed E = (\<Union>b \<in> gblocks E. fixed_of E b) \<union> (\<Union>x \<in> others E. span (fst x) 4)"

lemma graph_in_kept:
  assumes "graph_in E m" "kept A m m'" "A \<inter> fixed E = {}"
  shows "graph_in E m'"
proof -
  have f: "fixed_of E b \<inter> A = {}" if "b \<in> gblocks E" for b
    using assms(3) that by (auto simp: fixed_def)
  have "stmt_span x \<inter> A = {}" if "b \<in> gblocks E" "x \<in> set (gstmts E b)" for b x
    using f [OF that(1)] that(2) by (auto simp: fixed_of_def)
  then have "stmts_at m p (gstmts E b) \<Longrightarrow> b \<in> gblocks E \<Longrightarrow> stmts_at m' p (gstmts E b)" for b p
    using stmts_at_kept [OF _ assms(2)] by blast
  moreover have "load32 m (unat b + off) = Some v \<Longrightarrow> load32 m' (unat b + off) = Some v"
    if "b \<in> gblocks E" "off \<in> {4, 8, 20, 60, 84}" for b off v
  proof (rule kept_load32 [OF assms(2)])
    have "span (unat b + off) 4 \<subseteq> fixed_of E b" using that(2) by (auto simp: fixed_of_def)
    with f [OF that(1)] show "span (unat b + off) 4 \<inter> A = {}" by blast
  qed
  moreover have "load32 m' (fst x) = Some (snd x)" if "x \<in> others E" for x
  proof (rule kept_load32 [OF assms(2)])
    show "load32 m (fst x) = Some (snd x)" using assms(1) that by (simp add: graph_in_def)
    show "span (fst x) 4 \<inter> A = {}" using assms(3) that unfolding fixed_def by blast
  qed
  ultimately show ?thesis using assms(1) unfolding graph_in_def by (meson insertCI)
qed

text \<open>What it may write: its own words of the blocks, and the area \<open>work\<close>.\<close>

definition work :: "conv_layout \<Rightarrow> nat set" where
  "work E = own_bytes \<union> span (out_at E) (8 * slots E) \<union> {heap_end E..}"

lemma fixed_range:
  assumes "graph_layout E"
  shows "fixed E \<subseteq> {127840..<out_at E} \<union> ({..<125436} - (span (unat (ic_at E) + 4) 4 \<union> span (unat (cs_at E)) 16))"
proof -
  have "fixed_of E b \<subseteq> {127840..<out_at E}" if "b \<in> gblocks E" for b
  proof -
    have "127840 \<le> unat b" "unat b + 212 \<le> out_at E" "\<forall>x \<in> set (gstmts E b). stmt_span x \<subseteq> {127840..<out_at E}"
      using assms that by (auto simp: graph_layout_def)
    then show ?thesis unfolding fixed_of_def by (intro Un_least UN_least) auto
  qed
  moreover have "span (fst x) 4 \<subseteq> {127840..<out_at E} \<union> ({..<125436} - (span (unat (ic_at E) + 4) 4 \<union> span (unat (cs_at E)) 16))"
    if "x \<in> others E" for x
  proof -
    have "other_place E (fst x)" using assms that by (simp add: graph_layout_def)
    then show ?thesis unfolding other_place_def by (elim disjE conjE) auto
  qed
  ultimately show ?thesis unfolding fixed_def by blast
qed

lemma work_fixed:
  assumes "layout_ok E"
  shows "work E \<inter> fixed E = {}"
proof -
  have "work E \<inter> ({127840..<out_at E} \<union> {..<125436}) = {}"
    using assms by (auto simp: work_def own_bytes_def layout_ok_def)
  moreover have "graph_layout E" using assms by (simp add: layout_ok_def)
  ultimately show ?thesis using fixed_range [of E] by blast
qed

lemma work_apart:
  assumes "layout_ok E" "b \<in> gblocks E" "off + 4 \<le> 212"
  shows "span (unat b + off) 4 \<inter> work E = {}"
proof -
  have b: "127840 \<le> unat b" "unat b + 212 \<le> out_at E" "graph_layout E" "out_at E + 8 * slots E \<le> heap_end E"
    using assms by (auto simp: layout_ok_def graph_layout_def)
  show ?thesis
    using b assms(3) unfolding work_def by (auto simp: Int_Un_distrib own_bytes_def)
qed

lemma own_word_apart:
  assumes "graph_layout E" "b \<in> gblocks E" "off \<in> {24, 28, 32, 40}"
  shows "span (unat b + off) 4 \<inter> fixed E = {}"
proof -
  have "span (unat b + off) 4 \<inter> fixed_of E c = {}" if "c \<in> gblocks E" for c
  proof -
    have sub: "span (unat b + off) 4 \<subseteq> span (unat b) 212" using assms(3) by auto
    have st: "stmt_span x \<inter> span (unat b) 212 = {}" if "x \<in> set (gstmts E c)" for x
      using assms(1,2) \<open>c \<in> gblocks E\<close> that by (auto simp: graph_layout_def)
    have "span (unat b + off) 4 \<inter> (span (unat c + 4) 8 \<union> span (unat c + 20) 4 \<union> span (unat c + 60) 4 \<union> span (unat c + 84) 4) = {}"
    proof (cases "b = c")
      case True
      with assms(3) show ?thesis by (auto simp: Int_Un_distrib)
    next
      case False
      with assms(1,2) \<open>c \<in> gblocks E\<close> have "unat b + 212 \<le> unat c \<or> unat c + 212 \<le> unat b"
        by (auto simp: graph_layout_def)
      with assms(3) show ?thesis by (auto simp: Int_Un_distrib)
    qed
    with st sub show ?thesis unfolding fixed_of_def by blast
  qed
  moreover have "span (unat b + off) 4 \<inter> span (fst x) 4 = {}" if "x \<in> others E" for x
  proof -
    have sub: "span (unat b + off) 4 \<subseteq> span (unat b) 212" using assms(3) by auto
    have "127840 \<le> unat b" "other_place E (fst x)" using assms(1,2) that by (auto simp: graph_layout_def)
    then have "span (fst x) 4 \<inter> span (unat b) 212 = {}" unfolding other_place_def using assms(2) by (elim disjE conjE) auto
    with sub show ?thesis by blast
  qed
  ultimately show ?thesis unfolding fixed_def by blast
qed

section \<open>The state of a round\<close>

text \<open>
  \<open>mk\<close> are the marks of the blocks, \<open>lj\<close> and \<open>lf\<close> the planned long jumps, \<open>t\<close> the first slot that
  is written. The list of the addresses of its statements fits above the heap.
\<close>

definition marked_graph ::
  "conv_layout \<Rightarrow> u32 \<Rightarrow> (u32 \<Rightarrow> u32) \<Rightarrow> (u32 \<Rightarrow> u32) \<Rightarrow> (u32 \<Rightarrow> u32) \<Rightarrow> memory \<Rightarrow> bool" where
  "marked_graph E mark mk lj lf m \<longleftrightarrow>
     graph_in E m \<and> load32 m (unat (ic_at E) + 4) = Some mark \<and>
     (\<forall>b \<in> gblocks E. load32 m (unat b + 24) = Some (mk b) \<and>
        load32 m (unat b + 28) = Some (lj b) \<and> load32 m (unat b + 32) = Some (lf b) \<and> lj b \<le> 1 \<and> lf b \<le> 1)"

definition conv_state ::
  "conv_layout \<Rightarrow> u32 \<Rightarrow> (u32 \<Rightarrow> u32) \<Rightarrow> (u32 \<Rightarrow> u32) \<Rightarrow> (u32 \<Rightarrow> u32) \<Rightarrow> nat \<Rightarrow> memory \<Rightarrow> bool" where
  "conv_state E mark mk lj lf t m \<longleftrightarrow>
     (\<exists>L. heap_inv m (heap_end E) L \<and> (L = 0 \<or> out_at E \<le> L)) \<and> marked_graph E mark mk lj lf m \<and>
     load32 m (unat (cs_at E) + 8) = Some (of_nat (out_at E)) \<and>
     load32 m (unat (cs_at E) + 12) = Some (of_nat (out_at E + 8 * t)) \<and>
     (\<forall>b \<in> gblocks E. heap_end E + round_up 4 (4 * length (body (gcode E b))) \<le> 2 ^ 32)"

lemmas conv_state_defs = conv_state_def marked_graph_def

lemma conv_state_work:
  assumes ok: "layout_ok E" and st: "conv_state E mark mk lj lf t m"
    and k: "kept (work E) m m'" and inv: "heap_inv m' (heap_end E) L" "L = 0 \<or> out_at E \<le> L"
  shows "conv_state E mark mk lj lf t m'"
proof -
  have "graph_in E m'"
    by (rule graph_in_kept [OF _ k work_fixed [OF ok]]) (use st in \<open>simp add: conv_state_defs\<close>)
  moreover have "load32 m' (unat b + off) = Some v"
    if "b \<in> gblocks E" "off + 4 \<le> 212" "load32 m (unat b + off) = Some v" for b off v
    by (rule kept_load32 [OF k that(3) work_apart [OF ok that(1,2)]])
  moreover have "load32 m' a = Some v" if "a + 4 \<le> 125436" "load32 m a = Some v" for a v
    by (rule kept_load32 [OF k that(2)]) (use ok that in \<open>auto simp: layout_ok_def work_def own_bytes_def\<close>)
  moreover have "unat (ic_at E) + 8 \<le> 125436" "unat (cs_at E) + 16 \<le> 125436" using ok by (simp_all add: layout_ok_def)
  moreover have "length m \<le> length m'" by (rule kept_length [OF k])
  moreover have "\<exists>L. heap_inv m' (heap_end E) L \<and> (L = 0 \<or> out_at E \<le> L)" using inv by blast
  ultimately show ?thesis using st unfolding conv_state_defs by (fastforce intro: order_trans)
qed

text \<open>Writing one of its words: the tail of the program, or a word of a block.\<close>

lemma heap_inv_word:
  assumes "heap_inv m H L" "store32 m a v = Some m'" "a + 4 \<le> 125436 \<or> 127840 \<le> a"
  shows "heap_inv m' H L"
  by (rule heap_inv_kept [OF assms(1) kept_store32 [OF assms(2)] length_store32 [OF assms(2)]])
    (use assms(3) in auto)

lemma conv_state_tail:
  assumes ok: "layout_ok E" and st: "conv_state E mark mk lj lf t m"
    and w: "store32 m (unat (cs_at E) + 12) (of_nat (out_at E + 8 * t')) = Some m'"
  shows "conv_state E mark mk lj lf t' m'"
proof -
  note k = kept_store32 [OF w]
  have a: "unat (cs_at E) + 16 \<le> 125436" "unat (ic_at E) + 8 \<le> unat (cs_at E) \<or> unat (cs_at E) + 16 \<le> unat (ic_at E)"
    "\<And>b. b \<in> gblocks E \<Longrightarrow> 127840 \<le> unat b" and g: "graph_layout E"
    using ok by (auto simp: layout_ok_def graph_layout_def)
  have "graph_in E m'"
    by (rule graph_in_kept [OF _ k])
      (use st in \<open>simp add: conv_state_defs\<close>, use fixed_range [OF g] a(1) in fastforce)
  moreover have "load32 m' (unat b + off) = Some v"
    if "b \<in> gblocks E" "load32 m (unat b + off) = Some v" for b off v
    by (rule kept_load32 [OF k that(2)]) (use a that(1) in fastforce)
  moreover have "load32 m' (unat (ic_at E) + 4) = Some mark" "load32 m' (unat (cs_at E) + 8) = Some (of_nat (out_at E))"
    by (rule kept_load32 [OF k], use st in \<open>simp add: conv_state_defs\<close>, use a in auto)+
  moreover have "\<exists>L. heap_inv m' (heap_end E) L \<and> (L = 0 \<or> out_at E \<le> L)"
    using st heap_inv_word [OF _ w] a(1) unfolding conv_state_defs by fastforce
  ultimately show ?thesis using st load32_store32 [OF w] length_store32 [OF w] unfolding conv_state_defs by simp
qed

lemma conv_state_own:
  assumes ok: "layout_ok E" and st: "conv_state E mark mk lj lf t m" and b: "b \<in> gblocks E"
    and w: "store32 m (unat b + off) v = Some m'"
  shows "off = 40 \<Longrightarrow> conv_state E mark mk lj lf t m'"
    "off = 24 \<Longrightarrow> conv_state E mark (mk(b := v)) lj lf t m'"
proof -
  note k = kept_store32 [OF w]
  have a: "127840 \<le> unat b" "\<And>c. c \<in> gblocks E \<Longrightarrow> c \<noteq> b \<Longrightarrow> unat b + 212 \<le> unat c \<or> unat c + 212 \<le> unat b"
    "unat (cs_at E) + 16 \<le> 125436" "unat (ic_at E) + 8 \<le> 125436" and g: "graph_layout E"
    using ok b by (auto simp: layout_ok_def graph_layout_def)
  have gi: "graph_in E m'" if "off \<in> {24, 40}"
    by (rule graph_in_kept [OF _ k own_word_apart [OF g b]]) (use st that in \<open>auto simp: conv_state_defs\<close>)
  have other: "load32 m' (unat c + o') = Some x"
    if "c \<in> gblocks E" "load32 m (unat c + o') = Some x" "o' \<in> {24, 28, 32}" "off \<in> {24, 40}" "c \<noteq> b \<or> o' \<noteq> off" for c o' x
  proof (rule kept_load32 [OF k that(2)])
    show "span (unat c + o') 4 \<inter> span (unat b + off) 4 = {}"
      using a(2) [OF that(1)] that by (cases "c = b") auto
  qed
  have low: "load32 m' x = Some y" if "load32 m x = Some y" "x + 4 \<le> 125436" for x y
    by (rule kept_load32 [OF k that(1)]) (use a that in auto)
  have i: "\<exists>L. heap_inv m' (heap_end E) L \<and> (L = 0 \<or> out_at E \<le> L)"
    using st heap_inv_word [OF _ w] a(1) unfolding conv_state_defs by fastforce
  have s: "load32 m' (unat (ic_at E) + 4) = Some mark" "load32 m' (unat (cs_at E) + 8) = Some (of_nat (out_at E))"
    "load32 m' (unat (cs_at E) + 12) = Some (of_nat (out_at E + 8 * t))"
    using st a unfolding conv_state_defs by (auto intro!: low)
  show "conv_state E mark mk lj lf t m'" if "off = 40"
    using st i s gi other that length_store32 [OF w] unfolding conv_state_defs by simp
  show "conv_state E mark (mk(b := v)) lj lf t m'" if "off = 24"
    using st i s gi other that length_store32 [OF w] load32_store32 [OF w] unfolding conv_state_defs by simp
qed

section \<open>Where the blocks are\<close>

definition block_size :: "conv_layout \<Rightarrow> (u32 \<Rightarrow> u32) \<Rightarrow> (u32 \<Rightarrow> u32) \<Rightarrow> u32 \<Rightarrow> nat" where
  "block_size E lj lf b = length (body (gcode E b)) + 1 + unat (lj b) + unat (lf b)"

definition total_size :: "conv_layout \<Rightarrow> (u32 \<Rightarrow> u32) \<Rightarrow> (u32 \<Rightarrow> u32) \<Rightarrow> u32 list \<Rightarrow> nat" where
  "total_size E lj lf us = sum_list (map (block_size E lj lf) us)"

text \<open>The blocks written, the last one first: they fill the program from its end.\<close>

definition start_of :: "conv_layout \<Rightarrow> (u32 \<Rightarrow> u32) \<Rightarrow> (u32 \<Rightarrow> u32) \<Rightarrow> u32 list \<Rightarrow> nat" where
  "start_of E lj lf us = slots E - total_size E lj lf us"

fun position :: "conv_layout \<Rightarrow> (u32 \<Rightarrow> u32) \<Rightarrow> (u32 \<Rightarrow> u32) \<Rightarrow> u32 list \<Rightarrow> u32 \<Rightarrow> nat" where
  "position E lj lf [] b = 0"
| "position E lj lf (c # us) b = (if b = c then start_of E lj lf (c # us) else position E lj lf us b)"

lemma total_size_Cons [simp]: "total_size E lj lf (b # us) = block_size E lj lf b + total_size E lj lf us"
  by (simp add: total_size_def)

lemma position_range:
  assumes "c \<in> set us" "total_size E lj lf us \<le> slots E"
  shows "start_of E lj lf us \<le> position E lj lf us c"
    "position E lj lf us c + block_size E lj lf c \<le> slots E"
  using assms by (induction us) (auto simp: start_of_def)

definition prog_of :: "conv_layout \<Rightarrow> memory \<Rightarrow> raw_instruction list" where
  "prog_of E m = map (\<lambda>i. the (insn_at m (out_at E + 8 * i))) [0..<slots E]"

lemma length_prog_of [simp]: "length (prog_of E m) = slots E"
  by (simp add: prog_of_def)

lemma prog_of_nth: "i < slots E \<Longrightarrow> prog_of E m ! i = the (insn_at m (out_at E + 8 * i))"
  by (simp add: prog_of_def)

lemma insn_at_in: "p + 8 \<le> length m \<Longrightarrow> \<exists>i. insn_at m p = Some i"
proof -
  assume a: "p + 8 \<le> length m"
  then obtain op k where "load16 m p = Some op" "load32 m (p + 4) = Some k"
    using cell16.load_in [of p m] load32_in [of "p + 4" m] unfolding load16_def by auto
  with a show ?thesis by (simp add: insn_at_def index_def)
qed

lemma insn_at_cells:
  assumes "insn_at m p = Some i"
  shows "load16 m p = Some (Op i)" "index m (p + 2) = Some (Jt i)" "index m (p + 3) = Some (Jf i)"
    "load32 m (p + 4) = Some (K i)"
  using assms by (auto simp: insn_at_def bind_eq_Some_conv simp del: index_Some_iff)

lemma insn_at_kept:
  assumes "insn_at m p = Some i" "kept A m m'" "span p 8 \<inter> A = {}"
  shows "insn_at m' p = Some i"
proof -
  note f = insn_at_cells [OF assms(1)]
  have "span p 2 \<inter> A = {}" "span (p + 4) 4 \<inter> A = {}" "p + 2 \<notin> A" "p + 3 \<notin> A"
    using assms(3) by (auto simp: disjoint_iff)
  with kept_load16 [OF assms(2) f(1)] kept_index [OF assms(2) f(2)] kept_index [OF assms(2) f(3)]
    kept_load32 [OF assms(2) f(4)]
  show ?thesis by (simp add: insn_at_def del: index_Some_iff)
qed

text \<open>The \<open>n\<close> instructions after \<open>e\<close> are jumps forward in the program.\<close>

definition tail_laid :: "raw_instruction list \<Rightarrow> nat \<Rightarrow> nat \<Rightarrow> bool" where
  "tail_laid prog e n \<longleftrightarrow> (\<forall>i < n. e + 1 + i < length prog \<and> Op (prog ! (e + 1 + i)) = 5 \<and> unat (K (prog ! (e + 1 + i))) < 2 ^ 31 \<and>
     e + 2 + i + unat (K (prog ! (e + 1 + i))) < length prog)"

lemma tail_laid_cong:
  assumes "tail_laid prog e n" "length prog' = length prog" "\<And>i. e < i \<Longrightarrow> i < length prog \<Longrightarrow> prog' ! i = prog ! i"
  shows "tail_laid prog' e n"
  using assms by (auto simp: tail_laid_def)

text \<open>The blocks of \<open>vis\<close> are written.\<close>

definition placed ::
  "conv_layout \<Rightarrow> (u32 \<Rightarrow> u32) \<Rightarrow> (u32 \<Rightarrow> u32) \<Rightarrow> u32 list \<Rightarrow> memory \<Rightarrow> bool" where
  "placed E lj lf vis m \<longleftrightarrow> (\<forall>c \<in> set vis.
     load32 m (unat c + 40) = Some (of_nat (position E lj lf vis c)) \<and>
     block_laid (prog_of E m) (position E lj lf vis) c (gcode E c) \<and>
     tail_laid (prog_of E m) (position E lj lf vis c + length (body (gcode E c))) (unat (lj c) + unat (lf c)))"

lemma leads_cong:
  assumes "leads prog p t" "length prog' = length prog" "\<And>i. s \<le> i \<Longrightarrow> i < length prog \<Longrightarrow> prog' ! i = prog ! i" "s \<le> p"
  shows "leads prog' p t"
  using assms by (auto simp: leads_def)

lemma block_laid_cong:
  assumes "block_laid prog pos b k" "length prog' = length prog"
    "\<And>i. s \<le> i \<Longrightarrow> i < length prog \<Longrightarrow> prog' ! i = prog ! i" "s \<le> pos b"
    and "pos' b = pos b" "yes k \<noteq> 0 \<Longrightarrow> pos' (yes k) = pos (yes k) \<and> pos' (no k) = pos (no k)"
  shows "block_laid prog' pos' b k"
proof -
  let ?e = "pos b + length (body k)"
  have l: "?e < length prog" using assms(1) by (simp add: block_laid_def Let_def)
  have same: "prog' ! (pos b + i) = prog ! (pos b + i)" if "i \<le> length (body k)" for i
    using assms(3) [of "pos b + i"] assms(4) l that by simp
  have "leads prog' p t" if "leads prog p t" "?e \<le> p" for p t
    by (rule leads_cong [OF that(1) assms(2,3)]) (use that(2) assms(4) in auto)
  with assms(1,2,5,6) same show ?thesis by (simp add: block_laid_def Let_def)
qed

lemma prog_of_kept:
  assumes "kept A m m'" "span (out_at E + 8 * s) (8 * (slots E - s)) \<inter> A = {}" "out_at E + 8 * slots E \<le> length m"
    "s \<le> i" "i < slots E"
  shows "prog_of E m' ! i = prog_of E m ! i"
proof -
  obtain x where x: "insn_at m (out_at E + 8 * i) = Some x"
    using insn_at_in [of "out_at E + 8 * i" m] assms(3,5) by auto
  have "span (out_at E + 8 * i) 8 \<subseteq> span (out_at E + 8 * s) (8 * (slots E - s))" using assms(4,5) by auto
  with assms(2) have "span (out_at E + 8 * i) 8 \<inter> A = {}" by blast
  with insn_at_kept [OF x assms(1)] x show ?thesis by (simp add: prog_of_nth assms(5))
qed

lemma placed_kept:
  assumes p: "placed E lj lf vis m" and k: "kept A m m'"
    and a: "span (out_at E + 8 * start_of E lj lf vis) (8 * (slots E - start_of E lj lf vis)) \<inter> A = {}"
    and own: "\<And>c. c \<in> set vis \<Longrightarrow> span (unat c + 40) 4 \<inter> A = {}"
    and len: "out_at E + 8 * slots E \<le> length m" and size: "total_size E lj lf vis \<le> slots E"
  shows "placed E lj lf vis m'"
proof -
  have "block_laid (prog_of E m') (position E lj lf vis) c (gcode E c)" if "c \<in> set vis" for c
  proof (rule block_laid_cong [where s = "start_of E lj lf vis"])
    show "block_laid (prog_of E m) (position E lj lf vis) c (gcode E c)" using p that by (simp add: placed_def)
    show "start_of E lj lf vis \<le> position E lj lf vis c" by (rule position_range [OF that size])
    show "prog_of E m' ! i = prog_of E m ! i" if "start_of E lj lf vis \<le> i" "i < length (prog_of E m)" for i
      by (rule prog_of_kept [OF k a len that(1)]) (use that(2) in simp)
  qed simp_all
  moreover have "tail_laid (prog_of E m') (position E lj lf vis c + length (body (gcode E c))) (unat (lj c) + unat (lf c))"
    if "c \<in> set vis" for c
  proof (rule tail_laid_cong)
    show "tail_laid (prog_of E m) (position E lj lf vis c + length (body (gcode E c))) (unat (lj c) + unat (lf c))"
      using p that by (simp add: placed_def)
    show "prog_of E m' ! i = prog_of E m ! i"
      if "position E lj lf vis c + length (body (gcode E c)) < i" "i < length (prog_of E m)" for i
      by (rule prog_of_kept [OF k a len]) (use that position_range(1) [OF \<open>c \<in> set vis\<close> size] in simp_all)
  qed simp
  moreover have "load32 m' (unat c + 40) = Some (of_nat (position E lj lf vis c))" if "c \<in> set vis" for c
    by (rule kept_load32 [OF k _ own [OF that]]) (use p that in \<open>simp add: placed_def\<close>)
  ultimately show ?thesis by (simp add: placed_def)
qed

lemma offset_word:
  assumes "8 * s < 2 ^ 31"
  shows "signed_drop_bit 3 (of_nat (8 * s) :: u32) = of_nat s"
proof (rule signed_word_eqI)
  have "sint (of_nat n :: u32) = int n" if "n < 2 ^ 31" for n
    using that by (simp add: signed_of_nat signed_take_bit_int_eq_self)
  with assms show "sint (signed_drop_bit 3 (of_nat (8 * s) :: u32)) = sint (of_nat s :: u32)"
    by (simp add: sint_signed_drop_bit_eq drop_bit_eq_div del: of_nat_mult)
qed

lemma tail_word:
  "of_nat (p + 8 * (s + (len + 1 + unat a + unat c))) + push_bit 3 ((of_nat len XOR - 1) - (a + c) :: u32) =
    of_nat (p + 8 * s)"
proof -
  have "of_nat (unat a) = a" "of_nat (unat c) = c" by simp_all
  then show ?thesis
    unfolding xor_all_ones push_bit_eq_mult of_nat_add of_nat_mult by (simp only:) (simp add: algebra_simps)
qed

lemma place_block_at:
  assumes ok: "layout_ok E" and b: "b \<in> gblocks E"
    and st: "conv_state E mark mk lj lf (start_of E lj lf vis) m"
    and size: "total_size E lj lf (b # vis) \<le> slots E"
  defines "s \<equiv> start_of E lj lf (b # vis)"
  obtains m' where "place_block m (cs_at E) b =
      Some (m', of_nat (out_at E + 8 * s), of_nat (length (body (gcode E b))))"
    "conv_state E mark mk lj lf s m'" "load32 m' (unat b + 40) = Some (of_nat s)" "length m' = length m"
    "kept (span (unat (cs_at E) + 12) 4 \<union> span (unat b + 40) 4) m m'"
proof -
  let ?len = "length (body (gcode E b))"
  have g: "body (gcode E b) = live_stmts (gstmts E b)" "127840 \<le> unat b" "unat b + 212 \<le> out_at E"
    "unat (cs_at E) + 16 \<le> 125436" "8 * slots E < 2 ^ 31"
    using ok b by (auto simp: layout_ok_def graph_layout_def)
  obtain p where p: "load32 m (unat b + 4) = Some p" "stmts_at m p (gstmts E b)"
    using st b by (auto simp: conv_state_defs graph_in_def)
  have l: "load32 m (unat (cs_at E) + 12) = Some (of_nat (out_at E + 8 * start_of E lj lf vis))"
    "load32 m (unat (cs_at E) + 8) = Some (of_nat (out_at E))"
    "load32 m (unat b + 28) = Some (lj b)" "load32 m (unat b + 32) = Some (lf b)"
    using st b by (simp_all add: conv_state_defs)
  have cnt: "(if p = 0 then Some 0 else count_body m p 0) = Some (of_nat ?len)"
  proof (cases "gstmts E b = []")
    case True
    with p(2) g(1) show ?thesis by simp
  next
    case False
    then have "p \<noteq> 0" using p(2) by (cases "gstmts E b") auto
    with count_body_at [OF p(2) False, of 0] g(1) show ?thesis by simp
  qed
  have ss: "start_of E lj lf vis = s + (?len + 1 + unat (lj b) + unat (lf b))"
    using size by (simp add: s_def start_of_def block_size_def)
  have tw: "of_nat (out_at E + 8 * start_of E lj lf vis) + push_bit 3 ((of_nat ?len XOR - 1) - (lj b + lf b)) =
      (of_nat (out_at E + 8 * s) :: u32)"
    unfolding ss by (rule tail_word)
  have h: "heap_end E \<le> length m" "out_at E \<le> heap_end E" "127840 \<le> out_at E"
    using st ok by (auto simp: conv_state_defs heap_inv_def layout_ok_def)
  obtain m1 where m1: "store32 m (unat (cs_at E) + 12) (of_nat (out_at E + 8 * s)) = Some m1"
    using store32_in [of "unat (cs_at E) + 12" m] g h by auto
  have l1: "length m1 = length m" by (rule length_store32 [OF m1])
  note c1 = conv_state_tail [OF ok st m1]
  have base: "load32 m1 (unat (cs_at E) + 8) = Some (of_nat (out_at E))"
    using c1 by (simp add: conv_state_defs)
  have "s \<le> slots E" by (simp add: s_def start_of_def)
  then have "signed_drop_bit 3 (of_nat (out_at E + 8 * s) - of_nat (out_at E) :: u32) = of_nat s"
    using offset_word [of s] g(5) by simp
  moreover obtain m2 where m2: "store32 m1 (unat b + 40) (of_nat s) = Some m2"
    using store32_in [of "unat b + 40" m1] g h l1 by auto
  ultimately have "place_block m (cs_at E) b = Some (m2, of_nat (out_at E + 8 * s), of_nat ?len)"
    using p(1) cnt l tw m1 base by (simp add: place_block_def Let_def del: of_nat_add of_nat_mult)
  moreover have "conv_state E mark mk lj lf s m2" by (rule conv_state_own(1) [OF ok c1 b m2]) simp
  moreover have "kept (span (unat (cs_at E) + 12) 4 \<union> span (unat b + 40) 4) m m2"
    by (rule kept_trans [OF kept_mono [OF kept_store32 [OF m1]] kept_mono [OF kept_store32 [OF m2]]]) auto
  ultimately show thesis using that load32_store32 [OF m2] length_store32 [OF m2] l1 by simp
qed

text \<open>One more long jump is planned.\<close>

definition one_more :: "u32 \<Rightarrow> (u32 \<Rightarrow> u32) \<Rightarrow> (u32 \<Rightarrow> u32) \<Rightarrow> (u32 \<Rightarrow> u32) \<Rightarrow> (u32 \<Rightarrow> u32) \<Rightarrow> bool" where
  "one_more b lj lf lj' lf' \<longleftrightarrow>
     lj b = 0 \<and> lj' = lj(b := 1) \<and> lf' = lf \<or> lf b = 0 \<and> lj' = lj \<and> lf' = lf(b := 1)"

lemma conv_state_plan:
  assumes ok: "layout_ok E" and st: "conv_state E mark mk lj lf t m" and b: "b \<in> gblocks E"
    and k: "kept (A \<union> span (unat b + 28) 8) m m'" "A \<subseteq> span (out_at E) (8 * slots E)" "length m' = length m"
    and l: "load32 m' (unat b + 28) = Some a'" "load32 m' (unat b + 32) = Some c'"
      "lj b = 0 \<and> a' = 1 \<and> c' = lf b \<or> lf b = 0 \<and> a' = lj b \<and> c' = 1"
  shows "conv_state E mark mk (lj(b := a')) (lf(b := c')) t m'" "one_more b lj lf (lj(b := a')) (lf(b := c'))"
proof -
  have g: "graph_layout E" "127840 \<le> unat b" "unat b + 212 \<le> out_at E" "127840 \<le> out_at E"
    "unat (ic_at E) + 8 \<le> 125436" "unat (cs_at E) + 16 \<le> 125436"
    using ok b by (auto simp: layout_ok_def graph_layout_def)
  let ?B = "A \<union> span (unat b + 28) 8"
  have A: "A \<subseteq> work E" using k(2) by (auto simp: work_def)
  have "span (unat b + 28) 8 = span (unat b + 28) 4 \<union> span (unat b + 32) 4" by auto
  then have "span (unat b + 28) 8 \<inter> fixed E = {}"
    using own_word_apart [OF g(1) b, of 28] own_word_apart [OF g(1) b, of 32] by auto
  then have "?B \<inter> fixed E = {}" using A work_fixed [OF ok] by auto
  then have gi: "graph_in E m'" using st graph_in_kept [OF _ k(1)] by (simp add: conv_state_defs)
  have "?B \<inter> own_bytes = {}" using k(2) g by (auto simp: own_bytes_def)
  then have "\<exists>L. heap_inv m' (heap_end E) L \<and> (L = 0 \<or> out_at E \<le> L)"
    using st heap_inv_kept [OF _ k(1,3)] by (auto simp: conv_state_defs)
  moreover have low: "load32 m' x = Some y" if "load32 m x = Some y" "x + 4 \<le> 125436" for x y
  proof (rule kept_load32 [OF k(1) that(1)])
    have "?B \<subseteq> {127840..}" using k(2) g by auto
    with that(2) show "span x 4 \<inter> ?B = {}" by auto
  qed
  moreover have blk: "load32 m' (unat c + off) = Some v"
    if "c \<in> gblocks E" "load32 m (unat c + off) = Some v" "off = 24 \<or> off \<in> {28, 32} \<and> c \<noteq> b" for c off v
  proof (rule kept_load32 [OF k(1) that(2)])
    have "c \<noteq> b \<Longrightarrow> unat b + 212 \<le> unat c \<or> unat c + 212 \<le> unat b"
      using g(1) b that(1) by (auto simp: graph_layout_def)
    then have "span (unat c + off) 4 \<inter> span (unat b + 28) 8 = {}" using that(3) by (cases "c = b") auto
    moreover have "span (unat c + off) 4 \<inter> work E = {}"
      by (rule work_apart [OF ok that(1)]) (use that(3) in auto)
    ultimately show "span (unat c + off) 4 \<inter> ?B = {}" using A by blast
  qed
  moreover have "a' \<le> 1" "c' \<le> 1" using st b l(3) by (auto simp: conv_state_defs)
  ultimately show "conv_state E mark mk (lj(b := a')) (lf(b := c')) t m'"
    using st gi l(1,2) k(3) g(5,6) unfolding conv_state_defs by (auto intro!: low)
  show "one_more b lj lf (lj(b := a')) (lf(b := c'))"
    using l(3) by (auto simp: one_more_def fun_upd_idem)
qed

text \<open>
  The distance of a jump of \<open>b\<close> to \<open>t\<close> in a program with the blocks \<open>us\<close>: the long jumps of \<open>b\<close> and the
  blocks before \<open>t\<close>. A long jump is planned only where it is needed, and then it stays needed.
\<close>

fun before :: "conv_layout \<Rightarrow> (u32 \<Rightarrow> u32) \<Rightarrow> (u32 \<Rightarrow> u32) \<Rightarrow> u32 list \<Rightarrow> u32 \<Rightarrow> nat" where
  "before E lj lf [] t = 0"
| "before E lj lf (c # us) t = (if t = c then 0 else block_size E lj lf c + before E lj lf us t)"

definition after_block :: "u32 list \<Rightarrow> u32 \<Rightarrow> u32 list" where
  "after_block us b = tl (dropWhile (\<lambda>c. c \<noteq> b) us)"

definition far :: "conv_layout \<Rightarrow> u32 list \<Rightarrow> (u32 \<Rightarrow> u32) \<Rightarrow> (u32 \<Rightarrow> u32) \<Rightarrow> u32 \<Rightarrow> u32 \<Rightarrow> bool" where
  "far E us lj lf b t \<longleftrightarrow> 256 \<le> unat (lj b) + unat (lf b) + before E lj lf (after_block us b) t"

definition planned :: "conv_layout \<Rightarrow> u32 list \<Rightarrow> (u32 \<Rightarrow> u32) \<Rightarrow> (u32 \<Rightarrow> u32) \<Rightarrow> bool" where
  "planned E us lj lf \<longleftrightarrow> (\<forall>b \<in> gblocks E.
     (lj b \<noteq> 0 \<longrightarrow> yes (gcode E b) \<noteq> 0 \<and> far E us lj lf b (yes (gcode E b))) \<and>
     (lf b \<noteq> 0 \<longrightarrow> yes (gcode E b) \<noteq> 0 \<and> far E us lj lf b (no (gcode E b))))"

lemma planned_none: "planned E us (\<lambda>_. 0) (\<lambda>_. 0)"
  by (simp add: planned_def)

lemma dropWhile_other: "b \<notin> set pre \<Longrightarrow> dropWhile (\<lambda>c. c \<noteq> b) (pre @ b # vis) = b # vis"
  by (induction pre) auto

lemma after_block_suffix: "distinct us \<Longrightarrow> us = pre @ b # vis \<Longrightarrow> after_block us b = vis"
  by (simp add: after_block_def dropWhile_other)

lemma position_before:
  assumes "t \<in> set vis" "total_size E lj lf vis \<le> slots E"
  shows "position E lj lf vis t = start_of E lj lf vis + before E lj lf vis t"
  using assms by (induction vis) (auto simp: start_of_def)

lemma before_mono:
  assumes "\<And>c. unat (lj c) \<le> unat (lj' c) \<and> unat (lf c) \<le> unat (lf' c)"
  shows "before E lj lf us t \<le> before E lj' lf' us t"
proof (induction us)
  case (Cons c us)
  then show ?case using assms [of c] by (auto simp: block_size_def intro!: add_mono)
qed simp

lemma planned_more:
  assumes p: "planned E us lj lf" and us: "after_block us b = vis" and y: "yes (gcode E b) \<noteq> 0"
    and n: "lj b = 0 \<and> a' = 1 \<and> c' = lf b \<and> 256 \<le> unat (lj b) + unat (lf b) + before E lj lf vis (yes (gcode E b)) \<or>
      lf b = 0 \<and> a' = lj b \<and> c' = 1 \<and> 256 \<le> unat (lj b) + unat (lf b) + before E lj lf vis (no (gcode E b))"
  shows "planned E us (lj(b := a')) (lf(b := c'))"
proof -
  let ?lj = "lj(b := a')" and ?lf = "lf(b := c')"
  have le: "unat (lj c) \<le> unat (?lj c) \<and> unat (lf c) \<le> unat (?lf c)" for c using n by auto
  have more: "far E us ?lj ?lf c t" if "256 \<le> unat (lj c) + unat (lf c) + before E lj lf (after_block us c) t" for c t
    using that le [of c] before_mono [of lj ?lj lf ?lf E "after_block us c" t, OF le] unfolding far_def by linarith
  show ?thesis
    unfolding planned_def
  proof (intro ballI conjI impI)
    fix c assume c: "c \<in> gblocks E"
    have old: "lj c \<noteq> 0 \<Longrightarrow> yes (gcode E c) \<noteq> 0 \<and> 256 \<le> unat (lj c) + unat (lf c) + before E lj lf (after_block us c) (yes (gcode E c))"
      "lf c \<noteq> 0 \<Longrightarrow> yes (gcode E c) \<noteq> 0 \<and> 256 \<le> unat (lj c) + unat (lf c) + before E lj lf (after_block us c) (no (gcode E c))"
      using p c by (simp_all add: planned_def far_def)
    show "yes (gcode E c) \<noteq> 0" "far E us ?lj ?lf c (yes (gcode E c))" if "?lj c \<noteq> 0"
      using old(1) that n us y by (cases "c = b"; auto intro!: more)+
    show "yes (gcode E c) \<noteq> 0" "far E us ?lj ?lf c (no (gcode E c))" if "?lf c \<noteq> 0"
      using old(2) that n us y by (cases "c = b"; auto intro!: more)+
  qed
qed

text \<open>The slots of a block that has just been written.\<close>

lemma jump_leads:
  assumes j: "jump_at m (out_at E + 8 * e) j extra (t - e - 1)" and "e < t" "t < slots E" "e + extra < slots E"
    "8 * slots E < 2 ^ 31" "out_at E + 8 * slots E \<le> length m"
  shows "leads (prog_of E m) (e + 1 + unat j) t"
proof (cases "unat j = t - e - 1")
  case True
  with assms(2) show ?thesis by (simp add: leads_def)
next
  case False
  let ?i = "e + 1 + unat j"
  from False j have s: "unat j < extra" "unat j < t - e - 1"
    "load16 m (out_at E + 8 * ?i) = Some 5" "load32 m (out_at E + 8 * ?i + 4) = Some (of_nat (t - e - 1 - unat j - 1))"
    by (auto simp: jump_at_def algebra_simps)
  have i: "?i < slots E" using s(1) assms(4) by simp
  obtain x where x: "insn_at m (out_at E + 8 * ?i) = Some x"
    using insn_at_in [of "out_at E + 8 * ?i" m] assms(6) i by auto
  have "Op x = 5" "K x = of_nat (t - e - 1 - unat j - 1)" using insn_at_cells [OF x] s(3,4) by simp_all
  moreover have "unat (of_nat (t - e - 1 - unat j - 1) :: u32) = t - e - 1 - unat j - 1"
    using assms(3,5) by (intro unat_of_nat_small) simp
  moreover have "?i + 1 + (t - e - 1 - unat j - 1) = t" using s(2) assms(2) by simp
  ultimately show ?thesis
    using i x assms(3,5) unfolding leads_def by (intro disjI2) (simp add: prog_of_nth del: of_nat_diff)
qed

lemma long_jump_slot:
  assumes j: "jump_at m (out_at E + 8 * e) j extra (t - e - 1)" "256 \<le> t - e - 1" and "t < slots E" "e + extra < slots E"
    "8 * slots E < 2 ^ 31" "out_at E + 8 * slots E \<le> length m"
  shows "unat j < extra" "Op (prog_of E m ! (e + 1 + unat j)) = 5" "unat (K (prog_of E m ! (e + 1 + unat j))) < 2 ^ 31"
    "e + 2 + unat j + unat (K (prog_of E m ! (e + 1 + unat j))) < slots E"
proof -
  have ne: "unat j \<noteq> t - e - 1" using j(2) unat_u8_less [of j] by linarith
  have et: "e < t" using j(2) by simp
  from jump_leads [OF j(1) et assms(3-6)] ne et
  have "Op (prog_of E m ! (e + 1 + unat j)) = 5 \<and> unat (K (prog_of E m ! (e + 1 + unat j))) < 2 ^ 31 \<and>
      e + 1 + unat j + 1 + unat (K (prog_of E m ! (e + 1 + unat j))) = t"
    unfolding leads_def by auto
  with assms(3) show "Op (prog_of E m ! (e + 1 + unat j)) = 5" "unat (K (prog_of E m ! (e + 1 + unat j))) < 2 ^ 31"
    "e + 2 + unat j + unat (K (prog_of E m ! (e + 1 + unat j))) < slots E" by simp_all
  show "unat j < extra" using j(1) ne by (simp add: jump_at_def)
qed

lemma new_tail_laid:
  assumes ac: "a \<le> 1" "c \<le> (1 :: u32)"
    and j: "a \<noteq> 0 \<or> c \<noteq> 0 \<Longrightarrow> jump_at m (out_at E + 8 * e) jt (unat a + unat c) (y - e - 1) \<and>
        jump_at m (out_at E + 8 * e) jf (unat a + unat c) (z - e - 1) \<and> long_jumps jt jf (y - e - 1) (z - e - 1) \<and> y < slots E \<and> z < slots E"
    and d: "a \<noteq> 0 \<Longrightarrow> 256 \<le> y - e - 1" "c \<noteq> 0 \<Longrightarrow> 256 \<le> z - e - 1"
    and room: "e + (unat a + unat c) < slots E" "8 * slots E < 2 ^ 31" "out_at E + 8 * slots E \<le> length m"
  shows "tail_laid (prog_of E m) e (unat a + unat c)"
proof -
  have u: "unat a = (if a = 0 then 0 else 1)" "unat c = (if c = 0 then 0 else 1)"
    using ac by (auto simp: word_le_nat_alt word_unat_eq_iff)
  have "\<exists>j t. unat j = i \<and> jump_at m (out_at E + 8 * e) j (unat a + unat c) (t - e - 1) \<and> 256 \<le> t - e - 1 \<and> t < slots E"
    if i: "i < unat a + unat c" for i
  proof -
    have ne: "a \<noteq> 0 \<or> c \<noteq> 0" using i by auto
    note js = j [OF ne, unfolded long_jumps_def]
    show ?thesis
    proof (cases "i = 0 \<and> 256 \<le> y - e - 1")
      case True
      with js show ?thesis by (intro exI [of _ jt] exI [of _ y]) simp
    next
      case False
      then have c: "c \<noteq> 0" using i d(1) u by (auto split: if_splits)
      with d(2) have z: "256 \<le> z - e - 1" by simp
      have "unat jf < unat a + unat c"
        using long_jump_slot(1) [of m E e jf "unat a + unat c" z] js z room by blast
      with js z False i u c d(1) have "unat jf = i" by (auto split: if_splits)
      with js z show ?thesis by (intro exI [of _ jf] exI [of _ z]) simp
    qed
  qed
  then show ?thesis
    unfolding tail_laid_def length_prog_of
  proof (intro allI impI)
    fix i assume ex: "\<And>i. i < unat a + unat c \<Longrightarrow> \<exists>j t. unat j = i \<and> jump_at m (out_at E + 8 * e) j (unat a + unat c) (t - e - 1) \<and>
        256 \<le> t - e - 1 \<and> t < slots E" and i: "i < unat a + unat c"
    from ex [OF i] obtain j t where t: "unat j = i" "jump_at m (out_at E + 8 * e) j (unat a + unat c) (t - e - 1)"
      "256 \<le> t - e - 1" "t < slots E" by (elim exE conjE)
    from long_jump_slot(2-4) [OF t(2-4) room, unfolded t(1)] i room(1)
    show "e + 1 + i < slots E \<and> Op (prog_of E m ! (e + 1 + i)) = 5 \<and> unat (K (prog_of E m ! (e + 1 + i))) < 2 ^ 31 \<and>
      e + 2 + i + unat (K (prog_of E m ! (e + 1 + i))) < slots E" by simp
  qed
qed

lemma new_block_laid:
  assumes c: "code_at m (out_at E + 8 * s) (body k)"
    and t: "load16 m (out_at E + 8 * (s + length (body k))) = Some (ucast (test k))"
      "load32 m (out_at E + 8 * (s + length (body k)) + 4) = Some (bound k)"
    and j: "yes k \<noteq> 0 \<Longrightarrow> \<exists>jt jf. index m (out_at E + 8 * (s + length (body k)) + 2) = Some jt \<and>
        index m (out_at E + 8 * (s + length (body k)) + 3) = Some jf \<and>
        jump_at m (out_at E + 8 * (s + length (body k))) jt extra (pos (yes k) - (s + length (body k)) - 1) \<and>
        jump_at m (out_at E + 8 * (s + length (body k))) jf extra (pos (no k) - (s + length (body k)) - 1) \<and>
        s + length (body k) < pos (yes k) \<and> s + length (body k) < pos (no k) \<and> pos (yes k) < slots E \<and> pos (no k) < slots E"
    and room: "s + length (body k) + extra < slots E" "8 * slots E < 2 ^ 31" "out_at E + 8 * slots E \<le> length m"
    and pos: "pos b = s"
  shows "block_laid (prog_of E m) pos b k"
proof -
  let ?e = "s + length (body k)"
  have ins: "\<exists>x. insn_at m (out_at E + 8 * i) = Some x" if "i < slots E" for i
    using insn_at_in [of "out_at E + 8 * i" m] room(3) that by auto
  have bd: "Op (prog_of E m ! (s + i)) = ucast (fst (body k ! i)) \<and> K (prog_of E m ! (s + i)) = snd (body k ! i)"
    if i: "i < length (body k)" for i
  proof -
    have "s + i < slots E" using i room(1) by simp
    with ins obtain x where x: "insn_at m (out_at E + 8 * (s + i)) = Some x" by blast
    have "load16 m (out_at E + 8 * (s + i)) = Some (ucast (fst (body k ! i)))"
      "load32 m (out_at E + 8 * (s + i) + 4) = Some (snd (body k ! i))"
      using c i by (simp_all add: code_at_def algebra_simps)
    with insn_at_cells [OF x] x \<open>s + i < slots E\<close> show ?thesis by (simp add: prog_of_nth)
  qed
  have "?e < slots E" using room(1) by simp
  with ins obtain x where x: "insn_at m (out_at E + 8 * ?e) = Some x" by blast
  note f = insn_at_cells [OF x]
  have px: "prog_of E m ! ?e = x" using x room(1) by (simp add: prog_of_nth)
  have "leads (prog_of E m) (?e + 1 + unat (Jt x)) (pos (yes k)) \<and> leads (prog_of E m) (?e + 1 + unat (Jf x)) (pos (no k))"
    if "yes k \<noteq> 0"
  proof -
    from j [OF that] f(2,3) have "jump_at m (out_at E + 8 * ?e) (Jt x) extra (pos (yes k) - ?e - 1)"
      "jump_at m (out_at E + 8 * ?e) (Jf x) extra (pos (no k) - ?e - 1)"
      "?e < pos (yes k)" "?e < pos (no k)" "pos (yes k) < slots E" "pos (no k) < slots E"
      by (auto simp del: index_Some_iff)
    then show ?thesis using jump_leads [OF _ _ _ room] by blast
  qed
  with bd f(1,4) t room(1) px show ?thesis by (simp add: block_laid_def pos)
qed

text \<open>What \<open>_convert_code_r\<close> does to a block after its recursive calls.\<close>

lemma block_step:
  assumes ok: "layout_ok E" and b: "b \<in> gblocks E" "b \<notin> set vis"
    and st: "conv_state E mark mk lj lf (start_of E lj lf vis) m" and pl: "placed E lj lf vis m"
    and vis: "set vis \<subseteq> gblocks E" "yes (gcode E b) \<noteq> 0 \<longrightarrow> yes (gcode E b) \<in> set vis \<and> no (gcode E b) \<in> set vis"
    and closed: "\<forall>c \<in> set vis. yes (gcode E c) \<noteq> 0 \<longrightarrow> yes (gcode E c) \<in> set vis \<and> no (gcode E c) \<in> set vis"
    and size: "total_size E lj lf (b # vis) \<le> slots E"
    and us: "planned E us lj lf" "distinct us" "us = pre @ b # vis"
  shows "\<exists>m' r lj' lf'. jump_bind (lift (place_block m (cs_at E) b))
      (\<lambda>(m, v5, v6). jump_bind (emit_body vs sn v3 m (cs_at E) b v5 v6) (\<lambda>(m, v5). lift (emit_jumps m b v5 v6))) =
        Ret (m', r) \<and> length m \<le> length m' \<and>
    conv_state E mark mk lj' lf' (start_of E lj lf (b # vis)) m' \<and>
    (r = 1 \<and> lj' = lj \<and> lf' = lf \<and> placed E lj lf (b # vis) m' \<or> r = 0 \<and> one_more b lj lf lj' lf' \<and> planned E us lj' lf')"
proof -
  let ?k = "gcode E b" and ?s = "start_of E lj lf (b # vis)"
  let ?len = "length (body ?k)" and ?x = "unat (lj b) + unat (lf b)"
  let ?q = "out_at E + 8 * ?s" and ?e = "?s + ?len"
  have g: "body ?k = live_stmts (gstmts E b)" "127840 \<le> unat b" "unat b + 212 \<le> out_at E" "out_at E + 8 * slots E \<le> heap_end E"
    "heap_end E < 2 ^ 32" "8 * slots E < 2 ^ 31" "unat (cs_at E) + 16 \<le> 125436" "127840 \<le> out_at E" "graph_layout E"
    and apart: "\<And>c. c \<in> gblocks E \<Longrightarrow> c \<noteq> b \<Longrightarrow> unat b + 212 \<le> unat c \<or> unat c + 212 \<le> unat b"
    and low: "\<And>c. c \<in> gblocks E \<Longrightarrow> 127840 \<le> unat c \<and> unat c + 212 \<le> out_at E"
    and stm: "\<And>x. x \<in> set (gstmts E b) \<Longrightarrow> stmt_span x \<subseteq> {127840..<out_at E}"
    using ok b(1) by (auto simp: layout_ok_def graph_layout_def)
  have plain: "\<forall>x \<in> set (live_stmts (gstmts E b)). plain_code (fst x)"
    using g(1,9) b(1) by (auto simp: graph_layout_def icode_ok_def block_ok_def)
  have sz: "total_size E lj lf vis \<le> slots E" "start_of E lj lf vis = ?e + 1 + ?x" "start_of E lj lf vis \<le> slots E"
    using size by (auto simp: start_of_def block_size_def)
  obtain m1 where m1: "place_block m (cs_at E) b = Some (m1, of_nat ?q, of_nat ?len)"
    "conv_state E mark mk lj lf ?s m1" "load32 m1 (unat b + 40) = Some (of_nat ?s)" "length m1 = length m"
    "kept (span (unat (cs_at E) + 12) 4 \<union> span (unat b + 40) 4) m m1"
    by (rule place_block_at [OF ok b(1) st size])
  obtain L where L: "heap_inv m1 (heap_end E) L" "L = 0 \<or> out_at E \<le> L" using m1(2) by (auto simp: conv_state_defs)
  have hm: "heap_end E \<le> length m1" using L(1) by (simp add: heap_inv_def)
  have pl1: "placed E lj lf vis m1"
  proof (rule placed_kept [OF pl m1(5) _ _ _ sz(1)])
    show "span (unat c + 40) 4 \<inter> (span (unat (cs_at E) + 12) 4 \<union> span (unat b + 40) 4) = {}" if "c \<in> set vis" for c
    proof -
      have c: "c \<in> gblocks E" "c \<noteq> b" using that vis(1) b(2) by auto
      from apart [OF this] low [OF c(1)] g(7) show ?thesis by (auto simp: Int_Un_distrib)
    qed
  qed (use g hm m1(4) in \<open>auto simp: Int_Un_distrib\<close>)
  have uq: "unat (of_nat ?q :: u32) = ?q" using g(4,5) sz(2,3) by (intro unat_of_nat_small) simp
  obtain p where p: "load32 m1 (unat b + 4) = Some p" "stmts_at m1 p (gstmts E b)"
    using m1(2) b(1) by (auto simp: conv_state_defs graph_in_def)
  have "\<exists>m2 L'. emit_body vs sn v3 m1 (cs_at E) b (of_nat ?q) (of_nat ?len) =
      Ret (m2, of_nat ?q + of_nat (8 * length (live_stmts (gstmts E b)))) \<and>
    heap_inv m2 (heap_end E) L' \<and> (L' = L \<or> L' = 0) \<and>
    kept (own_bytes \<union> span (unat (of_nat ?q :: u32)) (8 * length (live_stmts (gstmts E b))) \<union> {heap_end E..}) m1 m2 \<and>
    code_at m2 (unat (of_nat ?q :: u32)) (live_stmts (gstmts E b))"
    by (rule emit_body_at [OF L(1) p plain _ _ g(2) stm])
      (use m1(2) b(1) g sz uq in \<open>auto simp: conv_state_defs\<close>)
  then obtain m2 L' where m2: "emit_body vs sn v3 m1 (cs_at E) b (of_nat ?q) (of_nat ?len) =
      Ret (m2, of_nat (out_at E + 8 * ?e))" "heap_inv m2 (heap_end E) L'"
    and L': "L' = L \<or> L' = 0"
    and m2k: "kept (own_bytes \<union> span ?q (8 * ?len) \<union> {heap_end E..}) m1 m2" "code_at m2 ?q (body ?k)"
    unfolding uq g(1) by (auto simp: algebra_simps)
  have lo: "L' = 0 \<or> out_at E \<le> L'" using L' L(2) by blast
  note m2 = m2 m2k
  have k2: "kept (work E) m1 m2"
    by (rule kept_mono [OF m2(3)]) (use sz(2,3) in \<open>auto simp: work_def\<close>)
  have c2: "conv_state E mark mk lj lf ?s m2" by (rule conv_state_work [OF ok m1(2) k2 m2(2) lo])
  have pl2: "placed E lj lf vis m2"
  proof (rule placed_kept [OF pl1 m2(3) _ _ _ sz(1)])
    show "span (unat c + 40) 4 \<inter> (own_bytes \<union> span ?q (8 * ?len) \<union> {heap_end E..}) = {}" if "c \<in> set vis" for c
      using low [of c] vis(1) that g(4) sz(2,3) by (auto simp: Int_Un_distrib own_bytes_def)
    show "span (out_at E + 8 * start_of E lj lf vis) (8 * (slots E - start_of E lj lf vis)) \<inter>
        (own_bytes \<union> span ?q (8 * ?len) \<union> {heap_end E..}) = {}"
      using g(4,8) sz(2,3) by (auto simp: Int_Un_distrib own_bytes_def)
  qed (use g hm in auto)
  have o2: "load32 m2 (unat b + 40) = Some (of_nat ?s)"
    by (rule kept_load32 [OF k2 m1(3) work_apart [OF ok b(1)]]) simp
  have ue: "unat (of_nat (out_at E + 8 * ?e) :: u32) = out_at E + 8 * ?e"
    using g(4,5) sz(2,3) by (intro unat_of_nat_small) simp
  have hm2: "heap_end E \<le> length m2" using m2(2) by (simp add: heap_inv_def)
  have bl: "load32 m2 (unat b + 8) = Some (test ?k)" "load32 m2 (unat b + 20) = Some (bound ?k)"
    "load32 m2 (unat b + 60) = Some (yes ?k)" "load32 m2 (unat b + 84) = Some (no ?k)"
    "load32 m2 (unat b + 28) = Some (lj b)" "load32 m2 (unat b + 32) = Some (lf b)" "lj b \<le> 1" "lf b \<le> 1"
    using c2 b(1) by (auto simp: conv_state_defs graph_in_def)
  have room: "out_at E + 8 * ?e + 8 * (1 + unat (lj b) + unat (lf b)) \<le> out_at E + 8 * slots E"
    using sz(2,3) by simp
  have tgt: "load32 m2 (unat (yes ?k) + 40) = Some (of_nat (position E lj lf vis (yes ?k))) \<and>
      load32 m2 (unat (no ?k) + 40) = Some (of_nat (position E lj lf vis (no ?k))) \<and>
      ?e < position E lj lf vis (yes ?k) \<and> ?e < position E lj lf vis (no ?k) \<and>
      position E lj lf vis (yes ?k) < slots E \<and> position E lj lf vis (no ?k) < slots E \<and>
      unat (yes ?k) + 212 \<le> out_at E \<and> unat (no ?k) + 212 \<le> out_at E" if "yes ?k \<noteq> 0"
  proof -
    have v: "yes ?k \<in> set vis" "no ?k \<in> set vis" using vis(2) that by blast+
    have "block_size E lj lf c > 0" for c by (simp add: block_size_def)
    then have "position E lj lf vis c < slots E" if "c \<in> set vis" for c
      using position_range(2) [OF that sz(1)] by (metis add_less_same_cancel1 le_neq_implies_less less_add_same_cancel1 not_le order_less_le_trans)
    with v pl2 position_range(1) [OF v(1) sz(1)] position_range(1) [OF v(2) sz(1)] sz(2) low vis(1)
    show ?thesis by (auto simp: placed_def)
  qed
  have len2: "length m \<le> length m2" using kept_length [OF k2] m1(4) by simp
  have n32: "slots E < 2 ^ 32" using g(6) by simp
  have "(\<exists>m3. emit_jumps m2 b (of_nat (out_at E + 8 * ?e)) (of_nat ?len) = Some (m3, 1) \<and> length m3 = length m2 \<and>
      kept (span (out_at E + 8 * ?e) (8 * (1 + unat (lj b) + unat (lf b)))) m2 m3 \<and>
      load16 m3 (out_at E + 8 * ?e) = Some (ucast (test ?k)) \<and> load32 m3 (out_at E + 8 * ?e + 4) = Some (bound ?k) \<and>
      (yes ?k \<noteq> 0 \<longrightarrow> (\<exists>jt jf. index m3 (out_at E + 8 * ?e + 2) = Some jt \<and> index m3 (out_at E + 8 * ?e + 3) = Some jf \<and>
        jump_at m3 (out_at E + 8 * ?e) jt ?x (position E lj lf vis (yes ?k) - ?e - 1) \<and>
        jump_at m3 (out_at E + 8 * ?e) jf ?x (position E lj lf vis (no ?k) - ?e - 1) \<and>
        long_jumps jt jf (position E lj lf vis (yes ?k) - ?e - 1) (position E lj lf vis (no ?k) - ?e - 1)))) \<or>
    (\<exists>m3 a' c'. emit_jumps m2 b (of_nat (out_at E + 8 * ?e)) (of_nat ?len) = Some (m3, 0) \<and> length m3 = length m2 \<and>
      kept (span (out_at E + 8 * ?e) (8 * (1 + unat (lj b) + unat (lf b))) \<union> span (unat b + 28) 8) m2 m3 \<and>
      load32 m3 (unat b + 28) = Some a' \<and> load32 m3 (unat b + 32) = Some c' \<and>
      yes ?k \<noteq> 0 \<and> (lj b = 0 \<and> a' = 1 \<and> c' = lf b \<and> 256 \<le> position E lj lf vis (yes ?k) - ?e - 1 \<or>
        lf b = 0 \<and> a' = lj b \<and> c' = 1 \<and> 256 \<le> position E lj lf vis (no ?k) - ?e - 1))"
    by (rule emit_jumps_at [OF bl o2 refl, where ?v5.0 = "of_nat (out_at E + 8 * ?e)", unfolded ue])
      (use tgt n32 room g hm2 in \<open>auto simp: less_trans\<close>)
  note emitted = this
  have after: "after_block us b = vis" by (rule after_block_suffix [OF us(2,3)])
  have dist: "position E lj lf vis (yes ?k) - ?e - 1 = ?x + before E lj lf vis (yes ?k)"
    "position E lj lf vis (no ?k) - ?e - 1 = ?x + before E lj lf vis (no ?k)" if "yes ?k \<noteq> 0"
    using vis(2) that position_before [OF _ sz(1)] sz(2) by auto
  from emitted show ?thesis
  proof (rule disjE, goal_cases)
    case 1
    let ?A = "span (out_at E + 8 * ?e) (8 * (1 + unat (lj b) + unat (lf b)))"
    from 1 obtain m3 where m3: "emit_jumps m2 b (of_nat (out_at E + 8 * ?e)) (of_nat ?len) = Some (m3, 1)" "length m3 = length m2"
      "kept ?A m2 m3" "load16 m3 (out_at E + 8 * ?e) = Some (ucast (test ?k))"
      "load32 m3 (out_at E + 8 * ?e + 4) = Some (bound ?k)"
      "yes ?k \<noteq> 0 \<longrightarrow> (\<exists>jt jf. index m3 (out_at E + 8 * ?e + 2) = Some jt \<and> index m3 (out_at E + 8 * ?e + 3) = Some jf \<and>
        jump_at m3 (out_at E + 8 * ?e) jt ?x (position E lj lf vis (yes ?k) - ?e - 1) \<and>
        jump_at m3 (out_at E + 8 * ?e) jf ?x (position E lj lf vis (no ?k) - ?e - 1) \<and>
        long_jumps jt jf (position E lj lf vis (yes ?k) - ?e - 1) (position E lj lf vis (no ?k) - ?e - 1))" by (elim exE conjE)
    have Aw: "?A \<subseteq> work E" using room by (auto simp: work_def)
    have "heap_inv m3 (heap_end E) L'" by (rule heap_inv_kept [OF m2(2) m3(3,2)]) (use g(8) in simp)
    then have c3: "conv_state E mark mk lj lf ?s m3" by (rule conv_state_work [OF ok c2 kept_mono [OF m3(3) Aw] _ lo])
    have pl3: "placed E lj lf vis m3"
    proof (rule placed_kept [OF pl2 m3(3) _ _ _ sz(1)])
      show "span (unat c + 40) 4 \<inter> ?A = {}" if "c \<in> set vis" for c
        using low [of c] vis(1) that by auto
    qed (use g hm2 sz(2) in auto)
    have o3: "load32 m3 (unat b + 40) = Some (of_nat ?s)"
      by (rule kept_load32 [OF m3(3) o2]) (use g(3) in simp)
    have "code_at m3 ?q (body ?k)" by (rule code_at_kept [OF m2(4) m3(3)]) simp
    then have "block_laid (prog_of E m3) (position E lj lf (b # vis)) b ?k"
    proof (rule new_block_laid [where extra = ?x, OF _ m3(4,5)])
      assume y: "yes ?k \<noteq> 0"
      have "yes ?k \<noteq> b" "no ?k \<noteq> b" using vis(2) y b(2) by auto
      from m3(6) [rule_format, OF y] have j: "\<exists>jt jf. index m3 (out_at E + 8 * ?e + 2) = Some jt \<and> index m3 (out_at E + 8 * ?e + 3) = Some jf \<and>
        jump_at m3 (out_at E + 8 * ?e) jt ?x (position E lj lf vis (yes ?k) - ?e - 1) \<and>
        jump_at m3 (out_at E + 8 * ?e) jf ?x (position E lj lf vis (no ?k) - ?e - 1)" by (elim exE conjE) (intro exI conjI)
      from \<open>yes ?k \<noteq> b\<close> \<open>no ?k \<noteq> b\<close> show "\<exists>jt jf. index m3 (out_at E + 8 * ?e + 2) = Some jt \<and> index m3 (out_at E + 8 * ?e + 3) = Some jf \<and>
        jump_at m3 (out_at E + 8 * ?e) jt ?x (position E lj lf (b # vis) (yes ?k) - ?e - 1) \<and>
        jump_at m3 (out_at E + 8 * ?e) jf ?x (position E lj lf (b # vis) (no ?k) - ?e - 1) \<and>
        ?e < position E lj lf (b # vis) (yes ?k) \<and> ?e < position E lj lf (b # vis) (no ?k) \<and>
        position E lj lf (b # vis) (yes ?k) < slots E \<and> position E lj lf (b # vis) (no ?k) < slots E"
        using j tgt [OF y] y by (simp del: index_Some_iff)
    qed (use sz g(4,6) m3(2) hm2 in auto)
    moreover have "block_laid (prog_of E m3) (position E lj lf (b # vis)) c (gcode E c) \<and>
        position E lj lf (b # vis) c = position E lj lf vis c" if c: "c \<in> set vis" for c
    proof -
      have "c \<noteq> b" "yes (gcode E c) \<noteq> 0 \<Longrightarrow> yes (gcode E c) \<noteq> b \<and> no (gcode E c) \<noteq> b"
        using c b(2) closed by auto
      then have p: "position E lj lf (b # vis) c = position E lj lf vis c"
        "yes (gcode E c) \<noteq> 0 \<Longrightarrow> position E lj lf (b # vis) (yes (gcode E c)) = position E lj lf vis (yes (gcode E c)) \<and>
          position E lj lf (b # vis) (no (gcode E c)) = position E lj lf vis (no (gcode E c))" by simp_all
      have "block_laid (prog_of E m3) (position E lj lf vis) c (gcode E c)"
        using pl3 c by (simp add: placed_def)
      from block_laid_cong [OF this refl refl _ p] p(1) show ?thesis by blast
    qed
    moreover have "tail_laid (prog_of E m3) ?e ?x"
    proof -
      have pb: "lj b \<noteq> 0 \<Longrightarrow> yes ?k \<noteq> 0 \<and> 256 \<le> ?x + before E lj lf vis (yes ?k)"
        "lf b \<noteq> 0 \<Longrightarrow> yes ?k \<noteq> 0 \<and> 256 \<le> ?x + before E lj lf vis (no ?k)"
        using bspec [OF us(1) [unfolded planned_def far_def] b(1), unfolded after] by blast+
      have far: "lj b \<noteq> 0 \<Longrightarrow> yes ?k \<noteq> 0 \<and> 256 \<le> position E lj lf vis (yes ?k) - ?e - 1"
        "lf b \<noteq> 0 \<Longrightarrow> yes ?k \<noteq> 0 \<and> 256 \<le> position E lj lf vis (no ?k) - ?e - 1"
        using pb dist by simp_all
      show ?thesis
      proof (cases "lj b = 0 \<and> lf b = 0")
        case True
        then show ?thesis by (simp add: tail_laid_def)
      next
        case False
        with far have y: "yes ?k \<noteq> 0" by blast
        from m3(6) y obtain jt jf where
          "jump_at m3 (out_at E + 8 * ?e) jt ?x (position E lj lf vis (yes ?k) - ?e - 1)"
          "jump_at m3 (out_at E + 8 * ?e) jf ?x (position E lj lf vis (no ?k) - ?e - 1)"
          "long_jumps jt jf (position E lj lf vis (yes ?k) - ?e - 1) (position E lj lf vis (no ?k) - ?e - 1)" by (elim impE exE conjE)
        with tgt [OF y] far bl(7,8) room g(4,6) m3(2) hm2 sz(2,3) show ?thesis
          by (intro new_tail_laid [where jt = jt and jf = jf and y = "position E lj lf vis (yes ?k)"
                and z = "position E lj lf vis (no ?k)"]) auto
      qed
    qed
    ultimately have "placed E lj lf (b # vis) m3" using pl3 o3 by (auto simp: placed_def)
    with c3 m1(1) m2(1) m3(1,2) len2 show ?thesis by (intro exI [of _ m3] exI [of _ 1] exI [of _ lj] exI [of _ lf]) simp
  next
    case 2
    let ?A = "span (out_at E + 8 * ?e) (8 * (1 + unat (lj b) + unat (lf b)))"
    from 2 obtain m3 a' c' where m3: "emit_jumps m2 b (of_nat (out_at E + 8 * ?e)) (of_nat ?len) = Some (m3, 0)" "length m3 = length m2"
      "kept (?A \<union> span (unat b + 28) 8) m2 m3"
      "load32 m3 (unat b + 28) = Some a'" "load32 m3 (unat b + 32) = Some c'"
      "yes ?k \<noteq> 0" "lj b = 0 \<and> a' = 1 \<and> c' = lf b \<and> 256 \<le> position E lj lf vis (yes ?k) - ?e - 1 \<or>
        lf b = 0 \<and> a' = lj b \<and> c' = 1 \<and> 256 \<le> position E lj lf vis (no ?k) - ?e - 1" by (elim exE conjE)
    have plan: "planned E us (lj(b := a')) (lf(b := c'))"
      by (rule planned_more [OF us(1) after m3(6)]) (use m3(7) dist [OF m3(6)] in auto)
    from m3(7) have one: "lj b = 0 \<and> a' = 1 \<and> c' = lf b \<or> lf b = 0 \<and> a' = lj b \<and> c' = 1" by blast
    have A: "?A \<subseteq> span (out_at E) (8 * slots E)" using room by auto
    from conv_state_plan [OF ok c2 b(1) m3(3) A m3(2,4,5) one] plan m1(1) m2(1) m3(1,2) len2 show ?thesis
      by (intro exI [of _ m3] exI [of _ 0] exI [of _ "lj(b := a')"] exI [of _ "lf(b := c')"]) simp
  qed
qed

section \<open>The traversal\<close>

text \<open>The order in which the blocks are written: depth first, the false successor first.\<close>

fun dfs :: "(u32 \<Rightarrow> u32) \<Rightarrow> (u32 \<Rightarrow> u32) \<Rightarrow> nat \<Rightarrow> u32 \<Rightarrow> u32 list \<Rightarrow> u32 list" where
  "dfs f g 0 b vis = vis"
| "dfs f g (Suc n) b vis =
     (if b = 0 \<or> b \<in> set vis then vis else b # dfs f g n (g b) (dfs f g n (f b) vis))"

definition succ_closed :: "(u32 \<Rightarrow> u32) \<Rightarrow> (u32 \<Rightarrow> u32) \<Rightarrow> u32 set \<Rightarrow> bool" where
  "succ_closed f g V \<longleftrightarrow> (\<forall>c \<in> V. (f c \<noteq> 0 \<longrightarrow> f c \<in> V) \<and> (g c \<noteq> 0 \<longrightarrow> g c \<in> V))"

text \<open>A graph without cycles: \<open>r\<close> falls along both edges.\<close>

definition falls :: "u32 set \<Rightarrow> (u32 \<Rightarrow> nat) \<Rightarrow> (u32 \<Rightarrow> u32) \<Rightarrow> bool" where
  "falls B r f \<longleftrightarrow> (\<forall>b \<in> B. f b \<noteq> 0 \<longrightarrow> f b \<in> B \<and> r (f b) < r b)"

lemma dfs_extends: "\<exists>us. dfs f g n b vis = us @ vis"
proof (induction n arbitrary: b vis)
  case (Suc n)
  from Suc.IH [of "f b" vis] Suc.IH [of "g b" "dfs f g n (f b) vis"] show ?case by auto
qed simp

lemma dfs_mono: "set vis \<subseteq> set (dfs f g n b vis)"
  using dfs_extends [of f g n b vis] by auto

lemma dfs_new:
  assumes "falls B r f" "falls B r g" "b = 0 \<or> b \<in> B" "c \<in> set (dfs f g n b vis)" "c \<notin> set vis"
  shows "c \<in> B" "r c \<le> r b" "b \<noteq> 0"
proof -
  have "c \<in> B \<and> r c \<le> r b \<and> b \<noteq> 0" using assms(3-5)
  proof (induction n arbitrary: b vis)
    case (Suc n)
    show ?case
    proof (cases "b = 0 \<or> b \<in> set vis")
      case False
      then have b: "b \<in> B" "f b = 0 \<or> f b \<in> B" "g b = 0 \<or> g b \<in> B" using Suc.prems(1) assms(1,2) by (auto simp: falls_def)
      from False Suc.prems(2) consider "c = b" | "c \<in> set (dfs f g n (f b) vis)"
        | "c \<in> set (dfs f g n (g b) (dfs f g n (f b) vis))" "c \<notin> set (dfs f g n (f b) vis)" by auto
      then show ?thesis
      proof cases
        case 2
        with Suc.IH [OF b(2) 2 Suc.prems(3)] b(1) assms(1) False show ?thesis by (auto simp: falls_def)
      next
        case 3
        with Suc.IH [OF b(3) 3] b(1) assms(2) False show ?thesis by (auto simp: falls_def)
      qed (use b False in auto)
    qed (use Suc.prems in auto)
  qed simp
  then show "c \<in> B" "r c \<le> r b" "b \<noteq> 0" by blast+
qed

lemma dfs_closed:
  assumes "falls B r f" "falls B r g" "b = 0 \<or> b \<in> B" "r b < n" "succ_closed f g (set vis)"
  shows "succ_closed f g (set (dfs f g n b vis)) \<and> (b \<noteq> 0 \<longrightarrow> b \<in> set (dfs f g n b vis))"
  using assms(3-5)
proof (induction n arbitrary: b vis)
  case (Suc n)
  show ?case
  proof (cases "b = 0 \<or> b \<in> set vis")
    case False
    define v1 where "v1 = dfs f g n (f b) vis"
    define v2 where "v2 = dfs f g n (g b) v1"
    have b: "b \<in> B" "f b = 0 \<or> f b \<in> B" "g b = 0 \<or> g b \<in> B" using False Suc.prems(1) assms(1,2) by (auto simp: falls_def)
    have 1: "succ_closed f g (set v1) \<and> (f b \<noteq> 0 \<longrightarrow> f b \<in> set v1)"
    proof (cases "f b = 0")
      case True
      then show ?thesis using Suc.prems(3) unfolding v1_def by (cases n) auto
    next
      case False
      with b assms(1) Suc.prems(2) have "r (f b) < n" by (auto simp: falls_def)
      from Suc.IH [OF b(2) this Suc.prems(3)] show ?thesis by (simp add: v1_def)
    qed
    have 2: "succ_closed f g (set v2) \<and> (g b \<noteq> 0 \<longrightarrow> g b \<in> set v2)"
    proof (cases "g b = 0")
      case True
      then show ?thesis using 1 unfolding v2_def by (cases n) auto
    next
      case False
      with b assms(2) Suc.prems(2) have "r (g b) < n" by (auto simp: falls_def)
      from Suc.IH [OF b(3) this] 1 show ?thesis by (simp add: v2_def)
    qed
    have "set v1 \<subseteq> set v2" unfolding v2_def by (rule dfs_mono)
    with 1 2 False show ?thesis by (auto simp: succ_closed_def v1_def [symmetric] v2_def [symmetric])
  qed (use Suc.prems in auto)
qed simp

lemma dfs_least:
  assumes "succ_closed f g Q" "b = 0 \<or> b \<in> Q" "set vis \<subseteq> Q"
  shows "set (dfs f g n b vis) \<subseteq> Q"
  using assms(2,3)
proof (induction n arbitrary: b vis)
  case (Suc n)
  show ?case
  proof (cases "b = 0 \<or> b \<in> set vis")
    case False
    then have "b \<in> Q" "f b = 0 \<or> f b \<in> Q" "g b = 0 \<or> g b \<in> Q" using Suc.prems(1) assms(1) by (auto simp: succ_closed_def)
    with False Suc.IH [of "g b" "dfs f g n (f b) vis"] Suc.IH [of "f b" vis] Suc.prems(2) show ?thesis by simp
  qed (use Suc.prems in auto)
qed simp

lemma dfs_distinct:
  assumes "falls B r f" "falls B r g" "b = 0 \<or> b \<in> B" "distinct vis"
  shows "distinct (dfs f g n b vis)"
  using assms(3,4)
proof (induction n arbitrary: b vis)
  case (Suc n)
  show ?case
  proof (cases "b = 0 \<or> b \<in> set vis")
    case False
    then have b: "b \<in> B" "f b = 0 \<or> f b \<in> B" "g b = 0 \<or> g b \<in> B" using Suc.prems(1) assms(1,2) by (auto simp: falls_def)
    define v1 where "v1 = dfs f g n (f b) vis"
    have "b \<notin> set v1"
    proof
      assume "b \<in> set v1"
      from dfs_new [OF assms(1,2) b(2) this [unfolded v1_def]] False have "r b \<le> r (f b)" "f b \<noteq> 0" by auto
      with assms(1) b(1) show False by (auto simp: falls_def)
    qed
    moreover have "b \<notin> set (dfs f g n (g b) v1)"
    proof
      assume "b \<in> set (dfs f g n (g b) v1)"
      from dfs_new [OF assms(1,2) b(3) this] \<open>b \<notin> set v1\<close> have "r b \<le> r (g b)" "g b \<noteq> 0" by auto
      with assms(2) b(1) show False by (auto simp: falls_def)
    qed
    moreover have "distinct (dfs f g n (g b) v1)"
      using Suc.IH [OF b(3)] Suc.IH [OF b(2) Suc.prems(2)] by (simp add: v1_def)
    ultimately show ?thesis using False by (simp add: v1_def)
  qed (use Suc.prems in auto)
qed simp

text \<open>The order does not matter for the set of blocks that are reached.\<close>

lemma dfs_order:
  assumes "falls B r f" "falls B r g" "b = 0 \<or> b \<in> B" "r b < n" "r b < k"
  shows "set (dfs f g n b []) = set (dfs g f k b [])"
proof -
  have sym: "succ_closed g f V = succ_closed f g V" for V by (auto simp: succ_closed_def)
  have 1: "succ_closed f g (set (dfs f g n b []))" "b = 0 \<or> b \<in> set (dfs f g n b [])"
    using dfs_closed [OF assms(1-4), of "[]"] by (auto simp: succ_closed_def)
  have 2: "succ_closed f g (set (dfs g f k b []))" "b = 0 \<or> b \<in> set (dfs g f k b [])"
    using dfs_closed [OF assms(2,1,3,5), of "[]"] by (auto simp: succ_closed_def)
  show ?thesis
    using dfs_least [OF 2, of "[]" n] dfs_least [of g f, unfolded sym, OF 1, of "[]" k] by auto
qed

section \<open>The recursion\<close>

abbreviation blocks_from :: "conv_layout \<Rightarrow> nat \<Rightarrow> u32 \<Rightarrow> u32 list \<Rightarrow> u32 list" where
  "blocks_from E \<equiv> dfs (\<lambda>c. no (gcode E c)) (\<lambda>c. yes (gcode E c))"

definition closed_in :: "conv_layout \<Rightarrow> u32 set \<Rightarrow> bool" where
  "closed_in E V \<longleftrightarrow> succ_closed (\<lambda>c. no (gcode E c)) (\<lambda>c. yes (gcode E c)) V"

lemma graph_falls:
  assumes "layout_ok E"
  shows "falls (gblocks E) (grank E) (\<lambda>c. no (gcode E c))" "falls (gblocks E) (grank E) (\<lambda>c. yes (gcode E c))"
    "0 \<notin> gblocks E" "b \<in> gblocks E \<Longrightarrow> yes (gcode E b) = 0 \<longleftrightarrow> no (gcode E b) = 0"
  using assms by (auto simp: layout_ok_def graph_layout_def icode_ok_def block_ok_def falls_def split: if_splits)

lemma closed_inD:
  assumes "layout_ok E" "closed_in E V" "V \<subseteq> gblocks E"
  shows "\<forall>c \<in> V. yes (gcode E c) \<noteq> 0 \<longrightarrow> yes (gcode E c) \<in> V \<and> no (gcode E c) \<in> V"
  using assms graph_falls(4) [OF assms(1)] by (auto simp: closed_in_def succ_closed_def)

lemma total_size_mono: "total_size E lj lf vis \<le> total_size E lj lf (dfs f g n b vis)"
  using dfs_extends [of f g n b vis] by (auto simp: total_size_def)

text \<open>The result of a call: the blocks are written, or one more long jump is planned.\<close>

definition converted ::
  "conv_layout \<Rightarrow> u32 list \<Rightarrow> u32 \<Rightarrow> u32 set \<Rightarrow> (u32 \<Rightarrow> u32) \<Rightarrow> (u32 \<Rightarrow> u32) \<Rightarrow> (u32 \<Rightarrow> u32) \<Rightarrow> u32 list \<Rightarrow>
    memory \<Rightarrow> (memory \<times> u32) jump \<Rightarrow> bool" where
  "converted E us mark A mk lj lf vis m0 res \<longleftrightarrow>
     (\<exists>m r mk' lj' lf' t. res = Ret (m, r) \<and> length m0 \<le> length m \<and> conv_state E mark mk' lj' lf' t m \<and>
        (\<forall>c \<in> gblocks E. mk' c = mk c \<or> mk' c = mark) \<and>
        (r = 1 \<and> lj' = lj \<and> lf' = lf \<and> t = start_of E lj lf vis \<and> placed E lj lf vis m \<and>
           (\<forall>c \<in> gblocks E. mk' c = mark \<longleftrightarrow> c \<in> set vis \<union> A) \<or>
         r = 0 \<and> planned E us lj' lf' \<and> (\<exists>b \<in> gblocks E. one_more b lj lf lj' lf')))"

lemma convert_at:
  assumes ok: "layout_ok E" and us: "planned E us lj lf" "distinct us"
  shows "conv_state E mark mk lj lf (start_of E lj lf vis) m \<Longrightarrow> placed E lj lf vis m \<Longrightarrow>
    (\<forall>c \<in> gblocks E. mk c = mark \<longleftrightarrow> c \<in> set vis \<union> A) \<Longrightarrow> set vis \<subseteq> gblocks E \<Longrightarrow> closed_in E (set vis) \<Longrightarrow>
    b = 0 \<or> b \<in> gblocks E \<and> grank E b + 1 < fuel \<and> (\<forall>a \<in> A. grank E b < grank E a) \<Longrightarrow> 0 < fuel \<Longrightarrow>
    total_size E lj lf (blocks_from E fuel b vis) \<le> slots E \<Longrightarrow>
    \<exists>pre. us = pre @ blocks_from E fuel b vis \<Longrightarrow>
    converted E us mark A mk lj lf (blocks_from E fuel b vis) m (convert_code_r vs sn fuel sp m (cs_at E) (ic_at E) b)"
proof (induction fuel arbitrary: sp m mk vis A b)
  case 0
  then show ?case by simp
next
  case (Suc n)
  note fl = graph_falls [OF ok]
  have mark: "load32 m (unat (ic_at E) + 4) = Some mark" using Suc.prems(1) by (simp add: conv_state_defs)
  show ?case
  proof (cases "b = 0 \<or> b \<in> set vis")
    case True
    have "convert_code_r vs sn (Suc n) sp m (cs_at E) (ic_at E) b = Ret (m, 1)"
    proof (cases "b = 0")
      case False
      with True Suc.prems(4) have "b \<in> set vis" "b \<in> gblocks E" by auto
      then have "load32 m (unat b + 24) = Some mark" using Suc.prems(1,3) by (auto simp: conv_state_defs)
      with mark show ?thesis by (simp add: Let_def)
    qed (simp add: Let_def)
    with Suc.prems(1-3) True show ?thesis unfolding converted_def by auto
  next
    case False
    then have b: "b \<in> gblocks E" "b \<noteq> 0" "b \<notin> set vis" "grank E b < n" "\<forall>a \<in> A. grank E b < grank E a"
      using Suc.prems(6) by auto
    then have bA: "b \<notin> A" by auto
    have n0: "0 < n" using b(4) by simp
    let ?no = "no (gcode E b)" and ?yes = "yes (gcode E b)"
    let ?v1 = "blocks_from E n ?no vis"
    let ?v2 = "blocks_from E n ?yes ?v1"
    have bf: "blocks_from E (Suc n) b vis = b # ?v2" using False by simp
    obtain pre where pre: "us = pre @ b # ?v2" using Suc.prems(9) unfolding bf by blast
    have pre2: "\<exists>pre. us = pre @ ?v2" using pre by (intro exI [of _ "pre @ [b]"]) simp
    have pre1: "\<exists>pre. us = pre @ ?v1"
    proof -
      obtain ws where "?v2 = ws @ ?v1" using dfs_extends by blast
      with pre show ?thesis by (intro exI [of _ "pre @ b # ws"]) simp
    qed
    have ld: "load32 m (unat b + 24) = Some (mk b)" "load32 m (unat b + 84) = Some ?no"
      using Suc.prems(1) b(1) by (auto simp: conv_state_defs graph_in_def)
    have mkb: "mk b \<noteq> mark" using Suc.prems(3) b(1,3) bA by auto
    have geo: "127840 \<le> unat b" "unat b + 212 \<le> out_at E" "out_at E + 8 * slots E \<le> heap_end E"
      "\<And>c. c \<in> gblocks E \<Longrightarrow> c \<noteq> b \<Longrightarrow> unat b + 212 \<le> unat c \<or> unat c + 212 \<le> unat b"
      using ok b(1) by (auto simp: layout_ok_def graph_layout_def)
    have hm: "heap_end E \<le> length m" using Suc.prems(1) by (auto simp: conv_state_defs heap_inv_def)
    obtain m1 where m1: "store32 m (unat b + 24) mark = Some m1"
      using store32_in [of "unat b + 24" m] geo hm by auto
    note k1 = kept_store32 [OF m1]
    have len1: "length m1 = length m" by (rule length_store32 [OF m1])
    have c1: "conv_state E mark (mk(b := mark)) lj lf (start_of E lj lf vis) m1"
      by (rule conv_state_own(2) [OF ok Suc.prems(1) b(1) m1]) simp
    have sizes: "total_size E lj lf vis \<le> slots E" "total_size E lj lf ?v1 \<le> slots E" "total_size E lj lf ?v2 \<le> slots E"
      "total_size E lj lf (b # ?v2) \<le> slots E"
      using Suc.prems(8) total_size_mono [of E lj lf vis] total_size_mono [of E lj lf ?v1 _ _ n ?yes]
      unfolding bf by (simp_all, meson add_leD2 order_trans)+
    have p1: "placed E lj lf vis m1"
    proof (rule placed_kept [OF Suc.prems(2) k1 _ _ _ sizes(1)])
      show "span (unat c + 40) 4 \<inter> span (unat b + 24) 4 = {}" if "c \<in> set vis" for c
      proof -
        have "c \<in> gblocks E" "c \<noteq> b" using that b(3) Suc.prems(4) by auto
        with geo(4) show ?thesis by fastforce
      qed
    qed (use geo hm in auto)
    have a1: "\<forall>c \<in> gblocks E. (mk(b := mark)) c = mark \<longleftrightarrow> c \<in> set vis \<union> insert b A" using Suc.prems(3) by auto
    have rn: "?no = 0 \<or> ?no \<in> gblocks E \<and> grank E ?no + 1 < n \<and> (\<forall>a \<in> insert b A. grank E ?no < grank E a)"
      "?yes = 0 \<or> ?yes \<in> gblocks E \<and> grank E ?yes + 1 < n \<and> (\<forall>a \<in> insert b A. grank E ?yes < grank E a)"
      using fl(1,2) b by (fastforce simp: falls_def)+
    have step: "convert_code_r vs sn (Suc n) sp m (cs_at E) (ic_at E) b =
        jump_bind (convert_code_r vs sn n (sp - 144) m1 (cs_at E) (ic_at E) ?no)
          (\<lambda>(m, t4). if t4 = 0 then Ret (m, 0)
            else jump_bind (lift (load32 m (unat b + 60)))
            (\<lambda>t5. jump_bind (convert_code_r vs sn n (sp - 144) m (cs_at E) (ic_at E) t5)
            (\<lambda>(m, t6). if t6 = 0 then Ret (m, 0)
              else jump_bind (lift (place_block m (cs_at E) b))
              (\<lambda>(m, v5, v6). jump_bind (emit_body vs sn (sp - 144) m (cs_at E) b v5 v6)
              (\<lambda>(m, v5). lift (emit_jumps m b v5 v6))))))"
    proof -
      have "load32 m1 (unat b + 84) = Some ?no" by (rule kept_load32 [OF k1 ld(2)]) simp
      with mark ld mkb m1 b(2) show ?thesis by (simp add: Let_def)
    qed
    have v1: "set ?v1 \<subseteq> gblocks E" "closed_in E (set ?v1)" "b \<notin> set ?v1" "?no \<noteq> 0 \<Longrightarrow> ?no \<in> set ?v1"
    proof -
      have nb: "?no = 0 \<or> ?no \<in> gblocks E" using rn(1) by blast
      have new: "c \<in> gblocks E \<and> grank E c \<le> grank E ?no \<and> ?no \<noteq> 0" if "c \<in> set ?v1" "c \<notin> set vis" for c
        using dfs_new [OF fl(1,2) nb that] by blast
      then show "set ?v1 \<subseteq> gblocks E" using Suc.prems(4) by blast
      show "b \<notin> set ?v1" using new [of b] b(3) rn(1) by fastforce
      have "closed_in E (set ?v1) \<and> (?no \<noteq> 0 \<longrightarrow> ?no \<in> set ?v1)"
      proof (cases "?no = 0")
        case True
        then show ?thesis using Suc.prems(5) n0 by (cases n) auto
      next
        case False
        with rn(1) have "grank E ?no < n" by simp
        from dfs_closed [OF fl(1,2) nb this Suc.prems(5) [unfolded closed_in_def]] show ?thesis
          by (simp add: closed_in_def)
      qed
      then show "closed_in E (set ?v1)" "?no \<noteq> 0 \<Longrightarrow> ?no \<in> set ?v1" by blast+
    qed
    have v2: "set ?v2 \<subseteq> gblocks E" "closed_in E (set ?v2)" "b \<notin> set ?v2" "?yes \<noteq> 0 \<Longrightarrow> ?yes \<in> set ?v2"
    proof -
      have nb: "?yes = 0 \<or> ?yes \<in> gblocks E" using rn(2) by blast
      have new: "c \<in> gblocks E \<and> grank E c \<le> grank E ?yes \<and> ?yes \<noteq> 0" if "c \<in> set ?v2" "c \<notin> set ?v1" for c
        using dfs_new [OF fl(1,2) nb that] by blast
      then show "set ?v2 \<subseteq> gblocks E" using v1(1) by blast
      show "b \<notin> set ?v2" using new [of b] v1(3) rn(2) by fastforce
      have "closed_in E (set ?v2) \<and> (?yes \<noteq> 0 \<longrightarrow> ?yes \<in> set ?v2)"
      proof (cases "?yes = 0")
        case True
        then show ?thesis using v1(2) n0 by (cases n) auto
      next
        case False
        with rn(2) have "grank E ?yes < n" by simp
        from dfs_closed [OF fl(1,2) nb this v1(2) [unfolded closed_in_def]] show ?thesis
          by (simp add: closed_in_def)
      qed
      then show "closed_in E (set ?v2)" "?yes \<noteq> 0 \<Longrightarrow> ?yes \<in> set ?v2" by blast+
    qed
    have mk1: "c \<in> gblocks E \<Longrightarrow> mk' c = (mk(b := mark)) c \<or> mk' c = mark \<Longrightarrow> mk' c = mk c \<or> mk' c = mark" for mk' c
      by (auto split: if_splits)
    from Suc.IH [OF c1 p1 a1 Suc.prems(4,5) rn(1) n0 sizes(2) pre1, of "sp - 144", unfolded converted_def]
    obtain m2 r2 mk2 lj2 lf2 t2 where 2: "convert_code_r vs sn n (sp - 144) m1 (cs_at E) (ic_at E) ?no = Ret (m2, r2)"
      "length m1 \<le> length m2" "conv_state E mark mk2 lj2 lf2 t2 m2" "\<forall>c \<in> gblocks E. mk2 c = (mk(b := mark)) c \<or> mk2 c = mark"
      "r2 = 1 \<and> lj2 = lj \<and> lf2 = lf \<and> t2 = start_of E lj lf ?v1 \<and> placed E lj lf ?v1 m2 \<and>
         (\<forall>c \<in> gblocks E. mk2 c = mark \<longleftrightarrow> c \<in> set ?v1 \<union> insert b A) \<or>
       r2 = 0 \<and> planned E us lj2 lf2 \<and> (\<exists>b \<in> gblocks E. one_more b lj lf lj2 lf2)"
      by (elim exE conjE)
    show ?thesis
    proof (cases "r2 = 0")
      case True
      with 2 have "convert_code_r vs sn (Suc n) sp m (cs_at E) (ic_at E) b = Ret (m2, 0)" by (simp only: step) simp
      moreover have "\<forall>c \<in> gblocks E. mk2 c = mk c \<or> mk2 c = mark" using 2(4) mk1 by blast
      ultimately show ?thesis unfolding converted_def using 2(2,3,5) True len1 by auto
    next
      case r2: False
      with 2(5) have r: "r2 = 1" "lj2 = lj" "lf2 = lf" "t2 = start_of E lj lf ?v1" "placed E lj lf ?v1 m2"
        "\<forall>c \<in> gblocks E. mk2 c = mark \<longleftrightarrow> c \<in> set ?v1 \<union> insert b A" by auto
      have y2: "load32 m2 (unat b + 60) = Some ?yes" using 2(3) b(1) by (auto simp: conv_state_defs graph_in_def)
      from Suc.IH [OF 2(3) [unfolded r(2-4)] r(5,6) v1(1,2) rn(2) n0 sizes(3) pre2, of "sp - 144", unfolded converted_def]
      obtain m3 r3 mk3 lj3 lf3 t3 where 3: "convert_code_r vs sn n (sp - 144) m2 (cs_at E) (ic_at E) ?yes = Ret (m3, r3)"
        "length m2 \<le> length m3" "conv_state E mark mk3 lj3 lf3 t3 m3" "\<forall>c \<in> gblocks E. mk3 c = mk2 c \<or> mk3 c = mark"
        "r3 = 1 \<and> lj3 = lj \<and> lf3 = lf \<and> t3 = start_of E lj lf ?v2 \<and> placed E lj lf ?v2 m3 \<and>
           (\<forall>c \<in> gblocks E. mk3 c = mark \<longleftrightarrow> c \<in> set ?v2 \<union> insert b A) \<or>
         r3 = 0 \<and> planned E us lj3 lf3 \<and> (\<exists>b \<in> gblocks E. one_more b lj lf lj3 lf3)"
        by (elim exE conjE)
      have mk3: "\<forall>c \<in> gblocks E. mk3 c = mk c \<or> mk3 c = mark" using 2(4) 3(4) mk1 by metis
      show ?thesis
      proof (cases "r3 = 0")
        case True
        with 2 3 r y2 have "convert_code_r vs sn (Suc n) sp m (cs_at E) (ic_at E) b = Ret (m3, 0)" by (simp only: step) simp
        then show ?thesis unfolding converted_def using 2(2) 3(2,3,5) mk3 True len1 by auto
      next
        case False
        with 3(5) have s: "r3 = 1" "lj3 = lj" "lf3 = lf" "t3 = start_of E lj lf ?v2" "placed E lj lf ?v2 m3"
          "\<forall>c \<in> gblocks E. mk3 c = mark \<longleftrightarrow> c \<in> set ?v2 \<union> insert b A" by auto
        have succ: "?yes \<noteq> 0 \<longrightarrow> ?yes \<in> set ?v2 \<and> ?no \<in> set ?v2"
          using v2(4) v1(4) fl(4) [OF b(1)] dfs_mono [of ?v1] by blast
        from block_step [OF ok b(1) v2(3) 3(3) [unfolded s(2-4)] s(5) v2(1) succ closed_inD [OF ok v2(2,1)] sizes(4) us pre,
          where vs = vs and sn = sn and ?v3.0 = "sp - 144"]
        obtain m4 r4 lj4 lf4 where 4: "jump_bind (lift (place_block m3 (cs_at E) b))
            (\<lambda>(m, v5, v6). jump_bind (emit_body vs sn (sp - 144) m (cs_at E) b v5 v6)
              (\<lambda>(m, v5). lift (emit_jumps m b v5 v6))) = Ret (m4, r4)"
          "length m3 \<le> length m4" "conv_state E mark mk3 lj4 lf4 (start_of E lj lf (b # ?v2)) m4"
          "r4 = 1 \<and> lj4 = lj \<and> lf4 = lf \<and> placed E lj lf (b # ?v2) m4 \<or> r4 = 0 \<and> one_more b lj lf lj4 lf4 \<and> planned E us lj4 lf4"
          by (elim exE conjE)
        have "convert_code_r vs sn (Suc n) sp m (cs_at E) (ic_at E) b = Ret (m4, r4)"
          using 2 3 r y2 s 4(1) by (simp only: step) simp
        moreover have len4: "length m \<le> length m4" using 2(2) 3(2) 4(2) len1 by simp
        moreover have "\<forall>c \<in> gblocks E. mk3 c = mark \<longleftrightarrow> c \<in> set (b # ?v2) \<union> A" using s(6) by simp
        ultimately show ?thesis unfolding converted_def bf using 4(3,4) mk3 b(1) len4 by blast
      qed
    qed
  qed
qed

end
