(* ===== verification/Emit_Program.thy ===== *)
theory Emit_Program
  imports Emit_Convert Go_Compile
begin

text \<open>
  \<open>_icode_to_fcode\<close> as a whole: the length of the program is counted, the program reserved in the
  heap and written, and as long as a block needs one more long jump it is given back and a longer
  one written (\<open>plan_program\<close>, \<open>round_once\<close>, \<open>replan\<close>). The rounds end because each one plans a long jump
  more (\<open>convert_rounds_at\<close>), and the result is a program with the verdict of the graph
  (\<open>emitted_program\<close>).
\<close>

section \<open>Counting\<close>

definition mark_words :: "conv_layout \<Rightarrow> nat set" where
  "mark_words E = (\<Union>b \<in> gblocks E. span (unat b + 24) 4)"

lemma marked_graph_mark:
  assumes g: "graph_layout E" "unat (ic_at E) + 8 \<le> 125436" and st: "marked_graph E mark mk lj lf m" and b: "b \<in> gblocks E"
    and w: "store32 m (unat b + 24) v = Some m'"
  shows "marked_graph E mark (mk(b := v)) lj lf m'"
proof -
  note k = kept_store32 [OF w]
  have a: "127840 \<le> unat b" "\<And>c. c \<in> gblocks E \<Longrightarrow> c \<noteq> b \<Longrightarrow> unat b + 212 \<le> unat c \<or> unat c + 212 \<le> unat b"
    using g b by (auto simp: graph_layout_def)
  have "graph_in E m'"
    by (rule graph_in_kept [OF _ k own_word_apart [OF g(1) b]]) (use st in \<open>auto simp: marked_graph_def\<close>)
  moreover have "load32 m' (unat c + o') = Some x"
    if "c \<in> gblocks E" "load32 m (unat c + o') = Some x" "o' \<in> {24, 28, 32}" "c \<noteq> b \<or> o' \<noteq> 24" for c o' x
  proof (rule kept_load32 [OF k that(2)])
    show "span (unat c + o') 4 \<inter> span (unat b + 24) 4 = {}"
      using a(2) [OF that(1)] that by (cases "c = b") auto
  qed
  moreover have "load32 m' (unat (ic_at E) + 4) = Some mark"
    by (rule kept_load32 [OF k]) (use st a(1) g(2) in \<open>auto simp: marked_graph_def\<close>)
  ultimately show ?thesis using st load32_store32 [OF w] unfolding marked_graph_def by simp
qed

text \<open>\<open>_count_stmts\<close> adds the sizes of the blocks it marks; it visits the true successor first.\<close>

definition counted ::
  "conv_layout \<Rightarrow> u32 \<Rightarrow> u32 set \<Rightarrow> (u32 \<Rightarrow> u32) \<Rightarrow> (u32 \<Rightarrow> u32) \<Rightarrow> (u32 \<Rightarrow> u32) \<Rightarrow> memory \<Rightarrow> u32 list \<Rightarrow> u32 list \<Rightarrow>
    (memory \<times> u32) option \<Rightarrow> bool" where
  "counted E mark A mk lj lf m vis vis' res \<longleftrightarrow>
     (\<exists>m' mk'. res = Some (m', of_nat (total_size E lj lf vis' - total_size E lj lf vis)) \<and>
        marked_graph E mark mk' lj lf m' \<and> (\<forall>c \<in> gblocks E. mk' c = mark \<longleftrightarrow> c \<in> set vis' \<union> A) \<and>
        (\<forall>c \<in> gblocks E. mk' c = mk c \<or> mk' c = mark) \<and> length m' = length m \<and> kept (mark_words E) m m')"

lemma count_stmts_at:
  assumes ok: "graph_layout E" "unat (ic_at E) + 8 \<le> 125436"
    and fl: "falls (gblocks E) (grank E) (\<lambda>c. yes (gcode E c))" "falls (gblocks E) (grank E) (\<lambda>c. no (gcode E c))" "0 \<notin> gblocks E"
  shows "marked_graph E mark mk lj lf m \<Longrightarrow> (\<forall>c \<in> gblocks E. mk c = mark \<longleftrightarrow> c \<in> set vis \<union> A) \<Longrightarrow>
    set vis \<subseteq> gblocks E \<Longrightarrow> b = 0 \<or> b \<in> gblocks E \<and> grank E b + 1 < n \<and> (\<forall>a \<in> A. grank E b < grank E a) \<Longrightarrow> 0 < n \<Longrightarrow>
    counted E mark A mk lj lf m vis (dfs (\<lambda>c. yes (gcode E c)) (\<lambda>c. no (gcode E c)) n b vis) (count_stmts m (ic_at E) b)"
proof (induction n arbitrary: m mk vis A b)
  case 0
  then show ?case by simp
next
  case (Suc n)
  let ?dfs = "dfs (\<lambda>c. yes (gcode E c)) (\<lambda>c. no (gcode E c))"
  have mark: "load32 m (unat (ic_at E) + 4) = Some mark" using Suc.prems(1) by (simp add: marked_graph_def)
  show ?case
  proof (cases "b = 0 \<or> b \<in> set vis")
    case True
    have "count_stmts m (ic_at E) b = Some (m, 0)"
    proof (cases "b = 0")
      case False
      with True Suc.prems(3) have "b \<in> set vis" "b \<in> gblocks E" by auto
      then have "load32 m (unat b + 24) = Some mark" using Suc.prems(1,2) by (auto simp: marked_graph_def)
      with mark show ?thesis by (subst count_stmts.simps) simp
    qed (subst count_stmts.simps, simp)
    with Suc.prems(1-2) True show ?thesis unfolding counted_def by auto
  next
    case False
    then have b: "b \<in> gblocks E" "b \<noteq> 0" "b \<notin> set vis" "grank E b < n" "\<forall>a \<in> A. grank E b < grank E a"
      using Suc.prems(4) by auto
    then have bA: "b \<notin> A" and n0: "0 < n" by auto
    let ?no = "no (gcode E b)" and ?yes = "yes (gcode E b)"
    let ?v1 = "?dfs n ?yes vis"
    let ?v2 = "?dfs n ?no ?v1"
    have bf: "?dfs (Suc n) b vis = b # ?v2" using False by simp
    obtain p where ld: "load32 m (unat b + 24) = Some (mk b)" "load32 m (unat b + 60) = Some ?yes"
      using Suc.prems(1) b(1) by (auto simp: marked_graph_def graph_in_def)
    have mkb: "mk b \<noteq> mark" using Suc.prems(2) b(1,3) bA by auto
    obtain m1 where m1: "store32 m (unat b + 24) mark = Some m1"
      using store32_in [OF load32_bound [OF ld(1)]] by blast
    note c1 = marked_graph_mark [OF ok Suc.prems(1) b(1) m1]
    have y1: "load32 m1 (unat b + 60) = Some ?yes" by (rule kept_load32 [OF kept_store32 [OF m1] ld(2)]) simp
    have a1: "\<forall>c \<in> gblocks E. (mk(b := mark)) c = mark \<longleftrightarrow> c \<in> set vis \<union> insert b A" using Suc.prems(2) by auto
    have rn: "?yes = 0 \<or> ?yes \<in> gblocks E \<and> grank E ?yes + 1 < n \<and> (\<forall>a \<in> insert b A. grank E ?yes < grank E a)"
      "?no = 0 \<or> ?no \<in> gblocks E \<and> grank E ?no + 1 < n \<and> (\<forall>a \<in> insert b A. grank E ?no < grank E a)"
      using fl(1,2) b by (fastforce simp: falls_def)+
    obtain m2 mk2 where 2: "count_stmts m1 (ic_at E) ?yes = Some (m2, of_nat (total_size E lj lf ?v1 - total_size E lj lf vis))"
      "marked_graph E mark mk2 lj lf m2" "\<forall>c \<in> gblocks E. mk2 c = mark \<longleftrightarrow> c \<in> set ?v1 \<union> insert b A"
      "\<forall>c \<in> gblocks E. mk2 c = (mk(b := mark)) c \<or> mk2 c = mark"
      "length m2 = length m1" "kept (mark_words E) m1 m2"
      using Suc.IH [OF c1 a1 Suc.prems(3) rn(1) n0, unfolded counted_def] by (elim exE conjE)
    have v1: "set ?v1 \<subseteq> gblocks E"
      using dfs_new(1) [OF fl(1,2), of ?yes _ n vis] rn(1) Suc.prems(3) by blast
    obtain m3 mk3 where 3: "count_stmts m2 (ic_at E) ?no = Some (m3, of_nat (total_size E lj lf ?v2 - total_size E lj lf ?v1))"
      "marked_graph E mark mk3 lj lf m3" "\<forall>c \<in> gblocks E. mk3 c = mark \<longleftrightarrow> c \<in> set ?v2 \<union> insert b A"
      "\<forall>c \<in> gblocks E. mk3 c = mk2 c \<or> mk3 c = mark"
      "length m3 = length m2" "kept (mark_words E) m2 m3"
      using Suc.IH [OF 2(2,3) v1 rn(2) n0, unfolded counted_def] by (elim exE conjE)
    have n2: "load32 m2 (unat b + 84) = Some ?no" using 2(2) b(1) by (auto simp: marked_graph_def graph_in_def)
    obtain p where p: "load32 m3 (unat b + 4) = Some p" "stmts_at m3 p (gstmts E b)"
      using 3(2) b(1) by (auto simp: marked_graph_def graph_in_def)
    have bd: "body (gcode E b) = live_stmts (gstmts E b)" using ok(1) b(1) by (simp add: graph_layout_def)
    have cnt: "(if p = 0 then Some 0 else count_body m3 p 0) = Some (of_nat (length (body (gcode E b))))"
    proof (cases "gstmts E b = []")
      case True
      with p(2) bd show ?thesis by simp
    next
      case False
      then have "p \<noteq> 0" using p(2) by (cases "gstmts E b") auto
      with count_body_at [OF p(2) False, of 0] bd show ?thesis by simp
    qed
    have fl3: "load32 m3 (unat b + 28) = Some (lj b)" "load32 m3 (unat b + 32) = Some (lf b)"
      using 3(2) b(1) by (auto simp: marked_graph_def)
    let ?s1 = "total_size E lj lf ?v1 - total_size E lj lf vis" and ?s2 = "total_size E lj lf ?v2 - total_size E lj lf ?v1"
    have "of_nat (unat (lf b)) = lf b" "of_nat (unat (lj b)) = lj b" by simp_all
    moreover have "total_size E lj lf (b # ?v2) - total_size E lj lf vis =
        unat (lf b) + (unat (lj b) + (?s1 + ?s2 + length (body (gcode E b)))) + 1"
    proof -
      have "total_size E lj lf vis \<le> total_size E lj lf ?v1" "total_size E lj lf ?v1 \<le> total_size E lj lf ?v2"
        by (rule total_size_mono)+
      then show ?thesis by (simp add: block_size_def)
    qed
    ultimately have w: "of_nat (total_size E lj lf (b # ?v2) - total_size E lj lf vis) =
        lf b + (lj b + (of_nat ?s1 + of_nat ?s2 + of_nat (length (body (gcode E b))))) + 1"
      by (simp only: of_nat_add of_nat_1)
    have "count_stmts m (ic_at E) b = Some (m3, of_nat (total_size E lj lf (b # ?v2) - total_size E lj lf vis))"
      unfolding w by (subst count_stmts.simps) (use b(2) mark ld mkb m1 y1 2(1) n2 3(1) p(1) cnt fl3 in simp)
    moreover have "kept (mark_words E) m m3"
    proof -
      have "kept (mark_words E) m m1" by (rule kept_mono [OF kept_store32 [OF m1]]) (use b(1) in \<open>auto simp: mark_words_def\<close>)
      from kept_trans [OF this kept_trans [OF 2(6) 3(6)]] show ?thesis .
    qed
    moreover have "\<forall>c \<in> gblocks E. mk3 c = mark \<longleftrightarrow> c \<in> set (b # ?v2) \<union> A" using 3(3) by simp
    moreover have "\<forall>c \<in> gblocks E. mk3 c = mk c \<or> mk3 c = mark"
    proof
      fix c assume "c \<in> gblocks E"
      then have "mk2 c = (if c = b then mark else mk c) \<or> mk2 c = mark" "mk3 c = mk2 c \<or> mk3 c = mark"
        using 2(4) 3(4) by simp_all
      then show "mk3 c = mk c \<or> mk3 c = mark" by (auto split: if_splits)
    qed
    moreover have "length m3 = length m" using 2(5) 3(5) length_store32 [OF m1] by simp
    ultimately show ?thesis unfolding counted_def bf using 3(2) by blast
  qed
qed

section \<open>Rounds\<close>

lemma marked_graph_kept:
  assumes g: "graph_layout E" and st: "marked_graph E mark mk lj lf m"
    and k: "kept A m m'" "A \<inter> {127840..<out_at E} = {}" "span (unat (ic_at E) + 4) 4 \<inter> A = {}"
      "A \<subseteq> own_bytes \<union> span (unat (cs_at E)) 16" "unat (cs_at E) + 16 \<le> 125436"
  shows "marked_graph E mark mk lj lf m'"
proof -
  have "graph_in E m'"
  proof (rule graph_in_kept [OF _ k(1)])
    show "graph_in E m" using st by (simp add: marked_graph_def)
    show "A \<inter> fixed E = {}" using fixed_range [OF g] k(2,4) by (fastforce simp: own_bytes_def)
  qed
  moreover have "load32 m' (unat c + off) = Some x"
    if "c \<in> gblocks E" "load32 m (unat c + off) = Some x" "off + 4 \<le> 212" for c off x
  proof (rule kept_load32 [OF k(1) that(2)])
    have "span (unat c + off) 4 \<subseteq> {127840..<out_at E}" using g that(1,3) by (fastforce simp: graph_layout_def)
    with k(2) show "span (unat c + off) 4 \<inter> A = {}" by blast
  qed
  moreover have "load32 m' (unat (ic_at E) + 4) = Some mark"
    by (rule kept_load32 [OF k(1) _ k(3)]) (use st in \<open>simp add: marked_graph_def\<close>)
  ultimately show ?thesis using st unfolding marked_graph_def by simp
qed

lemma marked_graph_next:
  assumes g: "graph_layout E" "unat (ic_at E) + 8 \<le> 125436" and st: "marked_graph E mark mk lj lf m"
    and w: "store32 m (unat (ic_at E) + 4) v = Some m'"
  shows "marked_graph E v mk lj lf m'"
proof -
  note k = kept_store32 [OF w]
  have "graph_in E m'"
  proof (rule graph_in_kept [OF _ k])
    show "graph_in E m" using st by (simp add: marked_graph_def)
    show "span (unat (ic_at E) + 4) 4 \<inter> fixed E = {}" using fixed_range [OF g(1)] g(2) by fastforce
  qed
  moreover have "load32 m' (unat c + off) = Some x"
    if "c \<in> gblocks E" "load32 m (unat c + off) = Some x" for c off x
    by (rule kept_load32 [OF k that(2)]) (use g that(1) in \<open>fastforce simp: graph_layout_def\<close>)
  ultimately show ?thesis using st load32_store32 [OF w] unfolding marked_graph_def by simp
qed

text \<open>A layout for a round: the program at \<open>p\<close>, \<open>n\<close> slots, the heap pointer at \<open>h\<close>.\<close>

definition round_layout :: "conv_layout \<Rightarrow> nat \<Rightarrow> nat \<Rightarrow> nat \<Rightarrow> conv_layout" where
  "round_layout E p n h = E\<lparr>out_at := p, slots := n, heap_end := h\<rparr>"

lemma round_layout_simps [simp]:
  "gblocks (round_layout E p n h) = gblocks E" "grank (round_layout E p n h) = grank E"
  "gcode (round_layout E p n h) = gcode E" "gstmts (round_layout E p n h) = gstmts E"
  "ic_at (round_layout E p n h) = ic_at E" "cs_at (round_layout E p n h) = cs_at E"
  "out_at (round_layout E p n h) = p" "slots (round_layout E p n h) = n" "heap_end (round_layout E p n h) = h"
  "others (round_layout E p n h) = others E"
  by (simp_all add: round_layout_def)

lemma round_layout_before [simp]: "before (round_layout E p n h) lj lf us t = before E lj lf us t"
  by (induction us) (simp_all add: block_size_def)

lemma round_layout_same [simp]:
  "planned (round_layout E p n h) = planned E"
  "total_size (round_layout E p n h) = total_size E" "marked_graph (round_layout E p n h) = marked_graph E"
  "mark_words (round_layout E p n h) = mark_words E"
  by (simp_all add: fun_eq_iff planned_def far_def total_size_def block_size_def [abs_def] marked_graph_def graph_in_def mark_words_def)

lemma round_layout_graph:
  assumes "graph_layout E" "out_at E \<le> p"
  shows "graph_layout (round_layout E p n h)"
proof -
  have sub: "{127840..<out_at E} \<subseteq> {127840..<p}" using assms(2) by auto
  have o: "other_place E a \<Longrightarrow> other_place (round_layout E p n h) a" for a
    using assms(2) by (auto simp: other_place_def)
  have a: "icode_ok (gblocks E) (grank E) (gcode E)" "\<forall>x \<in> others E. other_place E (fst x)"
    using assms(1) by (simp_all add: graph_layout_def)
  have b: "body (gcode E b) = live_stmts (gstmts E b)" "127840 \<le> unat b" "unat b + 212 \<le> p"
    "\<forall>c \<in> gblocks E. b \<noteq> c \<longrightarrow> unat b + 212 \<le> unat c \<or> unat c + 212 \<le> unat b"
    "\<And>x. x \<in> set (gstmts E b) \<Longrightarrow> stmt_span x \<subseteq> {127840..<p} \<and> (\<forall>c \<in> gblocks E. stmt_span x \<inter> span (unat c) 212 = {})"
    if "b \<in> gblocks E" for b
    using assms that sub unfolding graph_layout_def by (blast intro: order_trans)+
  show ?thesis
    unfolding graph_layout_def round_layout_simps
    using a b o by blast
qed

text \<open>The number of long jumps not planned yet bounds the rounds.\<close>

definition unplanned :: "conv_layout \<Rightarrow> (u32 \<Rightarrow> u32) \<Rightarrow> (u32 \<Rightarrow> u32) \<Rightarrow> nat" where
  "unplanned E lj lf = card {b \<in> gblocks E. lj b = 0} + card {b \<in> gblocks E. lf b = 0}"

lemma one_more_unplanned:
  assumes "finite (gblocks E)" "b \<in> gblocks E" "one_more b lj lf lj' lf'"
  shows "unplanned E lj' lf' < unplanned E lj lf"
proof -
  have "card {c \<in> gblocks E. (f(b := 1)) c = 0} < card {c \<in> gblocks E. f c = 0}" if "f b = 0" for f :: "u32 \<Rightarrow> u32"
    by (rule psubset_card_mono) (use assms(1,2) that in auto)
  with assms(3) show ?thesis unfolding one_more_def unplanned_def by auto
qed

text \<open>What the program may need at most, in slots, and the list of the statements of a block.\<close>

definition max_size :: "conv_layout \<Rightarrow> u32 list \<Rightarrow> nat" where
  "max_size E us = sum_list (map (\<lambda>b. length (body (gcode E b)) + 3) us)"

lemma total_size_max:
  assumes "\<forall>b \<in> set us. lj b \<le> 1 \<and> lf b \<le> 1"
  shows "total_size E lj lf us \<le> max_size E us"
  using assms
proof (induction us)
  case (Cons b us)
  then have "unat (lj b) \<le> 1" "unat (lf b) \<le> 1" by (simp_all add: word_le_nat_alt)
  then have "block_size E lj lf b \<le> length (body (gcode E b)) + 3" by (simp add: block_size_def)
  with Cons show ?case by (simp add: max_size_def)
qed (simp add: max_size_def total_size_def)

lemma total_size_set:
  "distinct us \<Longrightarrow> distinct vs \<Longrightarrow> set us = set vs \<Longrightarrow> total_size E lj lf us = total_size E lj lf vs"
  unfolding total_size_def by (metis sum_list_distinct_conv_sum_set)

text \<open>What the traversals from the root reach.\<close>

definition reached :: "conv_layout \<Rightarrow> nat \<Rightarrow> u32 \<Rightarrow> u32 list" where
  "reached E depth root = blocks_from E depth root []"

lemma reached_round [simp]: "reached (round_layout E p n h) depth root = reached E depth root"
  by (simp add: reached_def)

lemma reached_facts:
  assumes "graph_layout E" "root \<in> gblocks E" "grank E root + 1 < depth"
  shows "set (reached E depth root) \<subseteq> gblocks E" "distinct (reached E depth root)" "closed_in E (set (reached E depth root))"
    "root \<in> set (reached E depth root)" "hd (reached E depth root) = root"
    "total_size E lj lf (dfs (\<lambda>c. yes (gcode E c)) (\<lambda>c. no (gcode E c)) depth root []) = total_size E lj lf (reached E depth root)"
proof -
  have fl: "falls (gblocks E) (grank E) (\<lambda>c. no (gcode E c))" "falls (gblocks E) (grank E) (\<lambda>c. yes (gcode E c))" "0 \<notin> gblocks E"
    using assms(1) by (auto simp: graph_layout_def icode_ok_def block_ok_def falls_def split: if_splits)
  have r: "root = 0 \<or> root \<in> gblocks E" "grank E root < depth" "root \<noteq> 0" using assms(2,3) fl(3) by auto
  show "set (reached E depth root) \<subseteq> gblocks E" using dfs_new(1) [OF fl(1,2) r(1)] by (auto simp: reached_def)
  show d: "distinct (reached E depth root)" using dfs_distinct [OF fl(1,2) r(1)] by (simp add: reached_def)
  show "closed_in E (set (reached E depth root))" "root \<in> set (reached E depth root)"
    using dfs_closed [OF fl(1,2) r(1,2), of "[]"] r(3) by (auto simp: reached_def closed_in_def succ_closed_def)
  show "hd (reached E depth root) = root" using assms(3) r(3) by (cases depth) (auto simp: reached_def)
  show "total_size E lj lf (dfs (\<lambda>c. yes (gcode E c)) (\<lambda>c. no (gcode E c)) depth root []) = total_size E lj lf (reached E depth root)"
    using total_size_set [OF dfs_distinct [OF fl(2,1) r(1)] d] dfs_order [OF fl(2,1) r(1,2,2)] by (simp add: reached_def)
qed

text \<open>
  The start of a round: a block of memory for the program is reserved, the marks are older than
  the next one, and \<open>k\<close> more marks are left.
\<close>

definition round_ready ::
  "conv_layout \<Rightarrow> nat \<Rightarrow> u32 \<Rightarrow> (u32 \<Rightarrow> u32) \<Rightarrow> (u32 \<Rightarrow> u32) \<Rightarrow> nat \<Rightarrow> nat \<Rightarrow> nat \<Rightarrow> nat \<Rightarrow> memory \<Rightarrow> bool"
where
  "round_ready E depth root lj lf k p n h m \<longleftrightarrow>
     (\<exists>L mark mk. heap_inv m h L \<and> p \<le> L \<and> marked_graph E mark mk lj lf m \<and> (\<forall>c \<in> gblocks E. unat (mk c) \<le> unat mark) \<and>
        unat mark + k < 2 ^ 32 \<and> n = total_size E lj lf (reached E depth root) \<and> out_at E \<le> p \<and> p + round_up 4 (8 * n) = h \<and>
        planned E (reached E depth root) lj lf)"

text \<open>The fixed assumptions of a call.\<close>

definition program_ready :: "conv_layout \<Rightarrow> nat \<Rightarrow> u32 \<Rightarrow> bool" where
  "program_ready E depth root \<longleftrightarrow> graph_layout E \<and> finite (gblocks E) \<and> root \<in> gblocks E \<and> grank E root + 1 < depth \<and>
     127840 \<le> out_at E \<and> unat (ic_at E) + 8 \<le> 125436 \<and> unat (cs_at E) + 16 \<le> 125436 \<and>
     (unat (ic_at E) + 8 \<le> unat (cs_at E) \<or> unat (cs_at E) + 16 \<le> unat (ic_at E)) \<and>
     8 * max_size E (reached E depth root) < 2 ^ 31"

definition written ::
  "conv_layout \<Rightarrow> nat \<Rightarrow> u32 \<Rightarrow> nat \<Rightarrow> nat \<Rightarrow> nat \<Rightarrow> memory \<Rightarrow> bool" where
  "written E depth root p n h m \<longleftrightarrow>
     (\<exists>mark mk lj lf. layout_ok (round_layout E p n h) \<and>
        conv_state (round_layout E p n h) mark mk lj lf 0 m \<and>
        placed (round_layout E p n h) lj lf (reached E depth root) m \<and> planned E (reached E depth root) lj lf \<and>
        n = total_size E lj lf (reached E depth root))"

definition round_left ::
  "conv_layout \<Rightarrow> nat \<Rightarrow> u32 \<Rightarrow> (u32 \<Rightarrow> u32) \<Rightarrow> (u32 \<Rightarrow> u32) \<Rightarrow> nat \<Rightarrow> nat \<Rightarrow> memory \<Rightarrow> bool" where
  "round_left E depth root lj lf k h m \<longleftrightarrow> planned E (reached E depth root) lj lf \<and>
     (\<exists>L mark mk. heap_inv m h L \<and> marked_graph E mark mk lj lf m \<and> (\<forall>c \<in> gblocks E. unat (mk c) \<le> unat mark) \<and>
        unat mark + k < 2 ^ 32)"

lemma start_of_all: "slots E = total_size E lj lf us \<Longrightarrow> start_of E lj lf us = 0"
  by (simp add: start_of_def)


lemma plan_program:
  assumes ok: "program_ready E depth root" and inv: "heap_inv m h L" and g: "marked_graph E mark mk lj lf m"
    and fresh: "\<forall>c \<in> gblocks E. unat (mk c) < unat mark" "unat mark + k < 2 ^ 32"
    and h: "out_at E \<le> h" "h + 8 * max_size E (reached E depth root) + 16 \<le> 2 ^ 32"
    and plan: "planned E (reached E depth root) lj lf"
  obtains m1 m2 n where "count_stmts m (ic_at E) root = Some (m1, of_nat n)"
    "calloc m1 (of_nat n) 8 = Some (of_nat h, m2)" "(of_nat h :: u32) \<noteq> 0"
    "round_ready E depth root lj lf k h n (h + round_up 4 (8 * n)) m2" "length m \<le> length m2"
    "h + round_up 4 (8 * n) \<le> h + 8 * max_size E (reached E depth root) + 16"
proof -
  have p: "graph_layout E" "root \<in> gblocks E" "grank E root + 1 < depth" "unat (ic_at E) + 8 \<le> 125436"
    "8 * max_size E (reached E depth root) < 2 ^ 31" "127840 \<le> out_at E" "unat (cs_at E) + 16 \<le> 125436"
    using ok by (simp_all add: program_ready_def)
  note rf = reached_facts [OF p(1-3)]
  have fl: "falls (gblocks E) (grank E) (\<lambda>c. no (gcode E c))" "falls (gblocks E) (grank E) (\<lambda>c. yes (gcode E c))" "0 \<notin> gblocks E"
    using p(1) by (auto simp: graph_layout_def icode_ok_def block_ok_def falls_def split: if_splits)
  let ?n = "total_size E lj lf (reached E depth root)"
  have le1: "\<forall>b \<in> set (reached E depth root). lj b \<le> 1 \<and> lf b \<le> 1" using g rf(1) by (auto simp: marked_graph_def)
  have nmax: "?n \<le> max_size E (reached E depth root)" by (rule total_size_max [OF le1])
  have n0: "0 < ?n"
    using rf(4) by (cases "reached E depth root") (auto simp: block_size_def)
  have "counted E mark {} mk lj lf m [] (dfs (\<lambda>c. yes (gcode E c)) (\<lambda>c. no (gcode E c)) depth root [])
      (count_stmts m (ic_at E) root)"
    by (rule count_stmts_at [OF p(1,4) fl(2,1,3) g]) (use fresh p(2,3) in auto)
  then obtain m1 mk1 where c: "count_stmts m (ic_at E) root = Some (m1, of_nat ?n)"
    "marked_graph E mark mk1 lj lf m1" "length m1 = length m" "kept (mark_words E) m m1"
    "\<forall>c \<in> gblocks E. mk1 c = mk c \<or> mk1 c = mark"
    unfolding counted_def rf(6) by (auto simp: total_size_def [of _ _ _ "[]"])
  have "mark_words E \<inter> own_bytes = {}"
    using p(1) by (fastforce simp: mark_words_def own_bytes_def graph_layout_def)
  then have i1: "heap_inv m1 h L" by (rule heap_inv_kept [OF inv c(4,3)])
  have un: "unat (of_nat ?n :: u32) = ?n" using nmax p(5) by (intro unat_of_nat_small) simp
  have r: "round_up 4 (8 * ?n) \<le> 8 * max_size E (reached E depth root) + 16"
    using round_up_bounds(2) [of "8 * ?n"] nmax by simp
  obtain m2 where m2: "calloc m1 (of_nat ?n) 8 = Some (of_nat h, m2)" "kept own_bytes m1 m2" "length m1 \<le> length m2"
    "heap_inv m2 (h + round_up 4 (8 * ?n)) h"
    by (rule calloc_top [OF i1, of "of_nat ?n" 8]) (use un n0 nmax p(5) r h(2) c(3) in \<open>simp_all add: mult.commute\<close>)
  have g2: "marked_graph E mark mk1 lj lf m2"
    by (rule marked_graph_kept [OF p(1) c(2) m2(2) _ _ _ p(7)]) (use p(4) in \<open>auto simp: own_bytes_def\<close>)
  have "\<forall>c \<in> gblocks E. unat (mk1 c) \<le> unat mark"
    using c(5) fresh(1) by (metis less_imp_le order_refl)
  then have "round_ready E depth root lj lf k h ?n (h + round_up 4 (8 * ?n)) m2"
    using m2(4) g2 fresh(2) h(1) order_refl plan unfolding round_ready_def by blast
  moreover have "(of_nat h :: u32) \<noteq> 0"
    using heap_addr(2) [OF m2(4)] n0 round_up_bounds(1) [of "8 * ?n"] h(1) p(6) by simp
  ultimately show thesis using that c(1,3) m2(1,3) r by auto
qed


lemma round_once:
  assumes ok: "program_ready E depth root" and rd: "round_ready E depth root lj lf (Suc k) p n h m"
    and room: "h < 2 ^ 32" "\<And>b. b \<in> gblocks E \<Longrightarrow> h + round_up 4 (4 * length (body (gcode E b))) \<le> 2 ^ 32"
  obtains m1 m2 r lj' lf' where
    "do {
       t4 \<leftarrow> load32 m (unat (ic_at E) + 4);
       m \<leftarrow> store32 m (unat (ic_at E) + 4) (t4 + 1);
       m \<leftarrow> store32 m (unat (cs_at E) + 8) (of_nat p);
       store32 m (unat (cs_at E) + 12) (of_nat p + push_bit 3 (of_nat n))
     } = Some m1"
    "convert_code_r vs sn depth (cs_at E) m1 (cs_at E) (ic_at E) root = Ret (m2, r)"
    "r = 1 \<and> written E depth root p n h m2 \<or>
     r = 0 \<and> (\<exists>b \<in> gblocks E. one_more b lj lf lj' lf') \<and> round_left E depth root lj' lf' k h m2"
    "length m \<le> length m2"
proof -
  let ?E = "round_layout E p n h"
  have p: "graph_layout E" "root \<in> gblocks E" "grank E root + 1 < depth" "unat (ic_at E) + 8 \<le> 125436"
    "8 * max_size E (reached E depth root) < 2 ^ 31" "127840 \<le> out_at E" "unat (cs_at E) + 16 \<le> 125436"
    "unat (ic_at E) + 8 \<le> unat (cs_at E) \<or> unat (cs_at E) + 16 \<le> unat (ic_at E)"
    using ok by (simp_all add: program_ready_def)
  note rf = reached_facts [OF p(1-3)]
  obtain L mark mk where r: "heap_inv m h L" "marked_graph E mark mk lj lf m" "\<forall>c \<in> gblocks E. unat (mk c) \<le> unat mark"
    "unat mark + Suc k < 2 ^ 32" "n = total_size E lj lf (reached E depth root)" "out_at E \<le> p" "p + round_up 4 (8 * n) = h"
    "p \<le> L" and plan: "planned E (reached E depth root) lj lf"
    using rd unfolding round_ready_def by blast
  have "\<forall>b \<in> set (reached E depth root). lj b \<le> 1 \<and> lf b \<le> 1" using r(2) rf(1) by (auto simp: marked_graph_def)
  then have "n \<le> max_size E (reached E depth root)" unfolding r(5) by (rule total_size_max)
  then have n8: "8 * n < 2 ^ 31" using p(5) by simp
  have ph: "p + 8 * n \<le> h" using r(7) round_up_bounds(1) [of "8 * n"] by simp
  have lay: "layout_ok ?E" using round_layout_graph [OF p(1) r(6)] p r(6) n8 ph room(1) by (simp add: layout_ok_def)
  have ld: "load32 m (unat (ic_at E) + 4) = Some mark" using r(2) by (simp add: marked_graph_def)
  have hm: "h \<le> length m" "127840 \<le> h" using r(1) by (simp_all add: heap_inv_def)
  obtain ma where ma: "store32 m (unat (ic_at E) + 4) (mark + 1) = Some ma" using store32_in [OF load32_bound [OF ld]] by blast
  have la: "length ma = length m" by (rule length_store32 [OF ma])
  have ga: "marked_graph E (mark + 1) mk lj lf ma" by (rule marked_graph_next [OF p(1,4) r(2) ma])
  have ia: "heap_inv ma h L" by (rule heap_inv_word [OF r(1) ma]) (use p(4) in simp)
  obtain mb where mb: "store32 ma (unat (cs_at E) + 8) (of_nat p) = Some mb"
    using store32_in [of "unat (cs_at E) + 8" ma] la hm p(7) by auto
  have lb: "length mb = length m" using length_store32 [OF mb] la by simp
  obtain mc where mc: "store32 mb (unat (cs_at E) + 12) (of_nat p + push_bit 3 (of_nat n)) = Some mc"
    using store32_in [of "unat (cs_at E) + 12" mb] lb hm p(7) by auto
  have kb: "kept (span (unat (cs_at E) + 8) 8) ma mc"
    by (rule kept_trans [OF kept_mono [OF kept_store32 [OF mb]] kept_mono [OF kept_store32 [OF mc]]]) auto
  have gc: "marked_graph E (mark + 1) mk lj lf mc"
    by (rule marked_graph_kept [OF p(1) ga kb _ _ _ p(7)]) (use p(7,8) in auto)
  have ic: "heap_inv mc h L"
    by (rule heap_inv_word [OF heap_inv_word [OF ia mb] mc]) (use p(7) in simp_all)
  have tl: "of_nat p + push_bit 3 (of_nat n) = (of_nat (p + 8 * n) :: u32)" by (simp add: push_bit_eq_mult mult.commute)
  have lc: "length mc = length m" using length_store32 [OF mc] lb by simp
  have "load32 mc (unat (cs_at E) + 8) = Some (of_nat p)"
    by (rule kept_load32 [OF kept_store32 [OF mc] load32_store32 [OF mb]]) simp
  moreover have "load32 mc (unat (cs_at E) + 12) = Some (of_nat (p + 8 * n))" using load32_store32 [OF mc] tl by simp
  ultimately have st: "conv_state ?E (mark + 1) mk lj lf (start_of ?E lj lf []) mc"
    using ic gc room(2) lc r(8) by (auto simp: conv_state_def start_of_def total_size_def)
  have mark1: "unat (mark + 1) = unat mark + 1" using r(4) by (intro unat_add_no_wrap [THEN trans]) simp_all
  have fresh: "\<forall>c \<in> gblocks ?E. mk c = mark + 1 \<longleftrightarrow> c \<in> set [] \<union> {}" using r(3) mark1 by fastforce
  have "converted ?E (reached E depth root) (mark + 1) {} mk lj lf (blocks_from ?E depth root []) mc
      (convert_code_r vs sn depth (cs_at E) mc (cs_at ?E) (ic_at ?E) root)"
    by (rule convert_at [OF lay _ rf(2) st _ fresh])
      (use p(2,3) r(5) plan in \<open>simp_all add: placed_def closed_in_def succ_closed_def reached_def\<close>)
  then have "converted ?E (reached E depth root) (mark + 1) {} mk lj lf (reached E depth root) mc
      (convert_code_r vs sn depth (cs_at E) mc (cs_at E) (ic_at E) root)" by (simp add: reached_def)
  then obtain m2 q mk' lj' lf' t where c: "convert_code_r vs sn depth (cs_at E) mc (cs_at E) (ic_at E) root = Ret (m2, q)"
    "length mc \<le> length m2" "conv_state ?E (mark + 1) mk' lj' lf' t m2" "\<forall>c \<in> gblocks E. mk' c = mk c \<or> mk' c = mark + 1"
    "q = 1 \<and> lj' = lj \<and> lf' = lf \<and> t = start_of ?E lj lf (reached E depth root) \<and> placed ?E lj lf (reached E depth root) m2 \<and>
       (\<forall>c \<in> gblocks E. mk' c = mark + 1 \<longleftrightarrow> c \<in> set (reached E depth root) \<union> {}) \<or>
     q = 0 \<and> planned E (reached E depth root) lj' lf' \<and> (\<exists>b \<in> gblocks E. one_more b lj lf lj' lf')"
    unfolding converted_def round_layout_simps round_layout_same by (elim exE conjE)
  have t0: "start_of ?E lj lf (reached E depth root) = 0" by (simp add: start_of_def r(5))
  have w: "written E depth root p n h m2" if "q = 1"
  proof -
    have "conv_state ?E (mark + 1) mk' lj lf 0 m2" "placed ?E lj lf (reached E depth root) m2"
      using c(3,5) that t0 by auto
    with lay r(5) plan show ?thesis unfolding written_def by blast
  qed
  have l: "round_left E depth root lj' lf' k h m2" if "q = 0"
  proof -
    have "planned E (reached E depth root) lj' lf'" using c(5) that by auto
    moreover
obtain L' where "heap_inv m2 h L'" "marked_graph E (mark + 1) mk' lj' lf' m2" using c(3) by (auto simp: conv_state_def)
    moreover have "\<forall>c \<in> gblocks E. unat (mk' c) \<le> unat (mark + 1)" using c(4) r(3) mark1 by fastforce
    moreover have "unat (mark + 1) + k < 2 ^ 32" using r(4) mark1 by simp
    ultimately show ?thesis unfolding round_left_def by blast
  qed
  have run: "do {
       t4 \<leftarrow> load32 m (unat (ic_at E) + 4);
       m \<leftarrow> store32 m (unat (ic_at E) + 4) (t4 + 1);
       m \<leftarrow> store32 m (unat (cs_at E) + 8) (of_nat p);
       store32 m (unat (cs_at E) + 12) (of_nat p + push_bit 3 (of_nat n))
     } = Some mc" using ld ma mb mc by simp
  have "q = 1 \<and> written E depth root p n h m2 \<or>
     q = 0 \<and> (\<exists>b \<in> gblocks E. one_more b lj lf lj' lf') \<and> round_left E depth root lj' lf' k h m2" using c(5) w l by blast
  moreover have "length m \<le> length m2" using c(2) lc by simp
  ultimately show thesis by (rule that [OF run c(1)])
qed

text \<open>After a round that failed: the program is given back, and a new one planned.\<close>

lemma replan:
  assumes ok: "program_ready E depth root" and rl: "round_left E depth root lj lf (Suc k) h m"
    and p: "out_at E \<le> p" "p \<le> h" "h < 2 ^ 32" and room: "h + 8 * max_size E (reached E depth root) + 16 \<le> 2 ^ 32"
  obtains m' p' n' h' where
    "do {
       m \<leftarrow> xfree m (of_nat p);
       t6 \<leftarrow> load32 m (unat (ic_at E) + 4);
       m \<leftarrow> store32 m (unat (ic_at E) + 4) (t6 + 1);
       (m, v6) \<leftarrow> count_stmts m (ic_at E) root;
       (v5, m) \<leftarrow> calloc m v6 8;
       Some (m, v5, v6)
     } = Some (m', of_nat p', of_nat n')"
    "(of_nat p' :: u32) \<noteq> 0" "round_ready E depth root lj lf k p' n' h' m'"
    "length m \<le> length m'" "h' \<le> h + 8 * max_size E (reached E depth root) + 16"
proof -
  have pr: "graph_layout E" "127840 \<le> out_at E" "unat (ic_at E) + 8 \<le> 125436" "unat (cs_at E) + 16 \<le> 125436"
    using ok by (simp_all add: program_ready_def)
  obtain L mark mk where r: "heap_inv m h L" "marked_graph E mark mk lj lf m" "\<forall>c \<in> gblocks E. unat (mk c) \<le> unat mark"
    "unat mark + Suc k < 2 ^ 32" and plan: "planned E (reached E depth root) lj lf"
    using rl unfolding round_left_def by blast
  have up: "unat (of_nat p :: u32) = p" using p by (intro unat_of_nat_small) simp
  then have p0: "(of_nat p :: u32) \<noteq> 0" using p(1) pr(2) by auto
  obtain m1 h1 L1 where m1: "xfree m (of_nat p) = Some m1" "length m1 = length m" "kept own_bytes m m1"
    "heap_inv m1 h1 L1" "out_at E \<le> h1" "h1 \<le> h"
  proof (rule disjE [OF xfree_spec [OF r(1) p0]])
    assume "xfree m (of_nat p) = Some m \<and> unat (of_nat p :: u32) \<noteq> L"
    then show thesis using that [of m h L] r(1) p by auto
  next
    assume "\<exists>m'. xfree m (of_nat p) = Some m' \<and> unat (of_nat p :: u32) = L \<and> length m' = length m \<and> heap_kept m m' \<and> heap_inv m' L 0"
    then show thesis using that [of _ L 0] p up heap_kept_kept by auto
  qed
  have g1: "marked_graph E mark mk lj lf m1"
    by (rule marked_graph_kept [OF pr(1) r(2) m1(3) _ _ _ pr(4)]) (use pr(3) in \<open>auto simp: own_bytes_def\<close>)
  have ld: "load32 m1 (unat (ic_at E) + 4) = Some mark" using g1 by (simp add: marked_graph_def)
  obtain m2 where m2: "store32 m1 (unat (ic_at E) + 4) (mark + 1) = Some m2" using store32_in [OF load32_bound [OF ld]] by blast
  have g2: "marked_graph E (mark + 1) mk lj lf m2" by (rule marked_graph_next [OF pr(1,3) g1 m2])
  have i2: "heap_inv m2 h1 L1" by (rule heap_inv_word [OF m1(4) m2]) (use pr(3) in simp)
  have l2: "length m2 = length m" using length_store32 [OF m2] m1(2) by simp
  have mark1: "unat (mark + 1) = unat mark + 1" using r(4) by (intro unat_add_no_wrap [THEN trans]) simp_all
  have fresh: "\<forall>c \<in> gblocks E. unat (mk c) < unat (mark + 1)" using r(3) mark1 by fastforce
  have k: "unat (mark + 1) + k < 2 ^ 32" using r(4) mark1 by simp
  have room2: "h1 + 8 * max_size E (reached E depth root) + 16 \<le> 2 ^ 32" using room m1(6) by simp
  obtain m3 m4 n where c: "count_stmts m2 (ic_at E) root = Some (m3, of_nat n)" "calloc m3 (of_nat n) 8 = Some (of_nat h1, m4)"
    "(of_nat h1 :: u32) \<noteq> 0" "round_ready E depth root lj lf k h1 n (h1 + round_up 4 (8 * n)) m4" "length m2 \<le> length m4"
    "h1 + round_up 4 (8 * n) \<le> h1 + 8 * max_size E (reached E depth root) + 16"
    by (rule plan_program [OF ok i2 g2 fresh k m1(5) room2 plan])
  show thesis
    by (rule that [OF _ c(3,4)]) (use m1(1,6) ld m2 c(1,2,5,6) l2 in simp_all)
qed

text \<open>The loop over the rounds ends with a program.\<close>

lemma convert_rounds_at:
  assumes ok: "program_ready E depth root"
  shows "round_ready E depth root lj lf (2 * fuel) p n h m \<Longrightarrow> (of_nat p :: u32) \<noteq> 0 \<Longrightarrow> unplanned E lj lf < fuel \<Longrightarrow>
    (\<And>b. b \<in> gblocks E \<Longrightarrow> round_up 4 (4 * length (body (gcode E b))) \<le> list_room) \<Longrightarrow>
    h + fuel * (8 * max_size E (reached E depth root) + 16) + list_room \<le> 2 ^ 32 \<Longrightarrow>
    \<exists>m' p' n' h'. convert_rounds vs sn depth fuel (cs_at E) m (ic_at E) root (of_nat p) (of_nat n) =
        Ret (m', Some (of_nat p', of_nat n')) \<and>
      written E depth root p' n' h' m' \<and> out_at E \<le> p' \<and> length m \<le> length m' \<and>
      h' \<le> h + fuel * (8 * max_size E (reached E depth root) + 16)"
proof (induction fuel arbitrary: lj lf p n h m)
  case 0
  then show ?case by simp
next
  case (Suc f)
  let ?S = "8 * max_size E (reached E depth root) + 16"
  have h32: "h < 2 ^ 32" using Suc.prems(5) by simp
  have ph: "out_at E \<le> p" "p \<le> h" using Suc.prems(1) by (auto simp: round_ready_def)
  have rd: "round_ready E depth root lj lf (Suc (Suc (2 * f))) p n h m"
    using Suc.prems(1) by (simp add: numeral_2_eq_2)
  have room: "h + round_up 4 (4 * length (body (gcode E b))) \<le> 2 ^ 32" if "b \<in> gblocks E" for b
    using Suc.prems(4) [OF that] Suc.prems(5) by simp
  obtain m1 m2 r lj' lf' where 1: "do {
       t4 \<leftarrow> load32 m (unat (ic_at E) + 4);
       m \<leftarrow> store32 m (unat (ic_at E) + 4) (t4 + 1);
       m \<leftarrow> store32 m (unat (cs_at E) + 8) (of_nat p);
       store32 m (unat (cs_at E) + 12) (of_nat p + push_bit 3 (of_nat n))
     } = Some m1"
    "convert_code_r vs sn depth (cs_at E) m1 (cs_at E) (ic_at E) root = Ret (m2, r)"
    "r = 1 \<and> written E depth root p n h m2 \<or>
     r = 0 \<and> (\<exists>b \<in> gblocks E. one_more b lj lf lj' lf') \<and> round_left E depth root lj' lf' (Suc (2 * f)) h m2"
    "length m \<le> length m2"
    by (rule round_once [OF ok rd h32 room, of vs sn])
  show ?case
  proof (cases "r = 0")
    case False
    then have "convert_rounds vs sn depth (Suc f) (cs_at E) m (ic_at E) root (of_nat p) (of_nat n) =
        Ret (m2, Some (of_nat p, of_nat n))"
      using Suc.prems(2) 1 by simp
    with False 1(3,4) ph(1) show ?thesis using le_add1 by blast
  next
    case True
    then obtain b where b: "b \<in> gblocks E" "one_more b lj lf lj' lf'" "round_left E depth root lj' lf' (Suc (2 * f)) h m2"
      using 1(3) by auto
    have fin: "finite (gblocks E)" using ok by (simp add: program_ready_def)
    have less: "unplanned E lj' lf' < f" using one_more_unplanned [OF fin b(1,2)] Suc.prems(3) by simp
    then obtain f' where f': "f = Suc f'" by (cases f) auto
    have "h + ?S + (f * ?S + list_room) \<le> 2 ^ 32" using Suc.prems(5) by (simp add: algebra_simps)
    then have hs: "h + ?S \<le> 2 ^ 32" "h + ?S + f * ?S + list_room \<le> 2 ^ 32" by simp_all
    obtain m3 p' n' h' where 2: "do {
       m \<leftarrow> xfree m2 (of_nat p);
       t6 \<leftarrow> load32 m (unat (ic_at E) + 4);
       m \<leftarrow> store32 m (unat (ic_at E) + 4) (t6 + 1);
       (m, v6) \<leftarrow> count_stmts m (ic_at E) root;
       (v5, m) \<leftarrow> calloc m v6 8;
       Some (m, v5, v6)
     } = Some (m3, of_nat p', of_nat n')"
    "(of_nat p' :: u32) \<noteq> 0" "round_ready E depth root lj' lf' (2 * f) p' n' h' m3"
    "length m2 \<le> length m3" "h' \<le> h + 8 * max_size E (reached E depth root) + 16"
      by (rule replan [OF ok b(3) ph h32]) (use hs(1) in simp)
    have step: "convert_rounds vs sn depth (Suc f) (cs_at E) m (ic_at E) root (of_nat p) (of_nat n) =
        convert_rounds vs sn depth f (cs_at E) m3 (ic_at E) root (of_nat p') (of_nat n')"
      using Suc.prems(2) 1(1,2) 2(1) True by simp
    have "h' + f * ?S + list_room \<le> 2 ^ 32" using 2(5) hs(2) by simp
    then obtain m' p'' n'' h'' where 3: "convert_rounds vs sn depth f (cs_at E) m3 (ic_at E) root (of_nat p') (of_nat n') =
        Ret (m', Some (of_nat p'', of_nat n''))" "written E depth root p'' n'' h'' m'" "out_at E \<le> p''" "length m3 \<le> length m'"
      "h'' \<le> h' + f * ?S"
      using Suc.IH [OF 2(3,2) less Suc.prems(4)] by blast
    have "h'' \<le> h + Suc f * ?S" using 3(5) 2(5) by simp
    moreover have "length m \<le> length m'" using 1(4) 2(4) 3(4) by linarith
    ultimately show ?thesis unfolding step using 3(1-3) by blast
  qed
qed


text \<open>Where the number of instructions is stored: below the heap, apart from the words of the allocator.\<close>

definition length_place :: "u32 \<Rightarrow> bool" where
  "length_place a \<longleftrightarrow> unat a + 4 \<le> 127840 \<and> span (unat a) 4 \<inter> own_bytes = {}"

text \<open>A written program is read as instructions, and computes the verdict of the graph.\<close>

lemma written_program:
  assumes ok: "program_ready E depth root" and w: "written E depth root p n h m"
  shows "prog_at m p (prog_of (round_layout E p n h) m)" "length (prog_of (round_layout E p n h) m) = n"
    "p + 8 * n \<le> h" "\<exists>L. heap_inv m h L \<and> (L = 0 \<or> p \<le> L)" "1 \<le> n" "p + 8 * n < 2 ^ 32" "8 * n < 2 ^ 31"
    "n \<le> 3060000 \<Longrightarrow> \<exists>v. block_run (gcode E) pkt wl root bpf_init v \<and>
      bpf_verdict (prog_of (round_layout E p n h) m) pkt wl = Some v"
proof -
  let ?E = "round_layout E p n h" and ?us = "reached E depth root"
  have pr: "graph_layout E" "root \<in> gblocks E" "grank E root + 1 < depth" using ok by (simp_all add: program_ready_def)
  note rf = reached_facts [OF pr]
  obtain mark mk lj lf where lay: "layout_ok ?E" and st: "conv_state ?E mark mk lj lf 0 m" and pl: "placed ?E lj lf ?us m"
    and n: "n = total_size E lj lf ?us"
    using w unfolding written_def by blast
  show 1: "p + 8 * n \<le> h" "p + 8 * n < 2 ^ 32" "8 * n < 2 ^ 31" using lay by (auto simp: layout_ok_def)
  show inv: "\<exists>L. heap_inv m h L \<and> (L = 0 \<or> p \<le> L)" using st by (auto simp: conv_state_def)
  then have hm: "h \<le> length m" by (auto simp: heap_inv_def)
  show len: "length (prog_of ?E m) = n" by simp
  have "insn_at m (p + 8 * i) = Some (prog_of ?E m ! i)" if "i < n" for i
    using insn_at_in [of "p + 8 * i" m] that 1(1) hm by (auto simp: prog_of_nth)
  then show "prog_at m p (prog_of ?E m)" using 1(1) hm len by (simp add: prog_at_def)
  obtain us where us: "?us = root # us" using rf(4,5) by (cases ?us) auto
  then show "1 \<le> n" by (simp add: n block_size_def)
  have sz: "total_size ?E lj lf ?us \<le> slots ?E" by (simp add: n)
  have pos: "position ?E lj lf ?us root = 0" by (simp add: us start_of_def) (simp add: n us)
  show "\<exists>v. block_run (gcode E) pkt wl root bpf_init v \<and> bpf_verdict (prog_of ?E m) pkt wl = Some v" if sm: "n \<le> 3060000"
  proof -
    have icode: "icode_ok (gblocks E) (grank E) (gcode E)" using pr(1) by (simp add: graph_layout_def)
    have "closed_in ?E (set ?us)" using rf(3) by (simp add: closed_in_def)
    note cl = closed_inD [OF lay this, unfolded round_layout_simps, OF rf(1)]
    obtain v where "block_run (gcode E) pkt wl root bpf_init v" "bpf_verdict (prog_of ?E m) pkt wl = Some v"
    proof (rule laid_verdict [where pos = "position ?E lj lf ?us" and b = root, OF icode pr(2) rf(4) pos])
      show "block_laid (prog_of ?E m) (position ?E lj lf ?us) c (gcode E c) \<and>
          (yes (gcode E c) \<noteq> 0 \<longrightarrow> yes (gcode E c) \<in> set ?us \<and> no (gcode E c) \<in> set ?us)" if "c \<in> set ?us" for c
        using pl cl that by (simp add: placed_def)
    qed (use sm in simp_all)
    then show ?thesis by blast
  qed
qed

text \<open>
  A written program passes the validator when its statements do: every instruction belongs to a
  block, the jumps lead forward into the program, and the last block returns.
\<close>

definition valid_code :: "conv_layout \<Rightarrow> bool" where
  "valid_code E \<longleftrightarrow> (\<forall>b \<in> gblocks E. \<forall>x \<in> set (body (gcode E b)).
     case decode_op (ucast (fst x)) of None \<Rightarrow> False | Some ins \<Rightarrow> valid_operand ins (snd x))"

lemma in_some_block:
  assumes "total_size E lj lf us \<le> slots E" "start_of E lj lf us \<le> q" "q < slots E" "distinct us"
  obtains c where "c \<in> set us" "position E lj lf us c \<le> q" "q < position E lj lf us c + block_size E lj lf c"
  using assms
proof (induction us arbitrary: thesis)
  case (Cons b us)
  show ?case
  proof (cases "q < start_of E lj lf us")
    case True
    with Cons.prems(3,2) show ?thesis by (intro Cons.prems(1) [of b]) (auto simp: start_of_def)
  next
    case False
    have sz: "total_size E lj lf us \<le> slots E" using Cons.prems(2) by simp
    obtain c where c: "c \<in> set us" "position E lj lf us c \<le> q" "q < position E lj lf us c + block_size E lj lf c"
      by (rule Cons.IH [OF _ sz]) (use False Cons.prems(4,5) in auto)
    have "c \<noteq> b" using c(1) Cons.prems(5) by auto
    with c show ?thesis by (intro Cons.prems(1) [of c]) auto
  qed
qed (simp add: start_of_def total_size_def)

lemma blocks_apart:
  assumes "total_size E lj lf us \<le> slots E" "c \<in> set us" "d \<in> set us" "c \<noteq> d"
  shows "position E lj lf us c + block_size E lj lf c \<le> position E lj lf us d \<or>
    position E lj lf us d + block_size E lj lf d \<le> position E lj lf us c"
  using assms
proof (induction us)
  case (Cons b us)
  have sz: "total_size E lj lf us \<le> slots E" using Cons.prems(1) by simp
  have st: "start_of E lj lf (b # us) + block_size E lj lf b = start_of E lj lf us" using Cons.prems(1) by (simp add: start_of_def)
  consider "c = b" "d \<in> set us" "d \<noteq> b" | "d = b" "c \<in> set us" "c \<noteq> b" | "c \<noteq> b" "d \<noteq> b" "c \<in> set us" "d \<in> set us"
    using Cons.prems(2-4) by auto
  then show ?case
  proof cases
    case 1
    with position_range(1) [OF 1(2) sz] st show ?thesis by simp
  next
    case 2
    with position_range(1) [OF 2(2) sz] st show ?thesis by simp
  next
    case 3
    with Cons.IH [OF sz 3(3,4) Cons.prems(4)] show ?thesis by simp
  qed
qed simp

lemma valid_plain:
  assumes "plain_code (fst x)" "decode_op (ucast (fst x)) = Some ins" "valid_operand ins (snd x)"
    and "Op i = ucast (fst x)" "K i = snd x"
  shows "valid_insn n q i"
proof -
  have "valid_targets n q i ins"
    by (cases ins) (use plain_code_decode [OF assms(1,2)] in auto)
  with assms(2-5) show ?thesis by (simp add: valid_insn_def)
qed

lemma leads_in: "leads prog q t \<Longrightarrow> t < length prog \<Longrightarrow> q < length prog \<and> q \<le> t"
  by (auto simp: leads_def)

lemma valid_ja:
  assumes "Op i = 5" "unat (K i) < 2 ^ 31" "q + 1 + unat (K i) < n"
  shows "valid_insn n q i"
proof -
  have "decode_op 5 = Some Ja" by code_simp
  moreover have "sint (K i) = int (unat (K i))" by (rule sint_small [OF assms(2)])
  moreover from this have "sint (K i) \<noteq> - 1" by (simp del: of_nat_unat)
  moreover have "valid_operand Ja (K i)" by simp
  ultimately show ?thesis using assms(1,3) by (simp add: valid_insn_def del: of_nat_unat)
qed

lemma written_valid:
  assumes ok: "program_ready E depth root" and w: "written E depth root p n h m"
    and n: "n \<le> 3060000" and code: "valid_code E"
  shows "valid_prog (prog_of (round_layout E p n h) m)"
proof -
  let ?E = "round_layout E p n h" and ?us = "reached E depth root"
  let ?prog = "prog_of ?E m"
  have pr: "graph_layout E" "root \<in> gblocks E" "grank E root + 1 < depth" using ok by (simp_all add: program_ready_def)
  note rf = reached_facts [OF pr]
  have icode: "icode_ok (gblocks E) (grank E) (gcode E)" using pr(1) by (simp add: graph_layout_def)
  obtain mark mk lj lf where lay: "layout_ok ?E" and pl: "placed ?E lj lf ?us m" and sz: "n = total_size E lj lf ?us"
    and plan: "planned E ?us lj lf"
    using w unfolding written_def by blast
  let ?pos = "position ?E lj lf ?us" and ?size = "block_size E lj lf"
  have size: "total_size ?E lj lf ?us \<le> slots ?E" by (simp add: sz)
  have bsz: "block_size ?E = block_size E" by (simp add: fun_eq_iff block_size_def)
  note range = position_range [OF _ size, unfolded bsz]
  have "closed_in ?E (set ?us)" using rf(3) by (simp add: closed_in_def)
  note cl = closed_inD [OF lay this, unfolded round_layout_simps, OF rf(1)]
  have blk: "block_ok (gblocks E) (grank E) c (gcode E c)" "block_laid ?prog ?pos c (gcode E c)"
    "tail_laid ?prog (?pos c + length (body (gcode E c))) (unat (lj c) + unat (lf c))"
    "yes (gcode E c) \<noteq> 0 \<Longrightarrow> yes (gcode E c) \<in> set ?us \<and> no (gcode E c) \<in> set ?us"
    "c \<in> gblocks E" if "c \<in> set ?us" for c
    using that pl icode rf(1) cl by (auto simp: placed_def icode_ok_def)
  have in_prog: "?pos c < n" if "c \<in> set ?us" for c
    using range(2) [OF that] by (simp add: block_size_def)
  have find: "\<exists>c \<in> set ?us. ?pos c \<le> q \<and> q < ?pos c + ?size c" if "q < n" for q
  proof -
    have st: "start_of ?E lj lf ?us \<le> q" by (simp add: start_of_def sz)
    have "q < slots ?E" using that by simp
    from in_some_block [OF size st this rf(2), unfolded bsz] show ?thesis by blast
  qed
  have lead: "decode_op (ucast (test (gcode E c))) = Some (Jcc f src) \<Longrightarrow> yes (gcode E c) \<noteq> 0"
    if "c \<in> set ?us" for c f src
    using blk(1) [OF that] by (auto simp: block_ok_def split: if_splits)
  have jumps: "?pos c + length (body (gcode E c)) + 1 + unat (Jt (?prog ! (?pos c + length (body (gcode E c))))) < n \<and>
      ?pos c + length (body (gcode E c)) + 1 + unat (Jf (?prog ! (?pos c + length (body (gcode E c))))) < n \<and>
      ?pos c + length (body (gcode E c)) < ?pos (yes (gcode E c))"
    if c: "c \<in> set ?us" and y: "yes (gcode E c) \<noteq> 0" for c
  proof -
    from blk(4) [OF c y] have "?pos (yes (gcode E c)) < n" "?pos (no (gcode E c)) < n" using in_prog by blast+
    with blk(2) [OF c] y leads_in [of ?prog _ "?pos (yes (gcode E c))"] leads_in [of ?prog _ "?pos (no (gcode E c))"]
    show ?thesis by (fastforce simp: block_laid_def Let_def)
  qed
  have each: "valid_insn n q (?prog ! q)" if q: "q < n" for q
  proof -
    obtain c where c: "c \<in> set ?us" "?pos c \<le> q" "q < ?pos c + ?size c" using find [OF q] by blast
    let ?e = "?pos c + length (body (gcode E c))"
    consider "q < ?e" | "q = ?e" | "?e < q" by linarith
    then show ?thesis
    proof cases
      case 1
      define i where "i = q - ?pos c"
      have i: "i < length (body (gcode E c))" "q = ?pos c + i" using 1 c(2) by (auto simp: i_def)
      have x: "body (gcode E c) ! i \<in> set (body (gcode E c))" using i(1) by simp
      have "Op (?prog ! q) = ucast (fst (body (gcode E c) ! i))" "K (?prog ! q) = snd (body (gcode E c) ! i)"
        using blk(2) [OF c(1)] i by (simp_all add: block_laid_def Let_def)
      moreover obtain ins where "decode_op (ucast (fst (body (gcode E c) ! i))) = Some ins" "valid_operand ins (snd (body (gcode E c) ! i))"
        using code blk(5) [OF c(1)] x by (fastforce simp: valid_code_def split: option.splits)
      moreover have "plain_code (fst (body (gcode E c) ! i))" using blk(1) [OF c(1)] x by (simp add: block_ok_def)
      ultimately show ?thesis by (intro valid_plain)
    next
      case 2
      have op: "Op (?prog ! q) = ucast (test (gcode E c))" using blk(2) [OF c(1)] 2 by (simp add: block_laid_def Let_def)
      show ?thesis
      proof (cases "yes (gcode E c) = 0")
        case True
        with blk(1) [OF c(1)] op show ?thesis by (auto simp: block_ok_def valid_insn_def)
      next
        case False
        then obtain f src where "decode_op (ucast (test (gcode E c))) = Some (Jcc f src)"
          using blk(1) [OF c(1)] by (auto simp: block_ok_def)
        with op jumps [OF c(1) False] 2 show ?thesis by (simp add: valid_insn_def)
      qed
    next
      case 3
      define i where "i = q - ?e - 1"
      have i: "q = ?e + 1 + i" "i < unat (lj c) + unat (lf c)" using 3 c(3) by (auto simp: i_def block_size_def)
      note t = blk(3) [OF c(1), unfolded tail_laid_def length_prog_of round_layout_simps, rule_format, OF i(2)]
      show ?thesis
        unfolding i(1)
      proof (rule valid_ja)
        from t show "?e + 1 + i + 1 + unat (K (?prog ! (?e + 1 + i))) < n" by linarith
      qed (use t in blast)+
    qed
  qed
  have n1: "1 \<le> n" using in_prog rf(4) by fastforce
  have "is_return (last ?prog)"
  proof -
    obtain c where c: "c \<in> set ?us" "n - 1 < ?pos c + ?size c" using find [of "n - 1"] n1 by auto
    have e: "?pos c + ?size c = n" using range(2) [OF c(1)] c(2) n1 by simp
    have y: "yes (gcode E c) = 0"
    proof (rule ccontr)
      assume y: "yes (gcode E c) \<noteq> 0"
      have d: "yes (gcode E c) \<in> set ?us" "yes (gcode E c) \<noteq> c"
        using blk(1,4) [OF c(1)] y by (auto simp: block_ok_def)
      have "?pos (yes (gcode E c)) < n" by (rule in_prog [OF d(1)])
      moreover have "?pos c \<le> ?pos (yes (gcode E c))" using jumps [OF c(1) y] by simp
      ultimately show False
        using blocks_apart [OF size c(1) d(1) d(2) [symmetric], unfolded bsz] e by (auto simp: block_size_def)
    qed
    then have z: "lj c = 0" "lf c = 0" using plan blk(5) [OF c(1)] by (auto simp: planned_def)
    have "last ?prog = ?prog ! (n - 1)" using n1 by (subst last_conv_nth) (auto simp flip: length_greater_0_conv)
    moreover have "n - 1 = ?pos c + length (body (gcode E c))" using e z by (simp add: block_size_def)
    ultimately have "Op (last ?prog) = ucast (test (gcode E c))" using blk(2) [OF c(1)] by (simp add: block_laid_def Let_def)
    with blk(1) [OF c(1)] y show ?thesis by (auto simp: is_return_def block_ok_def)
  qed
  with each n n1 show ?thesis by (simp add: valid_prog_def)
qed

section \<open>The call\<close>

lemma prog_at_kept_span:
  assumes "prog_at m p prog" "kept A m m'" "span p (8 * length prog) \<inter> A = {}" "length m \<le> length m'"
  shows "prog_at m' p prog"
proof -
  have "insn_at m' (p + 8 * i) = Some (prog ! i)" if "i < length prog" for i
    by (rule insn_at_kept [OF _ assms(2)]) (use assms(1,3) that in \<open>auto simp: prog_at_def disjoint_iff\<close>)
  with assms(1,4) show ?thesis by (simp add: prog_at_def)
qed

lemma written_size:
  assumes ok: "program_ready E depth root" and w: "written E depth root p n h m"
  shows "n \<le> max_size E (reached E depth root)"
proof -
  have pr: "graph_layout E" "root \<in> gblocks E" "grank E root + 1 < depth" using ok by (simp_all add: program_ready_def)
  note rf = reached_facts [OF pr]
  obtain mark mk lj lf where st: "marked_graph E mark mk lj lf m" and n: "n = total_size E lj lf (reached E depth root)"
    using w unfolding written_def conv_state_def by auto
  show ?thesis unfolding n by (rule total_size_max) (use st rf(1) in \<open>auto simp: marked_graph_def\<close>)
qed

lemma icode_to_fcode_at:
  assumes ok: "program_ready E depth root" and cs: "cs_at E = sp - 16" and inv: "heap_inv m (out_at E) L"
    and g: "marked_graph E mark mk lj lf m" and fresh: "\<forall>c \<in> gblocks E. unat (mk c) \<le> unat mark"
    and fuel: "unplanned E lj lf < fuel" "unat mark + 2 * fuel + 1 < 2 ^ 32"
    and room: "\<forall>b. b \<in> gblocks E \<longrightarrow> round_up 4 (4 * length (body (gcode E b))) \<le> list_room"
      "out_at E + Suc fuel * (8 * max_size E (reached E depth root) + 16) + list_room \<le> 2 ^ 32"
    and ln: "length_place lenp" and plan: "planned E (reached E depth root) lj lf"
  obtains m' p prog H L' where "icode_to_fcode vs sn depth fuel sp m (ic_at E) root lenp errbuf = Ret (m', of_nat p)"
    "load32 m' (unat lenp) = Some (of_nat (length prog))" "heap_inv m' H L'" "prog_at m' p prog" "1 \<le> length prog"
    "127840 \<le> p" "p + 8 * length prog \<le> H" "p + 8 * length prog < 2 ^ 32"
    "length prog \<le> max_size E (reached E depth root)"
    "out_at E \<le> p" "L' = 0 \<or> p \<le> L'" "\<forall>x \<in> others E. span (fst x) 4 \<inter> span (unat lenp) 4 = {} \<longrightarrow> load32 m' (fst x) = Some (snd x)"
    "length m \<le> length m'"
    "\<And>pkt wl. length prog \<le> 3060000 \<Longrightarrow> \<exists>v. block_run (gcode E) pkt wl root bpf_init v \<and> bpf_verdict prog pkt wl = Some v"
    "length prog \<le> 3060000 \<Longrightarrow> valid_code E \<Longrightarrow> valid_prog prog"
    "H \<le> out_at E + Suc fuel * (8 * max_size E (reached E depth root) + 16)"
proof -
  have p: "graph_layout E" "unat (ic_at E) + 8 \<le> 125436" "127840 \<le> out_at E" "unat (cs_at E) + 16 \<le> 125436"
    "unat (ic_at E) + 8 \<le> unat (cs_at E) \<or> unat (cs_at E) + 16 \<le> unat (ic_at E)"
    using ok by (simp_all add: program_ready_def)
  have hm: "127840 \<le> length m" using inv by (simp add: heap_inv_def)
  have ld: "load32 m (unat (ic_at E) + 4) = Some mark" using g by (simp add: marked_graph_def)
  obtain m1 where m1: "store32 m (unat (ic_at E) + 4) (mark + 1) = Some m1" using store32_in [OF load32_bound [OF ld]] by blast
  have l1: "length m1 = length m" by (rule length_store32 [OF m1])
  have g1: "marked_graph E (mark + 1) mk lj lf m1" by (rule marked_graph_next [OF p(1,2) g m1])
  have i1: "heap_inv m1 (out_at E) L" by (rule heap_inv_word [OF inv m1]) (use p(2) in simp)
  obtain m2 where m2: "store32 m1 (unat (cs_at E) + 4) errbuf = Some m2"
    using store32_in [of "unat (cs_at E) + 4" m1] l1 hm p(4) by auto
  obtain m3 where m3: "store32 m2 (unat (cs_at E) + 8) 0 = Some m3"
    using store32_in [of "unat (cs_at E) + 8" m2] length_store32 [OF m2] l1 hm p(4) by auto
  have l3: "length m3 = length m" using length_store32 [OF m2] length_store32 [OF m3] l1 by simp
  have k3: "kept (span (unat (cs_at E) + 4) 8) m1 m3"
    by (rule kept_trans [OF kept_mono [OF kept_store32 [OF m2]] kept_mono [OF kept_store32 [OF m3]]]) auto
  have g3: "marked_graph E (mark + 1) mk lj lf m3"
    by (rule marked_graph_kept [OF p(1) g1 k3 _ _ _ p(4)]) (use p(4,5) in auto)
  have i3: "heap_inv m3 (out_at E) L"
    by (rule heap_inv_word [OF heap_inv_word [OF i1 m2] m3]) (use p(4) in simp_all)
  have mark1: "unat (mark + 1) = unat mark + 1" using fuel(2) by (intro unat_add_no_wrap [THEN trans]) simp_all
  have fr: "\<forall>c \<in> gblocks E. unat (mk c) < unat (mark + 1)" using fresh mark1 by fastforce
  have k: "unat (mark + 1) + 2 * fuel < 2 ^ 32" using fuel(2) mark1 by simp
  have rm: "out_at E + 8 * max_size E (reached E depth root) + 16 \<le> 2 ^ 32" using room(2) by simp
  obtain m4 m5 n where c: "count_stmts m3 (ic_at E) root = Some (m4, of_nat n)"
    "calloc m4 (of_nat n) 8 = Some (of_nat (out_at E), m5)" "(of_nat (out_at E) :: u32) \<noteq> 0"
    "round_ready E depth root lj lf (2 * fuel) (out_at E) n (out_at E + round_up 4 (8 * n)) m5" "length m3 \<le> length m5"
    "out_at E + round_up 4 (8 * n) \<le> out_at E + 8 * max_size E (reached E depth root) + 16"
    by (rule plan_program [OF ok i3 g3 fr k order_refl rm plan])
  have rm2: "out_at E + round_up 4 (8 * n) + fuel * (8 * max_size E (reached E depth root) + 16) + list_room \<le> 2 ^ 32"
    using room(2) c(6) by (simp add: algebra_simps)
  obtain m6 p' n' h' where r: "convert_rounds vs sn depth fuel (cs_at E) m5 (ic_at E) root (of_nat (out_at E)) (of_nat n) =
      Ret (m6, Some (of_nat p', of_nat n'))" "written E depth root p' n' h' m6" "out_at E \<le> p'" "length m5 \<le> length m6"
      "h' \<le> out_at E + round_up 4 (8 * n) + fuel * (8 * max_size E (reached E depth root) + 16)"
    using convert_rounds_at [OF ok c(4,3) fuel(1) _ rm2, of vs sn] room(1) by blast
  note w = written_program [OF ok r(2)]
  have l6: "127840 \<le> length m6" using r(4) c(5) l3 hm by simp
  obtain m7 where m7: "store32 m6 (unat lenp) (of_nat n') = Some m7" using store32_in [of "unat lenp" m6] l6 ln by (auto simp: length_place_def)
  obtain L' where i6: "heap_inv m6 h' L'" "L' = 0 \<or> p' \<le> L'" using w(4) by blast
  have i7: "heap_inv m7 h' L'"
    by (rule heap_inv_kept [OF i6(1) kept_store32 [OF m7] length_store32 [OF m7]]) (use ln in \<open>simp add: length_place_def\<close>)
  have pa: "prog_at m7 p' (prog_of (round_layout E p' n' h') m6)"
    by (rule prog_at_kept_span [OF w(1) kept_store32 [OF m7]])
      (use r(3) p(3) ln length_store32 [OF m7] in \<open>auto simp: length_place_def\<close>)
  have run: "icode_to_fcode vs sn depth fuel sp m (ic_at E) root lenp errbuf = Ret (m7, of_nat p')"
    unfolding icode_to_fcode_def Let_def cs [symmetric] using ld m1 m2 m3 c(1,2) r(1) m7 by simp
  show thesis
  proof (rule that [OF run _ i7 pa])
    have "load32 m6 (fst x) = Some (snd x)" if "x \<in> others E" for x
      using r(2) that by (auto simp: written_def conv_state_defs graph_in_def)
    then show "\<forall>x \<in> others E. span (fst x) 4 \<inter> span (unat lenp) 4 = {} \<longrightarrow> load32 m7 (fst x) = Some (snd x)"
      by (auto intro: kept_load32 [OF kept_store32 [OF m7]])
    show "length m \<le> length m7" using r(4) c(5) l3 length_store32 [OF m7] by simp
    show "h' \<le> out_at E + Suc fuel * (8 * max_size E (reached E depth root) + 16)" using r(5) c(6) by simp
  qed (use w written_size [OF ok r(2)] load32_store32 [OF m7] r(3) p(3) i6(2) written_valid [OF ok r(2)] in simp_all)
qed

text \<open>
  What \<open>icode_to_fcode\<close> is called with: the graph of \<open>E\<close> lies in the heap of \<open>m\<close> below the
  heap pointer, no block was marked later than the current mark, the rounds and the marks are
  enough for the long jumps that are not planned yet, and the address space has room for a program in
  each round and for the list of the statements of a block; the memory grows as needed.
\<close>

definition emit_ready :: "conv_layout \<Rightarrow> nat \<Rightarrow> nat \<Rightarrow> u32 \<Rightarrow> u32 \<Rightarrow> u32 \<Rightarrow> memory \<Rightarrow> bool" where
  "emit_ready E depth fuel sp root lenp m \<longleftrightarrow>
     program_ready E depth root \<and> cs_at E = sp - 16 \<and> length_place lenp \<and>
     max_size E (reached E depth root) \<le> 3060000 \<and>
     (\<exists>L mark mk lj lf list_room. planned E (reached E depth root) lj lf \<and> heap_inv m (out_at E) L \<and> marked_graph E mark mk lj lf m \<and>
        (\<forall>c \<in> gblocks E. unat (mk c) \<le> unat mark) \<and>
        unplanned E lj lf < fuel \<and> unat mark + 2 * fuel + 1 < 2 ^ 32 \<and>
        (\<forall>b \<in> gblocks E. round_up 4 (4 * length (body (gcode E b))) \<le> list_room) \<and>
        out_at E + Suc fuel * (8 * max_size E (reached E depth root) + 16) + list_room \<le> 2 ^ 32)"

lemma emit_ready_program:
  assumes "emit_ready E depth fuel sp root lenp m"
  obtains m' p prog H L' where "icode_to_fcode vs sn depth fuel sp m (ic_at E) root lenp errbuf = Ret (m', p)"
    "load32 m' (unat lenp) = Some (of_nat (length prog))" "compiled_at m' p prog H L'"
    "\<And>pkt wl. \<exists>v. block_run (gcode E) pkt wl root bpf_init v \<and> bpf_verdict prog pkt wl = Some v"
    "out_at E \<le> unat p" "L' = 0 \<or> unat p \<le> L'" "length m \<le> length m'"
    "\<forall>x \<in> others E. span (fst x) 4 \<inter> span (unat lenp) 4 = {} \<longrightarrow> load32 m' (fst x) = Some (snd x)"
    "valid_code E \<Longrightarrow> valid_prog prog"
    "H \<le> out_at E + Suc fuel * (8 * max_size E (reached E depth root) + 16)"
proof -
  obtain L mark mk lj lf list_room where r: "program_ready E depth root" "cs_at E = sp - 16" "length_place lenp"
    "max_size E (reached E depth root) \<le> 3060000" "heap_inv m (out_at E) L" "marked_graph E mark mk lj lf m"
    "\<forall>c \<in> gblocks E. unat (mk c) \<le> unat mark" "unplanned E lj lf < fuel" "unat mark + 2 * fuel + 1 < 2 ^ 32"
    "\<forall>b. b \<in> gblocks E \<longrightarrow> round_up 4 (4 * length (body (gcode E b))) \<le> list_room"
    "out_at E + Suc fuel * (8 * max_size E (reached E depth root) + 16) + list_room \<le> 2 ^ 32"
    "planned E (reached E depth root) lj lf"
    using assms unfolding emit_ready_def by blast
  obtain m' p prog H L' where e: "icode_to_fcode vs sn depth fuel sp m (ic_at E) root lenp errbuf = Ret (m', of_nat p)"
    "load32 m' (unat lenp) = Some (of_nat (length prog))" "heap_inv m' H L'" "prog_at m' p prog" "1 \<le> length prog"
    "127840 \<le> p" "p + 8 * length prog \<le> H" "p + 8 * length prog < 2 ^ 32" "length prog \<le> max_size E (reached E depth root)"
    "\<And>pkt wl. length prog \<le> 3060000 \<Longrightarrow> \<exists>v. block_run (gcode E) pkt wl root bpf_init v \<and> bpf_verdict prog pkt wl = Some v"
    "out_at E \<le> p" "L' = 0 \<or> p \<le> L'" "\<forall>x \<in> others E. span (fst x) 4 \<inter> span (unat lenp) 4 = {} \<longrightarrow> load32 m' (fst x) = Some (snd x)"
    "length m \<le> length m'" "length prog \<le> 3060000 \<Longrightarrow> valid_code E \<Longrightarrow> valid_prog prog"
    "H \<le> out_at E + Suc fuel * (8 * max_size E (reached E depth root) + 16)"
    by (rule icode_to_fcode_at [OF r(1,2,5-11,3,12), where vs = vs and sn = sn and errbuf = errbuf]) (rule that)
  have n: "length prog \<le> 3060000" using e(9) r(4) by simp
  have u: "unat (of_nat p :: u32) = p" using e(8) by (intro unat_of_nat_small) simp
  then have c: "compiled_at m' (of_nat p) prog H L'" using e(3-7) n by (simp add: compiled_at_def)
  show thesis by (rule that [OF e(1,2) c]) (use e(10-16) n u in simp_all)
qed

text \<open>A compiled program of valid instructions passes the validator.\<close>

lemma compiled_passes:
  assumes "compiled_at m p prog H L" "valid_prog prog"
  shows "pcapint_validate_filter m p (of_nat (length prog)) = Some 1"
proof -
  have "prog_at m (unat p) prog" "unat p + 8 * length prog \<le> 2 ^ 32" using assms(1) by (auto simp: compiled_at_def heap_inv_def)
  from validator_verdict [OF this] assms(2) show ?thesis by simp
qed

section \<open>Example\<close>

text \<open>
  The graph of a filter for the EtherType of IPv4: a block that loads the half word at 12 and compares
  it, and the two returns, as words of the heap.
\<close>

definition ip_word :: "nat \<Rightarrow> u32" where
  "ip_word = (\<lambda>_. 0)(0 := 128512, 1 := 131072, 602 := 128476, 603 := 21, 606 := 2048, 616 := 128052, 622 := 128264,
     656 := 6, 659 := 262144, 709 := 6, 760 := 40, 763 := 12)"

definition heap_words :: "nat \<Rightarrow> (nat \<Rightarrow> u32) \<Rightarrow> memory" where
  "heap_words n f = replicate 125436 0 @ concat (map (\<lambda>i. le_bytes32 (f i)) [0..<n])"

lemma length_le_words: "length (concat (map (\<lambda>i. le_bytes32 (f i)) xs)) = 4 * length xs"
  by (induction xs) (simp_all add: le_bytes32_def)

lemma drop_le_words:
  "i \<le> length xs \<Longrightarrow> drop (4 * i) (concat (map (\<lambda>i. le_bytes32 (f i)) xs)) = concat (map (\<lambda>i. le_bytes32 (f i)) (drop i xs))"
proof (induction xs arbitrary: i)
  case (Cons x xs)
  show ?case
  proof (cases i)
    case (Suc j)
    have "length (le_bytes32 (f x)) = 4" by (simp add: le_bytes32_def)
    with Suc Cons show ?thesis by (simp del: drop_drop)
  qed simp
qed simp

lemma length_heap_words: "length (heap_words n f) = 125436 + 4 * n"
  by (simp add: heap_words_def length_le_words)

lemma heap_words_load:
  assumes "i < n"
  shows "load32 (heap_words n f) (125436 + 4 * i) = Some (f i)"
proof (rule load32_at)
  have "drop (125436 + 4 * i) (heap_words n f) = concat (map (\<lambda>i. le_bytes32 (f i)) (drop i [0..<n]))"
    using drop_le_words [of i "[0..<n]" f] assms by (simp add: heap_words_def)
  also have "drop i [0..<n] = i # [Suc i..<n]" using assms by (subst drop_upt) (simp only: add_0 upt_conv_Cons)
  finally show "take 4 (drop (125436 + 4 * i) (heap_words n f)) = le_bytes32 (f i)" by (simp add: le_bytes32_def)
qed (use assms in \<open>simp add: length_heap_words\<close>)

definition ip_memory :: memory where
  "ip_memory = heap_words 1409 ip_word"

lemma length_ip_memory: "length ip_memory = 131072"
  by (simp add: ip_memory_def length_heap_words)

lemma ip_memory_load:
  assumes "125436 \<le> a" "a < 131072" "4 dvd a"
  shows "load32 ip_memory a = Some (ip_word ((a - 125436) div 4))"
proof -
  have "125436 + 4 * ((a - 125436) div 4) = a" using assms by presburger
  moreover have "(a - 125436) div 4 < 1409" using assms(2) by simp
  ultimately show ?thesis using heap_words_load [of "(a - 125436) div 4" 1409 ip_word] by (simp only: ip_memory_def)
qed

lemma ip_memory_zero:
  assumes "a + 4 \<le> 125436"
  shows "load32 ip_memory a = Some 0"
proof (rule load32_at)
  have "take 4 (drop a ip_memory) = replicate 4 0" using assms by (simp add: ip_memory_def heap_words_def)
  then show "take 4 (drop a ip_memory) = le_bytes32 0" by (simp only: four_zeros)
qed (use assms in \<open>simp add: length_ip_memory\<close>)

definition ip_block :: icode_block where
  "ip_block = \<lparr>body = [(40, 12)], test = 21, bound = 2048, yes = 128052, no = 128264\<rparr>"

definition ret_block :: "u32 \<Rightarrow> icode_block" where
  "ret_block k = \<lparr>body = [], test = 6, bound = k, yes = 0, no = 0\<rparr>"

definition ip_layout :: conv_layout where
  "ip_layout = \<lparr>gblocks = {127840, 128052, 128264}, grank = \<lambda>b. if b = 127840 then 1 else 0,
     gcode = (\<lambda>b. if b = 127840 then ip_block else ret_block (if b = 128052 then 262144 else 0)),
     gstmts = (\<lambda>b. if b = 127840 then [(128476, 40, 12)] else []),
     ic_at = 1000, cs_at = 2984, out_at = 128512, slots = 0, heap_end = 0, others = {}\<rparr>"

lemmas ip_defs = ip_layout_def ip_block_def ret_block_def

lemma ip_heap_inv: "heap_inv ip_memory 128512 0"
  by (simp add: heap_inv_def length_ip_memory ip_memory_load ip_word_def)

lemma ip_graph_layout: "graph_layout ip_layout"
proof -
  have "plain_code 40" by (simp add: plain_code_def)
  moreover have "decode_op 6 = Some RetK" "\<exists>c src. decode_op 21 = Some (Jcc c src)" by (simp_all add: decode_op_def decode_jmp_def cond_of_field_def)
  ultimately have "icode_ok (gblocks ip_layout) (grank ip_layout) (gcode ip_layout)"
    by (auto simp: icode_ok_def block_ok_def ip_defs)
  then show ?thesis by (auto simp: graph_layout_def ip_defs stmt_span_def)
qed

lemma ip_marked: "marked_graph ip_layout 0 (\<lambda>_. 0) (\<lambda>_. 0) (\<lambda>_. 0) ip_memory"
  by (simp add: marked_graph_def graph_in_def ip_defs ip_memory_load ip_memory_zero ip_word_def)

lemma ip_reached: "reached ip_layout 3 127840 = [127840, 128052, 128264]"
proof -
  have "(3 :: nat) = Suc (Suc (Suc 0))" by simp
  then show ?thesis by (simp only: reached_def dfs.simps) (simp add: ip_defs)
qed

lemma ip_unplanned: "unplanned ip_layout (\<lambda>_. 0) (\<lambda>_. 0) = 6"
proof -
  have "card (gblocks ip_layout) = 3" by (simp add: ip_layout_def)
  then show ?thesis by (simp add: unplanned_def)
qed

lemma ip_emit_ready: "emit_ready ip_layout 3 7 3000 127840 4000 ip_memory"
proof -
  have "max_size ip_layout (reached ip_layout 3 127840) = 10"
    unfolding ip_reached by (simp add: max_size_def ip_defs)
  moreover have "grank ip_layout 127840 + 1 < 3" by (simp add: ip_layout_def)
  moreover have "\<forall>b \<in> gblocks ip_layout. round_up 4 (4 * length (body (gcode ip_layout b))) \<le> 16"
    by (simp add: ip_defs round_up_def)
  moreover have "out_at ip_layout = 128512" "ic_at ip_layout = 1000" "cs_at ip_layout = 2984"
    "127840 \<in> gblocks ip_layout" "finite (gblocks ip_layout)"
    by (simp_all add: ip_layout_def)
  moreover have "length_place 4000" by (auto simp: length_place_def own_bytes_def)
  ultimately show ?thesis
    unfolding emit_ready_def program_ready_def
    using planned_none ip_graph_layout ip_heap_inv ip_marked ip_unplanned length_ip_memory
    by (intro conjI exI [of _ 0] exI [of _ "\<lambda>_. 0"] exI [of _ 16]) simp_all
qed

section \<open>The property\<close>

text \<open>
  C8: \<open>icode_to_fcode\<close> on a graph of blocks in memory returns a program that is written in a block
  of the heap of its own, stores its length, and the interpreter's verdict on the program is the
  verdict of the graph, on every packet. The rounds of \<open>convert_code_r\<close> end.
\<close>

theorem emitted_program:
  assumes "emit_ready E depth fuel sp root lenp m"
  shows "\<exists>m' p prog H L.
    icode_to_fcode vs sn depth fuel sp m (ic_at E) root lenp errbuf = Ret (m', p) \<and>
    load32 m' (unat lenp) = Some (of_nat (length prog)) \<and> compiled_at m' p prog H L \<and>
    (\<forall>pkt wl. \<exists>v. block_run (gcode E) pkt wl root bpf_init v \<and> bpf_verdict prog pkt wl = Some v)"
proof (rule emit_ready_program [OF assms, of vs sn errbuf])
  fix m' p prog H L
  assume "icode_to_fcode vs sn depth fuel sp m (ic_at E) root lenp errbuf = Ret (m', p)"
    "load32 m' (unat lenp) = Some (of_nat (length prog))" "compiled_at m' p prog H L"
    "\<And>pkt wl. \<exists>v. block_run (gcode E) pkt wl root bpf_init v \<and> bpf_verdict prog pkt wl = Some v"
  then show ?thesis by blast
qed

theorem emitted_program_witness:
  "\<exists>m' p prog. icode_to_fcode (\<lambda>_ m _ _ _ _. Some m) (\<lambda>_ m _ _ _ _. Some m) 3 7 3000 ip_memory 1000 127840 4000 0 = Ret (m', p) \<and>
    load32 m' 4000 = Some (of_nat (length prog)) \<and>
    (\<exists>v. block_run (gcode ip_layout) [] 0 127840 bpf_init v \<and> bpf_verdict prog [] 0 = Some v)"
proof -
  have "ic_at ip_layout = 1000" by (simp add: ip_layout_def)
  with emitted_program [OF ip_emit_ready, of "\<lambda>_ m _ _ _ _. Some m" "\<lambda>_ m _ _ _ _. Some m" 0]
  show ?thesis by (simp del: of_nat_eq_iff) metis
qed

text \<open>
  C9: The program that \<open>icode_to_fcode\<close> returns passes the validator when the statements of the blocks
  are instructions that do: the long jumps lead forward to a place in the program, and the last
  instruction returns.
\<close>

theorem emitted_program_passes:
  assumes "emit_ready E depth fuel sp root lenp m" "valid_code E"
  shows "\<exists>m' p n. icode_to_fcode vs sn depth fuel sp m (ic_at E) root lenp errbuf = Ret (m', p) \<and>
    load32 m' (unat lenp) = Some n \<and> pcapint_validate_filter m' p n = Some 1"
proof (rule emit_ready_program [OF assms(1), of vs sn errbuf])
  fix m' p prog H L
  assume r: "icode_to_fcode vs sn depth fuel sp m (ic_at E) root lenp errbuf = Ret (m', p)"
    "load32 m' (unat lenp) = Some (of_nat (length prog))" and c: "compiled_at m' p prog H L"
    and v: "valid_code E \<Longrightarrow> valid_prog prog"
  have "pcapint_validate_filter m' p (of_nat (length prog)) = Some 1"
    by (rule compiled_passes [OF c v [OF assms(2)]])
  with r show ?thesis by blast
qed

lemma ip_valid_code: "valid_code ip_layout"
proof -
  have "decode_op 40 = Some (LdAbs SizeH)" by (simp add: decode_op_def decode_ld_def size_of_field_def)
  then show ?thesis by (auto simp: valid_code_def ip_defs)
qed

theorem emitted_program_passes_witness:
  "\<exists>m' p n. icode_to_fcode (\<lambda>_ m _ _ _ _. Some m) (\<lambda>_ m _ _ _ _. Some m) 3 7 3000 ip_memory 1000 127840 4000 0 = Ret (m', p) \<and>
    pcapint_validate_filter m' p n = Some 1"
proof -
  have "ic_at ip_layout = 1000" by (simp add: ip_layout_def)
  with emitted_program_passes [OF ip_emit_ready ip_valid_code, of "\<lambda>_ m _ _ _ _. Some m" "\<lambda>_ m _ _ _ _. Some m" 0]
  show ?thesis by auto
qed

end
