(* ===== verification/Finish_Program.thy ===== *)
theory Finish_Program
  imports Finish_Parse Emit_Program
begin

text \<open>
  From a filter expression to its program: what \<open>_finish_parse\<close> does for a link layer without
  variable parts (\<open>finish_ends_at\<close>), what the tests mean on a packet (\<open>test_result\<close>), and that the
  finished graph is one that \<open>icode_to_fcode\<close> turns into a program (\<open>ended_emit_ready\<close>) which accepts
  a packet if and only if the expression holds on it.
\<close>

section \<open>The two ends\<close>

text \<open>A block that returns \<open>k\<close>.\<close>

definition ret_at :: "arena \<Rightarrow> memory \<Rightarrow> u32 \<Rightarrow> u32 \<Rightarrow> bool" where
  "ret_at A m r k \<longleftrightarrow> r \<noteq> 0 \<and> piece A r 212 \<and> load32 m (unat r + 8) = Some 6 \<and> load32 m (unat r + 20) = Some k \<and>
     (\<forall>off \<in> {4, 24, 28, 32, 60, 84}. load32 m (unat r + off) = Some 0)"

lemma ret_at_made: "made A A' m m' [] 6 k r \<Longrightarrow> ret_at A' m' r k"
  by (auto simp: made_def ret_at_def)

lemma ret_at_kept:
  assumes "ret_at A m r k" "kept Q m m'" "span (unat r) 212 \<inter> Q = {}" "grows A A'"
  shows "ret_at A' m' r k"
proof -
  have "load32 m' (unat r + off) = Some v" if "load32 m (unat r + off) = Some v" "off + 4 \<le> 212" for off v
  proof (rule kept_load32 [OF assms(2) that(1)])
    have "span (unat r + off) 4 \<subseteq> span (unat r) 212" using that(2) by simp
    with assms(3) show "span (unat r + off) 4 \<inter> Q = {}" by blast
  qed
  with assms(1) grows_piece [OF assms(4)] show ?thesis unfolding ret_at_def by simp
qed

text \<open>It lies apart from the blocks generated so far.\<close>

definition apart_from :: "u32 set \<Rightarrow> (u32 \<Rightarrow> statement list) \<Rightarrow> u32 \<Rightarrow> bool" where
  "apart_from B S r \<longleftrightarrow> (\<forall>d \<in> B. span (unat d) 212 \<inter> span (unat r) 212 = {} \<and>
     (\<forall>x \<in> set (S d). stmt_span x \<inter> span (unat r) 212 = {}))"

lemma apart_from_words: "apart_from B S r \<Longrightarrow> span (unat r) 212 \<inter> graph_words B = {}"
  using graph_words_in [of B] unfolding apart_from_def by blast

lemma retblk:
  assumes g: "generated c A B G tst S m" and room: "has_room 212 A"
  obtains m' r where "gen_retblk vs sn sp m (handle A) k = Ret (m', r)" "generated c (next_arena 212 A) B G tst S m'"
    "ret_at (next_arena 212 A) m' r k" "apart_from B S r" "grows A (next_arena 212 A)" "kept (touched A) m m'"
    "span (unat r) 212 \<subseteq> touched A"
proof -
  have ok: "arena_ok A m" using g by (simp add: generated_def)
  obtain m' r where r: "gen_retblk vs sn sp m (handle A) k = Ret (m', r)" "made A (next_arena 212 A) m m' [] 6 k r"
    by (rule gen_retblk_made [OF ok room, of vs sn sp k])
  note n = r(2) [unfolded made_def]
  have "generated c (next_arena 212 A) B G tst S m'" by (rule generated_kept [OF g]) (use n in blast)+
  moreover have "apart_from B S r" using made_apart [OF g r(2)] by (auto simp: apart_from_def simp del: span_disjoint)
  moreover have "span (unat r) 212 \<subseteq> touched A" using n by (auto simp: touched_def)
  ultimately show thesis using that [OF r(1)] ret_at_made [OF r(2)] n by blast
qed

text \<open>What the generation of code reads from the handle stays.\<close>

lemma handle_word_reach:
  assumes "generated c A B G tst S m" "off + 4 \<le> 248"
  shows "span (unat (handle A) + off) 4 \<inter> reach A B = {}"
proof -
  have ok: "arena_ok A m" using assms(1) by (simp add: generated_def)
  have "span (unat (handle A) + off) 4 \<inter> span (unat b) 212 = {}" if "b \<in> B" for b
    using assms that by (auto simp: generated_def piece_def arena_ok_def)
  with handle_word_apart [OF ok assms(2)] show ?thesis by (auto simp: reach_def simp del: span_disjoint)
qed

lemma generated_handle_word:
  assumes g: "generated c A B G tst S m" and s: "store32 m (unat (handle A) + 12) v = Some m'"
  shows "generated c A B G tst S m'"
proof -
  note g1 = g [unfolded generated_def] and k = kept_store32 [OF s]
  have ok: "arena_ok A m" and h: "unat (handle A) + 380 \<le> 125436" using g1 by (auto simp: arena_ok_def)
  have ap: "span (unat d) n \<inter> span (unat (handle A) + 12) 4 = {}" if "piece A d n" for d n
    using that h by (auto simp: piece_def)
  have fr: "span (unat (handle A) + 12) 4 \<inter> free A = {}"
    using handle_word_apart [OF ok, of 12] by (auto simp: touched_def)
  have ok': "arena_ok A m'"
    by (rule arena_ok_kept [OF ok k length_store32 [OF s] _ _ fr]) (use h in \<open>auto simp: arena_words_def\<close>)
  have "load32 m' a = Some v" if "load32 m a = Some v" "span a 4 \<inter> span (unat (handle A) + 12) 4 = {}" for a v
    by (rule kept_load32 [OF k that])
  then have "link_at c (handle A) m'" using g1 by (auto simp: link_at_def)
  moreover have "graph_at m' B G"
  proof -
    have "load32 m' (unat d + off) = Some (G d off)" if "d \<in> B" "off \<in> block_fields" for d off
    proof (rule kept_load32 [OF k])
      show "load32 m (unat d + off) = Some (G d off)" using g1 that by (auto simp: graph_at_def)
      have "span (unat d + off) 4 \<subseteq> span (unat d) 212" using block_fields_apart(2) [OF that(2)] by simp
      with ap [of d 212] g1 that(1) show "span (unat d + off) 4 \<inter> span (unat (handle A) + 12) 4 = {}" by blast
    qed
    with g1 length_store32 [OF s] show ?thesis by (auto simp: graph_at_def)
  qed
  moreover have "block_made c A m' d (tst d) (S d)" if d: "d \<in> B" for d
  proof (rule block_made_kept [OF _ k])
    show "block_made c A m d (tst d) (S d)" using g1 d by blast
    show "span (unat (handle A) + 12) 4 \<inter> code_words d = {}" using ap [of d 212] code_words_in [of d] g1 d by blast
    show "stmt_span x \<inter> span (unat (handle A) + 12) 4 = {}" if "x \<in> set (S d)" for x
      unfolding stmt_span_def by (rule ap) (use g1 d that in blast)
  qed
  ultimately show ?thesis using g1 ok' unfolding generated_def by simp
qed

text \<open>Filling in the exits of a fragment, first the true ones, then with the sense turned the false ones.\<close>

lemma patch_wired_other:
  assumes "wired G C b T F phi" "off \<noteq> 60" "off \<noteq> 84"
  shows "patch H T t x off = H x off" "patch H F t x off = H x off"
proof -
  have "(x, off) \<notin> set T \<union> set F" using wired_slots(2) [OF assms(1), of x off] assms(2,3) by blast
  then show "patch H T t x off = H x off" "patch H F t x off = H x off" by (simp_all add: patch_def)
qed

lemma patch_true:
  assumes g: "graph_at m B G" and f: "fragment G C b T F phi" "C \<subseteq> B"
  shows "\<exists>m'. backpatch m b t = Some m' \<and> graph_at m' B (patch G T t) \<and> edited B m m'"
proof -
  obtain T' where T: "T = (b, link G b) # T'" "follows_sense G T'" "distinct (b # map fst T')" "fst ` set T' \<subseteq> C" "b \<in> C"
    using fragment_wired [OF f(1)] by (rule wired_lists) (auto simp: distinct_map)
  have "exits G b T" using f(1) by (simp add: fragment_def wired_def)
  moreover have "fst ` set T \<subseteq> B" using T(1,4,5) f(2) by auto
  moreover have "T \<noteq> []" "distinct (map fst T)" "follows_sense G T" using T(1,2,3) by (auto simp: follows_sense_def)
  ultimately show ?thesis using backpatch_graph [OF g] by blast
qed

lemma patch_false:
  assumes g: "graph_at m B (set_sense (patch G T t) b (G b 44 = 0))" and f: "fragment G C b T F phi" "C \<subseteq> B"
  shows "\<exists>m'. backpatch m b t' = Some m' \<and> graph_at m' B (patch (set_sense (patch G T t) b (G b 44 = 0)) F t') \<and> edited B m m'"
proof -
  let ?G = "set_sense (patch G T t) b (G b 44 = 0)"
  note w = fragment_wired [OF f(1)]
  obtain F' where F: "F = (b, 144 - link G b) # F'" "follows_sense G F'" "distinct (b # map fst F')" "fst ` set F' \<subseteq> C" "b \<in> C"
    using w by (rule wired_lists) (auto simp: distinct_map)
  have j: "off = 60 \<or> off = 84" if "(x, off) \<in> set T \<union> set F" for x off by (rule wired_slots(2) [OF w that])
  have s: "patch G T t x 44 = G x 44" for x by (rule patch_wired_other(1) [OF w]) simp_all
  have lk: "link ?G x = (if x = b then 144 - link G x else link G x)" for x
  proof -
    have "link (patch G T t) y = link G y" for y by (rule link_cong) (rule s)
    with link_set_sense(1) [of "patch G T t" b x] s show ?thesis by simp
  qed
  have "exits ?G b F = exits G b F"
  proof (rule exits_cong)
    fix x off assume xo: "(x, off) \<in> set F"
    then have "(x, off) \<notin> set T" "off \<noteq> 44" using wired_apart(1) [OF w] j [of x off] by auto
    then show "?G x off = G x off" by (simp add: patch_def)
  qed
  moreover have "exits G b F" using w by (simp add: wired_def)
  moreover have "follows_sense ?G F"
  proof -
    have "follows_sense ?G F' = follows_sense G F'"
      using F(3) by (intro follows_sense_cong) (auto simp: lk)
    then show ?thesis using F(1,2) by (simp add: follows_sense_def lk)
  qed
  moreover have "fst ` set F \<subseteq> B" using F(1,4,5) f(2) by auto
  moreover have "F \<noteq> []" "distinct (map fst F)" using F(1,3) by auto
  ultimately show ?thesis using backpatch_graph [OF g] by blast
qed

text \<open>The blocks, the two returns, and where the exits lead.\<close>

definition ended ::
  "(nat \<Rightarrow> u32) \<Rightarrow> arena \<Rightarrow> u32 set \<Rightarrow> graph \<Rightarrow> (u32 \<Rightarrow> test) \<Rightarrow> (u32 \<Rightarrow> statement list) \<Rightarrow> exit_slot list \<Rightarrow> exit_slot list \<Rightarrow>
    u32 \<Rightarrow> u32 \<Rightarrow> arena \<Rightarrow> graph \<Rightarrow> memory \<Rightarrow> u32 \<Rightarrow> u32 \<Rightarrow> bool" where
  "ended c A B G tst S T F b snap A' G' m' ra rr \<longleftrightarrow> generated c A' B G' tst S m' \<and>
     ret_at A' m' ra snap \<and> ret_at A' m' rr 0 \<and> span (unat ra) 212 \<inter> span (unat rr) 212 = {} \<and>
     apart_from B S ra \<and> apart_from B S rr \<and> handle A' = handle A \<and>
     load32 m' (unat (handle A) + 12) = Some (G b 96) \<and>
     (\<forall>x. \<forall>off \<in> {60, 84}. G' x off = (if (x, off) \<in> set T then ra else if (x, off) \<in> set F then rr else G x off))"

lemma finish_ends_at:
  assumes g: "generated c A B G tst S m" and f: "fragment G C b T F phi" "C \<subseteq> B" and room: "fits [212, 212] A"
    and snap: "load32 m (unat (handle A) + 20) = Some snap"
  obtains m' ra rr G' where "finish_ends vs sn sp m (handle A) b = Ret m'"
    "ended c A B G tst S T F b snap (after [212, 212] A) G' m' ra rr"
    "span (unat ra) 212 \<union> span (unat rr) 212 \<subseteq> touched A"
    "kept (reach A B \<union> span (unat (handle A) + 12) 4) m m'"
proof -
  let ?A1 = "next_arena 212 A" and ?A2 = "next_arena 212 (next_arena 212 A)"
  note w = fragment_wired [OF f(1)]
  have b: "b \<in> B" using f by (auto simp: fragment_def wired_def)
  obtain m1 ra where 1: "gen_retblk vs sn sp m (handle A) snap = Ret (m1, ra)" "generated c ?A1 B G tst S m1"
    "ret_at ?A1 m1 ra snap" "apart_from B S ra" "grows A ?A1" "kept (touched A) m m1" "span (unat ra) 212 \<subseteq> touched A"
    by (rule retblk [OF g, of vs sn sp snap]) (use room in auto)
  have b0: "b \<noteq> 0" and g1: "graph_at m1 B G" using 1(2) b by (auto simp: generated_def graph_at_def)
  obtain m2 where 2: "backpatch m1 b ra = Some m2" "graph_at m2 B (patch G T ra)" "edited B m1 m2"
    using patch_true [OF g1 f, of ra] by blast
  have s: "patch G T ra b 44 = G b 44" by (rule patch_wired_other(1) [OF w]) simp_all
  let ?G2 = "set_sense (patch G T ra) b (G b 44 = 0)"
  obtain m3 where 3: "store32 m2 (unat b + 44) (if G b 44 = 0 then 1 else 0) = Some m3" "graph_at m3 B ?G2" "edited B m2 m3"
    using graph_at_store_sense [OF 2(2) b, of "G b 44 = 0"] by blast
  have e13: "edited B m1 m3" by (rule edited_trans [OF 2(3) 3(3)])
  have gen3: "generated c ?A1 B ?G2 tst S m3" by (rule generated_edited [OF 1(2) 3(2) e13])
  have k13: "kept (graph_words B) m1 m3" "length m3 = length m1" using e13 by (simp_all add: edited_def)
  have ra3: "ret_at ?A1 m3 ra snap" by (rule ret_at_kept [OF 1(3) k13(1) apart_from_words [OF 1(4)] grows_refl])
  have room2: "has_room 212 ?A1"
    using room by simp
  obtain m4 rr where 4: "gen_retblk vs sn sp m3 (handle A) 0 = Ret (m4, rr)" "generated c ?A2 B ?G2 tst S m4"
    "ret_at ?A2 m4 rr 0" "apart_from B S rr" "grows ?A1 ?A2" "kept (touched ?A1) m3 m4" "span (unat rr) 212 \<subseteq> touched ?A1"
    using retblk [OF gen3 room2, of vs sn sp 0] by auto
  have ok3: "arena_ok ?A1 m3" using gen3 by (simp add: generated_def)
  have rat: "span (unat ra) 212 \<inter> touched ?A1 = {}" using piece_apart [OF ok3] ra3 by (simp add: ret_at_def)
  have ra4: "ret_at ?A2 m4 ra snap" by (rule ret_at_kept [OF ra3 4(6) rat 4(5)])
  have g4: "graph_at m4 B ?G2" using 4(2) by (simp add: generated_def)
  let ?G3 = "patch ?G2 F rr"
  obtain m5 where 5: "backpatch m4 b rr = Some m5" "graph_at m5 B ?G3" "edited B m4 m5"
    using patch_false [OF g4 f, of rr] by blast
  have gen5: "generated c ?A2 B ?G3 tst S m5" by (rule generated_edited [OF 4(2) 5(2,3)])
  have k45: "kept (graph_words B) m4 m5" using 5(3) by (simp add: edited_def)
  have ra5: "ret_at ?A2 m5 ra snap" by (rule ret_at_kept [OF ra4 k45 apart_from_words [OF 1(4)] grows_refl])
  have rr5: "ret_at ?A2 m5 rr 0" by (rule ret_at_kept [OF 4(3) k45 apart_from_words [OF 4(4)] grows_refl])
  have h3: "?G3 b 96 = G b 96" by (simp add: patch_wired_other [OF w])
  have ld: "load32 m5 (unat b + 96) = Some (G b 96)"
    using graph_at_load [OF 5(2) b, of 96] h3 by simp
  have ok5: "arena_ok ?A2 m5" using gen5 by (simp add: generated_def)
  have h: "unat (handle A) + 380 \<le> 125436" "127840 \<le> length m5"
    using ok5 arena_bounds [OF ok5] by (simp_all add: arena_ok_def)
  obtain m6 where 6: "store32 m5 (unat (handle A) + 12) (G b 96) = Some m6"
    using store32_in [of "unat (handle A) + 12" m5] h by auto
  have gen6: "generated c ?A2 B ?G3 tst S m6" by (rule generated_handle_word [OF gen5]) (use 6 in simp)
  have apart: "span (unat r) 212 \<inter> span (unat (handle A) + 12) 4 = {}" if "ret_at ?A2 m5 r k" for r k
    using that h by (auto simp: ret_at_def piece_def)
  have ra6: "ret_at ?A2 m6 ra snap" by (rule ret_at_kept [OF ra5 kept_store32 [OF 6] apart [OF ra5] grows_refl])
  have rr6: "ret_at ?A2 m6 rr 0" by (rule ret_at_kept [OF rr5 kept_store32 [OF 6] apart [OF rr5] grows_refl])
  have "load32 m2 (unat b + 44) = Some (G b 44)" using graph_at_load [OF 2(2) b, of 44] s by simp
  then have run: "finish_ends vs sn sp m (handle A) b = Ret m6"
    unfolding finish_ends_def snap lift_simps jump_bind.simps 1(1) prod.case
    using b0 2(1) 3(1) 4(1) 5(1) ld 6 by (simp del: if_split)
  have slots: "?G3 x off = (if (x, off) \<in> set T then ra else if (x, off) \<in> set F then rr else G x off)"
    if "off \<in> {60, 84}" for x off
    using that wired_apart(1) [OF w] by (auto simp: patch_def)
  have "span (unat ra) 212 \<inter> span (unat rr) 212 = {}" using rat 4(7) by blast
  then have "ended c A B G tst S T F b snap ?A2 ?G3 m6 ra rr"
    unfolding ended_def using gen6 ra6 rr6 1(4) 4(4) load32_store32 [OF 6] slots by simp
  moreover have "kept (reach A B \<union> span (unat (handle A) + 12) 4) m m6"
  proof -
    have "kept (reach A B) m m1" by (rule kept_mono [OF 1(6)]) (simp add: reach_def)
    moreover have "kept (reach A B) m1 m3" by (rule kept_mono [OF k13(1) graph_words_reach])
    moreover have "kept (reach A B) m3 m4"
      by (rule kept_mono [OF 4(6)]) (use grows_touched [OF 1(5)] in \<open>auto simp: reach_def\<close>)
    moreover have "kept (reach A B) m4 m5" by (rule kept_mono [OF k45 graph_words_reach])
    ultimately have "kept (reach A B) m m5" by (blast intro: kept_trans)
    then show ?thesis by (intro kept_trans [OF kept_mono [of "reach A B"] kept_mono [OF kept_store32 [OF 6]]]) auto
  qed
  moreover have "span (unat ra) 212 \<union> span (unat rr) 212 \<subseteq> touched A"
    using 1(7) 4(7) grows_touched [OF 1(5)] by blast
  ultimately show thesis using that [OF run] by simp
qed

section \<open>What a test means\<close>

text \<open>
  The field that a test loads: at a fixed place of the packet, or, for the headers after an IPv4 header
  (8), after the length that the low half of the first byte of that header gives, in words.
\<close>

definition load_size :: "u32 \<Rightarrow> bpf_size" where
  "load_size sz = (if sz = 0 then SizeW else if sz = 8 then SizeH else SizeB)"

definition loaded :: "u8 list \<Rightarrow> (nat \<Rightarrow> u32) \<Rightarrow> u32 \<Rightarrow> u32 \<Rightarrow> u32 \<Rightarrow> u32 option" where
  "loaded pkt c rel off sz =
     (if rel = 8 then do {
        x \<leftarrow> pkt_load SizeB pkt (unat (c 172 + c 100));
        pkt_load (load_size sz) pkt (unat (push_bit 2 (x AND 15)) + unat (load_offset c rel off))
      }
      else pkt_load (load_size sz) pkt (unat (load_offset c rel off)))"

definition relation :: "u32 \<Rightarrow> u32 \<Rightarrow> u32 \<Rightarrow> bool" where
  "relation jtype a v =
     (if jtype = 16 then a = v else if jtype = 32 then a > v else if jtype = 48 then a \<ge> v else a AND v \<noteq> 0)"

text \<open>The result of a test on a packet: none if the field is not in the packet.\<close>

fun test_result :: "u8 list \<Rightarrow> (nat \<Rightarrow> u32) \<Rightarrow> test \<Rightarrow> bool option" where
  "test_result pkt c (Cmp rel off sz v) = map_option (\<lambda>a. a = v) (loaded pkt c rel off sz)"
| "test_result pkt c (Mcmp rel off sz v msk) = map_option (\<lambda>a. a AND msk = v) (loaded pkt c rel off sz)"
| "test_result pkt c (Ncmp rel off sz msk jtype v) = map_option (\<lambda>a. relation jtype (a AND msk) v) (loaded pkt c rel off sz)"

lemma decode_loads:
  assumes "sz \<in> {0, 8, 16 :: u32}"
  shows "decode_op (ucast (sz OR 32)) = Some (LdAbs (load_size sz))" "decode_op (ucast (sz OR 64)) = Some (LdInd (load_size sz))"
  using assms by (auto simp: decode_op_def decode_ld_def size_of_field_def load_size_def)

lemma decode_others:
  "decode_op 177 = Some LdxMsh" "decode_op 84 = Some (Alu And SrcK)" "decode_op 21 = Some (Jcc Jeq SrcK)"
  by (simp_all add: decode_op_def decode_ldx_def decode_alu_def alu_of_field_def decode_jmp_def cond_of_field_def src_of_field_def)

definition jump_of :: "u32 \<Rightarrow> bpf_cond" where
  "jump_of jtype = (if jtype = 16 then Jeq else if jtype = 32 then Jgt else if jtype = 48 then Jge else Jset)"

lemma decode_jumps:
  "jtype \<in> {16, 32, 48, 64 :: u32} \<Longrightarrow> decode_op (ucast (jtype OR 5)) = Some (Jcc (jump_of jtype) SrcK)"
  by (auto simp: decode_op_def decode_jmp_def cond_of_field_def src_of_field_def jump_of_def)

lemma cond_relation: "cond (jump_of jtype) a v = relation jtype a v"
  by (simp add: jump_of_def relation_def)

lemma load_body_runs:
  assumes "sz \<in> {0, 8, 16}"
  shows "case loaded pkt c rel off sz of
      None \<Rightarrow> exec_body pkt wl (load_body c rel off sz) s = Stop 0
    | Some a \<Rightarrow> \<exists>s'. exec_body pkt wl (load_body c rel off sz) s = Next s' \<and> acc s' = a"
  by (auto simp: loaded_def load_body_def exec_stmt_def decode_loads [OF assms] decode_others set_acc_def set_idx_def goto_pc_def
    split: option.splits)

lemma exec_body_append:
  "exec_body pkt wl (xs @ ys) s = (case exec_body pkt wl xs s of Stop v \<Rightarrow> Stop v | Next s \<Rightarrow> exec_body pkt wl ys s)"
  by (induction xs arbitrary: s) (auto split: progress.splits)

lemma masked_runs:
  assumes "case x of None \<Rightarrow> exec_body pkt wl xs s = Stop 0 | Some a \<Rightarrow> \<exists>s'. exec_body pkt wl xs s = Next s' \<and> acc s' = a"
  shows "case x of None \<Rightarrow> exec_body pkt wl (masked xs msk) s = Stop 0
    | Some a \<Rightarrow> \<exists>s'. exec_body pkt wl (masked xs msk) s = Next s' \<and> acc s' = a AND msk"
  using assms
  by (auto simp: masked_def exec_body_append exec_stmt_def decode_others set_acc_def goto_pc_def split: option.splits)

lemma test_runs:
  assumes "test_ok t"
  shows "case test_result pkt c t of
      None \<Rightarrow> exec_body pkt wl (test_body c t) s = Stop 0
    | Some r \<Rightarrow> \<exists>s' f src. exec_body pkt wl (test_body c t) s = Next s' \<and>
        decode_op (ucast (test_code t)) = Some (Jcc f src) \<and> cond f (acc s') (operand src (test_value t) s') = r"
proof (cases t)
  case (Cmp rel off sz v)
  then have "sz \<in> {0, 8, 16}" using assms by simp
  from load_body_runs [OF this, where pkt = pkt and c = c and rel = rel and off = off and wl = wl and s = s] Cmp show ?thesis
    by (auto simp: decode_others split: option.splits)
next
  case (Mcmp rel off sz v msk)
  then have "sz \<in> {0, 8, 16}" using assms by simp
  from masked_runs [OF load_body_runs [OF this, where pkt = pkt and c = c and rel = rel and off = off and wl = wl and s = s], where msk = msk] Mcmp show ?thesis
    by (auto simp: decode_others split: option.splits)
next
  case (Ncmp rel off sz msk jtype v)
  then have "sz \<in> {0, 8, 16}" "jtype \<in> {16, 32, 48, 64}" using assms by simp_all
  with masked_runs [OF load_body_runs [OF this(1), where pkt = pkt and c = c and rel = rel and off = off and wl = wl and s = s], where msk = msk] Ncmp decode_jumps [of jtype] show ?thesis
    by (auto simp: cond_relation split: option.splits)
qed

lemma test_body_codes:
  assumes "test_ok t"
  shows "\<forall>x \<in> set (test_body c t). plain_code (fst x) \<and> fst x \<noteq> - 1" "length (test_body c t) \<le> 3"
    "\<exists>f src. decode_op (ucast (test_code t)) = Some (Jcc f src)"
proof -
  have l: "plain_code (sz OR 32) \<and> sz OR 32 \<noteq> - 1 \<and> plain_code (sz OR 64) \<and> sz OR 64 \<noteq> - 1" if "sz \<in> {0, 8, 16 :: u32}" for sz
    using that by (auto simp: plain_code_def)
  have "plain_code 177" "plain_code 84" by (simp_all add: plain_code_def)
  with l assms show "\<forall>x \<in> set (test_body c t). plain_code (fst x) \<and> fst x \<noteq> - 1"
    by (cases t) (simp_all only: test_ok.simps test_body.simps load_body_def masked_def, auto)
  show "length (test_body c t) \<le> 3" by (cases t) (auto simp: load_body_def masked_def)
  show "\<exists>f src. decode_op (ucast (test_code t)) = Some (Jcc f src)"
    using assms decode_jumps by (cases t) (auto simp: decode_others)
qed

lemma test_body_valid:
  assumes "test_ok t" "x \<in> set (test_body c t)"
  shows "case decode_op (ucast (fst x)) of None \<Rightarrow> False | Some ins \<Rightarrow> valid_operand ins (snd x)"
  using assms by (cases t) (auto simp: load_body_def masked_def decode_op_def decode_ld_def decode_ldx_def decode_alu_def
    size_of_field_def alu_of_field_def src_of_field_def split: if_splits)

section \<open>The graph of a finished expression\<close>

text \<open>The blocks that the start reaches and the two returns, as the emission of the program sees them.\<close>

definition expr_block :: "(nat \<Rightarrow> u32) \<Rightarrow> graph \<Rightarrow> test \<Rightarrow> u32 \<Rightarrow> icode_block" where
  "expr_block c G t x = \<lparr>body = test_body c t, test = test_code t, bound = test_value t, yes = G x 60, no = G x 84\<rparr>"

definition expr_code :: "(nat \<Rightarrow> u32) \<Rightarrow> graph \<Rightarrow> (u32 \<Rightarrow> test) \<Rightarrow> u32 \<Rightarrow> u32 \<Rightarrow> u32 \<Rightarrow> icode" where
  "expr_code c G tst snap ra rr x =
     (if x = ra then ret_block snap else if x = rr then ret_block 0 else expr_block c G (tst x) x)"

definition expr_layout ::
  "(nat \<Rightarrow> u32) \<Rightarrow> arena \<Rightarrow> u32 set \<Rightarrow> graph \<Rightarrow> (u32 \<Rightarrow> test) \<Rightarrow> (u32 \<Rightarrow> statement list) \<Rightarrow> exit_slot list \<Rightarrow> exit_slot list \<Rightarrow>
    graph \<Rightarrow> u32 \<Rightarrow> u32 \<Rightarrow> u32 \<Rightarrow> u32 \<Rightarrow> (nat \<times> u32) set \<Rightarrow> conv_layout" where
  "expr_layout c A C G tst S T F G' snap ra rr sp W =
     \<lparr>gblocks = reachable G C T F \<union> {ra, rr}, grank = (\<lambda>x. if x \<in> {ra, rr} then 0 else steps G C T F x),
      gcode = expr_code c G' tst snap ra rr, gstmts = (\<lambda>x. if x \<in> {ra, rr} then [] else S x),
      ic_at = handle A + 12, cs_at = sp - 16, out_at = brk A, slots = 0, heap_end = 0, others = W\<rparr>"

lemma expr_layout_simps [simp]:
  "gblocks (expr_layout c A C G tst S T F G' snap ra rr sp W) = reachable G C T F \<union> {ra, rr}"
  "gcode (expr_layout c A C G tst S T F G' snap ra rr sp W) = expr_code c G' tst snap ra rr"
  "ic_at (expr_layout c A C G tst S T F G' snap ra rr sp W) = handle A + 12"
  "cs_at (expr_layout c A C G tst S T F G' snap ra rr sp W) = sp - 16"
  "out_at (expr_layout c A C G tst S T F G' snap ra rr sp W) = brk A"
  "others (expr_layout c A C G tst S T F G' snap ra rr sp W) = W"
  by (simp_all add: expr_layout_def)

lemma live_all: "(\<forall>x \<in> set (map snd xs). fst x \<noteq> - 1) \<Longrightarrow> live_stmts xs = map snd xs"
  by (induction xs) (auto simp: live_stmts_def)

lemma ended_apart:
  assumes e: "ended c A B G tst S T F b snap A' G' m ra rr" and x: "x \<in> B"
  shows "x \<noteq> ra" "x \<noteq> rr" "ra \<noteq> rr"
proof -
  have "span (unat x) 212 \<inter> span (unat ra) 212 = {}" "span (unat x) 212 \<inter> span (unat rr) 212 = {}"
    "span (unat ra) 212 \<inter> span (unat rr) 212 = {}"
    using e x by (simp_all add: ended_def apart_from_def)
  then show "x \<noteq> ra" "x \<noteq> rr" "ra \<noteq> rr" by auto
qed

lemma ended_block:
  assumes e: "ended c A B G tst S T F b snap A' G' m ra rr" and x: "x \<in> B"
  shows "block_made c A' m x (tst x) (S x)" "piece A' x 212" "x \<noteq> 0" "test_ok (tst x)"
    "y \<in> set (S x) \<Longrightarrow> piece A' (fst y) 20"
    "off \<in> {60, 84} \<Longrightarrow> load32 m (unat x + off) = Some (G' x off)"
proof -
  have g: "generated c A' B G' tst S m" using e by (simp add: ended_def)
  note g1 = g [unfolded generated_def]
  show bm: "block_made c A' m x (tst x) (S x)" "piece A' x 212" using g1 x by blast+
  show "x \<noteq> 0" "off \<in> {60, 84} \<Longrightarrow> load32 m (unat x + off) = Some (G' x off)" using g1 x by (auto simp: graph_at_def)
  show "test_ok (tst x)" using bm(1) by (simp add: block_made_def)
  show "piece A' (fst y) 20" if "y \<in> set (S x)" using g1 x that by blast
qed

lemma block_okI:
  assumes "\<forall>x \<in> set (body k). plain_code (fst x)" "\<exists>f src. decode_op (ucast (test k)) = Some (Jcc f src)" "yes k \<noteq> 0"
    "yes k \<in> B \<and> rank (yes k) < rank b" "no k \<in> B \<and> rank (no k) < rank b"
  shows "block_ok B rank b k"
  using assms by (simp add: block_ok_def)

lemma expr_icode_ok:
  assumes e: "ended c A B G tst S T F b snap A' G' m ra rr" and C: "C \<subseteq> B"
  shows "icode_ok (reachable G C T F \<union> {ra, rr}) (\<lambda>x. if x \<in> {ra, rr} then 0 else steps G C T F x) (expr_code c G' tst snap ra rr)"
proof -
  let ?R = "reachable G C T F" and ?rank = "\<lambda>x. if x \<in> {ra, rr} then 0 else steps G C T F x"
  have RB: "?R \<subseteq> B" using reachable_in [of G C T F] C by blast
  have r: "ra \<noteq> 0" "rr \<noteq> 0" using e by (auto simp: ended_def ret_at_def)
  have z: "0 \<notin> ?R \<union> {ra, rr}" using ended_block(3) [OF e] RB r by blast
  have dr: "decode_op 6 = Some RetK" by (simp add: decode_op_def)
  have ret: "block_ok X rank y (ret_block k)" for X rank y k by (simp add: block_ok_def ret_block_def dr)
  have "block_ok (?R \<union> {ra, rr}) ?rank x (expr_block c G' (tst x) x)" if x: "x \<in> ?R" for x
  proof -
    have xB: "x \<in> B" using x RB by blast
    note a = ended_apart [OF e xB]
    have pos: "0 < steps G C T F x" using x steps_within(2) by (auto simp: reachable_def)
    have nx: "G' x off \<in> ?R \<union> {ra, rr} \<and> ?rank (G' x off) < ?rank x" if off: "off \<in> {60, 84}" for off
    proof (cases "(x, off) \<in> set T \<union> set F")
      case True
      then have "G' x off \<in> {ra, rr}" using e off by (auto simp: ended_def)
      with a pos show ?thesis by auto
    next
      case False
      then have "G' x off = G x off" using e off by (auto simp: ended_def)
      with reachable_next [OF x off False] a show ?thesis by auto
    qed
    then have "G' x 60 \<noteq> 0" using z by (metis insertI1)
    note tb = test_body_codes(1) [OF ended_block(4) [OF e xB], of c] test_body_codes(3) [OF ended_block(4) [OF e xB]]
    note n0 = \<open>G' x 60 \<noteq> 0\<close>
    have n1: "G' x 60 \<in> ?R \<union> {ra, rr} \<and> ?rank (G' x 60) < ?rank x" "G' x 84 \<in> ?R \<union> {ra, rr} \<and> ?rank (G' x 84) < ?rank x"
      by (rule nx, simp)+
    show ?thesis
      unfolding expr_block_def
      by (rule block_okI, unfold icode_block.simps) (use tb in blast, use tb in blast, rule n0, rule n1(1), rule n1(2))
  qed
  with z ret ended_apart [OF e] RB show ?thesis
    unfolding icode_ok_def expr_code_def by auto
qed

lemma expr_graph_layout:
  assumes e: "ended c A B G tst S T F b snap A' G' m ra rr" and C: "C \<subseteq> B"
    and W: "\<forall>x \<in> W. other_place (expr_layout c A' C G tst S T F G' snap ra rr sp W) (fst x)"
  shows "graph_layout (expr_layout c A' C G tst S T F G' snap ra rr sp W)"
proof -
  let ?R = "reachable G C T F" and ?E = "expr_layout c A' C G tst S T F G' snap ra rr sp W"
  have RB: "?R \<subseteq> B" using reachable_in [of G C T F] C by blast
  have ok: "icode_ok (gblocks ?E) (grank ?E) (gcode ?E)"
    using expr_icode_ok [OF e C] by (simp add: expr_layout_def)
  have g: "generated c A' B G' tst S m" using e by (simp add: ended_def)
  note g1 = g [unfolded generated_def]
  have r: "piece A' ra 212" "piece A' rr 212" using e by (auto simp: ended_def ret_at_def)
  have ap: "span (unat x) 212 \<inter> span (unat y) 212 = {}" if "x \<in> ?R \<union> {ra, rr}" "y \<in> ?R \<union> {ra, rr}" "x \<noteq> y" for x y
  proof -
    have "span (unat x) 212 \<inter> span (unat y) 212 = {}" if "x \<in> B" "y \<in> B"
      using g1 that \<open>x \<noteq> y\<close> by (auto simp: graph_at_def)
    moreover have "span (unat x) 212 \<inter> span (unat y) 212 = {}" if "x \<in> B" "y \<in> {ra, rr}" for x y
      using e that by (auto simp: ended_def apart_from_def)
    moreover have "span (unat ra) 212 \<inter> span (unat rr) 212 = {}" using e by (simp add: ended_def)
    ultimately show ?thesis using that RB by (auto simp: Int_commute simp del: span_disjoint)
  qed
  have st: "stmt_span y \<inter> span (unat d) 212 = {}" if "x \<in> ?R" "y \<in> set (S x)" "d \<in> ?R \<union> {ra, rr}" for x y d
  proof -
    have xB: "x \<in> B" using that(1) RB by blast
    have "apart_from B S ra" "apart_from B S rr" using e by (simp_all add: ended_def)
    then have "stmt_span y \<inter> span (unat ra) 212 = {}" "stmt_span y \<inter> span (unat rr) 212 = {}"
      unfolding apart_from_def using xB that(2) by blast+
    moreover have "stmt_span y \<inter> span (unat d) 212 = {}" if "d \<in> B" for d using g1 xB \<open>y \<in> set (S x)\<close> that by blast
    ultimately show ?thesis using that(3) RB by blast
  qed
  have bd: "body (expr_code c G' tst snap ra rr x) = live_stmts (if x \<in> {ra, rr} then [] else S x)" if x: "x \<in> ?R \<union> {ra, rr}" for x
  proof (cases "x \<in> {ra, rr}")
    case True
    then show ?thesis by (auto simp: expr_code_def ret_block_def)
  next
    case False
    then have "x \<in> B" using x RB by blast
    then have b: "test_ok (tst x)" "map snd (S x) = test_body c (tst x)" using ended_block(1,4) [OF e] by (simp_all add: block_made_def)
    then have "live_stmts (S x) = test_body c (tst x)" using live_all [of "S x"] test_body_codes(1) [OF b(1), of c] by simp
    with False show ?thesis by (simp add: expr_code_def expr_block_def)
  qed
  have pc: "piece A' x 212" if "x \<in> ?R \<union> {ra, rr}" for x using that r ended_block(2) [OF e] RB by blast
  show ?thesis
    unfolding graph_layout_def
  proof (intro conjI ballI impI)
    show "icode_ok (gblocks ?E) (grank ?E) (gcode ?E)" by (rule ok)
    show "other_place ?E (fst x)" if "x \<in> others ?E" for x using W that by simp
    fix x assume x: "x \<in> gblocks ?E"
    then have x': "x \<in> ?R \<union> {ra, rr}" by simp
    show "body (gcode ?E x) = live_stmts (gstmts ?E x)" using bd [OF x'] by (simp add: expr_layout_def)
    show "127840 \<le> unat x" "unat x + 212 \<le> out_at ?E" using pc [OF x'] by (simp_all add: piece_def)
    show "unat x + 212 \<le> unat y \<or> unat y + 212 \<le> unat x" if "y \<in> gblocks ?E" "x \<noteq> y" for y
      using ap [OF x', of y] that by simp
    fix y assume "y \<in> set (gstmts ?E x)"
    then have y: "x \<in> ?R" "y \<in> set (S x)" using x' by (auto simp: expr_layout_def split: if_splits)
    have "piece A' (fst y) 20" using ended_block(5) [OF e _ y(2)] y(1) RB by blast
    then show "stmt_span y \<subseteq> {127840..<out_at ?E}" by (auto simp: piece_def stmt_span_def span_def)
    show "stmt_span y \<inter> span (unat d) 212 = {}" if "d \<in> gblocks ?E" for d
      by (rule st [OF y]) (use that in simp)
  qed
qed

lemma expr_valid_code:
  assumes e: "ended c A B G tst S T F b snap A' G' m ra rr" and C: "C \<subseteq> B"
  shows "valid_code (expr_layout c A' C G tst S T F G' snap ra rr sp W)"
  unfolding valid_code_def
proof (intro ballI)
  fix x i
  assume x: "x \<in> gblocks (expr_layout c A' C G tst S T F G' snap ra rr sp W)"
    and i: "i \<in> set (body (gcode (expr_layout c A' C G tst S T F G' snap ra rr sp W) x))"
  from i have n: "x \<noteq> ra" "x \<noteq> rr" by (auto simp: expr_code_def ret_block_def split: if_splits)
  moreover from n x have "x \<in> B" using C reachable_in [of G C T F] by auto
  ultimately show "case decode_op (ucast (fst i)) of None \<Rightarrow> False | Some ins \<Rightarrow> valid_operand ins (snd i)"
    using test_body_valid [OF ended_block(4) [OF e]] i by (simp add: expr_code_def expr_block_def)
qed

text \<open>The graph computes the result of the expression: it accepts what leads to the true exits.\<close>

definition outcome :: "u32 \<Rightarrow> bool option \<Rightarrow> u32" where
  "outcome snap r = (if r = Some True then snap else 0)"

lemma ret_block_run:
  assumes "C x = ret_block k"
  shows "block_run C pkt wl x s k"
proof (rule run_verdict)
  show "exec_body pkt wl (body (C x)) s = Next s" by (simp add: assms ret_block_def)
  show "block_end_of (C x) s = Verdict k" by (simp add: assms ret_block_def block_end_of_def decode_op_def)
qed

lemma ended_run:
  assumes e: "ended c A B G tst S T F b snap A' G' m ra rr" and C: "C \<subseteq> B"
    and w: "set T \<inter> set F = {}" and l: "leads_to G C T F (\<lambda>x. test_result pkt c (tst x)) x r"
  shows "block_run (expr_code c G' tst snap ra rr) pkt wl x s (outcome snap r)"
  using l
proof (induction arbitrary: s rule: leads_to.induct)
  let ?C = "expr_code c G' tst snap ra rr" and ?ev = "\<lambda>x. test_result pkt c (tst x)"
  have code: "?C x = expr_block c G' (tst x) x" "test_ok (tst x)" if "x \<in> C" for x
    using ended_apart [OF e, of x] ended_block(4) [OF e, of x] that C by (auto simp: expr_code_def)
  have edge: "block_run ?C pkt wl x s v" if x: "x \<in> C" "?ev x \<noteq> None"
    and n: "\<And>s. block_run ?C pkt wl (G' x (taken ?ev x)) s v" for x s v
  proof -
    obtain r where r: "?ev x = Some r" using x(2) by blast
    obtain s' f src where t: "exec_body pkt wl (test_body c (tst x)) s = Next s'"
      "decode_op (ucast (test_code (tst x))) = Some (Jcc f src)" "cond f (acc s') (operand src (test_value (tst x)) s') = r"
      using test_runs [OF code(2) [OF x(1)], of pkt wl c s] r by auto
    show ?thesis
    proof (rule run_edge)
      show "exec_body pkt wl (body (?C x)) s = Next s'" using t(1) by (simp add: code(1) [OF x(1)] expr_block_def)
      show "block_end_of (?C x) s' = Edge (G' x (taken ?ev x))"
        using t(2,3) r by (simp add: code(1) [OF x(1)] expr_block_def block_end_of_def taken_def)
      show "block_run ?C pkt wl (G' x (taken ?ev x)) s' v" by (rule n)
    qed
  qed
  have slot: "G' x (taken ?ev x) = (if (x, taken ?ev x) \<in> set T then ra else if (x, taken ?ev x) \<in> set F then rr else G x (taken ?ev x))" for x
    using e by (auto simp: ended_def taken_def)
  have ret: "?C ra = ret_block snap" "?C rr = ret_block 0"
    using e by (auto simp: expr_code_def ended_def)
  {
    case (leads_Stop x)
    from leads_Stop test_runs [OF code(2) [OF leads_Stop(1)], of pkt wl c s]
    have "exec_body pkt wl (body (?C x)) s = Stop 0" by (simp add: code(1) expr_block_def)
    then show ?case by (simp add: outcome_def run_stop)
  next
    case (leads_True x)
    show ?case
      by (rule edge [OF leads_True(1,2)]) (use leads_True(3) ret_block_run [of ?C ra, OF ret(1)] in \<open>simp add: slot outcome_def\<close>)
  next
    case (leads_False x)
    then have "(x, taken ?ev x) \<notin> set T" using w by blast
    then show ?case
      by (intro edge [OF leads_False(1,2)])
        (use leads_False(3) ret_block_run [of ?C rr, OF ret(2)] in \<open>simp add: slot outcome_def\<close>)
  next
    case (leads_on x r)
    show ?case
      by (rule edge [OF leads_on(1,2)]) (use leads_on(3,4,6) in \<open>simp add: slot\<close>)
  }
qed

text \<open>
  It is ready for the emission of the program: \<open>n\<close> bounds the number of tests, \<open>depth\<close> and \<open>fuel\<close> the
  recursion and the rounds of \<open>_convert_code_r\<close>, and the address space has room for them.
\<close>

definition emit_room :: "nat \<Rightarrow> nat \<Rightarrow> nat \<Rightarrow> nat \<Rightarrow> bool" where
  "emit_room n depth fuel hp \<longleftrightarrow> n + 1 < depth \<and> 2 * n + 4 < fuel \<and> 6 * n + 12 \<le> 3060000 \<and>
     hp + Suc fuel * (8 * (6 * n + 12) + 16) + 16 \<le> 2 ^ 32"

lemma card_reachable: "finite C \<Longrightarrow> card (reachable G C T F \<union> {ra, rr}) \<le> card C + 2"
proof -
  assume f: "finite C"
  have "card (reachable G C T F) \<le> card C" by (rule card_mono [OF f reachable_in])
  moreover have "card {ra, rr} \<le> 2" by (cases "ra = rr") simp_all
  ultimately show ?thesis using card_Un_le [of "reachable G C T F" "{ra, rr}"] by linarith
qed

lemma expr_code_size:
  assumes e: "ended c A B G tst S T F b snap A' G' m ra rr" and C: "C \<subseteq> B" and x: "x \<in> reachable G C T F \<union> {ra, rr}"
  shows "length (body (expr_code c G' tst snap ra rr x)) \<le> 3"
proof (cases "x \<in> {ra, rr}")
  case True
  then show ?thesis by (auto simp: expr_code_def ret_block_def)
next
  case False
  then have "x \<in> B" using x C reachable_in [of G C T F] by blast
  then have "test_ok (tst x)" by (rule ended_block(4) [OF e])
  with False test_body_codes(2) show ?thesis by (simp add: expr_code_def expr_block_def)
qed

lemma expr_max_size:
  assumes e: "ended c A B G tst S T F b snap A' G' m ra rr" and C: "C \<subseteq> B" "finite C"
    and us: "distinct us" "set us \<subseteq> reachable G C T F \<union> {ra, rr}"
  shows "max_size (expr_layout c A' C G tst S T F G' snap ra rr sp W) us \<le> 6 * card C + 12"
proof -
  let ?E = "expr_layout c A' C G tst S T F G' snap ra rr sp W"
  have "max_size ?E us \<le> sum_list (map (\<lambda>_. 6) us)"
    unfolding max_size_def by (rule sum_list_mono) (use us(2) expr_code_size [OF e C(1)] in force)
  moreover have "sum_list (map (\<lambda>_. 6) us) = 6 * length us" by (induction us) simp_all
  moreover have "length us \<le> card (reachable G C T F \<union> {ra, rr})"
    using card_mono [OF _ us(2)] finite_subset [OF reachable_in C(2)] distinct_card [OF us(1)] by simp
  moreover note card_reachable [OF C(2), of G T F ra rr]
  ultimately show ?thesis by linarith
qed

lemma ended_emit_ready:
  assumes e: "ended c A B G tst S T F b snap A' G' m ra rr" and C: "C \<subseteq> B" and f: "fragment G C b T F phi"
    and n: "card C \<le> n" and room: "emit_room n depth fuel (brk A')"
    and mark: "load32 m (unat (handle A) + 16) = Some mark" "unat mark + 2 * fuel + 1 < 2 ^ 32"
    and sp: "unat (handle A) + 20 \<le> unat (sp - 16) \<or> unat (sp - 16) + 16 \<le> unat (handle A) + 12" "unat (sp - 16) + 16 \<le> 125436"
    and lenp: "length_place lenp"
    and W: "\<forall>x \<in> W. other_place (expr_layout c A' C G tst S T F G' snap ra rr sp W) (fst x) \<and> load32 m (fst x) = Some (snd x)"
  shows "emit_ready (expr_layout c A' C G tst S T F G' snap ra rr sp W) depth fuel sp (G b 96) lenp m"
    "max_size (expr_layout c A' C G tst S T F G' snap ra rr sp W) (reached (expr_layout c A' C G tst S T F G' snap ra rr sp W) depth (G b 96)) \<le> 6 * n + 12"
proof -
  let ?E = "expr_layout c A' C G tst S T F G' snap ra rr sp W" and ?R = "reachable G C T F"
  have g: "generated c A' B G' tst S m" and hA: "handle A' = handle A" using e by (simp_all add: ended_def)
  note g1 = g [unfolded generated_def]
  have ok: "arena_ok A' m" and fin: "finite C" using g1 C finite_subset by blast+
  obtain L where inv: "heap_inv m (brk A') L" using ok by (auto simp: arena_ok_def)
  have h: "unat (handle A) + 380 \<le> 125436" using ok hA by (simp add: arena_ok_def)
  then have h12: "unat (handle A + 12) = unat (handle A) + 12" by (intro unat_add_no_wrap [THEN trans]) simp_all
  have lay: "graph_layout ?E" by (rule expr_graph_layout [OF e C]) (use W in blast)
  note st = fragment_start [OF f fin]
  have bR: "x \<in> B" if "x \<in> ?R" for x using that C reachable_in [of G C T F] by blast
  have root: "G b 96 \<in> gblocks ?E" using st(1) by simp
  have rank: "grank ?E (G b 96) + 1 < depth"
    using st(2) n room by (simp add: expr_layout_def emit_room_def)
  have us: "distinct (reached ?E depth (G b 96))" "set (reached ?E depth (G b 96)) \<subseteq> ?R \<union> {ra, rr}"
    using reached_facts(1,2) [OF lay root rank] by simp_all
  show ms: "max_size ?E (reached ?E depth (G b 96)) \<le> 6 * n + 12"
    using expr_max_size [OF e C fin us, of sp W] n by linarith
  have finR: "finite (?R \<union> {ra, rr})" using finite_subset [OF reachable_in fin] by simp
  have b127: "127840 \<le> brk A'" using arena_bounds(1,4) [OF ok] by linarith
  have pr: "program_ready ?E depth (G b 96)"
    unfolding program_ready_def using lay finR root rank b127 h12 h sp(2) ms room hA by (simp add: emit_room_def) (use sp(1) in linarith)
  have r: "ret_at A' m ra snap" "ret_at A' m rr 0" using e by (simp_all add: ended_def)
  have "marked_graph ?E mark (\<lambda>_. 0) (\<lambda>_. 0) (\<lambda>_. 0) m"
  proof -
    have "(\<exists>p. load32 m (unat x + 4) = Some p \<and> stmts_at m p (gstmts ?E x)) \<and>
        load32 m (unat x + 8) = Some (test (gcode ?E x)) \<and> load32 m (unat x + 20) = Some (bound (gcode ?E x)) \<and>
        load32 m (unat x + 60) = Some (yes (gcode ?E x)) \<and> load32 m (unat x + 84) = Some (no (gcode ?E x)) \<and>
        load32 m (unat x + 24) = Some 0 \<and> load32 m (unat x + 28) = Some 0 \<and> load32 m (unat x + 32) = Some 0"
      if x: "x \<in> gblocks ?E" for x
    proof (cases "x \<in> {ra, rr}")
      case True
      with r show ?thesis by (auto simp: expr_layout_def expr_code_def ret_block_def ret_at_def)
    next
      case False
      then have xB: "x \<in> B" using x bR by simp
      note eb = ended_block [OF e xB]
      have "gcode ?E x = expr_block c G' (tst x) x" "gstmts ?E x = S x" using False by (simp_all add: expr_layout_def expr_code_def)
      with eb(1) eb(6) [of 60] eb(6) [of 84] show ?thesis by (simp add: expr_block_def block_made_def)
    qed
    then show ?thesis using mark(1) h12 hA W by (simp add: add.commute marked_graph_def graph_in_def)
  qed
  moreover have "unplanned ?E (\<lambda>_. 0) (\<lambda>_. 0) < fuel"
  proof -
    have "unplanned ?E (\<lambda>_. 0) (\<lambda>_. 0) = 2 * card (gblocks ?E)" by (simp only: unplanned_def simp_thms Collect_mem_eq)
    with card_reachable [OF fin, of G T F ra rr] n room show ?thesis by (simp add: emit_room_def)
  qed
  moreover have "\<forall>x \<in> gblocks ?E. round_up 4 (4 * length (body (gcode ?E x))) \<le> 16"
  proof
    fix x assume "x \<in> gblocks ?E"
    then have "length (body (gcode ?E x)) \<le> 3" using expr_code_size [OF e C] by simp
    then show "round_up 4 (4 * length (body (gcode ?E x))) \<le> 16" by (simp add: round_up_def)
  qed
  moreover have "out_at ?E + Suc fuel * (8 * max_size ?E (reached ?E depth (G b 96)) + 16) + 16 \<le> 2 ^ 32"
  proof -
    have "Suc fuel * (8 * max_size ?E (reached ?E depth (G b 96)) + 16) \<le> Suc fuel * (8 * (6 * n + 12) + 16)"
      by (intro mult_le_mono2 add_le_mono1 ms)
    with room show ?thesis unfolding emit_room_def by simp
  qed
  ultimately show "emit_ready ?E depth fuel sp (G b 96) lenp m"
    unfolding emit_ready_def using pr lenp ms room inv mark(2) planned_none
    by (intro conjI exI [of _ L] exI [of _ mark] exI [of _ "\<lambda>_. 0"] exI [of _ 16]) (auto simp: emit_room_def)
qed

section \<open>From an expression to a program\<close>

text \<open>
  A link layer without variable parts and without a test of its own; \<open>snap\<close> is the snapshot length,
  \<open>mark\<close> the mark of the emission.
\<close>

definition plain_link :: "u32 \<Rightarrow> u32 \<Rightarrow> u32 \<Rightarrow> memory \<Rightarrow> bool" where
  "plain_link h snap mark m \<longleftrightarrow> (\<exists>dlt. load32 m (unat h + 32) = Some dlt \<and> dlt \<notin> {105, 117, 119, 127, 163, 192}) \<and>
     (\<exists>lt. load32 m (unat h + 24) = Some lt \<and> lt \<noteq> 192) \<and> load32 m (unat h + 128) = Some 0 \<and>
     load32 m (unat h + 20) = Some snap \<and> load32 m (unat h + 16) = Some mark"

lemma plain_link_kept:
  assumes "plain_link h snap mark m" "kept Q m m'" "\<And>off. off \<in> {16, 20, 24, 32, 128} \<Longrightarrow> span (unat h + off) 4 \<inter> Q = {}"
  shows "plain_link h snap mark m'"
proof -
  have "load32 m' (unat h + off) = Some v" if "load32 m (unat h + off) = Some v" "off \<in> {16, 20, 24, 32, 128}" for off v
    by (rule kept_load32 [OF assms(2) that(1) assms(3) [OF that(2)]])
  with assms(1) show ?thesis unfolding plain_link_def by (meson insertCI)
qed

lemma finish_parse_plain:
  assumes g: "generated c A B G tst S m" and p: "plain_link (handle A) snap mark m" and b: "b \<in> B"
  shows "finish_parse vs sn sp m (handle A) b = jump_bind (finish_ends vs sn (sp - 192) m (handle A) b) (\<lambda>m. Ret (m, 0))"
proof -
  let ?h = "unat (handle A)"
  have ok: "arena_ok A m" and lk: "link_at c (handle A) m" using g by (simp_all add: generated_def)
  have "?h + 380 \<le> 125436" "127840 \<le> length m" using ok arena_bounds [OF ok] by (simp_all add: arena_ok_def)
  then obtain t where t: "load32 m (?h + 104) = Some t" using load32_in [of "?h + 104" m] by auto
  have "load32 m (?h + 60) = Some 0" using lk by (simp add: link_at_def)
  then have 1: "finish_prologue vs sn (sp - 192) m (handle A) = Ret m" using t by (simp add: finish_prologue_def)
  obtain dlt where dlt: "load32 m (?h + 32) = Some dlt" "dlt \<notin> {105, 117, 119, 127, 163, 192}" using p by (auto simp: plain_link_def)
  then have 2: "finish_header vs sn (sp - 192) m (handle A) = Ret (m, Some (0, dlt))" by (simp add: finish_header_def)
  have "load32 m (?h + 128) = Some 0" using p by (simp add: plain_link_def)
  then have 3: "finish_payload vs sn (sp - 192) m (handle A) v11 (Some (0, dlt)) = Ret m" for v11
    using dlt(2) by (simp add: finish_payload_def payload_regs_def)
  obtain lt where "load32 m (?h + 24) = Some lt" "lt \<noteq> 192" using p by (auto simp: plain_link_def)
  then have 4: "ppi_test vs sn (sp - 192) m (handle A) b = Ret (m, b)" by (simp add: ppi_test_def)
  have "load32 m (unat b + 96) = Some (G b 96)" using g b by (auto simp: generated_def intro: graph_at_load)
  then show ?thesis by (simp add: finish_parse_def 1 2 3 4)
qed

text \<open>
  The finished graph of the expression \<open>e\<close> in memory; its blocks lie apart from the bytes \<open>Q\<close>.
\<close>

definition finished :: "(nat \<Rightarrow> u32) \<Rightarrow> test cond \<Rightarrow> u32 \<Rightarrow> arena \<Rightarrow> nat set \<Rightarrow> memory \<Rightarrow> bool" where
  "finished c e snap A Q m \<longleftrightarrow> (\<exists>A0 B G tst S T F C b d G' ra rr. ended c A0 B G tst S T F b snap A G' m ra rr \<and>
     C \<subseteq> B \<and> fragment G C b T F (\<lambda>ev. holds d ev) \<and> map_cond tst d = e \<and> card C \<le> length (leaves e) \<and>
     (\<forall>x \<in> B \<union> {ra, rr}. span (unat x) 212 \<inter> Q = {}))"

lemma expression_finished:
  assumes ok: "arena_ok A m" "link_at c (handle A) m" and pl: "plain_link (handle A) snap mark m"
    and f: "makes P f e reqs" "stays P A {} m"
    and room: "fits (reqs @ [212, 212]) A" and Q: "Q \<inter> touched A = {}"
  obtains m1 b m2 where "f (handle A) m = Ret (m1, b)" "finish_parse vs sn sp2 m1 (handle A) b = Ret (m2, 0)"
    "finished c e snap (after (reqs @ [212, 212]) A) Q m2" "load32 m2 (unat (handle A) + 16) = Some mark"
    "kept (touched A \<union> span (unat (handle A) + 12) 4) m m2" "length m \<le> length m2"
proof -
  let ?h = "handle A" and ?A1 = "after reqs A" and ?A2 = "after (reqs @ [212, 212]) A"
  have g0: "generated c A {} (\<lambda>_ _. 0) (\<lambda>_. undefined) (\<lambda>_. []) m"
    using ok arena_bounds(3) [OF ok(1)] by (simp add: generated_def graph_at_def)
  have fit: "fits reqs A" "fits [212, 212] ?A1" using room by simp_all
  obtain m1 b B G tst S where 1: "f ?h m = Ret (m1, b)"
    "expr_made c A {} (\<lambda>_ _. 0) (\<lambda>_. undefined) (\<lambda>_. []) m e ?A1 m1 b B G tst S"
    by (rule makesE [OF f(1) g0 f(2) fit(1)])
  note e1 = 1(2) [unfolded expr_made_def]
  have g: "generated c ?A1 B G tst S m1" and hh: "handle ?A1 = ?h" using e1 by simp_all
  have k1: "kept (touched A) m m1" and sub: "reach ?A1 B \<subseteq> touched A" using e1 by (simp_all add: reach_def)
  obtain d C T F where d: "map_cond tst d = e" "C \<subseteq> B" "fragment G C b T F (\<lambda>ev. holds d ev)" using e1 by auto
  have b: "b \<in> B" using d(2,3) by (auto simp: fragment_def wired_def)
  have fin: "finite B" using g by (simp add: generated_def)
  have cC: "card C \<le> length (leaves e)" using card_mono [OF fin d(2)] e1 by simp
  have pl1: "plain_link ?h snap mark m1"
  proof (rule plain_link_kept [OF pl k1])
    show "span (unat ?h + off) 4 \<inter> touched A = {}" if "off \<in> {16, 20, 24, 32, 128}" for off
      by (rule handle_word_apart [OF ok(1)]) (use that in auto)
  qed
  have len1: "length m \<le> length m1" using e1 by simp
  have snap: "load32 m1 (unat (handle ?A1) + 20) = Some snap" using pl1 by (simp add: plain_link_def)
  obtain m2 ra rr G' where 2: "finish_ends vs sn (sp2 - 192) m1 (handle ?A1) b = Ret m2"
    "ended c ?A1 B G tst S T F b snap (after [212, 212] ?A1) G' m2 ra rr"
    "span (unat ra) 212 \<union> span (unat rr) 212 \<subseteq> touched ?A1"
    "kept (reach ?A1 B \<union> span (unat (handle ?A1) + 12) 4) m1 m2"
    by (rule finish_ends_at [OF g d(3,2) fit(2) snap, of vs sn "sp2 - 192"])
  have fp: "finish_parse vs sn sp2 m1 ?h b = Ret (m2, 0)"
    using finish_parse_plain [OF g, of snap mark b vs sn sp2] pl1 b 2(1) by simp
  have mk: "load32 m2 (unat ?h + 16) = Some mark"
  proof (rule kept_load32 [OF 2(4)])
    show "load32 m1 (unat ?h + 16) = Some mark" using pl1 by (simp add: plain_link_def)
    show "span (unat ?h + 16) 4 \<inter> (reach ?A1 B \<union> span (unat (handle ?A1) + 12) 4) = {}"
      using handle_word_reach [OF g, of 16] by (simp add: Int_Un_distrib)
  qed
  have k2: "kept (touched A \<union> span (unat ?h + 12) 4) m m2"
    by (rule kept_trans [OF kept_mono [OF k1] kept_mono [OF 2(4)]]) (use sub in auto)
  have "span (unat x) 212 \<inter> Q = {}" if "x \<in> B \<union> {ra, rr}" for x
  proof -
    have "touched ?A1 \<subseteq> touched A" using sub by (simp add: reach_def)
    moreover have "span (unat x) 212 \<subseteq> touched ?A1 \<or> span (unat x) 212 \<subseteq> reach ?A1 B"
      using that 2(3) unfolding reach_def by blast
    ultimately have "span (unat x) 212 \<subseteq> touched A" using sub by blast
    with Q show ?thesis by blast
  qed
  moreover have "ended c ?A1 B G tst S T F b snap ?A2 G' m2 ra rr" using 2(2) by simp
  ultimately have "finished c e snap ?A2 Q m2"
    unfolding finished_def using d cC by (intro exI conjI ballI) assumption+
  moreover have "length m \<le> length m2" using len1 kept_length [OF 2(4)] by simp
  ultimately show thesis by (rule that [OF 1(1) fp _ mk k2])
qed

text \<open>
  A finished graph becomes a program. The words \<open>W\<close> of other parts stay: in the bytes \<open>Q\<close> of the heap,
  or on the stack apart from the mark and the frame of the emission.
\<close>

definition kept_word :: "arena \<Rightarrow> nat set \<Rightarrow> u32 \<Rightarrow> nat \<Rightarrow> bool" where
  "kept_word A Q sp a \<longleftrightarrow> 127840 \<le> a \<and> a + 4 \<le> brk A \<and> span a 4 \<subseteq> Q \<or>
     a + 4 \<le> 125436 \<and> span a 4 \<inter> (span (unat (handle A) + 16) 4 \<union> span (unat (sp - 16)) 16) = {}"

definition emission_frame :: "u32 \<Rightarrow> u32 \<Rightarrow> bool" where
  "emission_frame h sp \<longleftrightarrow> unat (sp - 16) + 16 \<le> 125436 \<and>
     (unat h + 20 \<le> unat (sp - 16) \<or> unat (sp - 16) + 16 \<le> unat h + 12)"

lemma finished_program:
  assumes f: "finished c e snap A Q m" and mark: "load32 m (unat (handle A) + 16) = Some mark" "unat mark + 2 * fuel + 1 < 2 ^ 32"
    and room: "emit_room (length (leaves e)) depth fuel (brk A)"
    and sp: "emission_frame (handle A) sp" and lenp: "length_place lenp"
    and W: "\<forall>x \<in> W. kept_word A Q sp (fst x) \<and> load32 m (fst x) = Some (snd x)"
  obtains m' root p prog H L where "load32 m (unat (handle A) + 12) = Some root" "root \<noteq> 0"
    "icode_to_fcode vs sn depth fuel sp m (handle A + 12) root lenp errbuf = Ret (m', p)"
    "load32 m' (unat lenp) = Some (of_nat (length prog))" "compiled_at m' p prog H L"
    "\<And>pkt wl. bpf_verdict prog pkt wl = Some (outcome snap (holds e (test_result pkt c)))"
    "brk A \<le> unat p" "L = 0 \<or> unat p \<le> L" "length m \<le> length m'"
    "\<forall>x \<in> W. span (fst x) 4 \<inter> span (unat lenp) 4 = {} \<longrightarrow> load32 m' (fst x) = Some (snd x)" "valid_prog prog"
    "H \<le> brk A + Suc fuel * (8 * (6 * length (leaves e) + 12) + 16)"
proof -
  obtain A0 B G tst S T F C b d G' ra rr where e: "ended c A0 B G tst S T F b snap A G' m ra rr"
    and d: "C \<subseteq> B" "fragment G C b T F (\<lambda>ev. holds d ev)" "map_cond tst d = e" "card C \<le> length (leaves e)"
    and Q: "\<forall>x \<in> B \<union> {ra, rr}. span (unat x) 212 \<inter> Q = {}"
    using f unfolding finished_def by blast
  have g: "generated c A B G' tst S m" and hA: "handle A = handle A0" using e by (simp_all add: ended_def)
  have fin: "finite C" using g d(1) finite_subset by (auto simp: generated_def)
  have ok: "arena_ok A m" using g by (simp add: generated_def)
  have h12: "unat (handle A + 12) = unat (handle A) + 12"
    using ok by (intro unat_add_no_wrap [THEN trans]) (simp_all add: arena_ok_def)
  let ?E = "expr_layout c A C G tst S T F G' snap ra rr sp W"
  have R: "gblocks ?E \<subseteq> B \<union> {ra, rr}" using reachable_in [of G C T F] d(1) by auto
  have oW: "other_place ?E (fst x) \<and> load32 m (fst x) = Some (snd x)" if x: "x \<in> W" for x
  proof -
    have "kept_word A Q sp (fst x)" using W x by blast
    then have "other_place ?E (fst x)"
      unfolding kept_word_def
    proof (elim disjE conjE)
      assume a: "127840 \<le> fst x" "fst x + 4 \<le> brk A" "span (fst x) 4 \<subseteq> Q"
      have "span (fst x) 4 \<inter> span (unat y) 212 = {}" if "y \<in> gblocks ?E" for y
      proof -
        have "span (unat y) 212 \<inter> Q = {}" using Q R that by blast
        with a(3) show ?thesis by blast
      qed
      with a(1,2) show ?thesis by (simp add: other_place_def)
    next
      assume "fst x + 4 \<le> 125436" "span (fst x) 4 \<inter> (span (unat (handle A) + 16) 4 \<union> span (unat (sp - 16)) 16) = {}"
      then show ?thesis by (simp add: other_place_def h12 add.commute)
    qed
    with W x show ?thesis by blast
  qed
  have mark0: "load32 m (unat (handle A0) + 16) = Some mark" using mark(1) hA by simp
  have sp0: "unat (handle A0) + 20 \<le> unat (sp - 16) \<or> unat (sp - 16) + 16 \<le> unat (handle A0) + 12" "unat (sp - 16) + 16 \<le> 125436"
    using sp hA by (simp_all add: emission_frame_def)
  have oW': "\<forall>x \<in> W. other_place ?E (fst x) \<and> load32 m (fst x) = Some (snd x)" using oW by blast
  note rdy = ended_emit_ready(1) [OF e d(1,2,4) room mark0 mark(2) sp0 lenp oW']
  note ms = ended_emit_ready(2) [OF e d(1,2,4) room mark0 mark(2) sp0 lenp oW']
  obtain m3 p prog H L where 3: "icode_to_fcode vs sn depth fuel sp m (ic_at ?E) (G b 96) lenp errbuf = Ret (m3, p)"
    "load32 m3 (unat lenp) = Some (of_nat (length prog))" "compiled_at m3 p prog H L"
    "\<And>pkt wl. \<exists>v. block_run (gcode ?E) pkt wl (G b 96) bpf_init v \<and> bpf_verdict prog pkt wl = Some v"
    "out_at ?E \<le> unat p" "L = 0 \<or> unat p \<le> L" "length m \<le> length m3"
    "\<forall>x \<in> others ?E. span (fst x) 4 \<inter> span (unat lenp) 4 = {} \<longrightarrow> load32 m3 (fst x) = Some (snd x)"
    "valid_code ?E \<Longrightarrow> valid_prog prog"
    "H \<le> out_at ?E + Suc fuel * (8 * max_size ?E (reached ?E depth (G b 96)) + 16)"
    by (rule emit_ready_program [OF rdy, of vs sn errbuf]) (rule that)
  have v: "bpf_verdict prog pkt wl = Some (outcome snap (holds e (test_result pkt c)))" for pkt wl
  proof -
    obtain v where v: "block_run (gcode ?E) pkt wl (G b 96) bpf_init v" "bpf_verdict prog pkt wl = Some v" using 3(4) by blast
    let ?ev = "\<lambda>x. test_result pkt c (tst x)"
    have "leads_to G C T F ?ev (G b 96) (holds d ?ev)" using d(2) by (simp add: fragment_def wired_def)
    from ended_run [OF e d(1) wired_apart(1) [OF fragment_wired [OF d(2)]] this, of wl bpf_init]
    have "block_run (gcode ?E) pkt wl (G b 96) bpf_init (outcome snap (holds d ?ev))" by simp
    then have "v = outcome snap (holds d ?ev)" using block_run_deterministic v(1) by blast
    moreover have "holds d ?ev = holds e (test_result pkt c)" using holds_map [of tst d "test_result pkt c"] d(3) by simp
    ultimately show ?thesis using v(2) by simp
  qed
  have root: "load32 m (unat (handle A) + 12) = Some (G b 96)" using e hA by (simp add: ended_def)
  have "G b 96 \<in> B" using fragment_start(1) [OF d(2) fin] reachable_in [of G C T F] d(1) by blast
  then have r0: "G b 96 \<noteq> 0" by (rule ended_block(3) [OF e])
  have run: "icode_to_fcode vs sn depth fuel sp m (handle A + 12) (G b 96) lenp errbuf = Ret (m3, p)" using 3(1) by simp
  have "Suc fuel * (8 * max_size ?E (reached ?E depth (G b 96)) + 16) \<le> Suc fuel * (8 * (6 * length (leaves e) + 12) + 16)"
    by (intro mult_le_mono2 add_le_mono1 ms)
  with 3(10) have hb: "H \<le> brk A + Suc fuel * (8 * (6 * length (leaves e) + 12) + 16)" by simp
  show thesis by (rule that [OF root r0 run 3(2,3) v _ 3(6,7) _ _ hb]) (use 3(5,8,9) expr_valid_code [OF e d(1)] in simp_all)
qed

text \<open>
  What the three steps need: room in the address space for the code, in \<open>reqs\<close> requests, and for the program
  of \<open>n\<close> tests.
\<close>

definition code_ready :: "(nat \<Rightarrow> u32) \<Rightarrow> arena \<Rightarrow> nat list \<Rightarrow> nat \<Rightarrow> u32 \<Rightarrow> nat \<Rightarrow> nat \<Rightarrow> u32 \<Rightarrow> u32 \<Rightarrow> memory \<Rightarrow> bool" where
  "code_ready c A reqs n snap depth fuel sp lenp m \<longleftrightarrow> arena_ok A m \<and> link_at c (handle A) m \<and>
     (\<exists>mark. plain_link (handle A) snap mark m \<and> unat mark + 2 * fuel + 1 < 2 ^ 32) \<and>
     fits (reqs @ [212, 212]) A \<and> emit_room n depth fuel (brk (after (reqs @ [212, 212]) A)) \<and>
     emission_frame (handle A) sp \<and> length_place lenp"

definition expr_ready :: "(nat \<Rightarrow> u32) \<Rightarrow> arena \<Rightarrow> test cond \<Rightarrow> u32 \<Rightarrow> nat \<Rightarrow> nat \<Rightarrow> u32 \<Rightarrow> u32 \<Rightarrow> memory \<Rightarrow> bool" where
  "expr_ready c A e snap depth fuel sp lenp m \<longleftrightarrow>
     expr_ok e \<and> code_ready c A (expr_requests e) (length (leaves e)) snap depth fuel sp lenp m"

lemma generator_program:
  assumes f: "makes P f e reqs" "stays P A {} m"
    and ready: "code_ready c A reqs (length (leaves e)) snap depth fuel sp lenp m"
  obtains m1 b m2 root m3 p prog H L where "f (handle A) m = Ret (m1, b)"
    "finish_parse vs sn sp2 m1 (handle A) b = Ret (m2, 0)" "load32 m2 (unat (handle A) + 12) = Some root"
    "icode_to_fcode vs sn depth fuel sp m2 (handle A + 12) root lenp errbuf = Ret (m3, p)"
    "load32 m3 (unat lenp) = Some (of_nat (length prog))" "compiled_at m3 p prog H L" "valid_prog prog"
    "\<And>pkt wl. bpf_verdict prog pkt wl = Some (outcome snap (holds e (test_result pkt c)))"
proof -
  obtain mark where r: "arena_ok A m" "link_at c (handle A) m" "plain_link (handle A) snap mark m"
    "fits (reqs @ [212, 212]) A" "unat mark + 2 * fuel + 1 < 2 ^ 32"
    "emit_room (length (leaves e)) depth fuel (brk (after (reqs @ [212, 212]) A))"
    "emission_frame (handle A) sp" "length_place lenp"
    using ready unfolding code_ready_def by blast
  obtain m1 b m2 where 1: "f (handle A) m = Ret (m1, b)" "finish_parse vs sn sp2 m1 (handle A) b = Ret (m2, 0)"
    "finished c e snap (after (reqs @ [212, 212]) A) {} m2" "load32 m2 (unat (handle A) + 16) = Some mark"
    by (rule expression_finished [OF r(1-3) f r(4), of "{}" vs sn sp2]) simp_all
  have m2: "load32 m2 (unat (handle (after (reqs @ [212, 212]) A)) + 16) = Some mark" using 1(4) by simp
  have sp2: "emission_frame (handle (after (reqs @ [212, 212]) A)) sp" using r(7) by simp
  obtain m3 root p prog H L where 2: "load32 m2 (unat (handle (after (reqs @ [212, 212]) A)) + 12) = Some root"
    "icode_to_fcode vs sn depth fuel sp m2 (handle (after (reqs @ [212, 212]) A) + 12) root lenp errbuf = Ret (m3, p)"
    "load32 m3 (unat lenp) = Some (of_nat (length prog))" "compiled_at m3 p prog H L" "valid_prog prog"
    "\<And>pkt wl. bpf_verdict prog pkt wl = Some (outcome snap (holds e (test_result pkt c)))"
    by (rule finished_program [OF 1(3) m2 r(5,6) sp2 r(8), where W = "{}" and vs = vs and sn = sn and errbuf = errbuf])
      (simp, rule that)
  show thesis by (rule that [OF 1(1,2) _ _ 2(3-6)]) (use 2(1,2) in simp_all)
qed

lemma expression_program:
  assumes "expr_ready c A e snap depth fuel sp lenp m"
  shows "\<exists>m1 b m2 root m3 p prog H L.
    gen_expr vs sn sp1 (handle A) e m = Ret (m1, b) \<and> finish_parse vs sn sp2 m1 (handle A) b = Ret (m2, 0) \<and>
    load32 m2 (unat (handle A) + 12) = Some root \<and>
    icode_to_fcode vs sn depth fuel sp m2 (handle A + 12) root lenp errbuf = Ret (m3, p) \<and>
    load32 m3 (unat lenp) = Some (of_nat (length prog)) \<and> compiled_at m3 p prog H L \<and>
    (\<forall>pkt wl. bpf_verdict prog pkt wl = Some (outcome snap (holds e (test_result pkt c))))"
proof -
  have r: "expr_ok e" "code_ready c A (expr_requests e) (length (leaves e)) snap depth fuel sp lenp m"
    using assms by (simp_all add: expr_ready_def)
  obtain m1 b m2 root m3 p prog H L where "gen_expr vs sn sp1 (handle A) e m = Ret (m1, b)"
    "finish_parse vs sn sp2 m1 (handle A) b = Ret (m2, 0)" "load32 m2 (unat (handle A) + 12) = Some root"
    "icode_to_fcode vs sn depth fuel sp m2 (handle A + 12) root lenp errbuf = Ret (m3, p)"
    "load32 m3 (unat lenp) = Some (of_nat (length prog))" "compiled_at m3 p prog H L"
    "\<And>pkt wl. bpf_verdict prog pkt wl = Some (outcome snap (holds e (test_result pkt c)))"
    by (rule generator_program [OF gen_expr_makes [OF r(1), of "\<lambda>_ _. True" vs sn sp1] _ r(2), where vs = vs and sn = sn
      and ?sp2.0 = sp2 and errbuf = errbuf]) (simp add: stays_def, rule that)
  then show ?thesis by blast
qed

end
