(* ===== verification/Compile_Expr.thy ===== *)
theory Compile_Expr
  imports Finish_Program
begin

text \<open>
  The property of the whole path from a filter expression to its program, with a concrete run: an
  expression on Ethernet frames.
\<close>

section \<open>Example\<close>

text \<open>
  A memory of words: a handle at 1000 for Ethernet frames (the EtherType at 12, the payload at 14), with a
  snapshot length of 262144 and an empty arena, and a heap in which nothing is reserved.
\<close>

definition word_memory :: "nat \<Rightarrow> (nat \<Rightarrow> u32) \<Rightarrow> memory" where
  "word_memory n f = concat (map (\<lambda>i. le_bytes32 (f i)) [0..<n])"

lemma length_word_memory: "length (word_memory n f) = 4 * n"
  by (simp add: word_memory_def length_le_words)

lemma word_memory_drop:
  assumes "i < n"
  shows "drop (4 * i) (word_memory n f) = le_bytes32 (f i) @ concat (map (\<lambda>i. le_bytes32 (f i)) [Suc i..<n])"
proof -
  have "drop (4 * i) (word_memory n f) = concat (map (\<lambda>i. le_bytes32 (f i)) (drop i [0..<n]))"
    unfolding word_memory_def by (rule drop_le_words) (use assms in simp)
  also have "drop i [0..<n] = i # [Suc i..<n]" using assms by (subst drop_upt) (simp only: add_0 upt_conv_Cons)
  finally show ?thesis by simp
qed

lemma word_memory_load: "i < n \<Longrightarrow> load32 (word_memory n f) (4 * i) = Some (f i)"
  by (rule load32_at) (simp_all add: word_memory_drop length_word_memory le_bytes32_def)

lemma word_memory_zero:
  assumes "i < n" "f i = 0" "k < 4"
  shows "word_memory n f ! (4 * i + k) = 0"
proof -
  have "word_memory n f ! (4 * i + k) = drop (4 * i) (word_memory n f) ! k"
    by (rule nth_drop [symmetric]) (use assms(1) in \<open>simp add: length_word_memory\<close>)
  also have "\<dots> = replicate 4 0 ! k"
    using assms(3) unfolding word_memory_drop [OF assms(1)] assms(2) four_zeros [symmetric] by (subst nth_append) simp
  finally show ?thesis using assms(3) by simp
qed

definition ether_word :: "nat \<Rightarrow> u32" where
  "ether_word = (\<lambda>_. 0)(255 := 262144, 258 := 1, 275 := 14, 278 := 12, 294 := 3, 31359 := 127840, 31360 := 196608)"

definition ether_memory :: memory where
  "ether_memory = word_memory 49152 ether_word"

definition ether_arena :: arena where
  "ether_arena = \<lparr>handle = 1000, chunk = 0, left = 0, base = 0, brk = 127840\<rparr>"

definition ether_offsets :: "nat \<Rightarrow> u32" where
  "ether_offsets = (\<lambda>_. 0)(100 := 14, 112 := 12, 176 := 3)"

text \<open>The expression: IPv4, and not UDP.\<close>

definition ether_expr :: "test cond" where
  "ether_expr = Conj (Leaf (Cmp 5 0 8 0x800)) (cond.Neg (Leaf (Cmp 6 9 16 17)))"

lemma length_ether_memory: "length ether_memory = 196608"
  by (simp add: ether_memory_def length_word_memory)

lemma ether_memory_load:
  assumes "4 dvd a" "a < 196608"
  shows "load32 ether_memory a = Some (ether_word (a div 4))"
proof -
  have "4 * (a div 4) = a" "a div 4 < 49152" using assms by auto
  then show ?thesis using word_memory_load [of "a div 4" 49152 ether_word] by (simp only: ether_memory_def)
qed

lemma ether_arena_ok: "arena_ok ether_arena ether_memory"
proof -
  have "heap_inv ether_memory 127840 0"
    by (simp add: heap_inv_def length_ether_memory ether_memory_load ether_word_def)
  moreover have "ether_memory ! i = 0" if "127840 \<le> i" "i < 196608" for i
  proof -
    have "i div 4 < 49152" "ether_word (i div 4) = 0" "i mod 4 < 4" using that by (auto simp: ether_word_def)
    from word_memory_zero [where f = ether_word and i = "i div 4" and k = "i mod 4", OF this] show ?thesis
      by (simp only: ether_memory_def mult_div_mod_eq)
  qed
  ultimately show ?thesis
    by (auto simp: arena_ok_def chunk_slots_def ether_arena_def free_def length_ether_memory ether_memory_load ether_word_def)
qed

lemma ether_ready: "expr_ready ether_offsets ether_arena ether_expr 262144 4 9 900 127552 ether_memory"
proof -
  have "link_at ether_offsets (handle ether_arena) ether_memory"
    by (auto simp: link_at_def ether_arena_def ether_memory_load ether_word_def ether_offsets_def)
  moreover have "plain_link (handle ether_arena) 262144 0 ether_memory"
    by (simp add: plain_link_def ether_arena_def ether_memory_load ether_word_def)
  moreover have "expr_ok ether_expr" by (simp add: expr_ok_def ether_expr_def)
  moreover have rq: "expr_requests ether_expr = [20, 212, 20, 212]"
    by (simp add: ether_expr_def load_requests_def)
  moreover have "fits [20, 212, 20, 212, 212, 212] ether_arena"
    by (simp add: ether_arena_def has_room_def next_arena_def chunk_size_def)
  moreover have "brk (after [20, 212, 20, 212, 212, 212] ether_arena) = 129888"
    by (simp add: ether_arena_def next_arena_def chunk_size_def)
  moreover have "length (leaves ether_expr) = 2" "unat (handle ether_arena) = 1000"
    by (simp_all add: ether_expr_def ether_arena_def)
  moreover have "emission_frame (handle ether_arena) 900" "length_place 127552"
    by (auto simp: emission_frame_def ether_arena_def length_place_def own_bytes_def)
  ultimately show ?thesis
    unfolding expr_ready_def code_ready_def using ether_arena_ok by (simp add: emit_room_def) auto
qed

section \<open>The property\<close>

text \<open>
  C3: What the parser generates for a boolean expression of tests, \<open>_finish_parse\<close> finishes and
  \<open>icode_to_fcode\<close> emits is a program that accepts exactly the packets on which the expression holds,
  with the snapshot length as the verdict; where the expression looks at bytes that are not there
  before it is decided, the packet is rejected.
\<close>

theorem expression_compiled:
  assumes "expr_ready c A e snap depth fuel sp lenp m"
  shows "\<exists>m1 b m2 root m3 p prog H L.
    gen_expr vs sn sp1 (handle A) e m = Ret (m1, b) \<and> finish_parse vs sn sp2 m1 (handle A) b = Ret (m2, 0) \<and>
    load32 m2 (unat (handle A) + 12) = Some root \<and>
    icode_to_fcode vs sn depth fuel sp m2 (handle A + 12) root lenp errbuf = Ret (m3, p) \<and>
    load32 m3 (unat lenp) = Some (of_nat (length prog)) \<and> compiled_at m3 p prog H L \<and>
    (\<forall>pkt wl. bpf_verdict prog pkt wl = Some (outcome snap (holds e (test_result pkt c))))"
  by (rule expression_program [OF assms])

definition ether_packet :: "u8 \<Rightarrow> u8 list" where
  "ether_packet proto = [0, 0, 0, 0, 0, 0, 0, 0, 0, 0, 0, 0, 8, 0, 0x45, 0, 0, 20, 0, 0, 0, 0, 64, proto]"

lemma ether_results:
  "holds ether_expr (test_result (ether_packet 6) ether_offsets) = Some True"
  "holds ether_expr (test_result (ether_packet 17) ether_offsets) = Some False"
  "holds ether_expr (test_result [] ether_offsets) = None"
  by (simp_all add: ether_expr_def loaded_def load_size_def load_offset_def ether_offsets_def ether_packet_def pkt_load_def
    be_value_def)

theorem expression_compiled_witness:
  "\<exists>m1 b m2 m3 p prog.
    gen_expr (\<lambda>_ m _ _ _ _. Some m) (\<lambda>_ m _ _ _ _. Some m) 3000 1000 ether_expr ether_memory = Ret (m1, b) \<and>
    finish_parse (\<lambda>_ m _ _ _ _. Some m) (\<lambda>_ m _ _ _ _. Some m) 3000 m1 1000 b = Ret (m2, 0) \<and>
    (\<exists>root. icode_to_fcode (\<lambda>_ m _ _ _ _. Some m) (\<lambda>_ m _ _ _ _. Some m) 4 9 900 m2 1012 root 127552 0 = Ret (m3, p)) \<and>
    bpf_verdict prog (ether_packet 6) 60 = Some 262144 \<and> bpf_verdict prog (ether_packet 17) 60 = Some 0 \<and>
    bpf_verdict prog [] 0 = Some 0"
proof -
  have h: "handle ether_arena = 1000" "(1000 :: u32) + 12 = 1012" by (simp_all add: ether_arena_def)
  from expression_compiled [OF ether_ready, of "\<lambda>_ m _ _ _ _. Some m" "\<lambda>_ m _ _ _ _. Some m" 3000 3000 0, unfolded h]
  obtain m1 b m2 root m3 p prog where r:
    "gen_expr (\<lambda>_ m _ _ _ _. Some m) (\<lambda>_ m _ _ _ _. Some m) 3000 1000 ether_expr ether_memory = Ret (m1, b)"
    "finish_parse (\<lambda>_ m _ _ _ _. Some m) (\<lambda>_ m _ _ _ _. Some m) 3000 m1 1000 b = Ret (m2, 0)"
    "icode_to_fcode (\<lambda>_ m _ _ _ _. Some m) (\<lambda>_ m _ _ _ _. Some m) 4 9 900 m2 1012 root 127552 0 = Ret (m3, p)"
    "\<forall>pkt wl. bpf_verdict prog pkt wl = Some (outcome 262144 (holds ether_expr (test_result pkt ether_offsets)))"
    by (elim exE conjE)
  from r(4) have "bpf_verdict prog (ether_packet 6) 60 = Some 262144 \<and> bpf_verdict prog (ether_packet 17) 60 = Some 0 \<and>
      bpf_verdict prog [] 0 = Some 0"
    by (simp add: ether_results outcome_def)
  with r(1-3) show ?thesis by blast
qed

end
