(* ===== verification/Scanner_Buffers.thy ===== *)
theory Scanner_Buffers
  imports Errors Alloc Libc
begin

text \<open>
  The input of the filter scanner (\<open>src/internal/bpf.go\<close>): the state of a scanner
  (\<open>_pcap_lex_init\<close>, \<open>_pcap_set_extra\<close>, \<open>_pcap_lex_destroy\<close>), its stack of input buffers
  (\<open>_pcap_ensure_buffer_stack\<close>), a buffer over the filter string (\<open>_pcap__scan_string\<close>,
  \<open>_pcap__scan_buffer\<close>) and its end (\<open>_pcap__delete_buffer\<close>). What cannot go on leaves the module
  (\<open>_yy_fatal_error\<close>).
\<close>

section \<open>Fatal errors\<close>

text \<open>The message is printed (\<open>fprintf\<close> is a parameter), then \<open>_exit\<close> calls the host, which panics.\<close>

definition exit_module :: "memory \<Rightarrow> 'a jump" where
  "exit_module m = Env_panic 66234 m"

type_synonym printer = "u32 \<Rightarrow> memory \<Rightarrow> u32 \<Rightarrow> u32 \<Rightarrow> u32 \<Rightarrow> memory option"

definition yy_fatal_error :: "printer \<Rightarrow> u32 \<Rightarrow> memory \<Rightarrow> u32 \<Rightarrow> 'a jump" where
  "yy_fatal_error fprintf sp m v0 =
     (let v1 = sp - 16
      in jump_bind (lift (do { m \<leftarrow> store32 m (unat v1) v0; fprintf v1 m 2 72781 v1 })) exit_module)"

lemma yy_fatal_error_never_returns [simp]: "yy_fatal_error fprintf sp m v0 \<noteq> Ret r"
  by (simp add: yy_fatal_error_def exit_module_def Let_def jump_bind_eq_Ret)

section \<open>The scanner\<close>

text \<open>
  The 96 bytes of a scanner: the handle of the compiler at 0, the character under the end of the token
  at 24, the characters left at 28, the place in the input at 36, the top of the buffer stack at 12,
  its size at 16 and the stack at 20, the start stack at 60 and the text of the token at 80.
  \<open>_pcap_lex_init\<close> answers 1 and sets \<open>errno\<close> (127520) when it fails.
\<close>

definition pcap_lex_init :: "memory \<Rightarrow> u32 \<Rightarrow> (memory \<times> u32) option" where
  "pcap_lex_init m v0 =
     (if v0 = 0 then do { m \<leftarrow> store32 m 127520 22; Some (m, 1) }
      else do {
        (v1, m) \<leftarrow> xmalloc m 96;
        m \<leftarrow> store32 m (unat v0) v1;
        if v1 = 0 then do { m \<leftarrow> store32 m 127520 12; Some (m, 1) }
        else do { m \<leftarrow> memory_zero m (unat v1) 96; Some (m, 0) }
      })"

definition pcap_set_extra :: "memory \<Rightarrow> u32 \<Rightarrow> u32 \<Rightarrow> memory option" where
  "pcap_set_extra m v0 v1 = store32 m (unat v1) v0"

text \<open>A stack of one buffer is made, or eight more entries are.\<close>

definition ensure_buffer_stack :: "printer \<Rightarrow> u32 \<Rightarrow> memory \<Rightarrow> u32 \<Rightarrow> memory jump" where
  "ensure_buffer_stack fprintf sp m v0 =
     jump_bind (lift (load32 m (unat v0 + 20)))
       (\<lambda>v1. if v1 = 0 then
          jump_bind (lift (do {
              (v1, m) \<leftarrow> xmalloc m 4;
              m \<leftarrow> store32 m (unat v0 + 20) v1;
              Some (v1, m)
            }))
            (\<lambda>(v1, m). if v1 = 0 then yy_fatal_error fprintf sp m 72035
              else lift (do { m \<leftarrow> store32 m (unat v1) 0; store64 m (unat v0 + 12) 0x100000000 }))
        else
          jump_bind (lift (do {
              t3 \<leftarrow> load32 m (unat v0 + 12);
              v2 \<leftarrow> load32 m (unat v0 + 16);
              if t3 \<ge> v2 - 1 then do {
                (v1, m) \<leftarrow> realloc m v1 (push_bit 2 (v2 + 8));
                m \<leftarrow> store32 m (unat v0 + 20) v1;
                Some (Some (v1, v2 + 8), m)
              }
              else Some (None, m)
            }))
            (\<lambda>(r, m). case r of None \<Rightarrow> Ret m
              | Some (v1, v2) \<Rightarrow> if v1 = 0 then yy_fatal_error fprintf sp m 72035
                  else lift (do {
                    t8 \<leftarrow> load32 m (unat v0 + 16);
                    let v1 = v1 + push_bit 2 t8;
                    m \<leftarrow> store64 m (unat v1 + 24) 0;
                    m \<leftarrow> store64 m (unat v1 + 16) 0;
                    m \<leftarrow> store64 m (unat v1 + 8) 0;
                    m \<leftarrow> store64 m (unat v1) 0;
                    store32 m (unat v0 + 16) v2
                  })))"

section \<open>Buffers\<close>

text \<open>
  The 48 bytes of a buffer: the text at 4, the place in it at 8, its size at 12, its characters at 16,
  whether the buffer owns the text at 20. \<open>save_place\<close> saves the place of the buffer that is left.
\<close>

definition save_place :: "memory \<Rightarrow> u32 \<Rightarrow> (memory \<times> u32 \<times> u32) option" where
  "save_place m v2 =
     do {
       t8 \<leftarrow> load32 m (unat v2 + 36);
       t9 \<leftarrow> load8 m (unat v2 + 24);
       m \<leftarrow> store8 m (unat t8) t9;
       v1 \<leftarrow> load32 m (unat v2 + 20);
       v6 \<leftarrow> load32 m (unat v2 + 12);
       v5 \<leftarrow> load32 m (unat (v1 + push_bit 2 v6));
       t14 \<leftarrow> load32 m (unat v2 + 36);
       m \<leftarrow> store32 m (unat v5 + 8) t14;
       t15 \<leftarrow> load32 m (unat v2 + 28);
       m \<leftarrow> store32 m (unat v5 + 16) t15;
       Some (m, v1, v6)
     }"

text \<open>
  \<open>switch_buffer\<close> is the rest of \<open>_pcap__scan_buffer\<close> after the new buffer \<open>v3\<close> is filled in; the
  switch is skipped if \<open>v3\<close> is on top already.
\<close>

definition switch_buffer :: "memory \<Rightarrow> u32 \<Rightarrow> u32 \<Rightarrow> u32 \<Rightarrow> u32 \<Rightarrow> memory option" where
  "switch_buffer m v0 v2 v3 v4 =
     do {
       v1 \<leftarrow> load32 m (unat v2 + 20);
       v6 \<leftarrow> load32 m (unat v2 + 12);
       v5 \<leftarrow> load32 m (unat (v1 + push_bit 2 v6));
       if v5 = v3 then Some m
       else do {
         (m, v1, v6) \<leftarrow> (if v5 \<noteq> 0 then save_place m v2 else Some (m, v1, v6));
         m \<leftarrow> store32 m (unat v2 + 80) v0;
         m \<leftarrow> store32 m (unat v2 + 36) v0;
         m \<leftarrow> store32 m (unat v2 + 28) v4;
         m \<leftarrow> store32 m (unat v2 + 4) 0;
         m \<leftarrow> store32 m (unat (v1 + push_bit 2 v6)) v3;
         v1 \<leftarrow> load8 m (unat v0);
         m \<leftarrow> store32 m (unat v2 + 48) 1;
         store8 m (unat v2 + 24) v1
       }
     }"

definition fill_buffer :: "memory \<Rightarrow> u32 \<Rightarrow> u32 \<Rightarrow> u32 \<Rightarrow> memory option" where
  "fill_buffer m v0 v3 v4 =
     do {
       m \<leftarrow> store32 m (unat v3 + 20) 0;
       m \<leftarrow> store32 m (unat v3 + 8) v0;
       m \<leftarrow> store32 m (unat v3 + 4) v0;
       m \<leftarrow> store32 m (unat v3 + 12) v4;
       m \<leftarrow> store64 m (unat v3 + 40) 0;
       m \<leftarrow> store64 m (unat v3 + 24) 0x100000000;
       m \<leftarrow> store32 m (unat v3 + 16) v4;
       store32 m (unat v3) 0
     }"

text \<open>
  The text must end with two zero bytes. \<open>v3\<close> is 0 on the paths that go to \<open>l0\<close> before it is set.
\<close>

definition scan_buffer :: "printer \<Rightarrow> u32 \<Rightarrow> memory \<Rightarrow> u32 \<Rightarrow> u32 \<Rightarrow> u32 \<Rightarrow> (memory \<times> u32) jump" where
  "scan_buffer fprintf sp m v0 v1 v2 =
     (let v4 = v1 - 2
      in if v1 < 2 then Ret (m, 0)
         else jump_bind (lift (do {
             t1 \<leftarrow> load8 m (unat (v0 + v4));
             if t1 \<noteq> 0 then Some False
             else do { t2 \<leftarrow> load8 m (unat (v0 + v1 - 1)); Some (t2 = 0) }
           }))
           (\<lambda>ended. if \<not> ended then Ret (m, 0)
             else jump_bind (lift (xmalloc m 48))
               (\<lambda>(v3, m). if v3 = 0 then yy_fatal_error fprintf sp m 71949
                 else jump_bind (lift (fill_buffer m v0 v3 v4))
                   (\<lambda>m. jump_bind (ensure_buffer_stack fprintf sp m v2)
                   (\<lambda>m. jump_bind (lift (switch_buffer m v0 v2 v3 v4)) (\<lambda>m. Ret (m, v3)))))))"

text \<open>
  The string is copied by words, then by bytes; \<open>copy_words\<close> ends at \<open>v7\<close>, a multiple of 4, and
  \<open>copy_bytes\<close> copies \<open>v5\<close> bytes, at least one.
\<close>

partial_function (option) copy_words :: "memory \<Rightarrow> u32 \<Rightarrow> u32 \<Rightarrow> u32 \<Rightarrow> u32 \<Rightarrow> (memory \<times> u32) option" where
  "copy_words m v0 v4 v7 v2 =
     do {
       t2 \<leftarrow> load32 m (unat (v0 + v2));
       m \<leftarrow> store32 m (unat (v2 + v4)) t2;
       let v2 = v2 + 4;
       if v7 \<noteq> v2 then copy_words m v0 v4 v7 v2 else Some (m, v2)
     }"

partial_function (option) copy_bytes :: "memory \<Rightarrow> u32 \<Rightarrow> u32 \<Rightarrow> u32 \<Rightarrow> memory option" where
  "copy_bytes m v0 v2 v5 =
     do {
       t4 \<leftarrow> load8 m (unat v0);
       m \<leftarrow> store8 m (unat v2) t4;
       if v5 - 1 \<noteq> 0 then copy_bytes m (v0 + 1) (v2 + 1) (v5 - 1) else Some m
     }"

definition copy_string :: "memory \<Rightarrow> u32 \<Rightarrow> u32 \<Rightarrow> u32 \<Rightarrow> memory option" where
  "copy_string m v0 v4 v3 =
     (if v3 \<le>s 0 then Some m
      else do {
        let v5 = v3 AND 3;
        (m, v2) \<leftarrow> (if v3 \<ge> 4 then copy_words m v0 v4 (v3 AND 0x7ffffffc) 0 else Some (m, 0));
        if v3 \<ge> 4 \<and> v5 = 0 then Some m else copy_bytes m (v0 + v2) (v2 + v4) v5
      })"

definition scan_string :: "printer \<Rightarrow> u32 \<Rightarrow> memory \<Rightarrow> u32 \<Rightarrow> u32 \<Rightarrow> (memory \<times> u32) jump" where
  "scan_string fprintf sp m v0 v1 =
     jump_bind (lift (do {
         v3 \<leftarrow> strlen m v0;
         (v4, m) \<leftarrow> xmalloc m (v3 + 2);
         Some (v3, v4, m)
       }))
       (\<lambda>(v3, v4, m). if v4 = 0 then yy_fatal_error fprintf sp m 71832
         else jump_bind (lift (do { m \<leftarrow> copy_string m v0 v4 v3; store16 m (unat (v3 + v4)) 0 }))
           (\<lambda>m. jump_bind (scan_buffer fprintf sp m v4 (v3 + 2) v1)
           (\<lambda>(m, v0). if v0 = 0 then yy_fatal_error fprintf sp m 71873
             else jump_bind (lift (store32 m (unat v0 + 20) 1)) (\<lambda>m. Ret (m, v0)))))"

text \<open>A buffer and, if the buffer owns it, its text are given back; it leaves the top of the stack.\<close>

definition free_buffer :: "memory \<Rightarrow> u32 \<Rightarrow> memory option" where
  "free_buffer m v0 =
     do {
       t4 \<leftarrow> load32 m (unat v0 + 20);
       m \<leftarrow> (if t4 \<noteq> 0 then do { t5 \<leftarrow> load32 m (unat v0 + 4); xfree m t5 } else Some m);
       xfree m v0
     }"

definition delete_buffer :: "memory \<Rightarrow> u32 \<Rightarrow> u32 \<Rightarrow> memory option" where
  "delete_buffer m v0 v1 =
     (if v0 = 0 then Some m
      else do {
        v2 \<leftarrow> load32 m (unat v1 + 20);
        m \<leftarrow> (if v2 = 0 then Some m
          else do {
            t1 \<leftarrow> load32 m (unat v1 + 12);
            let v1 = v2 + push_bit 2 t1;
            t3 \<leftarrow> load32 m (unat v1);
            if v0 \<noteq> t3 then Some m else store32 m (unat v1) 0
          });
        free_buffer m v0
      })"

text \<open>The end of a scanner; its first part takes the buffer on top away.\<close>

definition pop_buffer :: "memory \<Rightarrow> u32 \<Rightarrow> (memory \<times> u32) option" where
  "pop_buffer m v0 =
     do {
       v2 \<leftarrow> load32 m (unat v0 + 20);
       if v2 = 0 then Some (m, v2)
       else do {
         t1 \<leftarrow> load32 m (unat v0 + 12);
         let v3 = v2 + push_bit 2 t1;
         v1 \<leftarrow> load32 m (unat v3);
         if v1 = 0 then Some (m, v2)
         else do {
           m \<leftarrow> store32 m (unat v3) 0;
           m \<leftarrow> free_buffer m v1;
           v2 \<leftarrow> load32 m (unat v0 + 20);
           t6 \<leftarrow> load32 m (unat v0 + 12);
           m \<leftarrow> store32 m (unat (v2 + push_bit 2 t6)) 0;
           Some (m, v2)
         }
       }
     }"

definition pcap_lex_destroy :: "memory \<Rightarrow> u32 \<Rightarrow> memory option" where
  "pcap_lex_destroy m v0 =
     do {
       (m, v2) \<leftarrow> pop_buffer m v0;
       m \<leftarrow> xfree m v2;
       m \<leftarrow> store32 m (unat v0 + 20) 0;
       t7 \<leftarrow> load32 m (unat v0 + 60);
       m \<leftarrow> xfree m t7;
       m \<leftarrow> store32 m (unat v0 + 60) 0;
       m \<leftarrow> store64 m (unat v0 + 52) 0;
       m \<leftarrow> store32 m (unat v0 + 44) 0;
       m \<leftarrow> store64 m (unat v0 + 36) 0;
       m \<leftarrow> store64 m (unat v0 + 12) 0;
       m \<leftarrow> store32 m (unat v0 + 20) 0;
       m \<leftarrow> store64 m (unat v0 + 4) 0;
       xfree m v0
     }"

end
