(* ===== verification/Pcap_Compile.thy ===== *)
theory Pcap_Compile
  imports Scanner_Buffers Emit Codegen_Blocks Bpf_Validate Go_Compile
begin

text \<open>
  The compilation of a filter string inside the module (\<open>src/internal/bpf.go\<close>): the exported
  \<open>Xbpf_compile\<close> opens a dummy pcap handle (\<open>_pcap_open_dummy\<close>), \<open>_pcap_compile\<close> sets up the
  compiler state for the link-layer type, runs the scanner and the parser, the optimizer and
  \<open>_icode_to_fcode\<close>, checks the program and gives back what it allocated. The parser (\<open>parse\<close>,
  for \<open>_pcap_parse\<close>), the optimizer (\<open>optimise\<close>, for \<open>_bpf_optimize\<close>) and the formatters are parameters.
\<close>

section \<open>A frame of words\<close>

text \<open>Stores into the frame at \<open>v5\<close>: an offset, and a word or a double word.\<close>

datatype cell = Word nat u32 | Double nat u64

fun store_cell :: "memory \<Rightarrow> u32 \<Rightarrow> cell \<Rightarrow> memory option" where
  "store_cell m v5 (Word a v) = store32 m (unat v5 + a) v"
| "store_cell m v5 (Double a v) = store64 m (unat v5 + a) v"

fun store_cells :: "memory \<Rightarrow> u32 \<Rightarrow> cell list \<Rightarrow> memory option" where
  "store_cells m v5 [] = Some m"
| "store_cells m v5 (x # xs) = do { m \<leftarrow> store_cell m v5 x; store_cells m v5 xs }"

section \<open>The pcap handle\<close>

text \<open>
  Of the 512 bytes of a handle the compiler uses: the snapshot length at 60, the link type at 64,
  whether it is activated at 76, the error buffer of 256 bytes at 148. The others set here are indices
  of functions.
\<close>

definition dummy_cells :: "u32 \<Rightarrow> u32 \<Rightarrow> cell list" where
  "dummy_cells v0 v1 =
     [Word 460 8, Word 116 0, Word 64 v0, Word 60 v1, Word 504 9, Word 496 10, Word 492 11, Word 488 12, Word 484 13,
      Word 480 14, Word 476 15, Word 472 16, Word 464 17, Word 0 18, Word 128 0, Word 76 1]"

definition pcap_open_dummy :: "memory \<Rightarrow> u32 \<Rightarrow> u32 \<Rightarrow> (memory \<times> u32) option" where
  "pcap_open_dummy m v0 v1 =
     do {
       (v2, m) \<leftarrow> calloc m 1 512;
       m \<leftarrow> (if v2 \<noteq> 0 then store_cells m v2 (dummy_cells v0 v1) else Some m);
       Some (m, v2)
     }"

definition pcap_close :: "memory \<Rightarrow> u32 \<Rightarrow> memory option" where
  "pcap_close m v0 = xfree m v0"

definition pcap_snapshot :: "memory \<Rightarrow> u32 \<Rightarrow> u32 option" where
  "pcap_snapshot m v0 = do { t0 \<leftarrow> load32 m (unat v0 + 76); if t0 = 0 then Some (- 3) else load32 m (unat v0 + 60) }"

definition pcap_datalink :: "memory \<Rightarrow> u32 \<Rightarrow> u32 option" where
  "pcap_datalink m v0 = load32 m (unat v0 + 64)"

text \<open>A program is two words: the number of its instructions and their address.\<close>

definition pcap_freecode :: "memory \<Rightarrow> u32 \<Rightarrow> memory option" where
  "pcap_freecode m v0 =
     do {
       m \<leftarrow> store32 m (unat v0) 0;
       v1 \<leftarrow> load32 m (unat v0 + 4);
       if v1 \<noteq> 0 then do { m \<leftarrow> xfree m v1; store32 m (unat v0 + 4) 0 } else Some m
     }"

definition xbpf_result_free :: "memory \<Rightarrow> memory option" where
  "xbpf_result_free m = pcap_freecode m 127552"

text \<open>\<open>_pcapint_fmt_errmsg_for_errno\<close>: the message, \<open>: \<close> and the text for every errno (67524).\<close>

definition fmt_errmsg_for_errno ::
  "formatter \<Rightarrow> formatter \<Rightarrow> u32 \<Rightarrow> memory \<Rightarrow> u32 \<Rightarrow> u32 \<Rightarrow> u32 \<Rightarrow> u32 \<Rightarrow> u32 \<Rightarrow> memory option" where
  "fmt_errmsg_for_errno vsnprintf snprintf sp m v0 v1 v2 v3 v4 =
     (let v5 = sp - 16
      in do {
        m \<leftarrow> store32 m (unat v5 + 12) v4;
        m \<leftarrow> vsnprintf v5 m v0 v1 v3 v4;
        v4 \<leftarrow> strlen m v0;
        if v1 \<ge> v4 + 3 then do {
          let v0 = v0 + v4;
          m \<leftarrow> store8 m (unat v0 + 2) 0;
          m \<leftarrow> store16 m (unat v0) 8250;
          m \<leftarrow> store32 m (unat v5) 67524;
          snprintf v5 m (v0 + 2) (v1 - v4 - 2) 67476 v5
        }
        else Some m
      })"

text \<open>The list of addresses that a host lookup left.\<close>

partial_function (option) freeaddrinfo_loop :: "memory \<Rightarrow> u32 \<Rightarrow> memory option" where
  "freeaddrinfo_loop m v0 =
     do {
       t0 \<leftarrow> load32 m (unat v0 + 28);
       t1 \<leftarrow> load32 m (unat v0 + 20);
       m \<leftarrow> xfree m t1;
       m \<leftarrow> xfree m v0;
       if t0 \<noteq> 0 then freeaddrinfo_loop m t0 else Some m
     }"

definition freeaddrinfo :: "memory \<Rightarrow> u32 \<Rightarrow> memory option" where
  "freeaddrinfo m v0 = (if v0 \<noteq> 0 then freeaddrinfo_loop m v0 else Some m)"

section \<open>The link layer\<close>

text \<open>The labels that the switch on the link-layer type goes to.\<close>

datatype link_label =
    L2 | L3 | L4 | L5 | L6 | L7 | L8 | L9 | L10 | L11 | L13 | L14 | L15 | L16 | L17 | L18 | L19 | L20 | L21 | L22 | L23
  | L24 | L25 | L26 | L27 | L28 | L29 | L30 | L31 | L32 | L33 | L34 | L35 | L36 | L37 | L38 | L39 | L40 | L41 | L42 | L43
  | L44 | L45 | L46 | L47 | L48 | L49 | L50 | L51 | L52

text \<open>The types of the switch; the default is \<open>None\<close> (\<open>l59\<close>) outside 104 to 304.\<close>

definition link_cases :: "(link_label \<times> u32 list) list" where
  "link_cases =
     [(L2, [0, 108]), (L3, [1]), (L4, [2, 3, 4, 5, 32, 121, 165, 202]), (L5, [6]), (L6, [7]), (L7, [8]),
      (L8, [9, 50, 104, 112, 166]), (L9, [10]), (L10, [11, 19]), (L11, [12, 228, 229]), (L13, [15]), (L14, [16]),
      (L15, [51]), (L16, [99]), (L17, [105]), (L18, [107]), (L19, [109]), (L20, [113]), (L21, [114]), (L22, [117]),
      (L23, [119, 127, 163]), (L24, [122]), (L25, [123]), (L26, [129]), (L27, [130, 131, 134, 179, 180, 181]),
      (L28, [132]), (L29, [133]), (L30, [135]), (L31, [136]), (L32, [137]), (L33, [138]), (L34, [139]), (L35, [140]),
      (L36, [164]), (L37, [167, 178]), (L38, [168]), (L39, [182]), (L40, [183]), (L41, [192]), (L42, [194]),
      (L43, [197]), (L44, [200]), (L45, [226]), (L46, [232, 233, 234, 238]), (L47, [240]), (L48, [241]), (L49, [246]),
      (L50, [276]), (L51, [281]), (L52, [284])]"

definition link_label :: "u32 \<Rightarrow> link_label option" where
  "link_label v4 =
     (case filter (\<lambda>x. v4 \<in> set (snd x)) link_cases of
        x # _ \<Rightarrow> Some (fst x)
      | [] \<Rightarrow> if v4 - 104 > 200 then None else Some L4)"

text \<open>
  What is stored for a label, and the values of \<open>v6\<close> and \<open>v2\<close> at \<open>l56\<close>; they are - 1 and 0 before the switch.
  \<open>payload\<close> are the offsets of the payload (152) and of the link-layer type (164) in this order, as most labels
  store them. \<open>t\<close> is the word at 104.
\<close>

definition payload :: "u32 \<Rightarrow> u32 \<Rightarrow> cell list" where
  "payload a b = [Word 152 a, Word 164 b]"

fun link_setup_late :: "link_label \<Rightarrow> cell list \<times> u32 \<times> u32" where
  "link_setup_late L27 = (payload 4 4, - 1, 0)"
| "link_setup_late L32 = (payload 4 4, 10, 0)"
| "link_setup_late L30 = (payload 8 8, 10, 0)"
| "link_setup_late L37 = ([Word 164 16, Word 152 14], 21, 18)"
| "link_setup_late L38 = (payload 6 4, - 1, 0)"
| "link_setup_late L29 = (payload 12 6, - 1, 0)"
| "link_setup_late L28 = (payload (- 1) 6, - 1, - 1)"
| "link_setup_late L36 = (payload 12 12, - 1, 0)"
| "link_setup_late L31 = (payload (- 1) 12, - 1, - 1)"
| "link_setup_late L40 = (payload (- 1) 18, - 1, - 1)"
| "link_setup_late L44 = (payload (- 1) 18, - 1, - 1)"
| "link_setup_late L42 = (payload (- 1) 8, - 1, - 1)"
| "link_setup_late L46 = (payload (- 1) 8, - 1, - 1)"
| "link_setup_late L35 = ([Double 212 0x700000004, Double 204 0x400000003, Double 196 0x400000002, Word 164 (- 1), Word 152 (- 1)], - 1, - 1)"
| "link_setup_late L34 = ([Double 212 0xb00000008, Double 204 0x800000007, Double 196 0x800000006, Word 164 (- 1), Word 152 (- 1)], - 1, - 1)"
| "link_setup_late L43 = ([Double 212 0x1b00000018, Double 204 0x1800000017, Double 196 0x1800000016, Word 164 (- 1), Word 152 (- 1)], - 1, - 1)"
| "link_setup_late L49 = (payload 4 (- 1), 0, 0)"
| "link_setup_late L45 = (payload 24 1, - 1, 0)"
| "link_setup_late L47 = ([Word 164 16, Word 116 4, Word 152 18], 3, 0)"
| "link_setup_late L48 = ([Word 164 24, Word 116 12, Word 152 26], 3, 0)"
| "link_setup_late L51 = (payload 18 16, 3, 0)"
| "link_setup_late L52 = (payload 18 16, 3, 0)"
| "link_setup_late L4 = (payload (- 1) (- 1), - 1, - 1)"
| "link_setup_late _ = (payload 14 12, 3, 0)"

fun link_setup :: "link_label \<Rightarrow> u32 \<Rightarrow> cell list \<times> u32 \<times> u32" where
  "link_setup L6 _ = (payload 6 2, 0, 0)"
| "link_setup L26 _ = (payload 8 4, 0, 0)"
| "link_setup L7 _ = (payload 16 (- 1), 0, 0)"
| "link_setup L13 _ = (payload 24 (- 1), 0, 0)"
| "link_setup L2 _ = ([Word 152 4, Word 164 0], 0, 0)"
| "link_setup L19 _ = ([Word 152 12, Word 164 0], 0, 0)"
| "link_setup L8 _ = (payload 4 2, 0, 0)"
| "link_setup L15 _ = (payload 8 6, 0, 0)"
| "link_setup L14 _ = (payload 24 5, 0, 0)"
| "link_setup L9 t = ([Word 164 (t + 13), Word 152 (t + 13)], 3, 8)"
| "link_setup L5 _ = (payload 14 14, 3, 8)"
| "link_setup L23 _ = ([Word 112 1, Word 164 24, Double 148 1], 3, 8)"
| "link_setup L17 _ = ([Word 164 24, Double 148 1], 3, 8)"
| "link_setup L41 _ = ([Word 164 24, Double 148 1, Word 112 1], 3, 8)"
| "link_setup L10 _ = (payload 0 0, 3, 8)"
| "link_setup L25 _ = ([Word 220 4, Word 192 0, Double 184 0x200000001, Word 172 1, Word 164 4, Word 152 4], 3, 8)"
| "link_setup L11 _ = (payload 0 (- 1), 0, 0)"
| "link_setup L20 _ = (payload 16 14, 0, 0)"
| "link_setup L50 _ = ([Word 152 20, Word 164 0], 0, 0)"
| "link_setup L21 _ = (payload 0 (- 1), 0, 0)"
| "link_setup L24 _ = (payload 16 16, 3, 8)"
| "link_setup L18 _ = (payload 0 (- 1), 0, 0)"
| "link_setup L39 _ = (payload 0 (- 1), 0, 4)"
| "link_setup L33 _ = (payload 18 16, 0, 0)"
| "link_setup L16 _ = (payload 44 6, 0, 0)"
| "link_setup L22 _ = ([Word 164 0, Double 148 1], 0, 0)"
| "link_setup l _ = link_setup_late l"

text \<open>
  The state before the switch: the handle of the compiler is at 52 of the frame, so its link type is at 76, 80
  and 84. The constant part of an offset follows its flag and is followed by its register.
\<close>

definition link_cells :: "u32 \<Rightarrow> cell list" where
  "link_cells v4 =
     [Word 84 v4, Word 144 (- 1), Double 136 0, Word 80 v4, Double 128 (- 0x100000000), Word 76 v4,
      Double 120 0xffffffff, Double 112 0, Word 164 0, Double 148 0, Word 220 (- 1), Word 192 (- 1), Double 184 (- 1),
      Double 168 0xffffffff, Double 156 0xffffffff, Double 176 0, Double 196 (- 1), Double 204 (- 1), Double 212 (- 1),
      Double 96 0]"

text \<open>\<open>l56\<close>: the header of the link layer is the previous one and the outermost one.\<close>

definition copy_link_header :: "memory \<Rightarrow> u32 \<Rightarrow> u32 \<Rightarrow> u32 \<Rightarrow> memory option" where
  "copy_link_header m v5 v6 v2 =
     do {
       v9 \<leftarrow> load64 m (unat v5 + 112);
       m \<leftarrow> store64 m (unat v5 + 124) v9;
       v8 \<leftarrow> load32 m (unat v5 + 120);
       m \<leftarrow> store32 m (unat v5 + 132) v8;
       store_cells m v5 [Double 136 v9, Word 144 v8, Word 228 v6, Word 224 v2]
     }"

text \<open>The set-up; \<open>False\<close> is an unknown link type, which is reported (\<open>l59\<close>).\<close>

definition set_link_type :: "formatter \<Rightarrow> memory \<Rightarrow> u32 \<Rightarrow> u32 \<Rightarrow> (memory \<times> bool) option" where
  "set_link_type vsnprintf m v5 v0 =
     do {
       t14 \<leftarrow> load32 m (unat v0 + 44);
       m \<leftarrow> store32 m (unat v5 + 104) t14;
       v4 \<leftarrow> pcap_datalink m v0;
       m \<leftarrow> store_cells m v5 (link_cells v4);
       case link_label v4 of
         None \<Rightarrow> do {
           m \<leftarrow> store32 m (unat v5 + 32) v4;
           m \<leftarrow> bpf_set_error vsnprintf v5 m (v5 + 52) 70774 (v5 + 32);
           Some (m, False)
         }
       | Some l \<Rightarrow> do {
           t17 \<leftarrow> load32 m (unat v5 + 104);
           let (cells, v6, v2) = link_setup l t17;
           m \<leftarrow> store_cells m v5 cells;
           m \<leftarrow> copy_link_header m v5 v6 v2;
           Some (m, True)
         }
     }"

section \<open>The compiler\<close>

text \<open>The state before the first chunk of the arena is allocated.\<close>

definition clear_cells :: "u32 \<Rightarrow> cell list" where
  "clear_cells v0 =
     [Word 108 0, Word 92 0, Word 68 0, Word 296 0, Double 60 0, Word 56 v0, Double 232 0, Double 240 0, Double 248 0,
      Double 256 0, Double 264 0, Double 272 0, Double 280 0, Double 288 0]"

text \<open>
  The scanner with the filter string in its buffer; \<open>v6\<close> is the first chunk. \<open>Inl\<close> is the result at \<open>l1\<close>,
  \<open>Inr\<close> the buffer. The first word of a scanner is the handle of the compiler.
\<close>

definition start_scanner ::
  "formatter \<Rightarrow> formatter \<Rightarrow> printer \<Rightarrow> memory \<Rightarrow> u32 \<Rightarrow> u32 \<Rightarrow> u32 \<Rightarrow> u32 \<Rightarrow> u32 \<Rightarrow> (memory \<times> (u32 + u32)) jump" where
  "start_scanner vsnprintf snprintf fprintf m v5 v0 v2 v4 v6 =
     (if v6 = 0 then lift (do {
          m \<leftarrow> store32 m (unat v5) 69145;
          m \<leftarrow> bpf_set_error vsnprintf v5 m (v5 + 52) 70679 v5;
          Some (m, Inl (- 1))
        })
      else jump_bind (lift (do {
          m \<leftarrow> store_cells m v5 [Word 88 v4, Word 300 1024];
          v4 \<leftarrow> pcap_snapshot m v0;
          m \<leftarrow> store32 m (unat v5 + 72) v4;
          if v4 = 0 then do { m \<leftarrow> snprintf v5 m (v0 + 148) 256 66554 0; Some (m, False) }
          else do {
            (m, t8) \<leftarrow> pcap_lex_init m (v5 + 48);
            if t8 \<noteq> 0 then do {
              t9 \<leftarrow> load32 m 127520;
              m \<leftarrow> fmt_errmsg_for_errno vsnprintf snprintf v5 m (v0 + 148) 256 t9 67548 0;
              Some (m, False)
            }
            else Some (m, True)
          }
        }))
        (\<lambda>(m, ok). if \<not> ok then Ret (m, Inl (- 1))
          else jump_bind (lift (load32 m (unat v5 + 48)))
            (\<lambda>t11. jump_bind (scan_string fprintf v5 m (if v2 \<noteq> 0 then v2 else 72784) t11)
            (\<lambda>(m, v7). lift (do {
               t13 \<leftarrow> load32 m (unat v5 + 48);
               m \<leftarrow> pcap_set_extra m (v5 + 52) t13;
               Some (m, Inr v7)
             })))))"

text \<open>
  The parser is given the scanner and the handle; it answers 0 and leaves the first block at 64. No block is a
  filter that accepts every packet.
\<close>

type_synonym parser = "u32 \<Rightarrow> memory \<Rightarrow> u32 \<Rightarrow> u32 \<Rightarrow> (memory \<times> u32) jump"

definition run_parser ::
  "formatter \<Rightarrow> formatter \<Rightarrow> parser \<Rightarrow> memory \<Rightarrow> u32 \<Rightarrow> (memory \<times> u32 option) jump" where
  "run_parser vsnprintf snprintf parse m v5 =
     jump_bind (lift (load32 m (unat v5 + 48)))
       (\<lambda>t23. jump_bind (parse v5 m t23 (v5 + 52))
       (\<lambda>(m, t24). if t24 \<noteq> 0 then lift (do { v0 \<leftarrow> load32 m (unat v5 + 108); m \<leftarrow> freeaddrinfo m v0; Some (m, None) })
         else jump_bind (lift (load32 m (unat v5 + 64)))
           (\<lambda>v6. if v6 \<noteq> 0 then Ret (m, Some v6)
             else jump_bind (lift (load32 m (unat v5 + 72)))
               (\<lambda>t27. jump_bind (gen_retblk vsnprintf snprintf v5 m (v5 + 52) t27)
               (\<lambda>(m, v6). lift (do { m \<leftarrow> store32 m (unat v5 + 64) v6; Some (m, Some v6) }))))))"

text \<open>
  The optimizer runs if it is asked for and the parser did not forbid it (92). A graph that is left empty,
  or whose first block returns 0, rejects every packet, which is an error.
\<close>

type_synonym optimiser = "u32 \<Rightarrow> memory \<Rightarrow> u32 \<Rightarrow> u32 \<Rightarrow> (memory \<times> u32) jump"

definition run_optimizer ::
  "formatter \<Rightarrow> optimiser \<Rightarrow> memory \<Rightarrow> u32 \<Rightarrow> u32 \<Rightarrow> u32 \<Rightarrow> u32 \<Rightarrow> (memory \<times> u32 option) jump" where
  "run_optimizer snprintf optimise m v5 v0 v3 v6 =
     (if v3 = 0 then Ret (m, Some v6)
      else jump_bind (lift (load32 m (unat v5 + 92)))
        (\<lambda>t30. if t30 \<noteq> 0 then Ret (m, Some v6)
          else jump_bind (optimise v5 m (v5 + 64) (v0 + 148))
            (\<lambda>(m, t32). if t32 = - 1 then Ret (m, None)
              else lift (do {
                v6 \<leftarrow> load32 m (unat v5 + 64);
                keep \<leftarrow> (if v6 = 0 then Some False
                  else do {
                    t34 \<leftarrow> load32 m (unat v6 + 8);
                    if t34 \<noteq> 6 then Some True
                    else do { t35 \<leftarrow> load32 m (unat v6 + 20); Some (t35 \<noteq> 0) }
                  });
                if keep then Some (m, Some v6)
                else do { m \<leftarrow> snprintf v5 m (v0 + 148) 256 66523 0; Some (m, None) }
              }))))"

text \<open>\<open>l62\<close>: the program is emitted into the two words at \<open>v1\<close> and checked.\<close>

definition emit_program ::
  "formatter \<Rightarrow> formatter \<Rightarrow> nat \<Rightarrow> nat \<Rightarrow> memory \<Rightarrow> u32 \<Rightarrow> u32 \<Rightarrow> u32 \<Rightarrow> u32 \<Rightarrow> (memory \<times> u32) jump" where
  "emit_program vsnprintf snprintf depth fuel m v5 v0 v1 v6 =
     jump_bind (icode_to_fcode vsnprintf snprintf depth fuel v5 m (v5 + 64) v6 v1 (v0 + 148))
       (\<lambda>(m, p). lift (do {
          m \<leftarrow> store32 m (unat v1 + 4) p;
          if p = 0 then Some (m, - 1)
          else do {
            t42 \<leftarrow> load32 m (unat v1);
            t43 \<leftarrow> pcapint_validate_filter m p t42;
            if t43 \<noteq> 0 then Some (m, 0)
            else do {
              m \<leftarrow> store32 m (unat v5 + 16) 70318;
              m \<leftarrow> snprintf v5 m (v0 + 148) 256 70649 (v5 + 16);
              Some (m, - 1)
            }
          }
        }))"

text \<open>From the link layer on to \<open>l61\<close>, the buffer \<open>v7\<close> included.\<close>

definition compile_string ::
  "formatter \<Rightarrow> formatter \<Rightarrow> parser \<Rightarrow> optimiser \<Rightarrow> nat \<Rightarrow> nat \<Rightarrow> memory \<Rightarrow> u32 \<Rightarrow> u32 \<Rightarrow> u32 \<Rightarrow> u32 \<Rightarrow> u32 \<Rightarrow>
    (memory \<times> u32) jump" where
  "compile_string vsnprintf snprintf parse optimise depth fuel m v5 v0 v1 v3 v7 =
     jump_bind
       (jump_bind (lift (set_link_type vsnprintf m v5 v0))
         (\<lambda>(m, known). if \<not> known then Ret (m, - 1)
           else jump_bind (run_parser vsnprintf snprintf parse m v5)
             (\<lambda>(m, r). case r of None \<Rightarrow> Ret (m, - 1)
               | Some v6 \<Rightarrow> jump_bind (run_optimizer snprintf optimise m v5 v0 v3 v6)
                   (\<lambda>(m, r). case r of None \<Rightarrow> Ret (m, - 1)
                     | Some v6 \<Rightarrow> emit_program vsnprintf snprintf depth fuel m v5 v0 v1 v6))))
       (\<lambda>(m, v4). lift (do {
          m \<leftarrow> (if v7 = 0 then Some m else do { t45 \<leftarrow> load32 m (unat v5 + 48); delete_buffer m v7 t45 });
          Some (m, v4)
        }))"

text \<open>\<open>l1\<close>: the scanner and the chunks of the arena are given back.\<close>

fun free_chunks :: "memory \<Rightarrow> u32 \<Rightarrow> nat list \<Rightarrow> memory option" where
  "free_chunks m v5 [] = Some m"
| "free_chunks m v5 (a # as) = do {
     v0 \<leftarrow> load32 m (unat v5 + a);
     m \<leftarrow> (if v0 \<noteq> 0 then xfree m v0 else Some m);
     free_chunks m v5 as
   }"

definition end_compile :: "memory \<Rightarrow> u32 \<Rightarrow> memory option" where
  "end_compile m v5 =
     do {
       v0 \<leftarrow> load32 m (unat v5 + 48);
       m \<leftarrow> (if v0 \<noteq> 0 then pcap_lex_destroy m v0 else Some m);
       free_chunks m v5 [304, 312, 320, 328, 336, 344, 352, 360, 368, 376, 384, 392, 400, 408, 416, 424]
     }"

definition pcap_compile ::
  "formatter \<Rightarrow> formatter \<Rightarrow> printer \<Rightarrow> parser \<Rightarrow> optimiser \<Rightarrow> nat \<Rightarrow> nat \<Rightarrow> u32 \<Rightarrow> memory \<Rightarrow>
    u32 \<Rightarrow> u32 \<Rightarrow> u32 \<Rightarrow> u32 \<Rightarrow> u32 \<Rightarrow> (memory \<times> u32) jump" where
  "pcap_compile vsnprintf snprintf fprintf parse optimise depth fuel sp m v0 v1 v2 v3 v4 =
     (let v5 = sp - 432
      in jump_bind (lift (do { m \<leftarrow> store32 m (unat v5 + 48) 0; t1 \<leftarrow> load32 m (unat v0 + 76); Some (m, t1) }))
        (\<lambda>(m, t1). if t1 = 0 then lift (do { m \<leftarrow> snprintf v5 m (v0 + 148) 256 70283 0; Some (m, - 1) })
          else jump_bind (lift (do {
              m \<leftarrow> store_cells m v5 (clear_cells v0);
              m \<leftarrow> memory_zero m (unat (v5 + 300)) 132;
              (v6, m) \<leftarrow> calloc m 1 1024;
              m \<leftarrow> store32 m (unat v5 + 304) v6;
              Some (m, v6)
            }))
            (\<lambda>(m, v6). jump_bind (start_scanner vsnprintf snprintf fprintf m v5 v0 v2 v4 v6)
            (\<lambda>(m, r). jump_bind
              (case r of Inl v4 \<Rightarrow> Ret (m, v4)
               | Inr v7 \<Rightarrow> compile_string vsnprintf snprintf parse optimise depth fuel m v5 v0 v1 v3 v7)
              (\<lambda>(m, v4). lift (do { m \<leftarrow> end_compile m v5; Some (m, v4) }))))))"

section \<open>The exported function\<close>

text \<open>
  The program is at 127552, the error buffer at 127568, the current pcap handle at 127828. The result is the
  number of instructions, or - 1, and the address of the program.
\<close>

definition xbpf_compile ::
  "formatter \<Rightarrow> formatter \<Rightarrow> printer \<Rightarrow> parser \<Rightarrow> optimiser \<Rightarrow> nat \<Rightarrow> nat \<Rightarrow> u32 \<Rightarrow>
    u32 \<Rightarrow> u32 \<Rightarrow> u32 \<Rightarrow> u32 \<Rightarrow> u32 \<Rightarrow> memory \<Rightarrow> (u32 \<times> u32 \<times> memory) jump" where
  "xbpf_compile vsnprintf snprintf fprintf parse optimise depth fuel sp v0 v1 v2 v3 v4 m =
     (let v6 = sp - 16
      in jump_bind (lift (do {
           m \<leftarrow> pcap_freecode m 127552;
           m \<leftarrow> store8 m 127568 0;
           pcap_open_dummy m v0 v1
         }))
         (\<lambda>(m, v1). if v1 = 0 then lift (do { m \<leftarrow> snprintf v6 m 127568 257 65549 0; Some (- 1, 0, m) })
           else jump_bind (lift (store32 m 127828 v1))
             (\<lambda>m. jump_bind (pcap_compile vsnprintf snprintf fprintf parse optimise depth fuel v6 m v1 127552 v2 v3 v4)
             (\<lambda>(m, t4). lift (do {
                m \<leftarrow> store32 m 127828 0;
                if t4 \<noteq> 0 then do {
                  m \<leftarrow> store32 m (unat v6) (v1 + 148);
                  m \<leftarrow> snprintf v6 m 127568 257 67476 v6;
                  m \<leftarrow> pcap_close m v1;
                  Some (- 1, 0, m)
                }
                else do {
                  m \<leftarrow> pcap_close m v1;
                  v5 \<leftarrow> load32 m 127556;
                  p1 \<leftarrow> load32 m 127552;
                  Some (p1, v5, m)
                }
              })))))"

text \<open>What \<open>Compile\<close> sees of it: the host function that the module calls to panic reads the message.\<close>

definition module_outcome :: "(memory \<Rightarrow> nat) \<Rightarrow> (u32 \<times> u32 \<times> memory) jump \<Rightarrow> (u32 \<times> u32 \<times> memory) outcome" where
  "module_outcome mem_cap r =
     (case r of Ret x \<Rightarrow> Returned x
      | Env_panic p m \<Rightarrow> (case cstr m (mem_cap m) p of Some s \<Rightarrow> PcapPanic s m | None \<Rightarrow> OtherPanic)
      | Trap \<Rightarrow> OtherPanic)"

end
