(* ===== verification/Compile_Frame.thy ===== *)
theory Compile_Frame
  imports Pcap_Compile Arena
begin

text \<open>
  What the stores and the allocations of \<open>_pcap_compile\<close> do to memory: \<open>words_at\<close> says what words a
  frame or a block holds, and stores update it as a function; a block from a heap whose free bytes are
  zero (\<open>fresh_heap\<close>) is zero and leaves such a heap.
\<close>

section \<open>Words of a frame\<close>

definition words_at :: "(nat \<Rightarrow> u32) \<Rightarrow> nat \<Rightarrow> nat \<Rightarrow> memory \<Rightarrow> bool" where
  "words_at f p n m \<longleftrightarrow> (\<forall>off. 4 dvd off \<longrightarrow> off + 4 \<le> n \<longrightarrow> load32 m (p + off) = Some (f off))"

lemma words_at_load: "words_at f p n m \<Longrightarrow> 4 dvd off \<Longrightarrow> off + 4 \<le> n \<Longrightarrow> load32 m (p + off) = Some (f off)"
  by (simp add: words_at_def)

lemma words_at_some: "p + n \<le> length m \<Longrightarrow> \<exists>f. words_at f p n m"
  using load32_in [of "p + _" m] unfolding words_at_def by (intro exI [of _ "\<lambda>off. the (load32 m (p + off))"]) fastforce

lemma words_at_kept:
  assumes "words_at f p n m" "kept A m m'" "span p n \<inter> A = {}"
  shows "words_at f p n m'"
proof -
  have "load32 m' (p + off) = Some (f off)" if "4 dvd off" "off + 4 \<le> n" for off
  proof (rule kept_load32 [OF assms(2)])
    show "load32 m (p + off) = Some (f off)" using assms(1) that by (simp add: words_at_def)
    have "span (p + off) 4 \<subseteq> span p n" using that(2) by simp
    with assms(3) show "span (p + off) 4 \<inter> A = {}" by blast
  qed
  then show ?thesis by (simp add: words_at_def)
qed

text \<open>Stores of words update the function.\<close>

fun with_words :: "(nat \<times> u32) list \<Rightarrow> (nat \<Rightarrow> u32) \<Rightarrow> nat \<Rightarrow> u32" where
  "with_words [] f = f"
| "with_words ((a, v) # xs) f = with_words xs (f(a := v))"

definition words_in :: "nat \<Rightarrow> (nat \<times> u32) list \<Rightarrow> bool" where
  "words_in n xs \<longleftrightarrow> (\<forall>x \<in> set xs. 4 dvd fst x \<and> fst x + 4 \<le> n)"

lemma words_in_simps [simp]:
  "words_in n []" "words_in n (x # xs) \<longleftrightarrow> 4 dvd fst x \<and> fst x + 4 \<le> n \<and> words_in n xs"
  "words_in n (xs @ ys) \<longleftrightarrow> words_in n xs \<and> words_in n ys"
  by (auto simp: words_in_def)

lemma words_at_store:
  assumes "words_at f p n m" "store32 m (p + a) v = Some m'" "4 dvd a"
  shows "words_at (f(a := v)) p n m'"
proof -
  have "load32 m' (p + off) = Some (f off)" if "4 dvd off" "off + 4 \<le> n" "off \<noteq> a" for off
  proof (rule kept_load32 [OF kept_store32 [OF assms(2)]])
    show "load32 m (p + off) = Some (f off)" using assms(1) that by (simp add: words_at_def)
    have "off + 4 \<le> a \<or> a + 4 \<le> off" using that(1,3) assms(3) by (auto simp: dvd_def)
    then show "span (p + off) 4 \<inter> span (p + a) 4 = {}" by auto
  qed
  with load32_store32 [OF assms(2)] show ?thesis by (simp add: words_at_def)
qed

lemma put_words_at:
  assumes "words_at f p n m" "words_in n xs" "p + n \<le> length m"
  obtains m' where "put_words m p xs = Some m'" "words_at (with_words xs f) p n m'" "kept (span p n) m m'" "length m' = length m"
proof -
  have "\<exists>m'. put_words m p xs = Some m' \<and> words_at (with_words xs f) p n m'"
    using assms
  proof (induction xs arbitrary: f m)
    case (Cons x xs)
    obtain a v where x: "x = (a, v)" by (cases x)
    have a: "4 dvd a" "a + 4 \<le> n" "words_in n xs" using Cons.prems(2) x by simp_all
    obtain m1 where m1: "store32 m (p + a) v = Some m1" using store32_in [of "p + a" m] a(2) Cons.prems(3) by auto
    have "p + n \<le> length m1" using Cons.prems(3) length_store32 [OF m1] by simp
    from Cons.IH [OF words_at_store [OF Cons.prems(1) m1 a(1)] a(3) this] obtain m2 where
      "put_words m1 p xs = Some m2" "words_at (with_words xs (f(a := v))) p n m2" by blast
    with m1 x show ?case by (simp del: fun_upd_apply)
  qed simp
  then obtain m' where m': "put_words m p xs = Some m'" "words_at (with_words xs f) p n m'" by blast
  have "\<forall>(off, v) \<in> set xs. off + 4 \<le> n" using assms(2) by (auto simp: words_in_def)
  from that [OF m' put_words_kept [OF m'(1) this]] show thesis .
qed

lemma put_words_append: "put_words m p (xs @ ys) = do { m \<leftarrow> put_words m p xs; put_words m p ys }"
  by (induction xs arbitrary: m) (auto split: Option.bind_splits)

text \<open>A double word is two words.\<close>

lemma le_bytes64_words: "le_bytes64 v = le_bytes32 (ucast v) @ le_bytes32 (ucast (drop_bit 32 v))"
proof -
  have e: "(ucast (drop_bit n (ucast v :: u32)) :: u8) = ucast (drop_bit n v)" if "n + 8 \<le> 32" for n
    by (rule bit_word_eqI) (use that in \<open>auto simp: bit_simps\<close>)
  have f: "(ucast (drop_bit n (ucast (drop_bit 32 v) :: u32)) :: u8) = ucast (drop_bit (32 + n) v)" if "n + 8 \<le> 32" for n
    by (rule bit_word_eqI) (use that in \<open>auto simp: bit_simps add.assoc\<close>)
  show ?thesis
    using e [of 0] e [of 8] e [of 16] e [of 24] f [of 0] f [of 8] f [of 16] f [of 24]
    by (simp add: le_bytes64_def le_bytes32_def)
qed

lemma put_bytes_append:
  "put_bytes m a (xs @ ys) = do { m \<leftarrow> put_bytes m a xs; put_bytes m (a + length xs) ys }"
proof (cases "a + length xs + length ys \<le> length m")
  case True
  moreover have "drop (length ys + (a + length xs)) m = drop (a + (length xs + length ys)) m" by (simp add: ac_simps)
  ultimately show ?thesis by (cases xs) (auto simp: put_bytes_def min_def)
next
  case False
  then show ?thesis by (auto simp: put_bytes_def)
qed

lemma store64_words: "store64 m a v = do { m \<leftarrow> store32 m a (ucast v); store32 m (a + 4) (ucast (drop_bit 32 v)) }"
  by (simp add: store64_def store32_def le_bytes64_words put_bytes_append)

fun cell_words :: "cell \<Rightarrow> (nat \<times> u32) list" where
  "cell_words (Word a v) = [(a, v)]"
| "cell_words (Double a v) = [(a, ucast v), (a + 4, ucast (drop_bit 32 v))]"

lemma store_cells_words: "store_cells m v5 xs = put_words m (unat v5) (concat (map cell_words xs))"
proof (induction xs arbitrary: m)
  case (Cons x xs)
  then show ?case
    by (cases x) (auto simp: store64_words add.assoc split: Option.bind_splits)
qed simp

lemma store_cells_at:
  assumes "words_at f (unat v5) n m" "words_in n (concat (map cell_words xs))" "unat v5 + n \<le> length m"
  obtains m' where "store_cells m v5 xs = Some m'" "words_at (with_words (concat (map cell_words xs)) f) (unat v5) n m'"
    "kept (span (unat v5) n) m m'" "length m' = length m"
  using put_words_at [OF assms] unfolding store_cells_words by blast

lemma memory_zero_at:
  assumes "words_at f p n m" "4 dvd a" "a + k \<le> n" "p + n \<le> length m" "4 dvd k"
  obtains m' where "memory_zero m (p + a) k = Some m'"
    "words_at (\<lambda>off. if a \<le> off \<and> off < a + k then 0 else f off) p n m'" "kept (span (p + a) k) m m'" "length m' = length m"
proof -
  let ?m = "copy_at m (p + a) (replicate k 0)"
  have z: "memory_zero m (p + a) k = Some ?m"
    using assms(3,4) by (simp add: memory_zero_def slice_def)
  have len: "length ?m = length m" and nth: "?m ! i = (if p + a \<le> i \<and> i < p + a + k then 0 else m ! i)" if "i < length m" for i
    using assms(3,4) that by (auto simp: copy_at_def Let_def nth_append min_def)
  have len: "length ?m = length m" using assms(3,4) by (auto simp: copy_at_def Let_def min_def)
  have k: "kept (span (p + a) k) m ?m" using len nth by (auto simp: kept_def)
  have "load32 ?m (p + off) = Some (if a \<le> off \<and> off < a + k then 0 else f off)" if off: "4 dvd off" "off + 4 \<le> n" for off
  proof (cases "a \<le> off \<and> off < a + k")
    case True
    moreover have "4 dvd a + k" using assms(2,5) by simp
    ultimately have "off + 4 \<le> a + k" using off(1) by presburger
    with True nth assms(3,4) len have "load32 ?m (p + off) = Some 0" by (intro load32_zero) auto
    with True show ?thesis by simp
  next
    case False
    then have "off + 4 \<le> a \<or> a + k \<le> off" using off(1) assms(2) by presburger
    then have "load32 ?m (p + off) = Some (f off)"
      using assms(1) off by (intro kept_load32 [OF k]) (auto simp: words_at_def)
    with False show ?thesis by auto
  qed
  then have "words_at (\<lambda>off. if a \<le> off \<and> off < a + k then 0 else f off) p n ?m" by (simp add: words_at_def)
  from that [OF z this k len] show thesis .
qed

section \<open>A heap with zero bytes above its pointer\<close>

definition fresh_heap :: "memory \<Rightarrow> nat \<Rightarrow> nat \<Rightarrow> bool" where
  "fresh_heap m H L \<longleftrightarrow> heap_inv m H L \<and> (\<forall>i. H \<le> i \<longrightarrow> i < length m \<longrightarrow> m ! i = 0)"

lemma fresh_heap_bounds:
  assumes "fresh_heap m H L"
  shows "heap_inv m H L" "127840 \<le> H" "H \<le> length m" "length m \<le> 2 ^ 32" "L = 0 \<or> L \<le> H"
  using assms by (auto simp: fresh_heap_def heap_inv_def)

lemma fresh_heap_kept:
  assumes "fresh_heap m H L" "kept A m m'" "length m' = length m" "A \<inter> own_bytes = {}" "A \<inter> {H..} = {}"
  shows "fresh_heap m' H L"
proof -
  have "m' ! i = 0" if "H \<le> i" "i < length m'" for i
  proof -
    have "i \<notin> A" using assms(5) that(1) by auto
    with assms(1-3) that show ?thesis by (simp add: kept_def fresh_heap_def)
  qed
  with heap_inv_kept [OF _ assms(2-4)] assms(1) show ?thesis by (simp add: fresh_heap_def)
qed

lemma fresh_alloc:
  assumes h: "fresh_heap m H L" and k: "0 < unat k" "unat k < 2 ^ 31" and room: "H + round_up 4 (unat k) \<le> 2 ^ 32"
  obtains m' where "xmalloc m k = Some (of_nat H, m')" "calloc m 1 k = Some (of_nat H, m')" "fresh_heap m' (H + round_up 4 (unat k)) H"
    "kept own_bytes m m'" "length m \<le> length m'" "\<And>n. n \<le> unat k \<Longrightarrow> words_at (\<lambda>_. 0) H n m'" "unat (of_nat H :: u32) = H"
    "\<forall>i. H \<le> i \<longrightarrow> i < length m' \<longrightarrow> m' ! i = 0"
proof -
  note b = fresh_heap_bounds [OF h]
  have "0 < sint k" using sint_small [of k] k by (simp del: of_nat_unat)
  from xmalloc_spec [OF b(1) this] room
  obtain m' where m': "xmalloc m k = Some (of_nat H, m')" "heap_kept m m'" "heap_inv m' (H + round_up 4 (unat k)) H" by auto
  have z: "m' ! i = 0" if "H \<le> i" "i < length m'" for i
    using m'(2) h that b(2) by (cases "i < length m") (auto simp: heap_kept_def own_byte_def fresh_heap_def)
  have len: "length m \<le> length m'" using m'(2) by (simp add: heap_kept_def)
  have fr: "fresh_heap m' (H + round_up 4 (unat k)) H" using m'(3) z by (simp add: fresh_heap_def)
  have "words_at (\<lambda>_. 0) H n m'" if "n \<le> unat k" for n
    unfolding words_at_def using z fresh_heap_bounds(3) [OF fr] round_up_bounds(1) [of "unat k"] that by (auto intro!: load32_zero)
  moreover have "calloc m 1 k = xmalloc m k" using k(2) by (simp add: calloc_malloc)
  moreover have "unat (of_nat H :: u32) = H"
    using room b(4) round_up_bounds(1) [of "unat k"] k(1) by (intro unat_of_nat_small) simp
  ultimately show thesis using that m'(1) fr heap_kept_kept [OF m'(2)] len z by simp
qed

lemma xfree_other:
  assumes "heap_inv m H L" "unat p \<noteq> L \<or> p = 0"
  shows "xfree m p = Some m"
  using assms xfree_spec [OF assms(1), of p] by (cases "p = 0") (auto simp: xfree_def)

end
