(* ===== verification/Scanner_Input.thy ===== *)
theory Scanner_Input
  imports Compile_Frame
begin

text \<open>
  What \<open>_pcap__scan_string\<close> does on a new scanner (\<open>scan_string_at\<close>): the filter string is copied into
  a block of its own (\<open>copy_string_at\<close>), with two zero bytes behind it, and the scanner reads from a
  buffer over the copy.
\<close>

section \<open>Copying\<close>

definition moved :: "nat \<Rightarrow> nat \<Rightarrow> nat \<Rightarrow> memory \<Rightarrow> memory \<Rightarrow> bool" where
  "moved a b n m m' \<longleftrightarrow> kept (span b n) m m' \<and> length m' = length m \<and> (\<forall>i < n. m' ! (b + i) = m ! (a + i))"

lemma moved_append:
  assumes "moved a b n m m1" "moved (a + n) (b + n) k m1 m2" "a + n + k \<le> b" "b + n + k \<le> length m"
  shows "moved a b (n + k) m m2"
proof -
  have "kept (span b (n + k)) m m2"
    by (rule kept_trans [OF kept_mono kept_mono]) (use assms(1,2) in \<open>auto simp: moved_def\<close>)
  moreover have "m2 ! (b + i) = m ! (a + i)" if i: "i < n + k" for i
  proof (cases "i < n")
    case True
    then have "m2 ! (b + i) = m1 ! (b + i)" using assms(1,2,4) by (auto simp: moved_def kept_def)
    with True assms(1) show ?thesis by (simp add: moved_def)
  next
    case False
    then obtain j where j: "i = n + j" "j < k" using i by (metis add_less_cancel_left le_Suc_ex not_le)
    then have "m2 ! (b + i) = m1 ! (a + i)" using assms(2) by (simp add: moved_def add.assoc)
    also have "\<dots> = m ! (a + i)" using assms(1,3,4) j by (auto simp: moved_def kept_def)
    finally show ?thesis .
  qed
  ultimately show ?thesis using assms(1,2) by (simp add: moved_def)
qed

lemma moved_byte:
  assumes "a < length m" "b < length m"
  shows "\<exists>v m'. load8 m a = Some v \<and> store8 m b v = Some m' \<and> moved a b 1 m m'"
proof -
  have "(ucast (ucast x :: u32) :: u8) = x" for x :: u8 by (rule bit_word_eqI) (auto simp: bit_simps)
  with assms show ?thesis by (auto simp: load8_def store8_def moved_def kept_def index_def set_index_def nth_list_update)
qed

lemma moved_word:
  assumes "a + 4 \<le> b" "b + 4 \<le> length m"
  shows "\<exists>v m'. load32 m a = Some v \<and> store32 m b v = Some m' \<and> moved a b 4 m m'"
proof -
  obtain v where v: "load32 m a = Some v" using load32_in [of a m] assms by auto
  obtain m' where m': "store32 m b v = Some m'" using store32_in [of b m] assms by auto
  have d: "take 4 (drop c x) = le_bytes32 v" if "load32 x c = Some v" "c + 4 \<le> length x" for c x
  proof -
    have "le_uint32 (take 4 (drop c x)) = Some v" using that by (simp add: load32_def get_bytes_in)
    from le_bytes32_uint32 [OF this] show ?thesis by simp
  qed
  have t: "take 4 (drop b m') = take 4 (drop a m)"
    using d [OF v] d [OF load32_store32 [OF m']] assms length_store32 [OF m'] by simp
  have "m' ! (b + i) = m ! (a + i)" if "i < 4" for i
  proof -
    have "take 4 (drop b m') ! i = take 4 (drop a m) ! i" by (simp only: t)
    with that assms length_store32 [OF m'] show ?thesis by simp
  qed
  with kept_store32 [OF m'] length_store32 [OF m'] have "moved a b 4 m m'" by (simp add: moved_def)
  with v m' show ?thesis by blast
qed

text \<open>The loops: \<open>j\<close> words are copied from \<open>v2\<close> on, and \<open>k\<close> bytes.\<close>

lemma copy_words_at:
  assumes "0 < j" "a + 4 * (i + j) \<le> b" "b + 4 * (i + j) \<le> length m" "length m \<le> 2 ^ 32"
  shows "\<exists>m'. copy_words m (of_nat a) (of_nat b) (of_nat (4 * (i + j))) (of_nat (4 * i)) = Some (m', of_nat (4 * (i + j))) \<and>
    moved (a + 4 * i) (b + 4 * i) (4 * j) m m'"
  using assms
proof (induction j arbitrary: i m)
  case (Suc j)
  have u: "unat (of_nat a + of_nat (4 * i) :: u32) = a + 4 * i" "unat (of_nat (4 * i) + of_nat b :: u32) = b + 4 * i"
    unfolding of_nat_add [symmetric] using Suc.prems by (subst unat_of_nat_small; simp)+
  obtain v m1 where w: "load32 m (a + 4 * i) = Some v" "store32 m (b + 4 * i) v = Some m1" "moved (a + 4 * i) (b + 4 * i) 4 m m1"
    using moved_word [of "a + 4 * i" "b + 4 * i" m] Suc.prems by auto
  have e4: "(of_nat (4 * i) :: u32) + 4 = of_nat (4 * Suc i)" by simp
  have step: "copy_words m (of_nat a) (of_nat b) (of_nat (4 * (i + Suc j))) (of_nat (4 * i)) =
      (if (of_nat (4 * (i + Suc j)) :: u32) \<noteq> of_nat (4 * Suc i)
       then copy_words m1 (of_nat a) (of_nat b) (of_nat (4 * (i + Suc j))) (of_nat (4 * Suc i)) else Some (m1, of_nat (4 * Suc i)))"
    by (subst copy_words.simps) (simp only: u w Let_def e4 bind.bind_lunit)
  show ?case
  proof (cases "j = 0")
    case True
    with step w(3) show ?thesis by simp
  next
    case False
    have ne: "(of_nat (4 * (i + Suc j)) :: u32) \<noteq> of_nat (4 * Suc i)"
    proof
      assume e: "(of_nat (4 * (i + Suc j)) :: u32) = of_nat (4 * Suc i)"
      have "unat (of_nat (4 * (i + Suc j)) :: u32) = 4 * (i + Suc j)" "unat (of_nat (4 * Suc i) :: u32) = 4 * Suc i"
        using Suc.prems by (intro unat_of_nat_small; simp)+
      with e False show False by simp
    qed
    have l1: "length m1 = length m" using w(3) by (simp add: moved_def)
    have ij: "Suc i + j = i + Suc j" by simp
    from Suc.IH [of "Suc i" m1, unfolded ij] False Suc.prems l1
    obtain m2 where m2: "copy_words m1 (of_nat a) (of_nat b) (of_nat (4 * (i + Suc j))) (of_nat (4 * Suc i)) = Some (m2, of_nat (4 * (i + Suc j)))"
      "moved (a + 4 * Suc i) (b + 4 * Suc i) (4 * j) m1 m2" by auto
    have "moved (a + 4 * i) (b + 4 * i) (4 + 4 * j) m m2"
      by (rule moved_append [OF w(3)]) (use m2(2) Suc.prems in \<open>simp_all add: algebra_simps\<close>)
    with step ne m2(1) show ?thesis by simp
  qed
qed simp

lemma copy_bytes_at:
  assumes "0 < k" "a + k \<le> b" "b + k \<le> length m" "length m \<le> 2 ^ 32"
  shows "\<exists>m'. copy_bytes m (of_nat a) (of_nat b) (of_nat k) = Some m' \<and> moved a b k m m'"
  using assms
proof (induction k arbitrary: a b m)
  case (Suc k)
  have u: "unat (of_nat a :: u32) = a" "unat (of_nat b :: u32) = b"
    using Suc.prems by (intro unat_of_nat_small; simp)+
  obtain v m1 where w: "load8 m a = Some v" "store8 m b v = Some m1" "moved a b 1 m m1"
    using moved_byte [of a m b] Suc.prems by auto
  have step: "copy_bytes m (of_nat a) (of_nat b) (of_nat (Suc k)) =
      (if (of_nat k :: u32) \<noteq> 0 then copy_bytes m1 (of_nat (a + 1)) (of_nat (b + 1)) (of_nat k) else Some m1)"
    by (subst copy_bytes.simps) (simp add: u w add.commute)
  have k0: "(of_nat k :: u32) = 0 \<longleftrightarrow> k = 0"
  proof -
    have "unat (of_nat k :: u32) = k" using Suc.prems by (intro unat_of_nat_small) simp
    then show ?thesis by auto
  qed
  show ?case
  proof (cases "k = 0")
    case True
    with step w(3) show ?thesis by simp
  next
    case False
    have l1: "length m1 = length m" using w(3) by (simp add: moved_def)
    from Suc.IH [of "a + 1" "b + 1" m1] False Suc.prems l1
    obtain m2 where m2: "copy_bytes m1 (of_nat (a + 1)) (of_nat (b + 1)) (of_nat k) = Some m2" "moved (a + 1) (b + 1) k m1 m2"
      by auto
    have "moved a b (1 + k) m m2" by (rule moved_append [OF w(3) m2(2)]) (use Suc.prems in simp_all)
    with step False k0 m2(1) show ?thesis by simp
  qed
qed simp

lemma copy_string_at:
  assumes "a + n \<le> b" "b + n \<le> length m" "length m \<le> 2 ^ 32" "n < 2 ^ 31"
  shows "\<exists>m'. copy_string m (of_nat a) (of_nat b) (of_nat n) = Some m' \<and> moved a b n m m'"
proof (cases "n = 0")
  case True
  then show ?thesis by (simp add: copy_string_def moved_def)
next
  case False
  have u: "unat (of_nat n :: u32) = n" using assms(4) by (intro unat_of_nat_small) simp
  have pos: "\<not> (of_nat n :: u32) \<le>s 0"
    using sint_small [of "of_nat n"] u assms(4) False by (simp add: word_sle_eq del: of_nat_unat)
  have r: "(of_nat n :: u32) AND 3 = of_nat (n mod 4)"
  proof -
    have "(of_nat n :: u32) AND 3 = take_bit 2 (of_nat n)" by (simp add: take_bit_eq_mask mask_eq_exp_minus_1)
    also have "\<dots> = of_nat n mod 4" by (simp add: take_bit_eq_mod)
    finally have "unat ((of_nat n :: u32) AND 3) = n mod unat (4 :: u32)" by (simp only: unat_mod u)
    then have "unat ((of_nat n :: u32) AND 3) = n mod 4" by simp
    moreover have "unat (of_nat (n mod 4) :: u32) = n mod 4" by (intro unat_of_nat_small) (simp add: order.strict_trans2 [OF mod_less_divisor])
    ultimately show ?thesis by (simp add: word_unat_eq_iff)
  qed
  have q: "(of_nat n :: u32) AND 0x7ffffffc = of_nat (4 * (n div 4))"
  proof -
    have t: "(of_nat n :: u32) = take_bit 31 (of_nat n)"
    proof -
      have "take_bit 31 n = n" by (rule take_bit_nat_eq_self) (use assms(4) in simp)
      then show ?thesis using u by (simp add: word_unat_eq_iff unsigned_take_bit_eq)
    qed
    have low: "bit (of_nat n :: u32) i \<Longrightarrow> i < 31" for i by (subst (asm) t) (simp add: bit_take_bit_iff)
    have c: "(0x7ffffffc :: u32) = push_bit 2 (mask 29)" by (simp add: mask_eq_exp_minus_1 push_bit_eq_mult)
    have "(of_nat n :: u32) AND 0x7ffffffc = push_bit 2 (drop_bit 2 (of_nat n))"
    proof (rule bit_word_eqI)
      fix i assume "i < LENGTH(32)"
      show "bit ((of_nat n :: u32) AND 0x7ffffffc) i = bit (push_bit 2 (drop_bit 2 (of_nat n :: u32))) i"
        unfolding c bit_and_iff bit_push_bit_iff bit_mask_iff bit_drop_bit_eq using low [of i] \<open>i < LENGTH(32)\<close> by auto
    qed
    also have "drop_bit 2 (of_nat n :: u32) = of_nat (n div 4)"
    proof -
      have "unat (drop_bit 2 (of_nat n) :: u32) = n div 4" unfolding unat_drop_bit_eq u by (simp add: drop_bit_eq_div)
      moreover have "unat (of_nat (n div 4) :: u32) = n div 4" using assms(4) by (intro unat_of_nat_small) simp
      ultimately show ?thesis by (simp add: word_unat_eq_iff)
    qed
    finally show ?thesis by (simp add: push_bit_eq_mult)
  qed
  let ?w = "4 * (n div 4)"
  have nw: "n = ?w + n mod 4" by simp
  have n4: "(of_nat n :: u32) \<ge> 4 \<longleftrightarrow> 4 \<le> n" using u by (simp add: word_le_nat_alt)
  have rz: "(of_nat (n mod 4) :: u32) = 0 \<longleftrightarrow> n mod 4 = 0"
  proof -
    have "unat (of_nat (n mod 4) :: u32) = n mod 4" by (intro unat_of_nat_small) (simp add: order.strict_trans2 [OF mod_less_divisor])
    then show ?thesis by auto
  qed
  obtain m1 where m1: "(if 4 \<le> n then copy_words m (of_nat a) (of_nat b) (of_nat ?w) 0 else Some (m, 0)) = Some (m1, of_nat ?w)"
    "moved a b ?w m m1"
  proof (cases "4 \<le> n")
    case True
    have "?w \<le> n" by simp
    then have le: "a + 4 * (0 + n div 4) \<le> b" "b + 4 * (0 + n div 4) \<le> length m" using assms(1,2) by simp_all
    have "0 < n div 4" using True by simp
    from copy_words_at [OF this le assms(3)] True show ?thesis using that by auto
  next
    case False
    then have "?w = 0" by simp
    with False show ?thesis using that [of m] by (simp add: moved_def)
  qed
  have run: "copy_string m (of_nat a) (of_nat b) (of_nat n) =
      (if 4 \<le> n \<and> n mod 4 = 0 then Some m1 else copy_bytes m1 (of_nat (a + ?w)) (of_nat (b + ?w)) (of_nat (n mod 4)))"
    unfolding copy_string_def Let_def r q using pos m1(1) n4 rz by (simp add: add.commute)
  have l1: "length m1 = length m" using m1(2) by (simp add: moved_def)
  show ?thesis
  proof (cases "n mod 4 = 0")
    case True
    then have "?w = n" "4 \<le> n" using False by auto
    with run True m1(2) show ?thesis by simp
  next
    case False
    then obtain m2 where m2: "copy_bytes m1 (of_nat (a + ?w)) (of_nat (b + ?w)) (of_nat (n mod 4)) = Some m2"
      "moved (a + ?w) (b + ?w) (n mod 4) m1 m2"
      using copy_bytes_at [of "n mod 4" "a + ?w" "b + ?w" m1] assms l1 by fastforce
    have "moved a b (?w + n mod 4) m m2" by (rule moved_append [OF m1(2) m2(2)]) (use assms in simp_all)
    then have "moved a b n m m2" by simp
    with run False m2(1) show ?thesis by simp
  qed
qed

section \<open>A buffer over the string\<close>

lemma fill_buffer_words:
  "fill_buffer m v0 v3 v4 = put_words m (unat v3)
     [(20, 0), (8, v0), (4, v0), (12, v4), (40, 0), (44, 0), (24, 0), (28, 1), (16, v4), (0, 0)]"
proof -
  have e: "ucast (drop_bit 32 0x100000000 :: u64) = (1 :: u32)" "(0x100000000 :: u32) = 0" by code_simp+
  show ?thesis by (simp add: e fill_buffer_def store64_words add.assoc)
qed

text \<open>The stack of buffers is made: one entry at \<open>stk\<close>.\<close>

lemma ensure_buffer_stack_at:
  assumes h: "fresh_heap m H L" and room: "H + 16 \<le> 2 ^ 32" and y: "127840 \<le> unat yy" "unat yy + 96 \<le> H"
    and w: "words_at f (unat yy) 96 m" "f 20 = 0"
  obtains m' where "ensure_buffer_stack fprintf sp m yy = Ret m'" "fresh_heap m' (H + 16) H" "unat (of_nat H :: u32) = H"
    "words_at (f(20 := of_nat H, 12 := 0, 16 := 1)) (unat yy) 96 m'" "load32 m' H = Some 0"
    "kept (own_bytes \<union> span (unat yy) 96 \<union> {H..}) m m'" "length m \<le> length m'"
proof -
  have four: "unat (4 :: u32) = 4" "round_up 4 4 = 16" by (simp_all add: round_up_def)
  have hb: "127840 \<le> H" using fresh_heap_bounds(2) [OF h] .
  obtain m1 where m1: "xmalloc m 4 = Some (of_nat H, m1)" "fresh_heap m1 (H + 16) H" "kept own_bytes m m1" "length m \<le> length m1"
    "unat (of_nat H :: u32) = H" and z: "\<And>n. n \<le> 4 \<Longrightarrow> words_at (\<lambda>_. 0) H n m1"
    by (rule fresh_alloc [OF h, of 4]) (use room four in auto)
  have len: "unat yy + 96 \<le> length m1" "H + 16 \<le> length m1" using fresh_heap_bounds(3) [OF m1(2)] y(2) by linarith+
  have w1: "words_at f (unat yy) 96 m1" by (rule words_at_kept [OF w(1) m1(3)]) (use y in auto)
  obtain m2 where m2: "store32 m1 (unat yy + 20) (of_nat H) = Some m2" using store32_in [of "unat yy + 20" m1] len by auto
  have w2: "words_at (f(20 := of_nat H)) (unat yy) 96 m2" by (rule words_at_store [OF w1 m2]) simp
  have l2: "length m2 = length m1" by (rule length_store32 [OF m2])
  obtain m3 where m3: "store32 m2 H 0 = Some m3" using store32_in [of H m2] len l2 by auto
  have w3: "words_at (f(20 := of_nat H)) (unat yy) 96 m3" by (rule words_at_kept [OF w2 kept_store32 [OF m3]]) (use y in simp)
  have l3: "length m3 = length m1" using length_store32 [OF m3] l2 by simp
  have "words_in 96 [(12, 0 :: u32), (16, 1)]" by simp
  from put_words_at [OF w3 this] len l3 obtain m4 where m4: "put_words m3 (unat yy) [(12, 0), (16, 1)] = Some m4"
    "words_at (with_words [(12, 0), (16, 1)] (f(20 := of_nat H))) (unat yy) 96 m4" "kept (span (unat yy) 96) m3 m4" "length m4 = length m3"
    by auto
  have e: "ucast (drop_bit 32 0x100000000 :: u64) = (1 :: u32)" "(0x100000000 :: u32) = 0" by code_simp+
  have s64: "store64 m3 (unat yy + 12) 0x100000000 = Some m4" using m4(1) by (simp add: e store64_words add.assoc)
  have "load32 m (unat yy + 20) = Some 0" using words_at_load [OF w(1), of 20] w(2) by simp
  moreover have "(of_nat H :: u32) \<noteq> 0" using m1(5) hb by auto
  ultimately have run: "ensure_buffer_stack fprintf sp m yy = Ret m4"
    using m1(1,5) m2 m3 s64 by (simp add: ensure_buffer_stack_def)
  have k: "kept (own_bytes \<union> span (unat yy) 96 \<union> {H..}) m m4"
    by (rule kept_trans [OF kept_mono [OF m1(3)] kept_trans [OF kept_mono [OF kept_store32 [OF m2]]
      kept_trans [OF kept_mono [OF kept_store32 [OF m3]] kept_mono [OF m4(3)]]]]) auto
  have "kept (span (unat yy) 96 \<union> span H 4) m1 m4"
    by (rule kept_trans [OF kept_mono [OF kept_store32 [OF m2]] kept_trans [OF kept_mono [OF kept_store32 [OF m3]] kept_mono [OF m4(3)]]]) auto
  then have "fresh_heap m4 (H + 16) H"
    by (rule fresh_heap_kept [OF m1(2)]) (use l3 m4(4) y hb in \<open>auto simp: Int_Un_distrib2\<close>)
  moreover have "load32 m4 H = Some 0"
    by (rule kept_load32 [OF m4(3) load32_store32 [OF m3]]) (use y in simp)
  moreover have "with_words [(12, 0), (16, 1)] (f(20 := of_nat H)) = f(20 := of_nat H, 12 := 0, 16 := 1)" by simp
  ultimately show thesis using that [OF run _ m1(5)] m4(2,4) k m1(4) l3 by simp
qed

lemma switch_buffer_at:
  assumes y: "unat yy + 96 \<le> stk" "stk + 4 \<le> length m" and w: "words_at f (unat yy) 96 m"
    and f: "f 20 = of_nat stk" "f 12 = 0" "unat (of_nat stk :: u32) = stk" and z: "load32 m stk = Some 0" and b: "buf \<noteq> 0"
    and t: "unat tx < length m"
  obtains m' where "switch_buffer m tx yy buf v4 = Some m'" "load32 m' stk = Some buf"
    "\<And>off. off \<in> {12, 20, 60} \<Longrightarrow> load32 m' (unat yy + off) = Some (f off)"
    "kept (span (unat yy) 96 \<union> span stk 4) m m'" "length m' = length m"
proof -
  let ?xs = "[(80, tx), (36, tx), (28, v4), (4, 0)]" and ?f = "f(80 := tx, 36 := tx, 28 := v4, 4 := 0)"
  have "words_in 96 ?xs" by simp
  from put_words_at [OF w this] y obtain m1 where m1: "put_words m (unat yy) ?xs = Some m1" "words_at (with_words ?xs f) (unat yy) 96 m1"
    "kept (span (unat yy) 96) m m1" "length m1 = length m" by auto
  obtain m2 where m2: "store32 m1 stk buf = Some m2" using store32_in [of stk m1] y m1(4) by auto
  have l2: "length m2 = length m" using length_store32 [OF m2] m1(4) by simp
  have w2: "words_at ?f (unat yy) 96 m2"
    using words_at_kept [OF m1(2) kept_store32 [OF m2]] y by simp
  obtain v where v: "load8 m2 (unat tx) = Some v" using t l2 by (auto simp: load8_def index_def)
  obtain m3 where m3: "store32 m2 (unat yy + 48) 1 = Some m3" using store32_in [of "unat yy + 48" m2] y l2 by auto
  have w3: "words_at (?f(48 := 1)) (unat yy) 96 m3" by (rule words_at_store [OF w2 m3]) simp
  have l3: "length m3 = length m" using length_store32 [OF m3] l2 by simp
  obtain m4 where m4: "store8 m3 (unat yy + 24) v = Some m4" using store8_in [of "unat yy + 24" m3] y l3 by auto
  have ld: "load32 m (unat yy + 20) = Some (of_nat stk)" "load32 m (unat yy + 12) = Some 0"
    using words_at_load [OF w, of 20] words_at_load [OF w, of 12] f by simp_all
  have eq: "switch_buffer m tx yy buf v4 = do { m \<leftarrow> put_words m (unat yy) ?xs; m \<leftarrow> store32 m stk buf; v1 \<leftarrow> load8 m (unat tx);
      m \<leftarrow> store32 m (unat yy + 48) 1; store8 m (unat yy + 24) v1 }"
    unfolding switch_buffer_def using ld z f(3) b by simp
  have run: "switch_buffer m tx yy buf v4 = Some m4" unfolding eq m1(1) by (simp add: m2 v m3 m4)
  have k34: "kept (span (unat yy) 96) m2 m4"
    by (rule kept_trans [OF kept_mono [OF kept_store32 [OF m3]] kept_mono [OF kept_store8 [OF m4]]]) auto
  have "load32 m4 stk = Some buf" by (rule kept_load32 [OF k34 load32_store32 [OF m2]]) (use y in simp)
  moreover have "load32 m4 (unat yy + off) = Some (f off)" if "off \<in> {12, 20, 60}" for off
  proof (rule kept_load32 [OF kept_store8 [OF m4]])
    show "load32 m3 (unat yy + off) = Some (f off)" using words_at_load [OF w3, of off] that by auto
    show "span (unat yy + off) 4 \<inter> {unat yy + 24} = {}" using that by auto
  qed
  moreover have "kept (span (unat yy) 96 \<union> span stk 4) m m4"
    by (rule kept_trans [OF kept_mono [OF m1(3)] kept_trans [OF kept_mono [OF kept_store32 [OF m2]] kept_mono [OF k34]]]) auto
  moreover have "length m4 = length m" using length_store8 [OF m4] l3 by simp
  ultimately show thesis using that [OF run] by blast
qed

section \<open>A scanner over the string\<close>

text \<open>
  The words of a scanner that reads a buffer over a string: the top of the stack, the stack, the start
  stack, the buffer on the stack, its text, and that it owns the text.
\<close>

definition scanner_words :: "u32 \<Rightarrow> u32 \<Rightarrow> u32 \<Rightarrow> u32 \<Rightarrow> (nat \<times> u32) set" where
  "scanner_words yy stk buf tx =
     {(unat yy + 12, 0), (unat yy + 20, stk), (unat yy + 60, 0), (unat stk, buf), (unat buf + 4, tx), (unat buf + 20, 1)}"

lemma cstr_at_reach:
  assumes "cstr_at m p s" "kept A m m'" "span p (length s + 1) \<inter> A = {}"
  shows "cstr_at m' p s"
proof -
  have c: "0 \<notin> set s" "p + length s < length m" "take (length s) (drop p m) = s" "m ! (p + length s) = 0"
    using assms(1) by (simp_all add: cstr_at_def)
  have k: "m' ! (p + i) = m ! (p + i)" if "i \<le> length s" for i
  proof -
    have "p + i \<in> span p (length s + 1)" using that by simp
    with assms(3) have "p + i \<notin> A" by blast
    with assms(2) c(2) that show ?thesis by (simp add: kept_def)
  qed
  have len: "length m \<le> length m'" using assms(2) by (rule kept_length)
  have "take (length s) (drop p m') = take (length s) (drop p m)"
    using k c(2) len by (intro nth_equalityI) auto
  with c k [of "length s"] len show ?thesis by (simp add: cstr_at_def)
qed

lemma scan_string_at:
  assumes h: "fresh_heap m H L" and room: "H + round_up 4 (length s + 2) + 64 \<le> 2 ^ 32" and n: "length s + 2 < 2 ^ 31"
    and y: "127840 \<le> unat yy" "unat yy + 96 \<le> H" and w: "words_at f (unat yy) 96 m" "f 20 = 0" "f 60 = 0"
    and s: "cstr_at m (unat v0) s" "127840 \<le> unat v0" "unat v0 + length s < H"
  obtains m' tx buf stk where "scan_string fprintf sp m v0 yy = Ret (m', buf)" "fresh_heap m' (unat stk + 16) (unat stk)"
    "unat tx = H" "unat buf = H + round_up 4 (length s + 2)" "unat stk = unat buf + 48"
    "\<forall>x \<in> scanner_words yy stk buf tx. load32 m' (fst x) = Some (snd x)"
    "cstr_at m' (unat tx) s" "index m' (unat tx + length s + 1) = Some 0"
    "kept (own_bytes \<union> span (unat yy) 96 \<union> {H..}) m m'" "length m \<le> length m'"
proof -
  let ?n = "length s" and ?R = "round_up 4 (length s + 2)"
  have hb: "127840 \<le> H" "length m \<le> 2 ^ 32" using fresh_heap_bounds [OF h] by simp_all
  have R: "?n + 2 \<le> ?R" by (rule round_up_bounds(1))
  have k: "unat (of_nat ?n + 2 :: u32) = ?n + 2"
  proof -
    have "(of_nat ?n + 2 :: u32) = of_nat (?n + 2)" by simp
    then show ?thesis using n by (simp only:) (intro unat_of_nat_small, simp)
  qed
  obtain m1 where m1: "xmalloc m (of_nat ?n + 2) = Some (of_nat H, m1)" "fresh_heap m1 (H + ?R) H" "kept own_bytes m m1"
    "length m \<le> length m1" and u: "unat (of_nat H :: u32) = H"
    by (rule fresh_alloc [OF h, of "of_nat ?n + 2"]) (use k n room in auto)
  have b1: "length m1 \<le> 2 ^ 32" "H + ?R \<le> length m1" using fresh_heap_bounds(3,4) [OF m1(2)] by simp_all
  have uv: "of_nat (unat v0) = v0" by simp
  obtain m2 where m2: "copy_string m1 v0 (of_nat H) (of_nat ?n) = Some m2" "moved (unat v0) H ?n m1 m2"
    using copy_string_at [of "unat v0" ?n H m1, unfolded uv] s(3) b1 R n by auto
  have mv: "kept (span H ?n) m1 m2" "length m2 = length m1" "\<And>i. i < ?n \<Longrightarrow> m2 ! (H + i) = m1 ! (unat v0 + i)"
    using m2(2) by (auto simp: moved_def)
  have un: "unat (of_nat ?n + of_nat H :: u32) = H + ?n"
    unfolding of_nat_add [symmetric] using b1 R by (subst unat_of_nat_small) simp_all
  obtain m3 where m3: "store16 m2 (H + ?n) 0 = Some m3" using store16_in [of "H + ?n" m2] b1 R mv(2) by auto
  have l3: "length m3 = length m1" using length_store16 [OF m3] mv(2) by simp
  have z3: "m3 ! (H + ?n) = 0" "m3 ! (H + ?n + 1) = 0"
    using m3 mv(2) b1 R by (auto simp: store16_def put_bytes_def le_bytes16_def nth_append split: if_splits)
  have k3: "kept (span H ?R) m1 m3"
    by (rule kept_trans [OF kept_mono [OF mv(1)] kept_mono [OF kept_store16 [OF m3]]]) (use R in auto)
  have h3: "fresh_heap m3 (H + ?R) H" by (rule fresh_heap_kept [OF m1(2) k3 l3]) (use hb in auto)
  have w3: "words_at f (unat yy) 96 m3"
    by (rule words_at_kept [OF words_at_kept [OF w(1) m1(3)] k3]) (use y in auto)
  have str3: "cstr_at m3 H s"
  proof -
    have "m3 ! (H + i) = s ! i" if i: "i < ?n" for i
    proof -
      have "m3 ! (H + i) = m2 ! (H + i)" using kept_store16 [OF m3] i mv(2) b1 R by (auto simp: kept_def)
      also have "\<dots> = m1 ! (unat v0 + i)" by (rule mv(3) [OF i])
      also have "\<dots> = m ! (unat v0 + i)"
        using m1(3) s(1,2) i by (auto simp: kept_def own_bytes_def cstr_at_def)
      also have "\<dots> = s ! i" by (rule cstr_nth [OF s(1) i])
      finally show ?thesis .
    qed
    then have "take ?n (drop H m3) = s" using b1 R l3 by (intro nth_equalityI) auto
    with s(1) z3 b1 R l3 show ?thesis by (auto simp: cstr_at_def)
  qed
  have eight: "unat (48 :: u32) = 48" "round_up 4 48 = 48" by (simp_all add: round_up_def)
  let ?B = "H + ?R"
  obtain m4 where m4: "xmalloc m3 48 = Some (of_nat ?B, m4)" "fresh_heap m4 (?B + 48) ?B" "kept own_bytes m3 m4"
    "length m3 \<le> length m4" and uB: "unat (of_nat ?B :: u32) = ?B" and z4: "\<And>k. k \<le> 48 \<Longrightarrow> words_at (\<lambda>_. 0) ?B k m4"
    by (rule fresh_alloc [OF h3, of 48]) (use room eight in auto)
  have b4: "?B + 48 \<le> length m4" using fresh_heap_bounds(3) [OF m4(2)] .
  let ?xs = "[(20, 0), (8, of_nat H), (4, of_nat H), (12, of_nat ?n), (40, 0), (44, 0), (24, 0), (28, 1), (16, of_nat ?n), (0, 0)]"
  have "words_in 48 ?xs" by simp
  from put_words_at [OF z4 [of 48] this] b4
  obtain m5 where m5: "put_words m4 ?B ?xs = Some m5" "words_at (with_words ?xs (\<lambda>_. 0)) ?B 48 m5" "kept (span ?B 48) m4 m5"
    "length m5 = length m4" by auto
  have h5: "fresh_heap m5 (?B + 48) ?B" by (rule fresh_heap_kept [OF m4(2) m5(3,4)]) (use hb in auto)
  have w5: "words_at f (unat yy) 96 m5" by (rule words_at_kept [OF words_at_kept [OF w3 m4(3)] m5(3)]) (use y in auto)
  obtain m6 where m6: "ensure_buffer_stack fprintf sp m5 yy = Ret m6" "fresh_heap m6 (?B + 48 + 16) (?B + 48)"
    "unat (of_nat (?B + 48) :: u32) = ?B + 48"
    "words_at (f(20 := of_nat (?B + 48), 12 := 0, 16 := 1)) (unat yy) 96 m6" "load32 m6 (?B + 48) = Some 0"
    "kept (own_bytes \<union> span (unat yy) 96 \<union> {?B + 48..}) m5 m6" "length m5 \<le> length m6"
    by (rule ensure_buffer_stack_at [OF h5 _ y(1) _ w5 w(2)]) (use room y in auto)
  have nz: "(of_nat H :: u32) \<noteq> 0" "(of_nat ?B :: u32) \<noteq> 0" using u uB hb by auto
  have len6: "?B + 64 \<le> length m6" using fresh_heap_bounds(3) [OF m6(2)] by simp
  obtain m7 where m7: "switch_buffer m6 (of_nat H) yy (of_nat ?B) (of_nat ?n) = Some m7" "load32 m7 (?B + 48) = Some (of_nat ?B)"
    and y7: "\<And>off. off \<in> {12, 20, 60} \<Longrightarrow> load32 m7 (unat yy + off) = Some ((f(20 := of_nat (?B + 48), 12 := 0, 16 := 1)) off)"
    and k7: "kept (span (unat yy) 96 \<union> span (?B + 48) 4) m6 m7" "length m7 = length m6"
    by (rule switch_buffer_at [OF _ _ m6(4) _ _ m6(3,5) nz(2), of "of_nat H" "of_nat ?n"]) (use y len6 u in auto)
  obtain m8 where m8: "store32 m7 (?B + 20) 1 = Some m8" using store32_in [of "?B + 20" m7] len6 k7(2) by auto
  have un1: "unat (of_nat H + (of_nat ?n + 2) - 1 :: u32) = H + ?n + 1"
  proof -
    have e: "(of_nat H + (of_nat ?n + 2) - 1 :: u32) = of_nat (H + ?n + 1)" by simp
    show ?thesis unfolding e using b1 R by (intro unat_of_nat_small) simp
  qed
  have ge: "\<not> (of_nat ?n + 2 :: u32) < 2" using k by (simp add: word_less_nat_alt)
  have l8: "load8 m3 (H + ?n) = Some 0" "load8 m3 (H + ?n + 1) = Some 0"
    using z3 b1 R l3 by (simp_all add: load8_def index_def)
  have fb: "fill_buffer m4 (of_nat H) (of_nat ?B) (of_nat ?n) = Some m5" unfolding fill_buffer_words uB by (rule m5(1))
  have sb: "scan_buffer fprintf sp m3 (of_nat H) (of_nat ?n + 2) yy = Ret (m7, of_nat ?B)"
    unfolding scan_buffer_def Let_def add_diff_cancel_right'
    using ge un un1 l8 m4(1) nz(2) fb m6(1) m7(1) by (simp add: add.commute)
  have run: "scan_string fprintf sp m v0 yy = Ret (m8, of_nat ?B)"
    unfolding scan_string_def strlen_cstr [OF s(1)]
    using m1(1) nz m2(1) m3 un sb m8 uB by simp
  have k68: "kept (span (unat yy) 96 \<union> span (?B + 48) 4 \<union> span (?B + 20) 4) m6 m8"
    by (rule kept_trans [OF kept_mono [OF k7(1)] kept_mono [OF kept_store32 [OF m8]]]) auto
  have l68: "length m8 = length m6" using length_store32 [OF m8] k7(2) by simp
  have h8: "fresh_heap m8 (?B + 48 + 16) (?B + 48)"
    by (rule fresh_heap_kept [OF m6(2) k68 l68]) (use hb y in \<open>auto simp: Int_Un_distrib2\<close>)
  have k38: "kept (own_bytes \<union> span (unat yy) 96 \<union> {?B..}) m3 m8"
    by (rule kept_trans [OF kept_mono [OF m4(3)] kept_trans [OF kept_mono [OF m5(3)]
      kept_trans [OF kept_mono [OF m6(6)] kept_mono [OF k68]]]]) auto
  have str: "cstr_at m8 H s" by (rule cstr_at_reach [OF str3 k38]) (use hb y R in \<open>auto simp: own_bytes_def\<close>)
  have zero: "index m8 (H + ?n + 1) = Some 0"
    by (rule kept_index [OF k38]) (use z3(2) b1 R l3 hb y in \<open>auto simp: index_def own_bytes_def\<close>)
  have "kept (own_bytes \<union> span (unat yy) 96 \<union> {H..}) m m8"
    by (rule kept_trans [OF kept_mono [OF m1(3)] kept_trans [OF kept_mono [OF k3] kept_mono [OF k38]]]) auto
  moreover have "length m \<le> length m8" using m1(4) l3 m4(4) m5(4) m6(7) l68 by simp
  moreover have "\<forall>x \<in> scanner_words yy (of_nat (?B + 48)) (of_nat ?B) (of_nat H). load32 m8 (fst x) = Some (snd x)"
  proof -
    have y8: "load32 m8 (unat yy + off) = Some ((f(20 := of_nat (?B + 48), 12 := 0, 16 := 1)) off)" if "off \<in> {12, 20, 60}" for off
      by (rule kept_load32 [OF kept_store32 [OF m8] y7 [OF that]]) (use that y in auto)
    have "load32 m5 (?B + 4) = Some (of_nat H)" using words_at_load [OF m5(2), of 4] by simp
    then have "load32 m6 (?B + 4) = Some (of_nat H)" by (rule kept_load32 [OF m6(6)]) (use hb y in \<open>auto simp: own_bytes_def\<close>)
    then have "load32 m8 (?B + 4) = Some (of_nat H)" by (rule kept_load32 [OF k68]) (use y in auto)
    moreover have "load32 m8 (?B + 48) = Some (of_nat ?B)" by (rule kept_load32 [OF kept_store32 [OF m8] m7(2)]) simp
    ultimately show ?thesis
      using y8 [of 12] y8 [of 20] y8 [of 60] w(3) load32_store32 [OF m8] m6(3) uB by (simp add: scanner_words_def)
  qed
  ultimately show thesis
    using that [of m8 "of_nat ?B" "of_nat (?B + 48)" "of_nat H"] run h8 str zero u uB m6(3) by simp
qed

end
