(* ===== verification/Compile_Setup.thy ===== *)
theory Compile_Setup
  imports Scanner_Input Finish_Program
begin

text \<open>
  What \<open>_pcap_compile\<close> does before it calls the parser: a pcap handle (\<open>open_dummy_at\<close>), the frame and the
  first chunk (\<open>clear_frame_at\<close>), the scanner (\<open>start_scanner_at\<close>) and the offsets of the link layer
  (\<open>set_link_type_at\<close>), here for the link types whose headers have a constant length.
\<close>

section \<open>The pcap handle\<close>

definition dummy_at :: "u32 \<Rightarrow> u32 \<Rightarrow> u32 \<Rightarrow> memory \<Rightarrow> bool" where
  "dummy_at v0 dlt snap m \<longleftrightarrow> load32 m (unat v0 + 76) = Some 1 \<and> load32 m (unat v0 + 60) = Some snap \<and>
     load32 m (unat v0 + 64) = Some dlt \<and> load32 m (unat v0 + 44) = Some 0"

lemma dummy_at_kept:
  assumes "dummy_at v0 dlt snap m" "kept A m m'" "span (unat v0) 512 \<inter> A = {}"
  shows "dummy_at v0 dlt snap m'"
proof -
  have "load32 m' (unat v0 + off) = Some v" if "load32 m (unat v0 + off) = Some v" "off + 4 \<le> 512" for off v
  proof (rule kept_load32 [OF assms(2) that(1)])
    have "span (unat v0 + off) 4 \<subseteq> span (unat v0) 512" using that(2) by simp
    with assms(3) show "span (unat v0 + off) 4 \<inter> A = {}" by blast
  qed
  with assms(1) show ?thesis by (simp add: dummy_at_def)
qed

lemma open_dummy_at:
  assumes h: "fresh_heap m H L" and room: "H + 512 \<le> 2 ^ 32"
  obtains m' where "pcap_open_dummy m dlt snap = Some (m', of_nat H)" "fresh_heap m' (H + 512) H" "unat (of_nat H :: u32) = H"
    "dummy_at (of_nat H) dlt snap m'" "kept (own_bytes \<union> span H 512) m m'" "length m \<le> length m'"
proof -
  have k: "unat (512 :: u32) = 512" "round_up 4 512 = 512" by (simp_all add: round_up_def)
  have hb: "127840 \<le> H" using fresh_heap_bounds [OF h] by simp
  obtain m1 where m1: "calloc m 1 512 = Some (of_nat H, m1)" "fresh_heap m1 (H + 512) H" "kept own_bytes m m1" "length m \<le> length m1"
    "unat (of_nat H :: u32) = H" and z: "\<And>n. n \<le> 512 \<Longrightarrow> words_at (\<lambda>_. 0) H n m1"
    by (rule fresh_alloc [OF h, of 512]) (use room k in auto)
  have w: "words_at (\<lambda>_. 0) (unat (of_nat H :: u32)) 512 m1" using z [of 512] m1(5) by simp
  have "words_in 512 (concat (map cell_words (dummy_cells dlt snap)))" by (simp add: dummy_cells_def)
  from store_cells_at [OF w this] fresh_heap_bounds(3) [OF m1(2)] m1(5) obtain m2 where m2: "store_cells m1 (of_nat H) (dummy_cells dlt snap) = Some m2"
    "words_at (with_words (concat (map cell_words (dummy_cells dlt snap))) (\<lambda>_. 0)) H 512 m2" "kept (span H 512) m1 m2"
    "length m2 = length m1" by auto
  have nz: "(of_nat H :: u32) \<noteq> 0" using m1(5) hb by auto
  have "pcap_open_dummy m dlt snap = Some (m2, of_nat H)" using m1(1) m2(1) nz by (simp add: pcap_open_dummy_def)
  moreover have "dummy_at (of_nat H) dlt snap m2"
    using words_at_load [OF m2(2), of 76] words_at_load [OF m2(2), of 60] words_at_load [OF m2(2), of 64] words_at_load [OF m2(2), of 44] m1(5)
    by (simp add: dummy_at_def dummy_cells_def)
  moreover have "fresh_heap m2 (H + 512) H" by (rule fresh_heap_kept [OF m1(2) m2(3,4)]) (use hb in auto)
  moreover have "kept (own_bytes \<union> span H 512) m m2" by (rule kept_trans [OF kept_mono [OF m1(3)] kept_mono [OF m2(3)]]) auto
  ultimately show thesis using that m1(4,5) m2(4) by simp
qed

section \<open>The frame and the first chunk\<close>

lemma clear_frame_at:
  assumes w: "words_at f (unat v5) 432 m" and v5: "unat v5 + 432 \<le> 125436" and h: "fresh_heap m H L" and room: "H + 1024 \<le> 2 ^ 32"
  obtains m' g where "do {
        m \<leftarrow> store_cells m v5 (clear_cells v0);
        m \<leftarrow> memory_zero m (unat (v5 + 300)) 132;
        (v6, m) \<leftarrow> calloc m 1 1024;
        m \<leftarrow> store32 m (unat v5 + 304) v6;
        Some (m, v6)
      } = Some (m', of_nat H)"
    "words_at g (unat v5) 432 m'" "\<And>off. off \<in> {64, 68, 108} \<Longrightarrow> g off = 0" "g 304 = of_nat H"
    "\<And>off. 308 \<le> off \<Longrightarrow> off < 432 \<Longrightarrow> g off = 0"
    "fresh_heap m' (H + 1024) H" "unat (of_nat H :: u32) = H" "kept (own_bytes \<union> span (unat v5) 432) m m'" "length m \<le> length m'"
    "\<forall>i. H \<le> i \<longrightarrow> i < length m' \<longrightarrow> m' ! i = 0"
proof -
  have k: "unat (1024 :: u32) = 1024" "round_up 4 1024 = 1024" by (simp_all add: round_up_def)
  have hb: "127840 \<le> H" "H \<le> length m" using fresh_heap_bounds [OF h] by simp_all
  let ?xs = "concat (map cell_words (clear_cells v0))"
  have "words_in 432 ?xs" by (simp add: clear_cells_def)
  from store_cells_at [OF w this] v5 hb obtain m1 where m1: "store_cells m v5 (clear_cells v0) = Some m1"
    "words_at (with_words ?xs f) (unat v5) 432 m1" "kept (span (unat v5) 432) m m1" "length m1 = length m" by auto
  have u: "unat (v5 + 300) = unat v5 + 300" using v5 by (intro unat_add_no_wrap [THEN trans]) simp_all
  from memory_zero_at [OF m1(2), of 300 132] v5 hb m1(4)
  obtain m2 where m2: "memory_zero m1 (unat v5 + 300) 132 = Some m2"
    "words_at (\<lambda>off. if 300 \<le> off \<and> off < 300 + 132 then 0 else with_words ?xs f off) (unat v5) 432 m2"
    "kept (span (unat v5 + 300) 132) m1 m2" "length m2 = length m1" by auto
  have h2: "fresh_heap m2 H L"
    by (rule fresh_heap_kept [OF fresh_heap_kept [OF h m1(3,4)] m2(3,4)]) (use hb v5 in auto)
  have l2: "length m2 = length m" using m1(4) m2(4) by simp
  obtain m3 where m3: "calloc m2 1 1024 = Some (of_nat H, m3)" "fresh_heap m3 (H + 1024) H" "kept own_bytes m2 m3"
    "length m2 \<le> length m3" "unat (of_nat H :: u32) = H" and z: "\<And>n. n \<le> 1024 \<Longrightarrow> words_at (\<lambda>_. 0) H n m3"
    and z3: "\<forall>i. H \<le> i \<longrightarrow> i < length m3 \<longrightarrow> m3 ! i = 0"
    by (rule fresh_alloc [OF h2, of 1024]) (use room l2 k in auto)
  let ?g = "(\<lambda>off. if 300 \<le> off \<and> off < 300 + 132 then 0 else with_words ?xs f off)(304 := of_nat H)"
  obtain m4 where m4: "store32 m3 (unat v5 + 304) (of_nat H) = Some m4" using store32_in [of "unat v5 + 304" m3] v5 hb l2 m3(4) by auto
  have "words_at (\<lambda>off. if 300 \<le> off \<and> off < 300 + 132 then 0 else with_words ?xs f off) (unat v5) 432 m3"
    by (rule words_at_kept [OF m2(2) m3(3)]) (use v5 in auto)
  then have w4: "words_at ?g (unat v5) 432 m4" by (rule words_at_store [OF _ m4]) simp
  have l4: "length m4 = length m3" by (rule length_store32 [OF m4])
  have h4: "fresh_heap m4 (H + 1024) H" by (rule fresh_heap_kept [OF m3(2) kept_store32 [OF m4] l4]) (use hb v5 in auto)
  have run: "do {
        m \<leftarrow> store_cells m v5 (clear_cells v0);
        m \<leftarrow> memory_zero m (unat (v5 + 300)) 132;
        (v6, m) \<leftarrow> calloc m 1 1024;
        m \<leftarrow> store32 m (unat v5 + 304) v6;
        Some (m, v6)
      } = Some (m4, of_nat H)" using m1(1) m2(1) m3(1) m4 u by simp
  have k: "kept (own_bytes \<union> span (unat v5) 432) m m4"
    by (rule kept_trans [OF kept_mono [OF m1(3)] kept_trans [OF kept_mono [OF m2(3)] kept_trans [OF kept_mono [OF m3(3)] kept_mono [OF kept_store32 [OF m4]]]]]) auto
  have z4: "\<forall>i. H \<le> i \<longrightarrow> i < length m4 \<longrightarrow> m4 ! i = 0"
  proof (intro allI impI)
    fix i assume "H \<le> i" "i < length m4"
    with z3 kept_store32 [OF m4] l4 v5 hb show "m4 ! i = 0" by (simp add: kept_def)
  qed
  show thesis
    by (rule that [OF run w4 _ _ _ h4 m3(5) k _ z4]) (use l2 m3(4) l4 in \<open>auto simp: clear_cells_def\<close>)
qed

section \<open>The scanner\<close>

lemma start_scanner_at:
  assumes w: "words_at g (unat v5) 432 m" and v5: "unat v5 + 432 \<le> 125436" and h: "fresh_heap m H L"
    and d: "dummy_at v0 dlt snap m" "127840 \<le> unat v0" "unat v0 + 512 \<le> H" "snap \<noteq> 0" and v6: "v6 \<noteq> 0"
    and s: "cstr_at m (unat v2) s" "127840 \<le> unat v2" "unat v2 + length s < H" "length s + 2 < 2 ^ 31"
    and room: "H + round_up 4 (length s + 2) + 160 \<le> 2 ^ 32"
  obtains m' tx buf stk yy where "start_scanner vsnprintf snprintf fprintf m v5 v0 v2 v4 v6 = Ret (m', Inr buf)"
    "words_at (g(88 := v4, 300 := 1024, 72 := snap, 48 := yy)) (unat v5) 432 m'"
    "fresh_heap m' (unat stk + 16) (unat stk)" "unat yy = H" "unat tx = H + 96" "unat buf = H + 96 + round_up 4 (length s + 2)"
    "unat stk = unat buf + 48" "\<forall>x \<in> scanner_words yy stk buf tx. load32 m' (fst x) = Some (snd x)" "cstr_at m' (unat tx) s"
    "kept (own_bytes \<union> span (unat v5) 432 \<union> {H..}) m m'" "length m \<le> length m'"
proof -
  have k: "unat (96 :: u32) = 96" "round_up 4 96 = 96" by (simp_all add: round_up_def)
  have hb: "127840 \<le> H" "H \<le> length m" "length m \<le> 2 ^ 32" using fresh_heap_bounds [OF h] by simp_all
  have "words_in 432 (concat (map cell_words [Word 88 v4, Word 300 1024]))" by simp
  from store_cells_at [OF w this] v5 hb obtain m1 where m1: "store_cells m v5 [Word 88 v4, Word 300 1024] = Some m1"
    "words_at (with_words (concat (map cell_words [Word 88 v4, Word 300 1024])) g) (unat v5) 432 m1"
    "kept (span (unat v5) 432) m m1" "length m1 = length m" by auto
  have w1: "words_at (g(88 := v4, 300 := 1024)) (unat v5) 432 m1" using m1(2) by simp
  have d1: "dummy_at v0 dlt snap m1" by (rule dummy_at_kept [OF d(1) m1(3)]) (use d v5 in auto)
  have sn: "pcap_snapshot m1 v0 = Some snap" using d1 by (simp add: pcap_snapshot_def dummy_at_def)
  obtain m2 where m2: "store32 m1 (unat v5 + 72) snap = Some m2" using store32_in [of "unat v5 + 72" m1] v5 hb m1(4) by auto
  have w2: "words_at (g(88 := v4, 300 := 1024, 72 := snap)) (unat v5) 432 m2" by (rule words_at_store [OF w1 m2]) simp
  have l2: "length m2 = length m" using length_store32 [OF m2] m1(4) by simp
  have h2: "fresh_heap m2 H L"
    by (rule fresh_heap_kept [OF fresh_heap_kept [OF h m1(3,4)] kept_store32 [OF m2] length_store32 [OF m2]]) (use hb v5 in auto)
  obtain m3 where m3: "xmalloc m2 96 = Some (of_nat H, m3)" "fresh_heap m3 (H + 96) H" "kept own_bytes m2 m3" "length m2 \<le> length m3"
    "unat (of_nat H :: u32) = H" and z: "\<And>n. n \<le> 96 \<Longrightarrow> words_at (\<lambda>_. 0) H n m3"
    by (rule fresh_alloc [OF h2, of 96]) (use room l2 k in auto)
  let ?yy = "of_nat H :: u32" and ?g = "g(88 := v4, 300 := 1024, 72 := snap, 48 := of_nat H)"
  have nz: "?yy \<noteq> 0" using m3(5) hb by auto
  have v2: "v2 \<noteq> 0" using s(2) by auto
  have u48: "unat (v5 + 48) = unat v5 + 48" using v5 by (intro unat_add_no_wrap [THEN trans]) simp_all
  have n48: "v5 + 48 \<noteq> 0" using u48 by auto
  obtain m4 where m4: "store32 m3 (unat v5 + 48) ?yy = Some m4" using store32_in [of "unat v5 + 48" m3] v5 hb l2 m3(4) by auto
  have w4: "words_at ?g (unat v5) 432 m4"
    by (rule words_at_store [OF words_at_kept [OF w2 m3(3)] m4]) (use v5 in auto)
  have l4: "length m4 = length m3" by (rule length_store32 [OF m4])
  have h4: "fresh_heap m4 (H + 96) H" by (rule fresh_heap_kept [OF m3(2) kept_store32 [OF m4] l4]) (use hb v5 in auto)
  have z4: "words_at (\<lambda>_. 0) H 96 m4" by (rule words_at_kept [OF z kept_store32 [OF m4]]) (use hb v5 in auto)
  from memory_zero_at [OF z4, of 0 96] fresh_heap_bounds(3) [OF h4]
  obtain m5 where m5: "memory_zero m4 H 96 = Some m5" "words_at (\<lambda>off. if 0 \<le> off \<and> off < 0 + 96 then 0 else 0) H 96 m5"
    "kept (span H 96) m4 m5" "length m5 = length m4" by auto
  have lex: "pcap_lex_init m2 (v5 + 48) = Some (m5, 0)"
    using m3(1,5) m4 m5(1) nz n48 u48 by (simp add: pcap_lex_init_def)
  have w5: "words_at ?g (unat v5) 432 m5" by (rule words_at_kept [OF w4 m5(3)]) (use hb v5 in auto)
  have h5: "fresh_heap m5 (H + 96) H" by (rule fresh_heap_kept [OF h4 m5(3,4)]) (use hb in auto)
  have ld5: "load32 m5 (unat v5 + 48) = Some ?yy" using words_at_load [OF w5, of 48] by simp
  have k5: "kept (own_bytes \<union> span (unat v5) 432 \<union> span H 96) m m5"
    by (rule kept_trans [OF kept_mono [OF m1(3)] kept_trans [OF kept_mono [OF kept_store32 [OF m2]] kept_trans [OF kept_mono [OF m3(3)]
      kept_trans [OF kept_mono [OF kept_store32 [OF m4]] kept_mono [OF m5(3)]]]]]) auto
  have s5: "cstr_at m5 (unat v2) s" by (rule cstr_at_reach [OF s(1) k5]) (use s v5 in \<open>auto simp: own_bytes_def\<close>)
  obtain m6 tx buf stk where m6: "scan_string fprintf v5 m5 v2 ?yy = Ret (m6, buf)" "fresh_heap m6 (unat stk + 16) (unat stk)"
    "unat tx = H + 96" "unat buf = H + 96 + round_up 4 (length s + 2)" "unat stk = unat buf + 48"
    "\<forall>x \<in> scanner_words ?yy stk buf tx. load32 m6 (fst x) = Some (snd x)" "cstr_at m6 (unat tx) s"
    "kept (own_bytes \<union> span (unat ?yy) 96 \<union> {H + 96..}) m5 m6" "length m5 \<le> length m6"
    by (rule scan_string_at [OF h5 _ s(4), of ?yy "\<lambda>_. 0" v2 fprintf v5])
      (use room l2 l4 m3(4,5) m5(2,4) s s5 hb in auto)
  have w6: "words_at ?g (unat v5) 432 m6" by (rule words_at_kept [OF w5 m6(8)]) (use hb v5 m3(5) in \<open>auto simp: own_bytes_def\<close>)
  have ld6: "load32 m6 (unat v5 + 48) = Some ?yy" using words_at_load [OF w6, of 48] by simp
  have len6: "H + 96 \<le> length m6" using fresh_heap_bounds(3) [OF m6(2)] m6(4,5) by simp
  obtain m7 where m7: "store32 m6 H (v5 + 52) = Some m7" using store32_in [of H m6] len6 by auto
  have l7: "length m7 = length m6" by (rule length_store32 [OF m7])
  have run: "start_scanner vsnprintf snprintf fprintf m v5 v0 v2 v4 v6 = Ret (m7, Inr buf)"
    using v6 m1(1) sn m2 d(4) lex ld5 m6(1) ld6 m7 m3(5) v2
    by (simp add: start_scanner_def pcap_set_extra_def)
  have w7: "words_at ?g (unat v5) 432 m7" by (rule words_at_kept [OF w6 kept_store32 [OF m7]]) (use hb v5 in auto)
  have h7: "fresh_heap m7 (unat stk + 16) (unat stk)"
    by (rule fresh_heap_kept [OF m6(2) kept_store32 [OF m7] l7]) (use hb m6(4,5) in auto)
  have sw: "\<forall>x \<in> scanner_words ?yy stk buf tx. load32 m7 (fst x) = Some (snd x)"
  proof
    fix x assume x: "x \<in> scanner_words ?yy stk buf tx"
    show "load32 m7 (fst x) = Some (snd x)"
      by (rule kept_load32 [OF kept_store32 [OF m7]]) (use x m6(4,5,6) m3(5) in \<open>auto simp: scanner_words_def\<close>)
  qed
  have s7: "cstr_at m7 (unat tx) s" by (rule cstr_at_reach [OF m6(7) kept_store32 [OF m7]]) (use m6(3) in simp)
  have k: "kept (own_bytes \<union> span (unat v5) 432 \<union> {H..}) m m7"
    by (rule kept_trans [OF kept_mono [OF k5] kept_trans [OF kept_mono [OF m6(8)] kept_mono [OF kept_store32 [OF m7]]]]) (use m3(5) in auto)
  have "length m \<le> length m7" using l2 m3(4) l4 m5(4) m6(9) l7 by simp
  from that [OF run w7 h7 m3(5) m6(3,4,5) sw s7 k this] show thesis .
qed

section \<open>The link layer\<close>

text \<open>
  The link types whose headers have a constant length: only the offsets of the payload and of the link-layer
  type are stored. \<open>link_offsets\<close> are the fields of the handle that the generator reads: the payload (100),
  the link-layer type (112), the network header from there (172) and with a SNAP header (176).
\<close>

definition constant_link :: "link_label \<Rightarrow> bool" where
  "constant_link l \<longleftrightarrow> set (map fst (concat (map cell_words (fst (link_setup l 0))))) \<subseteq> {152, 164}"

definition link_offsets :: "link_label \<Rightarrow> nat \<Rightarrow> u32" where
  "link_offsets l =
     (let (cells, v6, v2) = link_setup l 0; at = with_words (concat (map cell_words cells)) (\<lambda>_. 0)
      in (\<lambda>_. 0)(100 := at 152, 112 := at 164, 172 := v2, 176 := v6))"

lemma with_words_other: "a \<notin> set (map fst xs) \<Longrightarrow> with_words xs f a = f a"
  by (induction xs arbitrary: f) auto

lemma with_words_base: "f a = g a \<Longrightarrow> with_words xs f a = with_words xs g a"
proof (induction xs arbitrary: f g)
  case (Cons x xs)
  obtain b v where x: "x = (b, v)" by (cases x)
  have "(f(b := v)) a = (g(b := v)) a" using Cons.prems by simp
  from Cons.IH [where f = "f(b := v)" and g = "g(b := v)", OF this] show ?case unfolding x with_words.simps .
qed simp

lemma load64_words:
  assumes "load32 m a = Some (ucast v)" "load32 m (a + 4) = Some (ucast (drop_bit 32 (v :: u64)))"
  shows "load64 m a = Some v"
proof -
  have len: "a + 4 + 4 \<le> length m" by (rule load32_bound [OF assms(2)])
  have d: "take 4 (drop c m) = le_bytes32 w" if "load32 m c = Some w" "c + 4 \<le> length m" for c w
  proof -
    have "le_uint32 (take 4 (drop c m)) = Some w" using that by (simp add: load32_def get_bytes_in)
    from le_bytes32_uint32 [OF this] show ?thesis by simp
  qed
  have "take 8 (drop a m) = take 4 (drop a m) @ take 4 (drop (a + 4) m)"
    using take_add [of 4 4 "drop a m"] by (simp add: add.commute)
  also have "\<dots> = le_bytes64 v" using d [OF assms(1)] d [OF assms(2)] len by (simp add: le_bytes64_words)
  finally show ?thesis using len by (simp add: load64_def get_bytes_in le_uint64_bytes)
qed

lemma set_link_type_at:
  assumes w: "words_at g (unat v5) 432 m" and v5: "unat v5 + 432 \<le> length m"
    and d: "dummy_at v0 dlt snap m" "span (unat v0) 512 \<inter> span (unat v5) 432 = {}"
    and l: "link_label dlt = Some l" "constant_link l"
  obtains m' g' where "set_link_type vsnprintf m v5 v0 = Some (m', True)" "words_at g' (unat v5) 432 m'"
    "\<And>off. off \<in> {96, 112, 124, 148, 160, 176, 180} \<Longrightarrow> g' off = 0"
    "\<And>off. off \<in> {64, 76, 100, 112, 172, 176} \<Longrightarrow> g' (52 + off) = (if off = 64 \<or> off = 76 then 0 else link_offsets l off)"
    "g' 76 = dlt" "g' 80 = dlt" "g' 84 = dlt" "\<And>off. off \<in> {48, 68, 72, 88} \<or> 300 \<le> off \<Longrightarrow> g' off = g off"
    "kept (span (unat v5) 432) m m'" "length m' = length m"
proof -
  have "words_in 432 [(104, 0)]" by simp
  from put_words_at [OF w this v5] obtain m0 where m0: "put_words m (unat v5) [(104, 0)] = Some m0"
    "words_at (with_words [(104, 0)] g) (unat v5) 432 m0" "kept (span (unat v5) 432) m m0" "length m0 = length m" .
  let ?g0 = "with_words [(104, 0)] g"
  have s0: "store32 m (unat v5 + 104) 0 = Some m0" using m0(1) by (simp split: Option.bind_splits)
  have d0: "dummy_at v0 dlt snap m0" by (rule dummy_at_kept [OF d(1) m0(3)]) (use d(2) in blast)
  have v50: "unat v5 + 432 \<le> length m0" using v5 m0(4) by simp
  let ?xs = "concat (map cell_words (link_cells dlt))"
  obtain cells v6 v2 where lk: "link_setup l 0 = (cells, v6, v2)" by (metis prod_cases3)
  let ?ys = "concat (map cell_words cells)"
  have ys: "set (map fst ?ys) \<subseteq> {152, 164}" using l(2) lk by (simp add: constant_link_def)
  then have ysin: "words_in 432 ?ys" by (fastforce simp: words_in_def)
  have "words_in 432 ?xs" by (simp add: link_cells_def)
  from store_cells_at [OF m0(2) this v50] obtain m1 where m1: "store_cells m0 v5 (link_cells dlt) = Some m1"
    "words_at (with_words ?xs ?g0) (unat v5) 432 m1" "kept (span (unat v5) 432) m0 m1" "length m1 = length m0" by auto
  have v51: "unat v5 + 432 \<le> length m1" using v50 m1(4) by simp
  from store_cells_at [OF m1(2) ysin v51] obtain m2 where m2: "store_cells m1 v5 cells = Some m2"
    "words_at (with_words ?ys (with_words ?xs ?g0)) (unat v5) 432 m2" "kept (span (unat v5) 432) m1 m2" "length m2 = length m1" by auto
  let ?f = "with_words ?ys (with_words ?xs ?g0)"
  have f: "?f off = with_words ?xs ?g0 off" if "off \<notin> {152, 164}" for off by (rule with_words_other) (use ys that in blast)
  have bits: "(ucast (0 :: u64) :: u32) = 0" "(ucast (drop_bit 32 (0 :: u64)) :: u32) = 0" "(ucast (0xffffffff :: u64) :: u32) = - 1"
    "(ucast (drop_bit 32 (0xffffffff :: u64)) :: u32) = 0" "(ucast (drop_bit 32 (- 0x100000000 :: u64)) :: u32) = - 1"
    "(ucast (- 0x100000000 :: u64) :: u32) = 0"
    by code_simp+
  have zero: "?f off = 0" if "off \<in> {96, 100, 104, 112, 116, 124, 128, 148, 160, 176, 180}" for off
    using f [of off] that bits by (auto simp: link_cells_def)
  have f120: "?f 120 = - 1" using f [of 120] bits by (simp add: link_cells_def)
  have type: "?f 76 = dlt" "?f 80 = dlt" "?f 84 = dlt" using f [of 76] f [of 80] f [of 84] by (simp_all add: link_cells_def)
  have late: "?f off = g off" if "off \<in> {48, 68, 72, 88} \<or> 300 \<le> off" for off
    using f [of off] that by (auto simp: link_cells_def)
  have at: "?f off = with_words ?ys (\<lambda>_. 0) off" if "off \<in> {152, 164}" for off
    by (rule with_words_base) (use that bits in \<open>auto simp: link_cells_def\<close>)
  have ld: "load32 m2 (unat v5 + off) = Some (?f off)" if "4 dvd off" "off + 4 \<le> 432" for off
    by (rule words_at_load [OF m2(2) that])
  have "load64 m2 (unat v5 + 112) = Some 0"
    by (rule load64_words) (use ld [of 112] ld [of 116] zero [of 112] zero [of 116] bits in \<open>simp_all add: add.commute\<close>)
  note v9 = this
  have v52: "unat v5 + 432 \<le> length m2" using v51 m2(4) by simp
  let ?hs = "[(124, 0), (128, 0), (132, - 1)] :: (nat \<times> u32) list"
  have "words_in 432 ?hs" by simp
  from put_words_at [OF m2(2) this v52] obtain m3 where m3: "put_words m2 (unat v5) ?hs = Some m3"
    "words_at (with_words ?hs ?f) (unat v5) 432 m3" "kept (span (unat v5) 432) m2 m3" "length m3 = length m2" .
  have v9s: "store64 m2 (unat v5 + 124) 0 = (do { m \<leftarrow> store32 m2 (unat v5 + 124) 0; store32 m (unat v5 + 128) 0 })"
    using bits by (simp add: store64_words add.commute)
  obtain n1 where n1: "store32 m2 (unat v5 + 124) 0 = Some n1" "put_words n1 (unat v5) [(128, 0), (132, - 1)] = Some m3"
    using m3(1) by (auto split: Option.bind_splits)
  then obtain n2 where n2: "store32 n1 (unat v5 + 128) 0 = Some n2" "store32 n2 (unat v5 + 132) (- 1) = Some m3"
    by (auto split: Option.bind_splits)
  have k2: "kept {unat v5 + 124 ..< unat v5 + 132} m2 n2"
    by (rule kept_trans [OF kept_mono [OF kept_store32 [OF n1(1)]] kept_mono [OF kept_store32 [OF n2(1)]]]) auto
  have v8: "load32 n2 (unat v5 + 120) = Some (- 1)" by (rule kept_load32 [OF k2]) (use ld [of 120] f120 in auto)
  let ?zs = "concat (map cell_words [Double 136 0, Word 144 (- 1), Word 228 v6, Word 224 v2])"
  have "words_in 432 ?zs" "unat v5 + 432 \<le> length m3" using v52 m3(4) by simp_all
  from store_cells_at [OF m3(2) this] obtain m4 where m4: "store_cells m3 v5 [Double 136 0, Word 144 (- 1), Word 228 v6, Word 224 v2] = Some m4"
    "words_at (with_words ?zs (with_words ?hs ?f)) (unat v5) 432 m4" "kept (span (unat v5) 432) m3 m4" "length m4 = length m3" .
  let ?g = "with_words ?zs (with_words ?hs ?f)"
  have copy: "copy_link_header m2 v5 v6 v2 = Some m4" unfolding copy_link_header_def using v9 v9s n1(1) n2 v8 m4(1) by simp
  have t17: "load32 m1 (unat v5 + 104) = Some 0"
    using words_at_load [OF m1(2), of 104] bits by (simp add: link_cells_def)
  have run: "set_link_type vsnprintf m v5 v0 = Some (m4, True)"
    using d(1) s0 d0 m1(1) l(1) t17 lk m2(1) copy by (simp add: set_link_type_def pcap_datalink_def dummy_at_def)
  have k: "kept (span (unat v5) 432) m m4"
    by (rule kept_trans [OF m0(3) kept_trans [OF m1(3) kept_trans [OF m2(3) kept_trans [OF m3(3) m4(3)]]]])
  have len: "length m4 = length m" using m0(4) m1(4) m2(4) m3(4) m4(4) by simp
  have o: "?g (52 + off) = (if off = 64 \<or> off = 76 then 0 else link_offsets l off)" if "off \<in> {64, 76, 100, 112, 172, 176}" for off
    using that zero [of 128] zero [of 116] at [of 152] at [of 164] bits lk
    by (elim insertE emptyE) (simp_all add: link_offsets_def Let_def)
  have g0: "?g off = ?f off" if "off \<notin> {124, 128, 132, 136, 140, 144, 224, 228}" for off
    using that bits by simp
  have z: "?g off = 0" if off: "off \<in> {96, 112, 124, 148, 160, 176, 180}" for off
  proof (cases "off = 124")
    case False
    with off g0 [of off] zero [of off] show ?thesis by auto
  qed (use bits in simp)
  have t: "?g 76 = dlt" "?g 80 = dlt" "?g 84 = dlt" using g0 [of 76] g0 [of 80] g0 [of 84] type by simp_all
  have la: "?g off = g off" if off: "off \<in> {48, 68, 72, 88} \<or> 300 \<le> off" for off
  proof -
    have "off \<notin> {124, 128, 132, 136, 140, 144, 224, 228}" using off by auto
    from g0 [OF this] late [OF off] show ?thesis by (rule trans)
  qed
  show thesis by (rule that [OF run m4(2) z o t la k len])
qed

end
