(* ===== verification/Codegen_Primitives.thy ===== *)
theory Codegen_Primitives
  imports Codegen_Expr
begin

text \<open>
  The functions of the code generator that test one field of a protocol header (\<open>internal/bpf.go\<close>):
  \<open>_gen_ip_proto\<close>, \<open>_gen_portatom\<close>, \<open>_gen_bcmp\<close> and their like. The C compiler inlined the loads, the
  comparisons and the connectives into them, with the code of \<open>_gen_load_absoffsetrel\<close>, \<open>_gen_cmp\<close>,
  \<open>_gen_and\<close>, \<open>_gen_or\<close> and \<open>_gen_not\<close>; the definitions here name these pieces once (\<open>rel_load\<close>,
  \<open>test_block\<close>, \<open>joined\<close>, \<open>inverted\<close>). \<open>v0\<close> is the handle of the compiler, \<open>sp\<close> the stack pointer of the
  caller.
\<close>

section \<open>Pieces\<close>

text \<open>Words of an error message are stored at \<open>a\<close>, and the compilation ends with it.\<close>

definition gen_error ::
  "formatter \<Rightarrow> formatter \<Rightarrow> u32 \<Rightarrow> memory \<Rightarrow> u32 \<Rightarrow> u32 \<Rightarrow> u32 \<Rightarrow> (nat \<times> u32) list \<Rightarrow> 'a jump" where
  "gen_error vs sn sp m v0 fmt a xs = jump_bind (lift (put_words m (unat a) xs)) (\<lambda>m. bpf_error vs sn sp m v0 fmt a)"

text \<open>The sum of words of the handle and a constant.\<close>

fun place :: "u32 \<Rightarrow> nat list \<Rightarrow> u32 \<Rightarrow> memory \<Rightarrow> u32 option" where
  "place v0 [] k m = Some k"
| "place v0 (off # offs) k m = do { t \<leftarrow> load32 m (unat v0 + off); s \<leftarrow> place v0 offs k m; Some (t + s) }"

text \<open>
  A load of size \<open>sz\<close> at the offset \<open>k\<close>, after the statements \<open>v5\<close> that compute a variable offset, if
  there are any.
\<close>

definition rel_load ::
  "formatter \<Rightarrow> formatter \<Rightarrow> u32 \<Rightarrow> memory \<Rightarrow> u32 \<Rightarrow> u32 \<Rightarrow> u32 \<Rightarrow> u32 \<Rightarrow> (memory \<times> u32) jump" where
  "rel_load vs sn sp m v0 v5 k sz =
     jump_bind (newchunk vs sn sp m v0 20)
       (\<lambda>(m, v3). lift (
          if v5 \<noteq> 0 then do {
            m \<leftarrow> store32 m (unat v3 + 12) k;
            m \<leftarrow> store32 m (unat v3) (sz OR 64);
            m \<leftarrow> sappend m v5 v3;
            Some (m, v5)
          }
          else do {
            m \<leftarrow> store32 m (unat v3 + 12) k;
            m \<leftarrow> store32 m (unat v3) (sz OR 32);
            Some (m, v3)
          }))"

definition field_load ::
  "formatter \<Rightarrow> formatter \<Rightarrow> u32 \<Rightarrow> memory \<Rightarrow> u32 \<Rightarrow> u32 \<Rightarrow> nat list \<Rightarrow> u32 \<Rightarrow> u32 \<Rightarrow> (memory \<times> u32) jump" where
  "field_load vs sn sp m v0 part offs c sz =
     jump_bind (gen_abs_offset_varpart vs sn sp m v0 (v0 + part))
       (\<lambda>(m, v5). jump_bind (lift (place v0 offs c m)) (\<lambda>k. rel_load vs sn sp m v0 v5 k sz))"

text \<open>A block with the statements \<open>v5\<close>, the jump \<open>code\<close> and the value \<open>k\<close>.\<close>

definition test_block ::
  "formatter \<Rightarrow> formatter \<Rightarrow> u32 \<Rightarrow> memory \<Rightarrow> u32 \<Rightarrow> u32 \<Rightarrow> u32 \<Rightarrow> u32 \<Rightarrow> (memory \<times> u32) jump" where
  "test_block vs sn sp m v0 code k v5 =
     jump_bind (newchunk vs sn sp m v0 212)
       (\<lambda>(m, v1). lift (do {
          m \<leftarrow> store32 m (unat v1 + 8) code;
          m \<leftarrow> store32 m (unat v1 + 20) k;
          m \<leftarrow> store32 m (unat v1 + 4) v5;
          m \<leftarrow> store32 m (unat v1 + 96) v1;
          Some (m, v1)
        }))"

text \<open>A field of a header compared with \<open>v\<close>, and under a mask.\<close>

definition field_test ::
  "formatter \<Rightarrow> formatter \<Rightarrow> u32 \<Rightarrow> memory \<Rightarrow> u32 \<Rightarrow> u32 \<Rightarrow> nat list \<Rightarrow> u32 \<Rightarrow> u32 \<Rightarrow> u32 \<Rightarrow> u32 \<Rightarrow>
    (memory \<times> u32) jump" where
  "field_test vs sn sp m v0 part offs c sz code v =
     jump_bind (field_load vs sn sp m v0 part offs c sz) (\<lambda>(m, v5). test_block vs sn sp m v0 code v v5)"

definition masked_test ::
  "formatter \<Rightarrow> formatter \<Rightarrow> u32 \<Rightarrow> memory \<Rightarrow> u32 \<Rightarrow> u32 \<Rightarrow> nat list \<Rightarrow> u32 \<Rightarrow> u32 \<Rightarrow> u32 \<Rightarrow> u32 \<Rightarrow> u32 \<Rightarrow>
    (memory \<times> u32) jump" where
  "masked_test vs sn sp m v0 part offs c sz msk code v =
     jump_bind (field_load vs sn sp m v0 part offs c sz)
       (\<lambda>(m, v5). jump_bind (append_stmt vs sn sp v0 v5 m 84 msk) (\<lambda>m. test_block vs sn sp m v0 code v v5))"

section \<open>The Internet protocols\<close>

definition gen_ip_proto :: "formatter \<Rightarrow> formatter \<Rightarrow> u32 \<Rightarrow> memory \<Rightarrow> u32 \<Rightarrow> u32 \<Rightarrow> (memory \<times> u32) jump" where
  "gen_ip_proto vs sn sp m v0 v1 = field_test vs sn sp m v0 96 [100, 172] 9 16 21 v1"

definition gen_ip6_proto :: "formatter \<Rightarrow> formatter \<Rightarrow> u32 \<Rightarrow> memory \<Rightarrow> u32 \<Rightarrow> u32 \<Rightarrow> (memory \<times> u32) jump" where
  "gen_ip6_proto vs sn sp m v0 v1 = field_test vs sn sp m v0 96 [100, 172] 6 16 21 v1"

text \<open>Not a later fragment: the offset of the fragment is 0.\<close>

definition gen_ipfrag :: "formatter \<Rightarrow> formatter \<Rightarrow> u32 \<Rightarrow> memory \<Rightarrow> u32 \<Rightarrow> (memory \<times> u32) jump" where
  "gen_ipfrag vs sn sp m v0 = inverted (\<lambda>m. field_test vs sn sp m v0 96 [100, 172] 6 8 69 8191) m"

text \<open>A half word at \<open>v1\<close> after the header of an IPv4 packet, which has a length of its own.\<close>

definition transport_test ::
  "formatter \<Rightarrow> formatter \<Rightarrow> u32 \<Rightarrow> memory \<Rightarrow> u32 \<Rightarrow> u32 \<Rightarrow> u32 \<Rightarrow> u32 \<Rightarrow> (memory \<times> u32) jump" where
  "transport_test vs sn sp m v0 v1 code v2 =
     jump_bind (gen_loadx_iphdrlen vs sn sp m v0)
       (\<lambda>(m, v5). jump_bind (lift (place v0 [172, 100] v1 m))
         (\<lambda>k. jump_bind (append_stmt vs sn sp v0 v5 m 72 k) (\<lambda>m. test_block vs sn sp m v0 code v2 v5)))"

definition gen_portatom :: "formatter \<Rightarrow> formatter \<Rightarrow> u32 \<Rightarrow> memory \<Rightarrow> u32 \<Rightarrow> u32 \<Rightarrow> u32 \<Rightarrow> (memory \<times> u32) jump" where
  "gen_portatom vs sn sp m v0 v1 v2 = transport_test vs sn sp m v0 v1 21 v2"

definition gen_portatom6 :: "formatter \<Rightarrow> formatter \<Rightarrow> u32 \<Rightarrow> memory \<Rightarrow> u32 \<Rightarrow> u32 \<Rightarrow> u32 \<Rightarrow> (memory \<times> u32) jump" where
  "gen_portatom6 vs sn sp m v0 v1 v2 = field_test vs sn sp m v0 96 [172, 100] (v1 + 40) 8 21 v2"

definition gen_portrangeatom ::
  "formatter \<Rightarrow> formatter \<Rightarrow> u32 \<Rightarrow> memory \<Rightarrow> u32 \<Rightarrow> u32 \<Rightarrow> u32 \<Rightarrow> u32 \<Rightarrow> (memory \<times> u32) jump" where
  "gen_portrangeatom vs sn sp m v0 v1 v2 v3 =
     (if v2 = v3 then gen_portatom vs sn sp m v0 v1 v2
      else joined gen_and
        (\<lambda>m. transport_test vs sn sp m v0 v1 53 (if v2 < v3 then v2 else v3))
        (inverted (\<lambda>m. transport_test vs sn sp m v0 v1 37 (if v2 > v3 then v2 else v3))) m)"

definition gen_portrangeatom6 ::
  "formatter \<Rightarrow> formatter \<Rightarrow> u32 \<Rightarrow> memory \<Rightarrow> u32 \<Rightarrow> u32 \<Rightarrow> u32 \<Rightarrow> u32 \<Rightarrow> (memory \<times> u32) jump" where
  "gen_portrangeatom6 vs sn sp m v0 v1 v2 v3 =
     (if v2 = v3 then gen_portatom6 vs sn sp m v0 v1 v2
      else joined gen_and
        (\<lambda>m. field_test vs sn sp m v0 96 [172, 100] (v1 OR 40) 8 53 (if v2 < v3 then v2 else v3))
        (inverted (\<lambda>m. field_test vs sn sp m v0 96 [172, 100] (v1 OR 40) 8 37 (if v2 > v3 then v2 else v3))) m)"

text \<open>The version of IP in the first byte at the offset \<open>v1\<close>.\<close>

definition gen_ip_version :: "formatter \<Rightarrow> formatter \<Rightarrow> u32 \<Rightarrow> memory \<Rightarrow> u32 \<Rightarrow> u32 \<Rightarrow> u32 \<Rightarrow> (memory \<times> u32) jump" where
  "gen_ip_version vs sn sp m v0 v1 v2 =
     (let v3 = sp - 16
      in if v2 \<noteq> 5 then
           jump_bind (gen_load_a vs sn v3 m v0 v1 0 16)
             (\<lambda>(m, v5). jump_bind (append_stmt vs sn v3 v0 v5 m 84 240) (\<lambda>m. test_block vs sn v3 m v0 21 (push_bit 4 v2) v5))
         else gen_error vs sn v3 m v0 70807 v3 [(8, v2), (4, 67544), (0, 68434)])"

section \<open>Headers of the link layer\<close>

definition gen_just_after_mpls_stack :: "formatter \<Rightarrow> formatter \<Rightarrow> u32 \<Rightarrow> memory \<Rightarrow> u32 \<Rightarrow> (memory \<times> u32) jump" where
  "gen_just_after_mpls_stack vs sn sp m v0 = field_test vs sn sp m v0 96 [100, 172] (- 2) 16 69 1"

definition gen_frelay_nlpid :: "formatter \<Rightarrow> formatter \<Rightarrow> u32 \<Rightarrow> memory \<Rightarrow> u32 \<Rightarrow> u32 \<Rightarrow> (memory \<times> u32) jump" where
  "gen_frelay_nlpid vs sn sp m v0 v1 = field_test vs sn sp m v0 60 [64] 2 8 21 (v1 OR 768)"

definition gen_atm_prototype :: "formatter \<Rightarrow> formatter \<Rightarrow> u32 \<Rightarrow> memory \<Rightarrow> u32 \<Rightarrow> u32 \<Rightarrow> (memory \<times> u32) jump" where
  "gen_atm_prototype vs sn sp m v0 v1 =
     jump_bind (lift (load32 m (unat v0 + 140)))
       (\<lambda>t0. masked_test vs sn sp m v0 60 [64] t0 16 15 21 v1)"

text \<open>
  What must hold of the header before this one, after \<open>geneve\<close> or \<open>vxlan\<close> and on SunATM; there is no such
  test (the result is 0) for the other link layers.
\<close>

definition scratch_stmt :: "formatter \<Rightarrow> formatter \<Rightarrow> u32 \<Rightarrow> memory \<Rightarrow> u32 \<Rightarrow> u32 \<Rightarrow> u32 \<Rightarrow> u32 \<Rightarrow> (memory \<times> u32) jump" where
  "scratch_stmt vs sn sp m v0 v1 code a =
     (let fail = (\<lambda>m. gen_error vs sn sp m v0 70807 a [(8, v1), (4, 68063), (0, 69750)])
      in if v1 > 15 then fail m
         else jump_bind (lift (load32 m (unat (v0 + 180 + push_bit 2 v1))))
           (\<lambda>t3. if t3 = 0 then fail m else new_stmt vs sn sp m v0 code v1))"

definition gen_encap_check :: "formatter \<Rightarrow> formatter \<Rightarrow> u32 \<Rightarrow> memory \<Rightarrow> u32 \<Rightarrow> (memory \<times> u32) jump" where
  "gen_encap_check vs sn v4 m v0 =
     jump_bind (lift (load32 m (unat v0 + 68)))
       (\<lambda>v1. jump_bind (scratch_stmt vs sn v4 m v0 v1 96 v4)
         (\<lambda>(m, v2). jump_bind (lift (load32 m (unat v0 + 104)))
           (\<lambda>v1. jump_bind (scratch_stmt vs sn v4 m v0 v1 97 (v4 + 16))
             (\<lambda>(m, v5). jump_bind (lift (sappend m v2 v5))
               (\<lambda>m. jump_bind (newchunk vs sn v4 m v0 212)
                 (\<lambda>(m, v1). lift (do {
                    m \<leftarrow> store32 m (unat v1 + 8) 29;
                    m \<leftarrow> store32 m (unat v1 + 4) v2;
                    m \<leftarrow> store32 m (unat v1 + 96) v1;
                    gen_not m v1
                  })))))))"

definition gen_prevlinkhdr_check :: "formatter \<Rightarrow> formatter \<Rightarrow> u32 \<Rightarrow> memory \<Rightarrow> u32 \<Rightarrow> (memory \<times> u32) jump" where
  "gen_prevlinkhdr_check vs sn sp m v0 =
     (let v4 = sp - 32
      in jump_bind (lift (load32 m (unat v0 + 124)))
        (\<lambda>t1. if t1 \<noteq> 0 then gen_encap_check vs sn v4 m v0
          else jump_bind (lift (load32 m (unat v0 + 28)))
            (\<lambda>t14. if t14 \<noteq> 123 then Ret (m, 0)
              else inverted (\<lambda>m. field_test vs sn v4 m v0 72 [76] 4 8 21 0xff00) m)))"

section \<open>Bytes\<close>

text \<open>
  \<open>_gen_bcmp\<close>: the \<open>v3\<close> bytes at \<open>v2\<close> after the header \<open>v1\<close> are those at \<open>v4\<close> in the memory of the module. It
  compares words from the end, then a half word and a byte; \<open>v8\<close> is the code so far, or 0.
\<close>

definition bcmp_test ::
  "formatter \<Rightarrow> formatter \<Rightarrow> u32 \<Rightarrow> u32 \<Rightarrow> u32 \<Rightarrow> u32 \<Rightarrow> u32 \<Rightarrow> u32 option \<Rightarrow> u32 \<Rightarrow> memory \<Rightarrow> (memory \<times> u32) jump" where
  "bcmp_test vs sn sp v0 v1 off sz k v8 m =
     jump_bind (lift k)
       (\<lambda>k. jump_bind (gen_load_a vs sn sp m v0 v1 off sz)
         (\<lambda>(m, v13). jump_bind (test_block vs sn sp m v0 21 k v13)
           (\<lambda>(m, v6). lift (if v8 = 0 then Some (m, v6) else gen_and m v8 v6))))"

definition bcmp_word :: "memory \<Rightarrow> u32 \<Rightarrow> u32 option" where
  "bcmp_word m v5 =
     do {
       v7 \<leftarrow> load8 m (unat v5 + 3);
       v9 \<leftarrow> load8 m (unat v5 + 2);
       v12 \<leftarrow> load8 m (unat v5 + 1);
       v5 \<leftarrow> load8 m (unat v5);
       Some (push_bit 16 v12 OR push_bit 24 v5 OR push_bit 8 v9 OR v7)
     }"

definition bcmp_half :: "memory \<Rightarrow> u32 \<Rightarrow> u32 option" where
  "bcmp_half m v5 = do { v7 \<leftarrow> load8 m (unat v5 + 1); v5 \<leftarrow> load8 m (unat v5); Some (push_bit 8 v5 OR v7) }"

primrec bcmp_words ::
  "nat \<Rightarrow> formatter \<Rightarrow> formatter \<Rightarrow> u32 \<Rightarrow> u32 \<Rightarrow> u32 \<Rightarrow> u32 \<Rightarrow> u32 \<Rightarrow> u32 \<Rightarrow> u32 \<Rightarrow> memory \<Rightarrow> (memory \<times> u32) jump" where
  "bcmp_words 0 vs sn sp v0 v1 v2 v3 v4 v8 m = Ret (m, v8)"
| "bcmp_words (Suc n) vs sn sp v0 v1 v2 v3 v4 v8 m =
     jump_bind (bcmp_test vs sn sp v0 v1 (v2 + (v3 - 4)) 0 (bcmp_word m (v4 + (v3 - 4))) v8 m)
       (\<lambda>(m, v8). bcmp_words n vs sn sp v0 v1 v2 (v3 - 4) v4 v8 m)"

definition gen_bcmp ::
  "formatter \<Rightarrow> formatter \<Rightarrow> u32 \<Rightarrow> memory \<Rightarrow> u32 \<Rightarrow> u32 \<Rightarrow> u32 \<Rightarrow> u32 \<Rightarrow> u32 \<Rightarrow> (memory \<times> u32) jump" where
  "gen_bcmp vs sn sp m v0 v1 v2 v3 v4 =
     (let v10 = sp - 16; r = v3 AND 3
      in if v3 = 0 then gen_error vs sn v10 m v0 70807 v10 [(8, 0), (4, 69773), (0, 67904)]
         else jump_bind (bcmp_words (unat v3 div 4) vs sn v10 v0 v1 v2 v3 v4 0 m)
           (\<lambda>(m, v8). jump_bind
             (if r \<le> 1 then Ret (m, v8)
              else bcmp_test vs sn v10 v0 v1 (v2 + (r - 2)) 8 (bcmp_half m (v4 + (r - 2))) v8 m)
             (\<lambda>(m, v6). if r AND 1 = 0 then Ret (m, v6)
               else bcmp_test vs sn v10 v0 v1 v2 16 (load8 m (unat v4)) v6 m)))"

section \<open>Link layers that tell the network protocol by an address family\<close>

text \<open>
  The word before the packet is an address family of the system that captured it. A handle for offline use
  (bit 2 of its flags) accepts the numbers of all systems; otherwise those of the system of the compiler count,
  which is WASI here: 1 for IPv4 and 2 for IPv6.
\<close>

definition gen_bsd_af_linktype_offline ::
  "formatter \<Rightarrow> formatter \<Rightarrow> u32 \<Rightarrow> memory \<Rightarrow> u32 \<Rightarrow> u32 \<Rightarrow> u32 \<Rightarrow> u32 \<Rightarrow> u32 \<Rightarrow> (memory \<times> u32) jump" where
  "gen_bsd_af_linktype_offline vs sn sp m v0 v1 v2 v3 v4 =
     (let family = (\<lambda>k k' m. jump_bind (gen_abs_offset_varpart vs sn sp m v0 (v0 + 60))
            (\<lambda>(m, t0). jump_bind (lift (place v0 [64] v1 m))
              (\<lambda>t1. jump_bind (gen_load_absoffsetrel vs sn sp m v0 t0 t1 v2)
                (\<lambda>(m, v5). test_block vs sn sp m v0 21 (if v4 \<noteq> 0 then k' else k) v5))))
      in if v3 = 2048 then family 2 0x2000000 m
         else if v3 = 34525 then
           joined (swapped gen_or) (joined gen_or (family 24 0x18000000) (family 28 0x1c000000)) (family 30 0x1e000000) m
         else gen_false vs sn sp m v0)"

definition offline_handle :: "memory \<Rightarrow> u32 \<Rightarrow> bool option" where
  "offline_handle m v0 =
     do { t0 \<leftarrow> load32 m (unat v0 + 4); t1 \<leftarrow> load8 m (unat t0 + 128); Some (t1 AND 4 \<noteq> 0) }"

definition gen_loopback_linktype_live :: "formatter \<Rightarrow> formatter \<Rightarrow> u32 \<Rightarrow> memory \<Rightarrow> u32 \<Rightarrow> u32 \<Rightarrow> (memory \<times> u32) jump" where
  "gen_loopback_linktype_live vs sn sp m v0 v1 =
     (let v5 = sp - 16
      in jump_bind (lift (load32 m (unat v0 + 24)))
        (\<lambda>v2. if v2 = 108 then field_test vs sn v5 m v0 60 [64] 0 0 21 v1
          else if v2 = 109 \<or> v2 = 0 then field_test vs sn v5 m v0 60 [64] 0 0 21 (htonl v1)
          else gen_error vs sn v5 m v0 70807 v5 [(8, v2), (4, 70071), (0, 69822)]))"

definition gen_loopback_linktype :: "formatter \<Rightarrow> formatter \<Rightarrow> u32 \<Rightarrow> memory \<Rightarrow> u32 \<Rightarrow> u32 \<Rightarrow> (memory \<times> u32) jump" where
  "gen_loopback_linktype vs sn sp m v0 v1 =
     (let v4 = sp - 16;
          swap = (\<lambda>m. do { v2 \<leftarrow> load32 m (unat v0 + 4); load32 m (unat v2 + 36) })
      in jump_bind (lift (offline_handle m v0))
        (\<lambda>off. if \<not> off then
            if v1 = 34525 then gen_loopback_linktype_live vs sn v4 m v0 2
            else if v1 = 2048 then gen_loopback_linktype_live vs sn v4 m v0 1
            else gen_false vs sn v4 m v0
          else jump_bind (lift (load32 m (unat v0 + 24)))
            (\<lambda>v5. if v5 = 108 then gen_bsd_af_linktype_offline vs sn v4 m v0 0 0 v1 0
              else if v5 = 109 \<or> v5 = 0 then
                joined gen_or
                  (\<lambda>m. jump_bind (lift (swap m)) (\<lambda>t. gen_bsd_af_linktype_offline vs sn v4 m v0 0 0 v1 t))
                  (\<lambda>m. jump_bind (lift (swap m))
                    (\<lambda>t. gen_bsd_af_linktype_offline vs sn v4 m v0 0 0 v1 (if t = 0 then 1 else 0))) m
              else gen_error vs sn v4 m v0 70807 v4 [(8, v5), (4, 70071), (0, 70020)])))"

definition gen_pflog_linktype :: "formatter \<Rightarrow> formatter \<Rightarrow> u32 \<Rightarrow> memory \<Rightarrow> u32 \<Rightarrow> u32 \<Rightarrow> (memory \<times> u32) jump" where
  "gen_pflog_linktype vs sn sp m v0 v1 =
     jump_bind (lift (offline_handle m v0))
       (\<lambda>off. if off then gen_bsd_af_linktype_offline vs sn sp m v0 1 16 v1 0
         else if v1 = 2048 then field_test vs sn sp m v0 60 [64] 1 16 21 1
         else if v1 = 34525 then field_test vs sn sp m v0 60 [64] 1 16 21 2
         else gen_false vs sn sp m v0)"

definition gen_ipnet_linktype :: "formatter \<Rightarrow> formatter \<Rightarrow> u32 \<Rightarrow> memory \<Rightarrow> u32 \<Rightarrow> u32 \<Rightarrow> (memory \<times> u32) jump" where
  "gen_ipnet_linktype vs sn sp m v0 v1 =
     (if v1 = 2048 then field_test vs sn sp m v0 108 [112] 0 16 21 2
      else if v1 = 34525 then field_test vs sn sp m v0 108 [112] 0 16 21 26
      else gen_false vs sn sp m v0)"

end
