(* ===== verification/Codegen_Linktype.thy ===== *)
theory Codegen_Linktype
  imports Codegen_Primitives
begin

text \<open>
  \<open>_gen_linktype\<close> of \<open>internal/bpf.go\<close> and what it calls: the test that a packet is of a network protocol,
  for every kind of link layer. The protocol \<open>v1\<close> is an EtherType, an LLC SAP, or 34525 for IPv6; numbers of
  error messages are addresses in the data segment.
\<close>

section \<open>Names of link types\<close>

text \<open>The tables of names and descriptions are stubs in the repository.\<close>

definition pcap_datalink_val_to_name :: "u32 \<Rightarrow> u32" where
  "pcap_datalink_val_to_name v0 = 0"

definition pcap_datalink_val_to_description :: "u32 \<Rightarrow> u32" where
  "pcap_datalink_val_to_description v0 = 0"

definition description_or_dlt :: "formatter \<Rightarrow> u32 \<Rightarrow> memory \<Rightarrow> u32 \<Rightarrow> (memory \<times> u32) option" where
  "description_or_dlt sn sp m v0 =
     (let v1 = sp - 16
      in do {
        m \<leftarrow> store32 m (unat v1) v0;
        m \<leftarrow> sn v1 m 127536 16 70800 v1;
        Some (m, 127536)
      })"

definition datalink_val_to_string :: "formatter \<Rightarrow> u32 \<Rightarrow> memory \<Rightarrow> u32 \<Rightarrow> (memory \<times> u32) option" where
  "datalink_val_to_string sn sp m v0 =
     (let v1 = sp - 48; v3 = pcap_datalink_val_to_name v0; v2 = pcap_datalink_val_to_description v0
      in if v3 \<noteq> 0 then
           if v2 \<noteq> 0 then do {
             m \<leftarrow> put_words m (unat v1) [(36, v2), (32, v3)];
             m \<leftarrow> sn v1 m 125984 1024 71795 (v1 + 32);
             Some (m, 125984)
           }
           else do {
             m \<leftarrow> store32 m (unat v1 + 16) v3;
             m \<leftarrow> sn v1 m 125984 1024 67262 (v1 + 16);
             Some (m, 125984)
           }
         else if v2 \<noteq> 0 then do {
           m \<leftarrow> put_words m (unat v1) [(4, v2), (0, v0)];
           m \<leftarrow> sn v1 m 125984 1024 71807 v1;
           Some (m, 125984)
         }
         else description_or_dlt sn v1 m v0)"

section \<open>PPP, LLC and Linux cooked captures\<close>

text \<open>The number of a protocol in PPP; the words of the error go to \<open>a\<close>.\<close>

definition ppp_type :: "formatter \<Rightarrow> formatter \<Rightarrow> u32 \<Rightarrow> memory \<Rightarrow> u32 \<Rightarrow> u32 \<Rightarrow> u32 \<Rightarrow> u32 jump" where
  "ppp_type vs sn sp m v0 a v1 =
     (case map_of [(66, 49), (224, 43), (254, 35), (1536, 37), (2048, 33), (24579, 39), (32923, 41), (34525, 87)] v1 of
        Some p1 \<Rightarrow> Ret p1
      | None \<Rightarrow> if v1 \<ge> 65536 then gen_error vs sn sp m v0 65935 a [(8, 0xffff), (4, v1), (0, 68650)] else Ret v1)"

definition ethertype_to_ppptype :: "formatter \<Rightarrow> formatter \<Rightarrow> u32 \<Rightarrow> memory \<Rightarrow> u32 \<Rightarrow> u32 \<Rightarrow> u32 jump" where
  "ethertype_to_ppptype vs sn sp m v0 v1 =
     (let v2 = sp - 16 in jump_bind (ppp_type vs sn v2 m v0 v2 v1) (\<lambda>p1. Ret (p1 AND 0xffff)))"

text \<open>A SNAP header: the eight bytes \<open>c\<close>, stored at \<open>a\<close>, at the start of the payload.\<close>

definition snap_test :: "formatter \<Rightarrow> formatter \<Rightarrow> u32 \<Rightarrow> u32 \<Rightarrow> u32 \<Rightarrow> u64 \<Rightarrow> gen" where
  "snap_test vs sn sp v0 a c m = jump_bind (lift (store64 m (unat a) c)) (\<lambda>m. gen_bcmp vs sn sp m v0 3 0 8 a)"

definition twice :: "u32 \<Rightarrow> u32" where
  "twice v1 = push_bit 8 v1 OR v1"

definition gen_llc_linktype :: "formatter \<Rightarrow> formatter \<Rightarrow> u32 \<Rightarrow> memory \<Rightarrow> u32 \<Rightarrow> u32 \<Rightarrow> (memory \<times> u32) jump" where
  "gen_llc_linktype vs sn sp m v0 v1 =
     (let v5 = sp - 48
      in if v1 = 6 \<or> v1 = 240 \<or> v1 = 254 then field_test vs sn v5 m v0 96 [100] 0 8 21 (twice v1)
         else if v1 = 224 then field_test vs sn v5 m v0 96 [100] 0 16 21 224
         else if v1 = 32923 then snap_test vs sn v5 v0 (v5 + 40) (- 0x647ff8fff7fc5556) m
         else if v1 \<le> 1500 then
           if v1 \<ge> 256 then gen_error vs sn v5 m v0 65935 v5 [(8, 255), (4, v1), (0, 71294)]
           else field_test vs sn v5 m v0 96 [100] 0 16 21 v1
         else if v1 \<ge> 65536 then gen_error vs sn v5 m v0 65935 (v5 + 16) [(8, 0xffff), (4, v1), (0, 70156)]
         else field_test vs sn v5 m v0 96 [100] 6 8 21 v1)"

definition sll_type :: "formatter \<Rightarrow> formatter \<Rightarrow> u32 \<Rightarrow> u32 \<Rightarrow> u32 \<Rightarrow> gen" where
  "sll_type vs sn v7 v0 k m = field_test vs sn v7 m v0 108 [112] 0 8 21 k"

definition sll_ipx :: "formatter \<Rightarrow> formatter \<Rightarrow> u32 \<Rightarrow> u32 \<Rightarrow> gen" where
  "sll_ipx vs sn v7 v0 =
     joined (swapped gen_or)
       (joined (swapped gen_or)
         (joined (swapped gen_and)
           (joined gen_or (\<lambda>m. field_test vs sn v7 m v0 96 [100] 0 16 21 224) (snap_test vs sn v7 v0 (v7 + 40) 0x378100000003aaaa))
           (sll_type vs sn v7 v0 4))
         (sll_type vs sn v7 v0 1))
       (sll_type vs sn v7 v0 33079)"

definition sll_snap :: "formatter \<Rightarrow> formatter \<Rightarrow> u32 \<Rightarrow> u32 \<Rightarrow> u32 \<Rightarrow> gen" where
  "sll_snap vs sn v7 v0 v1 =
     joined (swapped gen_or)
       (joined gen_and (sll_type vs sn v7 v0 4)
         (snap_test vs sn v7 v0 (v7 + 40) (if v1 = 32923 then - 0x647ff8fff7fc5556 else - 0xc7ffffffffc5556)))
       (sll_type vs sn v7 v0 v1)"

definition sll_sap :: "formatter \<Rightarrow> formatter \<Rightarrow> u32 \<Rightarrow> u32 \<Rightarrow> u32 \<Rightarrow> gen" where
  "sll_sap vs sn v7 v0 v1 =
     joined gen_and (sll_type vs sn v7 v0 4)
       (\<lambda>m. jump_bind (lift (load32 m (unat v0 + 100))) (\<lambda>t179. field_test vs sn v7 m v0 60 [64] t179 16 21 v1))"

definition gen_linux_sll_linktype :: "formatter \<Rightarrow> formatter \<Rightarrow> u32 \<Rightarrow> memory \<Rightarrow> u32 \<Rightarrow> u32 \<Rightarrow> (memory \<times> u32) jump" where
  "gen_linux_sll_linktype vs sn sp m v0 v1 =
     (let v7 = sp - 48
      in if v1 = 6 \<or> v1 = 240 \<or> v1 = 254 then
           joined gen_and (sll_type vs sn v7 v0 4) (\<lambda>m. field_test vs sn v7 m v0 96 [100] 0 8 21 (twice v1)) m
         else if v1 = 224 then sll_ipx vs sn v7 v0 m
         else if v1 = 32923 \<or> v1 = 33011 then sll_snap vs sn v7 v0 v1 m
         else if v1 \<le> 1500 then
           if v1 \<ge> 256 then gen_error vs sn v7 m v0 65935 v7 [(8, 255), (4, v1), (0, 71294)] else sll_sap vs sn v7 v0 v1 m
         else if v1 \<ge> 65536 then gen_error vs sn v7 m v0 65935 (v7 + 16) [(8, 0xffff), (4, v1), (0, 70156)]
         else sll_type vs sn v7 v0 v1 m)"

section \<open>Ethernet\<close>

text \<open>A length or type field above 1500 is an EtherType; otherwise the frame starts with an LLC header.\<close>

definition is_llc :: "formatter \<Rightarrow> formatter \<Rightarrow> u32 \<Rightarrow> u32 \<Rightarrow> gen" where
  "is_llc vs sn sp v0 = inverted (\<lambda>m. field_test vs sn sp m v0 108 [112] 0 8 37 1500)"

definition ether_type :: "formatter \<Rightarrow> formatter \<Rightarrow> u32 \<Rightarrow> u32 \<Rightarrow> u32 \<Rightarrow> gen" where
  "ether_type vs sn v6 v0 k m = field_test vs sn v6 m v0 108 [112] 0 8 21 k"

definition ether_osi :: "formatter \<Rightarrow> formatter \<Rightarrow> u32 \<Rightarrow> u32 \<Rightarrow> u32 \<Rightarrow> gen" where
  "ether_osi vs sn v6 v0 v1 =
     joined gen_and (is_llc vs sn v6 v0) (\<lambda>m. field_test vs sn v6 m v0 96 [100] 0 8 21 (twice v1))"

definition ether_ipx :: "formatter \<Rightarrow> formatter \<Rightarrow> u32 \<Rightarrow> u32 \<Rightarrow> gen" where
  "ether_ipx vs sn v6 v0 =
     joined (swapped gen_or)
       (joined (swapped gen_and)
         (joined (swapped gen_or)
           (joined gen_or (\<lambda>m. field_test vs sn v6 m v0 96 [100] 0 16 21 224)
             (\<lambda>m. field_test vs sn v6 m v0 96 [100] 0 8 21 0xffff))
           (snap_test vs sn v6 v0 (v6 + 104) 0x378100000003aaaa))
         (is_llc vs sn v6 v0))
       (ether_type vs sn v6 v0 33079)"

definition ether_snap :: "formatter \<Rightarrow> formatter \<Rightarrow> u32 \<Rightarrow> u32 \<Rightarrow> u32 \<Rightarrow> gen" where
  "ether_snap vs sn v6 v0 v1 =
     joined (swapped gen_or)
       (joined gen_and (is_llc vs sn v6 v0)
         (snap_test vs sn v6 v0 (v6 + 104) (if v1 = 32923 then - 0x647ff8fff7fc5556 else - 0xc7ffffffffc5556)))
       (ether_type vs sn v6 v0 v1)"

definition ether_sap :: "formatter \<Rightarrow> formatter \<Rightarrow> u32 \<Rightarrow> u32 \<Rightarrow> u32 \<Rightarrow> gen" where
  "ether_sap vs sn v6 v0 v1 =
     joined gen_and (is_llc vs sn v6 v0) (\<lambda>m. field_test vs sn v6 m v0 108 [112] 2 16 21 v1)"

definition ether_linktype :: "formatter \<Rightarrow> formatter \<Rightarrow> u32 \<Rightarrow> u32 \<Rightarrow> u32 \<Rightarrow> gen" where
  "ether_linktype vs sn v6 v0 v1 m =
     (if v1 = 6 \<or> v1 = 240 \<or> v1 = 254 then ether_osi vs sn v6 v0 v1 m
      else if v1 = 224 then ether_ipx vs sn v6 v0 m
      else if v1 = 32923 \<or> v1 = 33011 then ether_snap vs sn v6 v0 v1 m
      else if v1 \<le> 1500 then
        if v1 \<ge> 256 then gen_error vs sn v6 m v0 65935 (v6 + 32) [(8, 255), (4, v1), (0, 71294)]
        else ether_sap vs sn v6 v0 v1 m
      else if v1 \<ge> 65536 then gen_error vs sn v6 m v0 65935 (v6 + 48) [(8, 0xffff), (4, v1), (0, 70156)]
      else ether_type vs sn v6 v0 v1 m)"

text \<open>Behind an encapsulation the test of the inner protocol comes after that of the header before it.\<close>

definition gen_ether_linktype :: "formatter \<Rightarrow> formatter \<Rightarrow> u32 \<Rightarrow> u32 \<Rightarrow> u32 \<Rightarrow> gen" where
  "gen_ether_linktype vs sn v6 v0 v1 m =
     jump_bind (lift (load32 m (unat v0 + 124)))
       (\<lambda>t47. jump_bind (if t47 = 0 then gen_prevlinkhdr_check vs sn v6 m v0 else Ret (m, 0))
         (\<lambda>(m, v8). jump_bind (ether_linktype vs sn v6 v0 v1 m)
           (\<lambda>(m, v2). if v8 = 0 then Ret (m, v2) else lift (gen_and m v8 v2))))"

section \<open>The other link layers\<close>

text \<open>Behind an MPLS label stack only IP can be told, by its version.\<close>

definition mpls_linktype :: "formatter \<Rightarrow> formatter \<Rightarrow> u32 \<Rightarrow> u32 \<Rightarrow> u32 \<Rightarrow> gen" where
  "mpls_linktype vs sn v6 v0 v1 m =
     (let below = (\<lambda>v. joined gen_and (\<lambda>m. gen_just_after_mpls_stack vs sn v6 m v0) (\<lambda>m. gen_ip_version vs sn v6 m v0 6 v))
      in if v1 = 2048 then below 4 m else if v1 = 34525 then below 6 m else bpf_error vs sn v6 m v0 67136 0)"

definition arcnet_linktype :: "formatter \<Rightarrow> formatter \<Rightarrow> u32 \<Rightarrow> u32 \<Rightarrow> u32 \<Rightarrow> gen" where
  "arcnet_linktype vs sn v6 v0 v1 m =
     (case map_of [(34525, 196), (2048, 212), (2054, 213), (32821, 214), (32923, 221)] v1 of
        Some k \<Rightarrow> gen_cmp vs sn v6 m v0 5 0 16 k
      | None \<Rightarrow> gen_false vs sn v6 m v0)"

definition frelay_linktype :: "formatter \<Rightarrow> formatter \<Rightarrow> u32 \<Rightarrow> u32 \<Rightarrow> u32 \<Rightarrow> gen" where
  "frelay_linktype vs sn v6 v0 v1 m =
     (let nlpid = (\<lambda>k m. gen_frelay_nlpid vs sn v6 m v0 k)
      in if v1 = 2048 then nlpid 204 m
         else if v1 = 34525 then nlpid 142 m
         else if v1 = 254 then joined gen_or (nlpid 129) (joined gen_or (nlpid 130) (nlpid 131)) m
         else gen_false vs sn v6 m v0)"

text \<open>\<open>v2\<close> is the link type.\<close>

definition other_linktype :: "formatter \<Rightarrow> formatter \<Rightarrow> u32 \<Rightarrow> u32 \<Rightarrow> u32 \<Rightarrow> u32 \<Rightarrow> gen" where
  "other_linktype vs sn v6 v0 v2 v1 m =
     (let l22 = (\<lambda>m. jump_bind (lift (do { (m, t356) \<leftarrow> datalink_val_to_string sn v6 m v2; store32 m (unat v6) t356 }))
            (\<lambda>m. bpf_error vs sn v6 m v0 67356 v6))
      in if v2 = 182 then l22 m
         else jump_bind (lift (load32 m (unat v0 + 112)))
           (\<lambda>t354. if t354 = - 1 then l22 m
             else if v1 \<ge> 65536 then gen_error vs sn v6 m v0 65935 (v6 + 16) [(8, 0xffff), (4, v1), (0, 70156)]
             else gen_cmp vs sn v6 m v0 5 0 8 v1))"

definition chdlc_linktype :: "formatter \<Rightarrow> formatter \<Rightarrow> u32 \<Rightarrow> u32 \<Rightarrow> u32 \<Rightarrow> gen" where
  "chdlc_linktype vs sn v6 v0 v1 m =
     (if v1 \<ge> 65536 then gen_error vs sn v6 m v0 65935 (v6 + 64) [(8, 0xffff), (4, v1), (0, 68716)]
      else gen_cmp vs sn v6 m v0 5 0 8 (if v1 = 254 then 65278 else v1))"

definition ppp_bsdos_linktype :: "formatter \<Rightarrow> formatter \<Rightarrow> u32 \<Rightarrow> u32 \<Rightarrow> u32 \<Rightarrow> gen" where
  "ppp_bsdos_linktype vs sn v6 v0 v1 m =
     (let typ = (\<lambda>k m. gen_cmp vs sn v6 m v0 5 0 8 k)
      in if v1 = 2048 then joined gen_or (joined gen_or (typ 33) (typ 45)) (typ 47) m
         else jump_bind (ethertype_to_ppptype vs sn v6 m v0 v1) (\<lambda>t327. typ t327 m))"

section \<open>All link layers\<close>

definition juniper_types :: "u32 list" where
  "juniper_types = [130, 131, 132, 133, 134, 135, 136, 137, 164, 167, 168, 178, 179, 180, 181, 183, 194, 200, 232, 233, 234, 238]"

definition gen_linktype :: "formatter \<Rightarrow> formatter \<Rightarrow> u32 \<Rightarrow> memory \<Rightarrow> u32 \<Rightarrow> u32 \<Rightarrow> (memory \<times> u32) jump" where
  "gen_linktype vs sn sp m v0 v1 =
     (let v6 = sp - 112
      in jump_bind (lift (load32 m (unat v0 + 44)))
        (\<lambda>t1. if t1 \<noteq> 0 then mpls_linktype vs sn v6 v0 v1 m
          else jump_bind (lift (load32 m (unat v0 + 24)))
            (\<lambda>v2. if v2 \<in> {1, 240, 241, 281, 284} then gen_ether_linktype vs sn v6 v0 v1 m
              else if v2 \<in> {0, 108, 109} then gen_loopback_linktype vs sn v6 m v0 v1
              else if v2 \<in> {6, 10, 11, 19, 122} then gen_llc_linktype vs sn v6 m v0 v1
              else if v2 \<in> {7, 129} then arcnet_linktype vs sn v6 v0 v1 m
              else if v2 \<in> {8, 12, 15} then
                if v1 = 2048 then gen_ip_version vs sn v6 m v0 1 4
                else if v1 = 34525 then gen_ip_version vs sn v6 m v0 1 6
                else gen_false vs sn v6 m v0
              else if v2 \<in> {9, 50, 51, 166} then
                jump_bind (ppp_type vs sn v6 m v0 (v6 + 80) v1) (\<lambda>v8. field_test vs sn v6 m v0 108 [112] 0 8 21 v8)
              else if v2 = 16 then ppp_bsdos_linktype vs sn v6 v0 v1 m
              else if v2 \<in> {104, 112} then chdlc_linktype vs sn v6 v0 v1 m
              else if v2 \<in> {105, 119, 127, 163, 192} then
                joined gen_and (\<lambda>m. masked_test vs sn v6 m v0 60 [64] 0 16 12 21 8) (\<lambda>m. gen_llc_linktype vs sn v6 m v0 v1) m
              else if v2 = 107 then frelay_linktype vs sn v6 v0 v1 m
              else if v2 = 113 then gen_linux_sll_linktype vs sn v6 m v0 v1
              else if v2 = 114 then if v1 = 32923 then gen_true vs sn v6 m v0 else gen_false vs sn v6 m v0
              else if v2 = 117 then gen_pflog_linktype vs sn v6 m v0 v1
              else if v2 = 123 then
                joined gen_and (\<lambda>m. gen_atm_prototype vs sn v6 m v0 2) (\<lambda>m. gen_llc_linktype vs sn v6 m v0 v1) m
              else if v2 \<in> set juniper_types then masked_test vs sn v6 m v0 60 [64] 0 0 (- 256) 21 0x4d474300
              else if v2 = 226 then gen_ipnet_linktype vs sn v6 m v0 v1
              else if v2 = 228 then if v1 = 2048 then gen_true vs sn v6 m v0 else gen_false vs sn v6 m v0
              else if v2 = 229 then if v1 = 34525 then gen_true vs sn v6 m v0 else gen_false vs sn v6 m v0
              else other_linktype vs sn v6 v0 v2 v1 m)))"

end
