(* ===== verification/Codegen_Protocols.thy ===== *)
theory Codegen_Protocols
  imports Codegen_Linktype
begin

text \<open>
  Protocols and ports (\<open>_gen_proto\<close>, \<open>_gen_proto_abbrev_internal\<close>, \<open>_gen_port\<close>, \<open>_gen_port6\<close> of
  \<open>internal/bpf.go\<close>): the tests of single fields (\<open>Codegen_Primitives\<close>) with the test of the network
  protocol (\<open>gen_linktype\<close>) in front.
\<close>

section \<open>Keywords of error messages\<close>

text \<open>
  The name of a keyword is in a table of the data segment; for a number without a name one of four buffers of
  64 bytes, taken in turn, gets a text with the number.
\<close>

definition keyword ::
  "u32 \<Rightarrow> nat \<Rightarrow> u32 \<Rightarrow> formatter \<Rightarrow> u32 \<Rightarrow> memory \<Rightarrow> u32 \<Rightarrow> (memory \<times> u32) option" where
  "keyword last_name table kind sn sp m v0 =
     (let v1 = sp - 16
      in if v0 > last_name \<or> v0 = 0 then do {
           v3 \<leftarrow> load32 m 125968;
           let v2 = push_bit 6 v3 + 125712;
           m \<leftarrow> store8 m (unat v2) 0;
           m \<leftarrow> store32 m 125968 ((v3 + 1) AND 3);
           m \<leftarrow> put_words m (unat v1) [(0, kind), (4, v0)];
           m \<leftarrow> sn v1 m v2 64 71449 v1;
           Some (m, v2)
         }
         else do {
           v2 \<leftarrow> load32 m (unat (push_bit 2 v0) + table);
           Some (m, v2)
         })"

definition pqkw :: "formatter \<Rightarrow> u32 \<Rightarrow> memory \<Rightarrow> u32 \<Rightarrow> (memory \<times> u32) option" where
  "pqkw = keyword 39 74160 68021"

definition tqkw :: "formatter \<Rightarrow> u32 \<Rightarrow> memory \<Rightarrow> u32 \<Rightarrow> (memory \<times> u32) option" where
  "tqkw = keyword 7 74080 70123"

definition dqkw :: "formatter \<Rightarrow> u32 \<Rightarrow> memory \<Rightarrow> u32 \<Rightarrow> (memory \<times> u32) option" where
  "dqkw = keyword 10 74112 67540"

section \<open>Ports\<close>

text \<open>The transport protocols with ports: \<open>v1\<close> is one of them, or - 1 for any.\<close>

definition port_protos :: "(u32 \<Rightarrow> gen) \<Rightarrow> u32 \<Rightarrow> gen option" where
  "port_protos proto v1 =
     (if v1 = - 1 then Some (joined (swapped gen_or) (joined (swapped gen_or) (proto 132) (proto 17)) (proto 6))
      else if v1 = 6 \<or> v1 = 17 \<or> v1 = 132 then Some (proto v1)
      else None)"

text \<open>\<open>v2\<close> is the block that tests the ports.\<close>

definition gen_port_common :: "formatter \<Rightarrow> formatter \<Rightarrow> u32 \<Rightarrow> memory \<Rightarrow> u32 \<Rightarrow> u32 \<Rightarrow> u32 \<Rightarrow> (memory \<times> u32) jump" where
  "gen_port_common vs sn sp m v0 v1 v2 =
     (let v7 = sp - 16
      in case port_protos (\<lambda>p m. gen_ip_proto vs sn v7 m v0 p) v1 of
           None \<Rightarrow> gen_error vs sn v7 m v0 70807 v7 [(8, v1), (4, 68021), (0, 68087)]
         | Some protos \<Rightarrow>
             jump_bind (joined gen_and protos (\<lambda>m. gen_ipfrag vs sn v7 m v0) m)
               (\<lambda>(m, v4). jump_bind (lift (gen_and m v4 v2))
                 (\<lambda>(m, v2). jump_bind (gen_linktype vs sn v7 m v0 2048) (\<lambda>(m, v0). lift (gen_and m v0 v2)))))"

definition gen_port6_common :: "formatter \<Rightarrow> formatter \<Rightarrow> u32 \<Rightarrow> memory \<Rightarrow> u32 \<Rightarrow> u32 \<Rightarrow> u32 \<Rightarrow> (memory \<times> u32) jump" where
  "gen_port6_common vs sn sp m v0 v1 v2 =
     (let v7 = sp - 16
      in case port_protos (\<lambda>p m. gen_ip6_proto vs sn v7 m v0 p) v1 of
           None \<Rightarrow> gen_error vs sn v7 m v0 70807 v7 [(8, v1), (4, 68021), (0, 68103)]
         | Some protos \<Rightarrow>
             jump_bind (protos m)
               (\<lambda>(m, v3). jump_bind (lift (gen_and m v3 v2))
                 (\<lambda>(m, v2). jump_bind (gen_linktype vs sn v7 m v0 34525) (\<lambda>(m, v3). lift (gen_and m v3 v2)))))"

text \<open>
  The direction \<open>v3\<close>: 1 for the source (at 0 in the transport header), 2 for the destination (at 2), 0 and 3
  for one of them, 4 for both. \<open>v4\<close> is the type of the name, for the error message.
\<close>

definition either_port :: "(u32 \<Rightarrow> gen) \<Rightarrow> u32 \<Rightarrow> gen option" where
  "either_port atom v3 =
     (if v3 = 0 \<or> v3 = 3 then Some (joined gen_or (atom 0) (atom 2))
      else if v3 = 1 then Some (atom 0)
      else if v3 = 2 then Some (atom 2)
      else if v3 = 4 then Some (joined gen_and (atom 0) (atom 2))
      else None)"

definition direction_error :: "formatter \<Rightarrow> formatter \<Rightarrow> u32 \<Rightarrow> memory \<Rightarrow> u32 \<Rightarrow> u32 \<Rightarrow> u32 \<Rightarrow> (memory \<times> u32) jump" where
  "direction_error vs sn v7 m v0 v3 v4 =
     jump_bind (lift (do {
         (m, v1) \<leftarrow> dqkw sn v7 m v3;
         (m, t44) \<leftarrow> tqkw sn v7 m v4;
         put_words m (unat v7) [(4, t44), (0, v1)]
       }))
       (\<lambda>m. bpf_error vs sn v7 m v0 72321 v7)"

definition gen_port :: "formatter \<Rightarrow> formatter \<Rightarrow> u32 \<Rightarrow> memory \<Rightarrow> u32 \<Rightarrow> u32 \<Rightarrow> u32 \<Rightarrow> u32 \<Rightarrow> u32 \<Rightarrow> (memory \<times> u32) jump" where
  "gen_port vs sn sp m v0 v1 v2 v3 v4 =
     (let v7 = sp - 16
      in case either_port (\<lambda>off m. gen_portatom vs sn v7 m v0 off v1) v3 of
           None \<Rightarrow> direction_error vs sn v7 m v0 v3 v4
         | Some ports \<Rightarrow> jump_bind (ports m) (\<lambda>(m, v4). gen_port_common vs sn v7 m v0 v2 v4))"

definition gen_port6 :: "formatter \<Rightarrow> formatter \<Rightarrow> u32 \<Rightarrow> memory \<Rightarrow> u32 \<Rightarrow> u32 \<Rightarrow> u32 \<Rightarrow> u32 \<Rightarrow> u32 \<Rightarrow> (memory \<times> u32) jump" where
  "gen_port6 vs sn sp m v0 v1 v2 v3 v4 =
     (let v7 = sp - 16
      in case either_port (\<lambda>off m. gen_portatom6 vs sn v7 m v0 off v1) v3 of
           None \<Rightarrow> direction_error vs sn v7 m v0 v3 v4
         | Some ports \<Rightarrow> jump_bind (ports m) (\<lambda>(m, v4). gen_port6_common vs sn v7 m v0 v2 v4))"

section \<open>Protocols\<close>

text \<open>
  An upper protocol of IPv6: in the fixed header, or in a fragment header after it. The errors name the
  number, which must fit in a byte (or five bits for IS-IS).
\<close>

definition ip6_upper :: "formatter \<Rightarrow> formatter \<Rightarrow> u32 \<Rightarrow> u32 \<Rightarrow> u32 \<Rightarrow> gen" where
  "ip6_upper vs sn v7 v0 v1 =
     joined gen_and (\<lambda>m. gen_linktype vs sn v7 m v0 34525)
       (joined (swapped gen_or)
         (joined gen_and (\<lambda>m. gen_ip6_proto vs sn v7 m v0 44) (\<lambda>m. field_test vs sn v7 m v0 96 [100, 172] 40 16 21 v1))
         (\<lambda>m. gen_ip6_proto vs sn v7 m v0 v1))"

definition ip_upper :: "formatter \<Rightarrow> formatter \<Rightarrow> u32 \<Rightarrow> u32 \<Rightarrow> u32 \<Rightarrow> gen" where
  "ip_upper vs sn v7 v0 v1 =
     joined gen_and (\<lambda>m. gen_linktype vs sn v7 m v0 2048) (\<lambda>m. gen_ip_proto vs sn v7 m v0 v1)"

definition number_error :: "formatter \<Rightarrow> formatter \<Rightarrow> u32 \<Rightarrow> memory \<Rightarrow> u32 \<Rightarrow> u32 \<Rightarrow> u32 \<Rightarrow> u32 \<Rightarrow> u32 \<Rightarrow> (memory \<times> u32) jump" where
  "number_error vs sn v7 m v0 a noun v1 most = gen_error vs sn v7 m v0 65935 a [(8, most), (4, v1), (0, noun)]"

text \<open>An OSI protocol; \<open>v7\<close> is the frame of \<open>_gen_proto\<close>.\<close>

definition iso_proto :: "formatter \<Rightarrow> formatter \<Rightarrow> u32 \<Rightarrow> u32 \<Rightarrow> u32 \<Rightarrow> gen" where
  "iso_proto vs sn v7 v0 v1 m =
     (if v1 \<ge> 256 then number_error vs sn v7 m v0 (v7 + 64) 68703 v1 255
      else jump_bind (lift (load32 m (unat v0 + 24)))
        (\<lambda>t192. if t192 = 107 then gen_frelay_nlpid vs sn v7 m v0 v1
          else if t192 = 104 \<or> t192 = 112 then
            joined gen_and (\<lambda>m. gen_linktype vs sn v7 m v0 65278) (\<lambda>m. field_test vs sn v7 m v0 96 [100, 176] 1 16 21 v1) m
          else
            joined gen_and (\<lambda>m. gen_linktype vs sn v7 m v0 254) (\<lambda>m. field_test vs sn v7 m v0 96 [176, 100] 0 16 21 v1) m))"

definition isis_proto :: "formatter \<Rightarrow> formatter \<Rightarrow> u32 \<Rightarrow> u32 \<Rightarrow> u32 \<Rightarrow> gen" where
  "isis_proto vs sn v7 v0 v1 m =
     (if v1 \<ge> 32 then number_error vs sn v7 m v0 (v7 + 80) 70093 v1 31
      else joined gen_and (iso_proto vs sn (v7 - 96) v0 131)
        (\<lambda>m. jump_bind (lift (load32 m (unat v0 + 24)))
          (\<lambda>v2. masked_test vs sn v7 m v0 96 [176, 100] (if v2 = 104 \<or> v2 = 112 then 5 else 4) 16 31 21 v1)) m)"

definition gen_proto :: "formatter \<Rightarrow> formatter \<Rightarrow> u32 \<Rightarrow> memory \<Rightarrow> u32 \<Rightarrow> u32 \<Rightarrow> u32 \<Rightarrow> (memory \<times> u32) jump" where
  "gen_proto vs sn sp m v0 v1 v2 =
     (let v7 = sp - 96
      in if v2 = 0 then
           if v1 \<ge> 256 then number_error vs sn v7 m v0 (v7 + 16) 67606 v1 255
           else joined gen_or (ip_upper vs sn v7 v0 v1) (ip6_upper vs sn v7 v0 v1) m
         else if v2 = 1 then gen_linktype vs sn v7 m v0 v1
         else if v2 = 2 then
           if v1 \<ge> 256 then number_error vs sn v7 m v0 (v7 + 32) 67606 v1 255 else ip_upper vs sn v7 v0 v1 m
         else if v2 = 17 then
           if v1 \<ge> 256 then number_error vs sn v7 m v0 (v7 + 48) 67606 v1 255 else ip6_upper vs sn v7 v0 v1 m
         else if v2 = 24 then iso_proto vs sn v7 v0 v1 m
         else if v2 = 26 then isis_proto vs sn v7 v0 v1 m
         else jump_bind (lift (do {
             (m, v2) \<leftarrow> pqkw sn v7 m v2;
             put_words m (unat v7) [(4, 68021), (0, v2)]
           }))
           (\<lambda>m. bpf_error vs sn v7 m v0 72321 v7))"

text \<open>
  The protocols with a keyword, by their number \<open>v1\<close>. What they are compared with is in tables of the data
  segment; the kinds of IS-IS packets are alternatives.
\<close>

definition keyword_error :: "formatter \<Rightarrow> formatter \<Rightarrow> u32 \<Rightarrow> memory \<Rightarrow> u32 \<Rightarrow> u32 \<Rightarrow> u32 \<Rightarrow> u32 \<Rightarrow> (memory \<times> u32) jump" where
  "keyword_error vs sn v7 m v0 fmt a v1 =
     jump_bind (lift (do { (m, t) \<leftarrow> pqkw sn v7 m v1; store32 m (unat a) t })) (\<lambda>m. bpf_error vs sn v7 m v0 fmt a)"

definition isis_kinds :: "u32 \<Rightarrow> u32 \<times> u32 \<times> u32 list" where
  "isis_kinds v1 =
     (if v1 = 31 then (15, 17, [18, 24, 26]) else if v1 = 32 then (16, 17, [20, 25, 27]) else if v1 = 33 then (15, 16, [17])
      else if v1 = 34 then (24, 25, [26, 27]) else if v1 = 35 then (24, 25, []) else if v1 = 36 then (26, 27, [])
      else (18, 20, []))"

definition any_kind :: "(u32 \<Rightarrow> gen) \<Rightarrow> u32 \<times> u32 \<times> u32 list \<Rightarrow> gen" where
  "any_kind proto = (\<lambda>(k, k', ks). foldl (\<lambda>f k. joined (swapped gen_or) f (proto k)) (joined gen_or (proto k) (proto k')) ks)"

definition gen_proto_abbrev_internal :: "formatter \<Rightarrow> formatter \<Rightarrow> u32 \<Rightarrow> memory \<Rightarrow> u32 \<Rightarrow> u32 \<Rightarrow> (memory \<times> u32) jump" where
  "gen_proto_abbrev_internal vs sn sp m v0 v1 =
     (let v7 = sp - 80;
          by = (\<lambda>t fmt a f. jump_bind (lift t) (\<lambda>v2. if v2 = 0 then keyword_error vs sn v7 m v0 fmt a v1 else f v2))
      in if v1 \<in> {5, 6, 7, 19, 20, 21} then
           by (load8 m (unat v1 + 72800)) 68663 (v7 + 16) (\<lambda>v2. gen_proto vs sn v7 m v0 v2 0)
         else if v1 \<in> {8, 9, 10, 22, 39} then
           by (load8 m (unat v1 + 72800)) 68663 (v7 + 32) (\<lambda>v2. gen_proto vs sn v7 m v0 v2 2)
         else if v1 = 18 then gen_proto vs sn v7 m v0 58 17
         else if v1 \<in> {2, 3, 4, 11, 12, 13, 14, 15, 16, 17, 23} then
           by (map_option ucast (load16 m (unat (push_bit 1 v1) + 73056))) 70128 (v7 + 48) (\<lambda>v2. gen_linktype vs sn v7 m v0 v2)
         else if v1 \<in> {24, 28, 29, 30} then
           by (load8 m (unat v1 + 73568)) 71303 (v7 + 64) (\<lambda>v2. gen_linktype vs sn v7 m v0 v2)
         else if v1 \<in> {25, 26, 27} then
           jump_bind (lift (load8 m (unat v1 + 73824))) (\<lambda>t9. gen_proto vs sn v7 m v0 t9 24)
         else if v1 \<in> {31, 32, 33, 34, 35, 36, 37} then any_kind (\<lambda>k m. gen_proto vs sn v7 m v0 k 26) (isis_kinds v1) m
         else keyword_error vs sn v7 m v0 68234 v7 v1)"

end
