(* ===== verification/Codegen_Hosts.thy ===== *)
theory Codegen_Hosts
  imports Codegen_Protocols Nametoaddr
begin

text \<open>
  Hosts and networks (\<open>_gen_host\<close>, \<open>_gen_host6\<close>, \<open>_gen_mac48host\<close> and their like of \<open>internal/bpf.go\<close>) and
  the functions that the parser calls for a number or an address (\<open>_gen_ncode\<close>, \<open>_gen_mcode\<close>,
  \<open>_gen_mcode6\<close>, \<open>_gen_ecode\<close>, \<open>_gen_acode\<close>). The C compiler inlined the functions for one direction of a
  host into them.
\<close>

section \<open>Directions\<close>

text \<open>
  \<open>at\<close> tests one address: the source is at \<open>src\<close>, the destination at \<open>dst\<close>. The direction is 1 for the
  source, 2 for the destination, 4 for both; 0 and 3 are for one of them.
\<close>

definition either_end :: "u32 \<Rightarrow> ('a \<Rightarrow> gen) \<Rightarrow> 'a \<Rightarrow> 'a \<Rightarrow> gen" where
  "either_end dir at src dst =
     (if dir = 1 then at src
      else if dir = 2 then at dst
      else if dir = 4 then joined gen_and (at src) (at dst)
      else joined gen_or (at src) (at dst))"

definition dir_error :: "formatter \<Rightarrow> formatter \<Rightarrow> u32 \<Rightarrow> memory \<Rightarrow> u32 \<Rightarrow> u32 \<Rightarrow> u32 \<Rightarrow> u32 \<Rightarrow> (memory \<times> u32) jump" where
  "dir_error vs sn fr m v0 fmt a dir =
     jump_bind (lift (do { (m, t) \<leftarrow> dqkw sn fr m dir; store32 m (unat a) t })) (\<lambda>m. bpf_error vs sn fr m v0 fmt a)"

definition op_error :: "formatter \<Rightarrow> formatter \<Rightarrow> u32 \<Rightarrow> memory \<Rightarrow> u32 \<Rightarrow> u32 \<Rightarrow> u32 \<Rightarrow> (memory \<times> u32) jump" where
  "op_error vs sn fr m v0 name dir =
     jump_bind (lift (do { (m, t) \<leftarrow> dqkw sn fr m dir; put_words m (unat fr) [(8, t), (4, 67540), (0, name)] }))
       (\<lambda>m. bpf_error vs sn fr m v0 72432 fr)"

definition kind_error :: "formatter \<Rightarrow> formatter \<Rightarrow> u32 \<Rightarrow> memory \<Rightarrow> u32 \<Rightarrow> u32 \<Rightarrow> u32 \<Rightarrow> (memory \<times> u32) jump" where
  "kind_error vs sn fr m v0 q noun =
     jump_bind (lift (do { (m, t) \<leftarrow> pqkw sn fr m q; put_words m (unat fr) [(4, noun), (0, t)] }))
       (\<lambda>m. bpf_error vs sn fr m v0 72321 fr)"

definition type_error :: "formatter \<Rightarrow> formatter \<Rightarrow> u32 \<Rightarrow> memory \<Rightarrow> u32 \<Rightarrow> u32 \<Rightarrow> (u32 \<Rightarrow> (nat \<times> u32) list) \<Rightarrow> u32 \<Rightarrow> (memory \<times> u32) jump" where
  "type_error vs sn fr m v0 a words t =
     jump_bind (lift (do { (m, t) \<leftarrow> tqkw sn fr m t; put_words m (unat a) (words t) })) (\<lambda>m. bpf_error vs sn fr m v0 72321 a)"

definition fail_kw_on_dlt :: "formatter \<Rightarrow> formatter \<Rightarrow> u32 \<Rightarrow> memory \<Rightarrow> u32 \<Rightarrow> u32 \<Rightarrow> (memory \<times> u32) jump" where
  "fail_kw_on_dlt vs sn sp m v0 v1 =
     (let v2 = sp - 16
      in jump_bind (lift (do {
           t1 \<leftarrow> load32 m (unat v0 + 24);
           (m, t2) \<leftarrow> datalink_val_to_string sn v2 m t1;
           put_words m (unat v2) [(4, t2), (0, v1)]
         }))
         (\<lambda>m. bpf_error vs sn v2 m v0 67409 v2))"

section \<open>IPv4\<close>

text \<open>
  The count \<open>v1\<close> of addresses at \<open>v2\<close>, with their masks at \<open>v3\<close>: one of them matches (\<open>l26\<close>). The loop
  tests its end after the round, so that a count of 0 would stand for \<open>2 ^ 32\<close> rounds.
\<close>

definition rounds :: "u32 \<Rightarrow> nat" where
  "rounds v1 = (if v1 = 0 then 2 ^ 32 else unat v1)"

primrec any_address :: "nat \<Rightarrow> (u32 \<Rightarrow> gen) \<Rightarrow> u32 \<Rightarrow> u32 \<Rightarrow> memory \<Rightarrow> (memory \<times> u32) jump" where
  "any_address 0 at v15 v9 m = Ret (m, v9)"
| "any_address (Suc n) at v15 v9 m =
     jump_bind (at v15 m) (\<lambda>(m, v7). jump_bind (lift (gen_or m v9 v7)) (\<lambda>(m, v9). any_address n at (v15 + 1) v9 m))"

definition hostop :: "formatter \<Rightarrow> formatter \<Rightarrow> u32 \<Rightarrow> u32 \<Rightarrow> u32 \<Rightarrow> u32 \<Rightarrow> u32 \<Rightarrow> u32 \<Rightarrow> u32 \<Rightarrow> u32 \<Rightarrow> gen" where
  "hostop vs sn v13 v0 v2 v3 v5 v10 v14 v15 m =
     jump_bind (lift (load32 m (unat (v3 + push_bit 2 v15))))
       (\<lambda>msk. jump_bind (lift (load32 m (unat (v2 + push_bit 2 v15))))
         (\<lambda>v8. either_end v5 (\<lambda>off m. gen_mcmp vs sn v13 m v0 6 off 0 v8 msk) v10 v14 m))"

text \<open>
  The hosts in packets of the protocol \<open>v8\<close>. If no packet can be of the protocol, nothing more is generated.
\<close>

definition host_in :: "formatter \<Rightarrow> formatter \<Rightarrow> u32 \<Rightarrow> u32 \<Rightarrow> u32 \<Rightarrow> u32 \<Rightarrow> u32 \<Rightarrow> u32 \<Rightarrow> u32 \<Rightarrow> u32 \<Rightarrow> u32 \<Rightarrow> u32 \<Rightarrow> gen" where
  "host_in vs sn v13 v0 v1 v2 v3 v5 v6 v8 v10 v14 m =
     jump_bind (gen_linktype vs sn v13 m v0 v8)
       (\<lambda>(m, v12). jump_bind (lift (load32 m (unat v12 + 208)))
         (\<lambda>t41. if t41 = 2 then Ret (m, v12)
           else jump_bind (gen_false vs sn v13 m v0)
             (\<lambda>(m, v9). jump_bind (any_address (rounds v1) (hostop vs sn v13 v0 v2 v3 v5 v10 v14) 0 v9 m)
               (\<lambda>(m, v9). jump_bind (if v6 = 0 then Ret (m, v9) else lift (gen_not m v9))
                 (\<lambda>(m, v9). lift (gen_and m v12 v9))))))"

definition host_of :: "formatter \<Rightarrow> formatter \<Rightarrow> u32 \<Rightarrow> u32 \<Rightarrow> u32 \<Rightarrow> u32 \<Rightarrow> u32 \<Rightarrow> u32 \<Rightarrow> u32 \<Rightarrow> u32 \<Rightarrow> u32 \<Rightarrow> gen" where
  "host_of vs sn v13 v0 v1 v2 v3 v4 v5 v6 v7 m =
     (if v5 \<ge> 5 then dir_error vs sn v13 m v0 65563 (v13 + 16) v5
      else if v4 = 2 then host_in vs sn v13 v0 v1 v2 v3 v5 v6 2048 12 16 m
      else if v4 = 3 then host_in vs sn v13 v0 v1 v2 v3 v5 v6 2054 14 24 m
      else if v4 = 4 then host_in vs sn v13 v0 v1 v2 v3 v5 v6 32821 14 24 m
      else kind_error vs sn v13 m v0 v4 v7)"

text \<open>Without a protocol: IPv4, or where there are link types (word 44 of the handle is 0) also ARP and RARP.\<close>

definition gen_host ::
  "formatter \<Rightarrow> formatter \<Rightarrow> u32 \<Rightarrow> memory \<Rightarrow> u32 \<Rightarrow> u32 \<Rightarrow> u32 \<Rightarrow> u32 \<Rightarrow> u32 \<Rightarrow> u32 \<Rightarrow> u32 \<Rightarrow> u32 \<Rightarrow> (memory \<times> u32) jump" where
  "gen_host vs sn sp m v0 v1 v2 v3 v4 v5 v6 v7 =
     (let v13 = sp - 32; host = (\<lambda>q. host_of vs sn (v13 - 32) v0 v1 v2 v3 q v5 v6 v7)
      in if v5 < 5 \<and> v4 = 0 then
           jump_bind (host 2 m)
             (\<lambda>(m, v9). jump_bind (lift (load32 m (unat v0 + 44)))
               (\<lambda>t2. if t2 \<noteq> 0 then Ret (m, v9)
                 else jump_bind (host 3 m)
                   (\<lambda>(m, v10). jump_bind (lift (gen_or m v9 v10))
                     (\<lambda>(m, v10). jump_bind (host 4 m) (\<lambda>(m, v9). lift (gen_or m v10 v9))))))
         else host_of vs sn v13 v0 v1 v2 v3 v4 v5 v6 v7 m)"

section \<open>IPv6\<close>

text \<open>
  The address at \<open>v1\<close> and its mask at \<open>v2\<close> are copied to the frame \<open>v5\<close> (at 32 and 16); then the four words
  are compared, the last one first (\<open>l9\<close>, \<open>l18\<close>).
\<close>

fun copy_longs :: "memory \<Rightarrow> (nat \<times> nat) list \<Rightarrow> memory option" where
  "copy_longs m [] = Some m"
| "copy_longs m ((d, s) # cs) = do { t \<leftarrow> load64 m s; m \<leftarrow> store64 m d t; copy_longs m cs }"

primrec compare_words :: "nat \<Rightarrow> formatter \<Rightarrow> formatter \<Rightarrow> u32 \<Rightarrow> u32 \<Rightarrow> u32 \<Rightarrow> u32 \<Rightarrow> memory \<Rightarrow> (memory \<times> u32) jump" where
  "compare_words 0 vs sn v5 v0 off v2 m = Ret (m, v2)"
| "compare_words (Suc n) vs sn v5 v0 off v2 m =
     (let k = of_nat (4 * n)
      in jump_bind (lift (load32 m (unat (v5 + 32 + k))))
        (\<lambda>t81. jump_bind (lift (load32 m (unat (v5 + 16 + k))))
          (\<lambda>t83. jump_bind (gen_mcmp vs sn v5 m v0 6 (k + off) 0 (ntohl t81) (ntohl t83))
            (\<lambda>(m, v6). jump_bind (lift (gen_and m v6 v2)) (\<lambda>(m, v2). compare_words n vs sn v5 v0 off v2 m)))))"

definition hostop6_at :: "formatter \<Rightarrow> formatter \<Rightarrow> u32 \<Rightarrow> u32 \<Rightarrow> u32 \<Rightarrow> (nat \<times> nat) list \<Rightarrow> gen" where
  "hostop6_at vs sn v5 v0 off copies m =
     jump_bind (lift (copy_longs m copies))
       (\<lambda>m. jump_bind (gen_true vs sn v5 m v0) (\<lambda>(m, v2). compare_words 4 vs sn v5 v0 off v2 m))"

definition hostop6_end :: "formatter \<Rightarrow> formatter \<Rightarrow> u32 \<Rightarrow> u32 \<Rightarrow> u32 \<Rightarrow> u32 \<Rightarrow> u32 \<Rightarrow> gen" where
  "hostop6_end vs sn v5 v0 v1 v2 off =
     hostop6_at vs sn v5 v0 off
       [(unat v5 + 40, unat v1 + 8), (unat v5 + 32, unat v1), (unat v5 + 16, unat v2), (unat v5 + 24, unat v2 + 8)]"

definition gen_hostop6 :: "formatter \<Rightarrow> formatter \<Rightarrow> u32 \<Rightarrow> memory \<Rightarrow> u32 \<Rightarrow> u32 \<Rightarrow> u32 \<Rightarrow> u32 \<Rightarrow> (memory \<times> u32) jump" where
  "gen_hostop6 vs sn sp m v0 v1 v2 v3 =
     (let v5 = sp - 48; again = hostop6_end vs sn (v5 - 48) v0 v1 v2
      in if v3 = 0 \<or> v3 = 3 then joined gen_or (again 8) (again 24) m
         else if v3 = 1 then hostop6_end vs sn v5 v0 v1 v2 8 m
         else if v3 = 2 then hostop6_end vs sn v5 v0 v1 v2 24 m
         else if v3 = 4 then
           joined gen_and
             (hostop6_at vs sn v5 v0 8
               [(unat v5 + 32, unat v1), (unat v5 + 40, unat v1 + 8), (unat v5 + 16, unat v2), (unat v5 + 24, unat v2 + 8)])
             (again 24) m
         else op_error vs sn v5 m v0 71600 v3)"

definition gen_host6 ::
  "formatter \<Rightarrow> formatter \<Rightarrow> u32 \<Rightarrow> memory \<Rightarrow> u32 \<Rightarrow> u32 \<Rightarrow> u32 \<Rightarrow> u32 \<Rightarrow> u32 \<Rightarrow> u32 \<Rightarrow> u32 \<Rightarrow> u32 \<Rightarrow> (memory \<times> u32) jump" where
  "gen_host6 vs sn sp m v0 v1 v2 v3 v4 v5 v6 v7 =
     (let v10 = sp - 32
      in if v5 \<ge> 5 then dir_error vs sn v10 m v0 65563 (v10 + 16) v5
         else if v4 \<noteq> 0 \<and> v4 \<noteq> 17 then kind_error vs sn v10 m v0 v4 v7
         else jump_bind (gen_linktype vs sn v10 m v0 34525)
           (\<lambda>(m, v9). jump_bind (gen_false vs sn v10 m v0)
             (\<lambda>(m, v8). jump_bind
               (any_address (rounds v1)
                 (\<lambda>v13 m. gen_hostop6 vs sn v10 m v0 (v2 + push_bit 4 v13) (v3 + push_bit 4 v13) v5) 0 v8 m)
               (\<lambda>(m, v8). jump_bind (if v6 = 0 then Ret (m, v8) else lift (gen_not m v8))
                 (\<lambda>(m, v8). lift (gen_and m v9 v8))))))"

section \<open>Addresses of the link layer\<close>

text \<open>
  IEEE 802.11 has up to four addresses, whose meaning depends on the frame control field: the directions 5 to 10
  are for one of the addresses and for the receiver and the transmitter.
\<close>

definition wlan_bit :: "formatter \<Rightarrow> formatter \<Rightarrow> u32 \<Rightarrow> u32 \<Rightarrow> u32 \<Rightarrow> u32 \<Rightarrow> gen" where
  "wlan_bit vs sn v9 v0 off bits m = field_test vs sn v9 m v0 60 [64] off 16 69 bits"

definition wlan_choice :: "gen \<Rightarrow> gen \<Rightarrow> gen \<Rightarrow> gen" where
  "wlan_choice tst x y = joined (swapped gen_or) (joined gen_and tst x) (joined gen_and (inverted tst) y)"

definition wlan_else :: "gen \<Rightarrow> gen \<Rightarrow> gen \<Rightarrow> gen" where
  "wlan_else tst x y = joined (swapped gen_or) (joined (swapped gen_and) x tst) (joined gen_and (inverted tst) y)"

definition wlan_source :: "formatter \<Rightarrow> formatter \<Rightarrow> u32 \<Rightarrow> u32 \<Rightarrow> u32 \<Rightarrow> gen" where
  "wlan_source vs sn v9 v0 v1 =
     (let tst = wlan_bit vs sn v9 v0; addr = (\<lambda>off m. gen_bcmp vs sn v9 m v0 1 off 6 v1);
          from_ds = wlan_choice (tst 1 1) (addr 24) (addr 16)
      in joined (swapped gen_and) (wlan_else (tst 0 8) (wlan_else (tst 1 2) from_ds (addr 10)) (addr 10)) (inverted (tst 0 4)))"

definition wlan_destination :: "formatter \<Rightarrow> formatter \<Rightarrow> u32 \<Rightarrow> u32 \<Rightarrow> u32 \<Rightarrow> gen" where
  "wlan_destination vs sn v9 v0 v1 =
     (let tst = wlan_bit vs sn v9 v0; addr = (\<lambda>off m. gen_bcmp vs sn v9 m v0 1 off 6 v1);
          to_ds = wlan_choice (tst 1 1) (addr 16) (addr 4)
      in joined (swapped gen_and) (wlan_else (tst 0 8) to_ds (addr 4)) (inverted (tst 0 4)))"

definition wlan_no_ack :: "formatter \<Rightarrow> formatter \<Rightarrow> u32 \<Rightarrow> u32 \<Rightarrow> gen" where
  "wlan_no_ack vs sn v9 v0 =
     joined gen_or (\<lambda>m. gen_ncmp vs sn v9 m v0 1 0 16 12 16 1 4)
       (joined gen_and (\<lambda>m. gen_ncmp vs sn v9 m v0 1 0 16 240 16 1 192) (\<lambda>m. gen_ncmp vs sn v9 m v0 1 0 16 240 16 1 208))"

definition gen_wlanhostop :: "formatter \<Rightarrow> formatter \<Rightarrow> u32 \<Rightarrow> memory \<Rightarrow> u32 \<Rightarrow> u32 \<Rightarrow> u32 \<Rightarrow> (memory \<times> u32) jump" where
  "gen_wlanhostop vs sn sp m v0 v1 v2 =
     (let v9 = sp - 16; v9' = v9 - 16; addr = (\<lambda>off m. gen_bcmp vs sn v9 m v0 1 off 6 v1)
      in if v2 = 0 \<or> v2 = 3 then joined gen_or (wlan_source vs sn v9' v0 v1) (wlan_destination vs sn v9' v0 v1) m
         else if v2 = 1 then wlan_source vs sn v9 v0 v1 m
         else if v2 = 2 then wlan_destination vs sn v9 v0 v1 m
         else if v2 = 4 then joined gen_and (wlan_source vs sn v9' v0 v1) (wlan_destination vs sn v9' v0 v1) m
         else if v2 = 5 then addr 4 m
         else if v2 = 6 then joined gen_and (wlan_no_ack vs sn v9 v0) (addr 10) m
         else if v2 = 7 then joined gen_and (\<lambda>m. gen_ncmp vs sn v9 m v0 1 0 16 12 16 1 4) (addr 16) m
         else if v2 = 8 then joined gen_and (\<lambda>m. masked_test vs sn v9 m v0 60 [64] 1 16 3 21 3) (addr 24) m
         else if v2 = 9 then joined gen_and (wlan_bit vs sn v9 v0 0 8) (addr 4) m
         else if v2 = 10 then
           joined gen_and (joined (swapped gen_and) (wlan_no_ack vs sn v9 v0) (wlan_bit vs sn v9 v0 0 8)) (addr 10) m
         else gen_error vs sn v9 m v0 70807 v9 [(8, v2), (4, 67540), (0, 67815)])"

text \<open>
  The offsets of the source and the destination in the header of the link layer; for Ethernet there may be a
  header before it.
\<close>

definition wlan_types :: "u32 set" where
  "wlan_types = {105, 119, 127, 163, 192}"

definition ether_types :: "u32 set" where
  "ether_types = {1, 240, 241, 281, 284}"

definition gen_mac48host :: "formatter \<Rightarrow> formatter \<Rightarrow> u32 \<Rightarrow> memory \<Rightarrow> u32 \<Rightarrow> u32 \<Rightarrow> u32 \<Rightarrow> u32 \<Rightarrow> (memory \<times> u32) jump" where
  "gen_mac48host vs sn sp m v0 v1 v2 v3 =
     (let v8 = sp - 16;
          host = (\<lambda>v4 v7 m. either_end v2 (\<lambda>off m. gen_bcmp vs sn v8 m v0 1 off 6 v1) v4 v7 m);
          plain = (\<lambda>v4 v7 m. if v2 \<ge> 5 then dir_error vs sn v8 m v0 65563 v8 v2 else host v4 v7 m)
      in jump_bind (lift (load32 m (unat v0 + 24)))
        (\<lambda>v5. if v5 \<in> wlan_types then gen_wlanhostop vs sn v8 m v0 v1 v2
          else if v5 = 6 then plain 8 2 m
          else if v5 = 10 then jump_bind (lift (load32 m (unat v0 + 52))) (\<lambda>v5. plain (v5 + 7) (v5 + 1) m)
          else if v5 = 122 then plain 10 2 m
          else if v5 \<in> ether_types then
            jump_bind (gen_prevlinkhdr_check vs sn v8 m v0)
              (\<lambda>(m, v6). jump_bind (plain 6 0 m)
                (\<lambda>(m, v2). if v6 = 0 then Ret (m, v2) else lift (gen_and m v6 v2)))
          else fail_kw_on_dlt vs sn v8 m v0 v3))"

definition gen_mac8host :: "formatter \<Rightarrow> formatter \<Rightarrow> u32 \<Rightarrow> memory \<Rightarrow> u32 \<Rightarrow> u32 \<Rightarrow> u32 \<Rightarrow> u32 \<Rightarrow> (memory \<times> u32) jump" where
  "gen_mac8host vs sn sp m v0 v1 v2 v3 =
     (let v7 = sp - 16;
          host = (\<lambda>v4 v5. if v2 > 4 then op_error vs sn v7 m v0 66003 v2
            else either_end v2 (\<lambda>off m. field_test vs sn v7 m v0 60 [64] off 16 21 v1) v4 v5 m)
      in jump_bind (lift (load32 m (unat v0 + 24)))
        (\<lambda>v6. if v6 = 7 \<or> v6 = 129 then host 0 1
          else if v6 = 165 then host 4 3
          else fail_kw_on_dlt vs sn v7 m v0 v3))"

text \<open>
  A DECnet address, in the four formats of the routing header: long and short, each with and without a byte of
  padding. \<open>v11\<close> and \<open>v12\<close> are where the address is in the short and in the long format.
\<close>

definition dn_bytes :: "u32 \<Rightarrow> u32" where
  "dn_bytes v1 = (push_bit 8 v1 OR drop_bit 8 (v1 AND 0xff00)) AND 0xffff"

definition dn_flags :: "formatter \<Rightarrow> formatter \<Rightarrow> u32 \<Rightarrow> u32 \<Rightarrow> u32 \<Rightarrow> u32 \<Rightarrow> u32 \<Rightarrow> gen" where
  "dn_flags vs sn v9 v0 sz msk v m = masked_test vs sn v9 m v0 96 [100, 172] 2 sz msk 21 v"

definition dn_address :: "formatter \<Rightarrow> formatter \<Rightarrow> u32 \<Rightarrow> u32 \<Rightarrow> u32 \<Rightarrow> u32 \<Rightarrow> gen" where
  "dn_address vs sn v9 v0 v10 off m = field_test vs sn v9 m v0 96 [172, 100] off 8 21 v10"

definition dn_long :: "formatter \<Rightarrow> formatter \<Rightarrow> u32 \<Rightarrow> u32 \<Rightarrow> u32 \<Rightarrow> u32 \<Rightarrow> gen" where
  "dn_long vs sn v9 v0 v10 v12 =
     joined (swapped gen_or)
       (joined gen_and (dn_flags vs sn v9 v0 8 0xff07 0x8106) (dn_address vs sn v9 v0 v10 (v12 + 3)))
       (joined gen_and (dn_flags vs sn v9 v0 16 7 6) (dn_address vs sn v9 v0 v10 (v12 + 2)))"

definition dn_short_padded :: "formatter \<Rightarrow> formatter \<Rightarrow> u32 \<Rightarrow> u32 \<Rightarrow> u32 \<Rightarrow> u32 \<Rightarrow> bool \<Rightarrow> gen" where
  "dn_short_padded vs sn v9 v0 v10 v11 dst =
     (if dst then dn_flags vs sn v9 v0 0 0xff07ffff (v10 OR 0x81020000)
      else joined gen_and (dn_flags vs sn v9 v0 8 0xff07 0x8102) (dn_address vs sn v9 v0 v10 (v11 + 3)))"

definition dn_short :: "formatter \<Rightarrow> formatter \<Rightarrow> u32 \<Rightarrow> u32 \<Rightarrow> u32 \<Rightarrow> u32 \<Rightarrow> bool \<Rightarrow> gen" where
  "dn_short vs sn v9 v0 v10 v11 dst =
     (if dst then dn_flags vs sn v9 v0 0 0x7ffff00 (push_bit 8 v10 OR 0x2000000)
      else joined gen_and (dn_flags vs sn v9 v0 16 7 2) (dn_address vs sn v9 v0 v10 (v11 + 2)))"

definition dn_end :: "formatter \<Rightarrow> formatter \<Rightarrow> u32 \<Rightarrow> u32 \<Rightarrow> u32 \<Rightarrow> u32 \<Rightarrow> u32 \<Rightarrow> bool \<Rightarrow> gen" where
  "dn_end vs sn v9 v0 v1 v11 v12 dst =
     (let v10 = dn_bytes v1
      in joined (swapped gen_or)
        (joined (swapped gen_or) (dn_long vs sn v9 v0 v10 v12) (dn_short_padded vs sn v9 v0 v10 v11 dst))
        (dn_short vs sn v9 v0 v10 v11 dst))"

definition gen_dnhostop :: "formatter \<Rightarrow> formatter \<Rightarrow> u32 \<Rightarrow> memory \<Rightarrow> u32 \<Rightarrow> u32 \<Rightarrow> u32 \<Rightarrow> (memory \<times> u32) jump" where
  "gen_dnhostop vs sn sp m v0 v1 v2 =
     (let v9 = sp - 16;
          src = (\<lambda>v9. dn_end vs sn v9 v0 v1 3 15 False); dst = (\<lambda>v9. dn_end vs sn v9 v0 v1 1 7 True)
      in if v2 = 0 \<or> v2 = 3 then joined gen_or (src (v9 - 16)) (dst (v9 - 16)) m
         else if v2 = 1 then src v9 m
         else if v2 = 2 then dst v9 m
         else if v2 = 4 then joined gen_and (src (v9 - 16)) (dst (v9 - 16)) m
         else op_error vs sn v9 m v0 67802 v2)"

section \<open>Addresses of the source text\<close>

text \<open>
  \<open>_gen_ecode\<close> and \<open>_gen_acode\<close> read a MAC or ARCnet address; \<open>atomac48\<close> stands for \<open>_pcapint_atomac48\<close>. The
  qualifiers \<open>v2\<close> to \<open>v4\<close> are bytes.
\<close>

definition gen_ecode ::
  "formatter \<Rightarrow> formatter \<Rightarrow> (memory \<Rightarrow> u32 \<Rightarrow> u32 \<Rightarrow> (memory \<times> u32) option) \<Rightarrow> u32 \<Rightarrow> memory \<Rightarrow> u32 \<Rightarrow> u32 \<Rightarrow> u32 \<Rightarrow> u32 \<Rightarrow> u32 \<Rightarrow>
    (memory \<times> u32) jump" where
  "gen_ecode vs sn atomac48 sp m v0 v1 v2 v3 v4 =
     (let v6 = sp - 16
      in if v2 AND 255 > 1 \<or> v3 AND 255 \<noteq> 1 then bpf_error vs sn v6 m v0 68339 0
         else jump_bind (lift (load32 m (unat v0 + 24)))
           (\<lambda>v2. if v2 \<notin> wlan_types \<union> ether_types \<union> {6, 10, 122} then fail_kw_on_dlt vs sn v6 m v0 71190
             else jump_bind (lift (atomac48 m v1 (v6 + 10)))
               (\<lambda>(m, t4). if t4 \<noteq> 0 then gen_mac48host vs sn v6 m v0 (v6 + 10) (v4 AND 255) 71190
                 else gen_error vs sn v6 m v0 72240 v6 [(0, v1)])))"

definition gen_acode :: "formatter \<Rightarrow> formatter \<Rightarrow> u32 \<Rightarrow> memory \<Rightarrow> u32 \<Rightarrow> u32 \<Rightarrow> u32 \<Rightarrow> u32 \<Rightarrow> u32 \<Rightarrow> (memory \<times> u32) jump" where
  "gen_acode vs sn sp m v0 v1 v2 v3 v4 =
     (let v6 = sp - 48; v7 = v4 AND 255
      in if v7 \<ge> 5 then dir_error vs sn v6 m v0 65563 (v6 + 32) v7
         else if v2 AND 255 \<ge> 2 then type_error vs sn v6 m v0 v6 (\<lambda>t. [(4, 71228), (0, t)]) (v2 AND 255)
         else if v3 AND 255 \<noteq> 1 then bpf_error vs sn v6 m v0 72467 0
         else jump_bind (lift (atoan m v1 (v6 + 47)))
           (\<lambda>(m, t1). if t1 = 0 then gen_error vs sn v6 m v0 72268 (v6 + 16) [(0, v1)]
             else jump_bind (lift (load8 m (unat v6 + 47)))
               (\<lambda>t2. gen_mac8host vs sn v6 m v0 t2 (v4 AND 255) 71218)))"

text \<open>
  \<open>_gen_mcode\<close> and \<open>_gen_mcode6\<close> read a network: an address, and a mask or the length of a prefix. No bit of the
  address may be outside of the mask. \<open>pton\<close> stands for \<open>_inet_pton\<close>.
\<close>

definition gen_mcode ::
  "formatter \<Rightarrow> formatter \<Rightarrow> u32 \<Rightarrow> memory \<Rightarrow> u32 \<Rightarrow> u32 \<Rightarrow> u32 \<Rightarrow> u32 \<Rightarrow> u32 \<Rightarrow> u32 \<Rightarrow> u32 \<Rightarrow> (memory \<times> u32) jump" where
  "gen_mcode vs sn sp m v0 v1 v2 v3 v4 v5 v6 =
     (let v8 = sp - 1168;
          bad = (\<lambda>m a v. gen_error vs sn v8 m v0 72295 a [(0, v)]);
          l2 = (\<lambda>m. jump_bind (lift (load32 m (unat v8 + 1164)))
            (\<lambda>t7. jump_bind (lift (load32 m (unat v8 + 1160)))
              (\<lambda>t8. if t7 AND NOT t8 \<noteq> 0 then gen_error vs sn v8 m v0 72569 (v8 + 64) [(0, v8 + 128)]
                else if v4 AND 255 = 2 then
                  gen_host vs sn v8 m v0 1 (v8 + 1164) (v8 + 1160) (v5 AND 255) (v6 AND 255) 0 71431
                else type_error vs sn v8 m v0 (v8 + 48) (\<lambda>t. [(0, t), (4, v8 + 128)]) (v4 AND 255))))
      in if v5 AND 255 = 12 then
           type_error vs sn v8 m v0 v8 (\<lambda>t. [(4, t), (0, 66413)]) (if v4 AND 255 \<le> 1 then 1 else v4 AND 255)
         else jump_bind (lift (atoin m v1 (v8 + 1164)))
           (\<lambda>(m, v9). if sint v9 < 0 then bad m (v8 + 16) v1
             else jump_bind (lift (do {
                 t2 \<leftarrow> load32 m (unat v8 + 1164);
                 store32 m (unat v8 + 1164) (i32_shl t2 (32 - v9))
               }))
               (\<lambda>m. if v2 \<noteq> 0 then
                   jump_bind (lift (atoin m v2 (v8 + 1160)))
                     (\<lambda>(m, v3). if sint v3 < 0 then bad m (v8 + 96) v2
                       else jump_bind (lift (do {
                           m \<leftarrow> put_words m (unat v8) [(112, v1), (116, v2)];
                           t4 \<leftarrow> load32 m (unat v8 + 1160);
                           m \<leftarrow> store32 m (unat v8 + 1160) (i32_shl t4 (32 - v3));
                           sn v8 m (v8 + 128) 1024 67434 (v8 + 112)
                         })) l2)
                 else if v3 \<ge> 33 then gen_error vs sn v8 m v0 65935 (v8 + 32) [(8, 32), (4, v3), (0, 69690)]
                 else jump_bind (lift (do {
                     m \<leftarrow> put_words m (unat v8) [(80, v1), (84, v3), (1160, ucast (push_bit (unat (32 - v3)) (0xffffffff :: u64)))];
                     sn v8 m (v8 + 128) 1024 65929 (v8 + 80)
                   })) l2)))"

definition prefix_mask :: "memory \<Rightarrow> u32 \<Rightarrow> u32 \<Rightarrow> memory option" where
  "prefix_mask m a v2 =
     (let v8 = drop_bit 3 v2; v9 = v2 AND 7
      in do {
        m \<leftarrow> store64 m (unat a + 8) 0;
        m \<leftarrow> store64 m (unat a) 0;
        m \<leftarrow> if v8 \<noteq> 0 then memory_fill m (unat a) 255 (unat v8) else Some m;
        if v9 \<noteq> 0 then store8 m (unat (a + v8)) (drop_bit (unat v9) 0xff00) else Some m
      })"

fun outside_mask :: "memory \<Rightarrow> nat \<Rightarrow> nat \<Rightarrow> nat list \<Rightarrow> bool option" where
  "outside_mask m a msk [] = Some False"
| "outside_mask m a msk (off # offs) =
     do {
       t2 \<leftarrow> load32 m (a + off);
       t3 \<leftarrow> load32 m (msk + off);
       if t2 AND NOT t3 \<noteq> 0 then Some True else outside_mask m a msk offs
     }"

definition gen_mcode6 ::
  "formatter \<Rightarrow> formatter \<Rightarrow> (memory \<Rightarrow> u32 \<Rightarrow> u32 \<Rightarrow> u32 \<Rightarrow> (memory \<times> u32) option) \<Rightarrow> u32 \<Rightarrow> memory \<Rightarrow>
    u32 \<Rightarrow> u32 \<Rightarrow> u32 \<Rightarrow> u32 \<Rightarrow> u32 \<Rightarrow> u32 \<Rightarrow> (memory \<times> u32) jump" where
  "gen_mcode6 vs sn pton sp m v0 v1 v2 v3 v4 v5 =
     (let v7 = sp - 224; v8 = v3 AND 255;
          print = (\<lambda>m a. do { m \<leftarrow> put_words m (unat a) [(4, v2), (0, v1)]; sn v7 m (v7 + 128) 51 65929 a });
          host = (\<lambda>m. gen_host6 vs sn v7 m v0 1 (v7 + 208) (v7 + 192) (v4 AND 255) (v5 AND 255) 0
            (if v3 AND 255 = 1 then 71465 else 71413))
      in jump_bind (lift (pton m 2 v1 (v7 + 208)))
        (\<lambda>(m, t1). if t1 \<noteq> 1 then gen_error vs sn v7 m v0 66767 (v7 + 112) [(0, v1)]
          else if v2 \<ge> 129 then gen_error vs sn v7 m v0 65885 v7 [(0, 128)]
          else jump_bind (lift (prefix_mask m (v7 + 192) v2))
            (\<lambda>m. jump_bind (lift (outside_mask m (unat v7 + 208) (unat v7 + 192) [0, 4, 8, 12]))
              (\<lambda>out. if out then gen_error vs sn v7 m v0 72688 (v7 + 96) [(4, v2), (0, v1)]
                else if v8 = 2 then host m
                else if v8 \<ge> 2 then
                  if v2 = 128 then type_error vs sn v7 m v0 (v7 + 16) (\<lambda>t. [(4, v1), (0, t)]) v8
                  else jump_bind (lift (print m (v7 + 48)))
                    (\<lambda>m. type_error vs sn v7 m v0 (v7 + 32) (\<lambda>t. [(0, t), (4, v7 + 128)]) v8)
                else if v2 = 128 then host m
                else jump_bind (lift (print m (v7 + 80)))
                  (\<lambda>m. gen_error vs sn v7 m v0 72321 (v7 + 64) [(0, 66011), (4, v7 + 128)])))))"

text \<open>
  \<open>_gen_ncode\<close>: a number or an IPv4 address \<open>v2\<close>, as text at \<open>v1\<close> unless that is 0, with the qualifiers \<open>v3\<close> (the
  kind of thing), \<open>v4\<close> (the protocol) and \<open>v5\<close> (the direction). A network without a mask has as many bytes as
  its number needs. The numbers of the transport protocols are in a table at 74720; the protocol chain is a
  parameter. For a port, the code for IPv6 comes first; its number is read again (\<open>t37\<close>).
\<close>

lemma network_mask_grows:
  assumes "v2 - 1 < (0xffffff :: u32)"
  shows "unat v2 < unat (push_bit 8 v2)"
proof -
  have n: "unat (v2 - 1) < 0xffffff" using assms by (simp add: word_less_nat_alt)
  have nz: "v2 \<noteq> 0" using assms by auto
  then have p: "0 < unat v2" by (simp add: unat_gt_0)
  have "unat (v2 - 1) = unat v2 - 1" using nz by (simp add: unat_minus_one)
  then have "unat v2 * 256 < 2 ^ 32" using n p by simp
  then have "take_bit 32 (push_bit 8 (unat v2)) = unat v2 * 256" by (simp add: take_bit_nat_eq_self push_bit_eq_mult)
  moreover have "unat (push_bit 8 v2) = take_bit 32 (push_bit 8 (unat v2))"
    using unsigned_push_bit_eq [of 8 v2] by (simp only: len_num1 len_num0 len_bit0) simp
  ultimately show ?thesis using p by (simp only:)
qed

function network_mask :: "u32 \<Rightarrow> u32 \<Rightarrow> u32 \<times> u32" where
  "network_mask v1 v2 = (if v2 - 1 < 0xffffff then network_mask (push_bit 8 v1) (push_bit 8 v2) else (v1, v2))"
  by pat_completeness auto

termination
proof (relation "measure (\<lambda>(_, v2). 2 ^ 32 - unat v2)")
  fix v1 v2 :: u32
  assume a: "v2 - 1 < 0xffffff"
  have "unat v2 < 2 ^ 32" using unsigned_less [of v2] by simp
  then show "((push_bit 8 v1, push_bit 8 v2), (v1, v2)) \<in> measure (\<lambda>(_, v2). 2 ^ 32 - unat v2)"
    using diff_less_mono2 [OF network_mask_grows [OF a]] by (simp only: in_measure split_conv)
qed simp

declare network_mask.simps [simp del]

definition ncode_error ::
  "formatter \<Rightarrow> formatter \<Rightarrow> u32 \<Rightarrow> memory \<Rightarrow> u32 \<Rightarrow> u32 \<Rightarrow> (memory \<times> u32) jump" where
  "ncode_error vs sn v7 m v0 v2 =
     (if v2 = 255 then bpf_error vs sn v7 m v0 68305 0
      else type_error vs sn v7 m v0 (v7 + 64) (\<lambda>t. [(0, t), (4, v7 + 176)]) v2)"

definition ncode_decnet :: "formatter \<Rightarrow> formatter \<Rightarrow> u32 \<Rightarrow> u32 \<Rightarrow> u32 \<Rightarrow> u32 \<Rightarrow> u32 \<Rightarrow> u32 \<Rightarrow> gen" where
  "ncode_decnet vs sn v7 v0 v1 v2 v3 v5 m =
     (if v5 AND 255 \<ge> 5 then dir_error vs sn v7 m v0 65563 (v7 + 48) (v5 AND 255)
      else if v3 AND 255 \<ge> 2 then type_error vs sn v7 m v0 v7 (\<lambda>t. [(4, t), (0, 66413)]) (v3 AND 255)
      else if v1 = 0 then gen_error vs sn v7 m v0 72084 (v7 + 16) [(0, v2)]
      else jump_bind (lift (atodn m v1 (v7 + 176)))
        (\<lambda>(m, t1). if t1 = 0 then gen_error vs sn v7 m v0 72180 (v7 + 32) [(0, v1)]
          else joined gen_and (\<lambda>m. gen_linktype vs sn v7 m v0 24579)
            (\<lambda>m. jump_bind (lift (load16 m (unat v7 + 176))) (\<lambda>t3. gen_dnhostop vs sn v7 m v0 (ucast t3) (v5 AND 255))) m))"

definition ncode_address :: "formatter \<Rightarrow> formatter \<Rightarrow> u32 \<Rightarrow> u32 \<Rightarrow> u32 \<Rightarrow> u32 \<Rightarrow> u32 \<Rightarrow> u32 \<Rightarrow> u32 \<Rightarrow> gen" where
  "ncode_address vs sn v7 v0 v1 v3 v4 v5 v9 m =
     (if v4 AND 255 = 1 then gen_error vs sn v7 m v0 72208 (v7 + 80) [(0, v7 + 176)]
      else jump_bind (lift (do {
          v2 \<leftarrow> load32 m (unat v7 + 1212);
          let (v1, v2) = (if v1 \<noteq> 0 \<or> v3 AND 255 \<noteq> 2 then (i32_shl (- 1) v9, i32_shl v2 v9) else network_mask (- 1) v2);
          put_words m (unat v7) [(1212, v2), (1208, v1)]
        }))
        (\<lambda>m. gen_host vs sn v7 m v0 1 (v7 + 1212) (v7 + 1208) (v4 AND 255) (v5 AND 255) 0
          (if v3 AND 255 = 2 then 71505 else 71485)))"

definition port_of_number ::
  "formatter \<Rightarrow> formatter \<Rightarrow> u32 \<Rightarrow> u32 \<Rightarrow> u32 \<Rightarrow> (memory \<Rightarrow> u32 option) \<Rightarrow> u32 \<Rightarrow> u32 \<Rightarrow> u32 \<Rightarrow> gen" where
  "port_of_number vs sn v7 v0 v2 t37 v1 v5 v3 =
     joined (swapped gen_or) (\<lambda>m. gen_port vs sn v7 m v0 v2 v1 v5 v3)
       (\<lambda>m. jump_bind (lift (t37 m)) (\<lambda>t37. gen_port6 vs sn v7 m v0 t37 v1 v5 v3))"

definition ncode_port :: "formatter \<Rightarrow> formatter \<Rightarrow> u32 \<Rightarrow> u32 \<Rightarrow> u32 \<Rightarrow> u32 \<Rightarrow> u32 \<Rightarrow> gen" where
  "ncode_port vs sn v7 v0 v3 v4 v5 m =
     (if v4 AND 255 \<notin> {0, 5, 6, 7} then
        jump_bind (lift (do {
            (m, t63) \<leftarrow> pqkw sn v7 m (v4 AND 255);
            m \<leftarrow> store32 m (unat v7 + 112) t63;
            t64 \<leftarrow> load32 m (unat (push_bit 2 (v3 AND 255)) + 74080);
            store32 m (unat v7 + 116) t64
          }))
          (\<lambda>m. bpf_error vs sn v7 m v0 72321 (v7 + 112))
      else jump_bind (lift (load32 m (unat v7 + 1212)))
        (\<lambda>v2. if v2 \<ge> 65536 then gen_error vs sn v7 m v0 65935 (v7 + 96) [(8, 0xffff), (4, v2), (0, 67573)]
          else jump_bind (lift (load32 m (unat (push_bit 2 (v4 AND 255)) + 74720)))
            (\<lambda>t31. port_of_number vs sn v7 v0 v2 (\<lambda>m. map_option ucast (load16 m (unat v7 + 1212))) t31
              (v5 AND 255) (v3 AND 255) m)))"

definition gen_ncode ::
  "formatter \<Rightarrow> formatter \<Rightarrow> (u32 \<Rightarrow> memory \<Rightarrow> u32 \<Rightarrow> u32 \<Rightarrow> u32 \<Rightarrow> (memory \<times> u32) jump) \<Rightarrow> u32 \<Rightarrow> memory \<Rightarrow>
    u32 \<Rightarrow> u32 \<Rightarrow> u32 \<Rightarrow> u32 \<Rightarrow> u32 \<Rightarrow> u32 \<Rightarrow> (memory \<times> u32) jump" where
  "gen_ncode vs sn protochain sp m v0 v1 v2 v3 v4 v5 =
     (let v7 = sp - 1216;
          number = (\<lambda>m. lift (load32 m (unat v7 + 1212)));
          l7 = (\<lambda>v9 m. if v3 AND 255 \<le> 2 then ncode_address vs sn v7 v0 v1 v3 v4 v5 v9 m
            else if v3 AND 255 = 3 \<or> v3 AND 255 = 7 then ncode_port vs sn v7 v0 v3 v4 v5 m
            else if v3 AND 255 = 5 then jump_bind (number m) (\<lambda>t59. gen_proto vs sn v7 m v0 t59 (v4 AND 255))
            else if v3 AND 255 = 6 then jump_bind (number m) (\<lambda>t56. protochain v7 m v0 t56 (v4 AND 255))
            else ncode_error vs sn v7 m v0 (v3 AND 255))
      in jump_bind (lift (store32 m (unat v7 + 1212) v2))
        (\<lambda>m. if v4 AND 255 = 12 then ncode_decnet vs sn v7 v0 v1 v2 v3 v5 m
          else if v1 = 0 then
            jump_bind (lift (do { m \<leftarrow> store32 m (unat v7 + 128) v2; sn v7 m (v7 + 176) 1024 66000 (v7 + 128) })) (l7 0)
          else jump_bind (lift (atoin m v1 (v7 + 1212)))
            (\<lambda>(m, v2). if sint v2 < 0 then gen_error vs sn v7 m v0 72295 (v7 + 144) [(0, v1)]
              else jump_bind (lift (do { m \<leftarrow> store32 m (unat v7 + 160) v1; sn v7 m (v7 + 176) 1024 67476 (v7 + 160) }))
                (l7 (32 - v2)))))"

end
