(* ===== verification/Codegen_Made.thy ===== *)
theory Codegen_Made
  imports Codegen_Protocols
begin

text \<open>
  What the generators of single fields and of protocols make: a field test makes the code of the test
  (\<open>makes_field\<close>, \<open>makes_masked\<close>, \<open>makes_transport\<close>), and the functions for protocols and ports make the
  code of the expressions \<open>ip_upper_cond\<close>, \<open>port_cond\<close> and their like, by the rules of \<open>Codegen_Expr\<close>.
\<close>

section \<open>Fields\<close>

lemma rel_load_plain: "rel_load vs sn sp m v0 0 k sz = new_stmt vs sn sp m v0 (sz OR 32) k"
  by (simp add: rel_load_def new_stmt_def)

lemma place_at:
  "\<forall>off \<in> set offs. load32 m (unat h + off) = Some (c off) \<Longrightarrow> place h offs k m = Some (sum_list (map c offs) + k)"
  by (induction offs) (simp_all add: add.assoc)

text \<open>The field at \<open>off\<close> of the header \<open>rel\<close>, in the words of the handle.\<close>

definition field_at :: "u32 \<Rightarrow> nat list \<Rightarrow> u32 \<Rightarrow> u32 \<Rightarrow> u32 \<Rightarrow> bool" where
  "field_at part offs k rel off \<longleftrightarrow> part \<in> {60, 72, 96, 108} \<and> set offs \<subseteq> {64, 76, 100, 112, 172, 176} \<and> rel \<noteq> 8 \<and>
     (\<forall>c. load_offset c rel off = sum_list (map c offs) + k)"

lemma field_at_headers:
  "field_at 60 [64] k 1 k" "field_at 72 [76] k 2 k" "field_at 96 [100] k 3 k" "field_at 108 [112] k 5 k"
  "field_at 96 [100, 172] k 6 k" "field_at 96 [100, 176] k 7 k" "field_at 96 [176, 100] k 7 k"
  "field_at 96 [172, 100] (k + 40) 9 k"
  by (simp_all add: field_at_def load_offset_def)

lemma field_load_built:
  assumes ok: "arena_ok A m" and link: "link_at c (handle A) m" and room: "has_room 20 A"
    and f: "field_at part offs k rel off"
  obtains m' p where "field_load vs sn sp m (handle A) part offs k sz = Ret (m', p)"
    "built A (next_arena 20 A) m m' [(p, sz OR 32, load_offset c rel off)] p" "p \<noteq> 0"
proof -
  have "\<forall>i \<in> set offs. load32 m (unat (handle A) + i) = Some (c i)" using f link by (auto simp: field_at_def link_at_def)
  then have "place (handle A) offs k m = Some (load_offset c rel off)" using f place_at by (simp add: field_at_def)
  moreover have "gen_abs_offset_varpart vs sn sp m (handle A) (handle A + part) = Ret (m, 0)"
    by (rule no_varpart [OF link]) (use f in \<open>auto simp: field_at_def\<close>)
  ultimately have e: "field_load vs sn sp m (handle A) part offs k sz =
      new_stmt vs sn sp m (handle A) (sz OR 32) (load_offset c rel off)"
    by (simp add: field_load_def rel_load_plain)
  obtain m' p where "new_stmt vs sn sp m (handle A) (sz OR 32) (load_offset c rel off) = Ret (m', p)"
    "built A (next_arena 20 A) m m' [(p, sz OR 32, load_offset c rel off)] p"
    by (rule new_stmt_built [OF ok room, of vs sn sp "sz OR 32" "load_offset c rel off"])
  then show thesis using that e by (simp add: built_def)
qed

lemma test_block_made:
  assumes b: "built A A1 m m1 xs p" and room: "has_room 212 A1"
  obtains m' b where "test_block vs sn sp m1 (handle A1) code k p = Ret (m', b)" "made A (next_arena 212 A1) m m' xs code k b"
proof -
  obtain m2 b m' where r: "newchunk_nolongjmp vs sp m1 (handle A1) 212 = Some (m2, b)" "b \<noteq> 0"
    "put_words m2 (unat b) [(8, code), (20, k), (4, p), (96, b)] = Some m'"
    "made A (next_arena 212 A1) m m' xs code k b"
    by (rule add_block [OF b room, of "\<lambda>b. [(8, code), (20, k), (4, p), (96, b)]" code k vs sp]) auto
  have "test_block vs sn sp m1 (handle A1) code k p = Ret (m', b)"
    using newchunk_Ret [OF r(1,2)] r(3) by (auto simp: test_block_def bind_eq_Some_conv lift_def split: option.splits)
  then show thesis using r(4) by (rule that)
qed

lemma masked_test_made:
  assumes ok: "arena_ok A m" and link: "link_at c (handle A) m" and f: "field_at part offs k rel off"
    and room: "fits (20 # mask_requests msk @ [212]) A"
  obtains m' b xs where "jump_bind (field_load vs sn sp m (handle A) part offs k sz)
      (\<lambda>(m, v5). jump_bind (if msk \<noteq> - 1 then append_stmt vs sn sp (handle A) v5 m 84 msk else Ret m)
        (\<lambda>m. test_block vs sn sp m (handle A) code v v5)) = Ret (m', b)"
    "made A (after (20 # mask_requests msk @ [212]) A) m m' xs code v b"
    "map snd xs = masked [(sz OR 32, load_offset c rel off)] msk"
proof -
  let ?A1 = "next_arena 20 A"
  have r1: "has_room 20 A" using room by simp
  obtain m1 p where l: "field_load vs sn sp m (handle A) part offs k sz = Ret (m1, p)"
    "built A ?A1 m m1 [(p, sz OR 32, load_offset c rel off)] p" "p \<noteq> 0"
    by (rule field_load_built [OF ok link r1 f, of vs sn sp sz])
  have len: "length m \<le> length m1" using l(2) by (simp add: built_def)
  have r2: "fits (mask_requests msk) ?A1" using room by simp
  obtain m2 ys where y: "(if msk \<noteq> - 1 then append_stmt vs sn sp (handle ?A1) p m1 84 msk else Ret m1) = Ret m2"
    "built A (after (mask_requests msk) ?A1) m m2 ys p" "map snd ys = masked (map snd [(p, sz OR 32, load_offset c rel off)]) msk"
    by (rule add_mask [OF l(2,3) r2, of vs sn sp])
  have len2: "length m \<le> length m2" using y(2) by (simp add: built_def)
  have r3: "has_room 212 (after (mask_requests msk) ?A1)" using room by simp
  obtain m' b where b: "test_block vs sn sp m2 (handle (after (mask_requests msk) ?A1)) code v p = Ret (m', b)"
    "made A (next_arena 212 (after (mask_requests msk) ?A1)) m m' ys code v b"
    by (rule test_block_made [OF y(2) r3, of vs sn sp code v])
  have x: "made A (after (20 # mask_requests msk @ [212]) A) m m' ys code v b" using b(2) by simp
  have y3: "map snd ys = masked [(sz OR 32, load_offset c rel off)] msk" using y(3) by simp
  show thesis by (rule that [OF _ x y3]) (use l(1) y(1) b(1) in \<open>auto split: if_splits\<close>)
qed

text \<open>Tests of a field: a comparison with \<open>v\<close>, or another relation.\<close>

lemma field_test_masked:
  "field_test vs sn sp m h part offs k sz code v = jump_bind (field_load vs sn sp m h part offs k sz)
      (\<lambda>(m, v5). jump_bind (if (- 1 :: u32) \<noteq> - 1 then append_stmt vs sn sp h v5 m 84 (- 1) else Ret m)
        (\<lambda>m. test_block vs sn sp m h code v v5))"
  by (simp add: field_test_def)

lemma makes_field:
  assumes f: "field_at part offs k rel off" and sz: "sz \<in> {0, 8, 16}"
    and t: "code = 21 \<and> t = Cmp rel off sz v \<or> (\<exists>jt \<in> {16, 32, 48, 64}. code = jt OR 5 \<and> t = Ncmp rel off sz (- 1) jt v)"
  shows "makes P (\<lambda>h m. field_test vs sn sp m h part offs k sz code v) (Leaf t) [20, 212]"
proof -
  have rel: "rel \<noteq> 8" using f by (simp add: field_at_def)
  have tr: "test_requests t = [20, 212]" "test_code t = code" "test_value t = v" "test_ok t"
    "test_body c t = [(sz OR 32, load_offset c rel off)]" for c
    using t rel sz by (auto simp: load_requests_def mask_requests_def load_body_def masked_def)
  have "makes P (\<lambda>h m. field_test vs sn sp m h part offs k sz code v) (Leaf t) (test_requests t)"
  proof (rule makes_leaf [OF tr(4)])
    fix c A m
    assume a: "arena_ok A m" "link_at c (handle A) m" "fits (test_requests t) A"
    have room: "fits (20 # mask_requests (- 1) @ [212]) A" using a(3) by (simp add: tr mask_requests_def)
    obtain m' b xs where "field_test vs sn sp m (handle A) part offs k sz code v = Ret (m', b)"
      "made A (after (20 # mask_requests (- 1) @ [212]) A) m m' xs code v b"
      "map snd xs = masked [(sz OR 32, load_offset c rel off)] (- 1)"
      unfolding field_test_masked by (rule masked_test_made [OF a(1,2) f room, of vs sn sp sz code v])
    then show "\<exists>m' b xs. field_test vs sn sp m (handle A) part offs k sz code v = Ret (m', b) \<and>
        made A (after (test_requests t) A) m m' xs (test_code t) (test_value t) b \<and> map snd xs = test_body c t"
      unfolding tr by (auto simp: mask_requests_def masked_def)
  qed
  then show ?thesis by (simp only: tr)
qed

lemma makes_cmp:
  "field_at part offs k rel off \<Longrightarrow> sz \<in> {0, 8, 16} \<Longrightarrow>
    makes P (\<lambda>h m. field_test vs sn sp m h part offs k sz 21 v) (Leaf (Cmp rel off sz v)) [20, 212]"
  by (rule makes_field) simp_all

lemma makes_jump:
  "field_at part offs k rel off \<Longrightarrow> sz \<in> {0, 8, 16} \<Longrightarrow> jt \<in> {16, 32, 48, 64} \<Longrightarrow> code = jt OR 5 \<Longrightarrow>
    makes P (\<lambda>h m. field_test vs sn sp m h part offs k sz code v) (Leaf (Ncmp rel off sz (- 1) jt v)) [20, 212]"
  by (rule makes_field) auto

lemma makes_masked:
  assumes f: "field_at part offs k rel off" and sz: "sz \<in> {0, 8, 16}" and msk: "msk \<notin> {0, - 1}"
  shows "makes P (\<lambda>h m. masked_test vs sn sp m h part offs k sz msk 21 v) (Leaf (Mcmp rel off sz v msk)) [20, 20, 212]"
proof -
  have rel: "rel \<noteq> 8" using f by (simp add: field_at_def)
  have tr: "test_requests (Mcmp rel off sz v msk) = [20, 20, 212]" "test_ok (Mcmp rel off sz v msk)"
    "test_body c (Mcmp rel off sz v msk) = masked [(sz OR 32, load_offset c rel off)] msk" for c
    using rel sz msk by (auto simp: load_requests_def mask_requests_def load_body_def)
  have "makes P (\<lambda>h m. masked_test vs sn sp m h part offs k sz msk 21 v) (Leaf (Mcmp rel off sz v msk))
      (test_requests (Mcmp rel off sz v msk))"
  proof (rule makes_leaf [OF tr(2)])
    fix c A m
    assume a: "arena_ok A m" "link_at c (handle A) m" "fits (test_requests (Mcmp rel off sz v msk)) A"
    have room: "fits (20 # mask_requests msk @ [212]) A" using a(3) msk unfolding tr by (simp add: mask_requests_def)
    obtain m' b xs where "masked_test vs sn sp m (handle A) part offs k sz msk 21 v = Ret (m', b)"
      "made A (after (20 # mask_requests msk @ [212]) A) m m' xs 21 v b"
      "map snd xs = masked [(sz OR 32, load_offset c rel off)] msk"
      by (rule masked_test_made [OF a(1,2) f room, of vs sn sp sz 21 v]) (use msk in \<open>simp add: masked_test_def\<close>)
    then show "\<exists>m' b xs. masked_test vs sn sp m (handle A) part offs k sz msk 21 v = Ret (m', b) \<and>
        made A (after (test_requests (Mcmp rel off sz v msk)) A) m m' xs (test_code (Mcmp rel off sz v msk))
          (test_value (Mcmp rel off sz v msk)) b \<and> map snd xs = test_body c (Mcmp rel off sz v msk)"
      unfolding tr using msk by (auto simp: mask_requests_def)
  qed
  then show ?thesis by (simp only: tr)
qed

text \<open>A half word of the transport header of an IPv4 packet.\<close>

lemma makes_transport:
  assumes t: "code = 21 \<and> t = Cmp 8 off 8 v \<or> (\<exists>jt \<in> {16, 32, 48, 64}. code = jt OR 5 \<and> t = Ncmp 8 off 8 (- 1) jt v)"
  shows "makes P (\<lambda>h m. transport_test vs sn sp m h off code v) (Leaf t) [20, 20, 212]"
proof -
  have tr: "test_requests t = [20, 20, 212]" "test_code t = code" "test_value t = v" "test_ok t"
    "test_body c t = [(177, c 172 + c 100), (72, c 172 + (c 100 + off))]" for c
    using t by (auto simp: load_requests_def mask_requests_def load_body_def masked_def load_offset_def)
  have "makes P (\<lambda>h m. transport_test vs sn sp m h off code v) (Leaf t) (test_requests t)"
  proof (rule makes_leaf [OF tr(4)])
    fix c A m
    assume ok: "arena_ok A m" and link: "link_at c (handle A) m" and fit: "fits (test_requests t) A"
    have room: "has_room 20 A" "has_room 20 (next_arena 20 A)"
      "has_room 212 (next_arena 20 (next_arena 20 A))" using fit by (simp_all add: tr)
    obtain m1 p where r: "new_stmt vs sn sp m (handle A) 177 (c 172 + c 100) = Ret (m1, p)"
      "built A (next_arena 20 A) m m1 [(p, 177, c 172 + c 100)] p"
      by (rule new_stmt_built [OF ok room(1), of vs sn sp 177 "c 172 + c 100"])
    have p0: "p \<noteq> 0" and len: "length m \<le> length m1" using r(2) by (simp_all add: built_def)
    have link1: "link_at c (handle A) m1" using built_link [OF r(2) ok link] by simp
    obtain m2 q where 2: "new_stmt vs sn sp m1 (handle (next_arena 20 A)) 72 (c 172 + (c 100 + off)) = Ret (m2, q)"
      "built (next_arena 20 A) (next_arena 20 (next_arena 20 A)) m1 m2 [(q, 72, c 172 + (c 100 + off))] q"
      by (rule new_stmt_built [OF built_ok [OF r(2)] room(2), of vs sn sp 72 "c 172 + (c 100 + off)"])
    obtain m3 where 3: "sappend m2 p q = Some m3" "built A (next_arena 20 (next_arena 20 A)) m m3
        ([(p, 177, c 172 + c 100)] @ [(q, 72, c 172 + (c 100 + off))]) p"
      by (rule built_append [OF r(2) _ 2(2)]) simp
    have len3: "length m \<le> length m3" using 3(2) by (simp add: built_def)
    obtain m' b where 4: "test_block vs sn sp m3 (handle (next_arena 20 (next_arena 20 A))) code v p = Ret (m', b)"
      "made A (next_arena 212 (next_arena 20 (next_arena 20 A))) m m'
        ([(p, 177, c 172 + c 100)] @ [(q, 72, c 172 + (c 100 + off))]) code v b"
      by (rule test_block_made [OF 3(2) room(3), of vs sn sp code v])
    have "gen_loadx_iphdrlen vs sn sp m (handle A) = Ret (m1, p)"
      using no_varpart [OF link, of 96 vs sn sp] link r(1) by (simp add: gen_loadx_iphdrlen_def link_at_def)
    moreover have "place (handle A) [172, 100] off m1 = Some (c 172 + (c 100 + off))" using link1 by (simp add: link_at_def)
    moreover have "append_stmt vs sn sp (handle A) p m1 72 (c 172 + (c 100 + off)) = Ret m3"
      using 2(1) 3(1) by (auto simp: append_stmt_def new_stmt_def jump_bind_eq_Ret lift_eq_Ret bind_eq_Some_conv)
    ultimately have "transport_test vs sn sp m (handle A) off code v = Ret (m', b)"
      using 4(1) by (simp add: transport_test_def)
    then show "\<exists>m' b xs. transport_test vs sn sp m (handle A) off code v = Ret (m', b) \<and>
        made A (after (test_requests t) A) m m' xs (test_code t) (test_value t) b \<and> map snd xs = test_body c t"
      using 4(2) unfolding tr by (intro exI [of _ m'] exI [of _ b] exI) auto
  qed
  then show ?thesis by (simp only: tr)
qed

section \<open>The Internet protocols\<close>

lemma makes_ip_proto:
  "makes P (\<lambda>h m. gen_ip_proto vs sn sp m h p) (Leaf (Cmp 6 9 16 p)) [20, 212]"
  unfolding gen_ip_proto_def by (rule makes_cmp [OF field_at_headers(5)]) simp

lemma makes_ip6_proto:
  "makes P (\<lambda>h m. gen_ip6_proto vs sn sp m h p) (Leaf (Cmp 6 6 16 p)) [20, 212]"
  unfolding gen_ip6_proto_def by (rule makes_cmp [OF field_at_headers(5)]) simp

definition first_fragment :: "test cond" where
  "first_fragment = cond.Neg (Leaf (Ncmp 6 6 8 (- 1) 64 8191))"

lemma makes_ipfrag: "makes P (\<lambda>h m. gen_ipfrag vs sn sp m h) first_fragment [20, 212]"
  unfolding gen_ipfrag_def first_fragment_def
  by (rule makes_not [where f = "\<lambda>h m. field_test vs sn sp m h 96 [100, 172] 6 8 69 8191" for vs sn sp])
    (rule makes_jump [OF field_at_headers(5)], simp_all)

lemma makes_portatom: "makes P (\<lambda>h m. gen_portatom vs sn sp m h off n) (Leaf (Cmp 8 off 8 n)) [20, 20, 212]"
  unfolding gen_portatom_def by (rule makes_transport) simp

lemma makes_portatom6: "makes P (\<lambda>h m. gen_portatom6 vs sn sp m h off n) (Leaf (Cmp 9 off 8 n)) [20, 212]"
  unfolding gen_portatom6_def by (rule makes_cmp [OF field_at_headers(8)]) simp

text \<open>A range of ports is two bounds.\<close>

definition range_cond :: "u32 \<Rightarrow> u32 \<Rightarrow> u32 \<Rightarrow> u32 \<Rightarrow> test cond" where
  "range_cond rel off n k =
     Conj (Leaf (Ncmp rel off 8 (- 1) 48 (min n k))) (cond.Neg (Leaf (Ncmp rel off 8 (- 1) 32 (max n k))))"

lemma makes_portrangeatom:
  assumes "n \<noteq> k"
  shows "makes P (\<lambda>h m. gen_portrangeatom vs sn sp m h off n k) (range_cond 8 off n k) [20, 20, 212, 20, 20, 212]"
proof -
  have e: "(if n < k then n else k) = min n k" "(if n > k then n else k) = max n k" by auto
  have "makes P (\<lambda>h. joined gen_and (\<lambda>m. transport_test vs sn sp m h off 53 (min n k))
      (inverted (\<lambda>m. transport_test vs sn sp m h off 37 (max n k)))) (range_cond 8 off n k) ([20, 20, 212] @ [20, 20, 212])"
    unfolding range_cond_def by (intro makes_and makes_not makes_transport disjI2) simp_all
  then show ?thesis using assms by (simp add: gen_portrangeatom_def e)
qed

section \<open>The network protocol\<close>

text \<open>
  The test of a network protocol on Ethernet, where it does not need a SNAP header: an EtherType, or an LLC
  service access point behind a length field.
\<close>

definition ether_cond :: "u32 \<Rightarrow> test cond" where
  "ether_cond v1 =
     (if v1 = 6 \<or> v1 = 240 \<or> v1 = 254 then
        Conj (cond.Neg (Leaf (Ncmp 5 0 8 (- 1) 32 1500))) (Leaf (Cmp 3 0 8 (twice v1)))
      else if v1 \<le> 1500 then Conj (cond.Neg (Leaf (Ncmp 5 0 8 (- 1) 32 1500))) (Leaf (Cmp 5 2 16 v1))
      else Leaf (Cmp 5 0 8 v1))"

definition ether_requests :: "u32 \<Rightarrow> nat list" where
  "ether_requests v1 = (if v1 \<le> 1500 then [20, 212, 20, 212] else [20, 212])"

definition ether_proto :: "u32 \<Rightarrow> bool" where
  "ether_proto v1 \<longleftrightarrow> v1 \<notin> {224, 32923, 33011} \<and> (v1 < 256 \<or> 1500 < v1 \<and> v1 < 65536)"

lemma makes_is_llc: "makes P (\<lambda>h. is_llc vs sn sp h) (cond.Neg (Leaf (Ncmp 5 0 8 (- 1) 32 1500))) [20, 212]"
  unfolding is_llc_def
  by (rule makes_not [where f = "\<lambda>h m. field_test vs sn sp m h 108 [112] 0 8 37 1500" for vs sn sp])
    (rule makes_jump [OF field_at_headers(4)], simp_all)

lemma makes_ether:
  assumes "ether_proto v1"
  shows "makes P (\<lambda>h. ether_linktype vs sn sp h v1) (ether_cond v1) (ether_requests v1)"
proof -
  have llc: "makes P (\<lambda>h. joined gen_and (is_llc vs sn sp h) (\<lambda>m. field_test vs sn sp m h part offs k sz 21 v))
      (Conj (cond.Neg (Leaf (Ncmp 5 0 8 (- 1) 32 1500))) (Leaf (Cmp rel off sz v))) [20, 212, 20, 212]"
    if "field_at part offs k rel off" "sz \<in> {0, 8, 16}" for part offs k rel off sz v
    using makes_and [OF makes_is_llc makes_cmp [OF that]] by simp
  consider "v1 = 6 \<or> v1 = 240 \<or> v1 = 254" | "v1 < 256" "v1 \<noteq> 6" "v1 \<noteq> 240" "v1 \<noteq> 254" | "1500 < v1" "v1 < 65536"
    using assms unfolding ether_proto_def by blast
  then show ?thesis
  proof cases
    case 1
    then have "v1 \<le> 1500" by auto
    then have "ether_cond v1 = Conj (cond.Neg (Leaf (Ncmp 5 0 8 (- 1) 32 1500))) (Leaf (Cmp 3 0 8 (twice v1)))"
      "ether_requests v1 = [20, 212, 20, 212]" using 1 by (simp_all add: ether_cond_def ether_requests_def)
    then show ?thesis
      by (simp only:) (rule makes_cong [OF llc [OF field_at_headers(3)]], simp, use 1 in \<open>simp add: ether_linktype_def ether_osi_def ether_sap_def ether_type_def\<close>)
  next
    case 2
    then have "v1 \<le> 1500" "\<not> 256 \<le> v1" "v1 \<notin> {224, 32923, 33011}"
      using assms by (auto simp: ether_proto_def word_le_nat_alt word_less_nat_alt)
    moreover from this have "ether_cond v1 = Conj (cond.Neg (Leaf (Ncmp 5 0 8 (- 1) 32 1500))) (Leaf (Cmp 5 2 16 v1))"
      "ether_requests v1 = [20, 212, 20, 212]" using 2 by (simp_all add: ether_cond_def ether_requests_def)
    ultimately show ?thesis
      by (simp only:) (rule makes_cong [OF llc [OF field_at_headers(4)]], simp, use 2 in \<open>simp add: ether_linktype_def ether_osi_def ether_sap_def ether_type_def\<close>)
  next
    case 3
    then have "\<not> v1 \<le> 1500" "\<not> 65536 \<le> v1" "v1 \<notin> {6, 240, 254}" "v1 \<notin> {224, 32923, 33011}"
      using assms by (auto simp: ether_proto_def)
    moreover from this have "ether_cond v1 = Leaf (Cmp 5 0 8 v1)" "ether_requests v1 = [20, 212]"
      by (simp_all add: ether_cond_def ether_requests_def)
    ultimately show ?thesis
      by (simp only:) (rule makes_cong [OF makes_cmp [OF field_at_headers(4)]], simp, simp add: ether_linktype_def ether_osi_def ether_sap_def ether_type_def)
  qed
qed

lemma makes_linktype_ether:
  assumes "ether_proto v1"
  shows "makes (link_words 1) (\<lambda>h m. gen_linktype vs sn sp m h v1) (ether_cond v1) (ether_requests v1)"
proof (rule makes_cong [OF makes_ether [OF assms, of _ vs sn "sp - 112"]])
  fix h m
  assume "link_words 1 h m"
  then have w: "load32 m (unat h + 24) = Some 1" "load32 m (unat h + 28) = Some 1" "load32 m (unat h + 44) = Some 0"
    "load32 m (unat h + 124) = Some 0" by (simp_all add: link_words_def)
  have "gen_prevlinkhdr_check vs sn (sp - 112) m h = Ret (m, 0)" using w by (simp add: gen_prevlinkhdr_check_def)
  then show "gen_linktype vs sn sp m h v1 = ether_linktype vs sn (sp - 112) h v1 m"
    using w by (simp add: gen_linktype_def gen_ether_linktype_def split_def)
qed

section \<open>Ports\<close>

text \<open>
  The condition on the ports: at 0 and 2 of the header \<open>rel\<close>, in the direction \<open>dir\<close>; and on the transport
  protocol, at \<open>off\<close> of the network header, which is \<open>p\<close> or, if \<open>p\<close> is - 1, one of TCP, UDP and SCTP.
\<close>

definition port_cond :: "u32 \<Rightarrow> u32 \<Rightarrow> u32 \<Rightarrow> test cond" where
  "port_cond rel n dir =
     (let src = Leaf (Cmp rel 0 8 n); dst = Leaf (Cmp rel 2 8 n)
      in if dir = 1 then src else if dir = 2 then dst else if dir = 4 then Conj src dst else Disj src dst)"

definition port_requests :: "nat list \<Rightarrow> u32 \<Rightarrow> nat list" where
  "port_requests r dir = (if dir = 1 \<or> dir = 2 then r else r @ r)"

definition protos_cond :: "u32 \<Rightarrow> u32 \<Rightarrow> test cond" where
  "protos_cond off p =
     (let proto = (\<lambda>q. Leaf (Cmp 6 off 16 q))
      in if p = - 1 then Disj (proto 6) (Disj (proto 17) (proto 132)) else proto p)"

definition protos_requests :: "u32 \<Rightarrow> nat list" where
  "protos_requests p = (if p = - 1 then [20, 212, 20, 212, 20, 212] else [20, 212])"

lemma makes_either_port:
  assumes atom: "\<And>off. makes P (\<lambda>h. atom h off) (Leaf (Cmp rel off 8 n)) r" and dir: "dir \<in> {0, 1, 2, 3, 4}"
  obtains ports where "\<And>h. either_port (atom h) dir = Some (ports h)" "makes P ports (port_cond rel n dir) (port_requests r dir)"
proof -
  consider "dir = 1" | "dir = 2" | "dir = 4" | "dir = 0 \<or> dir = 3" using dir by blast
  then show thesis
  proof cases
    case 1
    with atom [of 0] show thesis
      by (intro that [of "\<lambda>h. atom h 0"]) (simp_all add: either_port_def port_cond_def port_requests_def)
  next
    case 2
    with atom [of 2] show thesis
      by (intro that [of "\<lambda>h. atom h 2"]) (simp_all add: either_port_def port_cond_def port_requests_def)
  next
    case 3
    with makes_and [OF atom [of 0] atom [of 2]] show thesis
      by (intro that [of "\<lambda>h. joined gen_and (atom h 0) (atom h 2)"]) (simp_all add: either_port_def port_cond_def port_requests_def Let_def)
  next
    case 4
    with makes_or [OF atom [of 0] atom [of 2]] show thesis
      by (intro that [of "\<lambda>h. joined gen_or (atom h 0) (atom h 2)"]) (auto simp: either_port_def port_cond_def port_requests_def Let_def)
  qed
qed

lemma makes_port_protos:
  assumes proto: "\<And>q. makes P (\<lambda>h. proto h q) (Leaf (Cmp 6 off 16 q)) [20, 212]" and p: "p \<in> {- 1, 6, 17, 132}"
  obtains protos where "\<And>h. port_protos (proto h) p = Some (protos h)" "makes P protos (protos_cond off p) (protos_requests p)"
proof (cases "p = - 1")
  case True
  with makes_or_swapped [OF makes_or_swapped [OF proto [of 132] proto [of 17]] proto [of 6]] show thesis
    by (intro that [of "\<lambda>h. joined (swapped gen_or) (joined (swapped gen_or) (proto h 132) (proto h 17)) (proto h 6)"])
      (simp_all add: port_protos_def protos_cond_def protos_requests_def)
next
  case False
  with p proto [of p] show thesis
    by (intro that [of "\<lambda>h. proto h p"]) (auto simp: port_protos_def protos_cond_def protos_requests_def)
qed

definition ip_port_cond :: "u32 \<Rightarrow> u32 \<Rightarrow> u32 \<Rightarrow> test cond" where
  "ip_port_cond n p dir =
     Conj (ether_cond 2048) (Conj (Conj (protos_cond 9 p) first_fragment) (port_cond 8 n dir))"

definition ip_port_requests :: "u32 \<Rightarrow> u32 \<Rightarrow> nat list" where
  "ip_port_requests p dir = (port_requests [20, 20, 212] dir @ protos_requests p @ [20, 212]) @ ether_requests 2048"

definition ip6_port_cond :: "u32 \<Rightarrow> u32 \<Rightarrow> u32 \<Rightarrow> test cond" where
  "ip6_port_cond n p dir = Conj (ether_cond 34525) (Conj (protos_cond 6 p) (port_cond 9 n dir))"

definition ip6_port_requests :: "u32 \<Rightarrow> u32 \<Rightarrow> nat list" where
  "ip6_port_requests p dir = (port_requests [20, 212] dir @ protos_requests p) @ ether_requests 34525"

lemma ip_ether_proto: "ether_proto 2048" "ether_proto 34525"
  by (simp_all add: ether_proto_def)

lemma makes_port:
  assumes p: "p \<in> {- 1, 6, 17, 132}" and dir: "dir \<in> {0, 1, 2, 3, 4}"
  shows "makes (link_words 1) (\<lambda>h m. gen_port vs sn sp m h n p dir typ) (ip_port_cond n p dir) (ip_port_requests p dir)"
proof -
  let ?v7 = "sp - 16" let ?w7 = "?v7 - 16"
  obtain ports where 1: "\<And>h. either_port (\<lambda>off m. gen_portatom vs sn ?v7 m h off n) dir = Some (ports h)"
    "makes (link_words 1) ports (port_cond 8 n dir) (port_requests [20, 20, 212] dir)"
    by (rule makes_either_port [where atom = "\<lambda>h off m. gen_portatom vs sn ?v7 m h off n" and P = "link_words 1",
        OF makes_portatom dir]) (rule that)
  obtain protos where 2: "\<And>h. port_protos (\<lambda>q m. gen_ip_proto vs sn ?w7 m h q) p = Some (protos h)"
    "makes (link_words 1) protos (protos_cond 9 p) (protos_requests p)"
    by (rule makes_port_protos [where proto = "\<lambda>h q m. gen_ip_proto vs sn ?w7 m h q" and P = "link_words 1",
        OF makes_ip_proto p]) (rule that)
  let ?g = "\<lambda>h. joined (swapped gen_and) (joined (swapped gen_and) (ports h)
      (joined gen_and (protos h) (\<lambda>m. gen_ipfrag vs sn ?w7 m h))) (\<lambda>m. gen_linktype vs sn ?w7 m h 2048)"
  have "makes (link_words 1) ?g (ip_port_cond n p dir) (ip_port_requests p dir)"
    unfolding ip_port_cond_def ip_port_requests_def
    by (intro makes_and_swapped makes_and 1(2) 2(2) makes_ipfrag makes_linktype_ether [OF ip_ether_proto(1)])
  moreover have "gen_port vs sn sp m h n p dir typ = ?g h m" for h m
    using 1(1) [of h] 2(1) [of h]
    by (simp add: gen_port_def gen_port_common_def joined_def swapped_def jump_bind_assoc split_def Let_def)
  ultimately show ?thesis by simp
qed

lemma makes_port6:
  assumes p: "p \<in> {- 1, 6, 17, 132}" and dir: "dir \<in> {0, 1, 2, 3, 4}"
  shows "makes (link_words 1) (\<lambda>h m. gen_port6 vs sn sp m h n p dir typ) (ip6_port_cond n p dir) (ip6_port_requests p dir)"
proof -
  let ?v7 = "sp - 16" let ?w7 = "?v7 - 16"
  obtain ports where 1: "\<And>h. either_port (\<lambda>off m. gen_portatom6 vs sn ?v7 m h off n) dir = Some (ports h)"
    "makes (link_words 1) ports (port_cond 9 n dir) (port_requests [20, 212] dir)"
    by (rule makes_either_port [where atom = "\<lambda>h off m. gen_portatom6 vs sn ?v7 m h off n" and P = "link_words 1",
        OF makes_portatom6 dir]) (rule that)
  obtain protos where 2: "\<And>h. port_protos (\<lambda>q m. gen_ip6_proto vs sn ?w7 m h q) p = Some (protos h)"
    "makes (link_words 1) protos (protos_cond 6 p) (protos_requests p)"
    by (rule makes_port_protos [where proto = "\<lambda>h q m. gen_ip6_proto vs sn ?w7 m h q" and P = "link_words 1",
        OF makes_ip6_proto p]) (rule that)
  let ?g = "\<lambda>h. joined (swapped gen_and) (joined (swapped gen_and) (ports h) (protos h)) (\<lambda>m. gen_linktype vs sn ?w7 m h 34525)"
  have "makes (link_words 1) ?g (ip6_port_cond n p dir) (ip6_port_requests p dir)"
    unfolding ip6_port_cond_def ip6_port_requests_def
    by (intro makes_and_swapped 1(2) 2(2) makes_linktype_ether [OF ip_ether_proto(2)])
  moreover have "gen_port6 vs sn sp m h n p dir typ = ?g h m" for h m
    using 1(1) [of h] 2(1) [of h]
    by (simp add: gen_port6_def gen_port6_common_def joined_def swapped_def jump_bind_assoc split_def Let_def)
  ultimately show ?thesis by simp
qed

section \<open>Protocols\<close>

text \<open>The protocol \<open>v1\<close> over IPv4 (\<open>q\<close> is 2), over IPv6 (17), where it may come after a fragment header, or either (0).\<close>

definition ip_upper_cond :: "u32 \<Rightarrow> test cond" where
  "ip_upper_cond v1 = Conj (ether_cond 2048) (Leaf (Cmp 6 9 16 v1))"

definition ip6_upper_cond :: "u32 \<Rightarrow> test cond" where
  "ip6_upper_cond v1 =
     Conj (ether_cond 34525) (Disj (Leaf (Cmp 6 6 16 v1)) (Conj (Leaf (Cmp 6 6 16 44)) (Leaf (Cmp 6 40 16 v1))))"

definition upper_cond :: "u32 \<Rightarrow> u32 \<Rightarrow> test cond" where
  "upper_cond q v1 =
     (if q = 2 then ip_upper_cond v1 else if q = 17 then ip6_upper_cond v1 else Disj (ip_upper_cond v1) (ip6_upper_cond v1))"

definition upper_requests :: "u32 \<Rightarrow> nat list" where
  "upper_requests q =
     (let four = ether_requests 2048 @ [20, 212]; six = ether_requests 34525 @ ([20, 212] @ [20, 212]) @ [20, 212]
      in if q = 2 then four else if q = 17 then six else four @ six)"

lemma makes_ip_upper:
  "makes (link_words 1) (\<lambda>h. ip_upper vs sn sp h v1) (ip_upper_cond v1) (ether_requests 2048 @ [20, 212])"
  unfolding ip_upper_def ip_upper_cond_def by (intro makes_and makes_linktype_ether [OF ip_ether_proto(1)] makes_ip_proto)

lemma makes_ip6_upper:
  "makes (link_words 1) (\<lambda>h. ip6_upper vs sn sp h v1) (ip6_upper_cond v1)
     (ether_requests 34525 @ ([20, 212] @ [20, 212]) @ [20, 212])"
  unfolding ip6_upper_def ip6_upper_cond_def
  by (intro makes_and makes_or_swapped makes_linktype_ether [OF ip_ether_proto(2)] makes_ip6_proto makes_cmp [OF field_at_headers(5)])
    simp

lemma makes_proto:
  assumes "q \<in> {0, 2, 17}" "v1 < 256"
  shows "makes (link_words 1) (\<lambda>h m. gen_proto vs sn sp m h v1 q) (upper_cond q v1) (upper_requests q)"
proof -
  have v1: "\<not> 256 \<le> v1" using assms(2) by simp
  let ?v7 = "sp - 96"
  consider "q = 0" | "q = 2" | "q = 17" using assms(1) by blast
  then show ?thesis
  proof cases
    case 1
    with v1 makes_or [OF makes_ip_upper [of vs sn ?v7 v1] makes_ip6_upper [of vs sn ?v7 v1]] show ?thesis
      by (simp add: gen_proto_def upper_cond_def upper_requests_def Let_def)
  next
    case 2
    with v1 makes_ip_upper [of vs sn ?v7 v1] show ?thesis by (simp add: gen_proto_def upper_cond_def upper_requests_def Let_def)
  next
    case 3
    with v1 makes_ip6_upper [of vs sn ?v7 v1] show ?thesis by (simp add: gen_proto_def upper_cond_def upper_requests_def Let_def)
  qed
qed

end
