(* ===== verification/Compile_Ports.thy ===== *)
theory Compile_Ports
  imports Compile_Setup Compile_Expr Codegen_Hosts Codegen_Made
begin

text \<open>
  The primitives \<open>port n\<close>, \<open>src port n\<close>, \<open>tcp dst port n\<close> and their like on Ethernet, from the code of
  \<open>_gen_ncode\<close>, which the action of the parser calls for a number, to the packets that the compiled program
  accepts (\<open>has_port\<close>).
\<close>

section \<open>Packets with a port\<close>








section \<open>The expression says that the packet has the port\<close>














section \<open>The expression and the packets\<close>






section \<open>The frame of \<open>_gen_ncode\<close>\<close>














section \<open>The property\<close>

















end
