(* ===== verification/Compile_Program.thy ===== *)
theory Compile_Program
  imports Compile_Setup
begin

text \<open>
  The compilation of a filter string as a whole: \<open>parser_reached\<close> is the state in which \<open>_pcap_compile\<close>
  calls the parser, and the locale \<open>filter_parser\<close> is what the parser owes the compiler.
\<close>

section \<open>The call of the parser\<close>

lemma constant_link_types:
  assumes "link_label dlt = Some l" "constant_link l"
  shows "dlt \<notin> {105, 117, 119, 127, 163, 192}"
proof
  assume d: "dlt \<in> {105, 117, 119, 127, 163, 192}"
  have "\<forall>d \<in> set [105, 117, 119, 127, 163, 192]. \<not> (case link_label d of Some l \<Rightarrow> constant_link l | None \<Rightarrow> False)"
    by (simp add: link_label_def link_cases_def constant_link_def)
  with d assms show False by fastforce
qed

text \<open>
  The arena at the call: the first chunk, from which nothing is taken yet. Above it the string was copied
  (\<open>scanner_end\<close> is the heap pointer then, if it was \<open>H\<close> before the chunk).
\<close>

definition scanner_end :: "nat \<Rightarrow> nat \<Rightarrow> nat" where
  "scanner_end H n = H + 1024 + 96 + round_up 4 (n + 2) + 48 + 16"

definition first_arena :: "u32 \<Rightarrow> nat \<Rightarrow> nat \<Rightarrow> arena" where
  "first_arena h H n = \<lparr>handle = h, chunk = 0, left = 1024, base = H, brk = scanner_end H n\<rparr>"

text \<open>
  What the parser finds: the arena, a link layer without variable parts, and a scanner over the string. The
  scanner is the word before the handle.
\<close>

definition scanner_span :: "u32 \<Rightarrow> u32 \<Rightarrow> nat set" where
  "scanner_span yy stk = span (unat yy) (unat stk + 16 - unat yy)"

definition scanner_at :: "arena \<Rightarrow> u32 \<Rightarrow> u32 \<Rightarrow> u32 \<Rightarrow> u32 \<Rightarrow> memory \<Rightarrow> bool" where
  "scanner_at A yy stk buf tx m \<longleftrightarrow> load32 m (unat (handle A) - 4) = Some yy \<and>
     (\<forall>x \<in> scanner_words yy stk buf tx. load32 m (fst x) = Some (snd x))"

definition parser_called ::
  "u32 \<Rightarrow> (nat \<Rightarrow> u32) \<Rightarrow> arena \<Rightarrow> u32 \<Rightarrow> u32 \<Rightarrow> u32 \<Rightarrow> u32 \<Rightarrow> u32 \<Rightarrow> u8 list \<Rightarrow> memory \<Rightarrow> bool" where
  "parser_called dlt c A snap yy stk buf tx s m \<longleftrightarrow> arena_ok A m \<and> 52 \<le> unat (handle A) \<and> link_at c (handle A) m \<and>
     link_words dlt (handle A) m \<and> plain_link (handle A) snap 0 m \<and> scanner_at A yy stk buf tx m \<and> cstr_at m (unat tx) s \<and>
     unat yy + 96 \<le> unat tx \<and> unat tx + length s + 2 \<le> unat buf \<and> unat stk = unat buf + 48 \<and> 127840 \<le> unat yy \<and>
     unat stk + 16 \<le> brk A \<and> scanner_span yy stk \<inter> touched A = {}"

lemma frame_word: "unat (v5 :: u32) + 432 \<le> 125436 \<Longrightarrow> unat (v5 + 52) = unat v5 + 52"
  by (intro unat_add_no_wrap [THEN trans]) simp_all

lemma parser_reached:
  assumes h: "fresh_heap m H L" and v5: "unat v5 + 432 \<le> 125436"
    and d: "dummy_at v0 dlt snap m" "127840 \<le> unat v0" "unat v0 + 512 \<le> H" "snap \<noteq> 0"
    and s: "cstr_at m (unat v2) s" "127840 \<le> unat v2" "unat v2 + length s < H" "length s + 2 < 2 ^ 31"
    and room: "scanner_end H (length s) \<le> 2 ^ 32"
    and l: "link_label dlt = Some l" "constant_link l"
  obtains m1 m2 m3 m' yy stk buf tx where "store32 m (unat v5 + 48) 0 = Some m1" "load32 m1 (unat v0 + 76) = Some 1"
    "do {
        m \<leftarrow> store_cells m1 v5 (clear_cells v0);
        m \<leftarrow> memory_zero m (unat (v5 + 300)) 132;
        (v6, m) \<leftarrow> calloc m 1 1024;
        m \<leftarrow> store32 m (unat v5 + 304) v6;
        Some (m, v6)
      } = Some (m2, of_nat H)"
    "start_scanner vsnprintf snprintf fprintf m2 v5 v0 v2 v4 (of_nat H) = Ret (m3, Inr buf)"
    "set_link_type vsnprintf m3 v5 v0 = Some (m', True)"
    "parser_called dlt (link_offsets l) (first_arena (v5 + 52) H (length s)) snap yy stk buf tx s m'" "unat yy = H + 1024"
    "length m \<le> length m'"
proof -
  note hb = fresh_heap_bounds [OF h]
  obtain f where f: "words_at f (unat v5) 432 m" using words_at_some [of "unat v5" 432 m] v5 hb by auto
  obtain m1 where m1: "store32 m (unat v5 + 48) 0 = Some m1" using store32_in [of "unat v5 + 48" m] v5 hb by auto
  have l1: "length m1 = length m" by (rule length_store32 [OF m1])
  have w1: "words_at (f(48 := 0)) (unat v5) 432 m1" by (rule words_at_store [OF f m1]) simp
  have h1: "fresh_heap m1 H L" by (rule fresh_heap_kept [OF h kept_store32 [OF m1] l1]) (use hb v5 in auto)
  have d1: "dummy_at v0 dlt snap m1" by (rule dummy_at_kept [OF d(1) kept_store32 [OF m1]]) (use d v5 in auto)
  obtain m2 g where m2: "do {
        m \<leftarrow> store_cells m1 v5 (clear_cells v0);
        m \<leftarrow> memory_zero m (unat (v5 + 300)) 132;
        (v6, m) \<leftarrow> calloc m 1 1024;
        m \<leftarrow> store32 m (unat v5 + 304) v6;
        Some (m, v6)
      } = Some (m2, of_nat H)"
    "words_at g (unat v5) 432 m2" "\<And>off. off \<in> {64, 68, 108} \<Longrightarrow> g off = 0" "g 304 = of_nat H"
    "\<And>off. 308 \<le> off \<Longrightarrow> off < 432 \<Longrightarrow> g off = 0"
    "fresh_heap m2 (H + 1024) H" "unat (of_nat H :: u32) = H" "kept (own_bytes \<union> span (unat v5) 432) m1 m2" "length m1 \<le> length m2"
    "\<forall>i. H \<le> i \<longrightarrow> i < length m2 \<longrightarrow> m2 ! i = 0"
    by (rule clear_frame_at [OF w1 v5 h1, of v0]) (use room in \<open>simp_all add: scanner_end_def\<close>)
  have k12: "kept (own_bytes \<union> span (unat v5) 432) m m2"
    by (rule kept_trans [OF kept_mono [OF kept_store32 [OF m1]] m2(8)]) auto
  have d2: "dummy_at v0 dlt snap m2" by (rule dummy_at_kept [OF d(1) k12]) (use d v5 in \<open>auto simp: Int_Un_distrib\<close>)
  have s2: "cstr_at m2 (unat v2) s" by (rule cstr_at_reach [OF s(1) k12]) (use s v5 in \<open>auto simp: own_bytes_def\<close>)
  have nz: "(of_nat H :: u32) \<noteq> 0" using m2(7) hb by auto
  obtain m3 tx buf stk yy where m3: "start_scanner vsnprintf snprintf fprintf m2 v5 v0 v2 v4 (of_nat H) = Ret (m3, Inr buf)"
    "words_at (g(88 := v4, 300 := 1024, 72 := snap, 48 := yy)) (unat v5) 432 m3"
    "fresh_heap m3 (unat stk + 16) (unat stk)" "unat yy = H + 1024" "unat tx = H + 1024 + 96"
    "unat buf = H + 1024 + 96 + round_up 4 (length s + 2)"
    "unat stk = unat buf + 48" "\<forall>x \<in> scanner_words yy stk buf tx. load32 m3 (fst x) = Some (snd x)" "cstr_at m3 (unat tx) s"
    "kept (own_bytes \<union> span (unat v5) 432 \<union> {H + 1024..}) m2 m3" "length m2 \<le> length m3"
    by (rule start_scanner_at [OF m2(2) v5 m2(6) d2 d(2) _ d(4) nz s2 s(2) _ s(4), of vsnprintf snprintf fprintf v4])
      (use d(3) s(3) room in \<open>simp_all add: scanner_end_def\<close>)
  let ?g = "g(88 := v4, 300 := 1024, 72 := snap, 48 := yy)"
  have d3: "dummy_at v0 dlt snap m3" by (rule dummy_at_kept [OF d2 m3(10)]) (use d v5 in \<open>auto simp: own_bytes_def\<close>)
  have ap: "span (unat v0) 512 \<inter> span (unat v5) 432 = {}" using d v5 by auto
  have v53: "unat v5 + 432 \<le> length m3" using fresh_heap_bounds [OF m3(3)] v5 by linarith
  obtain m4 g4 where m4: "set_link_type vsnprintf m3 v5 v0 = Some (m4, True)" "words_at g4 (unat v5) 432 m4"
    "\<And>off. off \<in> {96, 112, 124, 148, 160, 176, 180} \<Longrightarrow> g4 off = 0"
    "\<And>off. off \<in> {64, 76, 100, 112, 172, 176} \<Longrightarrow> g4 (52 + off) = (if off = 64 \<or> off = 76 then 0 else link_offsets l off)"
    "g4 76 = dlt" "g4 80 = dlt" "g4 84 = dlt" "\<And>off. off \<in> {48, 68, 72, 88} \<or> 300 \<le> off \<Longrightarrow> g4 off = ?g off"
    "kept (span (unat v5) 432) m3 m4" "length m4 = length m3"
    by (rule set_link_type_at [where vsnprintf = vsnprintf, OF m3(2) v53 d3 ap l]) (rule that)
  let ?A = "first_arena (v5 + 52) H (length s)"
  note rb = round_up_bounds(1) [of "length s + 2"]
  have e: "scanner_end H (length s) = unat stk + 16" using m3(6,7) by (simp add: scanner_end_def)
  have brk: "brk ?A = unat stk + 16" by (simp add: first_arena_def e)
  have A: "handle ?A = v5 + 52" "chunk ?A = 0" "left ?A = 1024" "base ?A = H" by (simp_all add: first_arena_def)
  have u: "unat (v5 + 52) = unat v5 + 52" by (rule frame_word [OF v5])
  have h4: "fresh_heap m4 (unat stk + 16) (unat stk)"
    by (rule fresh_heap_kept [OF m3(3) m4(9,10)]) (use v5 hb m3(6,7) in auto)
  have ld: "load32 m4 (unat v5 + off) = Some (g4 off)" if "4 dvd off" "off + 4 \<le> 432" for off
    by (rule words_at_load [OF m4(2) that])
  have hld: "load32 m4 (unat (v5 + 52) + off) = Some (g4 (52 + off))" if "4 dvd off" "off + 56 \<le> 432" for off
    using ld [of "52 + off"] that u by (simp add: add.assoc)
  have late: "g4 off = ?g off" if "300 \<le> off" for off using m4(8) that by blast
  have slot: "g4 (304 + 8 * k) = (if k = 0 then of_nat H else 0)" if "k < 16" for k
    using late [of "304 + 8 * k"] m2(4) m2(5) [of "304 + 8 * k"] that by (cases k) auto
  have zero: "m4 ! i = 0" if i: "i \<in> free ?A" "i < length m4" for i
  proof (cases "unat stk + 16 \<le> i")
    case True
    with h4 i(2) show ?thesis by (simp add: fresh_heap_def)
  next
    case False
    with i(1) have iH: "H \<le> i" "i < H + 1024" by (auto simp: free_def brk A)
    have i2: "i < length m2" using iH(2) fresh_heap_bounds(3) [OF m2(6)] by simp
    have "m2 ! i = 0" using m2(10) iH(1) i2 by simp
    moreover have "m3 ! i = m2 ! i"
    proof -
      have "i \<notin> own_bytes \<union> span (unat v5) 432 \<union> {H + 1024..}" using iH hb v5 by (auto simp: own_bytes_def)
      then show ?thesis using m3(10) i2 unfolding kept_def by blast
    qed
    moreover have "m4 ! i = m3 ! i"
    proof -
      have "i \<notin> span (unat v5) 432" using iH hb v5 by auto
      with m4(9,10) i(2) show ?thesis by (simp add: kept_def)
    qed
    ultimately show ?thesis by simp
  qed
  have sl: "chunk_slots (v5 + 52) (unat stk + 16) m4"
    unfolding chunk_slots_def
  proof (intro allI impI)
    fix k :: nat assume k: "k < 16"
    have "load32 m4 (unat (v5 + 52) + 252 + 8 * k) = Some (g4 (304 + 8 * k))"
      using ld [of "304 + 8 * k"] k u by (simp add: add.assoc)
    moreover have "unat (g4 (304 + 8 * k)) < unat stk + 16"
      using slot [OF k] m2(7) m3(6,7) by auto
    ultimately show "\<exists>p. load32 m4 (unat (v5 + 52) + 252 + 8 * k) = Some p \<and> unat p < unat stk + 16" by blast
  qed
  have "arena_ok ?A m4"
    unfolding arena_ok_def brk A
  proof (intro conjI)
    show "\<exists>L. heap_inv m4 (unat stk + 16) L" using h4 by (auto simp: fresh_heap_def)
    show "unat (v5 + 52) + 380 \<le> 125436" using u v5 by simp
    show "load32 m4 (unat (v5 + 52) + 376) = Some (of_nat 0)" using ld [of 428] slot [of 15] late [of 428] m2(5) [of 428] u by (simp add: add.commute)
    show "load32 m4 (unat (v5 + 52) + 248 + 8 * 0) = Some (of_nat 1024)" using ld [of 300] late [of 300] u by (simp add: add.commute)
    show "load32 m4 (unat (v5 + 52) + 248 + 8 * 0 + 4) = Some (of_nat H)" using ld [of 304] slot [of 0] u by (simp add: add.commute)
    show "chunk_slots (v5 + 52) (unat stk + 16) m4" by (rule sl)
    show "\<forall>i \<in> free ?A. i < length m4 \<longrightarrow> m4 ! i = 0" using zero by blast
  qed (use hb m3(6,7) in auto)
  moreover have "link_at (link_offsets l) (v5 + 52) m4"
    unfolding link_at_def
  proof (intro conjI ballI)
    show "unat (v5 + 52) + 380 \<le> 125436" using u v5 by simp
    fix off
    show "load32 m4 (unat (v5 + 52) + off) = Some 0" if "off \<in> {60, 72, 96, 108}"
      using that hld [of off] m4(3) [of "52 + off"] by auto
    show "load32 m4 (unat (v5 + 52) + off) = Some (link_offsets l off)" if o: "off \<in> {64, 76, 100, 112, 172, 176}"
    proof -
      have "link_offsets l 64 = 0" "link_offsets l 76 = 0" by (simp_all add: link_offsets_def Let_def split: prod.split)
      then have "g4 (52 + off) = link_offsets l off" using m4(4) [OF o] by auto
      then show ?thesis using o hld [of off] by auto
    qed
  qed
  moreover have "plain_link (v5 + 52) snap 0 m4"
    using constant_link_types [OF l] hld [of 32] hld [of 24] hld [of 128] hld [of 20] hld [of 16] m4(3) [of 180] m4(5,7) m4(8) [of 72] m4(8) [of 68]
      m2(3) [of 68]
    by (simp add: plain_link_def)
  moreover have "link_words dlt (v5 + 52) m4"
    using hld [of 24] hld [of 28] hld [of 44] hld [of 124] m4(3) [of 96] m4(3) [of 176] m4(5,6) by (simp add: link_words_def)
  moreover have "scanner_at ?A yy stk buf tx m4"
    unfolding scanner_at_def A
  proof (intro conjI ballI)
    show "load32 m4 (unat (v5 + 52) - 4) = Some yy" using ld [of 48] m4(8) [of 48] u by (simp add: add.commute)
    show "load32 m4 (fst x) = Some (snd x)" if x: "x \<in> scanner_words yy stk buf tx" for x
      by (rule kept_load32 [OF m4(9)])
        (use x m3(4-8) hb v5 in \<open>auto simp: scanner_words_def\<close>)
  qed
  moreover have "cstr_at m4 (unat tx) s" by (rule cstr_at_reach [OF m3(9) m4(9)]) (use v5 hb m3(5) in auto)
  moreover have "scanner_span yy stk \<inter> touched ?A = {}"
  proof -
    have sp: "scanner_span yy stk = {H + 1024..<unat stk + 16}" using m3(4,6,7) by (auto simp: scanner_span_def span_def)
    have "touched ?A \<subseteq> {..<127840} \<union> {H..<H + 1024} \<union> {unat stk + 16..}"
      using v5 u by (auto simp: touched_def own_bytes_def arena_words_def free_def brk A)
    with hb show ?thesis unfolding sp by fastforce
  qed
  ultimately have pc: "parser_called dlt (link_offsets l) ?A snap yy stk buf tx s m4"
    unfolding parser_called_def A brk using m3(4-7) hb u rb by simp
  have d1': "load32 m1 (unat v0 + 76) = Some 1" using d1 by (simp add: dummy_at_def)
  have "length m \<le> length m4" using l1 m2(9) m3(11) m4(10) by simp
  from that [OF m1 d1' m2(1) m3(1) m4(1) pc m3(4) this] show thesis .
qed

section \<open>The end\<close>

text \<open>Blocks below the program are not given back: only the block that was reserved last is.\<close>

lemma xfree_below: "heap_inv m H L \<Longrightarrow> L = 0 \<or> lo \<le> L \<Longrightarrow> unat p < lo \<Longrightarrow> xfree m p = Some m"
  by (rule xfree_other) (auto simp: unat_eq_0)

lemma compiled_kept:
  assumes c: "compiled_at m p prog H L" and k: "kept S m m'" "length m' = length m" "S \<inter> own_bytes = {}"
    "S \<inter> span (unat p) (8 * length prog) = {}"
  shows "compiled_at m' p prog H L"
proof -
  note c1 = c [unfolded compiled_at_def]
  have "insn_at m' (unat p + 8 * i) = Some (prog ! i)" if i: "i < length prog" for i
  proof -
    let ?a = "unat p + 8 * i"
    have sub: "span (?a + off) n \<inter> S = {}" if "off + n \<le> 8" for off n
    proof -
      have "span (?a + off) n \<subseteq> span (unat p) (8 * length prog)" using i that by simp
      with k(4) show ?thesis by blast
    qed
    have old: "insn_at m ?a = Some (prog ! i)" using c1 i by (simp add: prog_at_def)
    then obtain op jt jf v where o: "load16 m ?a = Some op" "index m (?a + 2) = Some jt" "index m (?a + 3) = Some jf"
      "load32 m (?a + 4) = Some v" "prog ! i = \<lparr>Op = op, Jt = jt, Jf = jf, K = v\<rparr>"
      by (auto simp: insn_at_def bind_eq_Some_conv)
    have byte: "?a + off \<notin> S" if "off < 8" for off
    proof -
      have "?a + off \<in> span (unat p) (8 * length prog)" using i that by simp
      with k(4) show ?thesis by blast
    qed
    have "?a + 2 \<notin> S" "?a + 3 \<notin> S" by (rule byte; simp)+
    then have n: "load16 m' ?a = Some op" "index m' (?a + 2) = Some jt" "index m' (?a + 3) = Some jf" "load32 m' (?a + 4) = Some v"
      using kept_load16 [OF k(1) o(1)] kept_index [OF k(1) o(2)] kept_index [OF k(1) o(3)] kept_load32 [OF k(1) o(4)]
        sub [of 0 2] sub [of 4 4] by simp_all
    show ?thesis unfolding insn_at_def o(5) by (simp only: n bind.bind_lunit)
  qed
  moreover have "heap_inv m' H L" by (rule heap_inv_kept [OF _ k(1-3)]) (use c1 in blast)
  ultimately show ?thesis using c1 k(2) by (simp add: compiled_at_def prog_at_def)
qed

lemma free_chunks_none:
  assumes "\<And>p. unat p < lo \<Longrightarrow> xfree m p = Some m"
    and "\<forall>a \<in> set as. \<exists>p. load32 m (unat v5 + a) = Some p \<and> unat p < lo"
  shows "free_chunks m v5 as = Some m"
  using assms(2)
proof (induction "as")
  case (Cons a as)
  then obtain p where "load32 m (unat v5 + a) = Some p" "unat p < lo" by auto
  with assms(1) [of p] Cons show ?case by (cases "p = 0") simp_all
qed simp

text \<open>The scanner is taken down.\<close>

lemma lex_destroy_at:
  assumes w: "words_at f (unat yy) 96 m" "f 20 = stk" "f 12 = 0" "f 60 = 0" "load32 m (unat stk) = Some 0"
    and fr: "heap_inv m H L" "L = 0 \<or> lo \<le> L" "unat stk < lo" "unat yy + 96 \<le> lo" "127840 \<le> unat yy" "lo \<le> length m"
  obtains m' where "pcap_lex_destroy m yy = Some m'" "kept (span (unat yy) 96) m m'" "length m' = length m"
proof -
  have ld: "load32 m (unat yy + off) = Some (f off)" if "4 dvd off" "off + 4 \<le> 96" for off by (rule words_at_load [OF w(1) that])
  have pop: "pop_buffer m yy = Some (m, stk)"
    using ld [of 20] ld [of 12] w(2,3,5) by (simp add: pop_buffer_def)
  have x: "xfree m stk = Some m" by (rule xfree_below [OF fr(1-3)])
  obtain m1 where m1: "store32 m (unat yy + 20) 0 = Some m1" using store32_in [of "unat yy + 20" m] fr by auto
  have l1: "length m1 = length m" by (rule length_store32 [OF m1])
  have w1: "words_at (f(20 := 0)) (unat yy) 96 m1" by (rule words_at_store [OF w(1) m1]) simp
  have ld60: "load32 m1 (unat yy + 60) = Some 0" using words_at_load [OF w1, of 60] w(4) by simp
  have x0: "xfree m1 0 = Some m1" by (simp add: xfree_def)
  let ?cells = "[Word 60 0, Double 52 0, Word 44 0, Double 36 0, Double 12 0, Word 20 0, Double 4 0]"
  have "words_in 96 (concat (map cell_words ?cells))" "unat yy + 96 \<le> length m1" using l1 fr by simp_all
  from store_cells_at [OF w1 this] obtain m2 where m2: "store_cells m1 yy ?cells = Some m2"
    "kept (span (unat yy) 96) m1 m2" "length m2 = length m1" by blast
  have k: "kept (span (unat yy) 96) m m2"
    by (rule kept_trans [OF kept_mono [OF kept_store32 [OF m1]] m2(2)]) simp
  have h2: "heap_inv m2 H L" by (rule heap_inv_kept [OF fr(1) k]) (use l1 m2(3) fr in auto)
  have x2: "xfree m2 yy = Some m2" by (rule xfree_below [OF h2 fr(2)]) (use fr in simp)
  have "pcap_lex_destroy m yy = Some m2"
    using pop x m1 ld60 x0 m2(1) x2 by (simp add: pcap_lex_destroy_def bind_assoc [symmetric] del: bind_assoc)
  from that [OF this k] l1 m2(3) show thesis by simp
qed

lemma compile_ends:
  assumes sc: "load32 m (unat v5 + 48) = Some yy" "\<forall>x \<in> scanner_words yy stk buf tx. load32 m (fst x) = Some (snd x)"
    and sl: "\<forall>k < 16. \<exists>p. load32 m (unat v5 + 304 + 8 * k) = Some p \<and> unat p < lo" and v5: "unat v5 + 432 \<le> 125436"
    and fr: "heap_inv m H L" "L = 0 \<or> lo \<le> L" "lo \<le> length m"
    and at: "127840 \<le> unat yy" "unat yy + 96 \<le> unat tx" "unat tx < unat buf" "unat stk = unat buf + 48" "unat stk + 16 \<le> lo"
  obtains m1 m2 where "delete_buffer m buf yy = Some m1" "end_compile m1 v5 = Some m2" "kept (scanner_span yy stk) m m2"
    "length m2 = length m"
proof -
  note s1 = sc(2) [unfolded scanner_words_def]
  have ld: "load32 m (unat yy + 12) = Some 0" "load32 m (unat yy + 20) = Some stk" "load32 m (unat yy + 60) = Some 0"
    "load32 m (unat stk) = Some buf" "load32 m (unat buf + 4) = Some tx" "load32 m (unat buf + 20) = Some 1"
    using s1 by simp_all
  have z: "stk \<noteq> 0" "buf \<noteq> 0" "yy \<noteq> 0" "tx \<noteq> 0" using at by auto
  obtain m1 where m1: "store32 m (unat stk) 0 = Some m1" using store32_in [OF load32_bound [OF ld(4)]] by blast
  note k1 = kept_store32 [OF m1] and l1 = length_store32 [OF m1]
  have h1: "heap_inv m1 H L" by (rule heap_inv_kept [OF fr(1) k1 l1]) (use at in auto)
  have x1: "xfree m1 p = Some m1" if "unat p < lo" for p by (rule xfree_below [OF h1 fr(2) that])
  have b1: "load32 m1 (unat buf + 4) = Some tx" "load32 m1 (unat buf + 20) = Some 1"
    by (rule kept_load32 [OF k1]; use ld at in auto)+
  have del: "delete_buffer m buf yy = Some m1"
    using ld z m1 b1 x1 [of tx] x1 [of buf] at by (simp add: delete_buffer_def free_buffer_def)
  obtain f where f: "words_at f (unat yy) 96 m1" using words_at_some [of "unat yy" 96 m1] at fr l1 by auto
  have y1: "load32 m1 (unat yy + off) = Some v" if "load32 m (unat yy + off) = Some v" "off + 4 \<le> 96" for off v
    by (rule kept_load32 [OF k1 that(1)]) (use at that(2) in auto)
  have fs: "f 20 = stk" "f 12 = 0" "f 60 = 0"
    using words_at_load [OF f, of 20] words_at_load [OF f, of 12] words_at_load [OF f, of 60] y1 [OF ld(2)] y1 [OF ld(1)] y1 [OF ld(3)]
    by simp_all
  obtain m2 where m2: "pcap_lex_destroy m1 yy = Some m2" "kept (span (unat yy) 96) m1 m2" "length m2 = length m1"
    by (rule lex_destroy_at [OF f fs load32_store32 [OF m1] h1 fr(2)]) (use at fr l1 in auto)
  have h2: "heap_inv m2 H L" by (rule heap_inv_kept [OF h1 m2(2,3)]) (use at in auto)
  have k: "kept (scanner_span yy stk) m m2"
    by (rule kept_trans [OF kept_mono [OF k1] kept_mono [OF m2(2)]]) (use at in \<open>auto simp: scanner_span_def\<close>)
  have fl: "load32 m2 (unat v5 + a) = Some p" if "load32 m (unat v5 + a) = Some p" "a + 4 \<le> 432" for a p
    by (rule kept_load32 [OF k that(1)]) (use at v5 that(2) in \<open>auto simp: scanner_span_def\<close>)
  have slot: "\<exists>p. load32 m2 (unat v5 + (304 + 8 * k)) = Some p \<and> unat p < lo" if k: "k < 16" for k
  proof -
    obtain p where p: "load32 m (unat v5 + (304 + 8 * k)) = Some p" "unat p < lo"
      using sl [rule_format, OF k] by (auto simp: add.assoc)
    with fl [OF p(1)] k show ?thesis by simp
  qed
  have "free_chunks m2 v5 [304, 312, 320, 328, 336, 344, 352, 360, 368, 376, 384, 392, 400, 408, 416, 424] = Some m2"
  proof (rule free_chunks_none [where lo = lo])
    show "xfree m2 p = Some m2" if "unat p < lo" for p by (rule xfree_below [OF h2 fr(2) that])
    show "\<forall>a \<in> set [304, 312, 320, 328, 336, 344, 352, 360, 368, 376, 384, 392, 400, 408, 416, 424].
        \<exists>p. load32 m2 (unat v5 + a) = Some p \<and> unat p < lo"
      using slot [of 0] slot [of 1] slot [of 2] slot [of 3] slot [of 4] slot [of 5] slot [of 6] slot [of 7] slot [of 8]
        slot [of 9] slot [of 10] slot [of 11] slot [of 12] slot [of 13] slot [of 14] slot [of 15] by simp
  qed
  moreover have "load32 m1 (unat v5 + 48) = Some yy" by (rule kept_load32 [OF k1 sc(1)]) (use at v5 in auto)
  ultimately have "end_compile m1 v5 = Some m2" using z m2(1) by (simp add: end_compile_def del: free_chunks.simps)
  from that [OF del this k] l1 m2(3) show thesis by simp
qed

section \<open>What the parser owes\<close>

text \<open>
  The parser returns with the graph of an expression that is finished (\<open>finished\<close>), takes what it needs from
  the arena, and leaves the scanner and the marks as they are.
\<close>

definition parser_done ::
  "(nat \<Rightarrow> u32) \<Rightarrow> arena \<Rightarrow> test cond \<Rightarrow> u32 \<Rightarrow> u32 \<Rightarrow> u32 \<Rightarrow> u32 \<Rightarrow> u32 \<Rightarrow> memory \<Rightarrow> bool" where
  "parser_done c A e snap yy stk buf tx m \<longleftrightarrow> finished c e snap A (scanner_span yy stk) m \<and>
     load32 m (unat (handle A) + 16) = Some 0 \<and> scanner_at A yy stk buf tx m"

lemma after_brk: "brk A \<le> brk (after ns A)"
proof (induction ns arbitrary: A)
  case (Cons n ns)
  have "brk A \<le> brk (next_arena n A)" by (simp add: next_arena_def)
  with Cons [of "next_arena n A"] show ?case by simp
qed simp

lemma finished_arena: "finished c e snap A Q m \<Longrightarrow> arena_ok A m"
  by (auto simp: finished_def ended_def generated_def)

text \<open>From the parser's return to the checked program.\<close>

lemma program_emitted:
  assumes pd: "parser_done c A e snap yy stk buf tx m" and hA: "handle A = v5 + 52" and v5: "unat v5 + 432 \<le> 125436" "16 \<le> unat v5"
    and at: "127840 \<le> unat yy" "unat yy + 96 \<le> unat tx" "unat tx < unat buf" "unat stk = unat buf + 48" "unat stk + 16 \<le> brk A"
    and room: "emit_room (length (leaves e)) depth fuel (brk A)"
  obtains root m1 m2 p prog H L where "load32 m (unat v5 + 64) = Some root" "root \<noteq> 0"
    "emit_program vs sn depth fuel m v5 v0 127552 root = Ret (m1, 0)"
    "do { t45 \<leftarrow> load32 m1 (unat v5 + 48); m \<leftarrow> delete_buffer m1 buf t45; end_compile m v5 } = Some m2"
    "load32 m2 127552 = Some (of_nat (length prog))" "load32 m2 127556 = Some p" "compiled_at m2 p prog H L" "valid_prog prog"
    "\<And>pkt wl. bpf_verdict prog pkt wl = Some (outcome snap (holds e (test_result pkt c)))"
    "brk A \<le> unat p" "L = 0 \<or> unat p \<le> L" "H \<le> brk A + Suc fuel * (8 * (6 * length (leaves e) + 12) + 16)"
    "length m \<le> length m2"
proof -
  have fin: "finished c e snap A (scanner_span yy stk) m" and mark: "load32 m (unat (handle A) + 16) = Some 0"
    and sc: "scanner_at A yy stk buf tx m" using pd by (simp_all add: parser_done_def)
  have ok: "arena_ok A m" by (rule finished_arena [OF fin])
  have u: "unat (v5 + 52) = unat v5 + 52" by (rule frame_word [OF v5(1)])
  have u16: "unat (v5 - 16) = unat v5 - 16" using v5(2) by (simp add: unat_sub word_le_nat_alt)
  have "16 * Suc fuel \<le> 2 ^ 32" using room by (auto simp: emit_room_def algebra_simps)
  then have fuel: "unat (0 :: u32) + 2 * fuel + 1 < 2 ^ 32" by simp
  have ef: "emission_frame (handle A) v5" using v5 u u16 by (simp add: emission_frame_def hA)
  have lp: "length_place 127552" by (auto simp: length_place_def own_bytes_def)
  define slots where "slots = {(unat v5 + 304 + 8 * k, q) | k q. k < (16 :: nat) \<and> load32 m (unat v5 + 304 + 8 * k) = Some q}"
  define W where "W = insert (unat v5 + 48, yy) (scanner_words yy stk buf tx \<union> slots)"
  have W: "\<forall>x \<in> W. kept_word A (scanner_span yy stk) v5 (fst x) \<and> load32 m (fst x) = Some (snd x)"
  proof
    fix x assume x: "x \<in> W"
    consider (frame) "x = (unat v5 + 48, yy)" | (scanner) "x \<in> scanner_words yy stk buf tx" | (slot) "x \<in> slots"
      using x by (auto simp: W_def)
    then show "kept_word A (scanner_span yy stk) v5 (fst x) \<and> load32 m (fst x) = Some (snd x)"
    proof cases
      case frame
      with sc u u16 v5 show ?thesis by (simp add: kept_word_def hA scanner_at_def Int_Un_distrib add.commute)
    next
      case scanner
      then have "127840 \<le> fst x \<and> fst x + 4 \<le> brk A \<and> span (fst x) 4 \<subseteq> scanner_span yy stk"
        using at by (auto simp: scanner_words_def scanner_span_def)
      with sc scanner show ?thesis by (simp add: kept_word_def scanner_at_def)
    next
      case slot
      then obtain k q where k: "x = (unat v5 + 304 + 8 * k, q)" "k < 16" "load32 m (unat v5 + 304 + 8 * k) = Some q"
        by (auto simp: slots_def)
      with u u16 v5 show ?thesis by (simp add: kept_word_def hA Int_Un_distrib)
    qed
  qed
  have r12: "handle A + 12 = v5 + 64" "unat (handle A) + 12 = unat v5 + 64" using u by (simp_all add: hA)
  obtain m3 root p prog H L where 3: "load32 m (unat v5 + 64) = Some root" "root \<noteq> 0"
    "icode_to_fcode vs sn depth fuel v5 m (v5 + 64) root 127552 (v0 + 148) = Ret (m3, p)"
    "load32 m3 (unat (127552 :: u32)) = Some (of_nat (length prog))" "compiled_at m3 p prog H L"
    "\<And>pkt wl. bpf_verdict prog pkt wl = Some (outcome snap (holds e (test_result pkt c)))"
    "brk A \<le> unat p" "L = 0 \<or> unat p \<le> L" "length m \<le> length m3"
    "\<forall>x \<in> W. span (fst x) 4 \<inter> span (unat (127552 :: u32)) 4 = {} \<longrightarrow> load32 m3 (fst x) = Some (snd x)" "valid_prog prog"
    "H \<le> brk A + Suc fuel * (8 * (6 * length (leaves e) + 12) + 16)"
    by (rule finished_program [OF fin mark fuel room ef lp W, unfolded r12]) (rule that)
  note c3 = 3(5) [unfolded compiled_at_def]
  have bp: "127840 \<le> unat p" "H \<le> length m3" "unat p < 2 ^ 32" using c3 by (auto simp: heap_inv_def)
  have lo: "unat p \<le> length m3" using c3 bp by simp
  obtain m4 where m4: "store32 m3 127556 p = Some m4" using store32_in [of 127556 m3] bp lo by auto
  note k4 = kept_store32 [OF m4] and l4 = length_store32 [OF m4]
  have c4: "compiled_at m4 p prog H L" by (rule compiled_kept [OF 3(5) k4 l4]) (use bp in auto)
  have n4: "load32 m4 127552 = Some (of_nat (length prog))" by (rule kept_load32 [OF k4]) (use 3(4) in auto)
  have p0: "p \<noteq> 0" using bp by auto
  have em: "emit_program vs sn depth fuel m v5 v0 127552 root = Ret (m4, 0)"
    using 3(3) m4 p0 n4 compiled_passes [OF c4 3(11)] by (simp add: emit_program_def)
  have W4: "load32 m4 a = Some q" if "(a, q) \<in> W" "a + 4 \<le> 125436 \<or> 127840 \<le> a" for a q
  proof -
    have "load32 m3 a = Some q" using bspec [OF 3(10) that(1)] that(2) by auto
    then show ?thesis by (rule kept_load32 [OF k4]) (use that(2) in auto)
  qed
  have yy4: "load32 m4 (unat v5 + 48) = Some yy" by (rule W4) (use v5 in \<open>auto simp: W_def\<close>)
  have sc4: "\<forall>x \<in> scanner_words yy stk buf tx. load32 m4 (fst x) = Some (snd x)"
  proof
    fix x assume x: "x \<in> scanner_words yy stk buf tx"
    show "load32 m4 (fst x) = Some (snd x)"
      by (rule W4) (use x at in \<open>auto simp: W_def scanner_words_def\<close>)
  qed
  have sl4: "\<forall>k < 16. \<exists>q. load32 m4 (unat v5 + 304 + 8 * k) = Some q \<and> unat q < unat p"
  proof (intro allI impI)
    fix k :: nat assume k: "k < 16"
    obtain q where q: "load32 m (unat v5 + 304 + 8 * k) = Some q" "unat q < brk A"
    proof -
      have "chunk_slots (v5 + 52) (brk A) m" using ok by (simp add: arena_ok_def hA)
      then obtain q where "load32 m (unat (v5 + 52) + 252 + 8 * k) = Some q" "unat q < brk A"
        using k by (auto simp: chunk_slots_def)
      with that [of q] u show thesis by (simp add: add.commute add.left_commute)
    qed
    have "load32 m4 (unat v5 + 304 + 8 * k) = Some q" by (rule W4) (use k q v5 in \<open>auto simp: W_def slots_def\<close>)
    with q(2) 3(7) show "\<exists>q. load32 m4 (unat v5 + 304 + 8 * k) = Some q \<and> unat q < unat p" by auto
  qed
  have h4: "heap_inv m4 H L" using c4 by (simp add: compiled_at_def)
  obtain m5 m6 where 5: "delete_buffer m4 buf yy = Some m5" "end_compile m5 v5 = Some m6" "kept (scanner_span yy stk) m4 m6"
    "length m6 = length m4"
    by (rule compile_ends [OF yy4 sc4 sl4 v5(1) h4 3(8) _ at(1-4)]) (use at(5) 3(7) lo l4 in auto)
  have ss: "scanner_span yy stk = {unat yy..<unat stk + 16}" using at by (auto simp: scanner_span_def span_def)
  have c6: "compiled_at m6 p prog H L"
    by (rule compiled_kept [OF c4 5(3,4)]) (use at(1,5) 3(7) in \<open>auto simp: ss own_bytes_def\<close>)
  have l6: "load32 m6 127552 = Some (of_nat (length prog))" "load32 m6 127556 = Some p"
    by (rule kept_load32 [OF 5(3)], use n4 load32_store32 [OF m4] at(1) in \<open>auto simp: ss\<close>)+
  have "do { t45 \<leftarrow> load32 m4 (unat v5 + 48); m \<leftarrow> delete_buffer m4 buf t45; end_compile m v5 } = Some m6"
    using yy4 5(1,2) by simp
  moreover have "length m \<le> length m6" using 3(9) l4 5(4) by simp
  ultimately show thesis using that [OF 3(1,2) em _ l6 c6 3(11,6,7,8,12)] by simp
qed

text \<open>
  The interface: a parser that accepts the strings of \<open>parsed\<close> as the expressions they stand for on a link
  type, with the requests it makes to the arena for each.
\<close>

locale filter_parser =
  fixes parse :: parser and parsed :: "u32 \<Rightarrow> u8 list \<Rightarrow> test cond \<Rightarrow> bool" and requests :: "u8 list \<Rightarrow> nat list"
  assumes parse_returns: "parsed dlt s e \<Longrightarrow> parser_called dlt c A snap yy stk buf tx s m \<Longrightarrow> fits (requests s) A \<Longrightarrow>
    \<exists>m'. parse (handle A - 52) m yy (handle A) = Ret (m', 0) \<and>
      parser_done c (after (requests s) A) e snap yy stk buf tx m' \<and> length m \<le> length m'"

text \<open>
  What the address space must have room for, with the heap pointer at \<open>H\<close> when the compiler starts; the memory
  itself grows as it is needed.
\<close>

definition program_end :: "nat list \<Rightarrow> nat \<Rightarrow> nat \<Rightarrow> nat \<Rightarrow> nat \<Rightarrow> nat" where
  "program_end reqs tests fuel H n = brk (after reqs (first_arena 0 H n)) + Suc fuel * (8 * (6 * tests + 12) + 16)"

definition compile_room :: "nat list \<Rightarrow> nat \<Rightarrow> nat \<Rightarrow> nat \<Rightarrow> nat \<Rightarrow> nat \<Rightarrow> bool" where
  "compile_room reqs tests depth fuel H n \<longleftrightarrow> scanner_end H n \<le> 2 ^ 32 \<and> fits reqs (first_arena 0 H n) \<and>
     emit_room tests depth fuel (brk (after reqs (first_arena 0 H n)))"

lemma next_arena_any: "next_arena n (A\<lparr>handle := h\<rparr>) = (next_arena n A)\<lparr>handle := h\<rparr>"
  by (simp add: next_arena_def chunk_size_def)

lemma after_any: "after ns (A\<lparr>handle := h\<rparr>) = (after ns A)\<lparr>handle := h\<rparr>"
  by (induction ns arbitrary: A) (simp_all add: next_arena_any)

lemma fits_any: "fits ns (A\<lparr>handle := h\<rparr>) = fits ns A"
  by (induction ns arbitrary: A) (simp_all add: next_arena_any has_room_def chunk_size_def)

lemma first_arena_any: "first_arena h H n = (first_arena 0 H n)\<lparr>handle := h\<rparr>"
  by (simp add: first_arena_def)

lemma compile_room_any:
  assumes "compile_room reqs tests depth fuel H n"
  shows "scanner_end H n \<le> 2 ^ 32" "fits reqs (first_arena h H n)"
    "emit_room tests depth fuel (brk (after reqs (first_arena h H n)))"
    "brk (after reqs (first_arena h H n)) + Suc fuel * (8 * (6 * tests + 12) + 16) = program_end reqs tests fuel H n"
  using assms unfolding compile_room_def program_end_def first_arena_any [of h] fits_any after_any by simp_all

section \<open>A filter string is compiled\<close>

context filter_parser
begin

lemma pcap_compile_at:
  assumes p: "parsed dlt s e"
    and h: "fresh_heap m H L" and sp: "448 \<le> unat sp" "unat sp \<le> 125436"
    and d: "dummy_at v0 dlt snap m" "127840 \<le> unat v0" "unat v0 + 512 \<le> H" "snap \<noteq> 0"
    and s: "cstr_at m (unat v2) s" "127840 \<le> unat v2" "unat v2 + length s < H" "length s + 2 < 2 ^ 31"
    and room: "compile_room (requests s) (length (leaves e)) depth fuel H (length s)"
    and l: "link_label dlt = Some l" "constant_link l"
  obtains m' a prog H' L' where
    "pcap_compile vs sn fprintf parse optimise depth fuel sp m v0 127552 v2 0 v4 = Ret (m', 0)"
    "load32 m' 127552 = Some (of_nat (length prog))" "load32 m' 127556 = Some a" "compiled_at m' a prog H' L'" "valid_prog prog"
    "\<And>pkt wl. bpf_verdict prog pkt wl = Some (outcome snap (holds e (test_result pkt (link_offsets l))))"
    "H \<le> unat a" "L' = 0 \<or> unat a \<le> L'" "H' \<le> program_end (requests s) (length (leaves e)) fuel H (length s)"
    "length m \<le> length m'"
proof -
  let ?v5 = "sp - 432" and ?A = "first_arena (sp - 432 + 52) H (length s)"
  have u5: "unat ?v5 = unat sp - 432" using sp(1) by (simp add: unat_sub word_le_nat_alt)
  have v5: "unat ?v5 + 432 \<le> 125436" "16 \<le> unat ?v5" using u5 sp by simp_all
  note r1 = compile_room_any(1) [OF room] and r = compile_room_any(2-4) [OF room, of "sp - 432 + 52"]
  obtain m1 m2 m3 m4 yy stk buf tx where c: "store32 m (unat ?v5 + 48) 0 = Some m1" "load32 m1 (unat v0 + 76) = Some 1"
    "do {
        m \<leftarrow> store_cells m1 ?v5 (clear_cells v0);
        m \<leftarrow> memory_zero m (unat (?v5 + 300)) 132;
        (v6, m) \<leftarrow> calloc m 1 1024;
        m \<leftarrow> store32 m (unat ?v5 + 304) v6;
        Some (m, v6)
      } = Some (m2, of_nat H)"
    "start_scanner vs sn fprintf m2 ?v5 v0 v2 v4 (of_nat H) = Ret (m3, Inr buf)"
    "set_link_type vs m3 ?v5 v0 = Some (m4, True)"
    "parser_called dlt (link_offsets l) ?A snap yy stk buf tx s m4" "unat yy = H + 1024" "length m \<le> length m4"
    by (rule parser_reached [OF h v5(1) d s r1 l, of vs sn fprintf v4]) (rule that)
  note pc = c(6) [unfolded parser_called_def]
  have hA: "?v5 + 52 - 52 = ?v5" "handle ?A = ?v5 + 52" by (simp_all add: first_arena_def)
  have yy: "load32 m4 (unat ?v5 + 48) = Some yy"
  proof -
    have "load32 m4 (unat (?v5 + 52) - 4) = Some yy" using pc by (simp add: scanner_at_def first_arena_def)
    then show ?thesis unfolding frame_word [OF v5(1)] by (simp add: add.commute)
  qed
  obtain m5 where 5: "parse ?v5 m4 yy (?v5 + 52) = Ret (m5, 0)"
    "parser_done (link_offsets l) (after (requests s) ?A) e snap yy stk buf tx m5" "length m4 \<le> length m5"
    using parse_returns [OF p c(6) r(1)] unfolding hA by blast
  have len: "length m \<le> length m5" using c(8) 5(3) by simp
  have stk: "unat stk + 16 \<le> brk (after (requests s) ?A)" using pc after_brk [of ?A "requests s"] by simp
  obtain root m6 m7 a prog H' L' where 6: "load32 m5 (unat ?v5 + 64) = Some root" "root \<noteq> 0"
    "emit_program vs sn depth fuel m5 ?v5 v0 127552 root = Ret (m6, 0)"
    "do { t45 \<leftarrow> load32 m6 (unat ?v5 + 48); m \<leftarrow> delete_buffer m6 buf t45; end_compile m ?v5 } = Some m7"
    "load32 m7 127552 = Some (of_nat (length prog))" "load32 m7 127556 = Some a" "compiled_at m7 a prog H' L'" "valid_prog prog"
    "\<And>pkt wl. bpf_verdict prog pkt wl = Some (outcome snap (holds e (test_result pkt (link_offsets l))))"
    "brk (after (requests s) ?A) \<le> unat a" "L' = 0 \<or> unat a \<le> L'"
    "H' \<le> brk (after (requests s) ?A) + Suc fuel * (8 * (6 * length (leaves e) + 12) + 16)" "length m5 \<le> length m7"
    by (rule program_emitted [OF 5(2) _ v5 _ _ _ _ stk r(2), of vs sn v0])
      (use pc hA(2) in auto)
  obtain t m8 where e: "load32 m6 (unat ?v5 + 48) = Some t" "delete_buffer m6 buf t = Some m8" "end_compile m8 ?v5 = Some m7"
    using 6(4) by (auto simp: bind_eq_Some_conv)
  have buf: "buf \<noteq> 0" using pc by auto
  have "run_parser vs sn parse m4 ?v5 = Ret (m5, Some root)"
    using yy 5(1) 6(1,2) by (simp add: run_parser_def)
  moreover have "run_optimizer sn optimise m5 ?v5 v0 0 root = Ret (m5, Some root)" by (simp add: run_optimizer_def)
  ultimately have "compile_string vs sn parse optimise depth fuel m3 ?v5 v0 127552 0 buf = Ret (m8, 0)"
    using c(5) 6(3) e(1,2) buf by (simp add: compile_string_def)
  then have run: "pcap_compile vs sn fprintf parse optimise depth fuel sp m v0 127552 v2 0 v4 = Ret (m7, 0)"
    unfolding pcap_compile_def Let_def using c(1,2,3,4) e(3) by simp
  have "brk (after (requests s) ?A) \<le> program_end (requests s) (length (leaves e)) fuel H (length s)"
    using r(3) by simp
  moreover have "H \<le> unat a" using 6(10) stk pc c(7) by linarith
  ultimately show thesis
    using that [OF run 6(5-9) _ 6(11)] 6(12,13) len r(3) by simp
qed

end

end
