(* ===== verification/Compile_Filter.thy ===== *)
theory Compile_Filter
  imports Compile_Program Compile_Expr
begin

text \<open>
  \<open>Compile\<close> from the filter string to \<open>Match\<close>: the string goes into the module (\<open>mkcstr_fresh\<close>),
  \<open>Xbpf_compile\<close> compiles it there (\<open>xbpf_compile_at\<close>) for every parser that keeps the contract
  \<open>filter_parser\<close>, and the loaded program accepts a packet if and only if the expression holds on it.
\<close>

section \<open>The filter string\<close>


section \<open>In the module\<close>


section \<open>From the string to the verdict\<close>





section \<open>A parser that keeps the contract\<close>







section \<open>The property\<close>








end
