(* ===== verification/Link_Types.thy ===== *)
theory Link_Types
  imports Go_Compile
begin

text \<open>
  The link-layer types: the constants of \<open>internal/const.go\<close>, the exported constants and the
  switch of \<open>LookupLinkType\<close> in \<open>dlt_generated.go\<close>, as tables, and the generator \<open>dlt.go\<close>
  that makes the one from the other.
\<close>

section \<open>The tables\<close>

definition wasm_consts_1 :: "(string \<times> nat) list" where
  "wasm_consts_1 =
   [(''PCAP_NETMASK_UNKNOWN'', 4294967295), (''DLT_NULL'', 0), (''DLT_EN10MB'', 1),
    (''DLT_EN3MB'', 2), (''DLT_AX25'', 3), (''DLT_PRONET'', 4), (''DLT_CHAOS'', 5),
    (''DLT_IEEE802'', 6), (''DLT_ARCNET'', 7), (''DLT_SLIP'', 8), (''DLT_PPP'', 9),
    (''DLT_FDDI'', 10), (''DLT_ATM_RFC1483'', 11), (''DLT_RAW'', 12), (''DLT_SLIP_BSDOS'', 15),
    (''DLT_PPP_BSDOS'', 16), (''DLT_ATM_CLIP'', 19), (''DLT_REDBACK_SMARTEDGE'', 32),
    (''DLT_PPP_SERIAL'', 50), (''DLT_PPP_ETHER'', 51), (''DLT_SYMANTEC_FIREWALL'', 99),
    (''DLT_C_HDLC'', 104), (''DLT_IEEE802_11'', 105), (''DLT_FRELAY'', 107), (''DLT_LOOP'', 108),
    (''DLT_ENC'', 109), (''DLT_HDLC'', 112), (''DLT_LINUX_SLL'', 113), (''DLT_LTALK'', 114),
    (''DLT_ECONET'', 115), (''DLT_IPFILTER'', 116), (''DLT_PFLOG'', 117), (''DLT_CISCO_IOS'', 118),
    (''DLT_PRISM_HEADER'', 119), (''DLT_AIRONET_HEADER'', 120), (''DLT_HHDLC'', 121),
    (''DLT_IP_OVER_FC'', 122), (''DLT_SUNATM'', 123), (''DLT_RIO'', 124), (''DLT_PCI_EXP'', 125),
    (''DLT_AURORA'', 126), (''DLT_IEEE802_11_RADIO'', 127), (''DLT_TZSP'', 128),
    (''DLT_ARCNET_LINUX'', 129), (''DLT_JUNIPER_MLPPP'', 130), (''DLT_JUNIPER_MLFR'', 131),
    (''DLT_JUNIPER_ES'', 132), (''DLT_JUNIPER_GGSN'', 133), (''DLT_JUNIPER_MFR'', 134),
    (''DLT_JUNIPER_ATM2'', 135), (''DLT_JUNIPER_SERVICES'', 136), (''DLT_JUNIPER_ATM1'', 137),
    (''DLT_APPLE_IP_OVER_IEEE1394'', 138), (''DLT_MTP2_WITH_PHDR'', 139), (''DLT_MTP2'', 140),
    (''DLT_MTP3'', 141), (''DLT_SCCP'', 142), (''DLT_DOCSIS'', 143), (''DLT_LINUX_IRDA'', 144),
    (''DLT_IBM_SP'', 145), (''DLT_IBM_SN'', 146), (''DLT_USER0'', 147), (''DLT_USER1'', 148),
    (''DLT_USER2'', 149), (''DLT_USER3'', 150), (''DLT_USER4'', 151), (''DLT_USER5'', 152),
    (''DLT_USER6'', 153), (''DLT_USER7'', 154), (''DLT_USER8'', 155), (''DLT_USER9'', 156),
    (''DLT_USER10'', 157), (''DLT_USER11'', 158), (''DLT_USER12'', 159)]"

definition wasm_consts_2 :: "(string \<times> nat) list" where
  "wasm_consts_2 =
   [(''DLT_USER13'', 160), (''DLT_USER14'', 161), (''DLT_USER15'', 162),
    (''DLT_IEEE802_11_RADIO_AVS'', 163), (''DLT_JUNIPER_MONITOR'', 164),
    (''DLT_BACNET_MS_TP'', 165), (''DLT_PPP_PPPD'', 166), (''DLT_JUNIPER_PPPOE'', 167),
    (''DLT_JUNIPER_PPPOE_ATM'', 168), (''DLT_GPRS_LLC'', 169), (''DLT_GPF_T'', 170),
    (''DLT_GPF_F'', 171), (''DLT_GCOM_T1E1'', 172), (''DLT_GCOM_SERIAL'', 173),
    (''DLT_JUNIPER_PIC_PEER'', 174), (''DLT_ERF_ETH'', 175), (''DLT_ERF_POS'', 176),
    (''DLT_LINUX_LAPD'', 177), (''DLT_JUNIPER_ETHER'', 178), (''DLT_JUNIPER_PPP'', 179),
    (''DLT_JUNIPER_FRELAY'', 180), (''DLT_JUNIPER_CHDLC'', 181), (''DLT_MFR'', 182),
    (''DLT_JUNIPER_VP'', 183), (''DLT_A429'', 184), (''DLT_A653_ICM'', 185), (''DLT_USB'', 186),
    (''DLT_USB_FREEBSD'', 186), (''DLT_BLUETOOTH_HCI_H4'', 187), (''DLT_IEEE802_16_MAC_CPS'', 188),
    (''DLT_USB_LINUX'', 189), (''DLT_CAN20B'', 190), (''DLT_IEEE802_15_4_LINUX'', 191),
    (''DLT_PPI'', 192), (''DLT_IEEE802_16_MAC_CPS_RADIO'', 193), (''DLT_JUNIPER_ISM'', 194),
    (''DLT_IEEE802_15_4_WITHFCS'', 195), (''DLT_SITA'', 196), (''DLT_ERF'', 197),
    (''DLT_RAIF1'', 198), (''DLT_IPMB_KONTRON'', 199), (''DLT_JUNIPER_ST'', 200),
    (''DLT_BLUETOOTH_HCI_H4_WITH_PHDR'', 201), (''DLT_AX25_KISS'', 202), (''DLT_LAPD'', 203),
    (''DLT_PPP_WITH_DIR'', 204), (''DLT_C_HDLC_WITH_DIR'', 205), (''DLT_FRELAY_WITH_DIR'', 206),
    (''DLT_LAPB_WITH_DIR'', 207), (''DLT_I2C_LINUX'', 209), (''DLT_IPMB_LINUX'', 209),
    (''DLT_FLEXRAY'', 210), (''DLT_MOST'', 211), (''DLT_LIN'', 212), (''DLT_X2E_SERIAL'', 213),
    (''DLT_X2E_XORAYA'', 214), (''DLT_IEEE802_15_4_NONASK_PHY'', 215), (''DLT_LINUX_EVDEV'', 216),
    (''DLT_GSMTAP_UM'', 217), (''DLT_GSMTAP_ABIS'', 218), (''DLT_MPLS'', 219),
    (''DLT_USB_LINUX_MMAPPED'', 220), (''DLT_DECT'', 221), (''DLT_AOS'', 222),
    (''DLT_WIHART'', 223), (''DLT_FC_2'', 224), (''DLT_FC_2_WITH_FRAME_DELIMS'', 225),
    (''DLT_IPNET'', 226), (''DLT_CAN_SOCKETCAN'', 227), (''DLT_IPV4'', 228), (''DLT_IPV6'', 229),
    (''DLT_IEEE802_15_4_NOFCS'', 230), (''DLT_DBUS'', 231)]"

definition wasm_consts_3 :: "(string \<times> nat) list" where
  "wasm_consts_3 =
   [(''DLT_JUNIPER_VS'', 232), (''DLT_JUNIPER_SRX_E2E'', 233), (''DLT_JUNIPER_FIBRECHANNEL'', 234),
    (''DLT_DVB_CI'', 235), (''DLT_MUX27010'', 236), (''DLT_STANAG_5066_D_PDU'', 237),
    (''DLT_JUNIPER_ATM_CEMIC'', 238), (''DLT_NFLOG'', 239), (''DLT_NETANALYZER'', 240),
    (''DLT_NETANALYZER_TRANSPARENT'', 241), (''DLT_IPOIB'', 242), (''DLT_MPEG_2_TS'', 243),
    (''DLT_NG40'', 244), (''DLT_NFC_LLCP'', 245), (''DLT_PFSYNC'', 246), (''DLT_INFINIBAND'', 247),
    (''DLT_SCTP'', 248), (''DLT_USBPCAP'', 249), (''DLT_RTAC_SERIAL'', 250),
    (''DLT_BLUETOOTH_LE_LL'', 251), (''DLT_WIRESHARK_UPPER_PDU'', 252), (''DLT_NETLINK'', 253),
    (''DLT_BLUETOOTH_LINUX_MONITOR'', 254), (''DLT_BLUETOOTH_BREDR_BB'', 255),
    (''DLT_BLUETOOTH_LE_LL_WITH_PHDR'', 256), (''DLT_PROFIBUS_DL'', 257), (''DLT_PKTAP'', 258),
    (''DLT_EPON'', 259), (''DLT_IPMI_HPM_2'', 260), (''DLT_ZWAVE_R1_R2'', 261),
    (''DLT_ZWAVE_R3'', 262), (''DLT_WATTSTOPPER_DLM'', 263), (''DLT_ISO_14443'', 264),
    (''DLT_RDS'', 265), (''DLT_USB_DARWIN'', 266), (''DLT_OPENFLOW'', 267), (''DLT_SDLC'', 268),
    (''DLT_TI_LLN_SNIFFER'', 269), (''DLT_LORATAP'', 270), (''DLT_VSOCK'', 271),
    (''DLT_NORDIC_BLE'', 272), (''DLT_DOCSIS31_XRA31'', 273), (''DLT_ETHERNET_MPACKET'', 274),
    (''DLT_DISPLAYPORT_AUX'', 275), (''DLT_LINUX_SLL2'', 276), (''DLT_SERCOS_MONITOR'', 277),
    (''DLT_OPENVIZSLA'', 278), (''DLT_EBHSCR'', 279), (''DLT_VPP_DISPATCH'', 280),
    (''DLT_DSA_TAG_BRCM'', 281), (''DLT_DSA_TAG_BRCM_PREPEND'', 282),
    (''DLT_IEEE802_15_4_TAP'', 283), (''DLT_DSA_TAG_DSA'', 284), (''DLT_DSA_TAG_EDSA'', 285),
    (''DLT_ELEE'', 286), (''DLT_Z_WAVE_SERIAL'', 287), (''DLT_USB_2_0'', 288),
    (''DLT_ATSC_ALP'', 289), (''DLT_ETW'', 290), (''DLT_NETANALYZER_NG'', 291),
    (''DLT_ZBOSS_NCP'', 292), (''DLT_USB_2_0_LOW_SPEED'', 293), (''DLT_USB_2_0_FULL_SPEED'', 294),
    (''DLT_USB_2_0_HIGH_SPEED'', 295), (''DLT_AUERSWALD_LOG'', 296), (''DLT_ZWAVE_TAP'', 297),
    (''DLT_SILABS_DEBUG_CHANNEL'', 298), (''DLT_FIRA_UCI'', 299), (''DLT_MDB'', 300),
    (''DLT_DECT_NR'', 301), (''DLT_EDK2_MM'', 302), (''DLT_DEBUG_ONLY'', 303),
    (''DLT_DECT_NR_TAP'', 304)]"

definition wasm_consts :: "(string \<times> nat) list" where
  "wasm_consts = wasm_consts_1 @ wasm_consts_2 @ wasm_consts_3"

definition link_types_1 :: "(string \<times> string) list" where
  "link_types_1 =
   [(''DLT_NULL'', ''DLT_NULL''), (''DLT_EN10MB'', ''DLT_EN10MB''), (''DLT_EN3MB'', ''DLT_EN3MB''),
    (''DLT_AX25'', ''DLT_AX25''), (''DLT_PRONET'', ''DLT_PRONET''), (''DLT_CHAOS'', ''DLT_CHAOS''),
    (''DLT_IEEE802'', ''DLT_IEEE802''), (''DLT_ARCNET'', ''DLT_ARCNET''),
    (''DLT_SLIP'', ''DLT_SLIP''), (''DLT_PPP'', ''DLT_PPP''), (''DLT_FDDI'', ''DLT_FDDI''),
    (''DLT_ATM_RFC1483'', ''DLT_ATM_RFC1483''), (''DLT_RAW'', ''DLT_RAW''),
    (''DLT_SLIP_BSDOS'', ''DLT_SLIP_BSDOS''), (''DLT_PPP_BSDOS'', ''DLT_PPP_BSDOS''),
    (''DLT_ATM_CLIP'', ''DLT_ATM_CLIP''), (''DLT_REDBACK_SMARTEDGE'', ''DLT_REDBACK_SMARTEDGE''),
    (''DLT_PPP_SERIAL'', ''DLT_PPP_SERIAL''), (''DLT_PPP_ETHER'', ''DLT_PPP_ETHER''),
    (''DLT_SYMANTEC_FIREWALL'', ''DLT_SYMANTEC_FIREWALL''), (''DLT_C_HDLC'', ''DLT_C_HDLC''),
    (''DLT_IEEE802_11'', ''DLT_IEEE802_11''), (''DLT_FRELAY'', ''DLT_FRELAY''),
    (''DLT_LOOP'', ''DLT_LOOP''), (''DLT_ENC'', ''DLT_ENC''), (''DLT_HDLC'', ''DLT_HDLC''),
    (''DLT_LINUX_SLL'', ''DLT_LINUX_SLL''), (''DLT_LTALK'', ''DLT_LTALK''),
    (''DLT_ECONET'', ''DLT_ECONET''), (''DLT_IPFILTER'', ''DLT_IPFILTER''),
    (''DLT_PFLOG'', ''DLT_PFLOG''), (''DLT_CISCO_IOS'', ''DLT_CISCO_IOS''),
    (''DLT_PRISM_HEADER'', ''DLT_PRISM_HEADER''), (''DLT_AIRONET_HEADER'', ''DLT_AIRONET_HEADER''),
    (''DLT_HHDLC'', ''DLT_HHDLC''), (''DLT_IP_OVER_FC'', ''DLT_IP_OVER_FC''),
    (''DLT_SUNATM'', ''DLT_SUNATM''), (''DLT_RIO'', ''DLT_RIO''),
    (''DLT_PCI_EXP'', ''DLT_PCI_EXP''), (''DLT_AURORA'', ''DLT_AURORA''),
    (''DLT_IEEE802_11_RADIO'', ''DLT_IEEE802_11_RADIO''), (''DLT_TZSP'', ''DLT_TZSP''),
    (''DLT_ARCNET_LINUX'', ''DLT_ARCNET_LINUX''), (''DLT_JUNIPER_MLPPP'', ''DLT_JUNIPER_MLPPP''),
    (''DLT_JUNIPER_MLFR'', ''DLT_JUNIPER_MLFR''), (''DLT_JUNIPER_ES'', ''DLT_JUNIPER_ES''),
    (''DLT_JUNIPER_GGSN'', ''DLT_JUNIPER_GGSN''), (''DLT_JUNIPER_MFR'', ''DLT_JUNIPER_MFR''),
    (''DLT_JUNIPER_ATM2'', ''DLT_JUNIPER_ATM2''),
    (''DLT_JUNIPER_SERVICES'', ''DLT_JUNIPER_SERVICES''),
    (''DLT_JUNIPER_ATM1'', ''DLT_JUNIPER_ATM1''),
    (''DLT_APPLE_IP_OVER_IEEE1394'', ''DLT_APPLE_IP_OVER_IEEE1394''),
    (''DLT_MTP2_WITH_PHDR'', ''DLT_MTP2_WITH_PHDR''), (''DLT_MTP2'', ''DLT_MTP2''),
    (''DLT_MTP3'', ''DLT_MTP3''), (''DLT_SCCP'', ''DLT_SCCP''), (''DLT_DOCSIS'', ''DLT_DOCSIS''),
    (''DLT_LINUX_IRDA'', ''DLT_LINUX_IRDA''), (''DLT_IBM_SP'', ''DLT_IBM_SP''),
    (''DLT_IBM_SN'', ''DLT_IBM_SN''), (''DLT_USER0'', ''DLT_USER0''),
    (''DLT_USER1'', ''DLT_USER1''), (''DLT_USER2'', ''DLT_USER2''), (''DLT_USER3'', ''DLT_USER3''),
    (''DLT_USER4'', ''DLT_USER4''), (''DLT_USER5'', ''DLT_USER5''), (''DLT_USER6'', ''DLT_USER6''),
    (''DLT_USER7'', ''DLT_USER7''), (''DLT_USER8'', ''DLT_USER8''), (''DLT_USER9'', ''DLT_USER9''),
    (''DLT_USER10'', ''DLT_USER10''), (''DLT_USER11'', ''DLT_USER11''),
    (''DLT_USER12'', ''DLT_USER12'')]"

definition link_types_2 :: "(string \<times> string) list" where
  "link_types_2 =
   [(''DLT_USER13'', ''DLT_USER13''), (''DLT_USER14'', ''DLT_USER14''),
    (''DLT_USER15'', ''DLT_USER15''), (''DLT_IEEE802_11_RADIO_AVS'', ''DLT_IEEE802_11_RADIO_AVS''),
    (''DLT_JUNIPER_MONITOR'', ''DLT_JUNIPER_MONITOR''),
    (''DLT_BACNET_MS_TP'', ''DLT_BACNET_MS_TP''), (''DLT_PPP_PPPD'', ''DLT_PPP_PPPD''),
    (''DLT_JUNIPER_PPPOE'', ''DLT_JUNIPER_PPPOE''),
    (''DLT_JUNIPER_PPPOE_ATM'', ''DLT_JUNIPER_PPPOE_ATM''), (''DLT_GPRS_LLC'', ''DLT_GPRS_LLC''),
    (''DLT_GPF_T'', ''DLT_GPF_T''), (''DLT_GPF_F'', ''DLT_GPF_F''),
    (''DLT_GCOM_T1E1'', ''DLT_GCOM_T1E1''), (''DLT_GCOM_SERIAL'', ''DLT_GCOM_SERIAL''),
    (''DLT_JUNIPER_PIC_PEER'', ''DLT_JUNIPER_PIC_PEER''), (''DLT_ERF_ETH'', ''DLT_ERF_ETH''),
    (''DLT_ERF_POS'', ''DLT_ERF_POS''), (''DLT_LINUX_LAPD'', ''DLT_LINUX_LAPD''),
    (''DLT_JUNIPER_ETHER'', ''DLT_JUNIPER_ETHER''), (''DLT_JUNIPER_PPP'', ''DLT_JUNIPER_PPP''),
    (''DLT_JUNIPER_FRELAY'', ''DLT_JUNIPER_FRELAY''),
    (''DLT_JUNIPER_CHDLC'', ''DLT_JUNIPER_CHDLC''), (''DLT_MFR'', ''DLT_MFR''),
    (''DLT_JUNIPER_VP'', ''DLT_JUNIPER_VP''), (''DLT_A429'', ''DLT_A429''),
    (''DLT_A653_ICM'', ''DLT_A653_ICM''), (''DLT_USB'', ''DLT_USB''),
    (''DLT_USB_FREEBSD'', ''DLT_USB_FREEBSD''),
    (''DLT_BLUETOOTH_HCI_H4'', ''DLT_BLUETOOTH_HCI_H4''),
    (''DLT_IEEE802_16_MAC_CPS'', ''DLT_IEEE802_16_MAC_CPS''),
    (''DLT_USB_LINUX'', ''DLT_USB_LINUX''), (''DLT_CAN20B'', ''DLT_CAN20B''),
    (''DLT_IEEE802_15_4_LINUX'', ''DLT_IEEE802_15_4_LINUX''), (''DLT_PPI'', ''DLT_PPI''),
    (''DLT_IEEE802_16_MAC_CPS_RADIO'', ''DLT_IEEE802_16_MAC_CPS_RADIO''),
    (''DLT_JUNIPER_ISM'', ''DLT_JUNIPER_ISM''),
    (''DLT_IEEE802_15_4_WITHFCS'', ''DLT_IEEE802_15_4_WITHFCS''), (''DLT_SITA'', ''DLT_SITA''),
    (''DLT_ERF'', ''DLT_ERF''), (''DLT_RAIF1'', ''DLT_RAIF1''),
    (''DLT_IPMB_KONTRON'', ''DLT_IPMB_KONTRON''), (''DLT_JUNIPER_ST'', ''DLT_JUNIPER_ST''),
    (''DLT_BLUETOOTH_HCI_H4_WITH_PHDR'', ''DLT_BLUETOOTH_HCI_H4_WITH_PHDR''),
    (''DLT_AX25_KISS'', ''DLT_AX25_KISS''), (''DLT_LAPD'', ''DLT_LAPD''),
    (''DLT_PPP_WITH_DIR'', ''DLT_PPP_WITH_DIR''),
    (''DLT_C_HDLC_WITH_DIR'', ''DLT_C_HDLC_WITH_DIR''),
    (''DLT_FRELAY_WITH_DIR'', ''DLT_FRELAY_WITH_DIR''),
    (''DLT_LAPB_WITH_DIR'', ''DLT_LAPB_WITH_DIR''), (''DLT_I2C_LINUX'', ''DLT_I2C_LINUX''),
    (''DLT_IPMB_LINUX'', ''DLT_IPMB_LINUX''), (''DLT_FLEXRAY'', ''DLT_FLEXRAY''),
    (''DLT_MOST'', ''DLT_MOST''), (''DLT_LIN'', ''DLT_LIN''),
    (''DLT_X2E_SERIAL'', ''DLT_X2E_SERIAL''), (''DLT_X2E_XORAYA'', ''DLT_X2E_XORAYA''),
    (''DLT_IEEE802_15_4_NONASK_PHY'', ''DLT_IEEE802_15_4_NONASK_PHY''),
    (''DLT_LINUX_EVDEV'', ''DLT_LINUX_EVDEV''), (''DLT_GSMTAP_UM'', ''DLT_GSMTAP_UM''),
    (''DLT_GSMTAP_ABIS'', ''DLT_GSMTAP_ABIS''), (''DLT_MPLS'', ''DLT_MPLS''),
    (''DLT_USB_LINUX_MMAPPED'', ''DLT_USB_LINUX_MMAPPED''), (''DLT_DECT'', ''DLT_DECT''),
    (''DLT_AOS'', ''DLT_AOS''), (''DLT_WIHART'', ''DLT_WIHART''), (''DLT_FC_2'', ''DLT_FC_2''),
    (''DLT_FC_2_WITH_FRAME_DELIMS'', ''DLT_FC_2_WITH_FRAME_DELIMS''),
    (''DLT_IPNET'', ''DLT_IPNET''), (''DLT_CAN_SOCKETCAN'', ''DLT_CAN_SOCKETCAN''),
    (''DLT_IPV4'', ''DLT_IPV4''), (''DLT_IPV6'', ''DLT_IPV6''),
    (''DLT_IEEE802_15_4_NOFCS'', ''DLT_IEEE802_15_4_NOFCS''), (''DLT_DBUS'', ''DLT_DBUS'')]"

definition link_types_3 :: "(string \<times> string) list" where
  "link_types_3 =
   [(''DLT_JUNIPER_VS'', ''DLT_JUNIPER_VS''), (''DLT_JUNIPER_SRX_E2E'', ''DLT_JUNIPER_SRX_E2E''),
    (''DLT_JUNIPER_FIBRECHANNEL'', ''DLT_JUNIPER_FIBRECHANNEL''), (''DLT_DVB_CI'', ''DLT_DVB_CI''),
    (''DLT_MUX27010'', ''DLT_MUX27010''), (''DLT_STANAG_5066_D_PDU'', ''DLT_STANAG_5066_D_PDU''),
    (''DLT_JUNIPER_ATM_CEMIC'', ''DLT_JUNIPER_ATM_CEMIC''), (''DLT_NFLOG'', ''DLT_NFLOG''),
    (''DLT_NETANALYZER'', ''DLT_NETANALYZER''),
    (''DLT_NETANALYZER_TRANSPARENT'', ''DLT_NETANALYZER_TRANSPARENT''),
    (''DLT_IPOIB'', ''DLT_IPOIB''), (''DLT_MPEG_2_TS'', ''DLT_MPEG_2_TS''),
    (''DLT_NG40'', ''DLT_NG40''), (''DLT_NFC_LLCP'', ''DLT_NFC_LLCP''),
    (''DLT_PFSYNC'', ''DLT_PFSYNC''), (''DLT_INFINIBAND'', ''DLT_INFINIBAND''),
    (''DLT_SCTP'', ''DLT_SCTP''), (''DLT_USBPCAP'', ''DLT_USBPCAP''),
    (''DLT_RTAC_SERIAL'', ''DLT_RTAC_SERIAL''), (''DLT_BLUETOOTH_LE_LL'', ''DLT_BLUETOOTH_LE_LL''),
    (''DLT_WIRESHARK_UPPER_PDU'', ''DLT_WIRESHARK_UPPER_PDU''), (''DLT_NETLINK'', ''DLT_NETLINK''),
    (''DLT_BLUETOOTH_LINUX_MONITOR'', ''DLT_BLUETOOTH_LINUX_MONITOR''),
    (''DLT_BLUETOOTH_BREDR_BB'', ''DLT_BLUETOOTH_BREDR_BB''),
    (''DLT_BLUETOOTH_LE_LL_WITH_PHDR'', ''DLT_BLUETOOTH_LE_LL_WITH_PHDR''),
    (''DLT_PROFIBUS_DL'', ''DLT_PROFIBUS_DL''), (''DLT_PKTAP'', ''DLT_PKTAP''),
    (''DLT_EPON'', ''DLT_EPON''), (''DLT_IPMI_HPM_2'', ''DLT_IPMI_HPM_2''),
    (''DLT_ZWAVE_R1_R2'', ''DLT_ZWAVE_R1_R2''), (''DLT_ZWAVE_R3'', ''DLT_ZWAVE_R3''),
    (''DLT_WATTSTOPPER_DLM'', ''DLT_WATTSTOPPER_DLM''), (''DLT_ISO_14443'', ''DLT_ISO_14443''),
    (''DLT_RDS'', ''DLT_RDS''), (''DLT_USB_DARWIN'', ''DLT_USB_DARWIN''),
    (''DLT_OPENFLOW'', ''DLT_OPENFLOW''), (''DLT_SDLC'', ''DLT_SDLC''),
    (''DLT_TI_LLN_SNIFFER'', ''DLT_TI_LLN_SNIFFER''), (''DLT_LORATAP'', ''DLT_LORATAP''),
    (''DLT_VSOCK'', ''DLT_VSOCK''), (''DLT_NORDIC_BLE'', ''DLT_NORDIC_BLE''),
    (''DLT_DOCSIS31_XRA31'', ''DLT_DOCSIS31_XRA31''),
    (''DLT_ETHERNET_MPACKET'', ''DLT_ETHERNET_MPACKET''),
    (''DLT_DISPLAYPORT_AUX'', ''DLT_DISPLAYPORT_AUX''), (''DLT_LINUX_SLL2'', ''DLT_LINUX_SLL2''),
    (''DLT_SERCOS_MONITOR'', ''DLT_SERCOS_MONITOR''), (''DLT_OPENVIZSLA'', ''DLT_OPENVIZSLA''),
    (''DLT_EBHSCR'', ''DLT_EBHSCR''), (''DLT_VPP_DISPATCH'', ''DLT_VPP_DISPATCH''),
    (''DLT_DSA_TAG_BRCM'', ''DLT_DSA_TAG_BRCM''),
    (''DLT_DSA_TAG_BRCM_PREPEND'', ''DLT_DSA_TAG_BRCM_PREPEND''),
    (''DLT_IEEE802_15_4_TAP'', ''DLT_IEEE802_15_4_TAP''),
    (''DLT_DSA_TAG_DSA'', ''DLT_DSA_TAG_DSA''), (''DLT_DSA_TAG_EDSA'', ''DLT_DSA_TAG_EDSA''),
    (''DLT_ELEE'', ''DLT_ELEE''), (''DLT_Z_WAVE_SERIAL'', ''DLT_Z_WAVE_SERIAL''),
    (''DLT_USB_2_0'', ''DLT_USB_2_0''), (''DLT_ATSC_ALP'', ''DLT_ATSC_ALP''),
    (''DLT_ETW'', ''DLT_ETW''), (''DLT_NETANALYZER_NG'', ''DLT_NETANALYZER_NG''),
    (''DLT_ZBOSS_NCP'', ''DLT_ZBOSS_NCP''), (''DLT_USB_2_0_LOW_SPEED'', ''DLT_USB_2_0_LOW_SPEED''),
    (''DLT_USB_2_0_FULL_SPEED'', ''DLT_USB_2_0_FULL_SPEED''),
    (''DLT_USB_2_0_HIGH_SPEED'', ''DLT_USB_2_0_HIGH_SPEED''),
    (''DLT_AUERSWALD_LOG'', ''DLT_AUERSWALD_LOG''), (''DLT_ZWAVE_TAP'', ''DLT_ZWAVE_TAP''),
    (''DLT_SILABS_DEBUG_CHANNEL'', ''DLT_SILABS_DEBUG_CHANNEL''),
    (''DLT_FIRA_UCI'', ''DLT_FIRA_UCI''), (''DLT_MDB'', ''DLT_MDB''),
    (''DLT_DECT_NR'', ''DLT_DECT_NR''), (''DLT_EDK2_MM'', ''DLT_EDK2_MM''),
    (''DLT_DEBUG_ONLY'', ''DLT_DEBUG_ONLY''), (''DLT_DECT_NR_TAP'', ''DLT_DECT_NR_TAP'')]"

definition link_types :: "(string \<times> string) list" where
  "link_types = link_types_1 @ link_types_2 @ link_types_3"

definition lookup_cases_1 :: "(string \<times> string) list" where
  "lookup_cases_1 =
   [(''NULL'', ''DLT_NULL''), (''EN10MB'', ''DLT_EN10MB''), (''EN3MB'', ''DLT_EN3MB''),
    (''AX25'', ''DLT_AX25''), (''PRONET'', ''DLT_PRONET''), (''CHAOS'', ''DLT_CHAOS''),
    (''IEEE802'', ''DLT_IEEE802''), (''ARCNET'', ''DLT_ARCNET''), (''SLIP'', ''DLT_SLIP''),
    (''PPP'', ''DLT_PPP''), (''FDDI'', ''DLT_FDDI''), (''ATM_RFC1483'', ''DLT_ATM_RFC1483''),
    (''RAW'', ''DLT_RAW''), (''SLIP_BSDOS'', ''DLT_SLIP_BSDOS''),
    (''PPP_BSDOS'', ''DLT_PPP_BSDOS''), (''ATM_CLIP'', ''DLT_ATM_CLIP''),
    (''REDBACK_SMARTEDGE'', ''DLT_REDBACK_SMARTEDGE''), (''PPP_SERIAL'', ''DLT_PPP_SERIAL''),
    (''PPP_ETHER'', ''DLT_PPP_ETHER''), (''SYMANTEC_FIREWALL'', ''DLT_SYMANTEC_FIREWALL''),
    (''C_HDLC'', ''DLT_C_HDLC''), (''IEEE802_11'', ''DLT_IEEE802_11''),
    (''FRELAY'', ''DLT_FRELAY''), (''LOOP'', ''DLT_LOOP''), (''ENC'', ''DLT_ENC''),
    (''HDLC'', ''DLT_HDLC''), (''LINUX_SLL'', ''DLT_LINUX_SLL''), (''LTALK'', ''DLT_LTALK''),
    (''ECONET'', ''DLT_ECONET''), (''IPFILTER'', ''DLT_IPFILTER''), (''PFLOG'', ''DLT_PFLOG''),
    (''CISCO_IOS'', ''DLT_CISCO_IOS''), (''PRISM_HEADER'', ''DLT_PRISM_HEADER''),
    (''AIRONET_HEADER'', ''DLT_AIRONET_HEADER''), (''HHDLC'', ''DLT_HHDLC''),
    (''IP_OVER_FC'', ''DLT_IP_OVER_FC''), (''SUNATM'', ''DLT_SUNATM''), (''RIO'', ''DLT_RIO''),
    (''PCI_EXP'', ''DLT_PCI_EXP''), (''AURORA'', ''DLT_AURORA''),
    (''IEEE802_11_RADIO'', ''DLT_IEEE802_11_RADIO''), (''TZSP'', ''DLT_TZSP''),
    (''ARCNET_LINUX'', ''DLT_ARCNET_LINUX''), (''JUNIPER_MLPPP'', ''DLT_JUNIPER_MLPPP''),
    (''JUNIPER_MLFR'', ''DLT_JUNIPER_MLFR''), (''JUNIPER_ES'', ''DLT_JUNIPER_ES''),
    (''JUNIPER_GGSN'', ''DLT_JUNIPER_GGSN''), (''JUNIPER_MFR'', ''DLT_JUNIPER_MFR''),
    (''JUNIPER_ATM2'', ''DLT_JUNIPER_ATM2''), (''JUNIPER_SERVICES'', ''DLT_JUNIPER_SERVICES''),
    (''JUNIPER_ATM1'', ''DLT_JUNIPER_ATM1''),
    (''APPLE_IP_OVER_IEEE1394'', ''DLT_APPLE_IP_OVER_IEEE1394''),
    (''MTP2_WITH_PHDR'', ''DLT_MTP2_WITH_PHDR''), (''MTP2'', ''DLT_MTP2''),
    (''MTP3'', ''DLT_MTP3''), (''SCCP'', ''DLT_SCCP''), (''DOCSIS'', ''DLT_DOCSIS''),
    (''LINUX_IRDA'', ''DLT_LINUX_IRDA''), (''IBM_SP'', ''DLT_IBM_SP''),
    (''IBM_SN'', ''DLT_IBM_SN''), (''USER0'', ''DLT_USER0''), (''USER1'', ''DLT_USER1''),
    (''USER2'', ''DLT_USER2''), (''USER3'', ''DLT_USER3''), (''USER4'', ''DLT_USER4''),
    (''USER5'', ''DLT_USER5''), (''USER6'', ''DLT_USER6''), (''USER7'', ''DLT_USER7''),
    (''USER8'', ''DLT_USER8''), (''USER9'', ''DLT_USER9''), (''USER10'', ''DLT_USER10''),
    (''USER11'', ''DLT_USER11''), (''USER12'', ''DLT_USER12'')]"

definition lookup_cases_2 :: "(string \<times> string) list" where
  "lookup_cases_2 =
   [(''USER13'', ''DLT_USER13''), (''USER14'', ''DLT_USER14''), (''USER15'', ''DLT_USER15''),
    (''IEEE802_11_RADIO_AVS'', ''DLT_IEEE802_11_RADIO_AVS''),
    (''JUNIPER_MONITOR'', ''DLT_JUNIPER_MONITOR''), (''BACNET_MS_TP'', ''DLT_BACNET_MS_TP''),
    (''PPP_PPPD'', ''DLT_PPP_PPPD''), (''JUNIPER_PPPOE'', ''DLT_JUNIPER_PPPOE''),
    (''JUNIPER_PPPOE_ATM'', ''DLT_JUNIPER_PPPOE_ATM''), (''GPRS_LLC'', ''DLT_GPRS_LLC''),
    (''GPF_T'', ''DLT_GPF_T''), (''GPF_F'', ''DLT_GPF_F''), (''GCOM_T1E1'', ''DLT_GCOM_T1E1''),
    (''GCOM_SERIAL'', ''DLT_GCOM_SERIAL''), (''JUNIPER_PIC_PEER'', ''DLT_JUNIPER_PIC_PEER''),
    (''ERF_ETH'', ''DLT_ERF_ETH''), (''ERF_POS'', ''DLT_ERF_POS''),
    (''LINUX_LAPD'', ''DLT_LINUX_LAPD''), (''JUNIPER_ETHER'', ''DLT_JUNIPER_ETHER''),
    (''JUNIPER_PPP'', ''DLT_JUNIPER_PPP''), (''JUNIPER_FRELAY'', ''DLT_JUNIPER_FRELAY''),
    (''JUNIPER_CHDLC'', ''DLT_JUNIPER_CHDLC''), (''MFR'', ''DLT_MFR''),
    (''JUNIPER_VP'', ''DLT_JUNIPER_VP''), (''A429'', ''DLT_A429''),
    (''A653_ICM'', ''DLT_A653_ICM''), (''USB'', ''DLT_USB''),
    (''USB_FREEBSD'', ''DLT_USB_FREEBSD''), (''BLUETOOTH_HCI_H4'', ''DLT_BLUETOOTH_HCI_H4''),
    (''IEEE802_16_MAC_CPS'', ''DLT_IEEE802_16_MAC_CPS''), (''USB_LINUX'', ''DLT_USB_LINUX''),
    (''CAN20B'', ''DLT_CAN20B''), (''IEEE802_15_4_LINUX'', ''DLT_IEEE802_15_4_LINUX''),
    (''PPI'', ''DLT_PPI''), (''IEEE802_16_MAC_CPS_RADIO'', ''DLT_IEEE802_16_MAC_CPS_RADIO''),
    (''JUNIPER_ISM'', ''DLT_JUNIPER_ISM''),
    (''IEEE802_15_4_WITHFCS'', ''DLT_IEEE802_15_4_WITHFCS''), (''SITA'', ''DLT_SITA''),
    (''ERF'', ''DLT_ERF''), (''RAIF1'', ''DLT_RAIF1''), (''IPMB_KONTRON'', ''DLT_IPMB_KONTRON''),
    (''JUNIPER_ST'', ''DLT_JUNIPER_ST''),
    (''BLUETOOTH_HCI_H4_WITH_PHDR'', ''DLT_BLUETOOTH_HCI_H4_WITH_PHDR''),
    (''AX25_KISS'', ''DLT_AX25_KISS''), (''LAPD'', ''DLT_LAPD''),
    (''PPP_WITH_DIR'', ''DLT_PPP_WITH_DIR''), (''C_HDLC_WITH_DIR'', ''DLT_C_HDLC_WITH_DIR''),
    (''FRELAY_WITH_DIR'', ''DLT_FRELAY_WITH_DIR''), (''LAPB_WITH_DIR'', ''DLT_LAPB_WITH_DIR''),
    (''I2C_LINUX'', ''DLT_I2C_LINUX''), (''IPMB_LINUX'', ''DLT_IPMB_LINUX''),
    (''FLEXRAY'', ''DLT_FLEXRAY''), (''MOST'', ''DLT_MOST''), (''LIN'', ''DLT_LIN''),
    (''X2E_SERIAL'', ''DLT_X2E_SERIAL''), (''X2E_XORAYA'', ''DLT_X2E_XORAYA''),
    (''IEEE802_15_4_NONASK_PHY'', ''DLT_IEEE802_15_4_NONASK_PHY''),
    (''LINUX_EVDEV'', ''DLT_LINUX_EVDEV''), (''GSMTAP_UM'', ''DLT_GSMTAP_UM''),
    (''GSMTAP_ABIS'', ''DLT_GSMTAP_ABIS''), (''MPLS'', ''DLT_MPLS''),
    (''USB_LINUX_MMAPPED'', ''DLT_USB_LINUX_MMAPPED''), (''DECT'', ''DLT_DECT''),
    (''AOS'', ''DLT_AOS''), (''WIHART'', ''DLT_WIHART''), (''FC_2'', ''DLT_FC_2''),
    (''FC_2_WITH_FRAME_DELIMS'', ''DLT_FC_2_WITH_FRAME_DELIMS''), (''IPNET'', ''DLT_IPNET''),
    (''CAN_SOCKETCAN'', ''DLT_CAN_SOCKETCAN''), (''IPV4'', ''DLT_IPV4''), (''IPV6'', ''DLT_IPV6''),
    (''IEEE802_15_4_NOFCS'', ''DLT_IEEE802_15_4_NOFCS''), (''DBUS'', ''DLT_DBUS'')]"

definition lookup_cases_3 :: "(string \<times> string) list" where
  "lookup_cases_3 =
   [(''JUNIPER_VS'', ''DLT_JUNIPER_VS''), (''JUNIPER_SRX_E2E'', ''DLT_JUNIPER_SRX_E2E''),
    (''JUNIPER_FIBRECHANNEL'', ''DLT_JUNIPER_FIBRECHANNEL''), (''DVB_CI'', ''DLT_DVB_CI''),
    (''MUX27010'', ''DLT_MUX27010''), (''STANAG_5066_D_PDU'', ''DLT_STANAG_5066_D_PDU''),
    (''JUNIPER_ATM_CEMIC'', ''DLT_JUNIPER_ATM_CEMIC''), (''NFLOG'', ''DLT_NFLOG''),
    (''NETANALYZER'', ''DLT_NETANALYZER''),
    (''NETANALYZER_TRANSPARENT'', ''DLT_NETANALYZER_TRANSPARENT''), (''IPOIB'', ''DLT_IPOIB''),
    (''MPEG_2_TS'', ''DLT_MPEG_2_TS''), (''NG40'', ''DLT_NG40''), (''NFC_LLCP'', ''DLT_NFC_LLCP''),
    (''PFSYNC'', ''DLT_PFSYNC''), (''INFINIBAND'', ''DLT_INFINIBAND''), (''SCTP'', ''DLT_SCTP''),
    (''USBPCAP'', ''DLT_USBPCAP''), (''RTAC_SERIAL'', ''DLT_RTAC_SERIAL''),
    (''BLUETOOTH_LE_LL'', ''DLT_BLUETOOTH_LE_LL''),
    (''WIRESHARK_UPPER_PDU'', ''DLT_WIRESHARK_UPPER_PDU''), (''NETLINK'', ''DLT_NETLINK''),
    (''BLUETOOTH_LINUX_MONITOR'', ''DLT_BLUETOOTH_LINUX_MONITOR''),
    (''BLUETOOTH_BREDR_BB'', ''DLT_BLUETOOTH_BREDR_BB''),
    (''BLUETOOTH_LE_LL_WITH_PHDR'', ''DLT_BLUETOOTH_LE_LL_WITH_PHDR''),
    (''PROFIBUS_DL'', ''DLT_PROFIBUS_DL''), (''PKTAP'', ''DLT_PKTAP''), (''EPON'', ''DLT_EPON''),
    (''IPMI_HPM_2'', ''DLT_IPMI_HPM_2''), (''ZWAVE_R1_R2'', ''DLT_ZWAVE_R1_R2''),
    (''ZWAVE_R3'', ''DLT_ZWAVE_R3''), (''WATTSTOPPER_DLM'', ''DLT_WATTSTOPPER_DLM''),
    (''ISO_14443'', ''DLT_ISO_14443''), (''RDS'', ''DLT_RDS''),
    (''USB_DARWIN'', ''DLT_USB_DARWIN''), (''OPENFLOW'', ''DLT_OPENFLOW''),
    (''SDLC'', ''DLT_SDLC''), (''TI_LLN_SNIFFER'', ''DLT_TI_LLN_SNIFFER''),
    (''LORATAP'', ''DLT_LORATAP''), (''VSOCK'', ''DLT_VSOCK''),
    (''NORDIC_BLE'', ''DLT_NORDIC_BLE''), (''DOCSIS31_XRA31'', ''DLT_DOCSIS31_XRA31''),
    (''ETHERNET_MPACKET'', ''DLT_ETHERNET_MPACKET''),
    (''DISPLAYPORT_AUX'', ''DLT_DISPLAYPORT_AUX''), (''LINUX_SLL2'', ''DLT_LINUX_SLL2''),
    (''SERCOS_MONITOR'', ''DLT_SERCOS_MONITOR''), (''OPENVIZSLA'', ''DLT_OPENVIZSLA''),
    (''EBHSCR'', ''DLT_EBHSCR''), (''VPP_DISPATCH'', ''DLT_VPP_DISPATCH''),
    (''DSA_TAG_BRCM'', ''DLT_DSA_TAG_BRCM''),
    (''DSA_TAG_BRCM_PREPEND'', ''DLT_DSA_TAG_BRCM_PREPEND''),
    (''IEEE802_15_4_TAP'', ''DLT_IEEE802_15_4_TAP''), (''DSA_TAG_DSA'', ''DLT_DSA_TAG_DSA''),
    (''DSA_TAG_EDSA'', ''DLT_DSA_TAG_EDSA''), (''ELEE'', ''DLT_ELEE''),
    (''Z_WAVE_SERIAL'', ''DLT_Z_WAVE_SERIAL''), (''USB_2_0'', ''DLT_USB_2_0''),
    (''ATSC_ALP'', ''DLT_ATSC_ALP''), (''ETW'', ''DLT_ETW''),
    (''NETANALYZER_NG'', ''DLT_NETANALYZER_NG''), (''ZBOSS_NCP'', ''DLT_ZBOSS_NCP''),
    (''USB_2_0_LOW_SPEED'', ''DLT_USB_2_0_LOW_SPEED''),
    (''USB_2_0_FULL_SPEED'', ''DLT_USB_2_0_FULL_SPEED''),
    (''USB_2_0_HIGH_SPEED'', ''DLT_USB_2_0_HIGH_SPEED''),
    (''AUERSWALD_LOG'', ''DLT_AUERSWALD_LOG''), (''ZWAVE_TAP'', ''DLT_ZWAVE_TAP''),
    (''SILABS_DEBUG_CHANNEL'', ''DLT_SILABS_DEBUG_CHANNEL''), (''FIRA_UCI'', ''DLT_FIRA_UCI''),
    (''MDB'', ''DLT_MDB''), (''DECT_NR'', ''DLT_DECT_NR''), (''EDK2_MM'', ''DLT_EDK2_MM''),
    (''DEBUG_ONLY'', ''DLT_DEBUG_ONLY''), (''DECT_NR_TAP'', ''DLT_DECT_NR_TAP'')]"

definition lookup_cases :: "(string \<times> string) list" where
  "lookup_cases = lookup_cases_1 @ lookup_cases_2 @ lookup_cases_3"

section \<open>Looking up a name\<close>

definition upper_ascii :: "char \<Rightarrow> char" where
  "upper_ascii c =
     (if 97 \<le> (of_char c :: nat) \<and> (of_char c :: nat) \<le> 122 then char_of ((of_char c :: nat) - 32) else c)"

text \<open>
  \<open>strings.ToUpper\<close> on bytes: letter by letter for an ASCII string; for any other string it maps
  code points by the Unicode tables, which are the parameter \<open>uni\<close>.
\<close>

definition to_upper :: "(string \<Rightarrow> string) \<Rightarrow> string \<Rightarrow> string" where
  "to_upper uni s = (if \<forall>c \<in> set s. (of_char c :: nat) < 128 then map upper_ascii s else uni s)"

definition trim_prefix :: "string \<Rightarrow> string \<Rightarrow> string" where
  "trim_prefix s p = (if take (length p) s = p then drop (length p) s else s)"

definition link_type_const :: "string \<Rightarrow> nat option" where
  "link_type_const n = Option.bind (map_of link_types n) (map_of wasm_consts)"

definition lookup_link_type :: "(string \<Rightarrow> string) \<Rightarrow> string \<Rightarrow> nat option" where
  "lookup_link_type uni name =
     Option.bind (map_of lookup_cases (trim_prefix (to_upper uni name) ''DLT_'')) link_type_const"

section \<open>The generator\<close>

text \<open>\<open>dlt.go\<close>: the names of the constants with the prefix, and the two tables made of them.\<close>

definition dlt_names :: "(string \<times> nat) list \<Rightarrow> string list" where
  "dlt_names consts = filter (\<lambda>n. take 4 n = ''DLT_'') (map fst consts)"

definition gen_link_types :: "string list \<Rightarrow> (string \<times> string) list" where
  "gen_link_types names = map (\<lambda>n. (n, n)) names"

definition gen_lookup_cases :: "string list \<Rightarrow> (string \<times> string) list" where
  "gen_lookup_cases names = map (\<lambda>n. (to_upper id (trim_prefix n ''DLT_''), n)) names"

lemma dlt_names_1: "dlt_names wasm_consts_1 = map snd lookup_cases_1"
  by (simp add: dlt_names_def wasm_consts_1_def lookup_cases_1_def)

lemma gen_link_types_1: "gen_link_types (map snd lookup_cases_1) = link_types_1"
  by (simp add: gen_link_types_def link_types_1_def lookup_cases_1_def)

lemma gen_lookup_cases_1: "gen_lookup_cases (map snd lookup_cases_1) = lookup_cases_1"
  by (simp add: lookup_cases_1_def gen_lookup_cases_def to_upper_def upper_ascii_def trim_prefix_def)

lemma dlt_names_2: "dlt_names wasm_consts_2 = map snd lookup_cases_2"
  by (simp add: dlt_names_def wasm_consts_2_def lookup_cases_2_def)

lemma gen_link_types_2: "gen_link_types (map snd lookup_cases_2) = link_types_2"
  by (simp add: gen_link_types_def link_types_2_def lookup_cases_2_def)

lemma gen_lookup_cases_2: "gen_lookup_cases (map snd lookup_cases_2) = lookup_cases_2"
  by (simp add: lookup_cases_2_def gen_lookup_cases_def to_upper_def upper_ascii_def trim_prefix_def)

lemma dlt_names_3: "dlt_names wasm_consts_3 = map snd lookup_cases_3"
  by (simp add: dlt_names_def wasm_consts_3_def lookup_cases_3_def)

lemma gen_link_types_3: "gen_link_types (map snd lookup_cases_3) = link_types_3"
  by (simp add: gen_link_types_def link_types_3_def lookup_cases_3_def)

lemma gen_lookup_cases_3: "gen_lookup_cases (map snd lookup_cases_3) = lookup_cases_3"
  by (simp add: lookup_cases_3_def gen_lookup_cases_def to_upper_def upper_ascii_def trim_prefix_def)

lemma dlt_names_tables: "dlt_names wasm_consts = map snd lookup_cases"
  using dlt_names_1 dlt_names_2 dlt_names_3
  by (simp add: dlt_names_def wasm_consts_def lookup_cases_def)

lemma gen_link_types_tables: "gen_link_types (dlt_names wasm_consts) = link_types"
  using gen_link_types_1 gen_link_types_2 gen_link_types_3
  by (simp add: dlt_names_tables gen_link_types_def lookup_cases_def link_types_def)

lemma gen_lookup_cases_tables: "gen_lookup_cases (dlt_names wasm_consts) = lookup_cases"
  using gen_lookup_cases_1 gen_lookup_cases_2 gen_lookup_cases_3
  by (simp add: dlt_names_tables gen_lookup_cases_def lookup_cases_def)

lemma case_names_1: "list_all (\<lambda>(l, n). n = ''DLT_'' @ l) lookup_cases_1"
  by (simp add: lookup_cases_1_def)

lemma case_names_2: "list_all (\<lambda>(l, n). n = ''DLT_'' @ l) lookup_cases_2"
  by (simp add: lookup_cases_2_def)

lemma case_names_3: "list_all (\<lambda>(l, n). n = ''DLT_'' @ l) lookup_cases_3"
  by (simp add: lookup_cases_3_def)

lemma case_names: "(l, n) \<in> set lookup_cases \<Longrightarrow> n = ''DLT_'' @ l"
  using case_names_1 case_names_2 case_names_3 by (auto simp: lookup_cases_def list_all_iff)

lemma map_of_self: "n \<in> set ns \<Longrightarrow> map_of (map (\<lambda>n. (n, n)) ns) n = Some n"
  by (induction ns) auto

lemma link_type_const_name:
  assumes "n \<in> set (dlt_names wasm_consts)"
  shows "link_type_const n = map_of wasm_consts n"
  using map_of_self [OF assms]
  by (simp add: link_type_const_def gen_link_types_tables [symmetric] gen_link_types_def)

lemma lookup_constant:
  "lookup_link_type uni s =
    map_of wasm_consts (''DLT_'' @ trim_prefix (to_upper uni s) ''DLT_'')"
proof -
  define l where "l = trim_prefix (to_upper uni s) ''DLT_''"
  have names: "set (dlt_names wasm_consts) = snd ` set lookup_cases" by (simp add: dlt_names_tables)
  show ?thesis
  proof (cases "map_of lookup_cases l")
    case None
    have "''DLT_'' @ l \<notin> set (dlt_names wasm_consts)"
    proof
      assume "''DLT_'' @ l \<in> set (dlt_names wasm_consts)"
      then obtain l' where row: "(l', ''DLT_'' @ l) \<in> set lookup_cases" unfolding names by force
      with case_names [OF row] have "l \<in> fst ` set lookup_cases" by force
      with None show False by (simp add: map_of_eq_None_iff)
    qed
    then have "''DLT_'' @ l \<notin> fst ` set wasm_consts" by (auto simp: dlt_names_def)
    then have "map_of wasm_consts (''DLT_'' @ l) = None" by (simp only: map_of_eq_None_iff) simp
    with None show ?thesis by (simp add: lookup_link_type_def l_def)
  next
    case (Some n)
    then have mem: "(l, n) \<in> set lookup_cases" by (rule map_of_SomeD)
    then have "n = ''DLT_'' @ l" by (rule case_names)
    moreover have "n \<in> set (dlt_names wasm_consts)" using mem unfolding names by force
    ultimately show ?thesis
      using Some link_type_const_name [of n] by (simp add: lookup_link_type_def l_def)
  qed
qed

text \<open>
  C23: \<open>LookupLinkType\<close> returns the value of the constant of \<open>internal/const.go\<close> whose name is
  \<open>DLT_\<close> followed by the argument, upper-cased and without its own \<open>DLT_\<close> prefix, and fails
  exactly when there is no such constant.
\<close>

theorem lookup_link_type_constant:
  "lookup_link_type uni s =
    map_of wasm_consts (''DLT_'' @ trim_prefix (to_upper uni s) ''DLT_'')"
  by (rule lookup_constant)

end
