(* ===== verification/Go_Strings.thy ===== *)
theory Go_Strings
  imports Prelude "HOL-Library.Char_ord"
begin

text \<open>
  What the command line tool and the generators use of Go's standard library: splitting into
  lines and fields (\<open>bufio.Scanner\<close>, \<open>strings.Fields\<close>, \<open>strings.TrimSpace\<close>), numbers
  (\<open>strconv.Atoi\<close>, \<open>strconv.ParseInt\<close> with base 0), hardware addresses (\<open>net.ParseMAC\<close>) and
  IPv4 addresses and prefixes (\<open>net/netip\<close>). Strings are ASCII strings.
\<close>

section \<open>Lines and fields\<close>

definition is_space :: "char \<Rightarrow> bool" where
  "is_space c \<longleftrightarrow> (of_char c :: nat) \<in> {9, 10, 11, 12, 13, 32}"

definition trim_space :: "string \<Rightarrow> string" where
  "trim_space s = rev (dropWhile is_space (rev (dropWhile is_space s)))"

fun fields_acc :: "string \<Rightarrow> string \<Rightarrow> string list" where
  "fields_acc cur [] = (if cur = [] then [] else [rev cur])"
| "fields_acc cur (c # cs) =
     (if is_space c then (if cur = [] then [] else [rev cur]) @ fields_acc [] cs
      else fields_acc (c # cur) cs)"

definition split_fields :: "string \<Rightarrow> string list" where
  "split_fields s = fields_acc [] s"

text \<open>
  \<open>bufio.ScanLines\<close>: the lines without their ends; a line of 64 KiB or more stops the scanner
  with an error (the flag).
\<close>

definition drop_cr :: "string \<Rightarrow> string" where
  "drop_cr s = (if s \<noteq> [] \<and> last s = CHR 0x0D then butlast s else s)"

function scan_lines :: "string \<Rightarrow> string list \<times> bool" where
  "scan_lines s =
     (if s = [] then ([], False)
      else
        (let line = takeWhile (\<lambda>c. c \<noteq> CHR 0x0A) s
         in if 65536 \<le> length line then ([], True)
            else
              (let (ls, err) = scan_lines (drop (Suc (length line)) s)
               in (drop_cr line # ls, err))))"
  by pat_completeness auto
termination by (relation "measure length") auto

declare scan_lines.simps [simp del]

fun split_on :: "char \<Rightarrow> string \<Rightarrow> string list" where
  "split_on c [] = [[]]"
| "split_on c (x # xs) =
     (if x = c then [] # split_on c xs
      else (case split_on c xs of [] \<Rightarrow> [[x]] | f # fs \<Rightarrow> (x # f) # fs))"

section \<open>Numbers\<close>

definition digit_value :: "char \<Rightarrow> nat option" where
  "digit_value c =
     (let n = of_char c :: nat
      in if 48 \<le> n \<and> n \<le> 57 then Some (n - 48)
         else if 97 \<le> n \<and> n \<le> 122 then Some (n - 87)
         else if 65 \<le> n \<and> n \<le> 90 then Some (n - 55)
         else None)"

fun digits_value :: "nat \<Rightarrow> nat \<Rightarrow> string \<Rightarrow> nat option" where
  "digits_value base acc [] = Some acc"
| "digits_value base acc (c # cs) =
     (case digit_value c of
        None \<Rightarrow> None
      | Some d \<Rightarrow> if d < base then digits_value base (base * acc + d) cs else None)"

definition split_sign :: "string \<Rightarrow> bool \<times> string" where
  "split_sign s =
     (case s of
        [] \<Rightarrow> (False, [])
      | c # cs \<Rightarrow> if c = CHR ''-'' then (True, cs) else if c = CHR ''+'' then (False, cs) else (False, s))"

text \<open>A value of 64 bits with its sign; out of range is an error.\<close>

definition signed_range :: "bool \<Rightarrow> nat \<Rightarrow> int option" where
  "signed_range neg n =
     (if neg then (if int n \<le> 9223372036854775808 then Some (- int n) else None)
      else (if int n < 9223372036854775808 then Some (int n) else None))"

definition atoi :: "string \<Rightarrow> int option" where
  "atoi s =
     (let (neg, ds) = split_sign s
      in if ds = [] then None else Option.bind (digits_value 10 0 ds) (signed_range neg))"

text \<open>
  \<open>underscoreOK\<close>: underscores only between digits, a base prefix counting as a digit. The state
  is the kind of the last character: a digit, an underscore or anything else.
\<close>

datatype under_state = NoDigit | Digit | Under

fun under_ok :: "bool \<Rightarrow> under_state \<Rightarrow> string \<Rightarrow> bool" where
  "under_ok hex st [] = (st \<noteq> Under)"
| "under_ok hex st (c # cs) =
     (if c = CHR ''_'' then st = Digit \<and> under_ok hex Under cs
      else if (case digit_value c of None \<Rightarrow> False | Some d \<Rightarrow> d < 10 \<or> hex \<and> d < 16)
      then under_ok hex Digit cs
      else st \<noteq> Under \<and> under_ok hex NoDigit cs)"

definition base_prefix :: "string \<Rightarrow> (nat \<times> string) option" where
  "base_prefix s =
     (if 2 \<le> length s \<and> hd s = CHR ''0'' then
        (if s ! 1 \<in> {CHR ''b'', CHR ''B''} then Some (2, drop 2 s)
         else if s ! 1 \<in> {CHR ''o'', CHR ''O''} then Some (8, drop 2 s)
         else if s ! 1 \<in> {CHR ''x'', CHR ''X''} then Some (16, drop 2 s)
         else None)
      else None)"

definition underscore_ok :: "string \<Rightarrow> bool" where
  "underscore_ok s =
     (case base_prefix s of
        Some (b, ds) \<Rightarrow> under_ok (b = 16) Digit ds
      | None \<Rightarrow> under_ok False NoDigit s)"

text \<open>\<open>strconv.ParseInt(s, 0, 0)\<close>.\<close>

definition parse_int :: "string \<Rightarrow> int option" where
  "parse_int s =
     (let (neg, u) = split_sign s
      in if u = [] then None
         else
           (let (base, ds) =
              (case (if 3 \<le> length u then base_prefix u else None) of
                 Some (b, ds) \<Rightarrow> (b, ds)
               | None \<Rightarrow> if hd u = CHR ''0'' then (8, tl u) else (10, u));
              plain = filter (\<lambda>c. c \<noteq> CHR ''_'') ds
            in if plain \<noteq> ds \<and> \<not> underscore_ok u then None
               else Option.bind (digits_value base 0 plain) (signed_range neg)))"

section \<open>Hardware addresses\<close>

definition hex_digit :: "char \<Rightarrow> nat option" where
  "hex_digit c = (case digit_value c of Some d \<Rightarrow> if d < 16 then Some d else None | None \<Rightarrow> None)"

text \<open>\<open>xtoi2 s e\<close>: two hexadecimal digits, followed by nothing or by \<open>e\<close>.\<close>

definition xtoi2 :: "string \<Rightarrow> char \<Rightarrow> u8 option" where
  "xtoi2 s e =
     (if 2 < length s \<and> s ! 2 \<noteq> e then None
      else
        (case s of
           a # b # _ \<Rightarrow>
             (case (hex_digit a, hex_digit b) of
                (Some x, Some y) \<Rightarrow> Some (of_nat (16 * x + y))
              | _ \<Rightarrow> None)
         | _ \<Rightarrow> None))"

definition mac_length :: "nat \<Rightarrow> bool" where
  "mac_length n \<longleftrightarrow> n = 6 \<or> n = 8 \<or> n = 20"

definition parse_mac :: "string \<Rightarrow> u8 list option" where
  "parse_mac s =
     (if length s < 14 then None
      else if s ! 2 = CHR '':'' \<or> s ! 2 = CHR ''-'' then
        (let n = (length s + 1) div 3
         in if (length s + 1) mod 3 \<noteq> 0 \<or> \<not> mac_length n then None
            else those (map (\<lambda>i. xtoi2 (drop (3 * i) s) (s ! 2)) [0..<n]))
      else if s ! 4 = CHR ''.'' then
        (let n = 2 * (length s + 1) div 5
         in if (length s + 1) mod 5 \<noteq> 0 \<or> \<not> mac_length n then None
            else those (map (\<lambda>i. if even i
                then xtoi2 (take 2 (drop (5 * (i div 2)) s)) CHR 0x00
                else xtoi2 (drop (5 * (i div 2) + 2) s) (s ! 4)) [0..<n]))
      else None)"

section \<open>Addresses\<close>

definition parse_octet :: "string \<Rightarrow> u8 option" where
  "parse_octet s =
     (if s = [] \<or> (1 < length s \<and> hd s = CHR ''0'') then None
      else
        (case digits_value 10 0 s of
           None \<Rightarrow> None
         | Some n \<Rightarrow> if n \<le> 255 then Some (of_nat n) else None))"

definition parse_ipv4 :: "string \<Rightarrow> u8 list option" where
  "parse_ipv4 s =
     (let fs = split_on CHR ''.'' s
      in if length fs \<noteq> 4 then None else those (map parse_octet fs))"

text \<open>
  \<open>netip.ParseAddr\<close>: the first of \<open>.\<close>, \<open>:\<close> and \<open>%\<close> decides. Of an IPv6 address the code only
  asks whether it is one, which the parameter \<open>ipv6\<close> says.
\<close>

datatype parsed_addr = Addr4 "u8 list" | Addr6

definition parse_addr :: "(string \<Rightarrow> bool) \<Rightarrow> string \<Rightarrow> parsed_addr option" where
  "parse_addr ipv6 s =
     (case dropWhile (\<lambda>c. c \<notin> {CHR ''.'', CHR '':'', CHR ''%''}) s of
        [] \<Rightarrow> None
      | c # _ \<Rightarrow>
          if c = CHR ''.'' then map_option Addr4 (parse_ipv4 s)
          else if c = CHR '':'' then (if ipv6 s then Some Addr6 else None)
          else None)"

text \<open>\<open>netip.ParsePrefix\<close>: the address, the number of bits. Of zones, only IPv6 has any.\<close>

definition parse_prefix :: "(string \<Rightarrow> bool) \<Rightarrow> string \<Rightarrow> (parsed_addr \<times> nat) option" where
  "parse_prefix ipv6 s =
     (if CHR ''/'' \<notin> set s then None
      else
        (let bits_str = rev (takeWhile (\<lambda>c. c \<noteq> CHR ''/'') (rev s));
             addr_str = butlast (rev (dropWhile (\<lambda>c. c \<noteq> CHR ''/'') (rev s)))
         in do {
           ip \<leftarrow> parse_addr (\<lambda>s. ipv6 s \<and> CHR ''%'' \<notin> set s) addr_str;
           if 1 < length bits_str \<and> \<not> (CHR ''1'' \<le> hd bits_str \<and> hd bits_str \<le> CHR ''9'') then None
           else do {
             bits \<leftarrow> atoi bits_str;
             let max_bits = (case ip of Addr4 _ \<Rightarrow> 32 | Addr6 \<Rightarrow> 128);
             if bits < 0 \<or> max_bits < bits then None else Some (ip, nat bits)
           }
         }))"

lemma those_length: "those xs = Some ys \<Longrightarrow> length ys = length xs"
  by (induction xs arbitrary: ys) (auto split: option.splits)

lemma parse_ipv4_length: "parse_ipv4 s = Some b \<Longrightarrow> length b = 4"
  by (auto simp: parse_ipv4_def Let_def split: if_splits dest!: those_length)

lemma parse_addr4_length: "parse_addr ipv6 s = Some (Addr4 b) \<Longrightarrow> length b = 4"
  by (auto simp: parse_addr_def parse_ipv4_length split: list.splits if_splits)

lemma parse_prefix_bits: "parse_prefix ipv6 s = Some (Addr4 b, n) \<Longrightarrow> n \<le> 32"
  by (auto simp: parse_prefix_def Let_def split: if_splits option_bind_splits)

end
