(* ===== verification/Cli.thy ===== *)
theory Cli
  imports Link_Types Go_Strings
begin

text \<open>
  The command \<open>pcap-compile-filter\<close> (\<open>cmd/pcap-compile-filter/main.go\<close>) and the generator of the
  constants (\<open>src/constgen.go\<close>). Files, the resolver and the parser of IPv6 addresses are
  parameters.
\<close>

section \<open>The netmask\<close>

definition bits_to_mask :: "nat \<Rightarrow> u8 list" where
  "bits_to_mask bits =
     (let m = push_bit (32 - bits) (- 1 :: u32)
      in [ucast (drop_bit 24 m), ucast (drop_bit 16 m), ucast (drop_bit 8 m), ucast m])"

definition parse_mask :: "(string \<Rightarrow> bool) \<Rightarrow> string \<Rightarrow> string + ip_addr" where
  "parse_mask ipv6 s =
     (if s = [] then Inr NoAddr
      else
        (case parse_prefix ipv6 s of
           Some (Addr6, bits) \<Rightarrow> Inl ''not ipv4''
         | Some (Addr4 _, bits) \<Rightarrow> Inr (Ip4 (bits_to_mask bits))
         | None \<Rightarrow>
             (case parse_addr ipv6 s of
                Some Addr6 \<Rightarrow> Inl ''not ipv4''
              | Some (Addr4 b) \<Rightarrow>
                  (let inv = NOT (the (be_uint32 b))
                   in if inv AND (inv + 1) \<noteq> 0 then Inl ''invalid mask'' else Inr (Ip4 b))
              | None \<Rightarrow>
                  (case atoi s of
                     Some n \<Rightarrow>
                       if 0 \<le> n \<and> n \<le> 32 then Inr (Ip4 (bits_to_mask (nat n)))
                       else Inl ''not a valid cidr, mask, or prefix length''
                   | None \<Rightarrow> Inl ''not a valid cidr, mask, or prefix length''))))"

section \<open>Lookups\<close>

datatype resolver = DefaultResolver | DialResolver string

text \<open>
  \<open>newLookup\<close>: the function it returns, with what it writes to standard output. \<open>query r host\<close> is
  the answer of \<open>LookupNetIP\<close>; a nil resolver answers too, as a zero \<open>net.Resolver\<close> does.
\<close>

definition new_resolver :: "string \<Rightarrow> resolver option" where
  "new_resolver s =
     (if s = ''auto'' then Some DefaultResolver
      else if s \<noteq> [] then Some (DialResolver s) else None)"

definition new_lookup ::
  "(resolver option \<Rightarrow> string \<Rightarrow> string + ip_addr list) \<Rightarrow> string \<Rightarrow> string \<Rightarrow>
    (string + ip_addr list) list \<times> (string + ip_addr list)" where
  "new_lookup query s host =
     (let r = new_resolver s;
          printed = [query r host]
      in if r = None then (printed, Inl ''dns resolver not available'')
         else (printed, query r host))"

definition ethers_line :: "(string \<Rightarrow> u8 list option) \<Rightarrow> string \<Rightarrow> string \<Rightarrow> u8 list option" where
  "ethers_line ethers line =
     (let line = trim_space line
      in if line = [] \<or> hd line = CHR ''#'' then ethers
         else
           (let f = split_fields line
            in if length f < 2 then ethers
               else
                 (case parse_mac (f ! 0) of
                    None \<Rightarrow> ethers
                  | Some mac \<Rightarrow> ethers(f ! 1 \<mapsto> mac))))"

text \<open>\<open>loadEthers\<close>: no file name gives a nil map.\<close>

definition load_ethers ::
  "(string \<Rightarrow> string option) \<Rightarrow> string \<Rightarrow> string + (string \<Rightarrow> u8 list option) option" where
  "load_ethers open_file name =
     (if name = [] then Inr None
      else
        (case open_file name of
           None \<Rightarrow> Inl ''open''
         | Some content \<Rightarrow>
             (let (ls, err) = scan_lines content
              in if err then Inl ''token too long''
                 else Inr (Some (foldl ethers_line Map.empty ls)))))"

definition ethers_lookup :: "(string \<Rightarrow> u8 list option) option \<Rightarrow> string \<Rightarrow> string + u8 list" where
  "ethers_lookup ethers name =
     (case ethers of
        None \<Rightarrow> Inl ''ethers not available''
      | Some t \<Rightarrow> (case t name of None \<Rightarrow> Inl ''unknown host'' | Some mac \<Rightarrow> Inr mac))"

section \<open>The command\<close>

record flags =
  flag_raw :: bool
  flag_optimize :: bool
  flag_dlt :: string
  flag_snaplen :: int
  flag_resolver :: string
  flag_ethers :: string
  flag_netmask :: string

definition cli_link_type :: "(string \<Rightarrow> string) \<Rightarrow> string \<Rightarrow> u64 option" where
  "cli_link_type uni name =
     (case lookup_link_type uni name of
        Some v \<Rightarrow> Some (of_nat v)
      | None \<Rightarrow> map_option of_int (parse_int name))"

fun join_space :: "string list \<Rightarrow> string" where
  "join_space [] = []"
| "join_space [a] = a"
| "join_space (a # b # as) = a @ CHR '' '' # join_space (b # as)"

text \<open>
  \<open>main\<close>: the exit code and what is written to standard output after the compilation. The
  compiler gets the expression, the options and the two lookups; it returns an error or the
  program's bytes and its disassembly.
\<close>

definition cli_main ::
  "(string \<Rightarrow> string) \<Rightarrow> (string \<Rightarrow> string option) \<Rightarrow> (string \<Rightarrow> bool) \<Rightarrow>
    (string \<Rightarrow> options \<Rightarrow> string \<Rightarrow> (string \<Rightarrow> u8 list option) option \<Rightarrow> string + u8 list \<times> u8 list) \<Rightarrow>
    flags \<Rightarrow> string list \<Rightarrow> nat \<times> u8 list" where
  "cli_main uni open_file ipv6 compile fl args =
     (if args = [] then (2, [])
      else
        (case cli_link_type uni (flag_dlt fl) of
           None \<Rightarrow> (2, [])
         | Some lt \<Rightarrow>
             (case load_ethers open_file (flag_ethers fl) of
                Inl _ \<Rightarrow> (2, [])
              | Inr ethers \<Rightarrow>
                  (case parse_mask ipv6 (flag_netmask fl) of
                     Inl _ \<Rightarrow> (2, [])
                   | Inr nm \<Rightarrow>
                       (case compile (join_space args)
                          \<lparr>link_type = lt, opt_snaplen = of_int (flag_snaplen fl), netmask = nm,
                           optimize = flag_optimize fl\<rparr> (flag_resolver fl) ethers of
                          Inl _ \<Rightarrow> (1, [])
                        | Inr (bytes, text) \<Rightarrow>
                            (0, if flag_raw fl then bytes else text @ [10]))))))"

section \<open>The generator of the constants\<close>

text \<open>
  \<open>run\<close> of \<open>constgen.go\<close>: the \<open>#define\<close>s of three words of each file, in order; a name that was
  seen before or a value that is no number is an error.
\<close>

fun constgen_lines :: "string list \<Rightarrow> string list \<Rightarrow> (string + (string \<times> string) list) \<times> string list" where
  "constgen_lines seen [] = (Inr [], seen)"
| "constgen_lines seen (line # lines) =
     (let parts = split_fields (trim_space line)
      in if length parts \<noteq> 3 \<or> hd parts \<noteq> ''#define'' then constgen_lines seen lines
         else
           (let name = parts ! 1; val = parts ! 2
            in if name \<in> set seen then (Inl ''duplicate'', seen)
               else if parse_int val = None then (Inl ''invalid'', seen)
               else
                 (case constgen_lines (name # seen) lines of
                    (Inl e, seen) \<Rightarrow> (Inl e, seen)
                  | (Inr es, seen) \<Rightarrow> (Inr ((name, val) # es), seen))))"

fun constgen_files :: "string list \<Rightarrow> string list list \<Rightarrow> string + (string \<times> string) list list" where
  "constgen_files seen [] = Inr []"
| "constgen_files seen (ls # files) =
     (case constgen_lines seen ls of
        (Inl e, _) \<Rightarrow> Inl e
      | (Inr es, seen) \<Rightarrow>
          (case constgen_files seen files of Inl e \<Rightarrow> Inl e | Inr ess \<Rightarrow> Inr (es # ess)))"

section \<open>Netmasks are contiguous\<close>

lemma mask_plus_one: "(mask n :: u32) + 1 = 2 ^ n"
  by (simp add: mask_eq_exp_minus_1)

lemma trailing_ones:
  fixes x :: u32
  assumes "x AND (x + 1) = 0"
  shows "\<exists>n \<le> 32. x = mask n"
proof (cases "\<forall>i < 32. bit x i")
  case True
  then have "x = mask 32" by (intro bit_word_eqI) (simp add: bit_mask_iff)
  then show ?thesis by blast
next
  case False
  define n where "n = (LEAST i. \<not> bit x i)"
  obtain k where k: "k < 32" "\<not> bit x k" using False by blast
  have n: "\<not> bit x n" "\<And>i. i < n \<Longrightarrow> bit x i"
    unfolding n_def by (rule LeastI [of _ k]; use k in simp) (blast dest: not_less_Least)
  have le: "n \<le> 32" using Least_le [of "\<lambda>i. \<not> bit x i" k] k unfolding n_def by simp
  define h where "h = x AND NOT (mask (Suc n))"
  have bh: "bit h i \<longleftrightarrow> n < i \<and> bit x i" for i
    using bit_imp_le_length [of x i] by (auto simp: h_def bit_simps)
  have x: "x = h OR mask n"
  proof (rule bit_word_eqI)
    fix i assume "i < LENGTH(32)"
    then show "bit x i = bit (h OR mask n) i"
      using n bh [of i] by (cases "i < n"; cases "i = n") (auto simp: bit_or_iff bit_mask_iff)
  qed
  have "h AND mask n = 0" by (rule bit_word_eqI) (auto simp: bit_and_iff bh bit_mask_iff)
  then have "x = h + mask n" using x by (simp add: disjunctive_add_eq_or)
  then have "x + 1 = h + 2 ^ n" by (simp only: add.assoc mask_plus_one)
  have "h AND 2 ^ n = 0" by (rule bit_word_eqI) (auto simp: bit_and_iff bh bit_exp_iff)
  then have "x + 1 = h OR 2 ^ n" using \<open>x + 1 = h + 2 ^ n\<close> by (simp add: disjunctive_add_eq_or)
  with assms have "x AND (h OR 2 ^ n) = 0" by simp
  then have "h = 0"
  proof -
    assume z: "x AND (h OR 2 ^ n) = 0"
    have "\<not> bit h i" for i
      using arg_cong [OF z, of "\<lambda>w. bit w i"] bh [of i] by (auto simp: bit_and_iff bit_or_iff)
    then show "h = 0" by (intro bit_word_eqI) simp
  qed
  with x le show ?thesis by auto
qed


lemma mask_trailing: "(mask n :: u32) AND (mask n + 1) = 0"
  unfolding mask_plus_one by (rule bit_word_eqI) (auto simp: bit_and_iff bit_mask_iff bit_exp_iff)

text \<open>The netmask of \<open>n\<close> bits: \<open>n\<close> ones, then zeros.\<close>

definition netmask_word :: "nat \<Rightarrow> u32" where
  "netmask_word n = NOT (mask (32 - n))"

lemma bits_to_mask_word: "be_uint32 (bits_to_mask n) = Some (netmask_word n)"
proof -
  have "push_bit (32 - n) (- 1 :: u32) = netmask_word n"
    by (rule bit_word_eqI) (auto simp: netmask_word_def bit_simps)
  moreover have "be_uint32 (bits_to_mask n) = Some (push_bit (32 - n) (- 1))"
  proof -
    define m where "m = push_bit (32 - n) (- 1 :: u32)"
    have "ucast (ucast m :: u8) OR push_bit 8 (ucast (ucast (drop_bit 8 m) :: u8))
        OR push_bit 16 (ucast (ucast (drop_bit 16 m) :: u8)) OR push_bit 24 (ucast (ucast (drop_bit 24 m) :: u8)) = m"
      using le_uint32_bytes [of m] by (simp add: le_uint32_def le_bytes32_def)
    then show ?thesis unfolding be_uint32_def bits_to_mask_def Let_def m_def [symmetric] by simp
  qed
  ultimately show ?thesis by simp
qed

lemma be_uint32_4: "length b = 4 \<Longrightarrow> be_uint32 b = Some (the (be_uint32 b))"
  by (simp add: be_uint32_def)

text \<open>
  C24: Whatever non-empty string \<open>parseMask\<close> accepts, the mask it answers is contiguous: some number of at
  most 32 leading ones. The string may be a dotted address, which is refused unless it is such a mask, a
  network with a prefix length, or a prefix length alone.
\<close>

theorem parse_mask_contiguous:
  assumes "parse_mask ipv6 s = Inr a" "s \<noteq> []"
  shows "\<exists>b n. a = Ip4 b \<and> n \<le> 32 \<and> be_uint32 b = Some (netmask_word n)"
proof -
  consider (bits) n where "a = Ip4 (bits_to_mask n)" "n \<le> 32"
    | (addr) b where "a = Ip4 b" "parse_addr ipv6 s = Some (Addr4 b)"
        "NOT (the (be_uint32 b)) AND (NOT (the (be_uint32 b)) + 1) = 0"
    using assms
    by (auto simp: parse_mask_def Let_def dest: parse_prefix_bits
      split: option.splits parsed_addr.splits prod.splits if_splits)
  then show ?thesis
  proof cases
    case bits
    with bits_to_mask_word show ?thesis by blast
  next
    case addr
    from trailing_ones [OF addr(3)] obtain n where n: "n \<le> 32" "NOT (the (be_uint32 b)) = mask n" by blast
    then have "the (be_uint32 b) = netmask_word (32 - n)"
      by (metis netmask_word_def bit.double_compl diff_diff_cancel)
    with be_uint32_4 [OF parse_addr4_length [OF addr(2)]] addr(1)
    show ?thesis by (intro exI [of _ b] exI [of _ "32 - n"]) simp
  qed
qed

theorem parse_mask_contiguous_witness:
  "\<exists>b n. Ip4 [255, 255, 240, 0] = Ip4 b \<and> n \<le> 32 \<and> be_uint32 b = Some (netmask_word n)"
proof (rule parse_mask_contiguous)
  show "parse_mask (\<lambda>_. False) ''255.255.240.0'' = Inr (Ip4 [255, 255, 240, 0])" by code_simp
qed simp

section \<open>Lookups\<close>

text \<open>The entry that one line of an ethers file makes, if any.\<close>

definition ethers_entry :: "string \<Rightarrow> (string \<times> u8 list) option" where
  "ethers_entry line =
     (let f = split_fields (trim_space line)
      in if f = [] \<or> hd (trim_space line) = CHR ''#'' \<or> length f < 2 then None
         else map_option (Pair (f ! 1)) (parse_mac (f ! 0)))"

lemma ethers_line_entry:
  "ethers_line t line = (case ethers_entry line of None \<Rightarrow> t | Some (n, mac) \<Rightarrow> t(n \<mapsto> mac))"
  by (auto simp: ethers_line_def ethers_entry_def split_fields_def Let_def split: option.splits)

lemma foldl_ethers:
  "foldl ethers_line t ls = t ++ map_of (rev (List.map_filter ethers_entry ls))"
  by (induction ls arbitrary: t)
    (auto simp: ethers_line_entry List.map_filter_simps map_add_def fun_eq_iff split: option.splits)

text \<open>
  C25: \<open>loadEthers\<close> of a readable file with lines under 64 KiB answers a name with the hardware
  address of the last line that gives it one: comments, short lines and lines with an invalid
  address are skipped, and any other name is an error. Without a file every lookup fails.
\<close>

theorem ethers_last_line_wins:
  assumes "open_file path = Some content" "path \<noteq> []" "scan_lines content = (ls, False)"
  shows "\<exists>t. load_ethers open_file path = Inr (Some t) \<and>
    ethers_lookup (Some t) name =
      (case map_of (rev (List.map_filter ethers_entry ls)) name of
         None \<Rightarrow> Inl ''unknown host'' | Some mac \<Rightarrow> Inr mac) \<and>
    load_ethers open_file [] = Inr None \<and> ethers_lookup None name = Inl ''ethers not available''"
  using assms by (simp add: load_ethers_def ethers_lookup_def foldl_ethers)

theorem ethers_last_line_wins_witness:
  "\<exists>t. load_ethers (\<lambda>_. Some ''# x'') ''f'' = Inr (Some t) \<and>
    ethers_lookup (Some t) ''a'' =
      (case map_of (rev (List.map_filter ethers_entry [''# x''])) ''a'' of
         None \<Rightarrow> Inl ''unknown host'' | Some mac \<Rightarrow> Inr mac) \<and>
    load_ethers (\<lambda>_. Some ''# x'') [] = Inr None \<and> ethers_lookup None ''a'' = Inl ''ethers not available''"
proof (rule ethers_last_line_wins)
  show "scan_lines ''# x'' = ([''# x''], False)"
    by (simp add: scan_lines.simps [of "''# x''"] scan_lines.simps [of "[]"] drop_cr_def)
qed simp_all

section \<open>The constants' generator\<close>

lemma constgen_lines_names:
  "constgen_lines seen ls = (Inr es, seen') \<Longrightarrow>
    set seen' = set seen \<union> set (map fst es) \<and> distinct (map fst es) \<and> set seen \<inter> set (map fst es) = {} \<and>
    (\<forall>(n, v) \<in> set es. parse_int v \<noteq> None)"
proof (induction seen ls arbitrary: es seen' rule: constgen_lines.induct)
  case (1 seen)
  then show ?case by simp
next
  case (2 seen line lines)
  define parts where "parts = split_fields (trim_space line)"
  show ?case
  proof (cases "length parts \<noteq> 3 \<or> hd parts \<noteq> ''#define''")
    case True
    with 2 show ?thesis by (simp add: parts_def Let_def)
  next
    case False
    with 2(3) obtain es' where es: "es = (parts ! 1, parts ! 2) # es'" "parts ! 1 \<notin> set seen"
      "parse_int (parts ! 2) \<noteq> None" "constgen_lines (parts ! 1 # seen) lines = (Inr es', seen')"
      by (auto simp: parts_def Let_def split: if_splits prod.splits sum.splits)
    have "set seen' = set (parts ! 1 # seen) \<union> set (map fst es') \<and> distinct (map fst es') \<and>
        set (parts ! 1 # seen) \<inter> set (map fst es') = {} \<and> (\<forall>(n, v) \<in> set es'. parse_int v \<noteq> None)"
      using 2(2) [OF parts_def _ refl refl es(2) es(3) es(4)] False by (simp add: parts_def)
    with es(1-3) show ?thesis by auto
  qed
qed

text \<open>
  C26: When the generator of \<open>const.go\<close> succeeds, no name is declared twice, in one file or
  across files, and every value is an integer.
\<close>

theorem constgen_distinct:
  assumes "constgen_files [] files = Inr ess"
  shows "distinct (map fst (concat ess)) \<and> list_all (\<lambda>(n, v). parse_int v \<noteq> None) (concat ess)"
proof -
  have "distinct (map fst (concat ess)) \<and> set seen \<inter> set (map fst (concat ess)) = {} \<and>
      (\<forall>(n, v) \<in> set (concat ess). parse_int v \<noteq> None)"
    if "constgen_files seen files = Inr ess" for seen files ess
    using that
  proof (induction seen files arbitrary: ess rule: constgen_files.induct)
    case (1 seen)
    then show ?case by simp
  next
    case (2 seen ls files)
    obtain es seen' where es: "constgen_lines seen ls = (Inr es, seen')"
      using 2(2) by (auto split: prod.splits sum.splits)
    with 2(2) obtain ess' where ess: "constgen_files seen' files = Inr ess'" "ess = es # ess'"
      by (auto split: sum.splits)
    from 2(1) [OF es [symmetric] refl ess(1)] constgen_lines_names [OF es] ess(2)
    show ?case by (auto simp: disjoint_iff)
  qed
  from this [OF assms] show ?thesis by (simp add: list_all_iff)
qed

theorem constgen_distinct_witness:
  "distinct (map fst (concat [[(''A'', ''0x1f'')], [(''B'', ''2'')]])) \<and>
    list_all (\<lambda>(n, v). parse_int v \<noteq> None) (concat [[(''A'', ''0x1f'')], [(''B'', ''2'')]])"
  by (rule constgen_distinct [of "[[''#define A 0x1f'', ''// c''], [''#define B 2'']]"]) code_simp

end
