(* ===== verification/Spec2Isabelle.thy ===== *)
theory Spec2Isabelle
  imports Bpf_Validate Go_Program Go_Compile Alloc Libc Nametoaddr Codegen_Logic Codegen_Blocks Optimizer_Fold Compile_Expr Pcap_Compile Compile_Ports Compile_Filter
    Link_Types Cli
begin

text \<open>
  A model of \<open>go-pcapfilter\<close>, a Go package that compiles tcpdump filter expressions and runs them on
  packets. The package is a thin layer of Go (\<open>filter.go\<close>, \<open>dlt_generated.go\<close>, the command in
  \<open>cmd/pcap-compile-filter\<close>) over libpcap, which was compiled to WebAssembly and then translated to
  Go: \<open>internal/bpf.go\<close> is libpcap on a linear memory of bytes, function by function, with the C
  names, locals \<open>v0\<close>, \<open>v1\<close>, ... and labels \<open>l0\<close>, \<open>l1\<close>, .... The definitions keep these names, so
  that a definition can be read beside its function. An expression goes through these parts:

  \<^item> \<open>Compile\<close> (\<open>filter.go\<close>, theory \<open>Go_Compile\<close>) hands the string to the module and recovers the
    panics with which the module leaves on an error (theory \<open>Errors\<close>).
  \<^item> \<open>_pcap_compile\<close> (theory \<open>Pcap_Compile\<close>) sets up the state of the compiler for the link type, gives
    the string to the scanner as an input buffer (\<open>Scanner_Buffers\<close>), runs the parser, the optimizer and
    the emission, and gives back what it allocated.
  \<^item> The parser calls the readers of names, numbers and addresses (theory \<open>Nametoaddr\<close>, on the C
    strings of theory \<open>Libc\<close>) and the code generator. The generator takes its memory from an arena
    over the heap (\<open>Alloc\<close>, \<open>Arena\<close>), makes blocks that load and test a field of the packet
    (\<open>Codegen_Blocks\<close>, \<open>Codegen_Tests\<close>) and connects them by threading lists of exits through their jump
    fields (\<open>Codegen_Logic\<close>).
  \<^item> \<open>finish_parse\<close> (theory \<open>Finish_Parse\<close>) puts in front what link layers with headers of variable
    length need, and adds the blocks that accept and reject.
  \<^item> The optimizer folds constants (\<open>Optimizer_Fold\<close>).
  \<^item> \<open>icode_to_fcode\<close> (theory \<open>Emit\<close>) lays the blocks out as a program of BPF instructions, in rounds,
    until every long jump has its extra instruction.
  \<^item> The validator (\<open>Bpf_Validate\<close>) checks a program, and \<open>Match\<close> (\<open>Go_Program\<close>) runs it with the
    interpreter (\<open>Bpf_Filter\<close>).

  \<^bold>\<open>How state is modelled.\<close> \<open>Wasm_Memory\<close> has the memory, a list of bytes, with the loads and stores
  of the transpiled code: an access out of range is \<open>None\<close>, Go's run-time panic. Machine integers are
  words of their width, so that they wrap around as Go's do. A function of the module takes and
  returns the memory; one that may leave the module with a panic returns a \<open>jump\<close> (\<open>Ret\<close>, \<open>Env_panic\<close>
  or \<open>Trap\<close>). A loop of the code is a \<open>partial_function (option)\<close>, so that a loop that never ends has no
  result, or has fuel; the properties prove that the results are there. The stack pointer is a
  parameter, because every function restores it. What is outside the repository is a parameter
  too: the resolver of host names, the files of the command. So is what the model leaves out: the
  formatters \<open>vsnprintf\<close>, \<open>snprintf\<close> and \<open>fprintf\<close>, and in \<open>Pcap_Compile\<close> the parser and the optimizer.

  \<^bold>\<open>Theories.\<close> \<open>Prelude\<close> and \<open>Wasm_Memory\<close> hold what all share, among it the locales
  \<open>terminating_machine\<close> (a machine run with fuel, interpreted by the BPF machine in \<open>Bpf_Machine\<close>),
  \<open>forward_simulation\<close> (interpreted by the interpreter) and \<open>byte_cell\<close> (a value stored in some bytes of
  the memory); the interface of the allocator is \<open>bump_allocator\<close>. The other theories and their sources:

  \<^item> \<open>Bpf_Machine\<close>: the meaning of BPF programs on packets, the specification of the next two.
    \<open>Bpf_Filter\<close>: \<open>_pcapint_filter_with_aux_data\<close>, one definition per label, and its refinement.
    \<open>Bpf_Validate\<close>: \<open>_pcapint_validate_filter\<close>, equivalent to \<open>valid_prog\<close>.
  \<^item> \<open>Alloc\<close>: \<open>Xmalloc\<close>, \<open>Xfree\<close>, \<open>_calloc\<close>, \<open>_realloc\<close>, with the invariant \<open>heap_inv\<close> and the live blocks
    of any sequence of calls. \<open>Frames\<close>: which bytes an operation keeps (\<open>kept\<close>), on which all proofs about
    the generator and the emission rest.
  \<^item> \<open>Errors\<close>: \<open>_bpf_set_error\<close>, \<open>_bpf_error\<close>, \<open>_opt_error\<close> and the two ways to leave the module.
  \<^item> \<open>Codegen_Logic\<close>: \<open>_gen_and\<close>, \<open>_gen_or\<close>, \<open>_gen_not\<close>, \<open>_sappend\<close>. A \<open>fragment\<close> is a set of blocks with two
    lists of open exits and a meaning, the truth value in three-valued logic that its start leads to;
    the connectives are conjunction, disjunction and negation of meanings. \<open>Codegen_Graph\<close>: fragments have
    no cycle.
  \<^item> \<open>Codegen_Blocks\<close>: \<open>_newchunk_nolongjmp\<close>, \<open>_gen_load_a\<close>, \<open>_gen_cmp\<close>, \<open>_gen_ncmp\<close>, \<open>_gen_mcmp\<close>,
    \<open>_gen_retblk\<close> and their parts. \<open>Arena\<close>: the abstract state of the arena and what a request does to
    it. \<open>Codegen_Tests\<close>: the statements and blocks the tests make. \<open>Codegen_Expr\<close>: \<open>makes\<close>, that a generator
    leaves the code of an expression, with a rule for each way to put generators together.
  \<^item> \<open>Codegen_Primitives\<close>: the functions that test one field (\<open>_gen_ip_proto\<close>, \<open>_gen_portatom\<close>,
    \<open>_gen_bcmp\<close> and their like). \<open>Codegen_Linktype\<close>: \<open>_gen_linktype\<close>, the test of the network protocol, for
    every link type. \<open>Codegen_Protocols\<close>: \<open>_gen_proto\<close>, \<open>_gen_proto_abbrev_internal\<close>, \<open>_gen_port\<close>,
    \<open>_gen_port6\<close>. \<open>Codegen_Hosts\<close>: \<open>_gen_host\<close>, \<open>_gen_host6\<close>, the addresses of the link layers, and the
    functions that the parser calls for a number or an address. \<open>Codegen_Made\<close>: the expressions whose code
    they leave, on Ethernet.
  \<^item> \<open>Finish_Parse\<close>: \<open>_finish_parse\<close>, one definition for each part of it. \<open>Finish_Program\<close>: what it does
    for a link layer without variable parts, and the meaning of the tests on a packet. \<open>Compile_Expr\<close>:
    the path of an expression from the generator to the emitted program.
  \<^item> \<open>Scanner_Buffers\<close>: \<open>_pcap__scan_string\<close> and the buffers of the scanner. \<open>Pcap_Compile\<close>:
    \<open>Xbpf_compile\<close>, \<open>_pcap_open_dummy\<close>, \<open>_pcap_compile\<close>, the set-up for every link type and the way
    each error leaves. \<open>Compile_Frame\<close>: what the set-up keeps of the memory. \<open>Scanner_Input\<close>,
    \<open>Compile_Setup\<close>: the state in which the parser starts, for Ethernet. \<open>Compile_Program\<close>: the locale
    \<open>filter_parser\<close>, the contract between \<open>_pcap_compile\<close> and a parser that leaves the code of an
    expression, and what \<open>Xbpf_compile\<close> and \<open>Compile\<close> return under it. \<open>Compile_Filter\<close>: the
    property of the whole path for every parser that keeps the contract: what \<open>Compile\<close> returns accepts
    exactly the packets on which the expression holds. The locale is interpreted by the generator's own
    functions followed by \<open>_finish_parse\<close> (\<open>parse_gen\<close>), which stands where the actions of the parser are and
    does not look at the string: it shows that the contract can be met, not that \<open>_pcap_parse\<close> meets it.
    \<open>Compile_Ports\<close>: what \<open>_gen_ncode\<close> generates for a port becomes a program that accepts the packets with
    the port, which are described by their bytes (\<open>has_port\<close>).
  \<^item> \<open>Icode\<close>: block graphs and their meaning, and that a laid out graph is computed. \<open>Emit\<close>:
    \<open>_icode_to_fcode\<close>, \<open>_convert_code_r\<close>, \<open>_count_stmts\<close>. \<open>Emit_Parts\<close>, \<open>Emit_Convert\<close>,
    \<open>Emit_Program\<close>: what they write for a block, in a round, and over all rounds; an emitted program passes the
    validator (\<open>valid_code\<close>).
  \<^item> \<open>Optimizer_Fold\<close>: \<open>_fold_op\<close>.
  \<^item> \<open>Nametoaddr\<close>: the readers of names, addresses and numbers. \<open>Libc\<close>: \<open>internal/libc.go\<close> and the C
    functions on strings.
  \<^item> \<open>Go_Program\<close>, \<open>Go_Compile\<close>: \<open>filter.go\<close>. \<open>Link_Types\<close>: \<open>internal/const.go\<close>, \<open>dlt.go\<close> and
    \<open>dlt_generated.go\<close>. \<open>Cli\<close>: the command and \<open>constgen.go\<close>, on the library functions of \<open>Go_Strings\<close>.

  \<^bold>\<open>Bounds and fuel.\<close> A BPF run has fuel \<open>65 * n + 1\<close> for a program of \<open>n\<close> instructions: a run has at most
  64 jumps back, and between two of them each step moves forward. The rounds of \<open>icode_to_fcode\<close> have fuel
  for one round for each jump that may become long, two for a block, which are the most that fail;
  the recursion of \<open>_convert_code_r\<close> has a depth above the rank of the first block. \<open>emit_ready\<close> and
  \<open>code_ready\<close> state these bounds. The memory starts with 128 KiB and grows when an allocation needs it, up
  to the 4 GiB that an address reaches; so what the properties require of the room is only that the heap
  ends below that limit (\<open>fits\<close>, \<open>emit_room\<close>, \<open>compile_room\<close>, \<open>program_end\<close>), whatever the length of the
  memory is. An allocation that would pass the limit is an error of the compiler. For a whole compilation
  \<open>module_ready\<close> says that the module is in the state in which it starts: heap, stack and globals.

  \<^bold>\<open>Not modelled.\<close> The parser \<open>_pcap_parse\<close> and the scanner \<open>_pcap_lex\<close> are automata that bison and flex
  generated from tables, so that no property relates the text of a filter to its expression; \<open>gen_expr\<close> says
  in their place which functions of the generator are called for a boolean expression, and in which
  order. Of the optimizer only the folding of constants is modelled. Of the generator there are not: the
  resolution of names (\<open>_gen_scode\<close>, with \<open>_getaddrinfo\<close>), \<open>_gen_protochain\<close>, \<open>_inet_pton\<close>, the arithmetic
  expressions (\<open>_gen_load\<close>, \<open>_gen_relation\<close>), the encapsulations (\<open>_gen_vlan\<close>, \<open>_gen_mpls\<close>, \<open>_gen_pppoes\<close>,
  \<open>_gen_geneve\<close>, \<open>_gen_vxlan\<close>), and the keywords for ATM, SS7, PF and 802.11 frames. Formatting (\<open>vsnprintf\<close>, \<open>snprintf\<close>, the
  disassembler), the mutex of a \<open>Program\<close> (its calls are a sequence), the download and the build of the
  libpcap sources, and the embedded data segment of the module.
\<close>

end
